(* ===== verification/Margo_Prelude.thy ===== *)
theory Margo_Prelude
  imports
    Complex_Main
    "HOL-Library.Word"
    "HOL-Library.Monad_Syntax"
    "HOL-Library.Multiset"
begin

unbundle bit_operations_syntax

text \<open>
  Shared vocabulary of the development: machine integers, C pointers, the return codes
  of Mercury and Argobots that the sources of Margo name, the linear search that many
  of its functions perform, and generic lemmas on lists and options.
\<close>

section \<open>Types\<close>

type_synonym u8 = "8 word"
type_synonym u16 = "16 word"
type_synonym u32 = "32 word"
type_synonym u64 = "64 word"

text \<open>
  A pointer is \<^const>\<open>None\<close> (NULL) or the address of an object. Structures that are
  reached through pointers are modelled with one function per field, from addresses to
  field values; reading a field through NULL is \<^const>\<open>None\<close> in the option monad.
\<close>

type_synonym addr = nat
type_synonym ptr = "addr option"

text \<open>
  The values of Mercury's \<^verbatim>\<open>hg_return_t\<close> that Margo's sources name. Margo also stores
  the \<^verbatim>\<open>int\<close> result of its own timer functions in a variable of this type; those values
  are \<^verbatim>\<open>HG_CODE\<close>.
\<close>

datatype hg_return =
    HG_SUCCESS | HG_PERMISSION | HG_NOENTRY | HG_NOMEM | HG_INVALID_ARG
  | HG_TIMEOUT | HG_CANCELED | HG_CHECKSUM_ERROR | HG_NO_MATCH | HG_OTHER_ERROR
  | HG_CODE int

abbreviation HG_NOMEM_ERROR :: hg_return where "HG_NOMEM_ERROR \<equiv> HG_NOMEM"
abbreviation HG_INVALID_PARAM :: hg_return where "HG_INVALID_PARAM \<equiv> HG_INVALID_ARG"

section \<open>Theorem collections\<close>

named_theorems ptr_simps \<open>rules that evaluate pointer programs in the option monad\<close>
named_theorems chain_frame \<open>updates that leave a chain of linked nodes alone\<close>

lemma bind_eq_Some_conv [ptr_simps]:
  "(m \<bind> f = Some y) \<longleftrightarrow> (\<exists>x. m = Some x \<and> f x = Some y)"
  by (cases m) auto

section \<open>Linear search\<close>

text \<open>
  The loop \<^verbatim>\<open>for (i = 0; i < len; ++i) if (P(a[i])) return i; return -1;\<close> over an array.
\<close>

primrec find_index :: "('a \<Rightarrow> bool) \<Rightarrow> 'a list \<Rightarrow> nat option" where
  "find_index P [] = None"
| "find_index P (x # xs) = (if P x then Some 0 else map_option Suc (find_index P xs))"

lemma find_index_None_iff: "find_index P xs = None \<longleftrightarrow> (\<forall>x \<in> set xs. \<not> P x)"
  by (induction xs) auto

lemma find_index_SomeD:
  "find_index P xs = Some i \<Longrightarrow> i < length xs \<and> P (xs ! i) \<and> (\<forall>j < i. \<not> P (xs ! j))"
proof (induction xs arbitrary: i)
  case Nil
  then show ?case by simp
next
  case (Cons x xs)
  then show ?case
    by (cases i) (auto split: if_splits simp: less_Suc_eq_0_disj)
qed

lemma find_index_SomeI:
  "i < length xs \<Longrightarrow> P (xs ! i) \<Longrightarrow> (\<And>j. j < i \<Longrightarrow> \<not> P (xs ! j)) \<Longrightarrow> find_index P xs = Some i"
proof (induction xs arbitrary: i)
  case Nil
  then show ?case by simp
next
  case (Cons x xs)
  show ?case
  proof (cases i)
    case 0
    with Cons.prems show ?thesis by simp
  next
    case (Suc k)
    have "\<not> P (xs ! j)" if "j < k" for j
      using Cons.prems(3) [of "Suc j"] that Suc by simp
    then have "find_index P xs = Some k"
      using Cons.prems(1,2) Suc by (intro Cons.IH) auto
    moreover have "\<not> P x" using Cons.prems(3) [of 0] Suc by simp
    ultimately show ?thesis using Suc by simp
  qed
qed

lemma find_index_cong:
  "(\<And>x. x \<in> set xs \<Longrightarrow> P x = Q x) \<Longrightarrow> find_index P xs = find_index Q xs"
  by (induction xs) auto

section \<open>Lists\<close>

lemma set_butlast_Cons_append [simp]: "set (butlast (xs @ [y])) = set xs"
  by simp

lemma hd_append_single: "hd (xs @ [x]) = (if xs = [] then x else hd xs)"
  by (cases xs) auto

lemma last_not_in_butlast: "distinct xs \<Longrightarrow> xs \<noteq> [] \<Longrightarrow> last xs \<notin> set (butlast xs)"
  by (induction xs rule: rev_induct) auto

lemma mset_update_swap_last:
  assumes "i < length xs"
  shows "mset (butlast (xs[i := last xs])) = mset xs - {# xs ! i #}"
proof (cases "i = length xs - 1")
  case True
  have "xs \<noteq> []" using assms by auto
  then obtain ys y where xs: "xs = ys @ [y]" by (metis append_butlast_last_id)
  then show ?thesis using True by simp
next
  case False
  have "xs \<noteq> []" using assms by auto
  then obtain ys y where xs: "xs = ys @ [y]" by (metis append_butlast_last_id)
  then have "i < length ys" using assms False by auto
  then show ?thesis using xs by (simp add: list_update_append mset_update nth_append)
qed

lemma map_update_same: "f y = f (xs ! i) \<Longrightarrow> map f (xs[i := y]) = map f xs"
  by (cases "i < length xs") (auto intro!: nth_equalityI simp: nth_list_update list_update_beyond)

section \<open>Words\<close>

lemma word_less_plus_1: "x \<noteq> - 1 \<Longrightarrow> x < x + (1::'a::len word)"
proof -
  assume x: "x \<noteq> - 1"
  then have "x + 1 \<noteq> 0" using max_word_wrap by blast
  then have "unat (x + 1) = Suc (unat x)" by (metis Suc_eq_plus1 add.commute unatSuc)
  then show ?thesis by (simp add: word_less_nat_alt)
qed

end
