(* ===== verification/Rpc_Id.thy ===== *)
theory Rpc_Id
  imports Margo_Prelude
begin

text \<open>
  RPC identifiers (\<^verbatim>\<open>src/margo-id.h\<close>): a 64-bit Mercury id packs the hash of the RPC
  name and a 16-bit provider id. \<^verbatim>\<open>HASH_JEN\<close> is the hash of \<^verbatim>\<open>src/uthash.h\<close>. The sizes are
  those of \<^verbatim>\<open>include/margo.h\<close>: \<^verbatim>\<open>__MARGO_PROVIDER_ID_SIZE\<close> is \<^verbatim>\<open>sizeof(hg_id_t) / 4 = 2\<close> bytes.
\<close>

section \<open>The Jenkins hash\<close>

definition HASH_JEN_MIX :: "u32 \<Rightarrow> u32 \<Rightarrow> u32 \<Rightarrow> u32 \<times> u32 \<times> u32" where
  "HASH_JEN_MIX a b c =
    (let a = a - b; a = a - c; a = a XOR drop_bit 13 c;
         b = b - c; b = b - a; b = b XOR push_bit 8 a;
         c = c - a; c = c - b; c = c XOR drop_bit 13 b;
         a = a - b; a = a - c; a = a XOR drop_bit 12 c;
         b = b - c; b = b - a; b = b XOR push_bit 16 a;
         c = c - a; c = c - b; c = c XOR drop_bit 5 b;
         a = a - b; a = a - c; a = a XOR drop_bit 3 c;
         b = b - c; b = b - a; b = b XOR push_bit 10 a;
         c = c - a; c = c - b; c = c XOR drop_bit 15 b
     in (a, b, c))"

text \<open>The byte of the key at an index, as \<^verbatim>\<open>(unsigned)_hj_key[n]\<close>.\<close>

definition key_byte :: "string \<Rightarrow> nat \<Rightarrow> u32" where
  "key_byte key n = of_char (key ! n)"

definition key_word :: "string \<Rightarrow> nat \<Rightarrow> u32" where
  "key_word key n =
     key_byte key n + push_bit 8 (key_byte key (n + 1))
     + push_bit 16 (key_byte key (n + 2)) + push_bit 24 (key_byte key (n + 3))"

text \<open>The \<^verbatim>\<open>while (_hj_k >= 12U)\<close> loop: it consumes twelve bytes of the key per turn.\<close>

fun hash_jen_loop ::
  "u32 \<Rightarrow> u32 \<Rightarrow> u32 \<Rightarrow> string \<Rightarrow> nat \<Rightarrow> u32 \<times> u32 \<times> u32 \<times> string \<times> nat" where
  "hash_jen_loop i j h key k =
     (if 12 \<le> k then
        (case HASH_JEN_MIX (i + key_word key 0) (j + key_word key 4) (h + key_word key 8) of
           (i', j', h') \<Rightarrow> hash_jen_loop i' j' h' (drop 12 key) (k - 12))
      else (i, j, h, key, k))"

declare hash_jen_loop.simps [simp del]

text \<open>
  The \<^verbatim>\<open>switch\<close> with fall-through: the case \<^verbatim>\<open>n\<close> is entered, and all the smaller ones run
  after it, so the addition of byte \<open>n - 1\<close> happens exactly when \<open>n \<le> k\<close>.
\<close>

definition hash_jen_tail :: "u32 \<Rightarrow> u32 \<Rightarrow> u32 \<Rightarrow> string \<Rightarrow> nat \<Rightarrow> u32 \<times> u32 \<times> u32" where
  "hash_jen_tail i j h key k =
    (let byte = (\<lambda>n s. if n < k then push_bit s (key_byte key n) else 0)
     in (i + byte 3 24 + byte 2 16 + byte 1 8 + byte 0 0,
         j + byte 7 24 + byte 6 16 + byte 5 8 + byte 4 0,
         h + byte 10 24 + byte 9 16 + byte 8 8))"

definition HASH_JEN :: "string \<Rightarrow> u32" where
  "HASH_JEN key =
    (let keylen = word_of_nat (length key) :: u32
     in case hash_jen_loop 0x9e3779b9 0x9e3779b9 0xfeedbeef key (unat keylen) of
          (i, j, h, rest, k) \<Rightarrow>
            (case hash_jen_tail i j (h + keylen) rest k of
               (i', j', h') \<Rightarrow> snd (snd (HASH_JEN_MIX i' j' h'))))"

section \<open>Packing and unpacking\<close>

definition MARGO_DEFAULT_PROVIDER_ID :: u16 where
  "MARGO_DEFAULT_PROVIDER_ID = 0xFFFF"

definition MARGO_MAX_PROVIDER_ID :: u64 where
  "MARGO_MAX_PROVIDER_ID = 0xFFFF"

text \<open>The two results are \<^verbatim>\<open>*base_id\<close> and \<^verbatim>\<open>*provider_id\<close>.\<close>

definition demux_id :: "u64 \<Rightarrow> u64 \<times> u16" where
  "demux_id inp =
    (push_bit 16 (drop_bit 16 inp) OR MARGO_MAX_PROVIDER_ID,
     0 + ucast (inp AND 0xFFFF))"

definition mux_id :: "u64 \<Rightarrow> u16 \<Rightarrow> u64" where
  "mux_id base_id provider_id = push_bit 16 (drop_bit 16 base_id) OR ucast provider_id"

text \<open>
  The preprocessor selects one of two layouts, by the version of Mercury: from 2.3.0 the
  hash fills the upper half of the id, before that it is shifted by 16 bits in a 32-bit
  \<^verbatim>\<open>unsigned\<close>.
\<close>

definition gen_id :: "bool \<Rightarrow> string \<Rightarrow> u16 \<Rightarrow> u64" where
  "gen_id hg_2_3 func_name provider_id =
    (let hashval = HASH_JEN func_name
     in if hg_2_3 then push_bit 32 (ucast hashval) OR ucast provider_id
        else ucast (push_bit 16 hashval) OR ucast provider_id)"

section \<open>Properties\<close>

lemma bit_low_mask16: "bit (0xFFFF :: u64) n \<longleftrightarrow> n < 16"
proof -
  have "(0xFFFF :: u64) = mask 16" by (simp add: mask_eq_exp_minus_1)
  then show ?thesis by (simp only: bit_mask_iff) auto
qed

lemma bit_all_ones16: "bit (0xFFFF :: u16) n \<longleftrightarrow> n < 16"
proof -
  have "(0xFFFF :: u16) = mask 16" by (simp add: mask_eq_exp_minus_1)
  then show ?thesis by (simp only: bit_mask_iff) auto
qed

lemma bit_all_ones_int: "bit (0xFFFF :: int) n \<longleftrightarrow> n < 16"
proof -
  have "(0xFFFF :: int) = mask 16" by (simp add: mask_eq_exp_minus_1)
  then show ?thesis by (simp only: bit_mask_iff) auto
qed

lemma bit_MAX_PROVIDER_ID: "bit MARGO_MAX_PROVIDER_ID n \<longleftrightarrow> n < 16"
  unfolding MARGO_MAX_PROVIDER_ID_def by (rule bit_low_mask16)

lemma bit_DEFAULT_PROVIDER_ID: "bit MARGO_DEFAULT_PROVIDER_ID n \<longleftrightarrow> n < 16"
  unfolding MARGO_DEFAULT_PROVIDER_ID_def by (rule bit_all_ones16)

lemma bit_mux_id:
  "bit (mux_id b p) n \<longleftrightarrow> n < 64 \<and> (if n < 16 then bit p n else bit b n)"
  by (auto simp: mux_id_def bit_simps dest: bit_imp_le_length)

lemma bit_gen_id_high:
  "16 \<le> n \<Longrightarrow> bit (gen_id v f p) n \<longleftrightarrow> bit (gen_id v f q) n"
  by (auto simp: gen_id_def Let_def bit_simps dest: bit_imp_le_length)

lemma bit_gen_id_low: "n < 16 \<Longrightarrow> bit (gen_id v f p) n \<longleftrightarrow> bit p n"
  by (auto simp: gen_id_def Let_def bit_simps)

text \<open>
  The id under which a client forwards an RPC to a provider (the id of the name with
  any provider id, re-muxed with the target provider's id) is the id under which the
  provider registered that name. This is what \<^verbatim>\<open>margo_provider_iforward_internal\<close> relies
  on when it computes \<^verbatim>\<open>server_id\<close>.
\<close>

theorem mux_id_gen_id: "mux_id (gen_id v name q) p = gen_id v name p"
proof (rule bit_word_eqI)
  fix n assume n: "n < LENGTH(64)"
  show "bit (mux_id (gen_id v name q) p) n \<longleftrightarrow> bit (gen_id v name p) n"
  proof (cases "n < 16")
    case True
    then show ?thesis using n by (simp add: bit_mux_id bit_gen_id_low)
  next
    case False
    then show ?thesis using n bit_gen_id_high [of n v name q p] by (simp add: bit_mux_id)
  qed
qed

lemma demux_mux_id: "case demux_id i of (b, p) \<Rightarrow> mux_id b p = i"
proof -
  have "mux_id (push_bit 16 (drop_bit 16 i) OR MARGO_MAX_PROVIDER_ID) (ucast (i AND 0xFFFF)) = i"
    by (rule bit_word_eqI)
      (auto simp: bit_mux_id bit_MAX_PROVIDER_ID bit_or_iff bit_and_iff bit_push_bit_iff
         bit_drop_bit_eq bit_all_ones_int bit_ucast_iff)
  then show ?thesis by (simp add: demux_id_def)
qed

text \<open>
  Packing and unpacking are inverse: a muxed id unpacks to its provider id and to the
  base id of the default provider, and packing what an id unpacks to gives the id back.
\<close>

theorem mux_demux_roundtrip:
  "demux_id (mux_id b p) = (mux_id b MARGO_DEFAULT_PROVIDER_ID, p)
   \<and> (case demux_id i of (b', p') \<Rightarrow> mux_id b' p' = i)"
proof -
  have base: "push_bit 16 (drop_bit 16 (mux_id b p)) OR MARGO_MAX_PROVIDER_ID
      = mux_id b MARGO_DEFAULT_PROVIDER_ID"
    by (rule bit_word_eqI)
      (auto simp: bit_mux_id bit_MAX_PROVIDER_ID bit_DEFAULT_PROVIDER_ID
         bit_or_iff bit_push_bit_iff bit_drop_bit_eq)
  have prov: "ucast (mux_id b p AND 0xFFFF) = p"
    by (rule bit_word_eqI) (auto simp: bit_mux_id bit_and_iff bit_all_ones_int bit_ucast_iff)
  show ?thesis using base prov demux_mux_id [of i] by (simp add: demux_id_def)
qed

end
