(* ===== verification/Pool_Interface.thy ===== *)
theory Pool_Interface
  imports Margo_Prelude
begin

text \<open>
  The contract between an Argobots scheduler and a pool definition (the table that
  \<^verbatim>\<open>margo_create_prio_pool_def\<close> and \<^verbatim>\<open>margo_create_efirst_pool_def\<close> fill in). The contents
  of a pool are a multiset of work units; the laws say that pushing a unit adds it, that
  popping hands out one of the units of a non-empty pool and removes it, and that the size
  is the number of units. What a scheduler may rely on, whatever the order in which a pool
  serves its units, is proved here once, from the laws.
\<close>

locale abt_pool =
  fixes push :: "'s \<Rightarrow> 'u \<Rightarrow> 's option"
    and pop :: "'s \<Rightarrow> ('s \<times> 'u option) option"
    and get_size :: "'s \<Rightarrow> int"
    and holds :: "'s \<Rightarrow> 'u multiset \<Rightarrow> bool"
  assumes push_law: "holds s M \<Longrightarrow> u \<notin># M \<Longrightarrow> \<exists>s'. push s u = Some s' \<and> holds s' (add_mset u M)"
    and pop_empty_law: "holds s {#} \<Longrightarrow> \<exists>s'. pop s = Some (s', None) \<and> holds s' {#}"
    and pop_law: "holds s M \<Longrightarrow> M \<noteq> {#} \<Longrightarrow>
      \<exists>s' u. pop s = Some (s', Some u) \<and> u \<in># M \<and> holds s' (M - {#u#})"
    and size_law: "holds s M \<Longrightarrow> get_size s = int (size M)"
    and once_law: "holds s M \<Longrightarrow> count M u \<le> 1"
begin

text \<open>Popping until the pool is empty.\<close>

primrec pop_times :: "nat \<Rightarrow> 's \<Rightarrow> ('s \<times> 'u list) option" where
  "pop_times 0 s = Some (s, [])"
| "pop_times (Suc n) s =
     (case pop s of
        None \<Rightarrow> None
      | Some (s', None) \<Rightarrow> Some (s', [])
      | Some (s', Some u) \<Rightarrow> map_option (map_prod id (Cons u)) (pop_times n s'))"

text \<open>As many pops as the pool has units hand out each of them exactly once.\<close>

lemma pop_times_drains:
  "holds s M \<Longrightarrow> \<exists>s' us. pop_times (size M) s = Some (s', us) \<and> mset us = M \<and> holds s' {#}"
proof (induction "size M" arbitrary: s M)
  case 0
  then show ?case by auto
next
  case (Suc n)
  then have "M \<noteq> {#}" by auto
  then obtain s1 u where s1: "pop s = Some (s1, Some u)" "u \<in># M" "holds s1 (M - {#u#})"
    using pop_law Suc.prems by blast
  moreover have "n = size (M - {#u#})" using s1(2) Suc.hyps(2) by (simp add: size_Diff_singleton)
  ultimately obtain s' us where
    "pop_times n s1 = Some (s', us)" "mset us = M - {#u#}" "holds s' {#}"
    using Suc.hyps(1) by blast
  then show ?case using s1 Suc.hyps(2) [symmetric] by auto
qed

text \<open>Pushing a list of distinct units that are not in the pool.\<close>

primrec push_all :: "'s \<Rightarrow> 'u list \<Rightarrow> 's option" where
  "push_all s [] = Some s"
| "push_all s (u # us) = (case push s u of None \<Rightarrow> None | Some s' \<Rightarrow> push_all s' us)"

lemma push_all_holds:
  "holds s M \<Longrightarrow> distinct us \<Longrightarrow> (\<forall>u \<in> set us. u \<notin># M) \<Longrightarrow>
   \<exists>s'. push_all s us = Some s' \<and> holds s' (M + mset us)"
proof (induction us arbitrary: s M)
  case Nil
  then show ?case by simp
next
  case (Cons u us)
  then obtain s1 where s1: "push s u = Some s1" "holds s1 (add_mset u M)"
    using push_law by force
  have "\<forall>v \<in> set us. v \<notin># add_mset u M" using Cons.prems by auto
  then obtain s' where "push_all s1 us = Some s'" "holds s' (add_mset u M + mset us)"
    using Cons.IH [OF s1(2)] Cons.prems(2) by auto
  then show ?case using s1 by auto
qed

text \<open>Whatever is pushed comes out again, once: nothing is lost and nothing is duplicated.\<close>

lemma push_pop_conservation:
  assumes "holds s M" "distinct us" "\<forall>u \<in> set us. u \<notin># M"
  shows "\<exists>s1 s2 vs. push_all s us = Some s1 \<and> get_size s1 = int (size M + length us)
    \<and> pop_times (size M + length us) s1 = Some (s2, vs)
    \<and> mset vs = M + mset us \<and> holds s2 {#}"
proof -
  obtain s1 where s1: "push_all s us = Some s1" "holds s1 (M + mset us)"
    using push_all_holds [OF assms] by blast
  then show ?thesis using pop_times_drains [OF s1(2)] size_law [OF s1(2)] by auto
qed

end


section \<open>Runs of a scheduler and fairness\<close>

text \<open>
  A run interleaves pushes of units that are not in the pool (new units, and units that
  yielded after they were popped) with pops.
\<close>

datatype 'u pool_event = EPush 'u | EPop "'u option"

inductive pool_run ::
  "('s \<Rightarrow> 'u \<Rightarrow> 's option) \<Rightarrow> ('s \<Rightarrow> ('s \<times> 'u option) option) \<Rightarrow> ('s \<Rightarrow> 'u \<Rightarrow> bool) \<Rightarrow>
   's \<Rightarrow> 'u pool_event list \<Rightarrow> 's \<Rightarrow> bool"
  for push pop in_pool where
  run_done: "pool_run push pop in_pool s [] s"
| run_push: "\<not> in_pool s u \<Longrightarrow> push s u = Some s1 \<Longrightarrow> pool_run push pop in_pool s1 es s' \<Longrightarrow>
    pool_run push pop in_pool s (EPush u # es) s'"
| run_pop: "pop s = Some (s1, r) \<Longrightarrow> pool_run push pop in_pool s1 es s' \<Longrightarrow>
    pool_run push pop in_pool s (EPop r # es) s'"

definition num_pops :: "'u pool_event list \<Rightarrow> nat" where
  "num_pops es = length (filter (\<lambda>e. case e of EPop _ \<Rightarrow> True | EPush _ \<Rightarrow> False) es)"

lemma num_pops_simps [simp]:
  "num_pops [] = 0" "num_pops (EPush u # es) = num_pops es" "num_pops (EPop r # es) = Suc (num_pops es)"
  by (simp_all add: num_pops_def)

text \<open>
  A pool is fair to a unit when the number of pops the unit may still have to wait, a
  measure of the state, never grows and shrinks with every pop that serves another unit.
\<close>

locale fair_pool =
  fixes push :: "'s \<Rightarrow> 'u \<Rightarrow> 's option"
    and pop :: "'s \<Rightarrow> ('s \<times> 'u option) option"
    and in_pool :: "'s \<Rightarrow> 'u \<Rightarrow> bool"
    and waits :: "'s \<Rightarrow> 'u \<Rightarrow> nat \<Rightarrow> bool"
  assumes waits_pos: "waits s u n \<Longrightarrow> 0 < n"
    and push_waits: "waits s u n \<Longrightarrow> \<not> in_pool s v \<Longrightarrow> push s v = Some s' \<Longrightarrow> waits s' u n"
    and pop_serves: "waits s u n \<Longrightarrow> pop s = Some (s', r) \<Longrightarrow> r = Some u \<or> (\<exists>m < n. waits s' u m)"
begin

lemma run_serves:
  assumes "pool_run push pop in_pool s es s'" "waits s u n" "n \<le> num_pops es"
  shows "EPop (Some u) \<in> set es"
  using assms
proof (induction arbitrary: n rule: pool_run.induct)
  case (run_done s)
  then show ?case using waits_pos by fastforce
next
  case (run_push s v s1 es s')
  have "waits s1 u n" using push_waits run_push.prems(1) run_push.hyps(1,2) by blast
  then show ?case using run_push.IH [of n] run_push.prems(2) by simp
next
  case (run_pop s s1 r es s')
  from pop_serves [OF run_pop.prems(1) run_pop.hyps(1)] show ?case
  proof
    assume "\<exists>m < n. waits s1 u m"
    then obtain m where "m < n" "waits s1 u m" by blast
    then have "EPop (Some u) \<in> set es" using run_pop.IH [of m] run_pop.prems(2) by simp
    then show ?thesis by simp
  qed simp
qed

end

end
