(* ===== verification/Pointer_Lists.thy ===== *)
theory Pointer_Lists
  imports Margo_Prelude
begin

text \<open>
  Linked lists through pointers. \<open>chain\<close> says that a list of addresses is linked forward
  through one field and backward through another; it is the building block of the
  abstraction of the three pointer structures of Margo: the doubly linked lists of
  \<^verbatim>\<open>src/utlist.h\<close> (timers), its singly linked lists (handle cache), and the circular
  queues of \<^verbatim>\<open>src/margo-prio-pool.c\<close>. The macros of \<^verbatim>\<open>utlist.h\<close> are translated here, and
  each is shown to implement the list operation it stands for.
\<close>

section \<open>Chains\<close>

fun chain :: "('a \<Rightarrow> 'a option) \<Rightarrow> ('a \<Rightarrow> 'a option) \<Rightarrow> 'a list \<Rightarrow> bool" where
  "chain nx pv [] = True"
| "chain nx pv [a] = True"
| "chain nx pv (a # b # xs) \<longleftrightarrow> nx a = Some b \<and> pv b = Some a \<and> chain nx pv (b # xs)"

lemma chain_append:
  "chain nx pv (xs @ y # ys) \<longleftrightarrow> chain nx pv (xs @ [y]) \<and> chain nx pv (y # ys)"
proof (induction xs)
  case Nil
  then show ?case by simp
next
  case (Cons a xs)
  then show ?case by (cases xs) auto
qed

lemma chain_append2:
  "chain nx pv (xs @ [a, b]) \<longleftrightarrow> chain nx pv (xs @ [a]) \<and> nx a = Some b \<and> pv b = Some a"
  by (subst chain_append) simp

lemma chain_cong:
  assumes "\<And>a. a \<in> set (butlast xs) \<Longrightarrow> nx' a = nx a"
    and "\<And>a. a \<in> set (tl xs) \<Longrightarrow> pv' a = pv a"
  shows "chain nx' pv' xs = chain nx pv xs"
  using assms
proof (induction xs rule: induct_list012)
  case (3 a b xs)
  have "chain nx' pv' (b # xs) = chain nx pv (b # xs)"
    by (rule "3.IH"(2)) (simp_all add: "3.prems")
  then show ?case by (simp add: "3.prems")
qed auto

lemma chain_tl: "chain nx pv (a # xs) \<Longrightarrow> chain nx pv xs"
  by (cases xs) auto

lemma chain_prefix: "chain nx pv (xs @ ys) \<Longrightarrow> chain nx pv xs"
proof (induction xs rule: induct_list012)
  case (3 a b xs)
  then show ?case by simp
qed auto

lemma chain_suffix: "chain nx pv (xs @ ys) \<Longrightarrow> chain nx pv ys"
  by (induction xs) (auto dest: chain_tl)

lemma chain_upd_next [chain_frame]:
  "a \<notin> set (butlast xs) \<Longrightarrow> chain (nx(a := v)) pv xs = chain nx pv xs"
  by (rule chain_cong) auto

lemma chain_upd_prev [chain_frame]:
  "a \<notin> set (tl xs) \<Longrightarrow> chain nx (pv(a := v)) xs = chain nx pv xs"
  by (rule chain_cong) auto

lemma chain_upd_outside [chain_frame]:
  "a \<notin> set xs \<Longrightarrow> chain (nx(a := v)) pv xs = chain nx pv xs"
  "a \<notin> set xs \<Longrightarrow> chain nx (pv(a := v)) xs = chain nx pv xs"
  by (rule chain_cong; auto dest: in_set_butlastD; cases xs; simp)+

section \<open>Doubly linked lists of utlist.h\<close>

text \<open>
  The state a \<^verbatim>\<open>DL_\<close> macro works on: the head pointer and the \<^verbatim>\<open>next\<close> and \<^verbatim>\<open>prev\<close> fields of
  the elements. The head's \<^verbatim>\<open>prev\<close> is the tail; the tail's \<^verbatim>\<open>next\<close> is NULL. A result of
  \<^const>\<open>None\<close> is a failed assertion of the macro or a NULL dereference.
\<close>

record dll =
  dl_head :: ptr
  dl_next :: "addr \<Rightarrow> ptr"
  dl_prev :: "addr \<Rightarrow> ptr"

definition DL_PREPEND :: "addr \<Rightarrow> dll \<Rightarrow> dll option" where
  "DL_PREPEND add d =
    (let d = d\<lparr>dl_next := (dl_next d)(add := dl_head d)\<rparr>
     in case dl_head d of
          Some head \<Rightarrow>
            (let d = d\<lparr>dl_prev := (dl_prev d)(add := dl_prev d head)\<rparr>;
                 d = d\<lparr>dl_prev := (dl_prev d)(head := Some add)\<rparr>
             in Some (d\<lparr>dl_head := Some add\<rparr>))
        | None \<Rightarrow> Some (d\<lparr>dl_prev := (dl_prev d)(add := Some add), dl_head := Some add\<rparr>))"

definition DL_APPEND :: "addr \<Rightarrow> dll \<Rightarrow> dll option" where
  "DL_APPEND add d =
    (case dl_head d of
       Some head \<Rightarrow> do {
         let d = d\<lparr>dl_prev := (dl_prev d)(add := dl_prev d head)\<rparr>;
         tail \<leftarrow> dl_prev d head;
         let d = d\<lparr>dl_next := (dl_next d)(tail := Some add)\<rparr>;
         let d = d\<lparr>dl_prev := (dl_prev d)(head := Some add)\<rparr>;
         Some (d\<lparr>dl_next := (dl_next d)(add := None)\<rparr>)
       }
     | None \<Rightarrow>
         Some (d\<lparr>dl_head := Some add, dl_prev := (dl_prev d)(add := Some add),
                 dl_next := (dl_next d)(add := None)\<rparr>))"

definition DL_APPEND_ELEM :: "ptr \<Rightarrow> addr \<Rightarrow> dll \<Rightarrow> dll option" where
  "DL_APPEND_ELEM el add d =
    (case el of
       Some e \<Rightarrow> do {
         head \<leftarrow> dl_head d;
         let d = d\<lparr>dl_next := (dl_next d)(add := dl_next d e)\<rparr>;
         let d = d\<lparr>dl_prev := (dl_prev d)(add := Some e)\<rparr>;
         let d = d\<lparr>dl_next := (dl_next d)(e := Some add)\<rparr>;
         (case dl_next d add of
            Some n \<Rightarrow> Some (d\<lparr>dl_prev := (dl_prev d)(n := Some add)\<rparr>)
          | None \<Rightarrow> Some (d\<lparr>dl_prev := (dl_prev d)(head := Some add)\<rparr>))
       }
     | None \<Rightarrow> DL_PREPEND add d)"

definition DL_DELETE :: "addr \<Rightarrow> dll \<Rightarrow> dll option" where
  "DL_DELETE del d = do {
     p \<leftarrow> dl_prev d del;
     (if p = del then Some (d\<lparr>dl_head := None\<rparr>)
      else if dl_head d = Some del then do {
        n \<leftarrow> dl_next d del;
        let d = d\<lparr>dl_prev := (dl_prev d)(n := dl_prev d del)\<rparr>;
        Some (d\<lparr>dl_head := dl_next d del\<rparr>)
      }
      else do {
        let d = d\<lparr>dl_next := (dl_next d)(p := dl_next d del)\<rparr>;
        (case dl_next d del of
           Some n \<Rightarrow> Some (d\<lparr>dl_prev := (dl_prev d)(n := dl_prev d del)\<rparr>)
         | None \<Rightarrow> do {
             head \<leftarrow> dl_head d;
             Some (d\<lparr>dl_prev := (dl_prev d)(head := dl_prev d del)\<rparr>)
           })
      })
   }"

definition dl_rep :: "dll \<Rightarrow> addr list \<Rightarrow> bool" where
  "dl_rep d xs \<longleftrightarrow> distinct xs \<and>
     (if xs = [] then dl_head d = None
      else dl_head d = Some (hd xs) \<and> chain (dl_next d) (dl_prev d) xs
           \<and> dl_next d (last xs) = None \<and> dl_prev d (hd xs) = Some (last xs))"

text \<open>Links of every element outside \<open>S\<close> are the same.\<close>

definition dl_frame :: "addr set \<Rightarrow> dll \<Rightarrow> dll \<Rightarrow> bool" where
  "dl_frame S d d' \<longleftrightarrow> (\<forall>a. a \<notin> S \<longrightarrow> dl_next d' a = dl_next d a \<and> dl_prev d' a = dl_prev d a)"

lemma dl_rep_Nil [simp]: "dl_rep d [] \<longleftrightarrow> dl_head d = None"
  by (simp add: dl_rep_def)

lemma dl_rep_head: "dl_rep d xs \<Longrightarrow> dl_head d = (if xs = [] then None else Some (hd xs))"
  by (auto simp: dl_rep_def)

lemma dl_rep_distinct: "dl_rep d xs \<Longrightarrow> distinct xs"
  by (simp add: dl_rep_def)

lemma dl_rep_linked: "dl_rep d xs \<Longrightarrow> a \<in> set xs \<Longrightarrow> dl_prev d a \<noteq> None"
proof -
  assume r: "dl_rep d xs" and a: "a \<in> set xs"
  then obtain ys zs where xs: "xs = ys @ a # zs" by (meson split_list)
  show ?thesis
  proof (cases ys rule: rev_cases)
    case Nil
    then show ?thesis using r xs by (auto simp: dl_rep_def)
  next
    case (snoc ws b)
    then have "chain (dl_next d) (dl_prev d) (ws @ b # a # zs)"
      using r xs by (auto simp: dl_rep_def split: if_splits)
    then have "chain (dl_next d) (dl_prev d) (b # a # zs)" by (rule chain_suffix)
    then show ?thesis by simp
  qed
qed

lemma DL_PREPEND_rep:
  assumes r: "dl_rep d xs" and a: "a \<notin> set xs"
  obtains d' where "DL_PREPEND a d = Some d'" "dl_rep d' (a # xs)" "dl_frame (insert a (set xs)) d d'"
proof (cases xs)
  case Nil
  then show ?thesis using r a
    by (intro that [of "d\<lparr>dl_next := (dl_next d)(a := None), dl_prev := (dl_prev d)(a := Some a),
          dl_head := Some a\<rparr>"])
      (auto simp: DL_PREPEND_def dl_rep_def dl_frame_def)
next
  case (Cons h ys)
  let ?d = "d\<lparr>dl_next := (dl_next d)(a := Some h),
      dl_prev := (dl_prev d)(a := dl_prev d h, h := Some a), dl_head := Some a\<rparr>"
  have ha: "h \<noteq> a" "h \<notin> set ys" "a \<notin> set ys" using Cons a r by (auto simp: dl_rep_def)
  have "dl_rep ?d (a # xs)"
    using r a Cons ha by (auto simp: dl_rep_def chain_frame dest: in_set_butlastD)
  moreover have "DL_PREPEND a d = Some ?d"
    using r Cons ha by (simp add: DL_PREPEND_def dl_rep_def)
  ultimately show ?thesis using Cons by (intro that [of ?d]) (auto simp: dl_frame_def)
qed

lemma DL_APPEND_rep:
  assumes r: "dl_rep d xs" and a: "a \<notin> set xs"
  obtains d' where "DL_APPEND a d = Some d'" "dl_rep d' (xs @ [a])" "dl_frame (insert a (set xs)) d d'"
proof (cases xs rule: rev_cases)
  case Nil
  then show ?thesis using r a
    by (intro that [of "d\<lparr>dl_head := Some a, dl_prev := (dl_prev d)(a := Some a),
          dl_next := (dl_next d)(a := None)\<rparr>"])
      (auto simp: DL_APPEND_def dl_rep_def dl_frame_def)
next
  case (snoc ys t)
  let ?h = "hd xs"
  let ?d = "d\<lparr>dl_next := (dl_next d)(t := Some a, a := None),
      dl_prev := (dl_prev d)(a := Some t, ?h := Some a)\<rparr>"
  have t: "t \<notin> set ys" "t \<noteq> a" "?h \<noteq> a" "a \<notin> set ys" "?h \<in> set xs" "distinct ys"
    using snoc a r by (auto simp: dl_rep_def hd_append)
  have hx: "?h \<notin> set (tl (ys @ [t]))" using t snoc by (cases ys) auto
  have "chain (dl_next d) (dl_prev d) (ys @ [t])" using r snoc by (auto simp: dl_rep_def)
  then have "chain (dl_next ?d) (dl_prev ?d) (ys @ [t])"
    using t a snoc hx by (simp add: chain_frame tl_append split: list.splits)
  then have "chain (dl_next ?d) (dl_prev ?d) (ys @ [t, a])"
    using t by (simp add: chain_append2)
  then have "dl_rep ?d (xs @ [a])"
    using r a snoc t by (auto simp: dl_rep_def hd_append)
  moreover have "DL_APPEND a d = Some ?d"
    using r snoc t by (simp add: DL_APPEND_def dl_rep_def)
  ultimately show ?thesis using t snoc by (intro that [of ?d]) (auto simp: dl_frame_def)
qed

lemma DL_APPEND_ELEM_rep:
  assumes r: "dl_rep d (ys @ e # zs)" and a: "a \<notin> set (ys @ e # zs)"
  obtains d' where "DL_APPEND_ELEM (Some e) a d = Some d'" "dl_rep d' (ys @ e # a # zs)"
    "dl_frame (insert a (set (ys @ e # zs))) d d'"
proof -
  let ?h = "hd (ys @ e # zs)"
  let ?tgt = "case zs of [] \<Rightarrow> ?h | n # _ \<Rightarrow> n"
  let ?d = "d\<lparr>dl_next := (dl_next d)(a := dl_next d e, e := Some a),
      dl_prev := (dl_prev d)(a := Some e, ?tgt := Some a)\<rparr>"
  have dist: "distinct (ys @ e # zs)" using r by (rule dl_rep_distinct)
  have hd: "dl_head d = Some ?h" using dl_rep_head [OF r] by simp
  have ch: "chain (dl_next d) (dl_prev d) (ys @ [e])" "chain (dl_next d) (dl_prev d) (e # zs)"
    using r by (auto simp: dl_rep_def chain_append [of _ _ ys e zs] simp del: chain.simps split: if_splits)
  have nxt: "dl_next d e = (case zs of [] \<Rightarrow> None | n # _ \<Rightarrow> Some n)"
    using ch(2) r by (cases zs) (auto simp: dl_rep_def split: if_splits)
  have ea: "e \<noteq> a" using a by auto
  have tgt: "?tgt \<noteq> a" "?tgt \<notin> set (tl (ys @ [e]))" "?tgt \<notin> set (tl zs)"
    using dist a by (cases zs; cases ys; auto)+
  have "chain (dl_next ?d) (dl_prev ?d) (ys @ [e])"
    using ch(1) dist a tgt ea by (simp add: chain_frame)
  moreover have "chain (dl_next ?d) (dl_prev ?d) (e # a # zs)"
  proof (cases zs)
    case Nil
    then show ?thesis using ea tgt by simp
  next
    case (Cons n ws)
    have "chain (dl_next d) (dl_prev d) (n # ws)" using ch(2) Cons by simp
    then have "chain (dl_next ?d) (dl_prev ?d) (n # ws)"
      using Cons dist a by (auto simp: chain_frame)
    then show ?thesis using Cons nxt dist a by auto
  qed
  ultimately have "chain (dl_next ?d) (dl_prev ?d) (ys @ e # a # zs)"
    by (subst chain_append) simp
  moreover have "dl_next ?d (last (a # zs)) = None" "dl_prev ?d ?h = Some (last (a # zs))"
    using r nxt dist a by (cases zs; cases ys; auto simp: dl_rep_def)+
  moreover have "hd (ys @ e # a # zs) = ?h" by (cases ys) auto
  ultimately have rep: "dl_rep ?d (ys @ e # a # zs)"
    using dist a hd by (simp add: dl_rep_def)
  have "?tgt \<in> set (ys @ e # zs)" by (cases zs; cases ys) auto
  then have "dl_frame (insert a (set (ys @ e # zs))) d ?d"
    unfolding dl_frame_def by auto
  moreover have "DL_APPEND_ELEM (Some e) a d = Some ?d"
    using hd nxt ea by (cases zs) (auto simp: DL_APPEND_ELEM_def)
  ultimately show ?thesis using rep by (intro that)
qed

lemma DL_DELETE_rep:
  assumes r: "dl_rep d (ys @ a # zs)"
  obtains d' where "DL_DELETE a d = Some d'" "dl_rep d' (ys @ zs)"
    "dl_frame (set ys \<union> set zs) d d'"
proof -
  have dist: "distinct (ys @ a # zs)" using r by (rule dl_rep_distinct)
  have ch: "chain (dl_next d) (dl_prev d) (ys @ [a])" "chain (dl_next d) (dl_prev d) (a # zs)"
    using r by (auto simp: dl_rep_def chain_append [of _ _ ys a zs] simp del: chain.simps split: if_splits)
  have nxt: "dl_next d a = (case zs of [] \<Rightarrow> None | n # _ \<Rightarrow> Some n)"
    using ch(2) r by (cases zs) (auto simp: dl_rep_def split: if_splits)
  show thesis
  proof (cases ys rule: rev_cases)
    case Nil
    note ysNil = this
    show ?thesis
    proof (cases zs)
      case Nil
      then show ?thesis using r ysNil
        by (intro that [of "d\<lparr>dl_head := None\<rparr>"]) (auto simp: DL_DELETE_def dl_rep_def dl_frame_def)
    next
      case (Cons n ws)
      let ?d = "d\<lparr>dl_prev := (dl_prev d)(n := dl_prev d a), dl_head := Some n\<rparr>"
      have "chain (dl_next ?d) (dl_prev ?d) (n # ws)"
        using ch(2) Cons dist by (simp add: chain_frame)
      then have "dl_rep ?d zs" using r ysNil Cons dist by (auto simp: dl_rep_def)
      moreover have "DL_DELETE a d = Some ?d"
        using r ysNil Cons nxt dist by (auto simp: DL_DELETE_def dl_rep_def)
      ultimately show ?thesis using ysNil Cons by (intro that [of ?d]) (auto simp: dl_frame_def)
    qed
  next
    case (snoc vs p)
    let ?h = "hd ys"
    let ?tgt = "case zs of [] \<Rightarrow> ?h | n # _ \<Rightarrow> n"
    let ?d = "d\<lparr>dl_next := (dl_next d)(p := dl_next d a), dl_prev := (dl_prev d)(?tgt := Some p)\<rparr>"
    have prv: "dl_prev d a = Some p" using ch(1) snoc by (simp add: chain_append2)
    have hd: "dl_head d = Some ?h" "?h \<in> set ys" using dl_rep_head [OF r] snoc by (auto simp: hd_append)
    have ne: "p \<noteq> a" "?h \<noteq> a" "?tgt \<noteq> a" "p \<notin> set zs" "p \<notin> set vs"
      using dist snoc hd(2) by (auto split: list.splits)
    have tgt: "?tgt \<notin> set (tl ys)" using dist snoc by (cases zs; cases vs; auto)
    have "chain (dl_next d) (dl_prev d) ys" using ch(1) by (rule chain_prefix)
    then have 1: "chain (dl_next ?d) (dl_prev ?d) (vs @ [p])"
      using snoc tgt ne by (simp add: chain_frame)
    have 2: "chain (dl_next ?d) (dl_prev ?d) (p # zs)"
    proof (cases zs)
      case (Cons n ws)
      have "chain (dl_next ?d) (dl_prev ?d) (n # ws)"
        using ch(2) Cons dist ne by (simp add: chain_frame)
      then show ?thesis using Cons nxt by simp
    qed simp
    have "chain (dl_next ?d) (dl_prev ?d) (ys @ zs)"
      using 1 2 snoc by (simp add: chain_append [of _ _ vs p zs] del: chain.simps)
    moreover have "dl_next ?d (last (ys @ zs)) = None" "dl_prev ?d ?h = Some (last (ys @ zs))"
      using r nxt dist snoc hd(2) by (cases zs; cases vs; auto simp: dl_rep_def)+
    moreover have "hd (ys @ zs) = ?h" using snoc by (simp add: hd_append)
    ultimately have rep: "dl_rep ?d (ys @ zs)"
      using dist hd(1) snoc by (simp add: dl_rep_def)
    have "?tgt \<in> set ys \<union> set zs" "p \<in> set ys" using hd(2) snoc by (cases zs; auto)+
    then have "dl_frame (set ys \<union> set zs) d ?d"
      unfolding dl_frame_def by auto
    moreover have "DL_DELETE a d = Some ?d"
      using hd(1) nxt prv ne by (cases zs) (auto simp: DL_DELETE_def)
    ultimately show ?thesis using rep by (intro that)
  qed
qed


section \<open>Singly linked lists\<close>

text \<open>The addresses met when following a field from a pointer to NULL.\<close>

primrec path :: "('a \<Rightarrow> 'a option) \<Rightarrow> 'a option \<Rightarrow> 'a list \<Rightarrow> bool" where
  "path nx p [] \<longleftrightarrow> p = None"
| "path nx p (x # xs) \<longleftrightarrow> p = Some x \<and> path nx (nx x) xs"

lemma path_cong: "(\<And>a. a \<in> set xs \<Longrightarrow> nx' a = nx a) \<Longrightarrow> path nx' p xs = path nx p xs"
  by (induction xs arbitrary: p) auto

lemma path_upd [chain_frame]: "a \<notin> set xs \<Longrightarrow> path (nx(a := v)) p xs = path nx p xs"
  by (rule path_cong) auto

lemma path_head: "path nx p xs \<Longrightarrow> p = (if xs = [] then None else Some (hd xs))"
  by (cases xs) auto

lemma path_append:
  "path nx p (xs @ y # ys) \<longleftrightarrow> path (nx(y := None)) p (xs @ [y]) \<and> path nx (nx y) ys"
  if "y \<notin> set xs"
  using that by (induction xs arbitrary: p) auto

lemma path_snoc:
  assumes "path nx p xs" "distinct xs" "u \<notin> set xs" "xs \<noteq> []"
  shows "path (nx(last xs := Some u, u := None)) p (xs @ [u])"
  using assms
proof (induction xs arbitrary: p)
  case (Cons x xs)
  then show ?case by (cases xs) (auto simp: chain_frame)
qed simp

lemma path_unique: "path nx p xs \<Longrightarrow> path nx p ys \<Longrightarrow> xs = ys"
proof (induction xs arbitrary: p ys)
  case Nil
  then show ?case by (cases ys) auto
next
  case (Cons x xs)
  then show ?case by (cases ys) auto
qed

text \<open>The macros of \<^verbatim>\<open>utlist.h\<close>: the state is the head and the \<^verbatim>\<open>next\<close> field.\<close>

definition LL_PREPEND :: "addr \<Rightarrow> ptr \<times> (addr \<Rightarrow> ptr) \<Rightarrow> ptr \<times> (addr \<Rightarrow> ptr)" where
  "LL_PREPEND add l = (let (head, nx) = l in (Some add, nx(add := head)))"

partial_function (option) ll_find_prev :: "(addr \<Rightarrow> ptr) \<Rightarrow> addr \<Rightarrow> addr \<Rightarrow> addr option" where
  "ll_find_prev nx del tmp =
     (case nx tmp of
        Some n \<Rightarrow> if n \<noteq> del then ll_find_prev nx del n else Some tmp
      | None \<Rightarrow> Some tmp)"

definition LL_DELETE :: "addr \<Rightarrow> ptr \<times> (addr \<Rightarrow> ptr) \<Rightarrow> (ptr \<times> (addr \<Rightarrow> ptr)) option" where
  "LL_DELETE del l =
    (let (head, nx) = l in
       if head = Some del then Some (nx del, nx)
       else do {
         tmp \<leftarrow> head;
         tmp \<leftarrow> ll_find_prev nx del tmp;
         Some (if nx tmp \<noteq> None then (head, nx(tmp := nx del)) else (head, nx))
       })"

lemma LL_PREPEND_rep:
  "path nx head xs \<Longrightarrow> a \<notin> set xs \<Longrightarrow> LL_PREPEND a (head, nx) = (head', nx') \<Longrightarrow> path nx' head' (a # xs)"
  by (auto simp: LL_PREPEND_def chain_frame)

lemma ll_find_prev_path:
  "path nx (Some x) (x # ys @ a # zs) \<Longrightarrow> distinct (x # ys @ a # zs) \<Longrightarrow>
   ll_find_prev nx a x = Some (last (x # ys))"
proof (induction ys arbitrary: x)
  case Nil
  then show ?case by (simp add: ll_find_prev.simps)
next
  case (Cons y ys)
  then show ?case by (subst ll_find_prev.simps) auto
qed

lemma path_bypass:
  "path nx p (ys @ b # a # zs) \<Longrightarrow> distinct (ys @ b # a # zs) \<Longrightarrow>
   path (nx(b := nx a)) p (ys @ b # zs) \<and> nx b = Some a"
  by (induction ys arbitrary: p) (auto simp: chain_frame)

lemma LL_DELETE_rep:
  assumes p: "path nx head (ys @ a # zs)" and d: "distinct (ys @ a # zs)"
  obtains head' nx' where "LL_DELETE a (head, nx) = Some (head', nx')" "path nx' head' (ys @ zs)"
    "\<And>b. b \<notin> set ys \<Longrightarrow> nx' b = nx b"
proof (cases ys)
  case Nil
  then show ?thesis using p d by (intro that [of "nx a" nx]) (auto simp: LL_DELETE_def)
next
  case (Cons x xs)
  let ?b = "last (x # xs)"
  have h: "head = Some x" "x \<noteq> a" using p d Cons by auto
  have split: "x # xs = butlast (x # xs) @ [?b]" by (metis append_butlast_last_id list.distinct(1))
  then have "path nx head (butlast (x # xs) @ ?b # a # zs)" "distinct (butlast (x # xs) @ ?b # a # zs)"
    using p d Cons by (metis append.assoc append_Cons append_Nil)+
  then have "path (nx(?b := nx a)) head (butlast (x # xs) @ ?b # zs) \<and> nx ?b = Some a"
    by (rule path_bypass)
  then have b: "path (nx(?b := nx a)) head (ys @ zs)" "nx ?b = Some a"
    using split Cons by (metis append.assoc append_Cons append_Nil)+
  have "ll_find_prev nx a x = Some ?b"
    using p d Cons h by (intro ll_find_prev_path [of nx x xs a zs]) auto
  then have "LL_DELETE a (head, nx) = Some (head, nx(?b := nx a))"
    using h b(2) by (simp add: LL_DELETE_def)
  moreover have "(nx(?b := nx a)) c = nx c" if "c \<notin> set ys" for c
    using that Cons split by (metis fun_upd_other last_in_set list.distinct(1))
  ultimately show ?thesis using b(1) by (intro that)
qed

end
