(* ===== verification/Prio_Pool.thy ===== *)
theory Prio_Pool
  imports Pool_Interface Pointer_Lists
begin

text \<open>
  The custom Argobots pool of \<^verbatim>\<open>src/margo-prio-pool.c\<close>: two circular doubly linked queues
  of work units, a high and a low priority one, in one heap of units. The fields of
  \<^verbatim>\<open>unit_t\<close> are functions on addresses; every operation is in the option monad, where
  \<^const>\<open>None\<close> is a NULL dereference. The mutex of the pool makes each operation atomic.
\<close>

section \<open>Data\<close>

definition SCHED_COUNTER_PRIORITY_LIMIT :: int where
  "SCHED_COUNTER_PRIORITY_LIMIT = 25"

text \<open>The units: \<^verbatim>\<open>ABT_THREAD_NULL\<close> and \<^verbatim>\<open>ABT_TASK_NULL\<close> are \<^const>\<open>None\<close>.\<close>

record prio_units =
  u_thread :: "addr \<Rightarrow> ptr"
  u_task :: "addr \<Rightarrow> ptr"
  p_prev :: "addr \<Rightarrow> ptr"
  p_next :: "addr \<Rightarrow> ptr"
  sched_counter :: "addr \<Rightarrow> int"
  is_in_pool :: "addr \<Rightarrow> bool"

record prio_queue =
  p_tail :: ptr
  p_head :: ptr

record prio_pool =
  high_prio_queue :: prio_queue
  low_prio_queue :: prio_queue
  num :: int
  cnt :: u32

text \<open>The state a pool operation works on: the units of the program and the pool.\<close>

record prio_state =
  units :: prio_units
  pool :: prio_pool

section \<open>The circular queues\<close>

definition prio_queue_push ::
  "prio_units \<Rightarrow> prio_queue \<Rightarrow> addr \<Rightarrow> (prio_units \<times> prio_queue) option" where
  "prio_queue_push h q u =
    (case p_head q of
       None \<Rightarrow>
         (let h = h\<lparr>p_next := (p_next h)(u := Some u)\<rparr>;
              h = h\<lparr>p_prev := (p_prev h)(u := Some u)\<rparr>;
              q = q\<lparr>p_head := Some u\<rparr>;
              q = q\<lparr>p_tail := Some u\<rparr>
          in Some (h\<lparr>is_in_pool := (is_in_pool h)(u := True)\<rparr>, q))
     | Some head \<Rightarrow> do {
         tail \<leftarrow> p_tail q;
         let h = h\<lparr>p_next := (p_next h)(tail := Some u)\<rparr>;
         let h = h\<lparr>p_prev := (p_prev h)(head := Some u)\<rparr>;
         let h = h\<lparr>p_prev := (p_prev h)(u := Some tail)\<rparr>;
         let h = h\<lparr>p_next := (p_next h)(u := Some head)\<rparr>;
         let q = q\<lparr>p_tail := Some u\<rparr>;
         Some (h\<lparr>is_in_pool := (is_in_pool h)(u := True)\<rparr>, q)
       })"

definition prio_queue_pop ::
  "prio_units \<Rightarrow> prio_queue \<Rightarrow> (prio_units \<times> prio_queue \<times> ptr) option" where
  "prio_queue_pop h q =
    (case p_head q of
       None \<Rightarrow> Some (h, q, None)
     | Some u \<Rightarrow> do {
         (h, q) \<leftarrow>
           (if p_head q = p_tail q then Some (h, q\<lparr>p_head := None, p_tail := None\<rparr>)
            else do {
              prev \<leftarrow> p_prev h u;
              let h = h\<lparr>p_next := (p_next h)(prev := p_next h u)\<rparr>;
              nxt \<leftarrow> p_next h u;
              let h = h\<lparr>p_prev := (p_prev h)(nxt := p_prev h u)\<rparr>;
              Some (h, q\<lparr>p_head := p_next h u\<rparr>)
            });
         let h = h\<lparr>p_next := (p_next h)(u := None)\<rparr>;
         let h = h\<lparr>p_prev := (p_prev h)(u := None)\<rparr>;
         Some (h\<lparr>is_in_pool := (is_in_pool h)(u := False)\<rparr>, q, Some u)
       })"

section \<open>Units\<close>

datatype abt_unit_type = ABT_UNIT_TYPE_THREAD | ABT_UNIT_TYPE_TASK

definition prio_unit_get_type :: "prio_units \<Rightarrow> addr \<Rightarrow> abt_unit_type" where
  "prio_unit_get_type h u =
     (if u_thread h u \<noteq> None then ABT_UNIT_TYPE_THREAD else ABT_UNIT_TYPE_TASK)"

definition prio_unit_get_thread :: "prio_units \<Rightarrow> addr \<Rightarrow> ptr" where
  "prio_unit_get_thread h u = u_thread h u"

definition prio_unit_get_task :: "prio_units \<Rightarrow> addr \<Rightarrow> ptr" where
  "prio_unit_get_task h u = u_task h u"

definition prio_unit_is_in_pool :: "prio_units \<Rightarrow> addr \<Rightarrow> bool" where
  "prio_unit_is_in_pool h u = is_in_pool h u"

text \<open>
  \<^verbatim>\<open>malloc\<close> is the argument \<open>p\<close>: the address it returned. The code does not test it, so a
  NULL result is a NULL dereference.
\<close>

definition prio_unit_create_from_thread ::
  "ptr \<Rightarrow> prio_units \<Rightarrow> ptr \<Rightarrow> (prio_units \<times> addr) option" where
  "prio_unit_create_from_thread p h thread = do {
     u \<leftarrow> p;
     Some (h\<lparr>u_thread := (u_thread h)(u := thread), u_task := (u_task h)(u := None),
             p_next := (p_next h)(u := None), p_prev := (p_prev h)(u := None),
             sched_counter := (sched_counter h)(u := 0),
             is_in_pool := (is_in_pool h)(u := False)\<rparr>, u)
   }"

definition prio_unit_create_from_task ::
  "ptr \<Rightarrow> prio_units \<Rightarrow> ptr \<Rightarrow> (prio_units \<times> addr) option" where
  "prio_unit_create_from_task p h task = do {
     u \<leftarrow> p;
     Some (h\<lparr>u_thread := (u_thread h)(u := None), u_task := (u_task h)(u := task),
             p_next := (p_next h)(u := None), p_prev := (p_prev h)(u := None),
             sched_counter := (sched_counter h)(u := 0),
             is_in_pool := (is_in_pool h)(u := False)\<rparr>, u)
   }"

section \<open>The pool\<close>

definition empty_prio_queue :: prio_queue where
  "empty_prio_queue = \<lparr>p_tail = None, p_head = None\<rparr>"

definition prio_pool_init :: prio_pool where
  "prio_pool_init =
     \<lparr>high_prio_queue = empty_prio_queue, low_prio_queue = empty_prio_queue, num = 0, cnt = 0\<rparr>"

definition prio_pool_get_size :: "prio_state \<Rightarrow> int" where
  "prio_pool_get_size s = num (pool s)"

definition prio_pool_push :: "prio_state \<Rightarrow> addr \<Rightarrow> prio_state option" where
  "prio_pool_push s u = do {
     let h = units s;
     let p = pool s;
     let c = sched_counter h u;
     let h = (if c < SCHED_COUNTER_PRIORITY_LIMIT
              then h\<lparr>sched_counter := (sched_counter h)(u := c + 1)\<rparr> else h);
     (h, p) \<leftarrow>
       (if c = 0 \<or> c \<ge> SCHED_COUNTER_PRIORITY_LIMIT then do {
          (h, q) \<leftarrow> prio_queue_push h (low_prio_queue p) u;
          Some (h, p\<lparr>low_prio_queue := q\<rparr>)
        } else do {
          (h, q) \<leftarrow> prio_queue_push h (high_prio_queue p) u;
          Some (h, p\<lparr>high_prio_queue := q\<rparr>)
        });
     Some (s\<lparr>units := h, pool := p\<lparr>num := num p + 1\<rparr>\<rparr>)
   }"

text \<open>
  The \<^verbatim>\<open>do \<dots> while (0)\<close> block that \<^verbatim>\<open>pool_pop\<close> and \<^verbatim>\<open>pool_pop_timedwait\<close> share, with the
  update of \<^verbatim>\<open>num\<close> that follows it.
\<close>

definition prio_pop_high :: "prio_state \<Rightarrow> (prio_state \<times> ptr) option" where
  "prio_pop_high s = do {
     (h, q, u) \<leftarrow> prio_queue_pop (units s) (high_prio_queue (pool s));
     Some (s\<lparr>units := h, pool := (pool s)\<lparr>high_prio_queue := q\<rparr>\<rparr>, u)
   }"

definition prio_pop_low :: "prio_state \<Rightarrow> (prio_state \<times> ptr) option" where
  "prio_pop_low s = do {
     (h, q, u) \<leftarrow> prio_queue_pop (units s) (low_prio_queue (pool s));
     Some (s\<lparr>units := h, pool := (pool s)\<lparr>low_prio_queue := q\<rparr>\<rparr>, u)
   }"

definition prio_pool_pop_locked :: "prio_state \<Rightarrow> (prio_state \<times> ptr) option" where
  "prio_pool_pop_locked s = do {
     let c = cnt (pool s);
     let s = s\<lparr>pool := (pool s)\<lparr>cnt := c + 1\<rparr>\<rparr>;
     (s, u) \<leftarrow>
       (if c AND 0xFF \<noteq> 0 then do {
          (s, u) \<leftarrow> prio_pop_high s;
          (if u \<noteq> None then Some (s, u) else prio_pop_low s)
        } else do {
          (s, u) \<leftarrow> prio_pop_low s;
          (if u \<noteq> None then Some (s, u) else prio_pop_high s)
        });
     Some (if u \<noteq> None then s\<lparr>pool := (pool s)\<lparr>num := num (pool s) - 1\<rparr>\<rparr> else s, u)
   }"

definition prio_pool_pop :: "prio_state \<Rightarrow> (prio_state \<times> ptr) option" where
  "prio_pool_pop s = (if num (pool s) = 0 then Some (s, None) else prio_pool_pop_locked s)"

text \<open>
  \<^verbatim>\<open>pthread_cond_timedwait\<close> releases the mutex: \<open>env\<close> is what the other threads do to the
  state until the wait returns.
\<close>

definition prio_pool_pop_timedwait ::
  "(prio_state \<Rightarrow> prio_state) \<Rightarrow> prio_state \<Rightarrow> (prio_state \<times> ptr) option" where
  "prio_pool_pop_timedwait env s =
     prio_pool_pop_locked (if num (pool s) = 0 then env s else s)"

text \<open>\<^verbatim>\<open>convert_double_sec_to_timespec\<close>: the C conversions truncate towards zero.\<close>

definition c_trunc :: "real \<Rightarrow> int" where
  "c_trunc x = (if 0 \<le> x then \<lfloor>x\<rfloor> else \<lceil>x\<rceil>)"

definition convert_double_sec_to_timespec :: "real \<Rightarrow> int \<times> int" where
  "convert_double_sec_to_timespec seconds =
     (let tv_sec = c_trunc seconds
      in (tv_sec, c_trunc ((seconds - of_int tv_sec) * 1000000000)))"

definition prio_pool_remove :: "prio_state \<Rightarrow> addr \<Rightarrow> prio_state" where
  "prio_pool_remove s u =
    (let h = units s; p = pool s;
         (h, p) =
           (case p_prev h u of
              Some pr \<Rightarrow> (h\<lparr>p_next := (p_next h)(pr := p_next h u)\<rparr>, p)
            | None \<Rightarrow>
                if p_head (high_prio_queue p) = Some u
                then (h, p\<lparr>high_prio_queue := (high_prio_queue p)\<lparr>p_head := p_next h u\<rparr>\<rparr>)
                else if p_head (low_prio_queue p) = Some u
                then (h, p\<lparr>low_prio_queue := (low_prio_queue p)\<lparr>p_head := p_next h u\<rparr>\<rparr>)
                else (h, p));
         (h, p) =
           (case p_next h u of
              Some nx \<Rightarrow> (h\<lparr>p_prev := (p_prev h)(nx := p_prev h u)\<rparr>, p)
            | None \<Rightarrow>
                if p_tail (high_prio_queue p) = Some u
                then (h, p\<lparr>high_prio_queue := (high_prio_queue p)\<lparr>p_tail := p_prev h u\<rparr>\<rparr>)
                else if p_tail (low_prio_queue p) = Some u
                then (h, p\<lparr>low_prio_queue := (low_prio_queue p)\<lparr>p_tail := p_prev h u\<rparr>\<rparr>)
                else (h, p))
     in s\<lparr>units := h, pool := p\<lparr>num := num p - 1\<rparr>\<rparr>)"

section \<open>Abstraction: the queues as lists\<close>

definition cq_rep :: "prio_units \<Rightarrow> prio_queue \<Rightarrow> addr list \<Rightarrow> bool" where
  "cq_rep h q xs \<longleftrightarrow> distinct xs \<and>
     (if xs = [] then p_head q = None \<and> p_tail q = None
      else p_head q = Some (hd xs) \<and> p_tail q = Some (last xs)
           \<and> chain (p_next h) (p_prev h) (xs @ [hd xs]))"

lemma cq_rep_empty [simp]: "cq_rep h empty_prio_queue []"
  by (simp add: cq_rep_def empty_prio_queue_def)

lemma cq_rep_Nil: "cq_rep h q [] \<longleftrightarrow> p_head q = None \<and> p_tail q = None"
  by (simp add: cq_rep_def)

lemma cq_rep_links_eq:
  "p_next h' = p_next h \<Longrightarrow> p_prev h' = p_prev h \<Longrightarrow> cq_rep h' q xs = cq_rep h q xs"
  by (simp add: cq_rep_def)

text \<open>A queue only depends on the links of its own units.\<close>

lemma cq_rep_frame:
  assumes "cq_rep h q xs"
    and "\<And>a. a \<in> set xs \<Longrightarrow> p_next h' a = p_next h a \<and> p_prev h' a = p_prev h a"
  shows "cq_rep h' q xs"
proof (cases "xs = []")
  case True
  then show ?thesis using assms(1) by (simp add: cq_rep_Nil)
next
  case False
  have "chain (p_next h') (p_prev h') (xs @ [hd xs]) = chain (p_next h) (p_prev h) (xs @ [hd xs])"
    using False assms(2) by (intro chain_cong) (auto simp: tl_append split: list.splits)
  then show ?thesis using assms(1) False by (simp add: cq_rep_def)
qed


text \<open>What an operation leaves alone: links outside \<open>S\<close>, and the payload of every unit.\<close>

definition unit_frame :: "addr set \<Rightarrow> prio_units \<Rightarrow> prio_units \<Rightarrow> bool" where
  "unit_frame S h h' \<longleftrightarrow>
     (\<forall>a. a \<notin> S \<longrightarrow> p_next h' a = p_next h a \<and> p_prev h' a = p_prev h a)
     \<and> sched_counter h' = sched_counter h \<and> u_thread h' = u_thread h \<and> u_task h' = u_task h"

lemma cq_rep_unit_frame: "cq_rep h q xs \<Longrightarrow> unit_frame S h h' \<Longrightarrow> set xs \<inter> S = {} \<Longrightarrow> cq_rep h' q xs"
  by (rule cq_rep_frame [of h]) (auto simp: unit_frame_def)

lemma prio_queue_push_rep:
  assumes r: "cq_rep h q xs" and u: "u \<notin> set xs"
  obtains h' q' where "prio_queue_push h q u = Some (h', q')" "cq_rep h' q' (xs @ [u])"
    "unit_frame (insert u (set xs)) h h'" "is_in_pool h' = (is_in_pool h)(u := True)"
proof (cases xs rule: rev_cases)
  case Nil
  let ?h = "h\<lparr>p_next := (p_next h)(u := Some u), p_prev := (p_prev h)(u := Some u),
      is_in_pool := (is_in_pool h)(u := True)\<rparr>"
  show ?thesis
    by (rule that [of ?h "q\<lparr>p_head := Some u, p_tail := Some u\<rparr>"])
      (use r Nil in \<open>auto simp: prio_queue_push_def cq_rep_def unit_frame_def\<close>)
next
  case (snoc ys t)
  let ?v = "hd xs"
  let ?h = "h\<lparr>p_next := (p_next h)(t := Some u, u := Some ?v),
      p_prev := (p_prev h)(?v := Some u, u := Some t), is_in_pool := (is_in_pool h)(u := True)\<rparr>"
  have ne: "?v \<noteq> u" "t \<noteq> u" "t \<notin> set ys" "?v \<in> set xs" "u \<notin> set ys"
    using snoc r u by (auto simp: cq_rep_def hd_append)
  have v: "?v \<notin> set (tl (ys @ [t]))" using r snoc by (cases ys) (auto simp: cq_rep_def)
  have "chain (p_next h) (p_prev h) (ys @ [t, ?v])" using r snoc by (simp add: cq_rep_def)
  then have "chain (p_next h) (p_prev h) (ys @ [t])" by (simp add: chain_append2)
  then have "chain (p_next ?h) (p_prev ?h) (ys @ [t])"
    using ne v u snoc by (simp add: chain_frame)
  then have "chain (p_next ?h) (p_prev ?h) ((ys @ [t]) @ [u, ?v])"
    using ne by (simp add: chain_append2 [of _ _ "ys @ [t]", simplified] chain_append2)
  then have "cq_rep ?h (q\<lparr>p_tail := Some u\<rparr>) (xs @ [u])"
    using r u snoc by (auto simp: cq_rep_def hd_append)
  moreover have "prio_queue_push h q u = Some (?h, q\<lparr>p_tail := Some u\<rparr>)"
    using r snoc ne by (simp add: prio_queue_push_def cq_rep_def)
  moreover have "unit_frame (insert u (set xs)) h ?h" using ne snoc by (auto simp: unit_frame_def)
  ultimately show ?thesis by (intro that) auto
qed

lemma prio_queue_pop_Nil: "cq_rep h q [] \<Longrightarrow> prio_queue_pop h q = Some (h, q, None)"
  by (simp add: prio_queue_pop_def cq_rep_Nil)

lemma prio_queue_pop_rep:
  assumes r: "cq_rep h q (u # xs)"
  obtains h' q' where "prio_queue_pop h q = Some (h', q', Some u)" "cq_rep h' q' xs"
    "unit_frame (set (u # xs)) h h'" "is_in_pool h' = (is_in_pool h)(u := False)"
    "p_next h' u = None" "p_prev h' u = None"
proof (cases xs rule: rev_cases)
  case Nil
  let ?h = "h\<lparr>p_next := (p_next h)(u := None), p_prev := (p_prev h)(u := None),
      is_in_pool := (is_in_pool h)(u := False)\<rparr>"
  show ?thesis
    by (rule that [of ?h "q\<lparr>p_head := None, p_tail := None\<rparr>"])
      (use r Nil in \<open>auto simp: prio_queue_pop_def cq_rep_def unit_frame_def\<close>)
next
  case (snoc ys t)
  let ?v = "hd xs"
  let ?h = "h\<lparr>p_next := (p_next h)(t := Some ?v, u := None),
      p_prev := (p_prev h)(?v := Some t, u := None), is_in_pool := (is_in_pool h)(u := False)\<rparr>"
  let ?q = "q\<lparr>p_head := Some ?v\<rparr>"
  have ne: "?v \<noteq> u" "t \<noteq> u" "t \<notin> set ys" "?v \<in> set xs" "u \<notin> set ys"
    using snoc r by (auto simp: cq_rep_def hd_append)
  have v: "?v \<notin> set (tl (ys @ [t]))" using r snoc by (cases ys) (auto simp: cq_rep_def)
  have ch: "chain (p_next h) (p_prev h) ((u # ys) @ [t, u])" using r snoc by (simp add: cq_rep_def)
  then have ch': "chain (p_next h) (p_prev h) (u # ys @ [t])" "p_prev h u = Some t"
    by (simp_all only: chain_append2) simp_all
  then have nu: "p_next h u = Some ?v" using snoc by (cases ys) auto
  have "chain (p_next h) (p_prev h) (ys @ [t])" using ch'(1) by (rule chain_tl)
  then have "chain (p_next ?h) (p_prev ?h) (ys @ [t])" using ne v by (simp add: chain_frame)
  then have "cq_rep ?h ?q xs" using r snoc ne by (auto simp: cq_rep_def chain_append2)
  moreover have "prio_queue_pop h q = Some (?h, ?q, Some u)"
    using r snoc ne nu ch'(2) by (simp add: prio_queue_pop_def cq_rep_def)
  moreover have "unit_frame (set (u # xs)) h ?h" using ne snoc by (auto simp: unit_frame_def)
  ultimately show ?thesis by (intro that) auto
qed


section \<open>Abstract specification of the pool and refinement\<close>

text \<open>The pool as two lists, high and low priority.\<close>

definition prio_inv :: "prio_state \<Rightarrow> addr list \<Rightarrow> addr list \<Rightarrow> bool" where
  "prio_inv s hs ls \<longleftrightarrow>
     cq_rep (units s) (high_prio_queue (pool s)) hs \<and> cq_rep (units s) (low_prio_queue (pool s)) ls
     \<and> set hs \<inter> set ls = {} \<and> num (pool s) = int (length hs + length ls)
     \<and> (\<forall>u. is_in_pool (units s) u \<longleftrightarrow> u \<in> set hs \<union> set ls)"

definition goes_low :: "int \<Rightarrow> bool" where
  "goes_low c \<longleftrightarrow> c = 0 \<or> c \<ge> SCHED_COUNTER_PRIORITY_LIMIT"

definition spec_push :: "int \<Rightarrow> addr \<Rightarrow> addr list \<times> addr list \<Rightarrow> addr list \<times> addr list" where
  "spec_push c u q = (if goes_low c then (fst q, snd q @ [u]) else (fst q @ [u], snd q))"

text \<open>A pop serves the preferred queue; every 256th pop prefers the low priority queue.\<close>

definition spec_pop :: "u32 \<Rightarrow> addr list \<times> addr list \<Rightarrow> (addr list \<times> addr list) \<times> ptr" where
  "spec_pop c q =
    (case q of
       ([], []) \<Rightarrow> (q, None)
     | (h # hs, []) \<Rightarrow> ((hs, []), Some h)
     | ([], l # ls) \<Rightarrow> (([], ls), Some l)
     | (h # hs, l # ls) \<Rightarrow> if c AND 0xFF \<noteq> 0 then ((hs, l # ls), Some h) else ((h # hs, ls), Some l))"

lemma prio_inv_init:
  "\<forall>u. \<not> is_in_pool h u \<Longrightarrow> prio_inv \<lparr>units = h, pool = prio_pool_init\<rparr> [] []"
  by (simp add: prio_inv_def prio_pool_init_def)

lemma prio_inv_links_eq:
  "units s' = (units s)\<lparr>sched_counter := f\<rparr> \<Longrightarrow> pool s' = pool s \<Longrightarrow> prio_inv s' hs ls = prio_inv s hs ls"
  by (simp add: prio_inv_def cq_rep_def)

lemma prio_pop_high_rep:
  assumes i: "prio_inv s (u # hs) ls"
  obtains s' where "prio_pop_high s = Some (s', Some u)"
    "prio_inv (s'\<lparr>pool := (pool s')\<lparr>num := num (pool s') - 1\<rparr>\<rparr>) hs ls"
    "cnt (pool s') = cnt (pool s)" "sched_counter (units s') = sched_counter (units s)"
proof -
  obtain h' q' where p: "prio_queue_pop (units s) (high_prio_queue (pool s)) = Some (h', q', Some u)"
    "cq_rep h' q' hs" "unit_frame (set (u # hs)) (units s) h'"
    "is_in_pool h' = (is_in_pool (units s))(u := False)"
    using i prio_queue_pop_rep unfolding prio_inv_def by metis
  moreover have "u \<notin> set hs" "u \<notin> set ls" using i by (auto simp: prio_inv_def cq_rep_def)
  moreover have "cq_rep h' (low_prio_queue (pool s)) ls"
    using i p(3) by (auto simp: prio_inv_def elim!: cq_rep_unit_frame)
  ultimately show ?thesis using i
    by (intro that [of "s\<lparr>units := h', pool := (pool s)\<lparr>high_prio_queue := q'\<rparr>\<rparr>"])
      (auto simp: prio_pop_high_def prio_inv_def unit_frame_def)
qed

lemma prio_pop_low_rep:
  assumes i: "prio_inv s hs (u # ls)"
  obtains s' where "prio_pop_low s = Some (s', Some u)"
    "prio_inv (s'\<lparr>pool := (pool s')\<lparr>num := num (pool s') - 1\<rparr>\<rparr>) hs ls"
    "cnt (pool s') = cnt (pool s)" "sched_counter (units s') = sched_counter (units s)"
proof -
  obtain h' q' where p: "prio_queue_pop (units s) (low_prio_queue (pool s)) = Some (h', q', Some u)"
    "cq_rep h' q' ls" "unit_frame (set (u # ls)) (units s) h'"
    "is_in_pool h' = (is_in_pool (units s))(u := False)"
    using i prio_queue_pop_rep unfolding prio_inv_def by metis
  moreover have "u \<notin> set hs" "u \<notin> set ls" using i by (auto simp: prio_inv_def cq_rep_def)
  moreover have "cq_rep h' (high_prio_queue (pool s)) hs"
    using i p(3) by (auto simp: prio_inv_def elim!: cq_rep_unit_frame)
  ultimately show ?thesis using i
    by (intro that [of "s\<lparr>units := h', pool := (pool s)\<lparr>low_prio_queue := q'\<rparr>\<rparr>"])
      (auto simp: prio_pop_low_def prio_inv_def unit_frame_def)
qed

lemma prio_pop_high_Nil: "prio_inv s [] ls \<Longrightarrow> prio_pop_high s = Some (s, None)"
  by (simp add: prio_pop_high_def prio_inv_def prio_queue_pop_Nil)

lemma prio_pop_low_Nil: "prio_inv s hs [] \<Longrightarrow> prio_pop_low s = Some (s, None)"
  by (simp add: prio_pop_low_def prio_inv_def prio_queue_pop_Nil)

lemma prio_inv_cnt: "prio_inv (s\<lparr>pool := (pool s)\<lparr>cnt := c\<rparr>\<rparr>) hs ls = prio_inv s hs ls"
  by (simp add: prio_inv_def)


lemma prio_pool_pop_locked_refines:
  assumes i: "prio_inv s hs ls"
  obtains s' where "prio_pool_pop_locked s = Some (s', snd (spec_pop (cnt (pool s)) (hs, ls)))"
    "prio_inv s' (fst (fst (spec_pop (cnt (pool s)) (hs, ls)))) (snd (fst (spec_pop (cnt (pool s)) (hs, ls))))"
    "cnt (pool s') = cnt (pool s) + 1" "sched_counter (units s') = sched_counter (units s)"
proof -
  let ?c = "cnt (pool s)"
  let ?s = "s\<lparr>pool := (pool s)\<lparr>cnt := ?c + 1\<rparr>\<rparr>"
  have i': "prio_inv ?s hs ls" using i by (simp add: prio_inv_cnt)
  consider "hs = []" "ls = []" | h hs' where "hs = h # hs'" "ls = [] \<or> ?c AND 0xFF \<noteq> 0"
    | l ls' where "ls = l # ls'" "hs = [] \<or> ?c AND 0xFF = 0"
    by (cases hs; cases ls) auto
  then show ?thesis
  proof cases
    case 1
    then show ?thesis using i' prio_pop_high_Nil [of ?s] prio_pop_low_Nil [of ?s]
      by (intro that [of ?s]) (auto simp: prio_pool_pop_locked_def spec_pop_def Let_def)
  next
    case 2
    then obtain s' where s': "prio_pop_high ?s = Some (s', Some h)"
      "prio_inv (s'\<lparr>pool := (pool s')\<lparr>num := num (pool s') - 1\<rparr>\<rparr>) hs' ls"
      "cnt (pool s') = ?c + 1" "sched_counter (units s') = sched_counter (units s)"
      using prio_pop_high_rep [of ?s h hs' ls] i' by auto
    have "spec_pop ?c (hs, ls) = ((hs', ls), Some h)" using 2 by (auto simp: spec_pop_def split: list.splits)
    then show ?thesis using 2 s' i' prio_pop_low_Nil [of ?s]
      by (intro that [of "s'\<lparr>pool := (pool s')\<lparr>num := num (pool s') - 1\<rparr>\<rparr>"])
        (auto simp: prio_pool_pop_locked_def Let_def)
  next
    case 3
    then obtain s' where s': "prio_pop_low ?s = Some (s', Some l)"
      "prio_inv (s'\<lparr>pool := (pool s')\<lparr>num := num (pool s') - 1\<rparr>\<rparr>) hs ls'"
      "cnt (pool s') = ?c + 1" "sched_counter (units s') = sched_counter (units s)"
      using prio_pop_low_rep [of ?s hs l ls'] i' by auto
    have "spec_pop ?c (hs, ls) = ((hs, ls'), Some l)" using 3 by (auto simp: spec_pop_def split: list.splits)
    then show ?thesis using 3 s' i' prio_pop_high_Nil [of ?s]
      by (intro that [of "s'\<lparr>pool := (pool s')\<lparr>num := num (pool s') - 1\<rparr>\<rparr>"])
        (auto simp: prio_pool_pop_locked_def Let_def)
  qed
qed

text \<open>The unit after the update of its counter, and the push in closed form.\<close>

definition bump_counter :: "prio_units \<Rightarrow> addr \<Rightarrow> prio_units" where
  "bump_counter h u =
     h\<lparr>sched_counter := (sched_counter h)(u :=
         if sched_counter h u < SCHED_COUNTER_PRIORITY_LIMIT
         then sched_counter h u + 1 else sched_counter h u)\<rparr>"

lemma bump_counter_simps [simp]:
  "p_next (bump_counter h u) = p_next h" "p_prev (bump_counter h u) = p_prev h"
  "is_in_pool (bump_counter h u) = is_in_pool h" "cq_rep (bump_counter h u) q xs = cq_rep h q xs"
  by (simp_all add: bump_counter_def cq_rep_def)

lemma prio_pool_push_low:
  assumes "goes_low (sched_counter (units s) u)"
  shows "prio_pool_push s u = map_option
    (\<lambda>(h, q). s\<lparr>units := h, pool := (pool s)\<lparr>low_prio_queue := q, num := num (pool s) + 1\<rparr>\<rparr>)
    (prio_queue_push (bump_counter (units s) u) (low_prio_queue (pool s)) u)"
  using assms
  by (cases "prio_queue_push (bump_counter (units s) u) (low_prio_queue (pool s)) u")
    (auto simp: prio_pool_push_def goes_low_def bump_counter_def Let_def SCHED_COUNTER_PRIORITY_LIMIT_def)

lemma prio_pool_push_high:
  assumes "\<not> goes_low (sched_counter (units s) u)"
  shows "prio_pool_push s u = map_option
    (\<lambda>(h, q). s\<lparr>units := h, pool := (pool s)\<lparr>high_prio_queue := q, num := num (pool s) + 1\<rparr>\<rparr>)
    (prio_queue_push (bump_counter (units s) u) (high_prio_queue (pool s)) u)"
  using assms
  by (cases "prio_queue_push (bump_counter (units s) u) (high_prio_queue (pool s)) u")
    (auto simp: prio_pool_push_def goes_low_def bump_counter_def Let_def SCHED_COUNTER_PRIORITY_LIMIT_def)

lemma prio_pool_push_refines:
  assumes i: "prio_inv s hs ls" and u: "u \<notin> set hs" "u \<notin> set ls"
  obtains s' where "prio_pool_push s u = Some s'"
    "prio_inv s' (fst (spec_push (sched_counter (units s) u) u (hs, ls)))
       (snd (spec_push (sched_counter (units s) u) u (hs, ls)))"
    "cnt (pool s') = cnt (pool s)"
    "sched_counter (units s') = sched_counter (bump_counter (units s) u)"
proof -
  let ?h = "bump_counter (units s) u"
  have r: "cq_rep ?h (high_prio_queue (pool s)) hs" "cq_rep ?h (low_prio_queue (pool s)) ls"
    and d: "set hs \<inter> set ls = {}" using i by (auto simp: prio_inv_def)
  show ?thesis
  proof (cases "goes_low (sched_counter (units s) u)")
    case True
    obtain h' q' where q: "prio_queue_push ?h (low_prio_queue (pool s)) u = Some (h', q')"
      "cq_rep h' q' (ls @ [u])" "unit_frame (insert u (set ls)) ?h h'"
      "is_in_pool h' = (is_in_pool ?h)(u := True)"
      using prio_queue_push_rep [OF r(2) u(2)] .
    have "cq_rep h' (high_prio_queue (pool s)) hs"
      using cq_rep_unit_frame [OF r(1) q(3)] d u by auto
    then show ?thesis using i u q True
      by (intro that [of "s\<lparr>units := h', pool := (pool s)\<lparr>low_prio_queue := q', num := num (pool s) + 1\<rparr>\<rparr>"])
        (auto simp: prio_pool_push_low prio_inv_def spec_push_def unit_frame_def)
  next
    case False
    obtain h' q' where q: "prio_queue_push ?h (high_prio_queue (pool s)) u = Some (h', q')"
      "cq_rep h' q' (hs @ [u])" "unit_frame (insert u (set hs)) ?h h'"
      "is_in_pool h' = (is_in_pool ?h)(u := True)"
      using prio_queue_push_rep [OF r(1) u(1)] .
    have "cq_rep h' (low_prio_queue (pool s)) ls"
      using cq_rep_unit_frame [OF r(2) q(3)] d u by auto
    then show ?thesis using i u q False
      by (intro that [of "s\<lparr>units := h', pool := (pool s)\<lparr>high_prio_queue := q', num := num (pool s) + 1\<rparr>\<rparr>"])
        (auto simp: prio_pool_push_high prio_inv_def spec_push_def unit_frame_def)
  qed
qed

section \<open>The contract of a pool\<close>

definition prio_holds :: "prio_state \<Rightarrow> addr multiset \<Rightarrow> bool" where
  "prio_holds s M \<longleftrightarrow> (\<exists>hs ls. prio_inv s hs ls \<and> M = mset hs + mset ls)"

lemma prio_inv_pool_pop:
  assumes i: "prio_inv s hs ls" and ne: "hs \<noteq> [] \<or> ls \<noteq> []"
  shows "prio_pool_pop s = prio_pool_pop_locked s"
proof -
  have "num (pool s) \<noteq> 0" using assms by (cases hs; cases ls) (auto simp: prio_inv_def)
  then show ?thesis by (simp add: prio_pool_pop_def)
qed

lemma spec_pop_mset:
  "snd (spec_pop c (hs, ls)) = Some u \<Longrightarrow> fst (spec_pop c (hs, ls)) = (hs', ls') \<Longrightarrow>
   u \<in> set hs \<union> set ls \<and> mset hs' + mset ls' = mset hs + mset ls - {#u#}"
  by (auto simp: spec_pop_def split: list.splits if_splits)

lemma spec_pop_None: "snd (spec_pop c (hs, ls)) = None \<longleftrightarrow> hs = [] \<and> ls = []"
  by (auto simp: spec_pop_def split: list.splits if_splits)

interpretation prio: abt_pool prio_pool_push prio_pool_pop prio_pool_get_size prio_holds
proof unfold_locales
  fix s u and M :: "addr multiset"
  assume "prio_holds s M" "u \<notin># M"
  then obtain hs ls where i: "prio_inv s hs ls" "M = mset hs + mset ls" "u \<notin> set hs" "u \<notin> set ls"
    by (auto simp: prio_holds_def)
  then obtain s' where "prio_pool_push s u = Some s'"
    "prio_inv s' (fst (spec_push (sched_counter (units s) u) u (hs, ls)))
       (snd (spec_push (sched_counter (units s) u) u (hs, ls)))"
    using prio_pool_push_refines by metis
  then show "\<exists>s'. prio_pool_push s u = Some s' \<and> prio_holds s' (add_mset u M)"
    using i(2) by (fastforce simp: prio_holds_def spec_push_def split: if_splits)
next
  fix s
  assume "prio_holds s {#}"
  then show "\<exists>s'. prio_pool_pop s = Some (s', None) \<and> prio_holds s' {#}"
    by (auto simp: prio_holds_def prio_pool_pop_def prio_inv_def)
next
  fix s and M :: "addr multiset"
  assume "prio_holds s M" "M \<noteq> {#}"
  then obtain hs ls where i: "prio_inv s hs ls" "M = mset hs + mset ls" "hs \<noteq> [] \<or> ls \<noteq> []"
    unfolding prio_holds_def by (metis empty_neutral(1) mset.simps(1))
  obtain u hs' ls' where sp: "spec_pop (cnt (pool s)) (hs, ls) = ((hs', ls'), Some u)"
    using i(3) spec_pop_None by (metis option.exhaust prod.collapse)
  then obtain s' where "prio_pool_pop s = Some (s', Some u)" "prio_inv s' hs' ls'"
    using prio_pool_pop_locked_refines [OF i(1)] prio_inv_pool_pop [OF i(1,3)] by auto
  then show "\<exists>s' u. prio_pool_pop s = Some (s', Some u) \<and> u \<in># M \<and> prio_holds s' (M - {#u#})"
    using spec_pop_mset [of "cnt (pool s)" hs ls u hs' ls'] sp i(2)
    by (auto simp: prio_holds_def) metis+
next
  fix s and M :: "addr multiset"
  assume "prio_holds s M"
  then show "prio_pool_get_size s = int (size M)"
    by (auto simp: prio_holds_def prio_inv_def prio_pool_get_size_def)
next
  fix s u and M :: "addr multiset"
  assume "prio_holds s M"
  then obtain hs ls where "prio_inv s hs ls" "M = mset hs + mset ls" by (auto simp: prio_holds_def)
  then have "distinct (hs @ ls)" "M = mset (hs @ ls)" by (auto simp: prio_inv_def cq_rep_def)
  then show "count M u \<le> 1" by (metis distinct_count_atmost_1 nat_le_linear zero_le)
qed


section \<open>Fairness to low priority units\<close>

text \<open>The number of pops up to and including the next one that prefers the low queue.\<close>

definition low_turn :: "u32 \<Rightarrow> nat" where
  "low_turn c = (if unat c mod 256 = 0 then 1 else 257 - unat c mod 256)"

lemma low_turn_bounds: "0 < low_turn c" "low_turn c \<le> 256"
  using mod_less_divisor [of 256 "unat c"] by (auto simp: low_turn_def simp del: mod_less_divisor)

lemma and_255: "c AND 0xFF = (0::u32) \<longleftrightarrow> unat c mod 256 = 0"
proof -
  have "c AND 0xFF = take_bit 8 c" by (simp add: take_bit_eq_mask mask_numeral)
  moreover have "take_bit 8 c = 0 \<longleftrightarrow> unat (take_bit 8 c) = 0" by (simp add: unat_eq_zero)
  moreover have "unat (take_bit 8 c) = unat c mod 256"
    using unsigned_take_bit_eq [where 'a = nat, of 8 c] by (simp only: take_bit_eq_mod) simp
  ultimately show ?thesis by simp
qed

lemma unat_Suc_mod_256: "unat (c + 1 :: u32) mod 256 = Suc (unat c) mod 256"
proof -
  have "unat (c + 1) = Suc (unat c) mod 2 ^ 32" by (simp add: unat_word_ariths)
  moreover have "(256::nat) dvd 2 ^ 32" using le_imp_power_dvd [of 8 32 "2::nat"] by simp
  ultimately show ?thesis by (simp only: mod_mod_cancel)
qed

lemma low_turn_step: "c AND 0xFF \<noteq> (0::u32) \<Longrightarrow> low_turn (c + 1) < low_turn c"
  by (auto simp: and_255 low_turn_def unat_Suc_mod_256 mod_Suc split: if_splits)

text \<open>
  A unit at position \<open>i\<close> of the low queue: each pop serves it, or brings it closer. The
  measure counts the pops that are left.
\<close>

lemma spec_pop_progress:
  assumes u: "i < length ls" and sp: "spec_pop c (hs, ls) = ((hs', ls'), r)"
  shows "r = Some (ls ! i) \<or>
    (\<exists>j. j < length ls' \<and> ls' ! j = ls ! i
      \<and> 256 * j + low_turn (c + 1) < 256 * i + low_turn c)"
proof -
  obtain l ls0 where ls: "ls = l # ls0" using u by (cases ls) auto
  show ?thesis
  proof (cases "hs = [] \<or> c AND 0xFF = 0")
    case True
    then have sp': "ls' = ls0" "r = Some l" using sp ls by (auto simp: spec_pop_def split: list.splits)
    show ?thesis
    proof (cases i)
      case 0
      then show ?thesis using sp' ls by simp
    next
      case (Suc j)
      have "low_turn (c + 1) < 256 + low_turn c"
        using low_turn_bounds [of c] low_turn_bounds [of "c + 1"] by linarith
      then show ?thesis using Suc sp' ls u by (intro disjI2 exI [of _ j]) auto
    qed
  next
    case False
    then have "ls' = ls" using sp ls by (auto simp: spec_pop_def split: list.splits)
    then show ?thesis using u False low_turn_step [of c] by (intro disjI2 exI [of _ i]) auto
  qed
qed

definition prio_waits :: "prio_state \<Rightarrow> addr \<Rightarrow> nat \<Rightarrow> bool" where
  "prio_waits s u n \<longleftrightarrow> (\<exists>hs ls i. prio_inv s hs ls \<and> i < length ls \<and> ls ! i = u
     \<and> n = 256 * i + low_turn (cnt (pool s)))"

definition prio_in_pool :: "prio_state \<Rightarrow> addr \<Rightarrow> bool" where
  "prio_in_pool s u = prio_unit_is_in_pool (units s) u"

interpretation prio_fair: fair_pool prio_pool_push prio_pool_pop prio_in_pool prio_waits
proof unfold_locales
  fix s u n
  assume "prio_waits s u n"
  then show "0 < n" using low_turn_bounds(1) [of "cnt (pool s)"] by (auto simp: prio_waits_def)
next
  fix s u n v s'
  assume "prio_waits s u n" and v: "\<not> prio_in_pool s v" and p: "prio_pool_push s v = Some s'"
  then obtain hs ls i where i: "prio_inv s hs ls" "i < length ls" "ls ! i = u"
    "n = 256 * i + low_turn (cnt (pool s))" by (auto simp: prio_waits_def)
  have "v \<notin> set hs" "v \<notin> set ls"
    using v i(1) by (auto simp: prio_inv_def prio_in_pool_def prio_unit_is_in_pool_def)
  then have "prio_inv s' (fst (spec_push (sched_counter (units s) v) v (hs, ls)))
     (snd (spec_push (sched_counter (units s) v) v (hs, ls)))" "cnt (pool s') = cnt (pool s)"
    using prio_pool_push_refines [OF i(1)] p by (metis option.inject)+
  moreover have "i < length (snd (spec_push (sched_counter (units s) v) v (hs, ls)))"
    "snd (spec_push (sched_counter (units s) v) v (hs, ls)) ! i = u"
    using i(2,3) by (simp_all add: spec_push_def nth_append)
  ultimately show "prio_waits s' u n" using i(4) unfolding prio_waits_def by metis
next
  fix s u n s' r
  assume "prio_waits s u n" and p: "prio_pool_pop s = Some (s', r)"
  then obtain hs ls i where i: "prio_inv s hs ls" "i < length ls" "ls ! i = u"
    "n = 256 * i + low_turn (cnt (pool s))" by (auto simp: prio_waits_def)
  have "hs \<noteq> [] \<or> ls \<noteq> []" using i(2) by auto
  then obtain hs' ls' where sp: "spec_pop (cnt (pool s)) (hs, ls) = ((hs', ls'), r)"
    and i1: "prio_inv s' hs' ls'" "cnt (pool s') = cnt (pool s) + 1"
    using prio_pool_pop_locked_refines [OF i(1)] p
      prio_inv_pool_pop [OF i(1)] by (metis Pair_inject option.inject prod.collapse)
  from spec_pop_progress [OF i(2) sp] i1 i(3,4)
  show "r = Some u \<or> (\<exists>m<n. prio_waits s' u m)" unfolding prio_waits_def by metis
qed

section \<open>Properties\<close>

definition example_units :: prio_units where
  "example_units = \<lparr>u_thread = \<lambda>_. None, u_task = \<lambda>_. None, p_prev = \<lambda>_. None, p_next = \<lambda>_. None,
     sched_counter = \<lambda>_. 0, is_in_pool = \<lambda>_. False\<rparr>"

definition example_state :: prio_state where
  "example_state = \<lparr>units = example_units, pool = prio_pool_init\<rparr>"

lemma example_state_inv: "prio_inv example_state [] []"
  unfolding example_state_def by (rule prio_inv_init) (simp add: example_units_def)

text \<open>The example pool after a first push of unit 7.\<close>

definition example_pushed :: prio_state where
  "example_pushed = the (prio_pool_push example_state 7)"

lemmas example_defs = example_pushed_def example_state_def example_units_def prio_pool_init_def
  empty_prio_queue_def prio_pool_push_def prio_queue_push_def SCHED_COUNTER_PRIORITY_LIMIT_def Let_def

lemma example_pushed_push: "prio_pool_push example_state 7 = Some example_pushed"
  by (simp add: example_defs)

lemma example_pushed_inv: "prio_inv example_pushed [] [7]" "cnt (pool example_pushed) = 0"
proof -
  have c: "sched_counter (units example_state) 7 = 0" "cnt (pool example_state) = 0"
    by (simp_all add: example_defs)
  obtain s' where "prio_pool_push example_state 7 = Some s'" "prio_inv s' [] [7]" "cnt (pool s') = 0"
    using prio_pool_push_refines [OF example_state_inv, of 7]
    unfolding c spec_push_def goes_low_def by auto
  then show "prio_inv example_pushed [] [7]" "cnt (pool example_pushed) = 0"
    using example_pushed_push by simp_all
qed

text \<open>
  \<open>pool_push\<close> never fails and refines the two-list specification. A unit that was pushed
  \<open>k\<close> times since its creation goes to the back of the low priority queue when \<open>k = 0\<close> (it
  never ran) or \<open>k \<ge> 25\<close> (a long-running unit) and to the back of the high priority queue
  otherwise; its counter then stands for \<open>k + 1\<close> pushes and never exceeds the limit.
\<close>

theorem prio_pool_push_class:
  assumes "prio_inv s hs ls" "u \<notin> set hs" "u \<notin> set ls"
    and "sched_counter (units s) u = int (min k 25)"
  shows "\<exists>s'. prio_pool_push s u = Some s'
    \<and> prio_inv s' (if k = 0 \<or> 25 \<le> k then hs else hs @ [u]) (if k = 0 \<or> 25 \<le> k then ls @ [u] else ls)
    \<and> sched_counter (units s') u = int (min (Suc k) 25)"
proof -
  have low: "goes_low (sched_counter (units s) u) \<longleftrightarrow> k = 0 \<or> 25 \<le> k"
    using assms(4) by (auto simp: goes_low_def SCHED_COUNTER_PRIORITY_LIMIT_def)
  have "sched_counter (bump_counter (units s) u) u = int (min (Suc k) 25)"
    using assms(4) by (auto simp: bump_counter_def SCHED_COUNTER_PRIORITY_LIMIT_def)
  moreover obtain s' where "prio_pool_push s u = Some s'"
    "prio_inv s' (fst (spec_push (sched_counter (units s) u) u (hs, ls)))
       (snd (spec_push (sched_counter (units s) u) u (hs, ls)))"
    "sched_counter (units s') = sched_counter (bump_counter (units s) u)"
    using prio_pool_push_refines [OF assms(1-3)] by metis
  ultimately show ?thesis using low by (auto simp: spec_push_def split: if_splits)
qed

theorem prio_pool_push_class_witness:
  "\<exists>s'. prio_pool_push example_pushed 3 = Some s' \<and> prio_inv s' [] [7, 3]
     \<and> sched_counter (units s') 3 = 1"
proof -
  have "sched_counter (units example_pushed) 3 = int (min 0 25)"
    by (simp add: example_defs)
  then show ?thesis
    using prio_pool_push_class [OF example_pushed_inv(1), of 3 0] by auto
qed

text \<open>
  C6: \<open>pool_pop\<close> never fails and refines the specification: it serves each of the two queues
  first in, first out, prefers the high priority queue except on every 256th call, and
  returns no unit only when both queues are empty.
\<close>

theorem prio_pool_pop_refines:
  assumes "prio_inv s hs ls"
  shows "\<exists>s'. prio_pool_pop s = Some (s', snd (spec_pop (cnt (pool s)) (hs, ls)))
    \<and> prio_inv s' (fst (fst (spec_pop (cnt (pool s)) (hs, ls)))) (snd (fst (spec_pop (cnt (pool s)) (hs, ls))))
    \<and> (snd (spec_pop (cnt (pool s)) (hs, ls)) = None \<longleftrightarrow> hs = [] \<and> ls = [])"
proof (cases "hs = [] \<and> ls = []")
  case True
  then show ?thesis using assms by (auto simp: prio_pool_pop_def prio_inv_def spec_pop_def)
next
  case False
  then have "prio_pool_pop s = prio_pool_pop_locked s" using prio_inv_pool_pop [OF assms] by blast
  then show ?thesis
    using prio_pool_pop_locked_refines [OF assms] spec_pop_None False by metis
qed

theorem prio_pool_pop_refines_witness:
  "\<exists>s'. prio_pool_pop example_pushed = Some (s', Some 7) \<and> prio_inv s' [] []"
  using prio_pool_pop_refines [OF example_pushed_inv(1)] by (simp add: spec_pop_def)

text \<open>
  \<open>pool_pop_timedwait\<close> pops by the same specification from the state it finds when the
  wait returns, whatever other threads did to the pool while the mutex was released; it only
  waits when the pool was empty.
\<close>

theorem prio_pool_pop_timedwait_refines:
  assumes "prio_inv s hs ls"
    and "hs = [] \<and> ls = [] \<Longrightarrow> prio_inv (env s) hs' ls'"
    and "hs \<noteq> [] \<or> ls \<noteq> [] \<Longrightarrow> hs' = hs \<and> ls' = ls"
  shows "\<exists>s' c. prio_pool_pop_timedwait env s = Some (s', snd (spec_pop c (hs', ls')))
    \<and> prio_inv s' (fst (fst (spec_pop c (hs', ls')))) (snd (fst (spec_pop c (hs', ls'))))
    \<and> c = (if hs = [] \<and> ls = [] then cnt (pool (env s)) else cnt (pool s))"
proof (cases "hs = [] \<and> ls = []")
  case True
  then have "prio_pool_pop_timedwait env s = prio_pool_pop_locked (env s)"
    using assms(1) by (simp add: prio_pool_pop_timedwait_def prio_inv_def)
  then show ?thesis using True prio_pool_pop_locked_refines [OF assms(2) [OF True]] by metis
next
  case False
  then have "num (pool s) \<noteq> 0" using assms(1) by (cases hs; cases ls) (auto simp: prio_inv_def)
  then have "prio_pool_pop_timedwait env s = prio_pool_pop_locked s"
    by (simp add: prio_pool_pop_timedwait_def)
  then show ?thesis using False assms(3) prio_pool_pop_locked_refines [OF assms(1)] by metis
qed

theorem prio_pool_pop_timedwait_refines_witness:
  "\<exists>s'. prio_pool_pop_timedwait (\<lambda>_. example_pushed) example_state = Some (s', Some 7) \<and> prio_inv s' [] []"
  using prio_pool_pop_timedwait_refines [OF example_state_inv, of "\<lambda>_. example_pushed" "[]" "[7]"]
  by (simp add: example_pushed_inv spec_pop_def)


text \<open>
  Work conservation of the priority pool. Whatever is pushed comes out again, exactly
  once: after pushing distinct units that are not in the pool, the size is the number of
  units, and that many pops return each of them once and leave the pool empty.
\<close>

theorem prio_pool_conservation:
  assumes "prio_holds s M" "distinct us" "\<forall>u \<in> set us. u \<notin># M"
  shows "\<exists>s1 s2 vs. prio.push_all s us = Some s1
    \<and> prio_pool_get_size s1 = int (size M + length us)
    \<and> prio.pop_times (size M + length us) s1 = Some (s2, vs)
    \<and> mset vs = M + mset us \<and> prio_holds s2 {#}"
  using assms by (rule prio.push_pop_conservation)

theorem prio_pool_conservation_witness:
  "\<exists>s1 s2 vs. prio.push_all example_pushed [3, 5] = Some s1 \<and> prio_pool_get_size s1 = 3
    \<and> prio.pop_times (Suc 2) s1 = Some (s2, vs) \<and> mset vs = {#7, 3, 5#} \<and> prio_holds s2 {#}"
proof -
  have "prio_holds example_pushed {#7#}" using example_pushed_inv by (force simp: prio_holds_def)
  then show ?thesis using prio_pool_conservation [of example_pushed "{#7#}" "[3, 5]"]
    by (simp del: prio.push_all.simps prio.pop_times.simps add: add_mset_commute numeral_2_eq_2)
qed

text \<open>
  C16: no starvation. In every run that interleaves pops with pushes of units outside the
  pool, the unit at position \<open>i\<close> of the low priority queue is handed out within
  \<open>256 * (i + 1)\<close> pops, however many high priority units arrive in the meantime: the wait is
  \<open>256 * i\<close> pops plus the number of pops until the next one that prefers the low queue.
\<close>

theorem prio_pool_no_starvation:
  assumes "prio_inv s hs ls" "i < length ls"
    and "pool_run prio_pool_push prio_pool_pop prio_in_pool s es s'"
    and "256 * i + low_turn (cnt (pool s)) \<le> num_pops es"
  shows "low_turn (cnt (pool s)) \<le> 256 \<and> EPop (Some (ls ! i)) \<in> set es"
proof
  show "low_turn (cnt (pool s)) \<le> 256" by (rule low_turn_bounds)
  show "EPop (Some (ls ! i)) \<in> set es"
    using assms by (intro prio_fair.run_serves [OF assms(3) _ assms(4)]) (auto simp: prio_waits_def)
qed

theorem prio_pool_no_starvation_witness:
  "\<exists>s' r. pool_run prio_pool_push prio_pool_pop prio_in_pool example_pushed [EPop r] s' \<and> r = Some 7"
proof -
  obtain s' r where "prio_pool_pop_locked example_pushed = Some (s', r)"
    using prio_pool_pop_locked_refines [OF example_pushed_inv(1)] .
  then have "prio_pool_pop example_pushed = Some (s', r)"
    using prio_inv_pool_pop [OF example_pushed_inv(1)] by simp
  then have "pool_run prio_pool_push prio_pool_pop prio_in_pool example_pushed [EPop r] s'"
    using run_done by (rule run_pop)
  moreover have "low_turn (cnt (pool example_pushed)) = 1"
    by (simp add: example_pushed_inv low_turn_def)
  ultimately show ?thesis
    using prio_pool_no_starvation [OF example_pushed_inv(1), of 0 "[EPop r]" s'] by auto
qed

text \<open>
  The conversion of a non-negative time to a \<^verbatim>\<open>timespec\<close> is the nearest one below it with
  nanoseconds in range, so \<^verbatim>\<open>pthread_cond_timedwait\<close> never sees an invalid deadline.
\<close>

theorem convert_double_sec_to_timespec_valid:
  assumes "0 \<le> t" and "convert_double_sec_to_timespec t = (tv_sec, tv_nsec)"
  shows "0 \<le> tv_sec \<and> 0 \<le> tv_nsec \<and> tv_nsec < 1000000000
    \<and> of_int tv_sec + of_int tv_nsec / 1000000000 \<le> t
    \<and> t < of_int tv_sec + (of_int tv_nsec + 1) / (1000000000::real)"
proof -
  define f where "f = (t - of_int \<lfloor>t\<rfloor>) * 1000000000"
  have "0 \<le> t - of_int \<lfloor>t\<rfloor>" "t - of_int \<lfloor>t\<rfloor> < 1" by linarith+
  then have f: "0 \<le> f" "f < 1000000000" unfolding f_def by (simp_all add: mult_less_cancel_right)
  have tv: "tv_sec = \<lfloor>t\<rfloor>" "tv_nsec = \<lfloor>f\<rfloor>"
    using assms f unfolding f_def by (auto simp: convert_double_sec_to_timespec_def c_trunc_def Let_def)
  have "t = of_int tv_sec + f / 1000000000" unfolding f_def tv by (simp add: field_simps)
  moreover have "of_int tv_nsec \<le> f" "f < of_int tv_nsec + 1" unfolding tv by linarith+
  moreover have "0 \<le> tv_sec" "0 \<le> tv_nsec" "tv_nsec < 1000000000"
    using f assms(1) by (auto simp: tv floor_less_iff)
  ultimately show ?thesis by (auto simp: field_simps)
qed

theorem convert_double_sec_to_timespec_valid_witness:
  "convert_double_sec_to_timespec (3 / 2) = (1, 500000000) \<and> (500000000::int) < 1000000000"
proof -
  have "convert_double_sec_to_timespec (3 / 2) = (1, 500000000)"
    by (simp add: convert_double_sec_to_timespec_def c_trunc_def Let_def)
  then show ?thesis using convert_double_sec_to_timespec_valid [of "3 / 2" 1 500000000] by simp
qed

text \<open>
  \<open>pool_remove\<close> tests the links for NULL, but a unit in a circular queue never has a NULL
  link. Removing the head of a queue with another unit behind it therefore leaves the head
  pointer on the removed unit, which is still marked as in the pool and is the unit that a pop
  of that queue returns next.
\<close>

theorem prio_pool_remove_keeps_head:
  assumes "prio_inv s hs (u # v # ls)"
  shows "p_head (low_prio_queue (pool (prio_pool_remove s u))) = Some u
    \<and> prio_unit_is_in_pool (units (prio_pool_remove s u)) u
    \<and> prio_pool_get_size (prio_pool_remove s u) = int (length hs + length ls + 1)
    \<and> (\<exists>s'. prio_pop_low (prio_pool_remove s u) = Some (s', Some u))"
proof -
  let ?h = "units s" and ?q = "low_prio_queue (pool s)"
  have r: "p_head ?q = Some u" "p_tail ?q = Some (last (v # ls))" "distinct (u # v # ls)"
    "chain (p_next ?h) (p_prev ?h) (u # v # ls @ [u])"
    using assms by (auto simp: prio_inv_def cq_rep_def)
  obtain ws t where t: "v # ls = ws @ [t]" by (metis append_butlast_last_id list.discI)
  have "u # v # ls @ [u] = (u # ws) @ [t, u]" using t by simp
  then have "chain (p_next ?h) (p_prev ?h) ((u # ws) @ [t, u])" using r(4) by (simp only:)
  then have pv: "p_prev ?h u = Some t" by (simp only: chain_append2)
  have nx: "p_next ?h u = Some v" using r(4) by simp
  have ne: "t \<noteq> u" "v \<noteq> u" using r(3) arg_cong [OF t, of set] by auto
  have rem: "prio_pool_remove s u = s\<lparr>units := ?h\<lparr>p_next := (p_next ?h)(t := Some v),
      p_prev := (p_prev ?h)(v := Some t)\<rparr>, pool := (pool s)\<lparr>num := num (pool s) - 1\<rparr>\<rparr>"
    using pv nx ne by (simp add: prio_pool_remove_def Let_def)
  have "last (v # ls) = t" using t by simp
  then have "\<exists>s'. prio_pop_low (prio_pool_remove s u) = Some (s', Some u)"
    unfolding rem using r(1,2) pv nx ne by (simp add: prio_pop_low_def prio_queue_pop_def)
  then show ?thesis using assms r(1)
    by (simp add: rem prio_inv_def prio_pool_get_size_def prio_unit_is_in_pool_def)
qed

theorem prio_pool_remove_keeps_head_witness:
  "\<exists>s. prio_pool_push example_pushed 3 = Some s \<and>
     (\<exists>s'. prio_pop_low (prio_pool_remove s 7) = Some (s', Some 7))"
proof -
  have c: "sched_counter (units example_pushed) 3 = 0" by (simp add: example_defs)
  obtain s where "prio_pool_push example_pushed 3 = Some s" "prio_inv s [] [7, 3]"
    using prio_pool_push_refines [OF example_pushed_inv(1), of 3]
    unfolding c spec_push_def goes_low_def by auto
  then show ?thesis using prio_pool_remove_keeps_head [of s "[]" 7 3 "[]"] by blast
qed

end
