(* ===== verification/Efirst_Pool.thy ===== *)
theory Efirst_Pool
  imports Pool_Interface Pointer_Lists
begin

text \<open>
  The custom Argobots pool of \<^verbatim>\<open>src/margo-efirst-pool.c\<close>: units that switched context fewer
  than 32 times are in a binary min-heap (an array that is indexed from 1) ordered by the
  time of their first push, the others in a singly linked FIFO list; pops alternate between
  the two. The cells of the array are \<^const>\<open>None\<close> until they are written; every operation is
  in the option monad, where \<^const>\<open>None\<close> is an access outside the array, a read of a cell
  that was never written, or a NULL dereference. \<^verbatim>\<open>malloc\<close> and \<^verbatim>\<open>realloc\<close> succeed (the code
  does not test their results) and sizes, which memory bounds, are natural numbers; the
  64-bit counters and the 8-bit fields are words.
\<close>

section \<open>Data\<close>

definition IS_IN_POOL :: u8 where "IS_IN_POOL = 0x1"
definition IS_THREAD :: u8 where "IS_THREAD = 0x2"

text \<open>The \<^verbatim>\<open>union\<close> of a thread and a task handle is one field.\<close>

record efirst_units =
  handle_of :: "addr \<Rightarrow> ptr"
  priority :: "addr \<Rightarrow> u64"
  flag :: "addr \<Rightarrow> u8"
  cs_count :: "addr \<Rightarrow> u8"
  next_of :: "addr \<Rightarrow> ptr"

record efirst_queue =
  pops :: u64
  prio_entries :: "ptr list"
  prio_capacity :: nat
  prio_size :: nat
  fifo_first :: ptr
  fifo_last :: ptr
  fifo_size :: nat

record efirst_state =
  e_units :: efirst_units
  queue :: efirst_queue
  num_units :: u64

definition create_queue :: "nat \<Rightarrow> efirst_queue" where
  "create_queue initial_capacity =
     \<lparr>pops = 0, prio_entries = replicate (initial_capacity + 1) None,
      prio_capacity = initial_capacity, prio_size = 0,
      fifo_first = None, fifo_last = None, fifo_size = 0\<rparr>"

section \<open>The heap\<close>

definition rd :: "ptr list \<Rightarrow> nat \<Rightarrow> ptr" where
  "rd es i = (if i < length es then es ! i else None)"

definition wr :: "ptr list \<Rightarrow> nat \<Rightarrow> addr \<Rightarrow> ptr list option" where
  "wr es i u = (if i < length es then Some (es[i := Some u]) else None)"

text \<open>The loop of \<^verbatim>\<open>queue_push_prio\<close>.\<close>

function sift_up :: "(addr \<Rightarrow> u64) \<Rightarrow> addr \<Rightarrow> ptr list \<Rightarrow> nat \<Rightarrow> (ptr list \<times> nat) option" where
  "sift_up pr new_entry es index =
    (if index > 1 then do {
       parent \<leftarrow> rd es (index div 2);
       (if pr new_entry < pr parent then do {
          es \<leftarrow> wr es index parent;
          sift_up pr new_entry es (index div 2)
        } else Some (es, index))
     } else Some (es, index))"
  by pat_completeness auto
termination by (relation "measure (\<lambda>(_, _, _, index). index)") auto

declare sift_up.simps [simp del]

text \<open>
  The loop of \<^verbatim>\<open>queue_pop_prio\<close>, with the choice of the child at the top of its body. The
  index starts at 1 and only grows; that it is positive is part of the guard to make the
  function total.
\<close>

definition smaller_child :: "(addr \<Rightarrow> u64) \<Rightarrow> nat \<Rightarrow> ptr list \<Rightarrow> nat \<Rightarrow> nat option" where
  "smaller_child pr n es index =
    (let child = index * 2
     in if child \<noteq> n then do {
          r \<leftarrow> rd es (child + 1);
          l \<leftarrow> rd es child;
          Some (if pr r < pr l then child + 1 else child)
        } else Some child)"

lemma smaller_child_cases:
  "smaller_child pr n es index = Some child \<Longrightarrow> child = index * 2 \<or> child = index * 2 + 1 \<and> index * 2 \<noteq> n"
  by (auto simp: smaller_child_def Let_def bind_eq_Some_conv split: if_splits)

function sift_down ::
  "(addr \<Rightarrow> u64) \<Rightarrow> addr \<Rightarrow> nat \<Rightarrow> ptr list \<Rightarrow> nat \<Rightarrow> (ptr list \<times> nat) option" where
  "sift_down pr last_entry n es index =
    (if 0 < index \<and> index * 2 \<le> n then do {
       child \<leftarrow> smaller_child pr n es index;
       c \<leftarrow> rd es child;
       (if pr last_entry > pr c then do {
          es \<leftarrow> wr es index c;
          sift_down pr last_entry n es child
        } else Some (es, index))
     } else Some (es, index))"
  by pat_completeness auto
termination
  by (relation "measure (\<lambda>(_, _, n, _, index). n + 1 - index)") (auto dest: smaller_child_cases)

declare sift_down.simps [simp del]

definition queue_push_prio ::
  "efirst_units \<Rightarrow> efirst_queue \<Rightarrow> addr \<Rightarrow> (efirst_units \<times> efirst_queue) option" where
  "queue_push_prio h q u = do {
     let n = prio_size q;
     let q = (if n \<ge> prio_capacity q then
                (let new_capacity = prio_capacity q * 2
                 in q\<lparr>prio_entries := take (new_capacity + 1) (prio_entries q)
                        @ replicate (new_capacity + 1 - length (prio_entries q)) None,
                      prio_capacity := new_capacity\<rparr>)
              else q);
     let n = n + 1;
     (es, index) \<leftarrow> sift_up (priority h) u (prio_entries q) n;
     es \<leftarrow> wr es index u;
     Some (h\<lparr>flag := (flag h)(u := flag h u OR IS_IN_POOL)\<rparr>, q\<lparr>prio_entries := es, prio_size := n\<rparr>)
   }"

definition queue_pop_prio ::
  "efirst_units \<Rightarrow> efirst_queue \<Rightarrow> (efirst_units \<times> efirst_queue \<times> ptr) option" where
  "queue_pop_prio h q =
    (let n = prio_size q in
     if n = 0 then Some (h, q, None)
     else do {
       min_entry \<leftarrow> rd (prio_entries q) 1;
       last_entry \<leftarrow> rd (prio_entries q) n;
       let n = n - 1;
       (es, index) \<leftarrow> sift_down (priority h) last_entry n (prio_entries q) 1;
       es \<leftarrow> wr es index last_entry;
       Some (h\<lparr>flag := (flag h)(min_entry := flag h min_entry XOR IS_IN_POOL)\<rparr>,
             q\<lparr>prio_entries := es, prio_size := n\<rparr>, Some min_entry)
     })"

section \<open>The FIFO list\<close>

definition queue_push_fifo ::
  "efirst_units \<Rightarrow> efirst_queue \<Rightarrow> addr \<Rightarrow> (efirst_units \<times> efirst_queue) option" where
  "queue_push_fifo h q u = do {
     let h = h\<lparr>next_of := (next_of h)(u := None)\<rparr>;
     (h, q) \<leftarrow>
       (if fifo_size q = 0 then Some (h, q\<lparr>fifo_first := Some u\<rparr>)
        else do {
          l \<leftarrow> fifo_last q;
          Some (h\<lparr>next_of := (next_of h)(l := Some u)\<rparr>, q)
        });
     let q = q\<lparr>fifo_last := Some u, fifo_size := fifo_size q + 1\<rparr>;
     Some (h\<lparr>flag := (flag h)(u := flag h u OR IS_IN_POOL)\<rparr>, q)
   }"

definition queue_pop_fifo ::
  "efirst_units \<Rightarrow> efirst_queue \<Rightarrow> (efirst_units \<times> efirst_queue \<times> ptr) option" where
  "queue_pop_fifo h q =
    (if fifo_size q = 0 then Some (h, q, None)
     else do {
       u \<leftarrow> fifo_first q;
       let q = q\<lparr>fifo_first := next_of h u, fifo_size := fifo_size q - 1\<rparr>;
       let q = (if fifo_size q = 0 then q\<lparr>fifo_last := None\<rparr> else q);
       let h = h\<lparr>next_of := (next_of h)(u := None)\<rparr>;
       Some (h\<lparr>flag := (flag h)(u := flag h u XOR IS_IN_POOL)\<rparr>, q, Some u)
     })"

section \<open>The queue\<close>

definition queue_push ::
  "efirst_units \<Rightarrow> efirst_queue \<Rightarrow> addr \<Rightarrow> (efirst_units \<times> efirst_queue) option" where
  "queue_push h q u =
    (if cs_count h u < 32 then do {
       (h, q) \<leftarrow> queue_push_prio h q u;
       Some (h\<lparr>cs_count := (cs_count h)(u := cs_count h u + 1)\<rparr>, q)
     } else queue_push_fifo h q u)"

definition queue_pop ::
  "efirst_units \<Rightarrow> efirst_queue \<Rightarrow> (efirst_units \<times> efirst_queue \<times> ptr) option" where
  "queue_pop h q =
    (let q = q\<lparr>pops := pops q + 1\<rparr> in
     if pops q mod 2 = 0
     then (if fifo_size q > 0 then queue_pop_fifo h q else queue_pop_prio h q)
     else (if prio_size q > 0 then queue_pop_prio h q else queue_pop_fifo h q))"

section \<open>Units and the pool\<close>

datatype efirst_unit_type = EFIRST_THREAD | EFIRST_TASK

definition efirst_unit_get_type :: "efirst_units \<Rightarrow> addr \<Rightarrow> efirst_unit_type" where
  "efirst_unit_get_type h u = (if flag h u AND IS_THREAD \<noteq> 0 then EFIRST_THREAD else EFIRST_TASK)"

definition efirst_unit_is_in_pool :: "efirst_units \<Rightarrow> addr \<Rightarrow> bool" where
  "efirst_unit_is_in_pool h u \<longleftrightarrow> flag h u AND IS_IN_POOL \<noteq> 0"

text \<open>\<^verbatim>\<open>calloc\<close> returned the address \<open>u\<close>; it zeroes the fields.\<close>

definition efirst_unit_create_from_thread :: "addr \<Rightarrow> efirst_units \<Rightarrow> ptr \<Rightarrow> efirst_units" where
  "efirst_unit_create_from_thread u h thread =
     h\<lparr>handle_of := (handle_of h)(u := thread), priority := (priority h)(u := 0),
       flag := (flag h)(u := IS_THREAD), cs_count := (cs_count h)(u := 0),
       next_of := (next_of h)(u := None)\<rparr>"

definition efirst_unit_create_from_task :: "addr \<Rightarrow> efirst_units \<Rightarrow> ptr \<Rightarrow> efirst_units" where
  "efirst_unit_create_from_task u h task =
     h\<lparr>handle_of := (handle_of h)(u := task), priority := (priority h)(u := 0),
       flag := (flag h)(u := 0), cs_count := (cs_count h)(u := 0),
       next_of := (next_of h)(u := None)\<rparr>"

definition efirst_pool_init :: "efirst_units \<Rightarrow> efirst_state" where
  "efirst_pool_init h = \<lparr>e_units = h, queue = create_queue 32, num_units = 0\<rparr>"

definition efirst_pool_get_size :: "efirst_state \<Rightarrow> int" where
  "efirst_pool_get_size s = int (prio_size (queue s) + fifo_size (queue s))"

definition efirst_pool_push :: "efirst_state \<Rightarrow> addr \<Rightarrow> efirst_state option" where
  "efirst_pool_push s u = do {
     let s = (if priority (e_units s) u = 0 then
                (let n = num_units s + 1
                 in s\<lparr>num_units := n,
                      e_units := (e_units s)\<lparr>priority := (priority (e_units s))(u := n)\<rparr>\<rparr>)
              else s);
     (h, q) \<leftarrow> queue_push (e_units s) (queue s) u;
     Some (s\<lparr>e_units := h, queue := q\<rparr>)
   }"

definition efirst_pool_pop_locked :: "efirst_state \<Rightarrow> (efirst_state \<times> ptr) option" where
  "efirst_pool_pop_locked s = do {
     (h, q, u) \<leftarrow> queue_pop (e_units s) (queue s);
     Some (s\<lparr>e_units := h, queue := q\<rparr>, u)
   }"

definition efirst_pool_pop :: "efirst_state \<Rightarrow> (efirst_state \<times> ptr) option" where
  "efirst_pool_pop s =
    (if prio_size (queue s) = 0 \<and> fifo_size (queue s) = 0 then Some (s, None)
     else efirst_pool_pop_locked s)"

text \<open>The condition wait releases the mutex: \<open>env\<close> is what other threads do meanwhile.\<close>

definition efirst_pool_pop_timedwait ::
  "(efirst_state \<Rightarrow> efirst_state) \<Rightarrow> efirst_state \<Rightarrow> (efirst_state \<times> ptr) option" where
  "efirst_pool_pop_timedwait env s =
    efirst_pool_pop_locked
      (if prio_size (queue s) = 0 \<and> fifo_size (queue s) = 0 then env s else s)"


section \<open>The heap as a function on positions\<close>

definition cell :: "ptr list \<Rightarrow> nat \<Rightarrow> addr" where
  "cell es i = the (es ! i)"

definition filled :: "ptr list \<Rightarrow> nat \<Rightarrow> bool" where
  "filled es n \<longleftrightarrow> n < length es \<and> (\<forall>i \<in> {1..n}. es ! i \<noteq> None)"

definition units_at :: "(nat \<Rightarrow> addr) \<Rightarrow> nat \<Rightarrow> addr multiset" where
  "units_at f n = image_mset f (mset_set {1..n})"

definition heap_ord :: "(addr \<Rightarrow> u64) \<Rightarrow> (nat \<Rightarrow> addr) \<Rightarrow> nat \<Rightarrow> bool" where
  "heap_ord pr f n \<longleftrightarrow> (\<forall>i \<in> {2..n}. pr (f (i div 2)) \<le> pr (f i))"

lemma cell_update [simp]: "i < length es \<Longrightarrow> cell (es[i := Some u]) = (cell es)(i := u)"
  by (auto simp: cell_def fun_eq_iff nth_list_update)

lemma filled_rd: "filled es n \<Longrightarrow> 1 \<le> i \<Longrightarrow> i \<le> n \<Longrightarrow> rd es i = Some (cell es i)"
  by (auto simp: filled_def rd_def cell_def)

lemma filled_wr:
  "filled es n \<Longrightarrow> i \<le> n \<Longrightarrow> wr es i u = Some (es[i := Some u]) \<and> filled (es[i := Some u]) n"
  by (auto simp: filled_def wr_def nth_list_update)

lemma units_at_swap:
  assumes "i \<in> {1..n}" "j \<in> {1..n}"
  shows "units_at (f(i := f j, j := f i)) n = units_at f n"
proof -
  define g where "g = id(i := j, j := i)"
  have "f(i := f j, j := f i) = f \<circ> g" by (auto simp: fun_eq_iff g_def)
  moreover have "inj_on g {1..n}" by (auto simp: inj_on_def g_def)
  moreover have "g ` {1..n} = {1..n}" using assms by (auto simp: g_def image_iff)
  ultimately show ?thesis
    by (simp only: units_at_def image_mset_mset_set image_mset.compositionality [symmetric] comp_apply)
qed

lemma heap_ord_root:
  assumes "heap_ord pr f n" "1 \<le> i" "i \<le> n"
  shows "pr (f 1) \<le> pr (f i)"
  using assms(2,3)
proof (induction i rule: less_induct)
  case (less i)
  show ?case
  proof (cases "i = 1")
    case False
    then have "pr (f 1) \<le> pr (f (i div 2))" using less by (intro less.IH) auto
    also have "\<dots> \<le> pr (f i)" using assms(1) False less.prems by (auto simp: heap_ord_def)
    finally show ?thesis .
  qed simp
qed

text \<open>
  The heap with a hole at position \<open>k\<close> that holds the entry on its way up: only the order
  between \<open>k\<close> and its parent may be violated, and the children of \<open>k\<close> are ordered with that
  parent. On its way down, only the order between \<open>k\<close> and its children may be violated.
\<close>

definition up_inv :: "(addr \<Rightarrow> u64) \<Rightarrow> (nat \<Rightarrow> addr) \<Rightarrow> nat \<Rightarrow> nat \<Rightarrow> bool" where
  "up_inv pr f n k \<longleftrightarrow> k \<in> {1..n}
     \<and> (\<forall>i \<in> {2..n}. i \<noteq> k \<longrightarrow> pr (f (i div 2)) \<le> pr (f i))
     \<and> (\<forall>i \<in> {2..n}. i div 2 = k \<longrightarrow> 2 \<le> k \<longrightarrow> pr (f (k div 2)) \<le> pr (f i))"

definition down_inv :: "(addr \<Rightarrow> u64) \<Rightarrow> (nat \<Rightarrow> addr) \<Rightarrow> nat \<Rightarrow> nat \<Rightarrow> bool" where
  "down_inv pr f n k \<longleftrightarrow> k \<in> {1..n}
     \<and> (\<forall>i \<in> {2..n}. i div 2 \<noteq> k \<longrightarrow> pr (f (i div 2)) \<le> pr (f i))
     \<and> (\<forall>i \<in> {2..n}. i div 2 = k \<longrightarrow> 2 \<le> k \<longrightarrow> pr (f (k div 2)) \<le> pr (f i))"

lemma up_inv_step:
  assumes I: "up_inv pr f n k" and k: "1 < k" and lt: "pr (f k) < pr (f (k div 2))"
  shows "up_inv pr (f(k := f (k div 2), k div 2 := f k)) n (k div 2)"
proof -
  let ?p = "k div 2" and ?f = "f(k := f (k div 2), k div 2 := f k)"
  have kn: "k \<le> n" "?p < k" "1 \<le> ?p" using I k by (auto simp: up_inv_def)
  have ord: "pr (f (i div 2)) \<le> pr (f i)" if "i \<in> {2..n}" "i \<noteq> k" for i
    using I that by (auto simp: up_inv_def)
  have grand: "pr (f ?p) \<le> pr (f i)" if "i \<in> {2..n}" "i div 2 = k" for i
    using I that k by (auto simp: up_inv_def)
  have "pr (?f (i div 2)) \<le> pr (?f i)" if i: "i \<in> {2..n}" "i \<noteq> ?p" for i
  proof -
    consider "i = k" | "i div 2 = k" "i \<noteq> k" | "i div 2 = ?p" "i \<noteq> k"
      | "i div 2 \<noteq> k" "i div 2 \<noteq> ?p" "i \<noteq> k" by auto
    then show ?thesis
      using i kn lt ord [of i] grand [of i] by cases auto
  qed
  moreover have "pr (?f (?p div 2)) \<le> pr (?f i)" if i: "i \<in> {2..n}" "i div 2 = ?p" "2 \<le> ?p" for i
  proof -
    have "pr (f (?p div 2)) \<le> pr (f ?p)" using ord [of ?p] i kn by auto
    moreover have "pr (f ?p) \<le> pr (f i)" if "i \<noteq> k" using ord [of i] i that by auto
    ultimately show ?thesis using i kn by (cases "i = k") (auto simp: div_le_dividend)
  qed
  ultimately show ?thesis using kn by (auto simp: up_inv_def)
qed

lemma up_inv_done:
  assumes "up_inv pr f n k" and "1 < k \<Longrightarrow> \<not> pr (f k) < pr (f (k div 2))"
  shows "heap_ord pr f n"
  unfolding heap_ord_def
proof
  fix i
  assume i: "i \<in> {2..n}"
  then show "pr (f (i div 2)) \<le> pr (f i)"
    using assms by (cases "i = k") (auto simp: up_inv_def not_less)
qed

lemma down_inv_step:
  assumes I: "down_inv pr f n k" and c: "c \<in> {2..n}" "c div 2 = k" and lt: "pr (f c) < pr (f k)"
    and sib: "\<And>i. i \<in> {2..n} \<Longrightarrow> i div 2 = k \<Longrightarrow> pr (f c) \<le> pr (f i)"
  shows "down_inv pr (f(k := f c, c := f k)) n c"
proof -
  let ?f = "f(k := f c, c := f k)"
  have kc: "k < c" "1 \<le> k" using c by auto
  have ord: "pr (f (i div 2)) \<le> pr (f i)" if "i \<in> {2..n}" "i div 2 \<noteq> k" for i
    using I that by (auto simp: down_inv_def)
  have grand: "pr (f (k div 2)) \<le> pr (f i)" if "i \<in> {2..n}" "i div 2 = k" "2 \<le> k" for i
    using I that by (auto simp: down_inv_def)
  have "pr (?f (i div 2)) \<le> pr (?f i)" if i: "i \<in> {2..n}" "i div 2 \<noteq> c" for i
  proof -
    consider "i = c" | "i = k" | "i div 2 = k" "i \<noteq> c" | "i \<noteq> c" "i \<noteq> k" "i div 2 \<noteq> k" by auto
    then show ?thesis
    proof cases
      case 2
      then show ?thesis using grand [OF c] i kc by auto
    qed (use i kc c lt ord [of i] sib [of i] in auto)
  qed
  moreover have "pr (?f (c div 2)) \<le> pr (?f i)" if i: "i \<in> {2..n}" "i div 2 = c" for i
    using ord [of i] i kc c by auto
  ultimately show ?thesis using c kc by (auto simp: down_inv_def)
qed

lemma down_inv_done:
  assumes "down_inv pr f n k" and "\<And>i. i \<in> {2..n} \<Longrightarrow> i div 2 = k \<Longrightarrow> pr (f k) \<le> pr (f i)"
  shows "heap_ord pr f n"
  using assms by (auto simp: heap_ord_def down_inv_def)


section \<open>The sift loops restore the heap\<close>

text \<open>The array with the travelling entry put into the hole at \<open>k\<close>.\<close>

abbreviation plug :: "ptr list \<Rightarrow> nat \<Rightarrow> addr \<Rightarrow> ptr list" where
  "plug es k u \<equiv> es[k := Some u]"

lemma plug_move:
  assumes fl: "filled (plug es k u) n" and k: "k \<in> {1..n}" and p: "p \<in> {1..n}" "p \<noteq> k"
  shows "rd es p = Some (cell es p)"
    and "wr es k (cell es p) = Some (plug es k (cell es p))"
    and "filled (plug (plug es k (cell es p)) p u) n"
    and "cell (plug (plug es k (cell es p)) p u) =
         (cell (plug es k u))(k := cell (plug es k u) p, p := cell (plug es k u) k)"
    and "units_at (cell (plug (plug es k (cell es p)) p u)) n = units_at (cell (plug es k u)) n"
proof -
  have len: "k < length es" "p < length es" "n < length es" using fl k p by (auto simp: filled_def)
  have "plug es k u ! p \<noteq> None" using fl p unfolding filled_def by blast
  then have "es ! p \<noteq> None" using p by simp
  then show "rd es p = Some (cell es p)" using len by (auto simp: rd_def cell_def)
  show "wr es k (cell es p) = Some (plug es k (cell es p))" using len by (simp add: wr_def)
  show "filled (plug (plug es k (cell es p)) p u) n"
    unfolding filled_def
  proof
    show "n < length (plug (plug es k (cell es p)) p u)" using len by simp
    show "\<forall>i \<in> {1..n}. plug (plug es k (cell es p)) p u ! i \<noteq> None"
    proof
      fix i
      assume "i \<in> {1..n}"
      then have "plug es k u ! i \<noteq> None" using fl by (auto simp: filled_def)
      then show "plug (plug es k (cell es p)) p u ! i \<noteq> None"
        using len by (cases "i = p"; cases "i = k") auto
    qed
  qed
  show c: "cell (plug (plug es k (cell es p)) p u) =
         (cell (plug es k u))(k := cell (plug es k u) p, p := cell (plug es k u) k)"
    using len p by (simp add: fun_eq_iff)
  show "units_at (cell (plug (plug es k (cell es p)) p u)) n = units_at (cell (plug es k u)) n"
    unfolding c using k p by (intro units_at_swap)
qed

definition sifted :: "(addr \<Rightarrow> u64) \<Rightarrow> addr \<Rightarrow> nat \<Rightarrow> ptr list \<Rightarrow> nat \<Rightarrow> ptr list \<Rightarrow> nat \<Rightarrow> bool" where
  "sifted pr u n es k es' k' \<longleftrightarrow> k' \<in> {1..n} \<and> length es' = length es
     \<and> filled (plug es' k' u) n \<and> heap_ord pr (cell (plug es' k' u)) n
     \<and> units_at (cell (plug es' k' u)) n = units_at (cell (plug es k u)) n"

lemma sift_up_sifted:
  assumes "filled (plug es k u) n" "up_inv pr (cell (plug es k u)) n k"
  shows "\<exists>es' k'. sift_up pr u es k = Some (es', k') \<and> sifted pr u n es k es' k'"
  using assms
proof (induction pr u es k rule: sift_up.induct)
  case (1 pr u es k)
  note fl = "1.prems"(1) and inv = "1.prems"(2)
  have k: "k \<in> {1..n}" "k < length es" using fl inv by (auto simp: up_inv_def filled_def)
  show ?case
  proof (cases "1 < k \<and> pr u < pr (cell es (k div 2))")
    case True
    let ?p = "k div 2" and ?es = "plug es k (cell es (k div 2))"
    have p: "?p \<in> {1..n}" "?p \<noteq> k" using k True by auto
    note mv = plug_move [OF fl k(1) p]
    have inv': "up_inv pr (cell (plug ?es ?p u)) n ?p"
      unfolding mv(4) by (rule up_inv_step [OF inv]) (use True k p in auto)
    obtain es' k' where "sift_up pr u ?es ?p = Some (es', k')" "sifted pr u n ?es ?p es' k'"
      using "1.IH" [OF _ mv(1) _ mv(2,3) inv'] True by blast
    moreover have "sift_up pr u es k = sift_up pr u ?es ?p"
      using True mv by (subst sift_up.simps) simp
    moreover have "sifted pr u n es k es' k'"
      using calculation(2) mv(5) by (auto simp: sifted_def)
    ultimately show ?thesis by auto
  next
    case False
    have "rd es (k div 2) = Some (cell es (k div 2))" if "1 < k"
      by (rule plug_move(1) [OF fl k(1)]) (use k that in auto)
    then have "sift_up pr u es k = Some (es, k)" using False by (subst sift_up.simps) auto
    moreover have "heap_ord pr (cell (plug es k u)) n"
      by (rule up_inv_done [OF inv]) (use False k in auto)
    ultimately show ?thesis using k fl by (auto simp: sifted_def)
  qed
qed

lemma smaller_child_spec:
  assumes fl: "filled (plug es k u) n" and k: "k \<in> {1..n}" "k * 2 \<le> n"
  shows "\<exists>c. smaller_child pr n es k = Some c \<and> c \<in> {2..n} \<and> c div 2 = k
    \<and> (\<forall>i \<in> {2..n}. i div 2 = k \<longrightarrow> pr (cell (plug es k u) c) \<le> pr (cell (plug es k u) i))"
proof -
  have len: "k < length es" using fl k by (auto simp: filled_def)
  have l: "rd es (k * 2) = Some (cell es (k * 2))" using plug_move(1) [OF fl k(1), of "k * 2"] k by auto
  have r: "rd es (k * 2 + 1) = Some (cell es (k * 2 + 1))" if "k * 2 \<noteq> n"
    using plug_move(1) [OF fl k(1), of "k * 2 + 1"] k that by auto
  have kids: "i = k * 2 \<or> i = k * 2 + 1 \<and> k * 2 \<noteq> n" if "i \<in> {2..n}" "i div 2 = k" for i
    using that by auto
  define c where "c = (if k * 2 \<noteq> n \<and> pr (cell es (k * 2 + 1)) < pr (cell es (k * 2))
    then k * 2 + 1 else k * 2)"
  have "smaller_child pr n es k = Some c"
    using l r by (simp add: smaller_child_def Let_def c_def)
  moreover have "c \<in> {2..n}" "c div 2 = k" using k by (auto simp: c_def)
  moreover have "pr (cell (plug es k u) c) \<le> pr (cell (plug es k u) i)"
    if "i \<in> {2..n}" "i div 2 = k" for i
    using kids [OF that] k len by (auto simp: c_def not_less)
  ultimately show ?thesis by blast
qed

lemma sift_down_sifted:
  assumes "filled (plug es k u) n" "down_inv pr (cell (plug es k u)) n k"
  shows "\<exists>es' k'. sift_down pr u n es k = Some (es', k') \<and> sifted pr u n es k es' k'"
  using assms
proof (induction pr u n es k rule: sift_down.induct)
  case (1 pr u n es k)
  note fl = "1.prems"(1) and inv = "1.prems"(2)
  have k: "k \<in> {1..n}" "k < length es" using fl inv by (auto simp: down_inv_def filled_def)
  show ?case
  proof (cases "k * 2 \<le> n")
    case True
    then obtain c where c: "smaller_child pr n es k = Some c" "c \<in> {2..n}" "c div 2 = k"
      and sib: "\<forall>i \<in> {2..n}. i div 2 = k \<longrightarrow> pr (cell (plug es k u) c) \<le> pr (cell (plug es k u) i)"
      using smaller_child_spec [OF fl k(1)] by blast
    have ck: "c \<in> {1..n}" "c \<noteq> k" using c k by auto
    note mv = plug_move [OF fl k(1) ck]
    show ?thesis
    proof (cases "pr (cell es c) < pr u")
      case lt: True
      let ?es = "plug es k (cell es c)"
      have inv': "down_inv pr (cell (plug ?es c u)) n c"
        unfolding mv(4) by (rule down_inv_step [OF inv c(2,3)]) (use sib lt k ck in auto)
      have "0 < k \<and> k * 2 \<le> n" using k True by auto
      then obtain es' k' where "sift_down pr u n ?es c = Some (es', k')" "sifted pr u n ?es c es' k'"
        using "1.IH" [OF _ c(1) mv(1) _ mv(2,3) inv'] lt by blast
      moreover have "sift_down pr u n es k = sift_down pr u n ?es c"
        using True lt mv c k by (subst sift_down.simps) simp
      moreover have "sifted pr u n es k es' k'"
        using calculation(2) mv(5) by (auto simp: sifted_def)
      ultimately show ?thesis by auto
    next
      case False
      then have "sift_down pr u n es k = Some (es, k)"
        using True mv c k by (subst sift_down.simps) simp
      moreover have "heap_ord pr (cell (plug es k u)) n"
        by (rule down_inv_done [OF inv]) (use False k sib ck in \<open>force simp: not_less\<close>)
      ultimately show ?thesis using k fl by (auto simp: sifted_def)
    qed
  next
    case False
    then have "sift_down pr u n es k = Some (es, k)" by (subst sift_down.simps) simp
    moreover have "heap_ord pr (cell (plug es k u)) n"
      by (rule down_inv_done [OF inv]) (use False in auto)
    ultimately show ?thesis using k fl by (auto simp: sifted_def)
  qed
qed


section \<open>Invariant and refinement\<close>

text \<open>The heap holds the units of the multiset \<open>M\<close>; the list holds \<open>fs\<close> in order.\<close>

definition heap_rep :: "(addr \<Rightarrow> u64) \<Rightarrow> efirst_queue \<Rightarrow> addr multiset \<Rightarrow> bool" where
  "heap_rep pr q M \<longleftrightarrow>
     0 < prio_capacity q \<and> length (prio_entries q) = prio_capacity q + 1
     \<and> prio_size q \<le> prio_capacity q \<and> filled (prio_entries q) (prio_size q)
     \<and> heap_ord pr (cell (prio_entries q)) (prio_size q)
     \<and> units_at (cell (prio_entries q)) (prio_size q) = M"

definition fifo_rep :: "(addr \<Rightarrow> ptr) \<Rightarrow> efirst_queue \<Rightarrow> addr list \<Rightarrow> bool" where
  "fifo_rep nx q fs \<longleftrightarrow> distinct fs \<and> path nx (fifo_first q) fs \<and> fifo_size q = length fs
     \<and> fifo_last q = (if fs = [] then None else Some (last fs))"

definition in_flag :: "(addr \<Rightarrow> u8) \<Rightarrow> addr \<Rightarrow> bool" where
  "in_flag f u \<longleftrightarrow> f u AND IS_IN_POOL \<noteq> 0"

definition efirst_inv :: "efirst_state \<Rightarrow> addr multiset \<Rightarrow> addr list \<Rightarrow> bool" where
  "efirst_inv s M fs \<longleftrightarrow>
     heap_rep (priority (e_units s)) (queue s) M \<and> fifo_rep (next_of (e_units s)) (queue s) fs
     \<and> (\<forall>u. count M u \<le> 1) \<and> set_mset M \<inter> set fs = {}
     \<and> (\<forall>u. in_flag (flag (e_units s)) u \<longleftrightarrow> u \<in># M \<or> u \<in> set fs)"

lemma size_units_at [simp]: "size (units_at f n) = n"
  by (simp add: units_at_def)

lemma in_units_at: "u \<in># units_at f n \<longleftrightarrow> (\<exists>i \<in> {1..n}. u = f i)"
  by (auto simp: units_at_def)

lemma units_at_Suc: "units_at f (Suc n) = add_mset (f (Suc n)) (units_at f n)"
proof -
  have "{1..Suc n} = insert (Suc n) {1..n}" by auto
  then show ?thesis by (simp add: units_at_def)
qed

lemma units_at_cong: "(\<And>i. i \<in> {1..n} \<Longrightarrow> f i = g i) \<Longrightarrow> units_at f n = units_at g n"
  by (auto simp: units_at_def intro!: image_mset_cong)

lemma heap_ord_cong_pr: "heap_ord pr f n \<Longrightarrow> (\<And>u. u \<in># units_at f n \<Longrightarrow> pr' u = pr u) \<Longrightarrow> heap_ord pr' f n"
proof -
  assume h: "heap_ord pr f n" and eq: "\<And>u. u \<in># units_at f n \<Longrightarrow> pr' u = pr u"
  show ?thesis unfolding heap_ord_def
  proof
    fix i
    assume i: "i \<in> {2..n}"
    then have "f i \<in># units_at f n" "f (i div 2) \<in># units_at f n"
      by (auto simp: in_units_at intro!: bexI)
    then show "pr' (f (i div 2)) \<le> pr' (f i)" using h i eq by (auto simp: heap_ord_def)
  qed
qed

text \<open>The array after the capacity check of \<^verbatim>\<open>queue_push_prio\<close> has room for one more entry.\<close>

definition grown :: "efirst_queue \<Rightarrow> efirst_queue" where
  "grown q =
    (if prio_size q \<ge> prio_capacity q then
       (let new_capacity = prio_capacity q * 2
        in q\<lparr>prio_entries := take (new_capacity + 1) (prio_entries q)
               @ replicate (new_capacity + 1 - length (prio_entries q)) None,
             prio_capacity := new_capacity\<rparr>)
     else q)"

lemma grown_rep:
  assumes h: "heap_rep pr q M"
  shows "heap_rep pr (grown q) M" "prio_size (grown q) < prio_capacity (grown q)"
    "prio_size (grown q) = prio_size q" "grown q\<lparr>prio_entries := es, prio_size := n\<rparr> =
       q\<lparr>prio_entries := es, prio_size := n, prio_capacity := prio_capacity (grown q)\<rparr>"
proof -
  let ?es = "prio_entries q @ replicate (prio_capacity q) None"
  have g: "grown q = (if prio_size q \<ge> prio_capacity q
      then q\<lparr>prio_entries := ?es, prio_capacity := prio_capacity q * 2\<rparr> else q)"
    using h by (auto simp: grown_def heap_rep_def Let_def)
  have nth: "?es ! i = prio_entries q ! i" if "i \<le> prio_size q" for i
    using h that by (auto simp: heap_rep_def nth_append)
  have "units_at (cell ?es) (prio_size q) = M"
    using h nth by (subst units_at_cong [of _ _ "cell (prio_entries q)"]) (auto simp: heap_rep_def cell_def)
  moreover have "heap_ord pr (cell ?es) (prio_size q)"
    using h nth by (auto simp: heap_rep_def heap_ord_def cell_def)
  moreover have "filled ?es (prio_size q)"
    using h nth by (auto simp: heap_rep_def filled_def)
  ultimately show "heap_rep pr (grown q) M" using h by (auto simp: g heap_rep_def)
  show "prio_size (grown q) < prio_capacity (grown q)" "prio_size (grown q) = prio_size q"
    "grown q\<lparr>prio_entries := es, prio_size := n\<rparr> =
       q\<lparr>prio_entries := es, prio_size := n, prio_capacity := prio_capacity (grown q)\<rparr>"
    using h by (auto simp: g heap_rep_def)
qed


abbreviation mark_in :: "efirst_units \<Rightarrow> addr \<Rightarrow> efirst_units" where
  "mark_in h u \<equiv> h\<lparr>flag := (flag h)(u := flag h u OR IS_IN_POOL)\<rparr>"

abbreviation mark_out :: "efirst_units \<Rightarrow> addr \<Rightarrow> efirst_units" where
  "mark_out h u \<equiv> h\<lparr>flag := (flag h)(u := flag h u XOR IS_IN_POOL)\<rparr>"

lemma queue_push_prio_unfold:
  "queue_push_prio h q u = do {
     (es, index) \<leftarrow> sift_up (priority h) u (prio_entries (grown q)) (prio_size q + 1);
     es \<leftarrow> wr es index u;
     Some (mark_in h u, (grown q)\<lparr>prio_entries := es, prio_size := prio_size q + 1\<rparr>)
   }"
  by (simp add: queue_push_prio_def grown_def Let_def)

lemma queue_push_prio_rep:
  assumes h: "heap_rep (priority h) q M"
  obtains es c where
    "queue_push_prio h q u = Some (mark_in h u,
       q\<lparr>prio_entries := es, prio_size := prio_size q + 1, prio_capacity := c\<rparr>)"
    "heap_rep (priority h) (q\<lparr>prio_entries := es, prio_size := prio_size q + 1, prio_capacity := c\<rparr>) (add_mset u M)"
proof -
  let ?n = "Suc (prio_size q)" and ?es = "prio_entries (grown q)"
  note g = grown_rep [OF h]
  have len: "?n < length ?es" using g(1-3) by (auto simp: heap_rep_def)
  have fl: "filled ?es (prio_size q)" and ho: "heap_ord (priority h) (cell ?es) (prio_size q)"
    and M: "units_at (cell ?es) (prio_size q) = M" using g(1,3) by (auto simp: heap_rep_def)
  have fl': "filled (plug ?es ?n u) ?n"
    using fl len by (auto simp: filled_def nth_list_update le_Suc_eq)
  have up: "up_inv (priority h) (cell (plug ?es ?n u)) ?n ?n"
    using ho len by (auto simp: up_inv_def heap_ord_def le_Suc_eq)
  obtain es' k' where s: "sift_up (priority h) u ?es ?n = Some (es', k')"
    "sifted (priority h) u ?n ?es ?n es' k'"
    using sift_up_sifted [OF fl' up] by blast
  have "units_at (cell (plug ?es ?n u)) ?n = add_mset u M"
    using len M by (auto simp: units_at_Suc intro!: units_at_cong)
  then have r: "heap_rep (priority h) (q\<lparr>prio_entries := plug es' k' u, prio_size := ?n,
      prio_capacity := prio_capacity (grown q)\<rparr>) (add_mset u M)"
    using s(2) g(1-3) by (auto simp: sifted_def heap_rep_def)
  have "k' < length es'" using s(2) len by (auto simp: sifted_def)
  then have "queue_push_prio h q u = Some (mark_in h u,
      q\<lparr>prio_entries := plug es' k' u, prio_size := ?n, prio_capacity := prio_capacity (grown q)\<rparr>)"
    using s(1) g(4) by (simp add: queue_push_prio_unfold wr_def)
  then show ?thesis using r by (intro that [where es = "plug es' k' u" and c = "prio_capacity (grown q)"]) simp_all
qed

lemma units_at_remove_root:
  "units_at (f(1 := f (Suc m))) m = units_at f (Suc m) - {#f 1#}"
proof -
  have "units_at f (Suc m) = units_at (f(1 := f (Suc m), Suc m := f 1)) (Suc m)"
    by (rule units_at_swap [symmetric]) auto
  also have "\<dots> = add_mset (f 1) (units_at (f(1 := f (Suc m), Suc m := f 1)) m)"
    by (simp add: units_at_Suc)
  also have "units_at (f(1 := f (Suc m), Suc m := f 1)) m = units_at (f(1 := f (Suc m))) m"
    by (rule units_at_cong) auto
  finally show ?thesis by simp
qed

lemma queue_pop_prio_rep:
  assumes h: "heap_rep (priority h) q M" and ne: "M \<noteq> {#}"
  obtains es u where
    "queue_pop_prio h q = Some (mark_out h u, q\<lparr>prio_entries := es, prio_size := prio_size q - 1\<rparr>, Some u)"
    "heap_rep (priority h) (q\<lparr>prio_entries := es, prio_size := prio_size q - 1\<rparr>) (M - {#u#})"
    "u \<in># M" "\<forall>v \<in># M. priority h u \<le> priority h v"
proof -
  let ?es = "prio_entries q" and ?pr = "priority h"
  obtain m where m: "prio_size q = Suc m"
    using h ne by (cases "prio_size q") (auto simp: heap_rep_def units_at_def)
  have fl: "filled ?es (Suc m)" and ho: "heap_ord ?pr (cell ?es) (Suc m)"
    and M: "units_at (cell ?es) (Suc m) = M" and len: "length ?es = prio_capacity q + 1" "Suc m < length ?es"
    using h m by (auto simp: heap_rep_def)
  let ?u = "cell ?es 1" and ?l = "cell ?es (Suc m)"
  have rd: "rd ?es 1 = Some ?u" "rd ?es (Suc m) = Some ?l" using filled_rd [OF fl] by auto
  have root: "?u \<in># M" "\<forall>v \<in># M. ?pr ?u \<le> ?pr v"
    using heap_ord_root [OF ho] unfolding M [symmetric] by (auto simp: in_units_at)
  have rem: "units_at (cell (plug ?es 1 ?l)) m = M - {#?u#}"
    using units_at_remove_root [of "cell ?es" m] M len by simp
  obtain es' k' where s: "sift_down ?pr ?l m ?es 1 = Some (es', k')" "k' < length es'"
    "length es' = length ?es" "filled (plug es' k' ?l) m" "heap_ord ?pr (cell (plug es' k' ?l)) m"
    "units_at (cell (plug es' k' ?l)) m = M - {#?u#}"
  proof (cases "m = 0")
    case True
    then show ?thesis using len rem
      by (intro that [of ?es 1]) (auto simp: sift_down.simps filled_def heap_ord_def units_at_def)
  next
    case False
    have "filled (plug ?es 1 ?l) m" using fl by (auto simp: filled_def nth_list_update)
    moreover have "down_inv ?pr (cell (plug ?es 1 ?l)) m 1"
      using ho len False by (auto simp: down_inv_def heap_ord_def)
    ultimately obtain es' k' where "sift_down ?pr ?l m ?es 1 = Some (es', k')"
      "sifted ?pr ?l m ?es 1 es' k'" using sift_down_sifted by blast
    then show ?thesis using rem len by (intro that [of es' k']) (auto simp: sifted_def)
  qed
  have "queue_pop_prio h q =
      Some (mark_out h ?u, q\<lparr>prio_entries := plug es' k' ?l, prio_size := prio_size q - 1\<rparr>, Some ?u)"
    using rd s(1,2) m by (simp add: queue_pop_prio_def Let_def wr_def)
  moreover have "heap_rep ?pr (q\<lparr>prio_entries := plug es' k' ?l, prio_size := prio_size q - 1\<rparr>) (M - {#?u#})"
    using h s(3-6) m by (auto simp: heap_rep_def)
  ultimately show ?thesis using root by (intro that)
qed

lemma queue_pop_prio_empty: "heap_rep pr q {#} \<Longrightarrow> queue_pop_prio h q = Some (h, q, None)"
  by (auto simp: heap_rep_def queue_pop_prio_def Let_def dest: arg_cong [of _ _ size])


lemma queue_push_fifo_rep:
  assumes f: "fifo_rep (next_of h) q fs" and u: "u \<notin> set fs"
  obtains nx fst' where
    "queue_push_fifo h q u = Some (mark_in (h\<lparr>next_of := nx\<rparr>) u,
       q\<lparr>fifo_first := fst', fifo_last := Some u, fifo_size := fifo_size q + 1\<rparr>)"
    "fifo_rep nx (q\<lparr>fifo_first := fst', fifo_last := Some u, fifo_size := fifo_size q + 1\<rparr>) (fs @ [u])"
proof (cases "fs = []")
  case True
  then show ?thesis using f
    by (intro that [of "(next_of h)(u := None)" "Some u"])
      (auto simp: queue_push_fifo_def fifo_rep_def)
next
  case False
  let ?nx = "(next_of h)(u := None, last fs := Some u)"
  have ne: "last fs \<noteq> u" using u False by (metis last_in_set)
  have "path ?nx (fifo_first q) (fs @ [u])"
    using path_snoc [of "next_of h" "fifo_first q" fs u] f u False ne
    by (auto simp: fifo_rep_def fun_upd_twist)
  then show ?thesis using f u False ne
    by (intro that [of ?nx "fifo_first q"]) (auto simp: queue_push_fifo_def fifo_rep_def)
qed

lemma queue_pop_fifo_rep:
  assumes f: "fifo_rep (next_of h) q (u # fs)"
  obtains fst' lst' where
    "queue_pop_fifo h q = Some (mark_out (h\<lparr>next_of := (next_of h)(u := None)\<rparr>) u,
       q\<lparr>fifo_first := fst', fifo_last := lst', fifo_size := fifo_size q - 1\<rparr>, Some u)"
    "fifo_rep ((next_of h)(u := None))
       (q\<lparr>fifo_first := fst', fifo_last := lst', fifo_size := fifo_size q - 1\<rparr>) fs"
  using f
  by (intro that [where fst' = "next_of h u" and lst' = "if fs = [] then None else fifo_last q"])
    (auto simp: queue_pop_fifo_def fifo_rep_def Let_def chain_frame)

lemma queue_pop_fifo_empty: "fifo_rep nx q [] \<Longrightarrow> queue_pop_fifo h q = Some (h, q, None)"
  by (simp add: fifo_rep_def queue_pop_fifo_def)

lemma bit0_flag: "(x AND IS_IN_POOL \<noteq> 0) = bit (x :: u8) 0"
  by (simp add: IS_IN_POOL_def and_one_eq bit_0 even_iff_mod_2_eq_zero)

lemma in_flag_mark [simp]:
  "in_flag (f(u := f u OR IS_IN_POOL)) v \<longleftrightarrow> v = u \<or> in_flag f v"
  "in_flag (f(u := f u XOR IS_IN_POOL)) v \<longleftrightarrow> (if v = u then \<not> in_flag f u else in_flag f v)"
  unfolding in_flag_def bit0_flag by (auto simp: bit_or_iff bit_xor_iff IS_IN_POOL_def)

lemma in_pool_flag: "efirst_unit_is_in_pool h u = in_flag (flag h) u"
  by (simp add: efirst_unit_is_in_pool_def in_flag_def)

lemma heap_rep_same_prio:
  assumes "heap_rep pr q M" "prio_entries q' = prio_entries q" "prio_size q' = prio_size q"
    "prio_capacity q' = prio_capacity q" "\<And>u. u \<in># M \<Longrightarrow> pr' u = pr u"
  shows "heap_rep pr' q' M"
  using assms heap_ord_cong_pr [of pr "cell (prio_entries q)" "prio_size q" pr'] by (auto simp: heap_rep_def)

lemma fifo_rep_same_fifo:
  "fifo_rep nx q fs \<Longrightarrow> fifo_first q' = fifo_first q \<Longrightarrow> fifo_last q' = fifo_last q \<Longrightarrow>
   fifo_size q' = fifo_size q \<Longrightarrow> fifo_rep nx q' fs"
  by (simp add: fifo_rep_def)

text \<open>The state after the priority of a unit was drawn.\<close>

definition draw_priority :: "efirst_state \<Rightarrow> addr \<Rightarrow> efirst_state" where
  "draw_priority s u =
    (if priority (e_units s) u = 0 then
       s\<lparr>num_units := num_units s + 1,
         e_units := (e_units s)\<lparr>priority := (priority (e_units s))(u := num_units s + 1)\<rparr>\<rparr>
     else s)"

lemma draw_priority_inv:
  assumes "efirst_inv s M fs" "u \<notin># M"
  shows "efirst_inv (draw_priority s u) M fs"
proof -
  have "heap_rep (priority (e_units (draw_priority s u))) (queue (draw_priority s u)) M"
    by (rule heap_rep_same_prio [of "priority (e_units s)" "queue s"])
      (use assms in \<open>auto simp: draw_priority_def efirst_inv_def\<close>)
  then show ?thesis using assms(1) by (auto simp: draw_priority_def efirst_inv_def)
qed

lemma draw_priority_simps [simp]:
  "cs_count (e_units (draw_priority s u)) = cs_count (e_units s)"
  "next_of (e_units (draw_priority s u)) = next_of (e_units s)"
  "queue (draw_priority s u) = queue s"
  by (auto simp: draw_priority_def)

lemma efirst_pool_push_unfold:
  "efirst_pool_push s u = do {
     (h, q) \<leftarrow> queue_push (e_units (draw_priority s u)) (queue s) u;
     Some ((draw_priority s u)\<lparr>e_units := h, queue := q\<rparr>)
   }"
  by (simp add: efirst_pool_push_def draw_priority_def Let_def)

lemma efirst_pool_push_refines:
  assumes i: "efirst_inv s M fs" and u: "u \<notin># M" "u \<notin> set fs"
  obtains s' where "efirst_pool_push s u = Some s'"
    "efirst_inv s' (if cs_count (e_units s) u < 32 then add_mset u M else M)
       (if cs_count (e_units s) u < 32 then fs else fs @ [u])"
    "priority (e_units s') = priority (e_units (draw_priority s u))"
    "num_units s' = num_units (draw_priority s u)" "pops (queue s') = pops (queue s)"
    "cs_count (e_units s') = (cs_count (e_units s))(u :=
       if cs_count (e_units s) u < 32 then cs_count (e_units s) u + 1 else cs_count (e_units s) u)"
proof -
  let ?s = "draw_priority s u" and ?h = "e_units (draw_priority s u)"
  note i' = draw_priority_inv [OF i u(1)]
  have hr: "heap_rep (priority ?h) (queue s) M" and fr: "fifo_rep (next_of ?h) (queue s) fs"
    using i' by (auto simp: efirst_inv_def)
  have un: "count M u = 0" using u(1) by (simp add: not_in_iff)
  show ?thesis
  proof (cases "cs_count (e_units s) u < 32")
    case True
    obtain es c where p: "queue_push_prio ?h (queue s) u = Some (mark_in ?h u,
        (queue s)\<lparr>prio_entries := es, prio_size := prio_size (queue s) + 1, prio_capacity := c\<rparr>)"
      "heap_rep (priority ?h) ((queue s)\<lparr>prio_entries := es, prio_size := prio_size (queue s) + 1,
          prio_capacity := c\<rparr>) (add_mset u M)"
      using queue_push_prio_rep [OF hr] .
    let ?s' = "?s\<lparr>e_units := (mark_in ?h u)\<lparr>cs_count := (cs_count ?h)(u := cs_count ?h u + 1)\<rparr>,
        queue := (queue s)\<lparr>prio_entries := es, prio_size := prio_size (queue s) + 1, prio_capacity := c\<rparr>\<rparr>"
    have "efirst_inv ?s' (add_mset u M) fs"
      using i' u un p(2) unfolding efirst_inv_def
      by (auto elim!: fifo_rep_same_fifo)
    then show ?thesis using True p(1)
      by (intro that [of ?s']) (auto simp: efirst_pool_push_unfold queue_push_def)
  next
    case False
    obtain nx f' where p: "queue_push_fifo ?h (queue s) u = Some (mark_in (?h\<lparr>next_of := nx\<rparr>) u,
        (queue s)\<lparr>fifo_first := f', fifo_last := Some u, fifo_size := fifo_size (queue s) + 1\<rparr>)"
      "fifo_rep nx ((queue s)\<lparr>fifo_first := f', fifo_last := Some u,
          fifo_size := fifo_size (queue s) + 1\<rparr>) (fs @ [u])"
      using queue_push_fifo_rep [OF fr u(2)] .
    let ?s' = "?s\<lparr>e_units := mark_in (?h\<lparr>next_of := nx\<rparr>) u,
        queue := (queue s)\<lparr>fifo_first := f', fifo_last := Some u, fifo_size := fifo_size (queue s) + 1\<rparr>\<rparr>"
    have "efirst_inv ?s' M (fs @ [u])"
      using i' u p(2) hr unfolding efirst_inv_def
      by (auto elim!: heap_rep_same_prio)
    then show ?thesis using False p(1)
      by (intro that [of ?s']) (auto simp: efirst_pool_push_unfold queue_push_def)
  qed
qed


text \<open>
  A pop counts itself, then serves the list on even counts and the heap on odd counts, unless
  the preferred one is empty.
\<close>

definition prefers_fifo :: "efirst_state \<Rightarrow> bool" where
  "prefers_fifo s \<longleftrightarrow> even (pops (queue s) + 1)"

lemma efirst_inv_pops: "efirst_inv (s\<lparr>queue := (queue s)\<lparr>pops := c\<rparr>\<rparr>) M fs = efirst_inv s M fs"
  by (simp add: efirst_inv_def heap_rep_def fifo_rep_def)

lemma efirst_inv_sizes:
  "efirst_inv s M fs \<Longrightarrow> prio_size (queue s) = size M \<and> fifo_size (queue s) = length fs"
  by (auto simp: efirst_inv_def heap_rep_def fifo_rep_def)

lemma pop_heap_inv:
  assumes i: "efirst_inv s M fs" and ne: "M \<noteq> {#}"
  obtains h' q' u where "queue_pop_prio (e_units s) (queue s) = Some (h', q', Some u)"
    "efirst_inv (s\<lparr>e_units := h', queue := q'\<rparr>) (M - {#u#}) fs" "u \<in># M"
    "\<forall>v \<in># M. priority (e_units s) u \<le> priority (e_units s) v" "pops q' = pops (queue s)"
proof -
  have hr: "heap_rep (priority (e_units s)) (queue s) M" using i by (simp add: efirst_inv_def)
  obtain es u where p: "queue_pop_prio (e_units s) (queue s) = Some (mark_out (e_units s) u,
      (queue s)\<lparr>prio_entries := es, prio_size := prio_size (queue s) - 1\<rparr>, Some u)"
    "heap_rep (priority (e_units s)) ((queue s)\<lparr>prio_entries := es,
       prio_size := prio_size (queue s) - 1\<rparr>) (M - {#u#})" "u \<in># M"
    "\<forall>v \<in># M. priority (e_units s) u \<le> priority (e_units s) v"
    using queue_pop_prio_rep [OF hr ne] .
  have once: "v \<in># M - {#u#} \<longleftrightarrow> v \<in># M \<and> v \<noteq> u" for v
  proof -
    have "count M u \<le> 1" using i by (simp add: efirst_inv_def)
    then show ?thesis using p(3) by (auto simp: in_diff_count not_in_iff dest: in_diffD)
  qed
  have le: "count (M - {#u#}) v \<le> 1" for v
  proof -
    have "count M v \<le> 1" using i by (simp add: efirst_inv_def)
    then show ?thesis by simp
  qed
  let ?s = "s\<lparr>e_units := mark_out (e_units s) u,
     queue := (queue s)\<lparr>prio_entries := es, prio_size := prio_size (queue s) - 1\<rparr>\<rparr>"
  have "efirst_inv ?s (M - {#u#}) fs"
    using i p(2,3) once le unfolding efirst_inv_def
    by (auto elim!: fifo_rep_same_fifo)
  then show ?thesis using p(3,4) by (intro that [OF p(1)]) auto
qed

lemma pop_fifo_inv:
  assumes i: "efirst_inv s M (u # fs)"
  obtains h' q' where "queue_pop_fifo (e_units s) (queue s) = Some (h', q', Some u)"
    "efirst_inv (s\<lparr>e_units := h', queue := q'\<rparr>) M fs" "pops q' = pops (queue s)"
proof -
  have fr: "fifo_rep (next_of (e_units s)) (queue s) (u # fs)" using i by (simp add: efirst_inv_def)
  have d: "u \<notin> set fs" "u \<notin># M" using i by (auto simp: efirst_inv_def fifo_rep_def)
  obtain f l where p: "queue_pop_fifo (e_units s) (queue s) =
      Some (mark_out ((e_units s)\<lparr>next_of := (next_of (e_units s))(u := None)\<rparr>) u,
        (queue s)\<lparr>fifo_first := f, fifo_last := l, fifo_size := fifo_size (queue s) - 1\<rparr>, Some u)"
    "fifo_rep ((next_of (e_units s))(u := None))
      ((queue s)\<lparr>fifo_first := f, fifo_last := l, fifo_size := fifo_size (queue s) - 1\<rparr>) fs"
    using queue_pop_fifo_rep [OF fr] .
  let ?s = "s\<lparr>e_units := mark_out ((e_units s)\<lparr>next_of := (next_of (e_units s))(u := None)\<rparr>) u,
     queue := (queue s)\<lparr>fifo_first := f, fifo_last := l, fifo_size := fifo_size (queue s) - 1\<rparr>\<rparr>"
  have "efirst_inv ?s M fs"
    using i d p(2) unfolding efirst_inv_def by (auto elim!: heap_rep_same_prio)
  then show ?thesis by (intro that [OF p(1)]) auto
qed

lemma efirst_pool_pop_refines:
  assumes i: "efirst_inv s M fs" and ne: "M \<noteq> {#} \<or> fs \<noteq> []"
  obtains (heap) s' u where "efirst_pool_pop s = Some (s', Some u)" "\<not> prefers_fifo s \<or> fs = []"
      "efirst_inv s' (M - {#u#}) fs" "u \<in># M" "pops (queue s') = pops (queue s) + 1"
      "\<forall>v \<in># M. priority (e_units s) u \<le> priority (e_units s) v"
  | (fifo) s' u fs' where "efirst_pool_pop s = Some (s', Some u)" "prefers_fifo s \<or> M = {#}"
      "fs = u # fs'" "efirst_inv s' M fs'" "pops (queue s') = pops (queue s) + 1"
proof -
  let ?s = "s\<lparr>queue := (queue s)\<lparr>pops := pops (queue s) + 1\<rparr>\<rparr>"
  have i': "efirst_inv ?s M fs" using i by (simp add: efirst_inv_pops)
  note sz = efirst_inv_sizes [OF i]
  have pop: "efirst_pool_pop s = do {
      (h, q, u) \<leftarrow> (if (prefers_fifo s \<or> M = {#}) \<and> fs \<noteq> []
         then queue_pop_fifo (e_units ?s) (queue ?s) else queue_pop_prio (e_units ?s) (queue ?s));
      Some (?s\<lparr>e_units := h, queue := q\<rparr>, u) }"
    using ne sz by (auto simp: efirst_pool_pop_def efirst_pool_pop_locked_def queue_pop_def Let_def
        prefers_fifo_def even_iff_mod_2_eq_zero)
  show ?thesis
  proof (cases "(prefers_fifo s \<or> M = {#}) \<and> fs \<noteq> []")
    case True
    then obtain u fs' where fs: "fs = u # fs'" by (cases fs) auto
    obtain h q where "queue_pop_fifo (e_units ?s) (queue ?s) = Some (h, q, Some u)"
      "efirst_inv (?s\<lparr>e_units := h, queue := q\<rparr>) M fs'" "pops q = pops (queue ?s)"
      using pop_fifo_inv [OF i' [unfolded fs]] .
    then show ?thesis using True pop fs by (intro fifo) auto
  next
    case False
    then have "M \<noteq> {#}" using ne by auto
    then obtain h q u where "queue_pop_prio (e_units ?s) (queue ?s) = Some (h, q, Some u)"
      "efirst_inv (?s\<lparr>e_units := h, queue := q\<rparr>) (M - {#u#}) fs" "u \<in># M"
      "\<forall>v \<in># M. priority (e_units s) u \<le> priority (e_units s) v" "pops q = pops (queue ?s)"
      using pop_heap_inv [OF i'] by auto
    then show ?thesis using False pop by (intro heap) auto
  qed
qed

section \<open>The contracts of a pool\<close>

definition efirst_holds :: "efirst_state \<Rightarrow> addr multiset \<Rightarrow> bool" where
  "efirst_holds s N \<longleftrightarrow> (\<exists>M fs. efirst_inv s M fs \<and> N = M + mset fs)"

interpretation efirst: abt_pool efirst_pool_push efirst_pool_pop efirst_pool_get_size efirst_holds
proof unfold_locales
  fix s u and N :: "addr multiset"
  assume "efirst_holds s N" "u \<notin># N"
  then obtain M fs where i: "efirst_inv s M fs" "N = M + mset fs" "u \<notin># M" "u \<notin> set fs"
    by (auto simp: efirst_holds_def)
  let ?M = "if cs_count (e_units s) u < 32 then add_mset u M else M"
  let ?fs = "if cs_count (e_units s) u < 32 then fs else fs @ [u]"
  obtain s' where "efirst_pool_push s u = Some s'" "efirst_inv s' ?M ?fs"
    using efirst_pool_push_refines [OF i(1,3,4)] .
  moreover have "add_mset u N = ?M + mset ?fs" using i(2) by simp
  ultimately show "\<exists>s'. efirst_pool_push s u = Some s' \<and> efirst_holds s' (add_mset u N)"
    unfolding efirst_holds_def by blast
next
  fix s
  assume "efirst_holds s {#}"
  then show "\<exists>s'. efirst_pool_pop s = Some (s', None) \<and> efirst_holds s' {#}"
    using efirst_inv_sizes by (fastforce simp: efirst_holds_def efirst_pool_pop_def)
next
  fix s and N :: "addr multiset"
  assume "efirst_holds s N" "N \<noteq> {#}"
  then obtain M fs where i: "efirst_inv s M fs" "N = M + mset fs" "M \<noteq> {#} \<or> fs \<noteq> []"
    unfolding efirst_holds_def by (metis empty_neutral(1) mset.simps(1))
  from i(1,3) show "\<exists>s' u. efirst_pool_pop s = Some (s', Some u) \<and> u \<in># N \<and> efirst_holds s' (N - {#u#})"
  proof (cases rule: efirst_pool_pop_refines)
    case (heap s' u)
    then have "N - {#u#} = (M - {#u#}) + mset fs" using i(2) by simp
    then show ?thesis using heap(1,3,4) i(2) unfolding efirst_holds_def by force
  next
    case (fifo s' u fs')
    then have "N - {#u#} = M + mset fs'" using i(2) by simp
    then show ?thesis using fifo(1,3,4) i(2) unfolding efirst_holds_def by force
  qed
next
  fix s and N :: "addr multiset"
  assume "efirst_holds s N"
  then show "efirst_pool_get_size s = int (size N)"
    using efirst_inv_sizes by (auto simp: efirst_holds_def efirst_pool_get_size_def)
next
  fix s u and N :: "addr multiset"
  assume "efirst_holds s N"
  then obtain M fs where i: "efirst_inv s M fs" "N = M + mset fs" by (auto simp: efirst_holds_def)
  have "count M u \<le> 1" "count (mset fs) u \<le> 1" "u \<in># M \<Longrightarrow> u \<notin># mset fs"
    using i(1) by (auto simp: efirst_inv_def fifo_rep_def distinct_count_atmost_1)
  moreover from this have "count M u = 0 \<or> count (mset fs) u = 0" by (metis count_eq_zero_iff)
  ultimately show "count N u \<le> 1" unfolding i(2) count_union by linarith
qed


definition efirst_in_pool :: "efirst_state \<Rightarrow> addr \<Rightarrow> bool" where
  "efirst_in_pool s u = efirst_unit_is_in_pool (e_units s) u"

definition efirst_waits :: "efirst_state \<Rightarrow> addr \<Rightarrow> nat \<Rightarrow> bool" where
  "efirst_waits s u n \<longleftrightarrow> (\<exists>M fs i. efirst_inv s M fs \<and> i < length fs \<and> fs ! i = u
     \<and> n = 2 * i + (if prefers_fifo s then 1 else 2))"

interpretation efirst_fair: fair_pool efirst_pool_push efirst_pool_pop efirst_in_pool efirst_waits
proof unfold_locales
  fix s u n
  assume "efirst_waits s u n"
  then show "0 < n" by (auto simp: efirst_waits_def split: if_splits)
next
  fix s u n v s'
  assume "efirst_waits s u n" and v: "\<not> efirst_in_pool s v" and p: "efirst_pool_push s v = Some s'"
  then obtain M fs i where i: "efirst_inv s M fs" "i < length fs" "fs ! i = u"
    "n = 2 * i + (if prefers_fifo s then 1 else 2)" by (auto simp: efirst_waits_def)
  let ?M = "if cs_count (e_units s) v < 32 then add_mset v M else M"
  let ?fs = "if cs_count (e_units s) v < 32 then fs else fs @ [v]"
  have "v \<notin># M" "v \<notin> set fs" using v i(1) by (auto simp: efirst_inv_def efirst_in_pool_def in_pool_flag)
  then have "efirst_inv s' ?M ?fs" "pops (queue s') = pops (queue s)"
    using efirst_pool_push_refines [OF i(1)] p by (metis option.inject)+
  moreover have "i < length ?fs" "?fs ! i = u" using i(2,3) by (simp_all add: nth_append)
  ultimately show "efirst_waits s' u n"
    using i(4) unfolding efirst_waits_def prefers_fifo_def by metis
next
  fix s u n s' r
  assume "efirst_waits s u n" and p: "efirst_pool_pop s = Some (s', r)"
  then obtain M fs i where i: "efirst_inv s M fs" "i < length fs" "fs ! i = u"
    "n = 2 * i + (if prefers_fifo s then 1 else 2)" by (auto simp: efirst_waits_def)
  have ne: "M \<noteq> {#} \<or> fs \<noteq> []" using i(2) by auto
  have alt: "prefers_fifo t \<longleftrightarrow> \<not> prefers_fifo s" if "pops (queue t) = pops (queue s) + 1" for t
    using that by (simp add: prefers_fifo_def)
  from i(1) ne show "r = Some u \<or> (\<exists>m<n. efirst_waits s' u m)"
  proof (cases rule: efirst_pool_pop_refines)
    case (heap t w)
    then have "efirst_waits s' u (2 * i + 1)" "\<not> prefers_fifo s"
      using p i alt [of t] unfolding efirst_waits_def by auto
    then show ?thesis using i(4) by auto
  next
    case (fifo t w fs')
    show ?thesis
    proof (cases i)
      case 0
      then show ?thesis using fifo p i(3) by simp
    next
      case (Suc j)
      then have "efirst_waits s' u (2 * j + (if prefers_fifo t then 1 else 2))"
        using fifo p i unfolding efirst_waits_def by auto
      moreover have "2 * j + (if prefers_fifo t then 1 else 2) < n"
        using Suc i(4) alt [OF fifo(5)] by simp
      ultimately show ?thesis by blast
    qed
  qed
qed

section \<open>Properties\<close>

text \<open>An example: a fresh pool, and units that never ran.\<close>

definition fresh_units :: efirst_units where
  "fresh_units = \<lparr>handle_of = \<lambda>_. None, priority = \<lambda>_. 0, flag = \<lambda>_. 0, cs_count = \<lambda>_. 0, next_of = \<lambda>_. None\<rparr>"

lemma efirst_inv_init:
  "\<forall>u. \<not> efirst_unit_is_in_pool h u \<Longrightarrow> efirst_inv (efirst_pool_init h) {#} []"
  by (auto simp: efirst_inv_def efirst_pool_init_def create_queue_def heap_rep_def fifo_rep_def
      filled_def heap_ord_def units_at_def in_pool_flag)

lemma fresh_units_inv: "efirst_inv (efirst_pool_init fresh_units) {#} []"
  by (rule efirst_inv_init) (simp add: fresh_units_def efirst_unit_is_in_pool_def)

text \<open>
  \<open>pool_push\<close> never fails, reads or writes outside the heap array (it doubles the array
  when it is full), and refines the specification: a unit with fewer than 32 context switches
  joins the heap, another one the back of the list. A unit that is pushed for the first time
  gets a priority above every one given before, until the 64-bit counter wraps.
\<close>

theorem efirst_pool_push_spec:
  assumes "efirst_inv s M fs" "u \<notin># M" "u \<notin> set fs"
    and "\<forall>v. priority (e_units s) v \<le> num_units s" "num_units s \<noteq> - 1"
  shows "\<exists>s'. efirst_pool_push s u = Some s'
    \<and> efirst_inv s' (if cs_count (e_units s) u < 32 then add_mset u M else M)
        (if cs_count (e_units s) u < 32 then fs else fs @ [u])
    \<and> (\<forall>v. priority (e_units s') v \<le> num_units s')
    \<and> (if priority (e_units s) u = 0 then (\<forall>v. v \<noteq> u \<longrightarrow> priority (e_units s') v < priority (e_units s') u)
       else priority (e_units s') = priority (e_units s))"
proof -
  let ?M = "if cs_count (e_units s) u < 32 then add_mset u M else M"
  let ?fs = "if cs_count (e_units s) u < 32 then fs else fs @ [u]"
  obtain s' where s': "efirst_pool_push s u = Some s'" "efirst_inv s' ?M ?fs"
    "priority (e_units s') = priority (e_units (draw_priority s u))"
    "num_units s' = num_units (draw_priority s u)"
    using efirst_pool_push_refines [OF assms(1-3)] .
  have "num_units s < num_units s + 1" using assms(5) by (rule word_less_plus_1)
  then have lt: "priority (e_units s) v < num_units s + 1" for v
    using assms(4) le_less_trans by blast
  then have "\<forall>v. priority (e_units s') v \<le> num_units s'"
    using assms(4) unfolding s'(3,4) draw_priority_def by (auto intro: less_imp_le)
  moreover have "if priority (e_units s) u = 0
      then (\<forall>v. v \<noteq> u \<longrightarrow> priority (e_units s') v < priority (e_units s') u)
      else priority (e_units s') = priority (e_units s)"
    using lt unfolding s'(3) draw_priority_def by auto
  ultimately show ?thesis using s'(1,2) by blast
qed

theorem efirst_pool_push_spec_witness:
  "\<exists>s'. efirst_pool_push (efirst_pool_init fresh_units) 4 = Some s' \<and> efirst_inv s' {#4#} []"
proof -
  let ?s = "efirst_pool_init fresh_units"
  have "\<forall>v. priority (e_units ?s) v \<le> num_units ?s" "num_units ?s \<noteq> - 1" "cs_count (e_units ?s) 4 = 0"
    by (simp_all add: efirst_pool_init_def fresh_units_def)
  then show ?thesis using efirst_pool_push_spec [OF fresh_units_inv, of 4] by auto
qed

text \<open>
  C3: \<open>pool_pop\<close> on a non-empty pool always returns a unit, and stays inside the heap array.
  When the count of pops is odd, or the list is empty, it is the unit of the heap with the
  smallest priority, that is the one whose first push came earliest; otherwise it is the
  front of the list. The other units stay where they are.
\<close>

theorem efirst_pool_pop_earliest:
  assumes "efirst_inv s M fs" "M \<noteq> {#} \<or> fs \<noteq> []"
  shows "\<exists>s' u. efirst_pool_pop s = Some (s', Some u)
    \<and> (if (prefers_fifo s \<or> M = {#}) \<and> fs \<noteq> []
       then u = hd fs \<and> efirst_inv s' M (tl fs)
       else u \<in># M \<and> (\<forall>v \<in># M. priority (e_units s) u \<le> priority (e_units s) v)
            \<and> efirst_inv s' (M - {#u#}) fs)"
  using assms
proof (cases rule: efirst_pool_pop_refines)
  case (heap s' u)
  then have "\<not> ((prefers_fifo s \<or> M = {#}) \<and> fs \<noteq> [])" by auto
  then show ?thesis using heap by auto
next
  case (fifo s' u fs')
  then show ?thesis by auto
qed

theorem efirst_pool_pop_earliest_witness:
  "\<exists>s1 s' u. efirst_pool_push (efirst_pool_init fresh_units) 4 = Some s1
     \<and> efirst_pool_pop s1 = Some (s', Some u) \<and> u = 4"
proof -
  have c: "cs_count (e_units (efirst_pool_init fresh_units)) 4 < 32"
    by (simp add: efirst_pool_init_def fresh_units_def)
  obtain s1 where "efirst_pool_push (efirst_pool_init fresh_units) 4 = Some s1" "efirst_inv s1 {#4#} []"
    using efirst_pool_push_refines [OF fresh_units_inv, of 4] c by auto
  then show ?thesis using efirst_pool_pop_earliest [of s1 "{#4#}" "[]"] by auto
qed

text \<open>
  Work conservation of the earliest-first pool: after pushing distinct units that are not
  in the pool, the size is the number of units, and that many pops return each of them
  exactly once and leave the pool empty.
\<close>

theorem efirst_pool_conservation:
  assumes "efirst_holds s M" "distinct us" "\<forall>u \<in> set us. u \<notin># M"
  shows "\<exists>s1 s2 vs. efirst.push_all s us = Some s1
    \<and> efirst_pool_get_size s1 = int (size M + length us)
    \<and> efirst.pop_times (size M + length us) s1 = Some (s2, vs)
    \<and> mset vs = M + mset us \<and> efirst_holds s2 {#}"
  using assms by (rule efirst.push_pop_conservation)

theorem efirst_pool_conservation_witness:
  "\<exists>s1 s2 vs. efirst.push_all (efirst_pool_init fresh_units) [3, 5] = Some s1
    \<and> efirst_pool_get_size s1 = 2 \<and> efirst.pop_times (Suc 1) s1 = Some (s2, vs)
    \<and> mset vs = {#3, 5#} \<and> efirst_holds s2 {#}"
proof -
  have "efirst_holds (efirst_pool_init fresh_units) {#}"
    using fresh_units_inv by (force simp: efirst_holds_def)
  then show ?thesis using efirst_pool_conservation [of "efirst_pool_init fresh_units" "{#}" "[3, 5]"]
    by (simp del: efirst.push_all.simps efirst.pop_times.simps)
qed

text \<open>
  C17: long-running units are not starved: in every run, the unit at position \<open>i\<close> of the list
  is handed out within \<open>2 * i + 2\<close> pops, however many younger units enter the heap.
\<close>

theorem efirst_pool_no_starvation:
  assumes "efirst_inv s M fs" "i < length fs"
    and "pool_run efirst_pool_push efirst_pool_pop efirst_in_pool s es s'"
    and "2 * i + 2 \<le> num_pops es"
  shows "EPop (Some (fs ! i)) \<in> set es"
proof (rule efirst_fair.run_serves [OF assms(3)])
  show "efirst_waits s (fs ! i) (2 * i + (if prefers_fifo s then 1 else 2))"
    using assms(1,2) by (auto simp: efirst_waits_def)
  show "2 * i + (if prefers_fifo s then 1 else 2) \<le> num_pops es" using assms(4) by auto
qed

text \<open>An example with a long-running unit: it is in the list, and two pops are enough.\<close>

definition old_units :: efirst_units where
  "old_units = fresh_units\<lparr>cs_count := \<lambda>_. 32\<rparr>"

theorem efirst_pool_no_starvation_witness:
  "\<exists>s1 es s'. efirst_pool_push (efirst_pool_init old_units) 9 = Some s1
     \<and> pool_run efirst_pool_push efirst_pool_pop efirst_in_pool s1 es s' \<and> EPop (Some 9) \<in> set es"
proof -
  have i: "efirst_inv (efirst_pool_init old_units) {#} []"
    by (rule efirst_inv_init) (simp add: old_units_def fresh_units_def efirst_unit_is_in_pool_def)
  have c: "\<not> cs_count (e_units (efirst_pool_init old_units)) 9 < 32"
    by (simp add: efirst_pool_init_def old_units_def)
  obtain s1 where s1: "efirst_pool_push (efirst_pool_init old_units) 9 = Some s1" "efirst_inv s1 {#} [9]"
    using efirst_pool_push_refines [OF i, of 9] c by auto
  then have "efirst_holds s1 {#9#}" by (force simp: efirst_holds_def)
  then obtain s2 u where s2: "efirst_pool_pop s1 = Some (s2, Some u)" "efirst_holds s2 {#}"
    using efirst.pop_law by fastforce
  then obtain s3 where s3: "efirst_pool_pop s2 = Some (s3, None)" using efirst.pop_empty_law by blast
  have run: "pool_run efirst_pool_push efirst_pool_pop efirst_in_pool s1 [EPop (Some u), EPop None] s3"
    using s2(1) s3 by (simp add: pool_run.intros)
  have "EPop (Some ([9] ! 0)) \<in> set [EPop (Some u), EPop None]"
    by (rule efirst_pool_no_starvation [OF s1(2) _ run]) simp_all
  then show ?thesis using s1(1) run by auto
qed

end
