(* ===== verification/Timer.thy ===== *)
theory Timer
  imports Pointer_Lists
begin

text \<open>
  The timers of \<^verbatim>\<open>src/margo-timer.c\<close>: a doubly linked list (\<^verbatim>\<open>utlist.h\<close>) of started timers,
  sorted by expiration, the ULTs that were submitted for expired timers, and the counters
  of pending ULTs that cancellation and finalization wait for. A state holds the timers of
  one instance, one function per field of \<^verbatim>\<open>struct margo_timer\<close>, and the fields of
  \<^verbatim>\<open>struct margo_timer_list\<close>. Times are real numbers. Operations are in the option monad:
  \<^const>\<open>None\<close> is a NULL dereference, a failed assertion of a list macro, or a use of freed
  memory. Loops over the list are partial functions, and are proved to return.
\<close>

section \<open>Data\<close>

text \<open>
  A ULT that runs \<^verbatim>\<open>timer_ult\<close> is before its first critical section (on the timer) or before
  its second one (on the list).
\<close>

datatype timer_ult_state = Ready addr | Finishing

text \<open>
  \<open>live\<close> says which timers are allocated and \<open>list_live\<close> whether the list is; \<open>ults\<close> are the
  submitted ULTs that have not ended; \<open>calls\<close> lists the timers whose callback was called, in
  the order of the calls.
\<close>

record timers =
  queue_of :: dll
  expiration :: "addr \<Rightarrow> real"
  timer_pool :: "addr \<Rightarrow> ptr"
  timer_pending :: "addr \<Rightarrow> nat"
  canceled :: "addr \<Rightarrow> bool"
  destroy_requested :: "addr \<Rightarrow> bool"
  live :: "addr \<Rightarrow> bool"
  list_pending :: nat
  list_destroy_requested :: bool
  list_live :: bool
  ults :: "timer_ult_state multiset"
  calls :: "addr list"

section \<open>Operations\<close>

definition timer_list_create :: "timers \<Rightarrow> timers" where
  "timer_list_create s = s\<lparr>queue_of := (queue_of s)\<lparr>dl_head := None\<rparr>, list_pending := 0,
     list_destroy_requested := False, list_live := True\<rparr>"

text \<open>
  \<^verbatim>\<open>timer_ult\<close>: the callback and the critical section on the timer, with \<^verbatim>\<open>timer_cleanup\<close>; then
  the critical section on the list.
\<close>

definition timer_ult_run :: "addr \<Rightarrow> timers \<Rightarrow> timers option" where
  "timer_ult_run t s =
    (if \<not> live s t then None
     else
       (let s = (if \<not> canceled s t then s\<lparr>calls := calls s @ [t]\<rparr> else s);
            s = s\<lparr>timer_pending := (timer_pending s)(t := timer_pending s t - 1)\<rparr>;
            no_more_pending = (timer_pending s t = 0);
            need_destroy = (no_more_pending \<and> destroy_requested s t);
            s = (if need_destroy then s\<lparr>live := (live s)(t := False)\<rparr> else s)
        in Some (s\<lparr>ults := ults s - {#Ready t#} + {#Finishing#}\<rparr>)))"

definition timer_ult_finish :: "timers \<Rightarrow> timers option" where
  "timer_ult_finish s =
    (if \<not> list_live s then None
     else Some (s\<lparr>list_pending := list_pending s - 1, ults := ults s - {#Finishing#}\<rparr>))"

text \<open>
  The body of the loops of \<^verbatim>\<open>__margo_timer_list_free\<close> and \<^verbatim>\<open>__margo_check_timers\<close>: take the
  timer off the list, then submit a ULT to its pool or call the callback.
\<close>

definition fire_timer :: "addr \<Rightarrow> timers \<Rightarrow> timers option" where
  "fire_timer cur s = do {
     d \<leftarrow> DL_DELETE cur (queue_of s);
     let d = d\<lparr>dl_prev := (dl_prev d)(cur := None), dl_next := (dl_next d)(cur := None)\<rparr>;
     let s = s\<lparr>queue_of := d\<rparr>;
     (if \<not> live s cur then None
      else if timer_pool s cur \<noteq> None then
        (let s = s\<lparr>timer_pending := (timer_pending s)(cur := timer_pending s cur + 1)\<rparr>;
             s = s\<lparr>list_pending := list_pending s + 1\<rparr>
         in Some (s\<lparr>ults := ults s + {#Ready cur#}\<rparr>))
      else Some (s\<lparr>calls := calls s @ [cur]\<rparr>))
   }"

partial_function (option) check_timers_loop :: "real \<Rightarrow> timers \<Rightarrow> timers option" where
  "check_timers_loop now s =
    (case dl_head (queue_of s) of
       None \<Rightarrow> Some s
     | Some cur \<Rightarrow>
         if expiration s cur < now then do { s \<leftarrow> fire_timer cur s; check_timers_loop now s }
         else Some s)"

definition margo_check_timers :: "real \<Rightarrow> timers \<Rightarrow> timers option" where
  "margo_check_timers now s = (if list_live s then check_timers_loop now s else None)"

partial_function (option) list_free_loop :: "timers \<Rightarrow> timers option" where
  "list_free_loop s =
    (case dl_head (queue_of s) of
       None \<Rightarrow> Some s
     | Some cur \<Rightarrow> do { s \<leftarrow> fire_timer cur s; list_free_loop s })"

text \<open>
  \<^verbatim>\<open>__margo_timer_list_free\<close> up to its wait, and after it: the wait ends when no ULT is pending.
\<close>

definition timer_list_free_begin :: "timers \<Rightarrow> timers option" where
  "timer_list_free_begin s = list_free_loop (s\<lparr>list_destroy_requested := True\<rparr>)"

definition timer_list_free_end :: "timers \<Rightarrow> timers option" where
  "timer_list_free_end s = (if list_pending s \<noteq> 0 then None else Some (s\<lparr>list_live := False\<rparr>))"

definition timer_get_next_expiration :: "real \<Rightarrow> timers \<Rightarrow> int \<times> real option" where
  "timer_get_next_expiration now s =
    (case dl_head (queue_of s) of
       Some h \<Rightarrow> (0, Some (expiration s h - now))
     | None \<Rightarrow> (-1, None))"

text \<open>The loop of \<^verbatim>\<open>__margo_timer_queue\<close>: walk backwards from the tail.\<close>

partial_function (option) queue_walk :: "(addr \<Rightarrow> real) \<Rightarrow> addr \<Rightarrow> addr \<Rightarrow> dll \<Rightarrow> dll option" where
  "queue_walk expir timer cur d = do {
     cur \<leftarrow> dl_prev d cur;
     (if expir cur < expir timer then DL_APPEND_ELEM (Some cur) timer d
      else if Some cur \<noteq> dl_head d then queue_walk expir timer cur d
      else Some d)
   }"

definition margo_timer_queue :: "addr \<Rightarrow> timers \<Rightarrow> timers option" where
  "margo_timer_queue timer s = do {
     d \<leftarrow>
       (case dl_head (queue_of s) of
          None \<Rightarrow> DL_APPEND timer (queue_of s)
        | Some head \<Rightarrow> do {
            d \<leftarrow> queue_walk (expiration s) timer head (queue_of s);
            (if dl_prev d timer = None \<and> dl_next d timer = None then DL_PREPEND timer d else Some d)
          });
     Some (s\<lparr>queue_of := d\<rparr>)
   }"

text \<open>\<^verbatim>\<open>calloc\<close> returned the address \<open>t\<close> (or NULL); the result is the code that is returned.\<close>

definition margo_timer_create_with_pool :: "ptr \<Rightarrow> ptr \<Rightarrow> timers \<Rightarrow> int \<times> timers" where
  "margo_timer_create_with_pool tmp pl s =
    (if list_destroy_requested s then (-1, s)
     else case tmp of
       None \<Rightarrow> (-1, s)
     | Some t \<Rightarrow>
         (0, s\<lparr>timer_pool := (timer_pool s)(t := pl), expiration := (expiration s)(t := 0),
               timer_pending := (timer_pending s)(t := 0), canceled := (canceled s)(t := False),
               destroy_requested := (destroy_requested s)(t := False), live := (live s)(t := True),
               queue_of := (queue_of s)\<lparr>dl_next := (dl_next (queue_of s))(t := None),
                 dl_prev := (dl_prev (queue_of s))(t := None)\<rparr>\<rparr>))"

definition margo_timer_start :: "real \<Rightarrow> addr \<Rightarrow> real \<Rightarrow> timers \<Rightarrow> (int \<times> timers) option" where
  "margo_timer_start now t timeout_ms s =
    (if \<not> live s t then None
     else
       (let already_started = (dl_prev (queue_of s) t \<noteq> None \<or> dl_next (queue_of s) t \<noteq> None)
        in if already_started \<or> canceled s t \<or> list_destroy_requested s then Some (-1, s)
           else do {
             s \<leftarrow> margo_timer_queue t (s\<lparr>expiration := (expiration s)(t := now + timeout_ms / 1000)\<rparr>);
             Some (0, s)
           }))"

text \<open>\<^verbatim>\<open>margo_timer_cancel\<close> up to its wait, and after it.\<close>

definition timer_cancel_begin :: "addr \<Rightarrow> timers \<Rightarrow> timers option" where
  "timer_cancel_begin t s =
    (if \<not> live s t then None
     else do {
       let s = s\<lparr>canceled := (canceled s)(t := True)\<rparr>;
       d \<leftarrow> (if dl_prev (queue_of s) t \<noteq> None \<or> dl_next (queue_of s) t \<noteq> None
             then DL_DELETE t (queue_of s) else Some (queue_of s));
       let d = d\<lparr>dl_prev := (dl_prev d)(t := None), dl_next := (dl_next d)(t := None)\<rparr>;
       Some (s\<lparr>queue_of := d\<rparr>)
     })"

definition timer_cancel_end :: "addr \<Rightarrow> timers \<Rightarrow> timers option" where
  "timer_cancel_end t s =
    (if timer_pending s t \<noteq> 0 then None else Some (s\<lparr>canceled := (canceled s)(t := False)\<rparr>))"

text \<open>\<^verbatim>\<open>margo_timer_cancel_many\<close>: its first loop, and what the second one does for each timer.\<close>

primrec timer_cancel_many_begin :: "addr list \<Rightarrow> timers \<Rightarrow> timers option" where
  "timer_cancel_many_begin [] s = Some s"
| "timer_cancel_many_begin (t # ts) s = do {
     s \<leftarrow> timer_cancel_begin t s;
     timer_cancel_many_begin ts s
   }"

primrec timer_cancel_many_end :: "addr list \<Rightarrow> timers \<Rightarrow> timers option" where
  "timer_cancel_many_end [] s = Some s"
| "timer_cancel_many_end (t # ts) s = do {
     s \<leftarrow> timer_cancel_end t s;
     timer_cancel_many_end ts s
   }"

definition margo_timer_destroy :: "addr \<Rightarrow> timers \<Rightarrow> timers option" where
  "margo_timer_destroy t s =
    (if \<not> live s t then None
     else
       (let can_destroy = (dl_prev (queue_of s) t = None \<and> dl_next (queue_of s) t = None
                           \<and> timer_pending s t = 0);
            s = s\<lparr>destroy_requested := (destroy_requested s)(t := \<not> can_destroy)\<rparr>
        in Some (if can_destroy then s\<lparr>live := (live s)(t := False)\<rparr> else s)))"


section \<open>The list as a sorted list of timers\<close>

text \<open>The linked list is \<open>xs\<close>, and exactly the other timers have two NULL links.\<close>

definition tq :: "dll \<Rightarrow> addr list \<Rightarrow> bool" where
  "tq d xs \<longleftrightarrow> dl_rep d xs \<and> (\<forall>a. a \<notin> set xs \<longrightarrow> dl_prev d a = None \<and> dl_next d a = None)"

lemma tq_linked: "tq d xs \<Longrightarrow> (dl_prev d a \<noteq> None \<or> dl_next d a \<noteq> None) \<longleftrightarrow> a \<in> set xs"
  using dl_rep_linked by (auto simp: tq_def)

lemma tq_head: "tq d xs \<Longrightarrow> dl_head d = (if xs = [] then None else Some (hd xs))"
  by (simp add: tq_def dl_rep_head)

lemma tq_distinct: "tq d xs \<Longrightarrow> distinct xs"
  by (auto simp: tq_def dest: dl_rep_distinct)

lemma tq_frame: "dl_frame S d d' \<Longrightarrow> tq d xs \<Longrightarrow> dl_rep d' ys \<Longrightarrow> set xs \<union> S \<subseteq> set ys \<Longrightarrow> tq d' ys"
  unfolding tq_def dl_frame_def by (metis Un_iff subsetD)

text \<open>Deleting a timer and clearing its links.\<close>

lemma tq_delete:
  assumes q: "tq d (ys @ a # zs)"
  obtains d' where "DL_DELETE a d = Some d'"
    "tq (d'\<lparr>dl_prev := (dl_prev d')(a := None), dl_next := (dl_next d')(a := None)\<rparr>) (ys @ zs)"
proof -
  obtain d' where d': "DL_DELETE a d = Some d'" "dl_rep d' (ys @ zs)" "dl_frame (set ys \<union> set zs) d d'"
    using DL_DELETE_rep q unfolding tq_def by blast
  let ?d = "d'\<lparr>dl_prev := (dl_prev d')(a := None), dl_next := (dl_next d')(a := None)\<rparr>"
  have a: "a \<notin> set (ys @ zs)" using tq_distinct [OF q] by auto
  then have "a \<noteq> hd (ys @ zs) \<and> a \<noteq> last (ys @ zs)" if "ys @ zs \<noteq> []"
    using that hd_in_set last_in_set by metis
  then have "dl_rep ?d (ys @ zs)"
    using d'(2) a by (auto simp: dl_rep_def chain_frame)
  moreover have "dl_prev ?d b = None \<and> dl_next ?d b = None" if "b \<notin> set (ys @ zs)" for b
    using q d'(3) that by (cases "b = a") (auto simp: tq_def dl_frame_def)
  ultimately have "tq ?d (ys @ zs)" unfolding tq_def by blast
  then show ?thesis by (rule that [OF d'(1)])
qed

definition sorted_by :: "(addr \<Rightarrow> real) \<Rightarrow> addr list \<Rightarrow> bool" where
  "sorted_by e xs \<longleftrightarrow> sorted_wrt (\<lambda>a b. e a \<le> e b) xs"

lemma sorted_by_append:
  "sorted_by e (xs @ ys) \<longleftrightarrow> sorted_by e xs \<and> sorted_by e ys \<and> (\<forall>x \<in> set xs. \<forall>y \<in> set ys. e x \<le> e y)"
  by (simp add: sorted_by_def sorted_wrt_append)

lemma sorted_by_simps [simp]:
  "sorted_by e []" "sorted_by e (x # xs) \<longleftrightarrow> (\<forall>y \<in> set xs. e x \<le> e y) \<and> sorted_by e xs"
  by (simp_all add: sorted_by_def)

lemma sorted_by_upd [simp]: "t \<notin> set xs \<Longrightarrow> sorted_by (e(t := c)) xs = sorted_by e xs"
  by (induction xs) auto

text \<open>Where a started timer goes: behind the timers that expire strictly before it.\<close>

definition insert_timer :: "(addr \<Rightarrow> real) \<Rightarrow> addr \<Rightarrow> addr list \<Rightarrow> addr list" where
  "insert_timer e t xs = takeWhile (\<lambda>x. e x < e t) xs @ t # dropWhile (\<lambda>x. e x < e t) xs"

lemma insert_timer_split:
  assumes "sorted_by e (as @ b # bs)" "e b < e t" "\<forall>x \<in> set bs. \<not> e x < e t"
  shows "insert_timer e t (as @ b # bs) = as @ b # t # bs"
proof -
  have a: "\<forall>x \<in> set (as @ [b]). e x < e t"
    using assms(1,2) by (auto simp: sorted_by_append)
  have "takeWhile (\<lambda>x. e x < e t) ((as @ [b]) @ bs) = as @ [b]"
    using a assms(3) by (cases bs) (simp_all add: takeWhile_append2)
  moreover have "dropWhile (\<lambda>x. e x < e t) ((as @ [b]) @ bs) = bs"
    using a assms(3) by (cases bs) (simp_all add: dropWhile_append2)
  ultimately show ?thesis by (simp add: insert_timer_def)
qed

lemma insert_timer_front: "\<forall>x \<in> set xs. \<not> e x < e t \<Longrightarrow> insert_timer e t xs = t # xs"
  by (cases xs) (simp_all add: insert_timer_def)

lemma set_insert_timer [simp]: "set (insert_timer e t xs) = insert t (set xs)"
proof -
  have "set xs = set (takeWhile (\<lambda>x. e x < e t) xs) \<union> set (dropWhile (\<lambda>x. e x < e t) xs)"
    by (metis set_append takeWhile_dropWhile_id)
  then show ?thesis by (auto simp: insert_timer_def)
qed

lemma sorted_dropWhile_bound:
  "sorted_by e xs \<Longrightarrow> x \<in> set (dropWhile (\<lambda>x. e x < c) xs) \<Longrightarrow> c \<le> e x"
  by (induction xs) (fastforce split: if_splits)+

lemma sorted_takeWhile_filter:
  "sorted_by e xs \<Longrightarrow> takeWhile (\<lambda>t. e t < c) xs = filter (\<lambda>t. e t < c) xs
     \<and> dropWhile (\<lambda>t. e t < c) xs = filter (\<lambda>t. \<not> e t < c) xs"
proof (induction xs)
  case (Cons a xs)
  show ?case
  proof (cases "e a < c")
    case False
    then have "\<forall>y \<in> set xs. \<not> e y < c" using Cons.prems by force
    then show ?thesis using False by (simp add: filter_empty_conv filter_id_conv)
  qed (use Cons in simp)
qed simp

lemma sorted_insert_timer: "sorted_by e xs \<Longrightarrow> sorted_by e (insert_timer e t xs)"
proof -
  assume s: "sorted_by e xs"
  let ?P = "\<lambda>x. e x < e t"
  have "sorted_by e (takeWhile ?P xs @ dropWhile ?P xs)" using s by simp
  then have "sorted_by e (takeWhile ?P xs)" "sorted_by e (dropWhile ?P xs)"
    "\<forall>x \<in> set (takeWhile ?P xs). \<forall>y \<in> set (dropWhile ?P xs). e x \<le> e y"
    unfolding sorted_by_append by auto
  moreover have "\<forall>x \<in> set (takeWhile ?P xs). e x \<le> e t" by (auto dest: set_takeWhileD)
  moreover have "\<forall>y \<in> set (dropWhile ?P xs). e t \<le> e y" using sorted_dropWhile_bound [OF s] by blast
  ultimately show ?thesis by (auto simp: insert_timer_def sorted_by_append)
qed

text \<open>The backward walk: \<open>ys\<close> are the timers not yet looked at, \<open>zs\<close> those behind.\<close>

lemma queue_walk_cases:
  assumes "tq d (ys @ zs)" "ys \<noteq> []" "dl_prev d cur = Some (last ys)" "t \<notin> set (ys @ zs)"
  shows "(\<exists>d' as b bs. queue_walk e t cur d = Some d' \<and> ys = as @ b # bs \<and> e b < e t
            \<and> (\<forall>x \<in> set bs. \<not> e x < e t) \<and> tq d' (as @ b # t # bs @ zs))
       \<or> queue_walk e t cur d = Some d \<and> (\<forall>x \<in> set ys. \<not> e x < e t)"
  using assms
proof (induction ys arbitrary: cur zs rule: rev_induct)
  case Nil
  then show ?case by simp
next
  case (snoc b ys)
  have pv: "dl_prev d cur = Some b" using snoc.prems(3) by simp
  have q: "tq d (ys @ b # zs)" using snoc.prems(1) by simp
  then have r: "dl_rep d (ys @ b # zs)" by (simp add: tq_def)
  show ?case
  proof (cases "e b < e t")
    case True
    obtain d' where d': "DL_APPEND_ELEM (Some b) t d = Some d'" "dl_rep d' (ys @ b # t # zs)"
      "dl_frame (insert t (set (ys @ b # zs))) d d'"
      using DL_APPEND_ELEM_rep [OF r] snoc.prems(4) by auto
    have "tq d' (ys @ b # t # zs)" using tq_frame [OF d'(3) q d'(2)] by auto
    moreover have "queue_walk e t cur d = Some d'"
      using pv True d'(1) by (subst queue_walk.simps) simp
    ultimately show ?thesis using True by (intro disjI1 exI [of _ d'] exI [of _ ys] exI [of _ b] exI [of _ "[]"]) auto
  next
    case False
    show ?thesis
    proof (cases "ys = []")
      case True
      then have "dl_head d = Some b" using tq_head [OF q] by simp
      then have "queue_walk e t cur d = Some d"
        using pv False by (subst queue_walk.simps) simp
      then show ?thesis using True False by simp
    next
      case ne: False
      have hd: "dl_head d \<noteq> Some b"
        using tq_head [OF q] ne tq_distinct [OF q] by (cases ys) auto
      have "queue_walk e t cur d = queue_walk e t b d"
        using pv False hd by (subst queue_walk.simps) simp
      moreover have "dl_prev d b = Some (last ys)"
      proof -
        have eq: "ys @ b # zs = butlast ys @ last ys # b # zs" using ne by simp
        have "chain (dl_next d) (dl_prev d) (ys @ b # zs)" using r by (simp add: dl_rep_def)
        then have "chain (dl_next d) (dl_prev d) (butlast ys @ last ys # b # zs)" by (simp only: eq)
        then have "chain (dl_next d) (dl_prev d) (last ys # b # zs)" by (rule chain_suffix)
        then show ?thesis by simp
      qed
      ultimately consider d' as c bs where "queue_walk e t cur d = Some d'" "ys = as @ c # bs" "e c < e t"
          "\<forall>x \<in> set bs. \<not> e x < e t" "tq d' (as @ c # t # bs @ b # zs)"
        | "queue_walk e t cur d = Some d" "\<forall>x \<in> set ys. \<not> e x < e t"
        using snoc.IH [of "b # zs" b] q ne snoc.prems(4) by auto
      then show ?thesis
      proof cases
        case 1
        then show ?thesis using False
          by (intro disjI1 exI [of _ d'] exI [of _ as] exI [of _ c] exI [of _ "bs @ [b]"]) auto
      next
        case 2
        then show ?thesis using False by (intro disjI2) auto
      qed
    qed
  qed
qed


lemma margo_timer_queue_inserts:
  assumes q: "tq (queue_of s) xs" and t: "t \<notin> set xs" and so: "sorted_by (expiration s) xs"
  obtains d' where "margo_timer_queue t s = Some (s\<lparr>queue_of := d'\<rparr>)"
    "tq d' (insert_timer (expiration s) t xs)"
proof (cases "xs = []")
  case True
  obtain d' where "DL_APPEND t (queue_of s) = Some d'" "dl_rep d' (xs @ [t])"
    "dl_frame (insert t (set xs)) (queue_of s) d'"
    using DL_APPEND_rep q t unfolding tq_def by blast
  moreover from this have "tq d' [t]" using q tq_frame True by fastforce
  ultimately show ?thesis using tq_head [OF q] True
    by (intro that [of d']) (auto simp: margo_timer_queue_def insert_timer_def)
next
  case False
  let ?e = "expiration s" and ?d = "queue_of s"
  have hd: "dl_head ?d = Some (hd xs)" using tq_head [OF q] False by simp
  have r: "dl_rep ?d xs" using q by (simp add: tq_def)
  have "dl_prev ?d (hd xs) = Some (last xs)" using r False by (simp add: dl_rep_def)
  then consider d' as b bs where "queue_walk ?e t (hd xs) ?d = Some d'" "xs = as @ b # bs"
      "?e b < ?e t" "\<forall>x \<in> set bs. \<not> ?e x < ?e t" "tq d' (as @ b # t # bs)"
    | "queue_walk ?e t (hd xs) ?d = Some ?d" "\<forall>x \<in> set xs. \<not> ?e x < ?e t"
    using queue_walk_cases [of ?d xs "[]" "hd xs" t ?e] q False t by auto
  then show ?thesis
  proof cases
    case 1
    have "dl_prev d' t \<noteq> None \<or> dl_next d' t \<noteq> None" using tq_linked [OF 1(5), of t] by simp
    then have "margo_timer_queue t s = Some (s\<lparr>queue_of := d'\<rparr>)"
      using hd 1(1) by (auto simp: margo_timer_queue_def)
    moreover have "insert_timer ?e t xs = as @ b # t # bs"
      using insert_timer_split so 1(2-4) by blast
    ultimately show ?thesis using 1(5) by (intro that [of d']) simp_all
  next
    case 2
    have "dl_prev ?d t = None \<and> dl_next ?d t = None" using tq_linked [OF q, of t] t by auto
    moreover obtain d' where d': "DL_PREPEND t ?d = Some d'" "dl_rep d' (t # xs)"
      "dl_frame (insert t (set xs)) ?d d'"
      using DL_PREPEND_rep [OF r t] .
    ultimately have "margo_timer_queue t s = Some (s\<lparr>queue_of := d'\<rparr>)"
      using hd 2(1) by (simp add: margo_timer_queue_def)
    moreover have "tq d' (t # xs)" using tq_frame [OF d'(3) q d'(2)] by auto
    ultimately show ?thesis using insert_timer_front [OF 2(2)] by (intro that [of d']) simp_all
  qed
qed

section \<open>The invariant\<close>

text \<open>
  \<open>xs\<close> are the started timers in the order of the list. The counters count the ULTs; a timer
  that is linked or has a ULT is allocated; a canceled timer is not linked; and a timer whose
  destruction was requested is not restarted while a ULT of it is pending.
\<close>

definition timer_inv :: "timers \<Rightarrow> addr list \<Rightarrow> bool" where
  "timer_inv s xs \<longleftrightarrow>
     tq (queue_of s) xs \<and> sorted_by (expiration s) xs
     \<and> (\<forall>t. timer_pending s t = count (ults s) (Ready t)) \<and> list_pending s = size (ults s)
     \<and> (\<forall>t. t \<in> set xs \<or> Ready t \<in># ults s \<longrightarrow> live s t)
     \<and> (\<forall>t \<in> set xs. \<not> canceled s t)
     \<and> (\<forall>t. destroy_requested s t \<longrightarrow> t \<in> set xs \<longrightarrow> timer_pending s t = 0)"

lemma timer_invD:
  assumes "timer_inv s xs"
  shows "tq (queue_of s) xs" "sorted_by (expiration s) xs"
    "\<And>t. timer_pending s t = count (ults s) (Ready t)" "list_pending s = size (ults s)"
    "\<And>t. t \<in> set xs \<Longrightarrow> live s t" "\<And>t. Ready t \<in># ults s \<Longrightarrow> live s t"
    "\<And>t. t \<in> set xs \<Longrightarrow> \<not> canceled s t"
    "\<And>t. destroy_requested s t \<Longrightarrow> t \<in> set xs \<Longrightarrow> timer_pending s t = 0"
  using assms by (auto simp: timer_inv_def)

text \<open>Firing the first timer of the list.\<close>

definition fired :: "addr \<Rightarrow> timers \<Rightarrow> timers" where
  "fired t s =
    (if timer_pool s t \<noteq> None
     then s\<lparr>timer_pending := (timer_pending s)(t := timer_pending s t + 1),
            list_pending := list_pending s + 1, ults := ults s + {#Ready t#}\<rparr>
     else s\<lparr>calls := calls s @ [t]\<rparr>)"

lemma fire_timer_head:
  assumes i: "timer_inv s (t # xs)"
  obtains d' where "fire_timer t s = Some ((fired t s)\<lparr>queue_of := d'\<rparr>)"
    "timer_inv ((fired t s)\<lparr>queue_of := d'\<rparr>) xs"
proof -
  note D = timer_invD [OF i]
  obtain d where d: "DL_DELETE t (queue_of s) = Some d"
    "tq (d\<lparr>dl_prev := (dl_prev d)(t := None), dl_next := (dl_next d)(t := None)\<rparr>) xs"
    using tq_delete [of "queue_of s" "[]" t xs] D(1) by auto
  let ?d = "d\<lparr>dl_prev := (dl_prev d)(t := None), dl_next := (dl_next d)(t := None)\<rparr>"
  have t: "t \<notin> set xs" "live s t" using tq_distinct [OF D(1)] D(5) by auto
  have "fire_timer t s = Some ((fired t s)\<lparr>queue_of := ?d\<rparr>)"
    using d(1) t(2) by (auto simp: fire_timer_def fired_def Let_def)
  moreover have "timer_inv ((fired t s)\<lparr>queue_of := ?d\<rparr>) xs"
    using i d(2) t unfolding timer_inv_def fired_def by auto
  ultimately show ?thesis by (intro that)
qed


definition fired_all :: "addr list \<Rightarrow> timers \<Rightarrow> timers" where
  "fired_all ts s = fold fired ts s"

lemma fired_all_simps [simp]:
  "fired_all [] s = s" "fired_all (t # ts) s = fired_all ts (fired t s)"
  by (simp_all add: fired_all_def)

lemma fired_queue: "fired t (s\<lparr>queue_of := d\<rparr>) = (fired t s)\<lparr>queue_of := d\<rparr>"
  by (simp add: fired_def)

lemma fired_all_queue: "fired_all ts (s\<lparr>queue_of := d\<rparr>) = (fired_all ts s)\<lparr>queue_of := d\<rparr>"
  by (induction ts arbitrary: s) (simp_all add: fired_queue)

lemma fired_same [simp]:
  "timer_pool (fired t s) = timer_pool s" "expiration (fired t s) = expiration s"
  "queue_of (fired t s) = queue_of s" "list_live (fired t s) = list_live s"
  "canceled (fired t s) = canceled s" "live (fired t s) = live s"
  "destroy_requested (fired t s) = destroy_requested s"
  "list_destroy_requested (fired t s) = list_destroy_requested s"
  by (simp_all add: fired_def)

lemma fired_all_same [simp]:
  "timer_pool (fired_all ts s) = timer_pool s" "expiration (fired_all ts s) = expiration s"
  "queue_of (fired_all ts s) = queue_of s" "list_live (fired_all ts s) = list_live s"
  "canceled (fired_all ts s) = canceled s" "live (fired_all ts s) = live s"
  "destroy_requested (fired_all ts s) = destroy_requested s"
  "list_destroy_requested (fired_all ts s) = list_destroy_requested s"
  by (induction ts arbitrary: s) simp_all

lemma fired_all_calls:
  "calls (fired_all ts s) = calls s @ filter (\<lambda>t. timer_pool s t = None) ts"
  by (induction ts arbitrary: s) (simp_all add: fired_def)

lemma fired_all_ults:
  "ults (fired_all ts s) = ults s + image_mset Ready (mset (filter (\<lambda>t. timer_pool s t \<noteq> None) ts))"
  by (induction ts arbitrary: s) (simp_all add: fired_def)

lemma check_timers_loop_fires:
  assumes "timer_inv s xs"
  shows "\<exists>d. check_timers_loop now s
      = Some ((fired_all (takeWhile (\<lambda>t. expiration s t < now) xs) s)\<lparr>queue_of := d\<rparr>)
    \<and> timer_inv ((fired_all (takeWhile (\<lambda>t. expiration s t < now) xs) s)\<lparr>queue_of := d\<rparr>)
        (dropWhile (\<lambda>t. expiration s t < now) xs)"
  using assms
proof (induction xs arbitrary: s)
  case Nil
  have "dl_head (queue_of s) = None" using tq_head [OF timer_invD(1) [OF Nil]] by simp
  then have "check_timers_loop now s = Some (s\<lparr>queue_of := queue_of s\<rparr>)"
    by (subst check_timers_loop.simps) simp
  then show ?case using Nil by (intro exI [of _ "queue_of s"]) simp
next
  case (Cons t xs)
  have hd: "dl_head (queue_of s) = Some t" using tq_head [OF timer_invD(1) [OF Cons.prems]] by simp
  show ?case
  proof (cases "expiration s t < now")
    case True
    obtain d where f: "fire_timer t s = Some ((fired t s)\<lparr>queue_of := d\<rparr>)"
      "timer_inv ((fired t s)\<lparr>queue_of := d\<rparr>) xs" using fire_timer_head [OF Cons.prems] .
    have "check_timers_loop now s = check_timers_loop now ((fired t s)\<lparr>queue_of := d\<rparr>)"
      using hd True f(1) by (subst check_timers_loop.simps) simp
    then show ?thesis using Cons.IH [OF f(2)] True by (simp add: fired_all_queue)
  next
    case False
    then have "check_timers_loop now s = Some (s\<lparr>queue_of := queue_of s\<rparr>)"
      using hd by (subst check_timers_loop.simps) simp
    then show ?thesis using Cons.prems False by (intro exI [of _ "queue_of s"]) simp
  qed
qed

lemma list_free_loop_fires:
  assumes "timer_inv s xs"
  shows "\<exists>d. list_free_loop s = Some ((fired_all xs s)\<lparr>queue_of := d\<rparr>)
    \<and> timer_inv ((fired_all xs s)\<lparr>queue_of := d\<rparr>) []"
  using assms
proof (induction xs arbitrary: s)
  case Nil
  have "dl_head (queue_of s) = None" using tq_head [OF timer_invD(1) [OF Nil]] by simp
  then have "list_free_loop s = Some (s\<lparr>queue_of := queue_of s\<rparr>)"
    by (subst list_free_loop.simps) simp
  then show ?case using Nil by (intro exI [of _ "queue_of s"]) simp
next
  case (Cons t xs)
  have hd: "dl_head (queue_of s) = Some t" using tq_head [OF timer_invD(1) [OF Cons.prems]] by simp
  obtain d where f: "fire_timer t s = Some ((fired t s)\<lparr>queue_of := d\<rparr>)"
    "timer_inv ((fired t s)\<lparr>queue_of := d\<rparr>) xs" using fire_timer_head [OF Cons.prems] .
  have "list_free_loop s = list_free_loop ((fired t s)\<lparr>queue_of := d\<rparr>)"
    using hd f(1) by (subst list_free_loop.simps) simp
  then show ?case using Cons.IH [OF f(2)] by (simp add: fired_all_queue)
qed

section \<open>Every operation keeps the invariant\<close>

lemma timer_create_inv:
  assumes i: "timer_inv s xs" and t: "\<not> live s t"
    and r: "margo_timer_create_with_pool (Some t) pl s = (ret, s')"
  shows "timer_inv s' xs"
proof -
  have tx: "t \<notin> set xs" "Ready t \<notin># ults s" using timer_invD(5,6) [OF i] t by auto
  then have "tq (queue_of s\<lparr>dl_next := (dl_next (queue_of s))(t := None),
      dl_prev := (dl_prev (queue_of s))(t := None)\<rparr>) xs"
  proof -
    have "dl_next (queue_of s) t = None" "dl_prev (queue_of s) t = None"
      using tq_linked [OF timer_invD(1) [OF i], of t] tx by auto
    then have "queue_of s\<lparr>dl_next := (dl_next (queue_of s))(t := None),
        dl_prev := (dl_prev (queue_of s))(t := None)\<rparr> = queue_of s"
      by (simp add: fun_upd_idem)
    then show ?thesis using timer_invD(1) [OF i] by simp
  qed
  moreover have "sorted_by ((expiration s)(t := 0)) xs"
    using timer_invD(2) [OF i] tx(1) by simp
  moreover have "count (ults s) (Ready t) = 0" using tx(2) by (simp add: not_in_iff)
  ultimately show ?thesis using r i tx
    unfolding margo_timer_create_with_pool_def timer_inv_def by (auto split: if_splits)
qed

lemma timer_start_inv:
  assumes i: "timer_inv s xs" and l: "live s t" and c: "timer_pending s t = 0 \<or> \<not> destroy_requested s t"
  shows "\<exists>s'. margo_timer_start now t ms s = Some (if t \<in> set xs \<or> canceled s t \<or> list_destroy_requested s
      then (-1, s) else (0, s'))
    \<and> (t \<in> set xs \<or> canceled s t \<or> list_destroy_requested s \<or>
       timer_inv s' (insert_timer (expiration s') t xs)
       \<and> expiration s' = (expiration s)(t := now + ms / 1000) \<and> ults s' = ults s \<and> calls s' = calls s)"
proof (cases "t \<in> set xs \<or> canceled s t \<or> list_destroy_requested s")
  case True
  then show ?thesis using l tq_linked [OF timer_invD(1) [OF i], of t]
    by (auto simp: margo_timer_start_def Let_def)
next
  case False
  let ?s = "s\<lparr>expiration := (expiration s)(t := now + ms / 1000)\<rparr>"
  have so: "sorted_by (expiration ?s) xs"
    using timer_invD(2) [OF i] False by simp
  obtain d where d: "margo_timer_queue t ?s = Some (?s\<lparr>queue_of := d\<rparr>)"
    "tq d (insert_timer (expiration ?s) t xs)"
    using margo_timer_queue_inserts [of ?s xs t] timer_invD(1) [OF i] False so by auto
  have "margo_timer_start now t ms s = Some (0, ?s\<lparr>queue_of := d\<rparr>)"
    using d(1) l False tq_linked [OF timer_invD(1) [OF i], of t]
    by (auto simp: margo_timer_start_def Let_def)
  moreover have "timer_inv (?s\<lparr>queue_of := d\<rparr>) (insert_timer (expiration ?s) t xs)"
    using i d(2) False l c sorted_insert_timer [OF so, of t] unfolding timer_inv_def by auto
  ultimately show ?thesis using False by (intro exI [of _ "?s\<lparr>queue_of := d\<rparr>"]) auto
qed

lemma timer_cancel_begin_inv:
  assumes i: "timer_inv s xs" and l: "live s t"
  shows "\<exists>s'. timer_cancel_begin t s = Some s' \<and> timer_inv s' (remove1 t xs) \<and> canceled s' t
    \<and> ults s' = ults s \<and> calls s' = calls s"
proof (cases "t \<in> set xs")
  case True
  then obtain ys zs where xs: "xs = ys @ t # zs" "t \<notin> set ys"
    by (metis split_list_first)
  then have rm: "remove1 t xs = ys @ zs" by (simp add: remove1_append)
  obtain d where d: "DL_DELETE t (queue_of s) = Some d"
    "tq (d\<lparr>dl_prev := (dl_prev d)(t := None), dl_next := (dl_next d)(t := None)\<rparr>) (ys @ zs)"
    using tq_delete timer_invD(1) [OF i] xs(1) by blast
  have "t \<notin> set zs" using tq_distinct [OF timer_invD(1) [OF i]] xs by auto
  then show ?thesis using i d True xs rm l tq_linked [OF timer_invD(1) [OF i], of t]
    unfolding timer_inv_def timer_cancel_begin_def by (auto simp: sorted_by_append)
next
  case False
  have "dl_next (queue_of s) t = None" "dl_prev (queue_of s) t = None"
    using tq_linked [OF timer_invD(1) [OF i], of t] False by auto
  then have "queue_of s\<lparr>dl_prev := (dl_prev (queue_of s))(t := None),
      dl_next := (dl_next (queue_of s))(t := None)\<rparr> = queue_of s"
    by (simp add: fun_upd_idem)
  then have "timer_cancel_begin t s = Some (s\<lparr>canceled := (canceled s)(t := True)\<rparr>)"
    using l \<open>dl_next (queue_of s) t = None\<close> \<open>dl_prev (queue_of s) t = None\<close>
    by (simp add: timer_cancel_begin_def fun_upd_idem)
  then show ?thesis using i False unfolding timer_inv_def by (auto simp: remove1_idem)
qed


lemma timer_cancel_end_inv:
  "timer_inv s xs \<Longrightarrow> timer_cancel_end t s = Some s' \<Longrightarrow> timer_inv s' xs"
  by (auto simp: timer_cancel_end_def timer_inv_def split: if_splits)

lemma timer_ult_run_inv:
  assumes i: "timer_inv s xs" and r: "Ready t \<in># ults s"
  shows "\<exists>s'. timer_ult_run t s = Some s' \<and> timer_inv s' xs
    \<and> ults s' = ults s - {#Ready t#} + {#Finishing#}
    \<and> calls s' = calls s @ (if canceled s t then [] else [t])"
proof -
  note D = timer_invD [OF i]
  have c: "0 < count (ults s) (Ready t)" using r by simp
  have sz: "size (add_mset Finishing (ults s - {#Ready t#})) = size (ults s)"
    using r by (metis insert_DiffM size_add_mset)
  have t: "destroy_requested s t \<Longrightarrow> t \<notin> set xs" using D(3,8) c by force
  have other: "Ready a \<in># ults s - {#Ready t#} \<longleftrightarrow>
      (if a = t then timer_pending s t - 1 \<noteq> 0 else Ready a \<in># ults s)" for a
    using D(3) [of t] by (auto simp: in_diff_count count_greater_zero_iff [symmetric] simp del: count_greater_zero_iff)
  have dr: "destroy_requested s a \<Longrightarrow> a \<in> set xs \<Longrightarrow> count (ults s) (Ready a) = 0" for a
    using D(3,8) by force
  let ?p = "(timer_pending s)(t := timer_pending s t - 1)"
  let ?l = "if timer_pending s t - 1 = 0 \<and> destroy_requested s t then (live s)(t := False) else live s"
  have eq: "timer_ult_run t s = Some (s\<lparr>calls := calls s @ (if canceled s t then [] else [t]),
      timer_pending := ?p, live := ?l, ults := ults s - {#Ready t#} + {#Finishing#}\<rparr>)"
    using D(6) [OF r] by (simp add: timer_ult_run_def Let_def)
  have "?p a = count (ults s - {#Ready t#} + {#Finishing#}) (Ready a)" for a
    using D(3) by simp
  moreover have "a \<in> set xs \<or> Ready a \<in># ults s - {#Ready t#} + {#Finishing#} \<longrightarrow> ?l a" for a
    using D(5) [of a] D(6) [of a] D(6) [OF r] t other [of a] by auto
  moreover have "destroy_requested s a \<longrightarrow> a \<in> set xs \<longrightarrow> ?p a = 0" for a
    using dr [of a] D(3) [of a] by auto
  ultimately show ?thesis
    unfolding eq using D(1,2,4,7) sz by (auto simp: timer_inv_def)
qed

lemma timer_ult_finish_inv:
  assumes i: "timer_inv s xs" and f: "Finishing \<in># ults s" and r: "timer_ult_finish s = Some s'"
  shows "timer_inv s' xs"
proof -
  have "size (ults s - {#Finishing#}) = size (ults s) - 1" using f by (simp add: size_Diff_singleton)
  moreover have "Ready t \<in># ults s - {#Finishing#} \<longleftrightarrow> Ready t \<in># ults s" for t
    by (auto simp: in_diff_count)
  ultimately show ?thesis using i r
    by (auto simp: timer_ult_finish_def timer_inv_def split: if_splits)
qed

lemma timer_destroy_inv:
  assumes i: "timer_inv s xs" and l: "live s t" and g: "t \<notin> set xs \<or> timer_pending s t = 0"
  shows "\<exists>s'. margo_timer_destroy t s = Some s' \<and> timer_inv s' xs
    \<and> ults s' = ults s \<and> calls s' = calls s
    \<and> live s' t = (t \<in> set xs \<or> timer_pending s t \<noteq> 0)"
proof -
  have eq: "(dl_prev (queue_of s) t = None \<and> dl_next (queue_of s) t = None) = (t \<notin> set xs)"
    using tq_linked [OF timer_invD(1) [OF i], of t] by auto
  define can where "can \<longleftrightarrow> t \<notin> set xs \<and> timer_pending s t = 0"
  let ?s = "s\<lparr>destroy_requested := (destroy_requested s)(t := \<not> can), live := (live s)(t := \<not> can)\<rparr>"
  have m: "margo_timer_destroy t s = Some ?s"
    using l eq by (auto simp: margo_timer_destroy_def Let_def can_def fun_upd_idem)
  have "can \<Longrightarrow> Ready t \<notin># ults s" using timer_invD(3) [OF i, of t] by (simp add: can_def not_in_iff)
  then have "timer_inv ?s xs" using i g l by (auto simp: timer_inv_def can_def)
  then show ?thesis using m by (auto simp: can_def)
qed

section \<open>The system: clients, the progress loop and the ULTs\<close>

text \<open>
  Once the destruction of the list was requested the list stays empty; when it is freed no
  ULT is left.
\<close>

definition timer_ok :: "timers \<Rightarrow> addr list \<Rightarrow> bool" where
  "timer_ok s xs \<longleftrightarrow> timer_inv s xs \<and> (list_destroy_requested s \<longrightarrow> xs = [])
     \<and> (\<not> list_live s \<longrightarrow> ults s = {#} \<and> list_destroy_requested s)"

text \<open>
  The steps of a program that follows the documentation: it creates timers at fresh
  addresses, does not use a timer after it asked for its destruction, and does not ask for
  the destruction of a timer that it restarted while a callback was pending. ULTs run at any
  time, waits end when their condition holds, and the instance frees the list once.
\<close>

inductive timer_step :: "timers \<Rightarrow> timers \<Rightarrow> bool" where
  step_create: "list_live s \<Longrightarrow> \<not> live s t \<Longrightarrow> margo_timer_create_with_pool (Some t) pl s = (r, s')
    \<Longrightarrow> timer_step s s'"
| step_start: "list_live s \<Longrightarrow> live s t \<Longrightarrow> \<not> destroy_requested s t \<Longrightarrow>
    margo_timer_start now t ms s = Some (r, s') \<Longrightarrow> timer_step s s'"
| step_cancel: "list_live s \<Longrightarrow> live s t \<Longrightarrow> \<not> destroy_requested s t \<Longrightarrow>
    timer_cancel_begin t s = Some s' \<Longrightarrow> timer_step s s'"
| step_cancel_end: "timer_cancel_end t s = Some s' \<Longrightarrow> timer_step s s'"
| step_destroy: "live s t \<Longrightarrow> \<not> destroy_requested s t \<Longrightarrow>
    dl_prev (queue_of s) t = None \<and> dl_next (queue_of s) t = None \<or> timer_pending s t = 0 \<Longrightarrow>
    margo_timer_destroy t s = Some s' \<Longrightarrow> timer_step s s'"
| step_check: "margo_check_timers now s = Some s' \<Longrightarrow> timer_step s s'"
| step_ult: "Ready t \<in># ults s \<Longrightarrow> timer_ult_run t s = Some s' \<Longrightarrow> timer_step s s'"
| step_ult_finish: "Finishing \<in># ults s \<Longrightarrow> timer_ult_finish s = Some s' \<Longrightarrow> timer_step s s'"
| step_free: "list_live s \<Longrightarrow> timer_list_free_begin s = Some s' \<Longrightarrow> timer_step s s'"
| step_free_end: "list_destroy_requested s \<Longrightarrow> timer_list_free_end s = Some s' \<Longrightarrow> timer_step s s'"

lemma timer_step_ok: "timer_step s s' \<Longrightarrow> timer_ok s xs \<Longrightarrow> \<exists>ys. timer_ok s' ys"
proof (induction rule: timer_step.induct)
  case (step_create s t pl r s')
  then have "timer_inv s' xs" using timer_create_inv by (auto simp: timer_ok_def)
  then show ?case using step_create
    by (auto simp: timer_ok_def margo_timer_create_with_pool_def split: if_splits)
next
  case (step_start s t now ms r s')
  have i: "timer_inv s xs" using step_start.prems by (simp add: timer_ok_def)
  obtain s1 where s1: "margo_timer_start now t ms s =
      Some (if t \<in> set xs \<or> canceled s t \<or> list_destroy_requested s then (-1, s) else (0, s1))"
    and "t \<in> set xs \<or> canceled s t \<or> list_destroy_requested s \<or>
      timer_inv s1 (insert_timer (expiration s1) t xs)"
    using timer_start_inv [OF i step_start.hyps(2), of now ms] step_start.hyps(3) by blast
  moreover have "s' = s \<or> list_live s' \<and> \<not> list_destroy_requested s'"
    using step_start.hyps unfolding margo_timer_start_def margo_timer_queue_def
    by (auto simp: Let_def bind_eq_Some_conv split: if_splits)
  ultimately show ?case using step_start.hyps step_start.prems
    by (auto simp: timer_ok_def split: if_splits)
next
  case (step_cancel s t s')
  then have "timer_inv s xs" by (simp add: timer_ok_def)
  then have "timer_inv s' (remove1 t xs)"
    using timer_cancel_begin_inv step_cancel.hyps by fastforce
  moreover have "list_live s' = list_live s" "list_destroy_requested s' = list_destroy_requested s"
    using step_cancel.hyps by (auto simp: timer_cancel_begin_def Let_def bind_eq_Some_conv split: if_splits)
  ultimately show ?case using step_cancel by (intro exI [of _ "remove1 t xs"]) (auto simp: timer_ok_def)
next
  case (step_cancel_end t s s')
  then show ?case using timer_cancel_end_inv [of s xs t s']
    by (auto simp: timer_ok_def timer_cancel_end_def split: if_splits)
next
  case (step_destroy s t s')
  have i: "timer_inv s xs" using step_destroy.prems by (simp add: timer_ok_def)
  have "t \<notin> set xs \<or> timer_pending s t = 0"
    using step_destroy.hyps(3) tq_linked [OF timer_invD(1) [OF i], of t] by auto
  then have "timer_inv s' xs" using timer_destroy_inv [OF i step_destroy.hyps(1)] step_destroy.hyps(4) by auto
  moreover have "list_live s' = list_live s" "list_destroy_requested s' = list_destroy_requested s"
    "ults s' = ults s"
    using step_destroy.hyps by (auto simp: margo_timer_destroy_def Let_def split: if_splits)
  ultimately show ?case using step_destroy.prems by (auto simp: timer_ok_def)
next
  case (step_check now s s')
  have i: "timer_inv s xs" using step_check.prems by (simp add: timer_ok_def)
  from check_timers_loop_fires [OF i, of now] step_check show ?case
    by (auto simp: timer_ok_def margo_check_timers_def split: if_splits)
next
  case (step_ult t s s')
  then have i: "timer_inv s xs" by (simp add: timer_ok_def)
  have "timer_inv s' xs" using timer_ult_run_inv [OF i step_ult.hyps(1)] step_ult.hyps(2) by auto
  moreover have "list_live s' = list_live s" "list_destroy_requested s' = list_destroy_requested s"
    using step_ult.hyps by (auto simp: timer_ult_run_def Let_def split: if_splits)
  ultimately show ?case using step_ult by (auto simp: timer_ok_def)
next
  case (step_ult_finish s s')
  then have "timer_inv s' xs" using timer_ult_finish_inv by (auto simp: timer_ok_def)
  then show ?case using step_ult_finish
    by (auto simp: timer_ok_def timer_ult_finish_def split: if_splits)
next
  case (step_free s s')
  have i: "timer_inv (s\<lparr>list_destroy_requested := True\<rparr>) xs"
    using step_free.prems by (auto simp: timer_ok_def timer_inv_def)
  from list_free_loop_fires [OF i] step_free show ?case
    by (auto simp: timer_ok_def timer_list_free_begin_def)
next
  case (step_free_end s s')
  then show ?case
    by (auto simp: timer_ok_def timer_inv_def timer_list_free_end_def split: if_splits)
qed


lemma timer_steps_ok: "timer_step\<^sup>*\<^sup>* s s' \<Longrightarrow> timer_ok s xs \<Longrightarrow> \<exists>ys. timer_ok s' ys"
proof (induction arbitrary: xs rule: converse_rtranclp_induct)
  case base
  then show ?case by blast
next
  case (step s s1)
  then show ?case using timer_step_ok by blast
qed

text \<open>No step calls the callback of a canceled timer.\<close>

lemma timer_step_canceled:
  assumes "timer_step s s'" "timer_ok s xs" "canceled s t"
  shows "count_list (calls s') t = count_list (calls s) t"
  using assms
proof (induction rule: timer_step.induct)
  case (step_start s u now ms r s')
  then show ?case unfolding margo_timer_start_def margo_timer_queue_def
    by (auto simp: Let_def bind_eq_Some_conv split: if_splits)
next
  case (step_check now s s')
  have i: "timer_inv s xs" using step_check.prems(1) by (simp add: timer_ok_def)
  have "t \<notin> set xs" using timer_invD(7) [OF i] step_check.prems(2) by blast
  then have "t \<notin> set (takeWhile (\<lambda>t. expiration s t < now) xs)" by (auto dest: set_takeWhileD)
  then show ?case using check_timers_loop_fires [OF i, of now] step_check.hyps
    by (auto simp: margo_check_timers_def fired_all_calls count_list_0_iff split: if_splits)
next
  case (step_ult u s s')
  have i: "timer_inv s xs" using step_ult.prems(1) by (simp add: timer_ok_def)
  show ?case using timer_ult_run_inv [OF i step_ult.hyps(1)] step_ult.hyps(2) step_ult.prems(2)
    by (auto split: if_splits)
next
  case (step_free s s')
  have i: "timer_inv (s\<lparr>list_destroy_requested := True\<rparr>) xs"
    using step_free.prems by (auto simp: timer_ok_def timer_inv_def)
  have "t \<notin> set xs" using timer_invD(7) [OF i, of t] step_free.prems(2) by auto
  then show ?case using list_free_loop_fires [OF i] step_free.hyps
    by (auto simp: timer_list_free_begin_def fired_all_calls count_list_0_iff)
qed (auto simp: margo_timer_create_with_pool_def timer_cancel_begin_def timer_cancel_end_def
  margo_timer_destroy_def timer_ult_finish_def timer_list_free_end_def Let_def bind_eq_Some_conv
  split: if_splits)

definition canceling :: "addr \<Rightarrow> timers \<Rightarrow> timers \<Rightarrow> bool" where
  "canceling t a b \<longleftrightarrow> timer_step a b \<and> canceled b t"

lemma canceling_quiet:
  assumes "(canceling t)\<^sup>*\<^sup>* s s'" "timer_ok s xs" "canceled s t"
  shows "count_list (calls s') t = count_list (calls s) t \<and> canceled s' t \<and> (\<exists>ys. timer_ok s' ys)"
  using assms
proof (induction rule: rtranclp_induct)
  case base
  then show ?case by blast
next
  case (step s1 s2)
  then obtain ys where "timer_ok s1 ys" "canceled s1 t" by blast
  then show ?case using step timer_step_canceled [of s1 s2 ys t] timer_step_ok [of s1 s2 ys]
    by (auto simp: canceling_def)
qed

text \<open>The ULTs that were submitted can all run to their end.\<close>

definition ult_work :: "timers \<Rightarrow> nat" where
  "ult_work s = size (ults s) + size (filter_mset (\<lambda>u. u \<noteq> Finishing) (ults s))"

lemma ults_drain:
  "timer_ok s xs \<Longrightarrow> list_live s \<Longrightarrow>
   \<exists>s'. timer_step\<^sup>*\<^sup>* s s' \<and> ults s' = {#} \<and> list_live s' \<and> list_destroy_requested s' = list_destroy_requested s"
proof (induction "ult_work s" arbitrary: s xs rule: less_induct)
  case less
  have i: "timer_inv s xs" using less.prems(1) by (simp add: timer_ok_def)
  consider "ults s = {#}" | t where "Ready t \<in># ults s" | "Finishing \<in># ults s"
    by (metis multiset_nonemptyE timer_ult_state.exhaust)
  then show ?case
  proof cases
    case 1
    then show ?thesis using less.prems(2) by blast
  next
    case 2
    then obtain s1 where s1: "timer_ult_run t s = Some s1" "timer_inv s1 xs"
      "ults s1 = ults s - {#Ready t#} + {#Finishing#}" using timer_ult_run_inv [OF i] by blast
    have same: "list_live s1 = list_live s" "list_destroy_requested s1 = list_destroy_requested s"
      using s1(1) by (auto simp: timer_ult_run_def Let_def split: if_splits)
    obtain M where "ults s = add_mset (Ready t) M" using 2 by (metis insert_DiffM)
    then have "ult_work s1 < ult_work s" using s1(3) by (simp add: ult_work_def)
    moreover have "timer_step s s1" using 2 s1(1) by (rule step_ult)
    moreover obtain ys where "timer_ok s1 ys" using timer_step_ok calculation(2) less.prems(1) by blast
    ultimately show ?thesis using less.hyps [of s1 ys] less.prems(2) same
      by (metis converse_rtranclp_into_rtranclp)
  next
    case 3
    let ?s = "s\<lparr>list_pending := list_pending s - 1, ults := ults s - {#Finishing#}\<rparr>"
    have "timer_ult_finish s = Some ?s" using less.prems(2) by (simp add: timer_ult_finish_def)
    then have st: "timer_step s ?s" using 3 by (intro step_ult_finish)
    obtain M where "ults s = add_mset Finishing M" using 3 by (metis insert_DiffM)
    then have "ult_work ?s < ult_work s" by (simp add: ult_work_def)
    moreover obtain ys where "timer_ok ?s ys" using timer_step_ok st less.prems(1) by blast
    ultimately obtain s' where "timer_step\<^sup>*\<^sup>* ?s s'" "ults s' = {#}" "list_live s'"
      "list_destroy_requested s' = list_destroy_requested s"
      using less.hyps [of ?s ys] less.prems(2) by auto
    then show ?thesis using st by (meson converse_rtranclp_into_rtranclp)
  qed
qed


section \<open>Properties\<close>

text \<open>An example: two timers, the first without a pool, none started.\<close>

definition example_timers :: timers where
  "example_timers = \<lparr>queue_of = \<lparr>dl_head = None, dl_next = \<lambda>_. None, dl_prev = \<lambda>_. None\<rparr>,
     expiration = \<lambda>_. 0, timer_pool = \<lambda>t. if t = 1 then None else Some 100,
     timer_pending = \<lambda>_. 0, canceled = \<lambda>_. False, destroy_requested = \<lambda>_. False,
     live = \<lambda>t. t = 1 \<or> t = 2, list_pending = 0, list_destroy_requested = False, list_live = True,
     ults = {#}, calls = []\<rparr>"

lemma example_timers_ok: "timer_ok example_timers []"
  by (simp add: timer_ok_def timer_inv_def tq_def example_timers_def)

lemma example_timers_inv: "timer_inv example_timers []"
  using example_timers_ok by (simp add: timer_ok_def)

text \<open>The example after timer 2 was started at time 5 for two seconds.\<close>

definition example_started :: timers where
  "example_started = snd (the (margo_timer_start 5 2 2000 example_timers))"

lemma example_started:
  "margo_timer_start 5 2 2000 example_timers = Some (0, example_started)"
  "timer_ok example_started [2]" "expiration example_started 2 = 7"
  "timer_pool example_started 2 = Some 100" "timer_pending example_started 2 = 0"
proof -
  show 1: "margo_timer_start 5 2 2000 example_timers = Some (0, example_started)"
    by (simp add: example_started_def margo_timer_start_def margo_timer_queue_def DL_APPEND_def example_timers_def)
  have "timer_inv example_started [2]" "expiration example_started = (expiration example_timers)(2 := 7)"
    using timer_start_inv [OF example_timers_inv, of 2 5 2000] 1
    by (auto simp: insert_timer_def example_timers_def)
  moreover have "list_live example_started" "\<not> list_destroy_requested example_started"
    "timer_pool example_started 2 = Some 100" "timer_pending example_started 2 = 0"
    by (simp_all add: example_started_def margo_timer_start_def margo_timer_queue_def DL_APPEND_def example_timers_def)
  ultimately show "timer_ok example_started [2]" "expiration example_started 2 = 7"
    "timer_pool example_started 2 = Some 100" "timer_pending example_started 2 = 0"
    by (auto simp: timer_ok_def)
qed

text \<open>
  Starting a timer keeps the list sorted by expiration. \<open>margo_timer_start\<close> refuses a timer
  that is already started or canceled, or when finalization began; otherwise it returns 0, and
  the backward walk through the linked list ends with the timer behind exactly the timers that
  expire strictly before it, the others in their order.
\<close>

theorem margo_timer_start_sorts:
  assumes "timer_inv s xs" "live s t" "\<not> destroy_requested s t"
  shows "\<exists>s'. margo_timer_start now t timeout_ms s =
      Some (if t \<in> set xs \<or> canceled s t \<or> list_destroy_requested s then (-1, s) else (0, s'))
    \<and> (t \<notin> set xs \<and> \<not> canceled s t \<and> \<not> list_destroy_requested s \<longrightarrow>
        expiration s' = (expiration s)(t := now + timeout_ms / 1000)
        \<and> timer_inv s' (insert_timer (expiration s') t xs)
        \<and> sorted_by (expiration s') (insert_timer (expiration s') t xs))"
proof -
  obtain s' where "margo_timer_start now t timeout_ms s =
      Some (if t \<in> set xs \<or> canceled s t \<or> list_destroy_requested s then (-1, s) else (0, s'))"
    "t \<in> set xs \<or> canceled s t \<or> list_destroy_requested s \<or>
      timer_inv s' (insert_timer (expiration s') t xs)
      \<and> expiration s' = (expiration s)(t := now + timeout_ms / 1000)"
    using timer_start_inv [OF assms(1,2), of now timeout_ms] assms(3) by blast
  then show ?thesis using timer_invD(2) by blast
qed

theorem margo_timer_start_sorts_witness:
  "\<exists>s'. margo_timer_start 5 1 1000 example_started = Some (0, s') \<and> timer_inv s' [1, 2]"
proof -
  have i: "timer_inv example_started [2]" using example_started(2) by (simp add: timer_ok_def)
  have l: "live example_started 1" "\<not> destroy_requested example_started 1"
    "\<not> canceled example_started 1" "\<not> list_destroy_requested example_started"
    by (simp_all add: example_started_def margo_timer_start_def margo_timer_queue_def DL_APPEND_def example_timers_def)
  show ?thesis using margo_timer_start_sorts [OF i l(1,2), of 5 1000] l(3,4) example_started(3)
    by (auto simp: insert_timer_def)
qed

text \<open>
  C4: a pass of the progress loop over the timers fires exactly the expired ones.
  \<open>__margo_check_timers\<close> returns; it takes the timers with an expiration before the current
  time off the list, in order of expiration, calls the callbacks of those without a pool and
  submits one ULT for each of the others, and leaves every timer that has not expired.
\<close>

theorem margo_check_timers_exact:
  assumes "timer_inv s xs" "list_live s"
  shows "\<exists>s'. margo_check_timers now s = Some s'
    \<and> timer_inv s' (filter (\<lambda>t. \<not> expiration s t < now) xs)
    \<and> calls s' = calls s @ filter (\<lambda>t. expiration s t < now \<and> timer_pool s t = None) xs
    \<and> ults s' = ults s + image_mset Ready (mset (filter (\<lambda>t. expiration s t < now \<and> timer_pool s t \<noteq> None) xs))"
proof -
  let ?P = "\<lambda>t. expiration s t < now"
  have so: "sorted_by (expiration s) xs" using assms(1) by (rule timer_invD(2))
  have tw: "takeWhile ?P xs = filter ?P xs" "dropWhile ?P xs = filter (\<lambda>t. \<not> ?P t) xs"
    using sorted_takeWhile_filter [OF so, of now] by auto
  obtain d where "check_timers_loop now s = Some ((fired_all (filter ?P xs) s)\<lparr>queue_of := d\<rparr>)"
    "timer_inv ((fired_all (filter ?P xs) s)\<lparr>queue_of := d\<rparr>) (filter (\<lambda>t. \<not> ?P t) xs)"
    using check_timers_loop_fires [OF assms(1), of now] unfolding tw by blast
  then show ?thesis using assms(2)
    by (auto simp: margo_check_timers_def fired_all_calls fired_all_ults filter_filter conj_commute)
qed

theorem margo_check_timers_exact_witness:
  "\<exists>s'. margo_check_timers 8 example_started = Some s' \<and> timer_inv s' [] \<and> Ready 2 \<in># ults s'"
proof -
  have "timer_inv example_started [2]" using example_started(2) by (simp add: timer_ok_def)
  moreover have "list_live example_started" using example_started(2)
    by (auto simp: timer_ok_def example_started_def margo_timer_start_def margo_timer_queue_def DL_APPEND_def example_timers_def)
  ultimately show ?thesis
    using margo_check_timers_exact [of example_started "[2]" 8] example_started(3,4) by auto
qed






text \<open>
  Finalization of the timers completes. \<open>__margo_timer_list_free\<close> fires every started timer,
  whatever its expiration, so that no caller waits forever; no new timer starts after that;
  and the submitted ULTs can always run until none is pending, which ends its wait.
\<close>

theorem margo_timer_list_free_completes:
  assumes "timer_ok s xs" "list_live s"
  shows "\<exists>s1 s2 s3. timer_list_free_begin s = Some s1
    \<and> calls s1 = calls s @ filter (\<lambda>t. timer_pool s t = None) xs
    \<and> ults s1 = ults s + image_mset Ready (mset (filter (\<lambda>t. timer_pool s t \<noteq> None) xs))
    \<and> timer_step\<^sup>*\<^sup>* s1 s2 \<and> timer_list_free_end s2 = Some s3 \<and> ults s3 = {#}"
proof -
  let ?s = "s\<lparr>list_destroy_requested := True\<rparr>"
  have i: "timer_inv ?s xs" using assms(1) by (auto simp: timer_ok_def timer_inv_def)
  obtain d where f: "timer_list_free_begin s = Some ((fired_all xs ?s)\<lparr>queue_of := d\<rparr>)"
    "timer_inv ((fired_all xs ?s)\<lparr>queue_of := d\<rparr>) []"
    using list_free_loop_fires [OF i] by (auto simp: timer_list_free_begin_def)
  let ?s1 = "(fired_all xs ?s)\<lparr>queue_of := d\<rparr>"
  have "timer_ok ?s1 []" using f(2) assms(2) by (simp add: timer_ok_def)
  moreover have "list_live ?s1" using assms(2) by simp
  ultimately obtain s2 where s2: "timer_step\<^sup>*\<^sup>* ?s1 s2" "ults s2 = {#}" "list_live s2"
    using ults_drain by blast
  obtain ys where "timer_ok s2 ys" using timer_steps_ok [OF s2(1) \<open>timer_ok ?s1 []\<close>] by blast
  then have "list_pending s2 = 0" using s2(2) timer_invD(4) [of s2 ys] by (simp add: timer_ok_def)
  then show ?thesis using f(1) s2 by (auto simp: fired_all_calls fired_all_ults timer_list_free_end_def)
qed

theorem margo_timer_list_free_completes_witness:
  "\<exists>s1 s2 s3. timer_list_free_begin example_started = Some s1 \<and> Ready 2 \<in># ults s1
    \<and> timer_step\<^sup>*\<^sup>* s1 s2 \<and> timer_list_free_end s2 = Some s3 \<and> ults s3 = {#}"
proof -
  have "list_live example_started"
    by (simp add: example_started_def margo_timer_start_def margo_timer_queue_def DL_APPEND_def example_timers_def)
  then obtain s1 s2 s3 where "timer_list_free_begin example_started = Some s1"
    "ults s1 = ults example_started + image_mset Ready
       (mset (filter (\<lambda>t. timer_pool example_started t \<noteq> None) [2]))"
    "timer_step\<^sup>*\<^sup>* s1 s2" "timer_list_free_end s2 = Some s3" "ults s3 = {#}"
    using margo_timer_list_free_completes [OF example_started(2)] by blast
  then show ?thesis using example_started(4)
    by (intro exI [of _ s1] exI [of _ s2] exI [of _ s3]) auto
qed

text \<open>
  The documentation of \<open>margo_timer_destroy\<close> says that a started timer still fires and that
  its memory is freed afterward. That does not hold for a timer that was restarted while a ULT
  of it was pending: the ULT frees the timer while it is linked in the list, and the next pass
  over the expired timers uses freed memory.
\<close>

theorem margo_timer_destroy_frees_started_timer:
  assumes "timer_inv s xs" "timer_pending s t = 1" "t \<notin> set xs" "\<not> canceled s t"
    "\<not> list_destroy_requested s" "\<not> destroy_requested s t"
  shows "\<exists>s1 s2 s3. margo_timer_start now t ms s = Some (0, s1) \<and> margo_timer_destroy t s1 = Some s2
    \<and> timer_ult_run t s2 = Some s3
    \<and> \<not> live s3 t \<and> dl_prev (queue_of s3) t \<noteq> None \<and> fire_timer t s3 = None"
proof -
  have r: "Ready t \<in># ults s" using timer_invD(3) [OF assms(1), of t] assms(2)
    by (metis One_nat_def count_greater_zero_iff zero_less_Suc)
  have l: "live s t" using timer_invD(6) [OF assms(1) r] .
  obtain s1 where s1: "margo_timer_start now t ms s = Some (0, s1)"
    "timer_inv s1 (insert_timer (expiration s1) t xs)"
    using timer_start_inv [OF assms(1) l, of now ms] assms(3-6) by auto
  have p1: "timer_pending s1 = timer_pending s" "live s1 = live s"
    using s1(1) unfolding margo_timer_start_def margo_timer_queue_def
    by (auto simp: Let_def bind_eq_Some_conv split: if_splits)
  have lk: "dl_prev (queue_of s1) t \<noteq> None"
    using timer_invD(1) [OF s1(2)] dl_rep_linked by (force simp: tq_def)
  let ?s2 = "s1\<lparr>destroy_requested := (destroy_requested s1)(t := True)\<rparr>"
  have s2: "margo_timer_destroy t s1 = Some ?s2"
    using l lk p1 by (auto simp: margo_timer_destroy_def Let_def)
  obtain s3 where s3: "timer_ult_run t ?s2 = Some s3" "queue_of s3 = queue_of s1" "\<not> live s3 t"
    using l p1 assms(2) by (simp add: timer_ult_run_def Let_def)
  have "fire_timer t s3 = None"
    using s3(3) by (cases "DL_DELETE t (queue_of s3)") (simp_all add: fire_timer_def)
  then show ?thesis using s1(1) s2 s3 lk by auto
qed

theorem margo_timer_destroy_frees_started_timer_witness:
  "\<exists>s s1 s2 s3. margo_check_timers 8 example_started = Some s
    \<and> margo_timer_start 8 2 1000 s = Some (0, s1) \<and> margo_timer_destroy 2 s1 = Some s2
    \<and> timer_ult_run 2 s2 = Some s3 \<and> fire_timer 2 s3 = None"
proof -
  have i: "timer_inv example_started [2]" using example_started(2) by (simp add: timer_ok_def)
  obtain d where "check_timers_loop 8 example_started = Some ((fired_all [2] example_started)\<lparr>queue_of := d\<rparr>)"
    "timer_inv ((fired_all [2] example_started)\<lparr>queue_of := d\<rparr>) []"
    using check_timers_loop_fires [OF i, of 8] example_started(3) by auto
  moreover have "list_live example_started" "\<not> canceled example_started 2"
    "\<not> list_destroy_requested example_started" "\<not> destroy_requested example_started 2"
    by (simp_all add: example_started_def margo_timer_start_def margo_timer_queue_def DL_APPEND_def example_timers_def)
  moreover have "timer_pending (fired_all [2] example_started) 2 = 1"
    using example_started(4,5) by (simp add: fired_def)
  ultimately show ?thesis
    using margo_timer_destroy_frees_started_timer
      [of "(fired_all [2] example_started)\<lparr>queue_of := d\<rparr>" "[]" 2 8 1000]
    by (auto simp: margo_check_timers_def)
qed

end
