(* ===== verification/Resource_Interface.thy ===== *)
theory Resource_Interface
  imports Margo_Prelude
begin

text \<open>
  The contract of the components that hand out objects for exclusive use and take them back:
  the arena of \<^verbatim>\<open>src/mochi-arena.c\<close>, the bulk pools of \<^verbatim>\<open>src/margo-bulk-pool.c\<close> and the
  handle cache of \<^verbatim>\<open>src/margo-handle-cache.c\<close>. \<open>owns s F H\<close> says that in state \<open>s\<close> the objects
  \<open>F\<close> are free and the objects \<open>H\<close> are held by clients. What clients may rely on in every
  interleaving of their calls is proved once, from the laws.
\<close>

datatype 'r resource_event = Got 'r | Denied | Released 'r

inductive resource_run ::
  "('s \<Rightarrow> ('s \<times> 'r option) option) \<Rightarrow> ('s \<Rightarrow> 'r \<Rightarrow> 's option) \<Rightarrow>
   's \<Rightarrow> 'r set \<Rightarrow> 'r resource_event list \<Rightarrow> 's \<Rightarrow> 'r set \<Rightarrow> bool"
  for get put where
  res_done: "resource_run get put s H [] s H"
| res_get: "get s = Some (s1, Some r) \<Longrightarrow> resource_run get put s1 (insert r H) es s' H' \<Longrightarrow>
    resource_run get put s H (Got r # es) s' H'"
| res_denied: "get s = Some (s1, None) \<Longrightarrow> resource_run get put s1 H es s' H' \<Longrightarrow>
    resource_run get put s H (Denied # es) s' H'"
| res_put: "r \<in> H \<Longrightarrow> put s r = Some s1 \<Longrightarrow> resource_run get put s1 (H - {r}) es s' H' \<Longrightarrow>
    resource_run get put s H (Released r # es) s' H'"

inductive_cases resource_run_GotE: "resource_run get put s H (Got r # es) s' H'"

locale resource_pool =
  fixes get :: "'s \<Rightarrow> ('s \<times> 'r option) option"
    and put :: "'s \<Rightarrow> 'r \<Rightarrow> 's option"
    and owns :: "'s \<Rightarrow> 'r set \<Rightarrow> 'r set \<Rightarrow> bool"
  assumes disjoint_law: "owns s F H \<Longrightarrow> F \<inter> H = {}"
    and get_total: "owns s F H \<Longrightarrow> get s \<noteq> None"
    and get_law: "owns s F H \<Longrightarrow> get s = Some (s', Some r) \<Longrightarrow> r \<notin> H \<and> (\<exists>F'. owns s' F' (insert r H))"
    and denied_law: "owns s F H \<Longrightarrow> get s = Some (s', None) \<Longrightarrow> owns s' F H"
    and put_law: "owns s F H \<Longrightarrow> r \<in> H \<Longrightarrow> \<exists>s'. put s r = Some s' \<and> owns s' (insert r F) (H - {r})"
begin

lemma run_owns:
  "resource_run get put s H es s' H' \<Longrightarrow> owns s F H \<Longrightarrow> \<exists>F'. owns s' F' H'"
proof (induction arbitrary: F rule: resource_run.induct)
  case (res_done s H)
  then show ?case by blast
next
  case (res_get s s1 r H es s' H')
  then show ?case using get_law by blast
next
  case (res_denied s s1 H es s' H')
  then show ?case using denied_law by blast
next
  case (res_put r H s s1 es s' H')
  then show ?case using put_law by fastforce
qed

text \<open>Until a client releases an object, no other call hands it out.\<close>

lemma run_exclusive:
  "resource_run get put s H es s' H' \<Longrightarrow> owns s F H \<Longrightarrow> r \<in> H \<Longrightarrow> Released r \<notin> set es \<Longrightarrow>
   Got r \<notin> set es \<and> r \<in> H'"
proof (induction arbitrary: F rule: resource_run.induct)
  case (res_done s H)
  then show ?case by simp
next
  case (res_get s s1 q H es s' H')
  then have "q \<noteq> r" using get_law by blast
  moreover obtain F' where "owns s1 F' (insert q H)" using get_law res_get.hyps(1) res_get.prems(1) by blast
  ultimately show ?case using res_get.IH [of F'] res_get.prems by auto
next
  case (res_denied s s1 H es s' H')
  then show ?case using denied_law by fastforce
next
  case (res_put q H s s1 es s' H')
  then have "q \<noteq> r" by auto
  moreover obtain F' where "owns s1 F' (H - {q})" using put_law res_put.hyps(1,2) res_put.prems(1) by fastforce
  ultimately show ?case using res_put.IH [of F'] res_put.prems by auto
qed

lemma got_exclusive:
  assumes "owns s F H" "resource_run get put s H (Got r # es) s' H'" "Released r \<notin> set es"
  shows "r \<notin> H \<and> Got r \<notin> set es \<and> r \<in> H'"
proof -
  obtain s1 where s1: "get s = Some (s1, Some r)" "resource_run get put s1 (insert r H) es s' H'"
    using assms(2) by (rule resource_run_GotE)
  moreover obtain F' where "r \<notin> H" "owns s1 F' (insert r H)" using get_law [OF assms(1) s1(1)] by blast
  ultimately show ?thesis using run_exclusive [of s1 "insert r H" es s' H' F' r] assms(3) by auto
qed

end

text \<open>A pool that only denies a request when it has no free object.\<close>

locale reliable_resource_pool = resource_pool +
  assumes denied_empty: "owns s F H \<Longrightarrow> get s = Some (s', None) \<Longrightarrow> F = {}"
begin

text \<open>A released object is available again: the next call is not denied.\<close>

lemma put_then_get:
  assumes "owns s F H" "r \<in> H"
  shows "\<exists>s1 s2 q. put s r = Some s1 \<and> get s1 = Some (s2, Some q)"
proof -
  obtain s1 where s1: "put s r = Some s1" "owns s1 (insert r F) (H - {r})" using put_law assms by blast
  obtain s2 res where "get s1 = Some (s2, res)" using get_total [OF s1(2)] by auto
  then show ?thesis using s1 denied_empty [OF s1(2)] by (cases res) auto
qed

end

end
