(* ===== verification/Arena.thy ===== *)
theory Arena
  imports Resource_Interface Pointer_Lists
begin

text \<open>
  The arena of \<^verbatim>\<open>src/mochi-arena.c\<close>: fixed-size objects carved out of blocks, with the free
  objects chained through their own first bytes. Sizes are 64-bit words, so the roundings and
  products of the code wrap as \<^verbatim>\<open>size_t\<close> does; addresses are natural numbers. The results of
  \<^verbatim>\<open>malloc\<close> are part of the state the operations run in: a list of the blocks it will return,
  where \<^const>\<open>None\<close> is NULL. A result of \<^const>\<open>None\<close> of an operation is a NULL dereference.
\<close>

section \<open>Data and operations\<close>

record arena =
  object_size :: u64
  block_capacity :: u64
  free_list :: ptr
  free_link :: "addr \<Rightarrow> ptr"
  blocks :: ptr
  block_next :: "addr \<Rightarrow> ptr"

definition sizeof_ptr :: u64 where "sizeof_ptr = 8"

definition round_up :: "u64 \<Rightarrow> u64 \<Rightarrow> u64" where
  "round_up x a = (x + (a - 1)) AND NOT (a - 1)"

definition mochi_arena_create :: "bool \<Rightarrow> u64 \<Rightarrow> u64 \<Rightarrow> arena option" where
  "mochi_arena_create calloc_ok obj_size initial_capacity =
    (if \<not> calloc_ok then None
     else
       (let obj_size = (if obj_size < sizeof_ptr then sizeof_ptr else obj_size)
        in Some \<lparr>object_size = round_up obj_size 8,
                 block_capacity = (if initial_capacity < 1 then 1 else initial_capacity),
                 free_list = None, free_link = \<lambda>_. None, blocks = None, block_next = \<lambda>_. None\<rparr>))"

text \<open>The loop that threads the objects of a block onto the free list.\<close>

definition thread_object :: "addr \<Rightarrow> u64 \<Rightarrow> nat \<Rightarrow> arena \<Rightarrow> arena" where
  "thread_object base osz i a =
    (let obj = base + i * unat osz
     in a\<lparr>free_link := (free_link a)(obj := free_list a), free_list := Some obj\<rparr>)"

definition block_header :: u64 where
  "block_header = round_up sizeof_ptr 8"

definition mochi_arena_grow :: "ptr \<Rightarrow> arena \<Rightarrow> int \<times> arena" where
  "mochi_arena_grow malloced a =
    (case malloced of
       None \<Rightarrow> (-1, a)
     | Some block \<Rightarrow>
         (let a = a\<lparr>block_next := (block_next a)(block := blocks a), blocks := Some block\<rparr>;
              base = block + unat block_header
          in (0, fold (thread_object base (object_size a)) [0..<unat (block_capacity a)] a)))"

text \<open>The number of bytes \<^verbatim>\<open>mochi_arena_grow\<close> asks \<^verbatim>\<open>malloc\<close> for.\<close>

definition grow_total :: "arena \<Rightarrow> u64" where
  "grow_total a = block_header + block_capacity a * object_size a"

definition mochi_arena_get :: "arena option \<times> ptr list \<Rightarrow> ((arena option \<times> ptr list) \<times> ptr) option" where
  "mochi_arena_get st =
    (case st of
       (None, ms) \<Rightarrow> Some ((None, ms), None)
     | (Some a, ms) \<Rightarrow>
         (let (failed, a, ms) =
                (if free_list a = None
                 then (let (r, a) = mochi_arena_grow (case ms of [] \<Rightarrow> None | m # _ \<Rightarrow> m) a
                       in (r \<noteq> 0, a, tl ms))
                 else (False, a, ms))
          in if failed then Some ((Some a, ms), None)
             else do {
               obj \<leftarrow> free_list a;
               let a = a\<lparr>free_list := free_link a obj\<rparr>;
               let a = a\<lparr>free_link := (free_link a)(obj := None)\<rparr>;
               Some ((Some a, ms), Some obj)
             }))"

definition mochi_arena_release :: "arena option \<times> ptr list \<Rightarrow> ptr \<Rightarrow> arena option \<times> ptr list" where
  "mochi_arena_release st obj =
    (case (st, obj) of
       ((Some a, ms), Some obj) \<Rightarrow>
         (Some (a\<lparr>free_link := (free_link a)(obj := free_list a), free_list := Some obj\<rparr>), ms)
     | _ \<Rightarrow> st)"

text \<open>The blocks \<^verbatim>\<open>mochi_arena_destroy\<close> frees, in order.\<close>

partial_function (option) free_blocks :: "(addr \<Rightarrow> ptr) \<Rightarrow> ptr \<Rightarrow> addr list \<Rightarrow> addr list option" where
  "free_blocks nx block freed =
    (case block of
       None \<Rightarrow> Some freed
     | Some b \<Rightarrow> free_blocks nx (nx b) (freed @ [b]))"

definition mochi_arena_destroy :: "arena option \<Rightarrow> addr list option" where
  "mochi_arena_destroy ao = (case ao of None \<Rightarrow> Some [] | Some a \<Rightarrow> free_blocks (block_next a) (blocks a) [])"

section \<open>Sizes\<close>

lemma round_up_8: "round_up x 8 = (x + 7) AND NOT 7"
  by (simp add: round_up_def)

lemma and_not_7: "unat (y AND NOT 7 :: u64) = unat y - unat y mod 8"
proof -
  have m: "(7::u64) = mask 3" by (simp add: mask_eq_exp_minus_1)
  have "unat (y AND 7) = unat y mod 8"
    unfolding m take_bit_eq_mask [symmetric]
    using unsigned_take_bit_eq [where 'a = nat, of 3 y] by (simp only: take_bit_eq_mod) simp
  moreover have "y AND NOT 7 = y - (y AND 7)"
  proof -
    have "y AND NOT k = y - (y AND k)" for k :: u64
    proof -
      have "y AND NOT (y AND k) = y AND NOT k" by (rule bit_word_eqI) (auto simp: bit_simps)
      moreover have "y - (y AND k) = y AND NOT (y AND k)"
        by (rule disjunctive_diff_eq_and_not) (rule bit_word_eqI, auto simp: bit_simps)
      ultimately show ?thesis by simp
    qed
    then show ?thesis .
  qed
  moreover have "y AND 7 \<le> y" by (rule word_and_le2)
  ultimately show ?thesis by (simp add: unat_sub)
qed

lemma block_header_8 [simp]: "block_header = 8"
  by (simp add: block_header_def round_up_def sizeof_ptr_def)


section \<open>Blocks and objects\<close>

definition sizes_ok :: "arena \<Rightarrow> bool" where
  "sizes_ok a \<longleftrightarrow> 8 \<le> unat (object_size a) \<and> 1 \<le> unat (block_capacity a)
     \<and> 8 + unat (block_capacity a) * unat (object_size a) < 2 ^ 64"

definition region :: "arena \<Rightarrow> addr \<Rightarrow> addr set" where
  "region a b = {b ..< b + unat (grow_total a)}"

definition objects :: "arena \<Rightarrow> addr \<Rightarrow> addr list" where
  "objects a b = map (\<lambda>i. b + 8 + i * unat (object_size a)) [0..<unat (block_capacity a)]"

lemma grow_total_nat: "sizes_ok a \<Longrightarrow> unat (grow_total a) = 8 + unat (block_capacity a) * unat (object_size a)"
proof -
  assume s: "sizes_ok a"
  then have "unat (block_capacity a * object_size a) = unat (block_capacity a) * unat (object_size a)"
    by (simp add: sizes_ok_def unat_word_ariths)
  then show ?thesis using s by (simp add: grow_total_def sizes_ok_def unat_word_ariths)
qed

lemma objects_distinct: "sizes_ok a \<Longrightarrow> distinct (objects a b)"
  by (auto simp: objects_def sizes_ok_def distinct_map inj_on_def)

text \<open>Every object lies inside its block, behind the header.\<close>

lemma objects_region:
  assumes "sizes_ok a" "x \<in> set (objects a b)"
  shows "b + 8 \<le> x" "x + unat (object_size a) \<le> b + unat (grow_total a)"
proof -
  obtain i where i: "x = b + 8 + i * unat (object_size a)" "i < unat (block_capacity a)"
    using assms(2) unfolding objects_def by (metis (no_types, lifting) atLeastLessThan_iff imageE list.set_map set_upt)
  then have "Suc i * unat (object_size a) \<le> unat (block_capacity a) * unat (object_size a)"
    by (intro mult_right_mono) auto
  then show "b + 8 \<le> x" "x + unat (object_size a) \<le> b + unat (grow_total a)"
    using i grow_total_nat [OF assms(1)] by auto
qed

lemma objects_in_region: "sizes_ok a \<Longrightarrow> x \<in> set (objects a b) \<Longrightarrow> x \<in> region a b"
  using objects_region [of a x b] by (auto simp: region_def sizes_ok_def)

lemma objects_nonempty: "sizes_ok a \<Longrightarrow> objects a b \<noteq> []"
  by (auto simp: objects_def sizes_ok_def)

lemma thread_objects_same [simp]:
  "object_size (fold (thread_object base osz) is a) = object_size a"
  "block_capacity (fold (thread_object base osz) is a) = block_capacity a"
  "blocks (fold (thread_object base osz) is a) = blocks a"
  "block_next (fold (thread_object base osz) is a) = block_next a"
  by (induction "is" arbitrary: a) (simp_all add: thread_object_def Let_def)

lemma thread_objects_path:
  assumes "path (free_link a) (free_list a) fl"
    and "distinct (map (\<lambda>i. base + i * unat osz) is @ fl)"
  shows "path (free_link (fold (thread_object base osz) is a)) (free_list (fold (thread_object base osz) is a))
    (rev (map (\<lambda>i. base + i * unat osz) is) @ fl)"
  using assms
proof (induction "is" arbitrary: a fl)
  case Nil
  then show ?case by simp
next
  case (Cons i "is")
  let ?o = "base + i * unat osz"
  have "path (free_link (thread_object base osz i a)) (free_list (thread_object base osz i a)) (?o # fl)"
    using Cons.prems by (auto simp: thread_object_def Let_def chain_frame)
  then show ?case using Cons.IH [of "thread_object base osz i a" "?o # fl"] Cons.prems(2) by auto
qed

section \<open>Ownership\<close>

text \<open>
  The objects of the blocks are free (in the order \<open>fl\<close> of the free list) or held by clients;
  the blocks, and those \<^verbatim>\<open>malloc\<close> will return, are disjoint regions.
\<close>

definition apart :: "arena \<Rightarrow> addr list \<Rightarrow> bool" where
  "apart a bs \<longleftrightarrow> distinct bs \<and> (\<forall>p \<in> set bs. \<forall>q \<in> set bs. p \<noteq> q \<longrightarrow> region a p \<inter> region a q = {})"

abbreviation granted :: "ptr list \<Rightarrow> addr list" where
  "granted ms \<equiv> map the (filter (\<lambda>m. m \<noteq> None) ms)"

lemma same_sizes:
  assumes "object_size a' = object_size a" "block_capacity a' = block_capacity a"
  shows "sizes_ok a' = sizes_ok a" "region a' = region a" "objects a' = objects a" "apart a' = apart a"
  using assms by (auto simp: fun_eq_iff sizes_ok_def region_def objects_def apart_def grow_total_def)

definition arena_rep :: "arena \<Rightarrow> ptr list \<Rightarrow> addr list \<Rightarrow> addr set \<Rightarrow> addr list \<Rightarrow> bool" where
  "arena_rep a ms fl H bl \<longleftrightarrow> sizes_ok a
     \<and> path (free_link a) (free_list a) fl \<and> distinct fl \<and> set fl \<inter> H = {}
     \<and> path (block_next a) (blocks a) bl
     \<and> set fl \<union> H = (\<Union>b \<in> set bl. set (objects a b))
     \<and> apart a (bl @ granted ms)"

definition arena_owns :: "arena option \<times> ptr list \<Rightarrow> addr set \<Rightarrow> addr set \<Rightarrow> bool" where
  "arena_owns st F H \<longleftrightarrow> (\<exists>a ms fl bl. st = (Some a, ms) \<and> arena_rep a ms fl H bl \<and> F = set fl)"


lemma apart_objects:
  assumes "sizes_ok a" "apart a bs" "p \<in> set bs" "q \<in> set bs" "p \<noteq> q"
  shows "set (objects a p) \<inter> set (objects a q) = {}"
  using assms objects_in_region [OF assms(1)] unfolding apart_def by blast

lemma take_object:
  assumes r: "arena_rep a ms (x # fl) H bl"
  shows "arena_rep (a\<lparr>free_list := free_link a x, free_link := (free_link a)(x := None)\<rparr>) ms fl (insert x H) bl"
proof -
  let ?a = "a\<lparr>free_list := free_link a x, free_link := (free_link a)(x := None)\<rparr>"
  have "sizes_ok ?a = sizes_ok a" "objects ?a = objects a" "apart ?a = apart a"
    by (rule same_sizes; simp)+
  then show ?thesis using r by (auto simp: arena_rep_def chain_frame)
qed

lemma grow_rep:
  assumes r: "arena_rep a (Some m # ms) [] H bl"
  shows "\<exists>a'. mochi_arena_grow (Some m) a = (0, a') \<and> arena_rep a' ms (rev (objects a m)) H (m # bl)"
proof -
  let ?a = "a\<lparr>block_next := (block_next a)(m := blocks a), blocks := Some m\<rparr>"
  let ?f = "fold (thread_object (m + 8) (object_size a)) [0..<unat (block_capacity a)] ?a"
  have sz: "sizes_ok ?f = sizes_ok a" "objects ?f = objects a" "apart ?f = apart a"
    by (rule same_sizes; simp)+
  have ok: "sizes_ok a" and ap: "apart a (bl @ m # granted ms)" and H: "H = (\<Union>b \<in> set bl. set (objects a b))"
    and pb: "path (block_next a) (blocks a) bl" and pf: "free_list a = None"
    using r by (auto simp: arena_rep_def)
  have m: "m \<notin> set bl" using ap by (auto simp: apart_def)
  have objs: "objects a m = map (\<lambda>i. m + 8 + i * unat (object_size a)) [0..<unat (block_capacity a)]"
    by (simp add: objects_def)
  have "path (free_link ?f) (free_list ?f) (rev (objects a m))"
    using thread_objects_path [of ?a "[]" "m + 8" "object_size a" "[0..<unat (block_capacity a)]"]
      objects_distinct [OF ok, of m] pf objs by simp
  moreover have "path (block_next ?f) (blocks ?f) (m # bl)" using pb m by (simp add: chain_frame)
  moreover have "set (objects a m) \<inter> H = {}"
    unfolding H using apart_objects [OF ok ap, of m] m by auto
  moreover have "apart a (m # bl @ granted ms)" using ap by (auto simp: apart_def)
  ultimately have "arena_rep ?f ms (rev (objects a m)) H (m # bl)"
    using ok objects_distinct [OF ok, of m] H by (simp add: arena_rep_def sz)
  then show ?thesis by (simp add: mochi_arena_grow_def Let_def)
qed

lemma arena_get_cases:
  assumes r: "arena_rep a ms fl H bl"
  obtains (denied) a' ms' where "fl = []" "mochi_arena_get (Some a, ms) = Some ((Some a', ms'), None)"
      "arena_rep a' ms' [] H bl"
  | (got) a' ms' x fl' bl' where "mochi_arena_get (Some a, ms) = Some ((Some a', ms'), Some x)"
      "arena_rep a' ms' fl' (insert x H) bl'" "x \<notin> H" "fl = [] \<or> fl = x # fl'"
proof (cases fl)
  case (Cons x fl')
  then have "free_list a = Some x" "x \<notin> H" using r by (auto simp: arena_rep_def)
  then show ?thesis using take_object [OF r [unfolded Cons]] Cons
    by (intro got [of "a\<lparr>free_list := free_link a x, free_link := (free_link a)(x := None)\<rparr>" ms x fl' bl])
      (auto simp: mochi_arena_get_def Let_def)
next
  case Nil
  have fl: "free_list a = None" using r Nil by (simp add: arena_rep_def)
  show ?thesis
  proof (cases "\<exists>m ms'. ms = Some m # ms'")
    case True
    then obtain m ms' where ms: "ms = Some m # ms'" by blast
    obtain a' where a': "mochi_arena_grow (Some m) a = (0, a')" "arena_rep a' ms' (rev (objects a m)) H (m # bl)"
      using grow_rep r Nil ms by blast
    have "rev (objects a m) \<noteq> []" using objects_nonempty r by (auto simp: arena_rep_def)
    then obtain x fl' where x: "rev (objects a m) = x # fl'" by (cases "rev (objects a m)") auto
    have "free_list a' = Some x" "x \<notin> H" using a'(2) x by (auto simp: arena_rep_def)
    then show ?thesis using take_object [OF a'(2) [unfolded x]] a'(1) ms fl Nil
      by (intro got [of "a'\<lparr>free_list := free_link a' x, free_link := (free_link a')(x := None)\<rparr>" ms' x fl' "m # bl"])
        (auto simp: mochi_arena_get_def Let_def)
  next
    case False
    then have "(case ms of [] \<Rightarrow> None | m # _ \<Rightarrow> m) = None" by (cases ms) auto
    moreover have "granted (tl ms) = granted ms" using False by (cases ms) auto
    ultimately show ?thesis using Nil fl r
      by (intro denied [of a "tl ms"]) (auto simp: mochi_arena_get_def mochi_arena_grow_def Let_def arena_rep_def)
  qed
qed

lemma arena_release_rep:
  assumes r: "arena_rep a ms fl H bl" and x: "x \<in> H"
  shows "\<exists>a'. mochi_arena_release (Some a, ms) (Some x) = (Some a', ms) \<and> arena_rep a' ms (x # fl) (H - {x}) bl"
proof -
  let ?a = "a\<lparr>free_link := (free_link a)(x := free_list a), free_list := Some x\<rparr>"
  have "sizes_ok ?a = sizes_ok a" "objects ?a = objects a" "apart ?a = apart a"
    by (rule same_sizes; simp)+
  moreover have "x \<notin> set fl" using r x by (auto simp: arena_rep_def)
  ultimately have "arena_rep ?a ms (x # fl) (H - {x}) bl"
    using r x by (auto simp: arena_rep_def chain_frame)
  then show ?thesis by (simp add: mochi_arena_release_def)
qed

interpretation arena: reliable_resource_pool mochi_arena_get
  "\<lambda>s x. Some (mochi_arena_release s (Some x))" arena_owns
proof unfold_locales
  fix s F H
  assume "arena_owns s F H"
  then obtain a ms fl bl where s: "s = (Some a, ms)" "arena_rep a ms fl H bl" "F = set fl"
    by (auto simp: arena_owns_def)
  show "F \<inter> H = {}" using s by (auto simp: arena_rep_def)
  show "mochi_arena_get s \<noteq> None" using s(2) by (cases rule: arena_get_cases) (auto simp: s(1))
  fix s'
  {
    fix x
    assume "mochi_arena_get s = Some (s', Some x)"
    with s(2) show "x \<notin> H \<and> (\<exists>F'. arena_owns s' F' (insert x H))"
      by (cases rule: arena_get_cases) (auto simp: s(1) arena_owns_def, blast+)
  }
  {
    assume "mochi_arena_get s = Some (s', None)"
    with s(2) show "arena_owns s' F H"
      by (cases rule: arena_get_cases) (auto simp: s(1,3) arena_owns_def)
  }
  {
    assume "mochi_arena_get s = Some (s', None)"
    with s(2) show "F = {}"
      by (cases rule: arena_get_cases) (auto simp: s(1,3) arena_owns_def)
  }
  fix x
  assume "x \<in> H"
  then show "\<exists>s'. Some (mochi_arena_release s (Some x)) = Some s' \<and> arena_owns s' (insert x F) (H - {x})"
    using arena_release_rep [OF s(2)] s by (fastforce simp: arena_owns_def)
qed


section \<open>Properties\<close>

definition example_arena :: arena where
  "example_arena = the (mochi_arena_create True 20 3)"

lemma example_arena_sizes:
  "mochi_arena_create True 20 3 = Some example_arena" "object_size example_arena = 24"
  "block_capacity example_arena = 3" "free_list example_arena = None" "blocks example_arena = None"
  by (simp_all add: example_arena_def mochi_arena_create_def sizeof_ptr_def round_up_def)

lemma example_arena_rep: "arena_rep example_arena [Some 1000] [] {} []"
  by (simp add: arena_rep_def sizes_ok_def apart_def example_arena_sizes)

lemma example_arena_owns: "arena_owns (Some example_arena, [Some 1000]) {} {}"
  using example_arena_rep unfolding arena_owns_def by force

text \<open>
  Object sizes are rounded up to the next multiple of eight, as long as the sum does not
  wrap; above that limit the result wraps to zero, which no caller of the library asks for.
\<close>

theorem round_up_8_spec:
  "if unat x \<le> 2 ^ 64 - 8
   then 8 dvd unat (round_up x 8) \<and> unat x \<le> unat (round_up x 8) \<and> unat (round_up x 8) < unat x + 8
   else round_up x 8 = 0"
proof (cases "unat x \<le> 2 ^ 64 - 8")
  case True
  have s: "unat (x + 7) = unat x + 7" using True by (simp add: unat_word_ariths)
  have r: "unat (round_up x 8) = (unat x + 7) - (unat x + 7) mod 8"
    unfolding round_up_8 and_not_7 s by (rule refl)
  then have "8 dvd unat (round_up x 8)" by (simp add: dvd_minus_mod)
  moreover have "unat x \<le> unat (round_up x 8)" "unat (round_up x 8) < unat x + 8"
    using r mod_less_divisor [of 8 "unat x + 7"] by linarith+
  ultimately show ?thesis using True by simp
next
  case False
  have "unat x < 2 ^ 64" using unsigned_less [of x] by simp
  then have "unat (x + 7) = unat x + 7 - 2 ^ 64" using False
    by (simp add: unat_word_ariths mod_if)
  then have "unat (x + 7) < 8" using \<open>unat x < 2 ^ 64\<close> by linarith
  then have "unat (round_up x 8) = 0" unfolding round_up_8 and_not_7 by simp
  then show ?thesis using False by (simp add: unat_eq_zero)
qed

text \<open>
  C12: exclusive ownership in the arena. Whatever calls to get and release follow, in any
  interleaving, an object that \<open>mochi_arena_get\<close> returned was not held by anyone, stays held,
  and is not handed out again before it is released; growing the arena does not disturb that.
\<close>

theorem mochi_arena_exclusive:
  assumes "arena_owns s F H"
    and "resource_run mochi_arena_get (\<lambda>s x. Some (mochi_arena_release s (Some x))) s H (Got x # es) s' H'"
    and "Released x \<notin> set es"
  shows "x \<notin> H \<and> Got x \<notin> set es \<and> x \<in> H'"
  using assms by (rule arena.got_exclusive)

theorem mochi_arena_exclusive_witness:
  "\<exists>x s'. resource_run mochi_arena_get (\<lambda>s x. Some (mochi_arena_release s (Some x)))
     (Some example_arena, [Some 1000]) {} [Got x] s' {x} \<and> x \<notin> {}"
proof -
  obtain a where a: "mochi_arena_grow (Some 1000) example_arena = (0, a)"
    "arena_rep a [] (rev (objects example_arena 1000)) {} [1000]" using grow_rep [OF example_arena_rep] by blast
  moreover have "rev (objects example_arena 1000) = [1056, 1032, 1008]"
    by (simp add: objects_def example_arena_sizes upt_rec)
  ultimately have "free_list a = Some 1056" by (simp add: arena_rep_def)
  then obtain s' x where "mochi_arena_get (Some example_arena, [Some 1000]) = Some (s', Some x)"
    using a(1) by (simp add: mochi_arena_get_def example_arena_sizes Let_def)
  then have run: "resource_run mochi_arena_get (\<lambda>s x. Some (mochi_arena_release s (Some x)))
     (Some example_arena, [Some 1000]) {} [Got x] s' {x}" by (simp add: resource_run.intros)
  have "x \<notin> {} \<and> Got x \<notin> set [] \<and> x \<in> {x}"
    by (rule mochi_arena_exclusive [OF example_arena_owns run]) simp
  then show ?thesis using run by blast
qed



text \<open>
  \<open>mochi_arena_destroy\<close> frees every block of the arena exactly once, and ends.
\<close>

theorem mochi_arena_destroy_frees_all:
  assumes "arena_rep a ms fl H bl"
  shows "mochi_arena_destroy (Some a) = Some bl \<and> distinct bl"
proof -
  have "free_blocks nx p freed = Some (freed @ bl)" if "path nx p bl" for nx p freed
    using that
  proof (induction bl arbitrary: p freed)
    case Nil
    then show ?case by (simp add: free_blocks.simps)
  next
    case (Cons b bl)
    then show ?case by (subst free_blocks.simps) simp
  qed
  then show ?thesis using assms by (auto simp: mochi_arena_destroy_def arena_rep_def apart_def)
qed

theorem mochi_arena_destroy_frees_all_witness:
  "\<exists>a. mochi_arena_grow (Some 1000) example_arena = (0, a) \<and> mochi_arena_destroy (Some a) = Some [1000]"
proof -
  obtain a where "mochi_arena_grow (Some 1000) example_arena = (0, a)"
    "arena_rep a [] (rev (objects example_arena 1000)) {} [1000]" using grow_rep [OF example_arena_rep] by blast
  then show ?thesis using mochi_arena_destroy_frees_all by blast
qed

end
