(* ===== verification/Bulk_Pool.thy ===== *)
theory Bulk_Pool
  imports Resource_Interface
begin

text \<open>
  The pools of pre-registered bulk buffers of \<^verbatim>\<open>src/margo-bulk-pool.c\<close>, and the sets of pools
  with geometrically growing buffer sizes. Counts and sizes are 64-bit words (\<^verbatim>\<open>hg_size_t\<close>)
  and wrap; the array of handles is a list, and an access outside it is \<^const>\<open>None\<close>. Mercury's
  bulk functions are parameters: the creation of a handle for a region of memory, and the
  record \<open>bulk_api\<close> of the two queries that \<^verbatim>\<open>margo_bulk_pool_release\<close> makes. Pools and sets
  are not NULL; for a NULL argument the functions return at once.
\<close>

section \<open>One pool\<close>

record bulk_pool =
  buf :: addr
  bulks :: "ptr list"
  bcount :: u64
  bsize :: u64
  num_free :: u64
  bflag :: u8

record bulk_api =
  bulk_get_size :: "addr \<Rightarrow> u64"
  bulk_access :: "addr \<Rightarrow> u8 \<Rightarrow> hg_return \<times> addr \<times> u64"

definition SIZE_MAX :: u64 where "SIZE_MAX = - 1"

text \<open>
  The results of the calls \<^verbatim>\<open>margo_bulk_pool_create\<close> makes: \<^verbatim>\<open>malloc\<close>, \<^verbatim>\<open>posix_memalign\<close> (the
  buffer, or an error), \<^verbatim>\<open>calloc\<close>, \<^verbatim>\<open>margo_bulk_create\<close> for a region, \<^verbatim>\<open>ABT_mutex_create\<close> and
  \<^verbatim>\<open>ABT_cond_create\<close>.
\<close>

record create_env =
  env_malloc :: bool
  env_memalign :: "u64 \<Rightarrow> addr option"
  env_calloc :: bool
  env_bulk_create :: "addr \<Rightarrow> u64 \<Rightarrow> u8 \<Rightarrow> hg_return \<times> addr"
  env_mutex :: bool
  env_cond :: bool

text \<open>
  The outcome: a pool; an error code with the handles that the error path freed; or a read of
  memory that was never initialized; or a failed assertion.
\<close>

datatype create_result =
    Created bulk_pool | Failed hg_return "addr list" | Uninitialized_read | Aborted

text \<open>The loop that registers the slices of the buffer.\<close>

primrec create_bulks ::
  "create_env \<Rightarrow> addr \<Rightarrow> u64 \<Rightarrow> u8 \<Rightarrow> nat list \<Rightarrow> ptr list \<Rightarrow> hg_return \<times> ptr list" where
  "create_bulks e b sz fl [] bs = (HG_SUCCESS, bs)"
| "create_bulks e b sz fl (i # is) bs =
    (case env_bulk_create e (b + i * unat sz) sz fl of
       (hret, h) \<Rightarrow>
         if hret \<noteq> HG_SUCCESS then (hret, bs[i := None])
         else create_bulks e b sz fl is (bs[i := Some h]))"

text \<open>The handles the error path frees: up to the first one that is NULL.\<close>

definition created_bulks :: "ptr list \<Rightarrow> addr list" where
  "created_bulks bs = map the (takeWhile (\<lambda>b. b \<noteq> None) bs)"

definition margo_bulk_pool_create :: "create_env \<Rightarrow> u64 \<Rightarrow> u64 \<Rightarrow> u8 \<Rightarrow> create_result" where
  "margo_bulk_pool_create e cnt sz fl =
    (if cnt \<noteq> 0 \<and> sz > SIZE_MAX div cnt then Failed HG_INVALID_ARG []
     else if \<not> env_malloc e then Failed HG_NOMEM_ERROR []
     else case env_memalign e (sz * cnt) of
       None \<Rightarrow> Uninitialized_read
     | Some b \<Rightarrow>
         if \<not> env_calloc e then Failed HG_NOMEM_ERROR []
         else
           (let (hret, bs) = create_bulks e b sz fl [0..<unat cnt] (replicate (unat cnt) None)
            in if hret \<noteq> HG_SUCCESS then Failed hret (created_bulks bs)
               else if \<not> env_mutex e then Failed HG_OTHER_ERROR (created_bulks bs)
               else if \<not> env_cond e then Failed HG_OTHER_ERROR (created_bulks bs)
               else Created \<lparr>buf = b, bulks = bs, bcount = cnt, bsize = sz, num_free = cnt, bflag = fl\<rparr>))"

text \<open>The handles \<^verbatim>\<open>margo_bulk_pool_destroy\<close> frees, in order, and the warning it may give.\<close>

definition margo_bulk_pool_destroy :: "bulk_pool option \<Rightarrow> int \<times> ptr list \<times> bool" where
  "margo_bulk_pool_destroy pool =
    (case pool of
       None \<Rightarrow> (0, [], False)
     | Some p \<Rightarrow> (0, take (unat (bcount p)) (bulks p), bcount p \<noteq> num_free p))"

definition margo_bp_get :: "bulk_pool \<Rightarrow> (bulk_pool \<times> ptr) option" where
  "margo_bp_get p =
    (let i = unat (bcount p - num_free p)
     in if i < length (bulks p) then Some (p\<lparr>num_free := num_free p - 1\<rparr>, bulks p ! i) else None)"

definition margo_bp_tryget :: "bulk_pool \<Rightarrow> (bulk_pool \<times> ptr) option" where
  "margo_bp_tryget p = (if num_free p = 0 then Some (p, None) else margo_bp_get p)"

text \<open>The wait releases the mutex: \<open>env\<close> is what other ULTs do to the pool until it ends.\<close>

definition margo_bulk_pool_get :: "(bulk_pool \<Rightarrow> bulk_pool) \<Rightarrow> bulk_pool \<Rightarrow> (bulk_pool \<times> ptr) option" where
  "margo_bulk_pool_get env p =
    (let p = (if num_free p = 0 then env p else p)
     in if num_free p > 0 then margo_bp_get p else None)"

definition margo_bulk_pool_tryget :: "bulk_api \<times> bulk_pool \<Rightarrow> ((bulk_api \<times> bulk_pool) \<times> ptr) option" where
  "margo_bulk_pool_tryget s = do {
     (p, b) \<leftarrow> margo_bp_tryget (snd s);
     Some ((fst s, p), b)
   }"

definition margo_bp_release :: "bulk_pool \<Rightarrow> addr \<Rightarrow> bulk_pool option" where
  "margo_bp_release p bulk =
    (let p = p\<lparr>num_free := num_free p + 1\<rparr>; i = unat (bcount p - num_free p)
     in if i < length (bulks p) then Some (p\<lparr>bulks := (bulks p)[i := Some bulk]\<rparr>) else None)"

definition margo_bulk_pool_release ::
  "bulk_api \<times> bulk_pool \<Rightarrow> ptr \<Rightarrow> (int \<times> (bulk_api \<times> bulk_pool)) option" where
  "margo_bulk_pool_release s bulk =
    (case (s, bulk) of
       (_, None) \<Rightarrow> Some (-1, s)
     | ((api, p), Some b) \<Rightarrow>
         if bsize p \<noteq> bulk_get_size api b then Some (-1, s)
         else case bulk_access api b (bflag p) of
           (hret, buf_ptr, buf_size) \<Rightarrow>
             if hret \<noteq> HG_SUCCESS then Some (-1, s)
             else if buf_ptr < buf p \<or> buf_ptr + unat buf_size > buf p + unat (bsize p * bcount p)
             then Some (-1, s)
             else do {
               p \<leftarrow> margo_bp_release p b;
               Some (0, (api, p))
             })"

section \<open>Sets of pools\<close>

record bulk_poolset =
  pools :: "bulk_pool list"
  npools :: u64
  nbufs :: u64
  first_size :: u64
  size_multiple :: u64

text \<open>The loop of \<^verbatim>\<open>margo_bulk_poolset_create\<close>; the error path destroys the pools created so far.\<close>

primrec create_pools :: "create_env \<Rightarrow> u64 \<Rightarrow> u8 \<Rightarrow> u64 \<Rightarrow> nat \<Rightarrow> u64 \<Rightarrow> create_result + bulk_pool list" where
  "create_pools e nb fl mul 0 sz = Inr []"
| "create_pools e nb fl mul (Suc n) sz =
    (case margo_bulk_pool_create e nb sz fl of
       Created p \<Rightarrow>
         (case create_pools e nb fl mul n (sz * mul) of
            Inr ps \<Rightarrow> Inr (p # ps)
          | Inl (Failed hret fs) \<Rightarrow> Inl (Failed hret (map the (fst (snd (margo_bulk_pool_destroy (Some p)))) @ fs))
          | Inl r \<Rightarrow> Inl r)
     | r \<Rightarrow> Inl r)"

definition margo_bulk_poolset_create ::
  "bool \<Rightarrow> bool \<Rightarrow> create_env \<Rightarrow> u64 \<Rightarrow> u64 \<Rightarrow> u64 \<Rightarrow> u64 \<Rightarrow> u8 \<Rightarrow> create_result + bulk_poolset" where
  "margo_bulk_poolset_create calloc_s calloc_pools e np nb fsz mul fl =
    (if \<not> (np > 0 \<and> nb > 0 \<and> fsz > 0 \<and> mul > 1) then Inl Aborted
     else if \<not> calloc_s \<or> \<not> calloc_pools then Inl (Failed HG_NOMEM_ERROR [])
     else case create_pools e nb fl mul (unat np) fsz of
       Inl r \<Rightarrow> Inl r
     | Inr ps \<Rightarrow> Inr \<lparr>pools = ps, npools = np, nbufs = nb, first_size = fsz, size_multiple = mul\<rparr>)"

definition margo_bulk_poolset_get_max :: "bulk_poolset \<Rightarrow> u64 option" where
  "margo_bulk_poolset_get_max s =
    (let i = unat (npools s - 1) in if i < length (pools s) then Some (bsize (pools s ! i)) else None)"

text \<open>The index of the pool the loop of \<^verbatim>\<open>margo_bulk_poolset_get\<close> stops at.\<close>

primrec select_pool :: "u64 \<Rightarrow> u64 \<Rightarrow> u64 \<Rightarrow> nat \<Rightarrow> nat option" where
  "select_pool sz this_size mul 0 = None"
| "select_pool sz this_size mul (Suc n) =
    (if sz \<le> this_size then Some 0 else map_option Suc (select_pool sz (this_size * mul) mul n))"

definition margo_bulk_poolset_get ::
  "(bulk_pool \<Rightarrow> bulk_pool) \<Rightarrow> bulk_poolset \<Rightarrow> u64 \<Rightarrow> (int \<times> bulk_poolset \<times> ptr) option" where
  "margo_bulk_poolset_get env s sz =
    (case select_pool sz (first_size s) (size_multiple s) (unat (npools s)) of
       None \<Rightarrow> Some (-1, s, None)
     | Some i \<Rightarrow>
         if i < length (pools s) then do {
           (p, b) \<leftarrow> margo_bulk_pool_get env (pools s ! i);
           Some (0, s\<lparr>pools := (pools s)[i := p]\<rparr>, b)
         } else None)"

primrec tryget_loop ::
  "u64 \<Rightarrow> bool \<Rightarrow> u64 \<Rightarrow> u64 \<Rightarrow> bulk_pool list \<Rightarrow> (bulk_pool list \<times> ptr) option" where
  "tryget_loop sz any_flag this_size mul [] = Some ([], None)"
| "tryget_loop sz any_flag this_size mul (p # ps) =
    (if sz \<le> this_size then do {
       (p, b) \<leftarrow> margo_bp_tryget p;
       (if b \<noteq> None \<or> \<not> any_flag then Some (p # ps, b)
        else do {
          (ps, b) \<leftarrow> tryget_loop sz any_flag (this_size * mul) mul ps;
          Some (p # ps, b)
        })
     } else do {
       (ps, b) \<leftarrow> tryget_loop sz any_flag (this_size * mul) mul ps;
       Some (p # ps, b)
     })"

definition margo_bulk_poolset_tryget ::
  "bulk_poolset \<Rightarrow> u64 \<Rightarrow> bool \<Rightarrow> (int \<times> bulk_poolset \<times> ptr) option" where
  "margo_bulk_poolset_tryget s sz any_flag = do {
     (ps, b) \<leftarrow> tryget_loop sz any_flag (first_size s) (size_multiple s) (pools s);
     Some (0, s\<lparr>pools := ps\<rparr>, b)
   }"

text \<open>The index of the pool with exactly this buffer size.\<close>

primrec match_pool :: "u64 \<Rightarrow> u64 \<Rightarrow> u64 \<Rightarrow> nat \<Rightarrow> nat option" where
  "match_pool bulk_sz sz mul 0 = None"
| "match_pool bulk_sz sz mul (Suc n) =
    (if bulk_sz = sz then Some 0 else map_option Suc (match_pool bulk_sz (sz * mul) mul n))"

definition margo_bulk_poolset_release ::
  "bulk_api \<Rightarrow> bulk_poolset \<Rightarrow> ptr \<Rightarrow> (int \<times> bulk_poolset) option" where
  "margo_bulk_poolset_release api s bulk =
    (case bulk of
       None \<Rightarrow> Some (-1, s)
     | Some b \<Rightarrow>
         (case match_pool (bulk_get_size api b) (first_size s) (size_multiple s) (unat (npools s)) of
            None \<Rightarrow> Some (-1, s)
          | Some i \<Rightarrow>
              if i < length (pools s) then do {
                (r, _, p) \<leftarrow> margo_bulk_pool_release (api, pools s ! i) (Some b);
                Some (r, s\<lparr>pools := (pools s)[i := p]\<rparr>)
              } else None))"


section \<open>The overflow guard and the slices of the buffer\<close>

lemma guard_no_overflow:
  assumes "\<not> (cnt \<noteq> 0 \<and> sz > SIZE_MAX div cnt)"
  shows "unat (sz * cnt) = unat sz * unat cnt"
proof (cases "cnt = 0")
  case False
  then have "sz \<le> SIZE_MAX div cnt" using assms by (simp add: not_less)
  then have "unat sz \<le> unat (SIZE_MAX) div unat cnt" by (simp add: word_le_nat_alt unat_div)
  then have "unat sz * unat cnt \<le> unat SIZE_MAX"
    by (metis div_times_less_eq_dividend le_trans mult_le_mono1)
  also have "\<dots> < 2 ^ 64" using unsigned_less [of SIZE_MAX] by simp
  finally show ?thesis by (simp add: unat_word_ariths)
qed simp

lemma create_bulks_success:
  "create_bulks e b sz fl [k..<n] bs = (HG_SUCCESS, bs') \<Longrightarrow> length bs = n \<Longrightarrow>
   length bs' = n \<and> (\<forall>i < k. i < n \<longrightarrow> bs' ! i = bs ! i)
     \<and> (\<forall>i. k \<le> i \<longrightarrow> i < n \<longrightarrow>
          (\<exists>h. env_bulk_create e (b + i * unat sz) sz fl = (HG_SUCCESS, h) \<and> bs' ! i = Some h))"
proof (induction "n - k" arbitrary: k bs)
  case 0
  then show ?case by auto
next
  case (Suc m)
  then have k: "k < n" by simp
  then have upt: "[k..<n] = k # [Suc k..<n]" by (simp add: upt_conv_Cons)
  obtain hret h where c: "env_bulk_create e (b + k * unat sz) sz fl = (hret, h)" by fastforce
  have ok: "hret = HG_SUCCESS" "create_bulks e b sz fl [Suc k..<n] (bs[k := Some h]) = (HG_SUCCESS, bs')"
    using Suc.prems(1) c unfolding upt by (auto split: if_splits)
  have IH: "length bs' = n" "\<forall>i < Suc k. i < n \<longrightarrow> bs' ! i = bs[k := Some h] ! i"
    "\<forall>i. Suc k \<le> i \<longrightarrow> i < n \<longrightarrow>
      (\<exists>h. env_bulk_create e (b + i * unat sz) sz fl = (HG_SUCCESS, h) \<and> bs' ! i = Some h)"
    using Suc.hyps(1) [OF _ ok(2)] Suc.hyps(2) Suc.prems(2) by auto
  have "bs' ! k = Some h" using IH(2) k Suc.prems(2) by simp
  then have "\<exists>h. env_bulk_create e (b + i * unat sz) sz fl = (HG_SUCCESS, h) \<and> bs' ! i = Some h"
    if "k \<le> i" "i < n" for i
    using IH(3) c ok(1) that by (cases "i = k") auto
  then show ?case using IH(1,2) by auto
qed

lemma create_bulks_failure:
  "create_bulks e b sz fl [k..<n] bs = (hret, bs') \<Longrightarrow> hret \<noteq> HG_SUCCESS \<Longrightarrow> length bs = n \<Longrightarrow>
   (\<forall>i < k. bs ! i \<noteq> None) \<Longrightarrow> (\<forall>i. k \<le> i \<longrightarrow> i < n \<longrightarrow> bs ! i = None) \<Longrightarrow>
   \<exists>j. k \<le> j \<and> j < n \<and> fst (env_bulk_create e (b + j * unat sz) sz fl) = hret
     \<and> created_bulks bs' = map (\<lambda>i. the (bs ! i)) [0..<k]
         @ map (\<lambda>i. snd (env_bulk_create e (b + i * unat sz) sz fl)) [k..<j]"
proof (induction "n - k" arbitrary: k bs)
  case 0
  then show ?case by auto
next
  case (Suc m)
  then have k: "k < n" by simp
  then have upt: "[k..<n] = k # [Suc k..<n]" by (simp add: upt_conv_Cons)
  obtain r h where c: "env_bulk_create e (b + k * unat sz) sz fl = (r, h)" by fastforce
  show ?case
  proof (cases "r = HG_SUCCESS")
    case True
    then have "create_bulks e b sz fl [Suc k..<n] (bs[k := Some h]) = (hret, bs')"
      using Suc.prems(1) c unfolding upt by simp
    moreover have "m = n - Suc k" "length (bs[k := Some h]) = n" using Suc.hyps(2) Suc.prems(3) by simp_all
    moreover have "\<forall>i < Suc k. bs[k := Some h] ! i \<noteq> None"
      using Suc.prems(3,4) k by (auto simp: nth_list_update less_Suc_eq)
    moreover have "\<forall>i. Suc k \<le> i \<longrightarrow> i < n \<longrightarrow> bs[k := Some h] ! i = None"
      using Suc.prems(5) by (auto simp: nth_list_update)
    ultimately obtain j where j: "Suc k \<le> j" "j < n" "fst (env_bulk_create e (b + j * unat sz) sz fl) = hret"
      "created_bulks bs' = map (\<lambda>i. the (bs[k := Some h] ! i)) [0..<Suc k]
         @ map (\<lambda>i. snd (env_bulk_create e (b + i * unat sz) sz fl)) [Suc k..<j]"
      using Suc.hyps(1) [of "Suc k" "bs[k := Some h]"] Suc.prems(2) by blast
    have "map (\<lambda>i. the (bs[k := Some h] ! i)) [0..<Suc k] = map (\<lambda>i. the (bs ! i)) [0..<k] @ [h]"
      using k Suc.prems(3) by simp
    moreover have "[k..<j] = k # [Suc k..<j]" using j(1) by (simp add: upt_conv_Cons)
    ultimately show ?thesis using j c by (intro exI [of _ j]) auto
  next
    case False
    then have bs': "bs' = bs[k := None]" "hret = r" using Suc.prems(1) c unfolding upt by auto
    have "takeWhile (\<lambda>b. b \<noteq> None) (bs[k := None]) = take k (bs[k := None])"
      using Suc.prems(3,4) k by (intro takeWhile_eq_take_P_nth) auto
    then have "takeWhile (\<lambda>b. b \<noteq> None) (bs[k := None]) = take k bs" by simp
    then have "created_bulks bs' = map (\<lambda>i. the (bs ! i)) [0..<k]"
      using bs' Suc.prems(3) k by (auto simp: created_bulks_def intro!: nth_equalityI)
    then show ?thesis using bs' c k by (intro exI [of _ k]) auto
  qed
qed


section \<open>Ownership of the handles\<close>

text \<open>
  The free handles are the last \<open>num_free\<close> cells of the array. The Mercury queries answer for
  the handles of the pool as for the slice each was created for.
\<close>

definition bulk_owns :: "bulk_api \<times> bulk_pool \<Rightarrow> addr set \<Rightarrow> addr set \<Rightarrow> bool" where
  "bulk_owns s F H \<longleftrightarrow> (\<exists>api p fl. s = (api, p)
     \<and> length (bulks p) = unat (bcount p) \<and> num_free p \<le> bcount p
     \<and> drop (unat (bcount p) - unat (num_free p)) (bulks p) = map Some fl
     \<and> distinct fl \<and> F = set fl \<and> F \<inter> H = {}
     \<and> finite H \<and> card H = unat (bcount p) - unat (num_free p)
     \<and> unat (bsize p * bcount p) = unat (bsize p) * unat (bcount p)
     \<and> (\<forall>b \<in> F \<union> H. bulk_get_size api b = bsize p
          \<and> (\<exists>i < unat (bcount p). bulk_access api b (bflag p) = (HG_SUCCESS, buf p + i * unat (bsize p), bsize p))))"

lemma bulk_get_owns:
  assumes o: "bulk_owns (api, p) F H" and ne: "num_free p \<noteq> 0"
  shows "\<exists>x. margo_bp_get p = Some (p\<lparr>num_free := num_free p - 1\<rparr>, Some x) \<and> x \<in> F
    \<and> bulk_owns (api, p\<lparr>num_free := num_free p - 1\<rparr>) (F - {x}) (insert x H)"
proof -
  obtain fl where len: "length (bulks p) = unat (bcount p)" and le: "num_free p \<le> bcount p"
    and dr: "drop (unat (bcount p) - unat (num_free p)) (bulks p) = map Some fl"
    and d: "distinct fl" "F = set fl" "F \<inter> H = {}" "finite H" "card H = unat (bcount p) - unat (num_free p)"
    using o by (auto simp: bulk_owns_def)
  let ?i = "unat (bcount p) - unat (num_free p)"
  have nf: "unat (num_free p) \<le> unat (bcount p)" "0 < unat (num_free p)"
    using le ne by (simp_all add: word_le_nat_alt unat_gt_0)
  have i: "unat (bcount p - num_free p) = ?i" using le by (simp add: unat_sub)
  have il: "?i < length (bulks p)" using len nf by linarith
  have nf1: "unat (num_free p - 1) = unat (num_free p) - 1" using ne by (simp add: unat_minus_one)
  obtain x fl' where fl: "fl = x # fl'" using dr il by (cases fl) auto
  have "hd (drop ?i (bulks p)) = Some x" unfolding dr fl by simp
  then have x: "bulks p ! ?i = Some x" using hd_drop_conv_nth [OF il] by simp
  have "unat (bcount p) - (unat (num_free p) - 1) = Suc ?i" using nf by linarith
  moreover have "drop (Suc ?i) (bulks p) = map Some fl'"
    using dr fl by (metis drop_Suc list.sel(3) list.simps(9) tl_drop)
  moreover have "num_free p - 1 \<le> bcount p" using nf nf1 by (simp add: word_le_nat_alt)
  ultimately have "bulk_owns (api, p\<lparr>num_free := num_free p - 1\<rparr>) (F - {x}) (insert x H)"
    using o d fl nf nf1 len unfolding bulk_owns_def
    by (intro exI [of _ api] exI [of _ "p\<lparr>num_free := num_free p - 1\<rparr>"] exI [of _ fl']) auto
  then show ?thesis using x i il fl d(2) by (auto simp: margo_bp_get_def Let_def)
qed

lemma bulk_release_owns:
  assumes o: "bulk_owns (api, p) F H" and x: "x \<in> H"
  shows "\<exists>p'. margo_bulk_pool_release (api, p) (Some x) = Some (0, (api, p'))
    \<and> bulk_owns (api, p') (insert x F) (H - {x})"
proof -
  obtain fl where len: "length (bulks p) = unat (bcount p)" and le: "num_free p \<le> bcount p"
    and dr: "drop (unat (bcount p) - unat (num_free p)) (bulks p) = map Some fl"
    and d: "distinct fl" "F = set fl" "F \<inter> H = {}" "finite H" "card H = unat (bcount p) - unat (num_free p)"
    and no: "unat (bsize p * bcount p) = unat (bsize p) * unat (bcount p)"
    and q: "\<forall>b \<in> F \<union> H. bulk_get_size api b = bsize p
          \<and> (\<exists>i < unat (bcount p). bulk_access api b (bflag p) = (HG_SUCCESS, buf p + i * unat (bsize p), bsize p))"
    using o by (auto simp: bulk_owns_def)
  have cH: "0 < card H" using x d(4) by (metis card_gt_0_iff empty_iff)
  then have nf: "unat (num_free p) < unat (bcount p)" using d(5) by linarith
  have nf1: "unat (num_free p + 1) = Suc (unat (num_free p))"
  proof -
    have "num_free p < bcount p" using nf by (simp add: word_less_nat_alt)
    then have "num_free p \<noteq> - 1" by auto
    then have "num_free p + 1 \<noteq> 0" using max_word_wrap by blast
    then show ?thesis by (metis add.commute unatSuc)
  qed
  have le1: "num_free p + 1 \<le> bcount p" using nf nf1 by (simp add: word_le_nat_alt)
  let ?i = "unat (bcount p) - Suc (unat (num_free p))"
  have i: "unat (bcount p - (num_free p + 1)) = ?i" using le1 nf1 by (simp add: unat_sub)
  have il: "?i < length (bulks p)" using nf len by linarith
  let ?p = "p\<lparr>num_free := num_free p + 1, bulks := (bulks p)[?i := Some x]\<rparr>"
  have "Suc ?i = unat (bcount p) - unat (num_free p)" using nf by linarith
  then have "drop ?i ((bulks p)[?i := Some x]) = map Some (x # fl)"
    using dr il by (simp add: drop_update_swap Cons_nth_drop_Suc [symmetric])
  moreover have "x \<notin> set fl" using d(2,3) x by auto
  ultimately have own: "bulk_owns (api, ?p) (insert x F) (H - {x})"
    using len le1 nf1 d x no q cH unfolding bulk_owns_def
    by (intro exI [of _ api] exI [of _ ?p] exI [of _ "x # fl"]) auto
  obtain k where k: "bulk_get_size api x = bsize p" "k < unat (bcount p)"
    "bulk_access api x (bflag p) = (HG_SUCCESS, buf p + k * unat (bsize p), bsize p)" using q x by auto
  have "Suc k * unat (bsize p) \<le> unat (bcount p) * unat (bsize p)" using k(2) by (intro mult_le_mono1) simp
  then have "k * unat (bsize p) + unat (bsize p) \<le> unat (bsize p * bcount p)" using no by (simp add: mult.commute)
  then have "margo_bulk_pool_release (api, p) (Some x) = Some (0, (api, ?p))"
    using k i il by (auto simp: margo_bulk_pool_release_def margo_bp_release_def Let_def)
  then show ?thesis using own by blast
qed


definition bulk_put :: "bulk_api \<times> bulk_pool \<Rightarrow> addr \<Rightarrow> (bulk_api \<times> bulk_pool) option" where
  "bulk_put s b =
    (case margo_bulk_pool_release s (Some b) of Some (r, s') \<Rightarrow> if r = 0 then Some s' else None | None \<Rightarrow> None)"

interpretation bulk: reliable_resource_pool margo_bulk_pool_tryget bulk_put bulk_owns
proof unfold_locales
  fix s F H
  assume o: "bulk_owns s F H"
  then obtain api p where s: "s = (api, p)" by (auto simp: bulk_owns_def)
  have none: "num_free p = 0 \<Longrightarrow> F = {}"
    using o unfolding s by (auto simp: bulk_owns_def)
  show "F \<inter> H = {}" using o by (auto simp: bulk_owns_def)
  show "margo_bulk_pool_tryget s \<noteq> None"
    using bulk_get_owns [of api p F H] o
    by (cases "num_free p = 0") (auto simp: s margo_bulk_pool_tryget_def margo_bp_tryget_def)
  fix s' x
  show "x \<notin> H \<and> (\<exists>F'. bulk_owns s' F' (insert x H))" if g: "margo_bulk_pool_tryget s = Some (s', Some x)"
  proof -
    have "num_free p \<noteq> 0" using g by (auto simp: s margo_bulk_pool_tryget_def margo_bp_tryget_def)
    then obtain y where "margo_bp_get p = Some (p\<lparr>num_free := num_free p - 1\<rparr>, Some y)" "y \<in> F"
      "bulk_owns (api, p\<lparr>num_free := num_free p - 1\<rparr>) (F - {y}) (insert y H)"
      using bulk_get_owns [of api p F H] o unfolding s by blast
    moreover have "F \<inter> H = {}" using o by (auto simp: bulk_owns_def)
    ultimately show ?thesis using g \<open>num_free p \<noteq> 0\<close>
      by (auto simp: s margo_bulk_pool_tryget_def margo_bp_tryget_def)
  qed
  have nf: "num_free p = 0" if g: "margo_bulk_pool_tryget s = Some (s', None)"
    using bulk_get_owns [of api p F H] o g
    by (auto simp: s margo_bulk_pool_tryget_def margo_bp_tryget_def split: if_splits)
  show "bulk_owns s' F H" if g: "margo_bulk_pool_tryget s = Some (s', None)"
    using nf [OF g] g o by (simp add: s margo_bulk_pool_tryget_def margo_bp_tryget_def)
  show "F = {}" if g: "margo_bulk_pool_tryget s = Some (s', None)" using nf [OF g] none by blast
  show "\<exists>s'. bulk_put s x = Some s' \<and> bulk_owns s' (insert x F) (H - {x})" if "x \<in> H"
    using bulk_release_owns [of api p F H x] o that by (auto simp: s bulk_put_def)
qed

section \<open>The sizes of a set of pools\<close>

lemma select_pool_find:
  "select_pool sz ts mul n = find_index (\<lambda>s. sz \<le> s) (map (\<lambda>i. ts * mul ^ i) [0..<n])"
proof (induction n arbitrary: ts)
  case (Suc n)
  have "map (\<lambda>i. ts * mul ^ i) [0..<Suc n] = ts # map (\<lambda>i. ts * mul * mul ^ i) [0..<n]"
    by (simp add: map_upt_Suc mult.assoc del: upt_Suc)
  then show ?case using Suc by (simp del: upt_Suc)
qed simp

lemma match_pool_find:
  "match_pool bs sz mul n = find_index (\<lambda>s. bs = s) (map (\<lambda>i. sz * mul ^ i) [0..<n])"
proof (induction n arbitrary: sz)
  case (Suc n)
  have "map (\<lambda>i. sz * mul ^ i) [0..<Suc n] = sz # map (\<lambda>i. sz * mul * mul ^ i) [0..<n]"
    by (simp add: map_upt_Suc mult.assoc del: upt_Suc)
  then show ?case using Suc by (simp del: upt_Suc)
qed simp

lemma create_pools_sizes:
  "create_pools e nb fl mul n sz = Inr ps \<Longrightarrow> map bsize ps = map (\<lambda>i. sz * mul ^ i) [0..<n]"
proof (induction n arbitrary: sz ps)
  case (Suc n)
  then obtain p ps' where p: "margo_bulk_pool_create e nb sz fl = Created p"
    "create_pools e nb fl mul n (sz * mul) = Inr ps'" "ps = p # ps'"
    by (auto split: create_result.splits sum.splits)
  have "bsize p = sz"
    using p(1) by (auto simp: margo_bulk_pool_create_def split: if_splits option.splits prod.splits)
  moreover have "map (\<lambda>i. sz * mul ^ i) [0..<Suc n] = sz # map (\<lambda>i. sz * mul * mul ^ i) [0..<n]"
    by (simp add: map_upt_Suc mult.assoc del: upt_Suc)
  ultimately show ?case using Suc.IH [OF p(2)] p(3) by (simp del: upt_Suc)
qed simp

lemma unat_geometric:
  "unat (a::u64) * unat m ^ i < 2 ^ 64 \<Longrightarrow> a \<noteq> 0 \<Longrightarrow> 0 < unat m \<Longrightarrow> unat (a * m ^ i) = unat a * unat m ^ i"
proof (induction i)
  case (Suc i)
  have "unat a * unat m ^ i \<le> unat a * unat m ^ Suc i" using Suc.prems(3) by simp
  then have IH: "unat (a * m ^ i) = unat a * unat m ^ i" using Suc by linarith
  have "unat (a * m ^ i * m) = unat (a * m ^ i) * unat m mod 2 ^ 64" by (simp add: unat_word_ariths)
  also have "\<dots> = unat a * unat m ^ Suc i" using Suc.prems(1) unfolding IH by (simp add: ac_simps)
  finally show ?case by (simp add: ac_simps)
qed simp


section \<open>Properties\<close>

text \<open>
  C26: the overflow guard of \<open>margo_bulk_pool_create\<close> is sufficient. Whenever a pool is created,
  the size of the buffer did not wrap, the pool has one handle per slot, all free, and the
  handle of slot \<open>i\<close> was registered for the \<open>i\<close>-th slice, which lies inside the buffer.
\<close>

theorem margo_bulk_pool_create_slices:
  assumes "margo_bulk_pool_create e cnt sz fl = Created p"
  shows "unat (sz * cnt) = unat sz * unat cnt \<and> env_memalign e (sz * cnt) = Some (buf p)
    \<and> length (bulks p) = unat cnt \<and> num_free p = cnt
    \<and> (\<forall>i < unat cnt. (\<exists>h. env_bulk_create e (buf p + i * unat sz) sz fl = (HG_SUCCESS, h) \<and> bulks p ! i = Some h)
         \<and> buf p + i * unat sz + unat sz \<le> buf p + unat (sz * cnt))"
proof -
  have g: "\<not> (cnt \<noteq> 0 \<and> sz > SIZE_MAX div cnt)"
    using assms by (auto simp: margo_bulk_pool_create_def split: if_splits)
  obtain b bs where c: "env_memalign e (sz * cnt) = Some b"
    "create_bulks e b sz fl [0..<unat cnt] (replicate (unat cnt) None) = (HG_SUCCESS, bs)"
    "p = \<lparr>buf = b, bulks = bs, bcount = cnt, bsize = sz, num_free = cnt, bflag = fl\<rparr>"
    using assms by (auto simp: margo_bulk_pool_create_def split: if_splits option.splits prod.splits)
  note n = guard_no_overflow [OF g]
  have "i * unat sz + unat sz \<le> unat sz * unat cnt" if "i < unat cnt" for i
  proof -
    have "Suc i * unat sz \<le> unat cnt * unat sz" using that by (intro mult_le_mono1) simp
    then show ?thesis by (simp add: mult.commute)
  qed
  then show ?thesis using create_bulks_success [OF c(2)] c(1,3) n by auto
qed

text \<open>The calls of an example all succeed; the handle of a region is its address.\<close>

definition example_env :: create_env where
  "example_env = \<lparr>env_malloc = True, env_memalign = \<lambda>_. Some 4096, env_calloc = True,
     env_bulk_create = \<lambda>a _ _. (HG_SUCCESS, a), env_mutex = True, env_cond = True\<rparr>"

definition example_bulk_pool :: bulk_pool where
  "example_bulk_pool = \<lparr>buf = 4096, bulks = [Some 4096, Some 4104], bcount = 2, bsize = 8, num_free = 2, bflag = 1\<rparr>"

lemma two_slots: "[0..<2] = [0, Suc 0]" "replicate 2 x = [x, x]"
  by (simp_all add: upt_rec numeral_2_eq_2)

lemma example_bulk_pool: "margo_bulk_pool_create example_env 2 8 1 = Created example_bulk_pool"
  by (simp add: margo_bulk_pool_create_def example_env_def example_bulk_pool_def SIZE_MAX_def two_slots)

theorem margo_bulk_pool_create_slices_witness:
  "margo_bulk_pool_create example_env 2 8 1 = Created example_bulk_pool
     \<and> (\<exists>h. bulks example_bulk_pool ! 1 = Some h)"
proof -
  have "1 < unat (2 :: u64)" by simp
  then show ?thesis using margo_bulk_pool_create_slices [OF example_bulk_pool] example_bulk_pool by blast
qed

text \<open>
  A failed registration leaks nothing. When registering slice \<open>j\<close> fails, the error code of
  that call is returned, and the error path frees exactly the handles of the slices before it.
\<close>

theorem margo_bulk_pool_create_failure:
  assumes "margo_bulk_pool_create e cnt sz fl = Failed hret fs"
    and "env_malloc e" "env_memalign e (sz * cnt) = Some b" "env_calloc e" "env_mutex e" "env_cond e"
    and "hret \<noteq> HG_INVALID_ARG"
  shows "\<exists>j < unat cnt. fst (env_bulk_create e (b + j * unat sz) sz fl) = hret
    \<and> fs = map (\<lambda>i. snd (env_bulk_create e (b + i * unat sz) sz fl)) [0..<j]"
proof -
  obtain bs where c: "create_bulks e b sz fl [0..<unat cnt] (replicate (unat cnt) None) = (hret, bs)"
    "hret \<noteq> HG_SUCCESS" "fs = created_bulks bs"
    using assms by (auto simp: margo_bulk_pool_create_def split: if_splits prod.splits)
  show ?thesis using create_bulks_failure [OF c(1,2)] c(3) by auto
qed

definition failing_env :: create_env where
  "failing_env = example_env\<lparr>env_bulk_create := \<lambda>a _ _. if a = 4104 then (HG_NOMEM, 0) else (HG_SUCCESS, a)\<rparr>"

theorem margo_bulk_pool_create_failure_witness:
  "margo_bulk_pool_create failing_env 2 8 1 = Failed HG_NOMEM [4096] \<and> length [4096 :: addr] < unat (2 :: u64)"
proof -
  have f: "margo_bulk_pool_create failing_env 2 8 1 = Failed HG_NOMEM [4096]"
    by (simp add: margo_bulk_pool_create_def example_env_def failing_env_def SIZE_MAX_def two_slots
        created_bulks_def)
  obtain j where "j < unat (2 :: u64)"
    "[4096] = map (\<lambda>i. snd (env_bulk_create failing_env (4096 + i * unat (8 :: u64)) 8 1)) [0..<j]"
    using margo_bulk_pool_create_failure [OF f, of 4096] by (auto simp: failing_env_def example_env_def)
  then have "length [4096 :: addr] < unat (2 :: u64)" by (metis length_map length_upt minus_nat.diff_0)
  then show ?thesis using f by blast
qed

text \<open>
  When the aligned allocation of the buffer fails, \<open>margo_bulk_pool_create\<close> goes to its error
  path with a structure that \<^verbatim>\<open>malloc\<close> did not initialize, and reads its array pointer there.
\<close>

theorem margo_bulk_pool_create_uninitialized:
  "env_malloc e \<Longrightarrow> env_memalign e (sz * cnt) = None \<Longrightarrow>
   margo_bulk_pool_create e cnt sz fl =
     (if cnt \<noteq> 0 \<and> sz > SIZE_MAX div cnt then Failed HG_INVALID_ARG [] else Uninitialized_read)"
  unfolding margo_bulk_pool_create_def by (simp only: option.case not_True_eq_False if_False)

theorem margo_bulk_pool_create_uninitialized_witness:
  "margo_bulk_pool_create (example_env\<lparr>env_memalign := \<lambda>_. None\<rparr>) 2 8 1 = Uninitialized_read"
proof -
  have "\<not> ((2::u64) \<noteq> 0 \<and> 8 > SIZE_MAX div 2)" by (simp add: SIZE_MAX_def)
  moreover have "env_malloc (example_env\<lparr>env_memalign := \<lambda>_. None\<rparr>)"
    "env_memalign (example_env\<lparr>env_memalign := \<lambda>_. None\<rparr>) (8 * 2) = None" by (simp_all add: example_env_def)
  ultimately show ?thesis using margo_bulk_pool_create_uninitialized
      [of "example_env\<lparr>env_memalign := \<lambda>_. None\<rparr>" 8 2 1] by (simp only: if_False)
qed

text \<open>
  C13: exclusive use of the pooled buffers. In every interleaving of calls to
  \<open>margo_bulk_pool_tryget\<close> and \<open>margo_bulk_pool_release\<close> in which clients release what they hold,
  a handle that was handed out was not in use and is not handed out again until it is released.
\<close>

theorem margo_bulk_pool_exclusive:
  assumes "bulk_owns s F H"
    and "resource_run margo_bulk_pool_tryget bulk_put s H (Got x # es) s' H'" "Released x \<notin> set es"
  shows "x \<notin> H \<and> Got x \<notin> set es \<and> x \<in> H'"
  using assms by (rule bulk.got_exclusive)

definition example_api :: bulk_api where
  "example_api = \<lparr>bulk_get_size = \<lambda>_. 8, bulk_access = \<lambda>a _. (HG_SUCCESS, a, 8)\<rparr>"

lemma example_bulk_owns: "bulk_owns (example_api, example_bulk_pool) {4096, 4104} {}"
proof -
  have q: "\<exists>i < 2. bulk_access example_api b 1 = (HG_SUCCESS, 4096 + i * 8, 8)"
    if "b \<in> {4096, 4104}" for b
    using that by (auto simp: example_api_def intro: exI [of _ 0] exI [of _ 1])
  show ?thesis unfolding bulk_owns_def
    by (rule exI [of _ example_api], rule exI [of _ example_bulk_pool], rule exI [of _ "[4096, 4104]"])
      (use q in \<open>auto simp: example_bulk_pool_def example_api_def\<close>)
qed

theorem margo_bulk_pool_exclusive_witness:
  "\<exists>x s'. resource_run margo_bulk_pool_tryget bulk_put (example_api, example_bulk_pool) {} [Got x] s' {x}
     \<and> x \<notin> {} \<and> Got x \<notin> set []"
proof -
  obtain x s' where "margo_bulk_pool_tryget (example_api, example_bulk_pool) = Some (s', Some x)"
    by (simp add: margo_bulk_pool_tryget_def margo_bp_tryget_def margo_bp_get_def example_bulk_pool_def)
  then have run: "resource_run margo_bulk_pool_tryget bulk_put (example_api, example_bulk_pool) {} [Got x] s' {x}"
    by (simp add: resource_run.intros)
  have "x \<notin> {} \<and> Got x \<notin> set [] \<and> x \<in> {x}"
    by (rule margo_bulk_pool_exclusive [OF example_bulk_owns run]) simp
  then show ?thesis using run by blast
qed

text \<open>
  A set of pools serves a request from the smallest buffers that fit. When the largest size
  fits in 64 bits, the sizes of the created pools are the geometric sequence, \<open>get_max\<close> returns
  the largest one, a request is refused exactly when it is larger than that, and otherwise goes
  to a pool whose buffers are large enough while those of every smaller pool are not.
\<close>

theorem margo_bulk_poolset_smallest_fit:
  assumes "margo_bulk_poolset_create True True e np nb fsz mul fl = Inr s"
    and "unat fsz * unat mul ^ (unat np - 1) < 2 ^ 64"
  shows "(\<forall>i < unat np. unat (bsize (pools s ! i)) = unat fsz * unat mul ^ i)
    \<and> length (pools s) = unat np \<and> margo_bulk_poolset_get_max s = Some (bsize (last (pools s)))
    \<and> (case select_pool sz (first_size s) (size_multiple s) (unat (npools s)) of
         None \<Rightarrow> sz > bsize (last (pools s))
       | Some i \<Rightarrow> i < unat np \<and> sz \<le> bsize (pools s ! i) \<and> (\<forall>j < i. sz > bsize (pools s ! j)))"
proof -
  have gd: "np > 0" "fsz \<noteq> 0" "mul > 1"
    using assms(1) by (auto simp: margo_bulk_poolset_create_def word_gt_0 split: if_splits)
  obtain ps where ps: "create_pools e nb fl mul (unat np) fsz = Inr ps" "pools s = ps" "npools s = np"
    "first_size s = fsz" "size_multiple s = mul"
    using assms(1) by (auto simp: margo_bulk_poolset_create_def split: if_splits sum.splits)
  have m: "map bsize ps = map (\<lambda>i. fsz * mul ^ i) [0..<unat np]" using create_pools_sizes [OF ps(1)] .
  then have len: "length ps = unat np" by (metis length_map length_upt minus_nat.diff_0)
  have nth: "bsize (ps ! i) = fsz * mul ^ i" if "i < unat np" for i
    using arg_cong [OF m, of "\<lambda>l. l ! i"] that len by simp
  have np: "0 < unat np" "ps \<noteq> []" "unat (np - 1) = unat np - 1"
    using gd(1) len by (auto simp: unat_gt_0 unat_minus_one word_gt_0 unat_eq_zero)
  have mul: "1 < unat mul" using gd(3) by (simp add: word_less_nat_alt)
  have pw: "unat (fsz * mul ^ i) = unat fsz * unat mul ^ i" if "i < unat np" for i
  proof -
    have "unat mul ^ i \<le> unat mul ^ (unat np - 1)" using that mul by (intro power_increasing) auto
    then have "unat fsz * unat mul ^ i < 2 ^ 64" using assms(2) by (meson le_less_trans mult_le_mono2)
    then show ?thesis using gd(2) mul by (intro unat_geometric) auto
  qed
  have last: "last ps = ps ! (unat np - 1)" using len np by (simp add: last_conv_nth)
  have sel: "select_pool sz fsz mul (unat np) = find_index (\<lambda>s. sz \<le> s) (map bsize ps)"
    by (simp add: select_pool_find m)
  have "case select_pool sz fsz mul (unat np) of
      None \<Rightarrow> sz > bsize (last ps)
    | Some i \<Rightarrow> i < unat np \<and> sz \<le> bsize (ps ! i) \<and> (\<forall>j < i. sz > bsize (ps ! j))"
  proof (cases "select_pool sz fsz mul (unat np)")
    case None
    then have "\<forall>x \<in> set (map bsize ps). \<not> sz \<le> x" unfolding sel find_index_None_iff .
    then show ?thesis using None np(2) by (simp add: not_le)
  next
    case (Some i)
    then have i: "i < length (map bsize ps) \<and> sz \<le> map bsize ps ! i \<and> (\<forall>j < i. \<not> sz \<le> map bsize ps ! j)"
      unfolding sel by (rule find_index_SomeD)
    then show ?thesis using Some len by (auto simp: not_le)
  qed
  then show ?thesis unfolding margo_bulk_poolset_get_max_def ps(2-5) using nth pw len np last by simp
qed

theorem margo_bulk_poolset_smallest_fit_witness:
  "\<exists>s. margo_bulk_poolset_create True True example_env 2 1 8 4 1 = Inr s
     \<and> unat (bsize (pools s ! 1)) = 32"
proof -
  have two: "create_pools e nb fl mul 2 sz = create_pools e nb fl mul (Suc (Suc 0)) sz" for e nb fl mul sz
    by (simp only: numeral_2_eq_2)
  obtain s where s: "margo_bulk_poolset_create True True example_env 2 1 8 4 1 = Inr s"
    by (simp add: margo_bulk_poolset_create_def two margo_bulk_pool_create_def example_env_def SIZE_MAX_def)
  then show ?thesis using margo_bulk_poolset_smallest_fit [OF s] by simp
qed

end
