(* ===== verification/Handle_Cache.thy ===== *)
theory Handle_Cache
  imports Resource_Interface Pointer_Lists
begin

text \<open>
  The cache of Mercury handles of \<^verbatim>\<open>src/margo-handle-cache.c\<close>, and the functions of
  \<^verbatim>\<open>src/margo-core.c\<close> that create and destroy handles through it. Mercury is a parameter: its
  handles are addresses, the results of \<^verbatim>\<open>HG_Create\<close>, \<^verbatim>\<open>HG_Set_data\<close> and \<^verbatim>\<open>HG_Destroy\<close> are
  arguments, \<^verbatim>\<open>HG_Reset\<close> is a function of the state, and the data attached to a handle is the
  field \<open>hg_data\<close>. A result of \<^const>\<open>None\<close> is a NULL dereference.
\<close>

section \<open>Data\<close>

text \<open>\<^verbatim>\<open>struct margo_handle_data\<close>; callbacks and foreign pointers are addresses.\<close>

record handle_data =
  hd_mid :: ptr
  hd_pool :: ptr
  hd_rpc_name :: "string option"
  hd_in_proc_cb :: ptr
  hd_out_proc_cb :: ptr
  hd_user_data :: ptr
  hd_user_free_callback :: ptr
  hd_monitor_data :: ptr
  hd_cache_el :: ptr

definition zero_handle_data :: handle_data where
  "zero_handle_data = \<lparr>hd_mid = None, hd_pool = None, hd_rpc_name = None, hd_in_proc_cb = None,
     hd_out_proc_cb = None, hd_user_data = None, hd_user_free_callback = None,
     hd_monitor_data = None, hd_cache_el = None\<rparr>"

text \<open>
  The fields of the instance that the cache uses, the elements, what is attached to the
  handles, the handles that were destroyed, and the calls of user callbacks.
\<close>

record handle_cache =
  free_handle_list :: ptr
  el_next :: "addr \<Rightarrow> ptr"
  el_handle :: "addr \<Rightarrow> addr"
  hg_data :: "addr \<Rightarrow> handle_data option"
  hg_reset :: "addr \<Rightarrow> hg_return"
  destroyed :: "addr list"
  user_frees :: "(addr \<times> ptr) list"

section \<open>The cache\<close>

definition push_el :: "addr \<Rightarrow> handle_cache \<Rightarrow> handle_cache" where
  "push_el el s =
    (let (head, nx) = LL_PREPEND el (free_handle_list s, el_next s)
     in s\<lparr>free_handle_list := head, el_next := nx\<rparr>)"

text \<open>The loop of \<^verbatim>\<open>__margo_handle_cache_destroy\<close>; \<^verbatim>\<open>tmp\<close> is read before the element goes.\<close>

partial_function (option) cache_destroy_loop :: "ptr \<Rightarrow> handle_cache \<Rightarrow> handle_cache option" where
  "cache_destroy_loop el s =
    (case el of
       None \<Rightarrow> Some s
     | Some e \<Rightarrow> do {
         let tmp = el_next s e;
         (head, nx) \<leftarrow> LL_DELETE e (free_handle_list s, el_next s);
         let s = s\<lparr>free_handle_list := head, el_next := nx\<rparr>;
         let s = s\<lparr>destroyed := destroyed s @ [el_handle s e]\<rparr>;
         cache_destroy_loop tmp s
       })"

definition handle_cache_destroy :: "handle_cache \<Rightarrow> handle_cache option" where
  "handle_cache_destroy s = cache_destroy_loop (free_handle_list s) s"

text \<open>What the calls of one iteration of the initialization return.\<close>

record init_env =
  ie_malloc :: ptr
  ie_create :: "hg_return \<times> addr"
  ie_calloc :: bool
  ie_set_data :: hg_return

primrec handle_cache_init :: "init_env list \<Rightarrow> handle_cache \<Rightarrow> (hg_return \<times> handle_cache) option" where
  "handle_cache_init [] s = Some (HG_SUCCESS, s)"
| "handle_cache_init (e # es) s =
    (case ie_malloc e of
       None \<Rightarrow> do { s \<leftarrow> handle_cache_destroy s; Some (HG_NOMEM_ERROR, s) }
     | Some el \<Rightarrow>
         (case ie_create e of
            (hret, h) \<Rightarrow>
              if hret \<noteq> HG_SUCCESS then do { s \<leftarrow> handle_cache_destroy s; Some (hret, s) }
              else if \<not> ie_calloc e then do {
                let s = s\<lparr>destroyed := destroyed s @ [h]\<rparr>;
                s \<leftarrow> handle_cache_destroy s;
                Some (HG_NOMEM_ERROR, s)
              }
              else if ie_set_data e \<noteq> HG_SUCCESS then do {
                let s = s\<lparr>destroyed := destroyed s @ [h]\<rparr>;
                s \<leftarrow> handle_cache_destroy s;
                Some (ie_set_data e, s)
              }
              else
                handle_cache_init es
                  (push_el el
                    (s\<lparr>el_handle := (el_handle s)(el := h),
                       hg_data := (hg_data s)(h := Some (zero_handle_data\<lparr>hd_cache_el := Some el\<rparr>))\<rparr>))))"

definition handle_cache_get :: "handle_cache \<Rightarrow> (handle_cache \<times> hg_return \<times> ptr) option" where
  "handle_cache_get s =
    (case free_handle_list s of
       None \<Rightarrow> Some (s, HG_OTHER_ERROR, None)
     | Some el \<Rightarrow> do {
         (head, nx) \<leftarrow> LL_DELETE el (free_handle_list s, el_next s);
         let s = s\<lparr>free_handle_list := head, el_next := nx\<rparr>;
         let hret = hg_reset s (el_handle s el);
         Some (if hret = HG_SUCCESS then (s, hret, Some (el_handle s el))
               else (push_el el s, hret, None))
       })"

definition handle_cache_put :: "handle_cache \<Rightarrow> addr \<Rightarrow> handle_cache \<times> hg_return" where
  "handle_cache_put s handle =
    (case hg_data s handle of
       None \<Rightarrow> (s, HG_OTHER_ERROR)
     | Some data \<Rightarrow>
         (case hd_cache_el data of
            None \<Rightarrow> (s, HG_OTHER_ERROR)
          | Some el \<Rightarrow>
              (let s = (case hd_user_free_callback data of
                          Some f \<Rightarrow> s\<lparr>user_frees := user_frees s @ [(f, hd_user_data data)]\<rparr>
                        | None \<Rightarrow> s);
                   s = s\<lparr>hg_data := (hg_data s)(handle := Some (zero_handle_data\<lparr>hd_cache_el := Some el\<rparr>))\<rparr>
               in (push_el el s, HG_SUCCESS))))"

section \<open>Creating and destroying handles\<close>

text \<open>What is registered for an RPC id (\<^verbatim>\<open>struct margo_rpc_data\<close>).\<close>

record rpc_data =
  rd_mid :: ptr
  rd_pool :: ptr
  rd_rpc_name :: "string option"
  rd_in_proc_cb :: ptr
  rd_out_proc_cb :: ptr

text \<open>
  \<open>registered\<close> is the result of \<^verbatim>\<open>HG_Registered_data\<close> for the id of the handle, \<open>arena\<close> of
  \<^verbatim>\<open>mochi_arena_get\<close> (the code does not test it), \<open>set_data\<close> of \<^verbatim>\<open>HG_Set_data\<close>.
\<close>

definition internal_set_handle_data ::
  "rpc_data option \<Rightarrow> ptr \<Rightarrow> hg_return \<Rightarrow> addr \<Rightarrow> handle_cache \<Rightarrow> (handle_cache \<times> hg_return) option" where
  "internal_set_handle_data registered arena set_data handle s =
    (case registered of
       None \<Rightarrow> Some (s, HG_OTHER_ERROR)
     | Some r \<Rightarrow>
         (let attached = (hg_data s handle \<noteq> None) in do {
            data \<leftarrow> (if attached then hg_data s handle else map_option (\<lambda>_. zero_handle_data) arena);
            let data = data\<lparr>hd_mid := rd_mid r, hd_pool := rd_pool r, hd_rpc_name := rd_rpc_name r,
                            hd_in_proc_cb := rd_in_proc_cb r, hd_out_proc_cb := rd_out_proc_cb r\<rparr>;
            Some (if attached then (s\<lparr>hg_data := (hg_data s)(handle := Some data)\<rparr>, HG_SUCCESS)
                  else if set_data = HG_SUCCESS
                  then (s\<lparr>hg_data := (hg_data s)(handle := Some data)\<rparr>, HG_SUCCESS)
                  else (s, set_data))
          }))"

definition margo_create ::
  "hg_return \<times> addr \<Rightarrow> rpc_data option \<Rightarrow> ptr \<Rightarrow> hg_return \<Rightarrow> handle_cache \<Rightarrow>
   (handle_cache \<times> hg_return \<times> ptr) option" where
  "margo_create hg_create registered arena set_data s = do {
     (s, hret, handle) \<leftarrow> handle_cache_get s;
     let (hret, handle) = (if hret \<noteq> HG_SUCCESS then (fst hg_create, Some (snd hg_create)) else (hret, handle));
     (if hret \<noteq> HG_SUCCESS then Some (s, hret, handle)
      else do {
        h \<leftarrow> handle;
        (s, hret) \<leftarrow> internal_set_handle_data registered arena set_data h s;
        Some (s, hret, handle)
      })
   }"

text \<open>\<^verbatim>\<open>__margo_handle_data_free\<close>, which Mercury calls when it destroys a handle for good.\<close>

definition handle_data_free :: "handle_data option \<Rightarrow> handle_cache \<Rightarrow> handle_cache" where
  "handle_data_free data s =
    (case data of
       None \<Rightarrow> s
     | Some d \<Rightarrow>
         (case hd_user_free_callback d of
            Some f \<Rightarrow> s\<lparr>user_frees := user_frees s @ [(f, hd_user_data d)]\<rparr>
          | None \<Rightarrow> s))"

text \<open>\<open>refcount\<close> is the result of \<^verbatim>\<open>HG_Ref_get\<close>; \<^verbatim>\<open>HG_Destroy\<close> succeeds.\<close>

definition margo_destroy :: "int \<Rightarrow> ptr \<Rightarrow> handle_cache \<Rightarrow> handle_cache \<times> hg_return" where
  "margo_destroy refcount handle s =
    (case handle of
       None \<Rightarrow> (s, HG_SUCCESS)
     | Some h \<Rightarrow>
         if refcount \<noteq> 1 then (s, HG_SUCCESS)
         else if (case hg_data s h of None \<Rightarrow> None | Some d \<Rightarrow> hd_mid d) = None then (s, HG_OTHER_ERROR)
         else
           (let (s1, hret) = handle_cache_put s h
            in if hret \<noteq> HG_SUCCESS
               then ((handle_data_free (hg_data s1 h) s1)\<lparr>destroyed := destroyed s1 @ [h],
                       hg_data := (hg_data s1)(h := None)\<rparr>, HG_SUCCESS)
               else (s1, hret)))"


section \<open>Representation\<close>

abbreviation cached_data :: "addr \<Rightarrow> handle_data" where
  "cached_data el \<equiv> zero_handle_data\<lparr>hd_cache_el := Some el\<rparr>"

text \<open>
  \<open>fl\<close> are the elements of the free list and \<open>E\<close> those whose handles are in use. The data of a
  handle points back to its element, and that of a free handle is otherwise zero.
\<close>

definition cache_rep :: "handle_cache \<Rightarrow> addr list \<Rightarrow> addr set \<Rightarrow> bool" where
  "cache_rep s fl E \<longleftrightarrow>
     path (el_next s) (free_handle_list s) fl \<and> distinct fl \<and> set fl \<inter> E = {}
     \<and> inj_on (el_handle s) (set fl \<union> E)
     \<and> (\<forall>e \<in> set fl. hg_data s (el_handle s e) = Some (cached_data e))
     \<and> (\<forall>e \<in> E. \<exists>d. hg_data s (el_handle s e) = Some d \<and> hd_cache_el d = Some e)"

lemma push_el_simps [simp]:
  "free_handle_list (push_el e s) = Some e" "el_next (push_el e s) = (el_next s)(e := free_handle_list s)"
  "el_handle (push_el e s) = el_handle s" "hg_data (push_el e s) = hg_data s"
  "hg_reset (push_el e s) = hg_reset s" "destroyed (push_el e s) = destroyed s"
  "user_frees (push_el e s) = user_frees s"
  by (simp_all add: push_el_def LL_PREPEND_def)

lemma handle_cache_get_nonempty:
  assumes r: "cache_rep s (e # fl) E"
  shows "if hg_reset s (el_handle s e) = HG_SUCCESS
    then handle_cache_get s = Some (s\<lparr>free_handle_list := el_next s e\<rparr>, HG_SUCCESS, Some (el_handle s e))
      \<and> cache_rep (s\<lparr>free_handle_list := el_next s e\<rparr>) fl (insert e E)
    else (\<exists>s'. handle_cache_get s = Some (s', hg_reset s (el_handle s e), None) \<and> cache_rep s' (e # fl) E)"
proof -
  have h: "free_handle_list s = Some e" using r by (simp add: cache_rep_def)
  then have "LL_DELETE e (free_handle_list s, el_next s) = Some (el_next s e, el_next s)"
    by (simp add: LL_DELETE_def)
  moreover have "cache_rep (s\<lparr>free_handle_list := el_next s e\<rparr>) fl (insert e E)"
    using r by (auto simp: cache_rep_def)
  moreover have "cache_rep (push_el e (s\<lparr>free_handle_list := el_next s e\<rparr>)) (e # fl) E"
    using r by (auto simp: cache_rep_def chain_frame)
  ultimately show ?thesis using h by (auto simp: handle_cache_get_def)
qed

lemma handle_cache_get_empty:
  "cache_rep s [] E \<Longrightarrow> handle_cache_get s = Some (s, HG_OTHER_ERROR, None)"
  by (simp add: cache_rep_def handle_cache_get_def)

lemma handle_cache_put_used:
  assumes r: "cache_rep s fl E" and e: "e \<in> E"
  shows "\<exists>s' d. handle_cache_put s (el_handle s e) = (s', HG_SUCCESS) \<and> cache_rep s' (e # fl) (E - {e})
    \<and> hg_data s (el_handle s e) = Some d \<and> el_handle s' = el_handle s \<and> destroyed s' = destroyed s
    \<and> user_frees s' = user_frees s @ (case hd_user_free_callback d of None \<Rightarrow> [] | Some f \<Rightarrow> [(f, hd_user_data d)])"
proof -
  obtain d where d: "hg_data s (el_handle s e) = Some d" "hd_cache_el d = Some e"
    using r e by (auto simp: cache_rep_def)
  have inj: "el_handle s a \<noteq> el_handle s e" if "a \<in> set fl \<union> E" "a \<noteq> e" for a
    using r e that by (auto simp: cache_rep_def dest: inj_onD)
  let ?s = "(case hd_user_free_callback d of
               Some f \<Rightarrow> s\<lparr>user_frees := user_frees s @ [(f, hd_user_data d)]\<rparr> | None \<Rightarrow> s)
             \<lparr>hg_data := (hg_data s)(el_handle s e := Some (cached_data e))\<rparr>"
  have same: "el_next ?s = el_next s" "free_handle_list ?s = free_handle_list s" "el_handle ?s = el_handle s"
    "destroyed ?s = destroyed s"
    "user_frees ?s = user_frees s @ (case hd_user_free_callback d of None \<Rightarrow> [] | Some f \<Rightarrow> [(f, hd_user_data d)])"
    by (auto split: option.splits)
  have "hg_data (case hd_user_free_callback d of
               Some f \<Rightarrow> s\<lparr>user_frees := user_frees s @ [(f, hd_user_data d)]\<rparr> | None \<Rightarrow> s) = hg_data s"
    by (simp split: option.splits)
  then have "handle_cache_put s (el_handle s e) = (push_el e ?s, HG_SUCCESS)"
    using d by (simp add: handle_cache_put_def Let_def)
  moreover have "cache_rep (push_el e ?s) (e # fl) (E - {e})"
  proof -
    have p: "path (el_next s) (free_handle_list s) fl" "distinct fl" "set fl \<inter> E = {}"
      "inj_on (el_handle s) (set fl \<union> E)" using r by (auto simp: cache_rep_def)
    have "e \<notin> set fl" using p(3) e by auto
    moreover have "set (e # fl) \<union> (E - {e}) = set fl \<union> E" using e by auto
    moreover have "hg_data ?s (el_handle s a) = Some (cached_data a)" if "a \<in> set (e # fl)" for a
      using that r inj [of a] by (auto simp: cache_rep_def)
    moreover have "\<exists>d. hg_data ?s (el_handle s a) = Some d \<and> hd_cache_el d = Some a" if "a \<in> E - {e}" for a
      using that r inj [of a] by (auto simp: cache_rep_def)
    ultimately show ?thesis using p e unfolding cache_rep_def
      by (simp add: same chain_frame del: set_simps) auto
  qed
  ultimately show ?thesis using d same by auto
qed

definition cache_owns :: "handle_cache \<Rightarrow> addr set \<Rightarrow> addr set \<Rightarrow> bool" where
  "cache_owns s F H \<longleftrightarrow> (\<exists>fl E. cache_rep s fl E \<and> F = el_handle s ` set fl \<and> H = el_handle s ` E)"

definition cache_get :: "handle_cache \<Rightarrow> (handle_cache \<times> ptr) option" where
  "cache_get s = map_option (\<lambda>(s', _, h). (s', h)) (handle_cache_get s)"

definition cache_put :: "handle_cache \<Rightarrow> addr \<Rightarrow> handle_cache option" where
  "cache_put s h = (case handle_cache_put s h of (s', hret) \<Rightarrow> if hret = HG_SUCCESS then Some s' else None)"

lemma cache_get_cases:
  assumes r: "cache_rep s fl E"
  obtains (denied) s' where "cache_get s = Some (s', None)" "cache_rep s' fl E" "el_handle s' = el_handle s"
  | (got) s' e fl' where "cache_get s = Some (s', Some (el_handle s e))" "fl = e # fl'"
      "cache_rep s' fl' (insert e E)" "el_handle s' = el_handle s"
proof (cases fl)
  case Nil
  then show ?thesis using handle_cache_get_empty r by (intro denied [of s]) (auto simp: cache_get_def)
next
  case (Cons e fl')
  have h: "free_handle_list s = Some e" using r Cons by (simp add: cache_rep_def)
  show ?thesis
  proof (cases "hg_reset s (el_handle s e) = HG_SUCCESS")
    case True
    then show ?thesis using handle_cache_get_nonempty [of s e fl' E] r Cons
      by (intro got [of "s\<lparr>free_handle_list := el_next s e\<rparr>" e fl']) (auto simp: cache_get_def)
  next
    case False
    then obtain s' where "handle_cache_get s = Some (s', hg_reset s (el_handle s e), None)" "cache_rep s' fl E"
      using handle_cache_get_nonempty [of s e fl' E] r Cons by auto
    moreover from this have "el_handle s' = el_handle s"
      using h False by (auto simp: handle_cache_get_def LL_DELETE_def)
    ultimately show ?thesis by (intro denied [of s']) (auto simp: cache_get_def)
  qed
qed

interpretation handles: resource_pool cache_get cache_put cache_owns
proof unfold_locales
  fix s F H
  assume "cache_owns s F H"
  then obtain fl E where r: "cache_rep s fl E" "F = el_handle s ` set fl" "H = el_handle s ` E"
    by (auto simp: cache_owns_def)
  have inj: "inj_on (el_handle s) (set fl \<union> E)" and d: "set fl \<inter> E = {}" using r(1) by (auto simp: cache_rep_def)
  show "F \<inter> H = {}" using inj d r(2,3) by (auto dest: inj_onD)
  show "cache_get s \<noteq> None" using r(1) by (cases rule: cache_get_cases) auto
  fix s' x
  show "x \<notin> H \<and> (\<exists>F'. cache_owns s' F' (insert x H))" if g: "cache_get s = Some (s', Some x)"
    using r(1)
  proof (cases rule: cache_get_cases)
    case (got t e fl')
    then have "el_handle s e \<notin> H" using inj d r(3) by (auto dest: inj_onD)
    moreover have "cache_owns t (el_handle t ` set fl') (el_handle t ` insert e E)"
      using got(3) by (auto simp: cache_owns_def)
    ultimately show ?thesis using got g r(3) by auto
  qed (use g in auto)
  show "cache_owns s' F H" if g: "cache_get s = Some (s', None)"
    using r(1) by (cases rule: cache_get_cases) (use g r(2,3) in \<open>auto simp: cache_owns_def\<close>)
  show "\<exists>s'. cache_put s x = Some s' \<and> cache_owns s' (insert x F) (H - {x})" if x: "x \<in> H"
  proof -
    obtain e where e: "e \<in> E" "x = el_handle s e" using x r(3) by auto
    obtain t where t: "handle_cache_put s x = (t, HG_SUCCESS)" "cache_rep t (e # fl) (E - {e})"
      "el_handle t = el_handle s" using handle_cache_put_used [OF r(1) e(1)] e(2) by blast
    have "el_handle s ` (E - {e}) = H - {x}"
      using inj e r(3) by (auto dest: inj_onD)
    then have "cache_owns t (insert x F) (H - {x})"
      using t(2,3) e(2) r(2) unfolding cache_owns_def by (intro exI [of _ "e # fl"] exI [of _ "E - {e}"]) auto
    then show ?thesis using t(1) by (simp add: cache_put_def)
  qed
qed


section \<open>Initialization and destruction\<close>

lemma handle_cache_destroy_all:
  assumes "path (el_next s) (free_handle_list s) fl" "distinct fl"
  shows "\<exists>s'. handle_cache_destroy s = Some s' \<and> free_handle_list s' = None
    \<and> destroyed s' = destroyed s @ map (el_handle s) fl"
proof -
  have "\<exists>s'. cache_destroy_loop (free_handle_list s) s = Some s' \<and> free_handle_list s' = None
    \<and> destroyed s' = destroyed s @ map (el_handle s) fl"
    using assms
  proof (induction fl arbitrary: s)
    case Nil
    then show ?case by (simp add: cache_destroy_loop.simps)
  next
    case (Cons e fl)
    let ?s = "s\<lparr>free_handle_list := el_next s e, destroyed := destroyed s @ [el_handle s e]\<rparr>"
    have h: "free_handle_list s = Some e" using Cons.prems by simp
    have "cache_destroy_loop (free_handle_list s) s = cache_destroy_loop (el_next s e) ?s"
      using h by (subst cache_destroy_loop.simps) (simp add: LL_DELETE_def)
    then show ?case using Cons.IH [of ?s] Cons.prems by simp
  qed
  then show ?thesis by (simp add: handle_cache_destroy_def)
qed

text \<open>The handles that \<^verbatim>\<open>HG_Create\<close> returned, up to the iteration that failed.\<close>

primrec created_handles :: "init_env list \<Rightarrow> addr list" where
  "created_handles [] = []"
| "created_handles (e # es) =
    (case ie_malloc e of
       None \<Rightarrow> []
     | Some _ \<Rightarrow>
         if fst (ie_create e) \<noteq> HG_SUCCESS then []
         else snd (ie_create e) # (if ie_calloc e \<and> ie_set_data e = HG_SUCCESS then created_handles es else []))"

lemma handle_cache_init_gen:
  assumes "cache_rep s fl {}" "distinct (map (\<lambda>e. the (ie_malloc e)) es)"
    and "set fl \<inter> set (map (\<lambda>e. the (ie_malloc e)) es) = {}"
    and "distinct (map (\<lambda>e. snd (ie_create e)) es)"
    and "el_handle s ` set fl \<inter> set (map (\<lambda>e. snd (ie_create e)) es) = {}"
  shows "\<exists>hret s'. handle_cache_init es s = Some (hret, s')
    \<and> (if hret = HG_SUCCESS
       then cache_rep s' (rev (map (\<lambda>e. the (ie_malloc e)) es) @ fl) {} \<and> destroyed s' = destroyed s
       else free_handle_list s' = None
         \<and> mset (destroyed s') = mset (destroyed s) + mset (map (el_handle s) fl) + mset (created_handles es))"
  using assms
proof (induction es arbitrary: s fl)
  case Nil
  then show ?case by simp
next
  case (Cons e es)
  have p: "path (el_next s) (free_handle_list s) fl" "distinct fl" using Cons.prems(1) by (auto simp: cache_rep_def)
  let ?h = "snd (ie_create e)"
  have err: "\<exists>s'. handle_cache_destroy (s\<lparr>destroyed := destroyed s @ hs\<rparr>) = Some s' \<and> free_handle_list s' = None
      \<and> mset (destroyed s') = mset (destroyed s) + mset (map (el_handle s) fl) + mset hs" for hs
    using handle_cache_destroy_all [of "s\<lparr>destroyed := destroyed s @ hs\<rparr>" fl] p by auto
  show ?case
  proof (cases "ie_malloc e")
    case None
    then show ?thesis using err [of "[]"] by auto
  next
    case (Some el)
    consider "fst (ie_create e) \<noteq> HG_SUCCESS" | "fst (ie_create e) = HG_SUCCESS" "\<not> ie_calloc e"
      | "fst (ie_create e) = HG_SUCCESS" "ie_calloc e" "ie_set_data e \<noteq> HG_SUCCESS"
      | "fst (ie_create e) = HG_SUCCESS" "ie_calloc e" "ie_set_data e = HG_SUCCESS" by blast
    then show ?thesis
    proof cases
      case 1
      then show ?thesis using err [of "[]"] Some by (auto split: prod.splits)
    next
      case 2
      then show ?thesis using err [of "[?h]"] Some by (auto split: prod.splits)
    next
      case 3
      then show ?thesis using err [of "[?h]"] Some by (auto split: prod.splits)
    next
      case 4
      let ?s = "push_el el (s\<lparr>el_handle := (el_handle s)(el := ?h),
          hg_data := (hg_data s)(?h := Some (cached_data el))\<rparr>)"
      have el: "el \<notin> set fl" using Cons.prems(3) Some by auto
      have same: "map ((el_handle s)(el := ?h)) fl = map (el_handle s) fl" using el by auto
      have img: "((el_handle s)(el := ?h)) ` set fl = el_handle s ` set fl" using el by auto
      have h: "?h \<notin> el_handle s ` set fl" using Cons.prems(5) by auto
      have "cache_rep ?s (el # fl) {}"
        unfolding cache_rep_def
      proof (intro conjI)
        show "path (el_next ?s) (free_handle_list ?s) (el # fl)" using p el by (simp add: chain_frame)
        show "inj_on (el_handle ?s) (set (el # fl) \<union> {})"
          using Cons.prems(1) el h img unfolding cache_rep_def by (simp add: inj_on_fun_updI)
        have "el_handle s a \<noteq> ?h" if "a \<in> set fl" for a using h that by (metis imageI)
        then show "\<forall>a \<in> set (el # fl). hg_data ?s (el_handle ?s a) = Some (cached_data a)"
          using Cons.prems(1) el by (auto simp: cache_rep_def)
      qed (use p el in simp_all)
      moreover have "set (el # fl) \<inter> set (map (\<lambda>e. the (ie_malloc e)) es) = {}"
        using Cons.prems(2,3) Some by auto
      moreover have "el_handle ?s ` set (el # fl) \<inter> set (map (\<lambda>e. snd (ie_create e)) es) = {}"
        using Cons.prems(4,5) img by auto
      moreover have "distinct (map (\<lambda>e. the (ie_malloc e)) es)" "distinct (map (\<lambda>e. snd (ie_create e)) es)"
        using Cons.prems(2,4) by simp_all
      ultimately obtain hret s' where s': "handle_cache_init es ?s = Some (hret, s')"
        "if hret = HG_SUCCESS
         then cache_rep s' (rev (map (\<lambda>e. the (ie_malloc e)) es) @ el # fl) {} \<and> destroyed s' = destroyed ?s
         else free_handle_list s' = None
           \<and> mset (destroyed s') = mset (destroyed ?s) + mset (map (el_handle ?s) (el # fl)) + mset (created_handles es)"
        using Cons.IH [of ?s "el # fl"] by blast
      have step: "handle_cache_init (e # es) s = handle_cache_init es ?s"
        using 4 Some by (cases "ie_create e") simp
      have "map (el_handle ?s) (el # fl) = ?h # map (el_handle s) fl" using same by simp
      then have "mset (map (el_handle ?s) (el # fl)) = add_mset ?h (mset (map (el_handle s) fl))"
        by (simp only: mset.simps)
      moreover have "destroyed ?s = destroyed s" by simp
      moreover have "created_handles (e # es) = ?h # created_handles es" using 4 Some by simp
      moreover have "rev (map (\<lambda>e. the (ie_malloc e)) (e # es)) @ fl =
          rev (map (\<lambda>e. the (ie_malloc e)) es) @ el # fl" using Some by simp
      ultimately show ?thesis unfolding step using s'
        by (intro exI [of _ hret] exI [of _ s']) (simp only: mset.simps union_mset_add_mset_left union_mset_add_mset_right split: if_splits)
    qed
  qed
qed


section \<open>Properties\<close>

definition no_cache :: handle_cache where
  "no_cache = \<lparr>free_handle_list = None, el_next = \<lambda>_. None, el_handle = \<lambda>_. 0, hg_data = \<lambda>_. None,
     hg_reset = \<lambda>_. HG_SUCCESS, destroyed = [], user_frees = []\<rparr>"

definition good_env :: "addr \<Rightarrow> addr \<Rightarrow> init_env" where
  "good_env el h = \<lparr>ie_malloc = Some el, ie_create = (HG_SUCCESS, h), ie_calloc = True, ie_set_data = HG_SUCCESS\<rparr>"

text \<open>
  Initialization of the handle cache is all or nothing. If every call succeeds the free
  list holds one element per iteration, each with its own handle, whose data points back to
  the element; if any allocation or Mercury call fails, the code of the failure is returned, the
  free list is empty, and every handle that was created has been destroyed exactly once.
\<close>

theorem handle_cache_init_all_or_nothing:
  assumes "cache_rep s [] {}" "distinct (map (\<lambda>e. the (ie_malloc e)) es)"
    and "distinct (map (\<lambda>e. snd (ie_create e)) es)"
  shows "\<exists>hret s'. handle_cache_init es s = Some (hret, s')
    \<and> (if hret = HG_SUCCESS
       then cache_rep s' (rev (map (\<lambda>e. the (ie_malloc e)) es)) {} \<and> destroyed s' = destroyed s
       else free_handle_list s' = None \<and> mset (destroyed s') = mset (destroyed s) + mset (created_handles es))"
  using handle_cache_init_gen [OF assms(1,2) _ assms(3)]
  by (simp only: append_Nil2 list.map mset.simps empty_neutral list.set Int_empty_left image_empty simp_thms)

theorem handle_cache_init_all_or_nothing_witness:
  "\<exists>s'. handle_cache_init [good_env 1 11, (good_env 2 12)\<lparr>ie_set_data := HG_NOMEM\<rparr>] no_cache
     = Some (HG_NOMEM, s') \<and> mset (destroyed s') = {#11, 12#}"
proof -
  let ?es = "[good_env 1 11, (good_env 2 12)\<lparr>ie_set_data := HG_NOMEM\<rparr>]"
  have r: "cache_rep no_cache [] {}" by (simp add: cache_rep_def no_cache_def)
  obtain hret s' where i: "handle_cache_init ?es no_cache = Some (hret, s')"
    "hret = HG_SUCCESS \<or> mset (destroyed s') = mset (destroyed no_cache) + mset (created_handles ?es)"
    using handle_cache_init_all_or_nothing [OF r, of ?es] by (auto simp: good_env_def split: if_splits)
  have "\<exists>t. handle_cache_init ?es no_cache = Some (HG_NOMEM, t)"
    by (simp add: good_env_def no_cache_def handle_cache_destroy_def cache_destroy_loop.simps LL_DELETE_def push_el_def LL_PREPEND_def)
  then have "hret = HG_NOMEM" using i(1) by auto
  then show ?thesis using i by (auto simp: good_env_def no_cache_def)
qed

text \<open>
  Exclusive use of cached handles. In every interleaving of gets and puts, also when
  \<^verbatim>\<open>HG_Reset\<close> fails and the element goes back to the free list, a handle that the cache handed
  out was not in use and is not handed out again until it was put back.
\<close>

theorem handle_cache_exclusive:
  assumes "cache_owns s F H" "resource_run cache_get cache_put s H (Got h # es) s' H'" "Released h \<notin> set es"
  shows "h \<notin> H \<and> Got h \<notin> set es \<and> h \<in> H'"
  using assms by (rule handles.got_exclusive)

definition one_cached :: handle_cache where
  "one_cached = \<lparr>free_handle_list = Some 1, el_next = \<lambda>_. None, el_handle = \<lambda>e. e + 10,
     hg_data = \<lambda>h. if h = 11 then Some (cached_data 1) else None,
     hg_reset = \<lambda>_. HG_SUCCESS, destroyed = [], user_frees = []\<rparr>"

lemma one_cached_rep: "cache_rep one_cached [1] {}"
  by (simp add: cache_rep_def one_cached_def)

theorem handle_cache_exclusive_witness:
  "\<exists>s'. resource_run cache_get cache_put one_cached {} [Got 11] s' {11} \<and> 11 \<notin> ({} :: addr set)"
proof -
  have o: "cache_owns one_cached {11} {}"
    using one_cached_rep by (force simp: cache_owns_def one_cached_def)
  obtain s' where "cache_get one_cached = Some (s', Some 11)"
    by (simp add: cache_get_def handle_cache_get_def one_cached_def LL_DELETE_def)
  then have run: "resource_run cache_get cache_put one_cached {} [Got 11] s' {11}"
    by (simp add: resource_run.intros)
  have "11 \<notin> ({} :: addr set) \<and> Got (11 :: addr) \<notin> set [] \<and> (11 :: addr) \<in> {11}"
    by (rule handle_cache_exclusive [OF o run]) simp
  then show ?thesis using run by blast
qed

text \<open>
  C27: a recycled handle is as good as new. Creating a handle for a registered RPC with a
  non-empty cache reuses the first free one and attaches the RPC's data; when the last reference
  is destroyed later, the user's callback runs exactly once, the handle goes back to the front
  of the free list, and no user data, callback or pool of this use is left in its data.
\<close>

theorem margo_create_destroy_recycles:
  assumes "cache_rep s (e # fl) E" "hg_reset s (el_handle s e) = HG_SUCCESS" "rd_mid r \<noteq> None"
    and "margo_create hc (Some r) ar sd s = Some (s1, hret, h)"
    and "s2 = s1\<lparr>hg_data := (hg_data s1)(el_handle s e := Some
           ((the (hg_data s1 (el_handle s e)))\<lparr>hd_user_data := ud, hd_user_free_callback := Some f\<rparr>))\<rparr>"
  shows "hret = HG_SUCCESS \<and> h = Some (el_handle s e) \<and> cache_rep s1 fl (insert e E)
    \<and> hg_data s1 (el_handle s e) = Some ((cached_data e)\<lparr>hd_mid := rd_mid r, hd_pool := rd_pool r,
        hd_rpc_name := rd_rpc_name r, hd_in_proc_cb := rd_in_proc_cb r, hd_out_proc_cb := rd_out_proc_cb r\<rparr>)
    \<and> (\<exists>s3. margo_destroy 1 h s2 = (s3, HG_SUCCESS) \<and> cache_rep s3 (e # fl) E
         \<and> user_frees s3 = user_frees s @ [(f, ud)] \<and> destroyed s3 = destroyed s
         \<and> hg_data s3 (el_handle s e) = Some (cached_data e))"
proof -
  let ?h = "el_handle s e" and ?s = "s\<lparr>free_handle_list := el_next s e\<rparr>"
  let ?d = "(cached_data e)\<lparr>hd_mid := rd_mid r, hd_pool := rd_pool r,
        hd_rpc_name := rd_rpc_name r, hd_in_proc_cb := rd_in_proc_cb r, hd_out_proc_cb := rd_out_proc_cb r\<rparr>"
  have g: "handle_cache_get s = Some (?s, HG_SUCCESS, Some ?h)" "cache_rep ?s fl (insert e E)"
    using handle_cache_get_nonempty [OF assms(1)] assms(2) by auto
  have d: "hg_data s ?h = Some (cached_data e)" using assms(1) by (simp add: cache_rep_def)
  have c: "hret = HG_SUCCESS" "h = Some ?h" "s1 = ?s\<lparr>hg_data := (hg_data s)(?h := Some ?d)\<rparr>"
    using assms(4) g(1) d by (auto simp: margo_create_def internal_set_handle_data_def Let_def)
  have inj: "el_handle s a \<noteq> ?h" if "a \<in> set fl \<union> E" for a
  proof -
    have "inj_on (el_handle s) (set (e # fl) \<union> E)" "a \<noteq> e" using assms(1) that by (auto simp: cache_rep_def)
    then show ?thesis using that by (metis UnCI UnE inj_onD list.set_intros(1,2))
  qed
  have upd: "cache_rep (?s\<lparr>hg_data := (hg_data s)(?h := Some d')\<rparr>) fl (insert e E)"
    if "hd_cache_el d' = Some e" for d'
    using g(2) inj that by (auto simp: cache_rep_def)
  let ?d2 = "?d\<lparr>hd_user_data := ud, hd_user_free_callback := Some f\<rparr>"
  have s2: "s2 = ?s\<lparr>hg_data := (hg_data s)(?h := Some ?d2)\<rparr>" using assms(5) c(3) by simp
  have r2: "cache_rep s2 fl (insert e E)" unfolding s2 by (rule upd) simp
  have h2: "el_handle s2 e = ?h" "hg_data s2 ?h = Some ?d2" by (simp_all add: s2)
  obtain s3 where s3: "handle_cache_put s2 ?h = (s3, HG_SUCCESS)" "cache_rep s3 (e # fl) (insert e E - {e})"
    "el_handle s3 = el_handle s2" "destroyed s3 = destroyed s2" "user_frees s3 = user_frees s2 @ [(f, ud)]"
    using handle_cache_put_used [OF r2, of e] h2 by auto
  have "e \<notin> E" using assms(1) by (auto simp: cache_rep_def)
  then have "cache_rep s3 (e # fl) E" using s3(2) by simp
  moreover from this have "hg_data s3 ?h = Some (cached_data e)"
    using s3(3) by (auto simp: cache_rep_def s2)
  moreover have "margo_destroy 1 h s2 = (s3, HG_SUCCESS)"
    using c(2) h2(2) s3(1) assms(3) by (simp add: margo_destroy_def)
  ultimately show ?thesis using c upd [of ?d] s3(4,5) by (simp add: s2)
qed

theorem margo_create_destroy_recycles_witness:
  "\<exists>s1 h. margo_create (HG_NOMEM, 0) (Some \<lparr>rd_mid = Some 5, rd_pool = Some 6, rd_rpc_name = None,
       rd_in_proc_cb = None, rd_out_proc_cb = None\<rparr>) None HG_SUCCESS one_cached = Some (s1, HG_SUCCESS, h)
     \<and> h = Some 11"
proof -
  let ?r = "\<lparr>rd_mid = Some 5, rd_pool = Some 6, rd_rpc_name = None, rd_in_proc_cb = None, rd_out_proc_cb = None\<rparr>"
  obtain s1 hret h where c: "margo_create (HG_NOMEM, 0) (Some ?r) None HG_SUCCESS one_cached = Some (s1, hret, h)"
    by (simp add: margo_create_def handle_cache_get_def internal_set_handle_data_def one_cached_def LL_DELETE_def Let_def)
  have "hg_reset one_cached (el_handle one_cached 1) = HG_SUCCESS" "el_handle one_cached 1 = 11"
    by (simp_all add: one_cached_def)
  then have "hret = HG_SUCCESS \<and> h = Some 11"
    using margo_create_destroy_recycles [OF one_cached_rep _ _ c refl] by simp
  then show ?thesis using c by auto
qed

end
