(* ===== verification/Finalize_Callbacks.thy ===== *)
theory Finalize_Callbacks
  imports Pointer_Lists
begin

text \<open>
  The two stacks of callbacks that an instance runs when it finalizes (\<^verbatim>\<open>src/margo-core.c\<close>): the
  pre-finalize callbacks run while the progress loop is still alive, the finalize callbacks after
  it ended. Both are linked lists of \<^verbatim>\<open>struct margo_finalize_cb\<close> in which the entries of several
  owners (providers) are mixed. The theory shows that the pointer programs implement a stack per
  owner, and that the loops of \<^verbatim>\<open>margo_finalize\<close> run every entry once, last registered first.
\<close>

section \<open>State\<close>

text \<open>
  \<^verbatim>\<open>struct margo_finalize_cb\<close>, one function per field, the two heads of the instance, and the
  entries that are allocated. Owners, callbacks and their arguments are pointers.
\<close>

record callbacks =
  prefinalize_cb :: ptr
  finalize_cb :: ptr
  fcb_owner :: "addr \<Rightarrow> ptr"
  fcb_callback :: "addr \<Rightarrow> ptr"
  fcb_uargs :: "addr \<Rightarrow> ptr"
  fcb_next :: "addr \<Rightarrow> ptr"
  fcb_live :: "addr set"

text \<open>\<^verbatim>\<open>free(fcb)\<close>\<close>

definition free_fcb :: "addr \<Rightarrow> callbacks \<Rightarrow> callbacks" where
  "free_fcb a s = s\<lparr>fcb_live := fcb_live s - {a}\<rparr>"

section \<open>Registering callbacks\<close>

text \<open>\<open>a\<close> is the address that \<^verbatim>\<open>malloc\<close> returns.\<close>

definition new_fcb :: "addr \<Rightarrow> ptr \<Rightarrow> ptr \<Rightarrow> ptr \<Rightarrow> ptr \<Rightarrow> callbacks \<Rightarrow> callbacks" where
  "new_fcb a owner cb uargs next s =
     s\<lparr>fcb_live := insert a (fcb_live s), fcb_owner := (fcb_owner s)(a := owner),
       fcb_callback := (fcb_callback s)(a := cb), fcb_uargs := (fcb_uargs s)(a := uargs),
       fcb_next := (fcb_next s)(a := next)\<rparr>"

definition margo_provider_push_prefinalize_callback ::
  "addr \<Rightarrow> ptr \<Rightarrow> ptr \<Rightarrow> ptr \<Rightarrow> callbacks \<Rightarrow> callbacks" where
  "margo_provider_push_prefinalize_callback a owner cb uargs s =
    (if cb = None then s
     else (new_fcb a owner cb uargs (prefinalize_cb s) s)\<lparr>prefinalize_cb := Some a\<rparr>)"

definition margo_provider_push_finalize_callback ::
  "addr \<Rightarrow> ptr \<Rightarrow> ptr \<Rightarrow> ptr \<Rightarrow> callbacks \<Rightarrow> callbacks" where
  "margo_provider_push_finalize_callback a owner cb uargs s =
    (if cb = None then s
     else (new_fcb a owner cb uargs (finalize_cb s) s)\<lparr>finalize_cb := Some a\<rparr>)"

text \<open>
  The search \<^verbatim>\<open>while (fcb != NULL && fcb->owner != owner)\<close>, which also keeps the previous entry.
\<close>

partial_function (option) find_fcb :: "callbacks \<Rightarrow> ptr \<Rightarrow> ptr \<Rightarrow> ptr \<Rightarrow> (ptr \<times> ptr) option" where
  "find_fcb s owner fcb prev =
    (case fcb of
       None \<Rightarrow> Some (prev, None)
     | Some f \<Rightarrow>
         if fcb_owner s f \<noteq> owner then find_fcb s owner (fcb_next s f) (Some f)
         else Some (prev, Some f))"

text \<open>The result is \<^const>\<open>None\<close> for 0, and the outputs \<^verbatim>\<open>*cb\<close> and \<^verbatim>\<open>*uargs\<close> for 1.\<close>

definition margo_provider_top_prefinalize_callback ::
  "ptr \<Rightarrow> callbacks \<Rightarrow> (ptr \<times> ptr) option option" where
  "margo_provider_top_prefinalize_callback owner s = do {
     (_, fcb) \<leftarrow> find_fcb s owner (prefinalize_cb s) None;
     Some (map_option (\<lambda>f. (fcb_callback s f, fcb_uargs s f)) fcb)
   }"

definition margo_provider_top_finalize_callback ::
  "ptr \<Rightarrow> callbacks \<Rightarrow> (ptr \<times> ptr) option option" where
  "margo_provider_top_finalize_callback owner s = do {
     (_, fcb) \<leftarrow> find_fcb s owner (finalize_cb s) None;
     Some (map_option (\<lambda>f. (fcb_callback s f, fcb_uargs s f)) fcb)
   }"

text \<open>The results 1 and 0 are \<^const>\<open>True\<close> and \<^const>\<open>False\<close>.\<close>

definition margo_provider_pop_prefinalize_callback :: "ptr \<Rightarrow> callbacks \<Rightarrow> (callbacks \<times> bool) option" where
  "margo_provider_pop_prefinalize_callback owner s = do {
     (prev, fcb) \<leftarrow> find_fcb s owner (prefinalize_cb s) None;
     Some (case fcb of
         None \<Rightarrow> (s, False)
       | Some f \<Rightarrow>
           (case prev of
              None \<Rightarrow> (free_fcb f (s\<lparr>prefinalize_cb := fcb_next s f\<rparr>), True)
            | Some p \<Rightarrow> (free_fcb f (s\<lparr>fcb_next := (fcb_next s)(p := fcb_next s f)\<rparr>), True)))
   }"

definition margo_provider_pop_finalize_callback :: "ptr \<Rightarrow> callbacks \<Rightarrow> (callbacks \<times> bool) option" where
  "margo_provider_pop_finalize_callback owner s = do {
     (prev, fcb) \<leftarrow> find_fcb s owner (finalize_cb s) None;
     Some (case fcb of
         None \<Rightarrow> (s, False)
       | Some f \<Rightarrow>
           (case prev of
              None \<Rightarrow> (free_fcb f (s\<lparr>finalize_cb := fcb_next s f\<rparr>), True)
            | Some p \<Rightarrow> (free_fcb f (s\<lparr>fcb_next := (fcb_next s)(p := fcb_next s f)\<rparr>), True)))
   }"

text \<open>The functions without an owner use NULL.\<close>

definition margo_push_prefinalize_callback :: "addr \<Rightarrow> ptr \<Rightarrow> ptr \<Rightarrow> callbacks \<Rightarrow> callbacks" where
  "margo_push_prefinalize_callback a cb uargs s = margo_provider_push_prefinalize_callback a None cb uargs s"

definition margo_pop_prefinalize_callback :: "callbacks \<Rightarrow> (callbacks \<times> bool) option" where
  "margo_pop_prefinalize_callback s = margo_provider_pop_prefinalize_callback None s"

definition margo_top_prefinalize_callback :: "callbacks \<Rightarrow> (ptr \<times> ptr) option option" where
  "margo_top_prefinalize_callback s = margo_provider_top_prefinalize_callback None s"

definition margo_push_finalize_callback :: "addr \<Rightarrow> ptr \<Rightarrow> ptr \<Rightarrow> callbacks \<Rightarrow> callbacks" where
  "margo_push_finalize_callback a cb uargs s = margo_provider_push_finalize_callback a None cb uargs s"

definition margo_pop_finalize_callback :: "callbacks \<Rightarrow> (callbacks \<times> bool) option" where
  "margo_pop_finalize_callback s = margo_provider_pop_finalize_callback None s"

definition margo_top_finalize_callback :: "callbacks \<Rightarrow> (ptr \<times> ptr) option option" where
  "margo_top_finalize_callback s = margo_provider_top_finalize_callback None s"

section \<open>Running callbacks\<close>

text \<open>
  The loops of \<^verbatim>\<open>margo_finalize\<close> and \<^verbatim>\<open>margo_call_finalization_callbacks\<close>. The parameter \<open>call\<close> is
  what the user's callbacks do, given the function and its argument, to the stacks (a callback
  may push and pop) and to the rest of the world.
\<close>

partial_function (option) run_prefinalize_callbacks ::
  "(ptr \<Rightarrow> ptr \<Rightarrow> callbacks \<times> 'w \<Rightarrow> callbacks \<times> 'w) \<Rightarrow> ptr \<Rightarrow> callbacks \<Rightarrow> 'w \<Rightarrow> (callbacks \<times> 'w) option" where
  "run_prefinalize_callbacks call fcb s w =
    (case fcb of
       None \<Rightarrow> Some (s, w)
     | Some f \<Rightarrow>
         (let s = s\<lparr>prefinalize_cb := fcb_next s f\<rparr>;
              (s, w) = call (fcb_callback s f) (fcb_uargs s f) (s, w)
          in run_prefinalize_callbacks call (prefinalize_cb s) (free_fcb f s) w))"

partial_function (option) run_finalize_callbacks ::
  "(ptr \<Rightarrow> ptr \<Rightarrow> callbacks \<times> 'w \<Rightarrow> callbacks \<times> 'w) \<Rightarrow> ptr \<Rightarrow> callbacks \<Rightarrow> 'w \<Rightarrow> (callbacks \<times> 'w) option" where
  "run_finalize_callbacks call fcb s w =
    (case fcb of
       None \<Rightarrow> Some (s, w)
     | Some f \<Rightarrow>
         (let s = s\<lparr>finalize_cb := fcb_next s f\<rparr>;
              (s, w) = call (fcb_callback s f) (fcb_uargs s f) (s, w)
          in run_finalize_callbacks call (finalize_cb s) (free_fcb f s) w))"

definition margo_call_finalization_callbacks ::
  "(ptr \<Rightarrow> ptr \<Rightarrow> callbacks \<times> 'w \<Rightarrow> callbacks \<times> 'w) \<Rightarrow> callbacks \<Rightarrow> 'w \<Rightarrow> (callbacks \<times> 'w) option" where
  "margo_call_finalization_callbacks call s w = run_finalize_callbacks call (finalize_cb s) s w"


section \<open>The specification: a stack of entries\<close>

text \<open>An entry is the owner, the callback and its argument; the head of the list runs first.\<close>

type_synonym entry = "ptr \<times> ptr \<times> ptr"

definition top_spec :: "ptr \<Rightarrow> entry list \<Rightarrow> (ptr \<times> ptr) option" where
  "top_spec owner es = map_option snd (find (\<lambda>e. fst e = owner) es)"

primrec pop_spec :: "ptr \<Rightarrow> entry list \<Rightarrow> entry list" where
  "pop_spec owner [] = []"
| "pop_spec owner (e # es) = (if fst e = owner then es else e # pop_spec owner es)"

text \<open>
  The entries of the list that starts at \<open>head\<close>, all allocated, and \<open>B\<close> the addresses of the
  other list, which are apart.
\<close>

definition entry_of :: "callbacks \<Rightarrow> addr \<Rightarrow> entry" where
  "entry_of s a = (fcb_owner s a, fcb_callback s a, fcb_uargs s a)"

definition stack_at :: "callbacks \<Rightarrow> ptr \<Rightarrow> addr list \<Rightarrow> bool" where
  "stack_at s head as \<longleftrightarrow> path (fcb_next s) head as \<and> distinct as \<and> set as \<subseteq> fcb_live s"

definition callbacks_rep :: "callbacks \<Rightarrow> addr list \<Rightarrow> addr list \<Rightarrow> bool" where
  "callbacks_rep s ps fs \<longleftrightarrow> stack_at s (prefinalize_cb s) ps \<and> stack_at s (finalize_cb s) fs
     \<and> set ps \<inter> set fs = {}"

text \<open>Both stacks of an instance, with their entries.\<close>

definition stacks :: "callbacks \<Rightarrow> entry list \<Rightarrow> entry list \<Rightarrow> bool" where
  "stacks s pes fes \<longleftrightarrow> (\<exists>ps fs. callbacks_rep s ps fs \<and> map (entry_of s) ps = pes \<and> map (entry_of s) fs = fes)"

lemma stacksI:
  "stack_at s (prefinalize_cb s) ps \<Longrightarrow> stack_at s (finalize_cb s) fs \<Longrightarrow> set ps \<inter> set fs = {} \<Longrightarrow>
   map (entry_of s) ps = pes \<Longrightarrow> map (entry_of s) fs = fes \<Longrightarrow> stacks s pes fes"
  unfolding stacks_def callbacks_rep_def by blast

lemma stacksE:
  assumes "stacks s pes fes"
  obtains ps fs where "stack_at s (prefinalize_cb s) ps" "stack_at s (finalize_cb s) fs" "set ps \<inter> set fs = {}"
    "pes = map (entry_of s) ps" "fes = map (entry_of s) fs"
  using assms by (auto simp: stacks_def callbacks_rep_def)

section \<open>The contract of a stack\<close>

text \<open>
  \<open>stack s es other\<close> says that the stack holds \<open>es\<close> and that the rest of the state is \<open>other\<close>; the
  operations keep the latter. \<open>fresh\<close> are the addresses that \<^verbatim>\<open>malloc\<close> may return.
\<close>

locale callback_stack =
  fixes stack :: "'s \<Rightarrow> entry list \<Rightarrow> 'o \<Rightarrow> bool"
    and fresh :: "'s \<Rightarrow> addr \<Rightarrow> bool"
    and push :: "addr \<Rightarrow> ptr \<Rightarrow> ptr \<Rightarrow> ptr \<Rightarrow> 's \<Rightarrow> 's"
    and top :: "ptr \<Rightarrow> 's \<Rightarrow> (ptr \<times> ptr) option option"
    and pop :: "ptr \<Rightarrow> 's \<Rightarrow> ('s \<times> bool) option"
  assumes push_law:
      "stack s es other \<Longrightarrow> fresh s a \<Longrightarrow> cb \<noteq> None \<Longrightarrow> stack (push a owner cb uargs s) ((owner, cb, uargs) # es) other"
    and top_law: "stack s es other \<Longrightarrow> top owner s = Some (top_spec owner es)"
    and pop_law: "stack s es other \<Longrightarrow>
      \<exists>s'. pop owner s = Some (s', top_spec owner es \<noteq> None) \<and> stack s' (pop_spec owner es) other"
begin

text \<open>A callback is found by its owner right after it is pushed, and popping it restores the stack.\<close>

lemma push_top_pop:
  assumes "stack s es other" "fresh s a" "cb \<noteq> None"
  shows "top owner (push a owner cb uargs s) = Some (Some (cb, uargs))
    \<and> (\<exists>s'. pop owner (push a owner cb uargs s) = Some (s', True) \<and> stack s' es other)"
proof -
  note st = push_law [OF assms, of owner uargs]
  show ?thesis using top_law [OF st, of owner] pop_law [OF st, of owner] by (auto simp: top_spec_def)
qed

text \<open>What one owner pushes and pops is invisible to the others.\<close>

lemma push_other:
  assumes "stack s es other" "fresh s a" "cb \<noteq> None" "owner' \<noteq> owner"
  shows "top owner' (push a owner cb uargs s) = top owner' s"
  using top_law [OF push_law [OF assms(1-3), of owner uargs], of owner'] top_law [OF assms(1), of owner'] assms(4)
  by (simp add: top_spec_def)

end

text \<open>A pop takes the first entry of its owner and leaves those of the others as they are.\<close>

lemma pop_spec_owner: "filter (\<lambda>e. fst e = owner) (pop_spec owner es) = tl (filter (\<lambda>e. fst e = owner) es)"
  by (induction es) auto

lemma pop_spec_other: "owner' \<noteq> owner \<Longrightarrow> filter (\<lambda>e. fst e = owner') (pop_spec owner es) = filter (\<lambda>e. fst e = owner') es"
  by (induction es) auto

section \<open>The pointer programs meet the contract\<close>

lemma find_fcb_path:
  "path (fcb_next s) fcb as \<Longrightarrow>
   find_fcb s owner fcb prev =
     (case find_index (\<lambda>a. fcb_owner s a = owner) as of
        None \<Rightarrow> Some (if as = [] then prev else Some (last as), None)
      | Some i \<Rightarrow> Some (if i = 0 then prev else Some (as ! (i - 1)), Some (as ! i)))"
proof (induction as arbitrary: fcb prev)
  case Nil
  then show ?case by (simp add: find_fcb.simps)
next
  case (Cons a as)
  then show ?case
    by (subst find_fcb.simps) (auto split: option.splits simp: nth_Cons')
qed

lemma top_spec_map:
  "top_spec owner (map (entry_of s) as) =
     map_option (\<lambda>i. (fcb_callback s (as ! i), fcb_uargs s (as ! i))) (find_index (\<lambda>a. fcb_owner s a = owner) as)"
  by (induction as) (auto simp: top_spec_def entry_of_def option.map_comp o_def)

lemma pop_spec_map:
  "pop_spec owner (map (entry_of s) as) =
     (case find_index (\<lambda>a. fcb_owner s a = owner) as of
        None \<Rightarrow> map (entry_of s) as
      | Some i \<Rightarrow> map (entry_of s) (take i as @ drop (Suc i) as))"
  by (induction as) (auto simp: entry_of_def split: option.splits)

lemma top_rep:
  assumes "stack_at s head as"
  shows "(do { (_, fcb) \<leftarrow> find_fcb s owner head None;
               Some (map_option (\<lambda>f. (fcb_callback s f, fcb_uargs s f)) fcb) })
    = Some (top_spec owner (map (entry_of s) as))"
  using find_fcb_path [of s head as owner None] assms
  by (simp add: stack_at_def top_spec_map split: option.splits)

lemma path_unlink:
  assumes "path nx head (ys @ a # zs)" "distinct (ys @ a # zs)"
  shows "if ys = [] then path nx (nx a) zs else path (nx(last ys := nx a)) head (ys @ zs)"
proof (cases ys rule: rev_cases)
  case (snoc xs b)
  then show ?thesis using path_bypass [of nx head xs b a zs] assms by simp
qed (use assms in simp)

text \<open>What a pop does to its own stack and to one that shares no entry with it.\<close>

lemma pop_unlinks:
  assumes st: "stack_at s head as" and i: "find_index (\<lambda>a. fcb_owner s a = owner) as = Some i"
    and other: "stack_at s head' bs" "set as \<inter> set bs = {}"
  defines "f \<equiv> as ! i" and "rest \<equiv> take i as @ drop (Suc i) as"
  defines "s' \<equiv> free_fcb f (if i = 0 then s else s\<lparr>fcb_next := (fcb_next s)(as ! (i - 1) := fcb_next s f)\<rparr>)"
  shows "stack_at s' (if i = 0 then fcb_next s f else head) rest" "stack_at s' head' bs"
    "set rest \<subseteq> set as" "entry_of s' = entry_of s"
proof -
  have il: "i < length as" using find_index_SomeD [OF i] by simp
  have split: "as = take i as @ f # drop (Suc i) as" using il by (simp add: f_def id_take_nth_drop)
  have d: "distinct (take i as @ f # drop (Suc i) as)" and p: "path (fcb_next s) head (take i as @ f # drop (Suc i) as)"
    using st split unfolding stack_at_def by metis+
  have l: "last (take i as) = as ! (i - 1)" if "i \<noteq> 0"
    using that il last_conv_nth [of "take i as"] by force
  have "path (fcb_next s') (if i = 0 then fcb_next s f else head) rest"
    using path_unlink [OF p d] il l by (auto simp: s'_def rest_def free_fcb_def split: if_splits)
  moreover show sub: "set rest \<subseteq> set as"
    using set_take_subset set_drop_subset by (fastforce simp: rest_def)
  moreover have "distinct rest" "f \<notin> set rest" using d by (auto simp: rest_def)
  ultimately show "stack_at s' (if i = 0 then fcb_next s f else head) rest"
    using st by (auto simp: stack_at_def s'_def free_fcb_def)
  have "as ! (i - 1) \<notin> set bs" "f \<notin> set bs"
    using other(2) il by (auto simp: f_def disjoint_iff)
  then show "stack_at s' head' bs"
    using other(1) by (auto simp: stack_at_def s'_def free_fcb_def chain_frame)
  show "entry_of s' = entry_of s" by (auto simp: fun_eq_iff entry_of_def s'_def free_fcb_def)
qed

lemma push_links:
  assumes "stack_at s head as" "a \<notin> fcb_live s"
  shows "stack_at (new_fcb a owner cb uargs head s) (Some a) (a # as)"
    "stack_at s head' bs \<Longrightarrow> stack_at (new_fcb a owner cb uargs h s) head' bs"
    "map (entry_of (new_fcb a owner cb uargs h s)) as = map (entry_of s) as"
    "entry_of (new_fcb a owner cb uargs h s) a = (owner, cb, uargs)"
  using assms by (auto simp: stack_at_def new_fcb_def entry_of_def path_upd subset_iff intro!: path_upd [THEN iffD2])

text \<open>Changing a head does not change what is reachable from the pointers of a stack.\<close>

lemma stack_at_heads [simp]:
  "stack_at (s\<lparr>prefinalize_cb := h\<rparr>) p as = stack_at s p as" "entry_of (s\<lparr>prefinalize_cb := h\<rparr>) = entry_of s"
  "stack_at (s\<lparr>finalize_cb := h\<rparr>) p as = stack_at s p as" "entry_of (s\<lparr>finalize_cb := h\<rparr>) = entry_of s"
  by (auto simp: stack_at_def entry_of_def fun_eq_iff)

lemma new_fcb_heads [simp]:
  "prefinalize_cb (new_fcb a owner cb uargs h s) = prefinalize_cb s"
  "finalize_cb (new_fcb a owner cb uargs h s) = finalize_cb s"
  "prefinalize_cb (free_fcb a s) = prefinalize_cb s" "finalize_cb (free_fcb a s) = finalize_cb s"
  "free_fcb a (s\<lparr>prefinalize_cb := h\<rparr>) = (free_fcb a s)\<lparr>prefinalize_cb := h\<rparr>"
  "free_fcb a (s\<lparr>finalize_cb := h\<rparr>) = (free_fcb a s)\<lparr>finalize_cb := h\<rparr>"
  by (simp_all add: new_fcb_def free_fcb_def)

lemma push_prefinalize_law:
  assumes st: "stacks s pes fes" and fresh: "a \<notin> fcb_live s" and cb: "cb \<noteq> None"
  shows "stacks (margo_provider_push_prefinalize_callback a owner cb uargs s) ((owner, cb, uargs) # pes) fes"
  using st
proof (rule stacksE)
  fix ps fs
  assume r: "stack_at s (prefinalize_cb s) ps" "stack_at s (finalize_cb s) fs" "set ps \<inter> set fs = {}"
    and e: "pes = map (entry_of s) ps" "fes = map (entry_of s) fs"
  note own = push_links [OF r(1) fresh] and other = push_links(3) [OF r(2) fresh]
  have "a \<notin> set fs" using r(2) fresh by (auto simp: stack_at_def)
  then show ?thesis
    using cb r e own other
    by (intro stacksI [of _ "a # ps" fs])
      (simp_all add: margo_provider_push_prefinalize_callback_def own(1,4) own(2) [OF r(2)] del: map_eq_conv not_None_eq)
qed

lemma push_finalize_law:
  assumes st: "stacks s pes fes" and fresh: "a \<notin> fcb_live s" and cb: "cb \<noteq> None"
  shows "stacks (margo_provider_push_finalize_callback a owner cb uargs s) pes ((owner, cb, uargs) # fes)"
  using st
proof (rule stacksE)
  fix ps fs
  assume r: "stack_at s (prefinalize_cb s) ps" "stack_at s (finalize_cb s) fs" "set ps \<inter> set fs = {}"
    and e: "pes = map (entry_of s) ps" "fes = map (entry_of s) fs"
  note own = push_links [OF r(2) fresh] and other = push_links(3) [OF r(1) fresh]
  have "a \<notin> set ps" using r(1) fresh by (auto simp: stack_at_def)
  then show ?thesis
    using cb r e own other
    by (intro stacksI [of _ ps "a # fs"])
      (simp_all add: margo_provider_push_finalize_callback_def own(1,4) own(2) [OF r(1)] del: map_eq_conv not_None_eq)
qed

lemma top_prefinalize_law:
  "stacks s pes fes \<Longrightarrow> margo_provider_top_prefinalize_callback owner s = Some (top_spec owner pes)"
  by (auto simp: stacks_def callbacks_rep_def margo_provider_top_prefinalize_callback_def top_rep)

lemma top_finalize_law:
  "stacks s pes fes \<Longrightarrow> margo_provider_top_finalize_callback owner s = Some (top_spec owner fes)"
  by (auto simp: stacks_def callbacks_rep_def margo_provider_top_finalize_callback_def top_rep)

lemma pop_prefinalize_law:
  assumes st: "stacks s pes fes"
  shows "\<exists>s'. margo_provider_pop_prefinalize_callback owner s = Some (s', top_spec owner pes \<noteq> None)
    \<and> stacks s' (pop_spec owner pes) fes"
  using st
proof (rule stacksE)
  fix ps fs
  assume r: "stack_at s (prefinalize_cb s) ps" "stack_at s (finalize_cb s) fs" "set ps \<inter> set fs = {}"
    and e: "pes = map (entry_of s) ps" "fes = map (entry_of s) fs"
  have p: "path (fcb_next s) (prefinalize_cb s) ps" using r(1) by (simp add: stack_at_def)
  show ?thesis
  proof (cases "find_index (\<lambda>a. fcb_owner s a = owner) ps")
    case None
    then show ?thesis
      using find_fcb_path [OF p, of owner None] st e
      by (simp add: margo_provider_pop_prefinalize_callback_def top_spec_map pop_spec_map)
  next
    case (Some i)
    note u = pop_unlinks [OF r(1) Some r(2,3)]
    let ?rest = "take i ps @ drop (Suc i) ps"
    let ?s = "free_fcb (ps ! i) (if i = 0 then s\<lparr>prefinalize_cb := fcb_next s (ps ! i)\<rparr>
                else s\<lparr>fcb_next := (fcb_next s)(ps ! (i - 1) := fcb_next s (ps ! i))\<rparr>)"
    have "margo_provider_pop_prefinalize_callback owner s = Some (?s, top_spec owner pes \<noteq> None)"
      using find_fcb_path [OF p, of owner None] Some e
      by (simp add: margo_provider_pop_prefinalize_callback_def top_spec_map)
    moreover have "stacks ?s (pop_spec owner pes) fes"
    proof (rule stacksI [of _ ?rest fs])
      show "set ?rest \<inter> set fs = {}" using u(3) r(3) by blast
    qed (use Some e u in \<open>cases "i = 0"; simp add: pop_spec_map\<close>)+
    ultimately show ?thesis by blast
  qed
qed

lemma pop_finalize_law:
  assumes st: "stacks s pes fes"
  shows "\<exists>s'. margo_provider_pop_finalize_callback owner s = Some (s', top_spec owner fes \<noteq> None)
    \<and> stacks s' pes (pop_spec owner fes)"
  using st
proof (rule stacksE)
  fix ps fs
  assume r: "stack_at s (prefinalize_cb s) ps" "stack_at s (finalize_cb s) fs" "set ps \<inter> set fs = {}"
    and e: "pes = map (entry_of s) ps" "fes = map (entry_of s) fs"
  have p: "path (fcb_next s) (finalize_cb s) fs" using r(2) by (simp add: stack_at_def)
  show ?thesis
  proof (cases "find_index (\<lambda>a. fcb_owner s a = owner) fs")
    case None
    then show ?thesis
      using find_fcb_path [OF p, of owner None] st e
      by (simp add: margo_provider_pop_finalize_callback_def top_spec_map pop_spec_map)
  next
    case (Some i)
    note u = pop_unlinks [OF r(2) Some r(1) r(3) [unfolded Int_commute [of "set ps"]]]
    let ?rest = "take i fs @ drop (Suc i) fs"
    let ?s = "free_fcb (fs ! i) (if i = 0 then s\<lparr>finalize_cb := fcb_next s (fs ! i)\<rparr>
                else s\<lparr>fcb_next := (fcb_next s)(fs ! (i - 1) := fcb_next s (fs ! i))\<rparr>)"
    have "margo_provider_pop_finalize_callback owner s = Some (?s, top_spec owner fes \<noteq> None)"
      using find_fcb_path [OF p, of owner None] Some e
      by (simp add: margo_provider_pop_finalize_callback_def top_spec_map)
    moreover have "stacks ?s pes (pop_spec owner fes)"
    proof (rule stacksI [of _ ps ?rest])
      show "set ps \<inter> set ?rest = {}" using u(3) r(3) by blast
    qed (use Some e u in \<open>cases "i = 0"; simp add: pop_spec_map\<close>)+
    ultimately show ?thesis by blast
  qed
qed

interpretation prefinalize: callback_stack stacks "\<lambda>s a. a \<notin> fcb_live s"
  margo_provider_push_prefinalize_callback margo_provider_top_prefinalize_callback
  margo_provider_pop_prefinalize_callback
  by unfold_locales (rule push_prefinalize_law top_prefinalize_law pop_prefinalize_law; assumption)+

interpretation finalize: callback_stack "\<lambda>s fes pes. stacks s pes fes" "\<lambda>s a. a \<notin> fcb_live s"
  margo_provider_push_finalize_callback margo_provider_top_finalize_callback
  margo_provider_pop_finalize_callback
  by unfold_locales (rule push_finalize_law top_finalize_law pop_finalize_law; assumption)+

section \<open>The order of execution\<close>

text \<open>Callbacks that do not touch the stacks: \<open>act\<close> is what they do to the world.\<close>

abbreviation plain :: "(ptr \<Rightarrow> ptr \<Rightarrow> 'w \<Rightarrow> 'w) \<Rightarrow> ptr \<Rightarrow> ptr \<Rightarrow> callbacks \<times> 'w \<Rightarrow> callbacks \<times> 'w" where
  "plain act \<equiv> (\<lambda>c u sw. (fst sw, act c u (snd sw)))"

definition run_entries :: "(ptr \<Rightarrow> ptr \<Rightarrow> 'w \<Rightarrow> 'w) \<Rightarrow> entry list \<Rightarrow> 'w \<Rightarrow> 'w" where
  "run_entries act es w = fold (\<lambda>(owner, c, u). act c u) es w"

lemma run_finalize_path:
  "path (fcb_next s) p as \<Longrightarrow>
   run_finalize_callbacks (plain act) p s w =
     Some (s\<lparr>finalize_cb := if as = [] then finalize_cb s else None, fcb_live := fcb_live s - set as\<rparr>,
           run_entries act (map (entry_of s) as) w)"
proof (induction as arbitrary: p s w)
  case Nil
  then show ?case by (simp add: run_finalize_callbacks.simps run_entries_def)
next
  case (Cons a as)
  let ?s = "free_fcb a (s\<lparr>finalize_cb := fcb_next s a\<rparr>)"
  have "path (fcb_next ?s) (fcb_next s a) as" using Cons.prems by (simp add: free_fcb_def)
  note IH = Cons.IH [OF this]
  have e: "entry_of ?s = entry_of s" by (auto simp: entry_of_def free_fcb_def fun_eq_iff)
  have "fcb_next s a = None" if "as = []" using Cons.prems that by simp
  then show ?case
    using Cons.prems IH e
    by (subst run_finalize_callbacks.simps)
      (auto simp: run_entries_def entry_of_def [abs_def] free_fcb_def Diff_insert2 [symmetric] insert_commute)
qed

lemma run_prefinalize_path:
  "path (fcb_next s) p as \<Longrightarrow>
   run_prefinalize_callbacks (plain act) p s w =
     Some (s\<lparr>prefinalize_cb := if as = [] then prefinalize_cb s else None, fcb_live := fcb_live s - set as\<rparr>,
           run_entries act (map (entry_of s) as) w)"
proof (induction as arbitrary: p s w)
  case Nil
  then show ?case by (simp add: run_prefinalize_callbacks.simps run_entries_def)
next
  case (Cons a as)
  let ?s = "free_fcb a (s\<lparr>prefinalize_cb := fcb_next s a\<rparr>)"
  have "path (fcb_next ?s) (fcb_next s a) as" using Cons.prems by (simp add: free_fcb_def)
  note IH = Cons.IH [OF this]
  have e: "entry_of ?s = entry_of s" by (auto simp: entry_of_def free_fcb_def fun_eq_iff)
  have "fcb_next s a = None" if "as = []" using Cons.prems that by simp
  then show ?case
    using Cons.prems IH e
    by (subst run_prefinalize_callbacks.simps)
      (auto simp: run_entries_def entry_of_def [abs_def] free_fcb_def Diff_insert2 [symmetric] insert_commute)
qed

text \<open>Registering a list of callbacks, each at an address that is not in use.\<close>

definition push_all_finalize :: "(addr \<times> entry) list \<Rightarrow> callbacks \<Rightarrow> callbacks" where
  "push_all_finalize rs s = fold (\<lambda>(a, owner, c, u). margo_provider_push_finalize_callback a owner c u) rs s"

definition push_all_prefinalize :: "(addr \<times> entry) list \<Rightarrow> callbacks \<Rightarrow> callbacks" where
  "push_all_prefinalize rs s = fold (\<lambda>(a, owner, c, u). margo_provider_push_prefinalize_callback a owner c u) rs s"

lemma push_all_finalize_stack:
  "stacks s pes fes \<Longrightarrow> distinct (map fst rs) \<Longrightarrow> set (map fst rs) \<inter> fcb_live s = {} \<Longrightarrow>
   None \<notin> set (map (\<lambda>(a, owner, c, u). c) rs) \<Longrightarrow>
   stacks (push_all_finalize rs s) pes (rev (map snd rs) @ fes)"
proof (induction rs arbitrary: s fes)
  case Nil
  then show ?case by (simp add: push_all_finalize_def)
next
  case (Cons r rs)
  obtain a owner c u where r: "r = (a, owner, c, u)" by (cases r)
  let ?s = "margo_provider_push_finalize_callback a owner c u s"
  have c: "c \<noteq> None" using Cons.prems(4) r by (cases c) auto
  then have "stacks ?s pes ((owner, c, u) # fes)" using Cons.prems(1,3) r by (intro push_finalize_law) auto
  moreover have "fcb_live ?s = insert a (fcb_live s)"
    using c by (auto simp: margo_provider_push_finalize_callback_def new_fcb_def)
  ultimately have "stacks (push_all_finalize rs ?s) pes (rev (map snd rs) @ (owner, c, u) # fes)"
    using Cons.prems(2-4) r by (intro Cons.IH) auto
  then show ?case using r by (simp add: push_all_finalize_def)
qed

lemma push_all_prefinalize_live: "fcb_live (push_all_prefinalize rs s) \<subseteq> set (map fst rs) \<union> fcb_live s"
proof (induction rs arbitrary: s)
  case Nil
  then show ?case by (simp add: push_all_prefinalize_def)
next
  case (Cons r rs)
  obtain a owner c u where r: "r = (a, owner, c, u)" by (cases r)
  have "fcb_live (margo_provider_push_prefinalize_callback a owner c u s) \<subseteq> insert a (fcb_live s)"
    by (auto simp: margo_provider_push_prefinalize_callback_def new_fcb_def)
  then show ?case
    using Cons.IH [of "margo_provider_push_prefinalize_callback a owner c u s"] r
    by (auto simp: push_all_prefinalize_def)
qed

lemma push_all_prefinalize_stack:
  "stacks s pes fes \<Longrightarrow> distinct (map fst rs) \<Longrightarrow> set (map fst rs) \<inter> fcb_live s = {} \<Longrightarrow>
   None \<notin> set (map (\<lambda>(a, owner, c, u). c) rs) \<Longrightarrow>
   stacks (push_all_prefinalize rs s) (rev (map snd rs) @ pes) fes"
proof (induction rs arbitrary: s pes)
  case Nil
  then show ?case by (simp add: push_all_prefinalize_def)
next
  case (Cons r rs)
  obtain a owner c u where r: "r = (a, owner, c, u)" by (cases r)
  let ?s = "margo_provider_push_prefinalize_callback a owner c u s"
  have c: "c \<noteq> None" using Cons.prems(4) r by (cases c) auto
  then have "stacks ?s ((owner, c, u) # pes) fes" using Cons.prems(1,3) r by (intro push_prefinalize_law) auto
  moreover have "fcb_live ?s = insert a (fcb_live s)"
    using c by (auto simp: margo_provider_push_prefinalize_callback_def new_fcb_def)
  ultimately have "stacks (push_all_prefinalize rs ?s) (rev (map snd rs) @ (owner, c, u) # pes) fes"
    using Cons.prems(2-4) r by (intro Cons.IH) auto
  then show ?case using r by (simp add: push_all_prefinalize_def)
qed

lemma margo_call_finalization_callbacks_runs:
  assumes "stacks s pes fes"
  shows "\<exists>s'. margo_call_finalization_callbacks (plain act) s w = Some (s', run_entries act fes w)
    \<and> stacks s' pes []"
  using assms
proof (rule stacksE)
  fix ps fs
  assume r: "stack_at s (prefinalize_cb s) ps" "stack_at s (finalize_cb s) fs" "set ps \<inter> set fs = {}"
    and e: "pes = map (entry_of s) ps" "fes = map (entry_of s) fs"
  let ?s = "s\<lparr>finalize_cb := if fs = [] then finalize_cb s else None, fcb_live := fcb_live s - set fs\<rparr>"
  have "finalize_cb s = None" if "fs = []" using r(2) that by (simp add: stack_at_def)
  moreover have "entry_of ?s = entry_of s" by (auto simp: entry_of_def fun_eq_iff)
  ultimately have "stacks ?s pes []"
    using r e by (intro stacksI [of _ ps "[]"]) (auto simp: stack_at_def)
  moreover have "margo_call_finalization_callbacks (plain act) s w = Some (?s, run_entries act fes w)"
    using run_finalize_path [of s "finalize_cb s" fs act w] r(2) e
    by (simp add: margo_call_finalization_callbacks_def stack_at_def)
  ultimately show ?thesis by blast
qed

lemma run_prefinalize_callbacks_runs:
  assumes "stacks s pes fes"
  shows "\<exists>s'. run_prefinalize_callbacks (plain act) (prefinalize_cb s) s w = Some (s', run_entries act pes w)
    \<and> stacks s' [] fes"
  using assms
proof (rule stacksE)
  fix ps fs
  assume r: "stack_at s (prefinalize_cb s) ps" "stack_at s (finalize_cb s) fs" "set ps \<inter> set fs = {}"
    and e: "pes = map (entry_of s) ps" "fes = map (entry_of s) fs"
  let ?s = "s\<lparr>prefinalize_cb := if ps = [] then prefinalize_cb s else None, fcb_live := fcb_live s - set ps\<rparr>"
  have "prefinalize_cb s = None" if "ps = []" using r(1) that by (simp add: stack_at_def)
  moreover have "entry_of ?s = entry_of s" by (auto simp: entry_of_def fun_eq_iff)
  ultimately have "stacks ?s [] fes"
    using r e by (intro stacksI [of _ "[]" fs]) (auto simp: stack_at_def)
  moreover have "run_prefinalize_callbacks (plain act) (prefinalize_cb s) s w = Some (?s, run_entries act pes w)"
    using run_prefinalize_path [of s "prefinalize_cb s" ps act w] r(1) e
    by (simp add: stack_at_def)
  ultimately show ?thesis by blast
qed

section \<open>Properties\<close>

definition no_callbacks :: callbacks where
  "no_callbacks = \<lparr>prefinalize_cb = None, finalize_cb = None, fcb_owner = (\<lambda>_. None),
     fcb_callback = (\<lambda>_. None), fcb_uargs = (\<lambda>_. None), fcb_next = (\<lambda>_. None), fcb_live = {}\<rparr>"

lemma no_callbacks_stacks [simp]: "stacks no_callbacks [] []" "fcb_live no_callbacks = {}"
  by (auto intro!: stacksI [of _ "[]" "[]"] simp: no_callbacks_def stack_at_def)

text \<open>
  A provider's callbacks are a stack of its own. When an owner pushes a finalize callback
  (at an address that is not in use), asking for the top of that owner returns it, the top of
  every other owner is what it was, and popping it succeeds and restores both stacks.
\<close>

theorem finalize_callback_owner_isolation:
  fixes uargs :: ptr
  assumes "stacks s pes fes" "a \<notin> fcb_live s" "cb \<noteq> None" "other \<noteq> owner"
  defines "s1 \<equiv> margo_provider_push_finalize_callback a owner cb uargs s"
  shows "margo_provider_top_finalize_callback owner s1 = Some (Some (cb, uargs))
    \<and> margo_provider_top_finalize_callback other s1 = margo_provider_top_finalize_callback other s
    \<and> (\<exists>s2. margo_provider_pop_finalize_callback owner s1 = Some (s2, True) \<and> stacks s2 pes fes)"
  using finalize.push_top_pop [OF assms(1-3), of owner uargs] finalize.push_other [OF assms(1-4), of uargs]
  by (simp add: s1_def)

theorem finalize_callback_owner_isolation_witness:
  "margo_provider_top_finalize_callback (Some 5) (margo_provider_push_finalize_callback 0 (Some 5) (Some 7) None no_callbacks)
     = Some (Some (Some 7, None))"
  using finalize_callback_owner_isolation [of no_callbacks "[]" "[]" 0 "Some 7" "Some 6" "Some 5" None] by simp

text \<open>
  The callbacks run in the reverse order of their registration, each exactly once. From an
  instance without callbacks, register pre-finalize callbacks \<open>ps\<close> and then finalize callbacks \<open>fs\<close>,
  all with a function and at fresh addresses. The loop of \<^verbatim>\<open>margo_finalize\<close> terminates and runs the
  former, \<open>margo_call_finalization_callbacks\<close> terminates and runs the latter, both last to first,
  and then both stacks are empty.
\<close>

theorem finalize_callbacks_reverse_order:
  fixes act :: "ptr \<Rightarrow> ptr \<Rightarrow> 'w \<Rightarrow> 'w" and w w' :: 'w
  assumes "distinct (map fst ps @ map fst fs)"
    and "None \<notin> set (map (\<lambda>(a, owner, c, u). c) (ps @ fs))"
  defines "s \<equiv> push_all_finalize fs (push_all_prefinalize ps no_callbacks)"
  shows "\<exists>s1 s2. run_prefinalize_callbacks (plain act) (prefinalize_cb s) s w
        = Some (s1, run_entries act (rev (map snd ps)) w)
      \<and> margo_call_finalization_callbacks (plain act) s1 w' = Some (s2, run_entries act (rev (map snd fs)) w')
      \<and> stacks s2 [] []"
proof -
  have "stacks (push_all_prefinalize ps no_callbacks) (rev (map snd ps) @ []) []"
    using assms(1,2) by (intro push_all_prefinalize_stack) auto
  then have p: "stacks (push_all_prefinalize ps no_callbacks) (rev (map snd ps)) []" by simp
  have "set (map fst fs) \<inter> fcb_live (push_all_prefinalize ps no_callbacks) = {}"
    using assms(1) push_all_prefinalize_live [of ps no_callbacks] unfolding distinct_append by fastforce
  then have "stacks s (rev (map snd ps)) (rev (map snd fs) @ [])"
    using assms(1,2) unfolding s_def by (intro push_all_finalize_stack [OF p]) simp_all
  then have st: "stacks s (rev (map snd ps)) (rev (map snd fs))" by simp
  obtain s1 where 1: "run_prefinalize_callbacks (plain act) (prefinalize_cb s) s w
      = Some (s1, run_entries act (rev (map snd ps)) w)" "stacks s1 [] (rev (map snd fs))"
    using run_prefinalize_callbacks_runs [OF st, of act w] by (elim exE conjE)
  then show ?thesis using margo_call_finalization_callbacks_runs [OF 1(2), of act w'] by auto
qed

theorem finalize_callbacks_reverse_order_witness:
  "\<exists>s1 s2. margo_call_finalization_callbacks (plain (\<lambda>c u l. l @ [c])) s1 []
     = Some (s2, run_entries (\<lambda>c u l. l @ [c]) (rev [(None, Some 7, None), (Some 1, Some 8, None)]) [])"
  using finalize_callbacks_reverse_order
    [of "[]" "[(0, None, Some 7, None), (1, Some 1, Some 8, None)]" "\<lambda>c u l. l @ [c]" "[]" "[]"]
  by auto

end
