(* ===== verification/Shutdown.thy ===== *)
theory Shutdown
  imports Margo_Prelude
begin

text \<open>
  The shutdown handshake of an instance (\<^verbatim>\<open>src/margo-core.c\<close>, \<^verbatim>\<open>src/margo-instance.h\<close> and the RPC
  handler macros of \<^verbatim>\<open>include/margo.h\<close>). One atomic 32-bit word packs the number of operations in
  flight and the flag that says finalization was requested; RPC handlers enter through a
  compare-and-swap loop, \<^verbatim>\<open>margo_finalize\<close> sets the flag and reads the count in one step, and the
  handlers that end while the flag is set call \<^verbatim>\<open>margo_finalize\<close> again. The functions are cut into
  their atomic sections, and a step relation interleaves any number of threads that run them.
\<close>

section \<open>State\<close>

definition MARGO_FINALIZE_BIT :: u32 where "MARGO_FINALIZE_BIT = 0x80000000"

definition MARGO_PENDING_MASK :: u32 where "MARGO_PENDING_MASK = 0x7FFFFFFF"

text \<open>Where the progress thread is: at the test of its loop, waiting for progress to be needed,
  in the body of the loop, or returned.\<close>

datatype progress_pc = PLoop | PWait | PBody | PDone

text \<open>
  The fields of \<^verbatim>\<open>struct margo_instance\<close> that take part, followed by what the statements observe:
  how often the program itself called \<^verbatim>\<open>margo_finalize\<close> or \<^verbatim>\<open>margo_finalize_and_wait\<close>, how many calls
  of \<^verbatim>\<open>margo_finalize\<close> found no pending operation and tear the instance down, and how often \<^verbatim>\<open>margo_cleanup\<close> ran.
\<close>

record margo_instance =
  shutdown_state :: u32
  hg_progress_tid :: progress_pc
  hg_progress_shutdown_flag :: bool
  pwn_flag :: bool
  pwn_pending :: u64
  finalize_flag :: bool
  finalize_refcount :: int
  refcount :: u32
  calls :: nat
  teardowns :: nat
  cleanups :: nat

section \<open>Atomic sections\<close>

definition finalize_requested :: "margo_instance \<Rightarrow> bool" where
  "finalize_requested s \<longleftrightarrow> shutdown_state s AND MARGO_FINALIZE_BIT \<noteq> 0"

text \<open>
  One round of the loop of \<^verbatim>\<open>__margo_internal_incr_pending\<close>: \<open>Inl\<close> is its result, \<open>Inr\<close> the value the
  failed (perhaps \<open>spurious\<close>ly failed) weak compare-and-swap loaded into \<^verbatim>\<open>cur\<close>.
\<close>

definition incr_pending_round :: "bool \<Rightarrow> u32 \<Rightarrow> margo_instance \<Rightarrow> margo_instance \<times> (bool + u32)" where
  "incr_pending_round spurious cur s =
    (if cur AND MARGO_FINALIZE_BIT \<noteq> 0 then (s, Inl False)
     else if shutdown_state s = cur \<and> \<not> spurious then (s\<lparr>shutdown_state := cur + 1\<rparr>, Inl True)
     else (s, Inr (shutdown_state s)))"

definition decr_pending :: "margo_instance \<Rightarrow> margo_instance" where
  "decr_pending s = s\<lparr>shutdown_state := shutdown_state s - 1\<rparr>"

definition PROGRESS_NEEDED_INCR :: "margo_instance \<Rightarrow> margo_instance" where
  "PROGRESS_NEEDED_INCR s = (if pwn_flag s then s\<lparr>pwn_pending := pwn_pending s + 1\<rparr> else s)"

definition PROGRESS_NEEDED_DECR :: "margo_instance \<Rightarrow> margo_instance" where
  "PROGRESS_NEEDED_DECR s = (if pwn_flag s then s\<lparr>pwn_pending := pwn_pending s - 1\<rparr> else s)"

text \<open>The condition under which \<^verbatim>\<open>WAIT_FOR_PROGRESS_TO_BE_NEEDED\<close> returns.\<close>

definition progress_needed :: "margo_instance \<Rightarrow> bool" where
  "progress_needed s \<longleftrightarrow> \<not> pwn_flag s \<or> pwn_pending s \<noteq> 0"

text \<open>\<^verbatim>\<open>margo_finalize\<close>, up to the early return; the result says whether it returns.\<close>

definition finalize_enter :: "margo_instance \<Rightarrow> margo_instance \<times> bool" where
  "finalize_enter s =
    (let prev_state = shutdown_state s;
         s = s\<lparr>shutdown_state := prev_state OR MARGO_FINALIZE_BIT\<rparr>
     in if prev_state AND MARGO_PENDING_MASK \<noteq> 0 then (s, True)
        else (s\<lparr>teardowns := teardowns s + 1\<rparr>, False))"

text \<open>after the pre-finalize callbacks: tell the progress thread to stop\<close>

definition finalize_stop :: "margo_instance \<Rightarrow> margo_instance" where
  "finalize_stop s = PROGRESS_NEEDED_INCR (s\<lparr>hg_progress_shutdown_flag := True\<rparr>)"

text \<open>after the progress thread was joined\<close>

definition finalize_joined :: "margo_instance \<Rightarrow> margo_instance" where
  "finalize_joined s = (let s = PROGRESS_NEEDED_DECR s in s\<lparr>refcount := refcount s - 1\<rparr>)"

text \<open>the critical section at the end; the result is \<^verbatim>\<open>do_cleanup\<close>\<close>

definition finalize_complete :: "margo_instance \<Rightarrow> margo_instance \<times> bool" where
  "finalize_complete s =
    (let s = s\<lparr>finalize_flag := True\<rparr> in (s, finalize_refcount s = 0 \<and> refcount s = 0))"

text \<open>The critical sections of \<^verbatim>\<open>margo_finalize_and_wait\<close> and \<^verbatim>\<open>margo_wait_for_finalize\<close>.\<close>

definition finalize_and_wait_enter :: "margo_instance \<Rightarrow> margo_instance" where
  "finalize_and_wait_enter s =
     s\<lparr>shutdown_state := shutdown_state s OR MARGO_FINALIZE_BIT, finalize_refcount := finalize_refcount s + 1\<rparr>"

definition wait_enter :: "margo_instance \<Rightarrow> margo_instance" where
  "wait_enter s = s\<lparr>finalize_refcount := finalize_refcount s + 1\<rparr>"

definition wait_leave :: "margo_instance \<Rightarrow> margo_instance \<times> bool" where
  "wait_leave s =
    (let s = s\<lparr>finalize_refcount := finalize_refcount s - 1\<rparr>
     in (s, finalize_refcount s = 0 \<and> refcount s = 0))"

text \<open>\<^verbatim>\<open>margo_cleanup\<close> frees the instance; what it frees is the subject of other theories.\<close>

definition cleanup :: "margo_instance \<Rightarrow> margo_instance" where
  "cleanup s = s\<lparr>cleanups := cleanups s + 1\<rparr>"

text \<open>References held by the program; the result of a release says what it goes on to call.\<close>

datatype release_action = Return_Only | Call_Finalize | Call_Cleanup

definition margo_instance_ref_incr :: "margo_instance option \<Rightarrow> margo_instance option \<times> hg_return" where
  "margo_instance_ref_incr mid =
    (case mid of
       None \<Rightarrow> (None, HG_INVALID_ARG)
     | Some s \<Rightarrow> (Some (s\<lparr>refcount := refcount s + 1\<rparr>), HG_SUCCESS))"

definition margo_instance_ref_count :: "margo_instance option \<Rightarrow> hg_return \<times> u32 option" where
  "margo_instance_ref_count mid =
    (case mid of None \<Rightarrow> (HG_INVALID_ARG, None) | Some s \<Rightarrow> (HG_SUCCESS, Some (refcount s)))"

definition margo_instance_release ::
  "margo_instance option \<Rightarrow> margo_instance option \<times> release_action \<times> hg_return" where
  "margo_instance_release mid =
    (case mid of
       None \<Rightarrow> (None, Return_Only, HG_INVALID_ARG)
     | Some s \<Rightarrow>
         if refcount s = 0 then (Some s, Return_Only, HG_OTHER_ERROR)
         else
           (let s = s\<lparr>refcount := refcount s - 1\<rparr>
            in if refcount s = 0
               then if \<not> finalize_flag s then (Some (s\<lparr>refcount := refcount s + 1\<rparr>), Call_Finalize, HG_SUCCESS)
                    else (Some s, Call_Cleanup, HG_SUCCESS)
               else (Some s, Return_Only, HG_SUCCESS)))"

definition margo_instance_is_finalized :: "margo_instance option \<Rightarrow> hg_return \<times> bool option" where
  "margo_instance_is_finalized mid =
    (case mid of None \<Rightarrow> (HG_INVALID_ARG, None) | Some s \<Rightarrow> (HG_SUCCESS, Some (finalize_flag s)))"

section \<open>Threads\<close>

text \<open>
  Where a thread is. An RPC handler is about to read the word (\<open>Handler\<close>), in the loop with the
  value it read, admitted and about to create its ULT (\<open>Spawn\<close>), running the user's handler
  (\<open>Ult\<close>), or past the decrement (\<open>Post\<close>). A thread in \<^verbatim>\<open>margo_finalize\<close> is before the atomic
  operation (\<open>Enter\<close>), runs the pre-finalize callbacks, waits for the progress thread, is before the
  critical section at the end, or is in \<^verbatim>\<open>margo_cleanup\<close>; the argument says whether its caller is
  \<^verbatim>\<open>margo_finalize_and_wait\<close>, which then waits (\<open>Waiting\<close>). \<open>Forward\<close> is an operation in flight that
  made progress needed.
\<close>

datatype pc =
    Handler | Handler_Cas u32 | Spawn | Ult | Post
  | Enter bool | Prefinalize bool | Join bool | Complete bool | Cleanup bool
  | Waiting | Forward

definition after :: "bool \<Rightarrow> pc multiset \<Rightarrow> pc multiset" where
  "after w T = (if w then add_mset Waiting T else T)"

text \<open>
  One step of one thread. The number of threads is bounded (each is a ULT in memory). The program
  starts to wait only for an instance that is not finalized. The parameter says whether creating
  the ULT of a handler may fail.
\<close>

inductive shutdown_step :: "bool \<Rightarrow> margo_instance \<times> pc multiset \<Rightarrow> margo_instance \<times> pc multiset \<Rightarrow> bool"
  for fails :: bool where
  arrive: "size T < 2 ^ 31 - 1 \<Longrightarrow> shutdown_step fails (s, T) (s, add_mset Handler T)"
| load: "shutdown_step fails (s, add_mset Handler T) (s, add_mset (Handler_Cas (shutdown_state s)) T)"
| cas: "incr_pending_round spurious cur s = (s', r) \<Longrightarrow>
    shutdown_step fails (s, add_mset (Handler_Cas cur) T)
      (s', case r of Inl True \<Rightarrow> add_mset Spawn T | Inl False \<Rightarrow> T | Inr cur' \<Rightarrow> add_mset (Handler_Cas cur') T)"
| spawn: "shutdown_step fails (s, add_mset Spawn T) (s, add_mset Ult T)"
| spawn_fails: "fails \<Longrightarrow> shutdown_step fails (s, add_mset Spawn T) (decr_pending s, T)"
| ult_ends: "shutdown_step fails (s, add_mset Ult T) (decr_pending s, add_mset Post T)"
| post: "shutdown_step fails (s, add_mset Post T) (s, if finalize_requested s then add_mset (Enter False) T else T)"
| call_finalize: "size T < 2 ^ 31 - 1 \<Longrightarrow> 
    shutdown_step fails (s, T) (s\<lparr>calls := calls s + 1\<rparr>, add_mset (Enter False) T)"
| call_finalize_and_wait: "size T < 2 ^ 31 - 1 \<Longrightarrow> \<not> finalize_flag s \<Longrightarrow>
    shutdown_step fails (s, T) (finalize_and_wait_enter (s\<lparr>calls := calls s + 1\<rparr>), add_mset (Enter True) T)"
| call_wait: "size T < 2 ^ 31 - 1 \<Longrightarrow> \<not> finalize_flag s \<Longrightarrow>
    shutdown_step fails (s, T) (wait_enter s, add_mset Waiting T)"
| enter: "finalize_enter s = (s', d) \<Longrightarrow>
    shutdown_step fails (s, add_mset (Enter w) T) (s', if d then after w T else add_mset (Prefinalize w) T)"
| prefinalized: "shutdown_step fails (s, add_mset (Prefinalize w) T) (finalize_stop s, add_mset (Join w) T)"
| joined: "hg_progress_tid s = PDone \<Longrightarrow>
    shutdown_step fails (s, add_mset (Join w) T) (finalize_joined s, add_mset (Complete w) T)"
| complete: "finalize_complete s = (s', c) \<Longrightarrow>
    shutdown_step fails (s, add_mset (Complete w) T) (s', if c then add_mset (Cleanup w) T else after w T)"
| cleaned: "shutdown_step fails (s, add_mset (Cleanup w) T) (cleanup s, after w T)"
| wait_ends: "finalize_flag s \<Longrightarrow> wait_leave s = (s', c) \<Longrightarrow>
    shutdown_step fails (s, add_mset Waiting T) (s', if c then add_mset (Cleanup False) T else T)"
| forward: "size T < 2 ^ 31 - 1 \<Longrightarrow> shutdown_step fails (s, T) (PROGRESS_NEEDED_INCR s, add_mset Forward T)"
| forwarded: "shutdown_step fails (s, add_mset Forward T) (PROGRESS_NEEDED_DECR s, T)"
| progress_test: "hg_progress_tid s = PLoop \<Longrightarrow>
    shutdown_step fails (s, T) (s\<lparr>hg_progress_tid := if hg_progress_shutdown_flag s then PDone else PWait\<rparr>, T)"
| progress_wakes: "hg_progress_tid s = PWait \<Longrightarrow> progress_needed s \<Longrightarrow>
    shutdown_step fails (s, T) (s\<lparr>hg_progress_tid := PBody\<rparr>, T)"
| progress_body: "hg_progress_tid s = PBody \<Longrightarrow> shutdown_step fails (s, T) (s\<lparr>hg_progress_tid := PLoop\<rparr>, T)"

text \<open>A new instance (\<^verbatim>\<open>margo_init_ext\<close>): one reference, nothing pending.\<close>

definition new_instance :: "bool \<Rightarrow> margo_instance" where
  "new_instance when_needed =
    \<lparr>shutdown_state = 0, hg_progress_tid = PLoop, hg_progress_shutdown_flag = False, pwn_flag = when_needed,
     pwn_pending = 0, finalize_flag = False, finalize_refcount = 0, refcount = 1,
     calls = 0, teardowns = 0, cleanups = 0\<rparr>"

inductive shutdown_reachable :: "bool \<Rightarrow> margo_instance \<times> pc multiset \<Rightarrow> bool" for fails :: bool where
  new: "shutdown_reachable fails (new_instance when_needed, {#})"
| step: "shutdown_reachable fails c \<Longrightarrow> shutdown_step fails c c' \<Longrightarrow> shutdown_reachable fails c'"

section \<open>The packed word\<close>

definition pack :: "nat \<Rightarrow> bool \<Rightarrow> u32" where
  "pack n f = of_nat n + (if f then MARGO_FINALIZE_BIT else 0)"

lemma bit_FINALIZE_BIT: "bit MARGO_FINALIZE_BIT i \<longleftrightarrow> i = 31"
proof -
  have "MARGO_FINALIZE_BIT = push_bit 31 1" by (simp add: MARGO_FINALIZE_BIT_def push_bit_eq_mult)
  then have "bit MARGO_FINALIZE_BIT i \<longleftrightarrow> bit (push_bit 31 (1 :: u32)) i" by metis
  then show ?thesis unfolding bit_push_bit_iff bit_1_iff by auto
qed

lemma bit_PENDING_MASK: "bit MARGO_PENDING_MASK i \<longleftrightarrow> i < 31"
proof -
  have "MARGO_PENDING_MASK = mask 31" by (simp add: MARGO_PENDING_MASK_def mask_eq_exp_minus_1)
  then have "bit MARGO_PENDING_MASK i \<longleftrightarrow> bit (mask 31 :: u32) i" by metis
  then show ?thesis unfolding bit_mask_iff by auto
qed

lemma bit_pack:
  assumes "n < 2 ^ 31"
  shows "bit (pack n f) i \<longleftrightarrow> (i < 31 \<and> bit n i) \<or> (f \<and> i = 31)"
proof -
  have hi: "\<not> bit n i" if "i \<ge> 31" for i
    using assms that by (metis bit_take_bit_iff not_less take_bit_nat_eq_self)
  have n: "bit (of_nat n :: u32) i \<longleftrightarrow> i < 31 \<and> bit n i" for i
    using hi [of i] by (cases "i < 31") (auto simp: bit_of_nat_iff not_less)
  have "pack n f = of_nat n OR (if f then MARGO_FINALIZE_BIT else 0)"
    unfolding pack_def by (rule disjunctive_add) (auto simp: n bit_FINALIZE_BIT)
  then show ?thesis by (auto simp: bit_or_iff n bit_FINALIZE_BIT)
qed

lemma pack_finalize_bit [simp]:
  assumes "n < 2 ^ 31"
  shows "pack n f AND MARGO_FINALIZE_BIT = (if f then MARGO_FINALIZE_BIT else 0)"
  by (rule bit_eqI) (use assms in \<open>auto simp: bit_and_iff bit_pack bit_FINALIZE_BIT\<close>)

lemma pack_pending [simp]:
  assumes "n < 2 ^ 31"
  shows "pack n f AND MARGO_PENDING_MASK = of_nat n"
proof -
  have "pack n f AND MARGO_PENDING_MASK = pack n False"
    by (rule bit_eqI) (use assms in \<open>auto simp: bit_and_iff bit_pack bit_PENDING_MASK\<close>)
  then show ?thesis by (simp add: pack_def)
qed

lemma pack_or [simp]:
  assumes "n < 2 ^ 31"
  shows "pack n f OR MARGO_FINALIZE_BIT = pack n True"
  by (rule bit_eqI) (use assms in \<open>auto simp: bit_or_iff bit_pack bit_FINALIZE_BIT\<close>)

lemma pack_Suc [simp]: "pack n f + 1 = pack (Suc n) f" "pack (Suc n) f - 1 = pack n f"
  by (simp_all add: pack_def)

lemma FINALIZE_BIT_nonzero [simp]: "MARGO_FINALIZE_BIT \<noteq> 0"
  by (simp add: MARGO_FINALIZE_BIT_def)

lemma of_nat_eq_0_u32 [simp]: "n < 2 ^ 31 \<Longrightarrow> (of_nat n :: u32) = 0 \<longleftrightarrow> n = 0"
  by (simp add: of_nat_eq_0_iff word_of_nat_eq_0_iff nat_dvd_not_less) (use nat_dvd_not_less in fastforce)

section \<open>The counting invariant\<close>

definition cnt :: "('a \<Rightarrow> bool) \<Rightarrow> 'a multiset \<Rightarrow> nat" where
  "cnt P T = size (filter_mset P T)"

lemma cnt_simps [simp]: "cnt P {#} = 0" "cnt P (add_mset p T) = (if P p then Suc (cnt P T) else cnt P T)"
  by (simp_all add: cnt_def)

lemma cnt_le_size: "cnt P T \<le> size T"
  by (induction T) auto

lemma cnt_0_iff: "cnt P T = 0 \<longleftrightarrow> (\<forall>p \<in># T. \<not> P p)"
  by (induction T) auto

text \<open>Operations in flight, threads that tear down, threads that hold the progress loop awake, and
  threads that the last handler leaves behind to finalize.\<close>

fun admitted :: "pc \<Rightarrow> bool" where
  "admitted Spawn = True" | "admitted Ult = True" | "admitted _ = False"

fun tearing :: "pc \<Rightarrow> bool" where
  "tearing (Prefinalize _) = True" | "tearing (Join _) = True" | "tearing (Complete _) = True"
| "tearing (Cleanup _) = True" | "tearing _ = False"

fun awake :: "pc \<Rightarrow> bool" where
  "awake Forward = True" | "awake (Join _) = True" | "awake _ = False"

fun triggering :: "pc \<Rightarrow> bool" where
  "triggering Post = True" | "triggering (Enter _) = True" | "triggering _ = False"

lemma admitted_iff: "admitted p \<longleftrightarrow> p = Spawn \<or> p = Ult"
  by (cases p) auto

lemma triggering_iff: "triggering p \<longleftrightarrow> p = Post \<or> p = Enter True \<or> p = Enter False"
proof (cases p)
  case (Enter w)
  then show ?thesis by (cases w) auto
qed auto

text \<open>\<open>f\<close> is the flag: the word holds it and the number of admitted operations.\<close>

definition handshake :: "margo_instance \<Rightarrow> pc multiset \<Rightarrow> bool \<Rightarrow> bool" where
  "handshake s T f \<longleftrightarrow>
     size T < 2 ^ 31 \<and> shutdown_state s = pack (cnt admitted T) f
     \<and> (teardowns s > 0 \<longrightarrow> f \<and> cnt admitted T = 0)
     \<and> (finalize_flag s \<longrightarrow> teardowns s > 0) \<and> (\<forall>p \<in># T. tearing p \<longrightarrow> teardowns s > 0)"

lemmas section_defs = incr_pending_round_def decr_pending_def PROGRESS_NEEDED_INCR_def PROGRESS_NEEDED_DECR_def
  finalize_enter_def finalize_stop_def finalize_joined_def finalize_complete_def finalize_and_wait_enter_def
  wait_enter_def wait_leave_def cleanup_def after_def

lemma cnt_bounds [simp]:
  "size T < 2147483648 \<Longrightarrow> cnt P T < 2147483648"
  "size T < 2147483647 \<Longrightarrow> cnt P T < 2147483648"
  "size T < 2147483647 \<Longrightarrow> Suc (cnt P T) < 2147483648"
  "size T < 2147483647 \<Longrightarrow> cnt P T < 2147483647"
  using cnt_le_size [of P T] by linarith+

lemma handshake_requested: "handshake s T f \<Longrightarrow> finalize_requested s = f"
  by (simp add: handshake_def finalize_requested_def)

text \<open>A round of the loop admits the operation only if the flag is clear.\<close>

lemma incr_pending_round_pack:
  assumes "shutdown_state s = pack n f" "n < 2 ^ 31" "incr_pending_round spurious cur s = (s', r)"
  shows "(r = Inl True \<and> \<not> f \<and> s' = s\<lparr>shutdown_state := pack (Suc n) f\<rparr>)
    \<or> (r = Inl False \<and> s' = s) \<or> ((\<exists>cur'. r = Inr cur') \<and> s' = s)"
  using assms(2,3) unfolding incr_pending_round_def assms(1) by (auto split: if_splits)

lemma handshake_cas:
  assumes h: "handshake s (add_mset (Handler_Cas cur) T) f" and r: "incr_pending_round spurious cur s = (s', r)"
  shows "handshake s' (case r of Inl True \<Rightarrow> add_mset Spawn T | Inl False \<Rightarrow> T | Inr cur' \<Rightarrow> add_mset (Handler_Cas cur') T) f"
proof -
  have "shutdown_state s = pack (cnt admitted T) f" "cnt admitted T < 2 ^ 31"
    using h by (auto simp: handshake_def)
  from incr_pending_round_pack [OF this r] show ?thesis
    using h by (elim disjE conjE exE) (auto simp: handshake_def)
qed

lemma handshake_step:
  assumes step: "shutdown_step fails (s, T) (s', T')" and h: "handshake s T f"
  shows "\<exists>f'. handshake s' T' f' \<and> (f \<longrightarrow> f')"
  using step
proof (cases rule: shutdown_step.cases)
  case (cas spurious cur r T)
  then show ?thesis using handshake_cas h by blast
next
  case (enter d w T)
  then have "handshake s' T' True"
    using h by (auto simp: handshake_def section_defs Let_def split: if_splits)
  then show ?thesis by blast
next
  case call_finalize_and_wait
  then have "handshake s' T' True" using h by (auto simp: handshake_def section_defs)
  then show ?thesis by blast
qed (use h in \<open>(intro exI [of _ f]; auto simp: handshake_def section_defs Let_def split: if_splits)+\<close>)

lemma handshake_reachable:
  "shutdown_reachable fails c \<Longrightarrow> \<exists>f. handshake (fst c) (snd c) f"
proof (induction rule: shutdown_reachable.induct)
  case (new when_needed)
  then show ?case by (intro exI [of _ False]) (simp add: handshake_def new_instance_def pack_def)
next
  case (step c c')
  then show ?case using handshake_step by (metis prod.collapse)
qed

section \<open>No finalization is lost\<close>

text \<open>When the flag is set, some thread will still tear the instance down or has done so.\<close>

definition served :: "margo_instance \<Rightarrow> pc multiset \<Rightarrow> bool" where
  "served s T \<longleftrightarrow> (finalize_requested s \<longrightarrow> cnt admitted T > 0 \<or> cnt triggering T > 0 \<or> teardowns s > 0)"

lemma served_step:
  assumes step: "shutdown_step False (s, T) (s', T')" and h: "handshake s T f" and v: "served s T"
  shows "served s' T'"
proof -
  obtain f' where h': "handshake s' T' f'" "f \<longrightarrow> f'" using handshake_step [OF step h] by blast
  have v': "f \<longrightarrow> cnt admitted T > 0 \<or> cnt triggering T > 0 \<or> teardowns s > 0"
    using v handshake_requested [OF h] by (simp add: served_def)
  have "f' \<longrightarrow> cnt admitted T' > 0 \<or> cnt triggering T' > 0 \<or> teardowns s' > 0"
    using step
  proof (cases rule: shutdown_step.cases)
    case (cas spurious cur r T)
    have "shutdown_state s = pack (cnt admitted T) f" "cnt admitted T < 2 ^ 31"
      using h cas by (auto simp: handshake_def)
    from incr_pending_round_pack [OF this cas(3)] show ?thesis
      using cas v' h' handshake_requested [OF h] handshake_requested [OF h'(1)]
      by (elim disjE conjE exE) auto
  next
    case (post T)
    then show ?thesis
      using v' handshake_requested [OF h] handshake_requested [OF h'(1)] by (auto split: if_splits)
  next
    case (enter d w T)
    have "shutdown_state s = pack (cnt admitted T) f" "cnt admitted T < 2 ^ 31"
      using h enter by (auto simp: handshake_def)
    then show ?thesis using enter by (auto simp: finalize_enter_def after_def Let_def split: if_splits)
  qed (use v' handshake_requested [OF h] handshake_requested [OF h'(1)] in
      \<open>auto simp: section_defs Let_def finalize_requested_def split: if_splits\<close>)
  then show ?thesis using handshake_requested [OF h'(1)] by (simp add: served_def)
qed

lemma served_reachable: "shutdown_reachable False c \<Longrightarrow> served (fst c) (snd c)"
proof (induction rule: shutdown_reachable.induct)
  case (new when_needed)
  then show ?case by (simp add: served_def new_instance_def finalize_requested_def)
next
  case (step c c')
  obtain f where "handshake (fst c) (snd c) f" using handshake_reachable [OF step.hyps(1)] by blast
  then show ?case
    using served_step [of "fst c" "snd c" "fst c'" "snd c'" f] step.hyps(2) step.IH by simp
qed

section \<open>The progress thread and the joiner\<close>

text \<open>
  The counter of needed progress is the number of threads that need it, and whoever joins the
  progress thread has told it to stop.
\<close>

definition awake_inv :: "margo_instance \<Rightarrow> pc multiset \<Rightarrow> bool" where
  "awake_inv s T \<longleftrightarrow>
     (pwn_flag s \<longrightarrow> pwn_pending s = of_nat (cnt awake T))
     \<and> (\<forall>w. Join w \<in># T \<longrightarrow> hg_progress_shutdown_flag s)"

lemma awake_step: "shutdown_step fails c c' \<Longrightarrow> awake_inv (fst c) (snd c) \<Longrightarrow> awake_inv (fst c') (snd c')"
proof (induction rule: shutdown_step.induct)
  case (cas spurious cur s s' r T)
  then show ?case by (auto simp: awake_inv_def incr_pending_round_def split: if_splits)
qed (auto simp: awake_inv_def section_defs Let_def split: if_splits)

lemma awake_reachable: "shutdown_reachable fails c \<Longrightarrow> awake_inv (fst c) (snd c)"
proof (induction rule: shutdown_reachable.induct)
  case (new when_needed)
  then show ?case by (simp add: awake_inv_def new_instance_def)
qed (rule awake_step)

section \<open>The end of an instance\<close>

fun waiter :: "pc \<Rightarrow> bool" where
  "waiter (Enter w) = w" | "waiter (Prefinalize w) = w" | "waiter (Join w) = w" | "waiter (Complete w) = w"
| "waiter (Cleanup w) = w" | "waiter Waiting = True" | "waiter _ = False"

fun early :: "pc \<Rightarrow> bool" where
  "early (Prefinalize _) = True" | "early (Join _) = True" | "early _ = False"

fun late :: "pc \<Rightarrow> bool" where
  "late (Complete _) = True" | "late _ = False"

fun cleaning :: "pc \<Rightarrow> bool" where
  "cleaning (Cleanup _) = True" | "cleaning _ = False"

definition waiters_inv :: "margo_instance \<Rightarrow> pc multiset \<Rightarrow> bool" where
  "waiters_inv s T \<longleftrightarrow> finalize_refcount s = int (cnt waiter T)"

lemma waiters_step: "shutdown_step fails c c' \<Longrightarrow> waiters_inv (fst c) (snd c) \<Longrightarrow> waiters_inv (fst c') (snd c')"
  by (induction rule: shutdown_step.induct)
    (auto simp: waiters_inv_def section_defs Let_def split: if_splits)

lemma waiters_reachable: "shutdown_reachable fails c \<Longrightarrow> waiters_inv (fst c) (snd c)"
proof (induction rule: shutdown_reachable.induct)
  case (new when_needed)
  then show ?case by (simp add: waiters_inv_def new_instance_def)
qed (rule waiters_step)

text \<open>Before and after the critical section at the end of the only teardown.\<close>

definition before_end :: "margo_instance \<Rightarrow> pc multiset \<Rightarrow> bool" where
  "before_end s T \<longleftrightarrow>
     \<not> finalize_flag s \<and> cleanups s = 0 \<and> cnt cleaning T = 0 \<and> cnt early T + cnt late T = teardowns s
     \<and> refcount s = (if cnt late T = 0 then 1 else 0)"

definition after_end :: "margo_instance \<Rightarrow> pc multiset \<Rightarrow> bool" where
  "after_end s T \<longleftrightarrow>
     finalize_flag s \<and> cnt early T = 0 \<and> cnt late T = 0 \<and> refcount s = 0 \<and> teardowns s = 1
     \<and> cleanups s + cnt cleaning T = (if cnt waiter T = 0 then 1 else 0)"

definition end_inv :: "margo_instance \<Rightarrow> pc multiset \<Rightarrow> bool" where
  "end_inv s T \<longleftrightarrow> (teardowns s \<le> 1 \<longrightarrow> before_end s T \<or> after_end s T)"

lemma teardowns_mono: "shutdown_step fails c c' \<Longrightarrow> teardowns (fst c) \<le> teardowns (fst c')"
  by (induction rule: shutdown_step.induct) (auto simp: section_defs Let_def split: if_splits)

lemma before_step:
  "shutdown_step fails c c' \<Longrightarrow> before_end (fst c) (snd c) \<Longrightarrow> waiters_inv (fst c) (snd c) \<Longrightarrow> teardowns (fst c') \<le> 1 \<Longrightarrow>
   before_end (fst c') (snd c') \<or> after_end (fst c') (snd c')"
proof (induction rule: shutdown_step.induct)
  case (cas spurious cur s s' r T)
  then show ?case by (auto simp: before_end_def incr_pending_round_def split: if_splits)
next
  case (complete s s' c w T)
  then show ?case
    by (auto simp: before_end_def after_end_def waiters_inv_def finalize_complete_def Let_def after_def split: if_splits)
qed (auto simp: before_end_def section_defs Let_def split: if_splits)

lemma after_step:
  "shutdown_step fails c c' \<Longrightarrow> after_end (fst c) (snd c) \<Longrightarrow> waiters_inv (fst c) (snd c) \<Longrightarrow> teardowns (fst c') \<le> 1 \<Longrightarrow>
   after_end (fst c') (snd c')"
proof (induction rule: shutdown_step.induct)
  case (cas spurious cur s s' r T)
  then show ?case by (auto simp: after_end_def incr_pending_round_def split: if_splits)
next
  case (wait_ends s s' c T)
  then show ?case
    by (auto simp: after_end_def waiters_inv_def wait_leave_def Let_def split: if_splits)
qed (auto simp: after_end_def section_defs Let_def split: if_splits)

lemma end_reachable: "shutdown_reachable fails c \<Longrightarrow> end_inv (fst c) (snd c)"
proof (induction rule: shutdown_reachable.induct)
  case (new when_needed)
  then show ?case by (simp add: end_inv_def before_end_def new_instance_def)
next
  case (step c c')
  then show ?case
    using before_step after_step waiters_reachable teardowns_mono
    unfolding end_inv_def by (meson order_trans)
qed

section \<open>Properties\<close>

text \<open>
  C1: the shutdown handshake. In every state that any interleaving of RPC handlers, finalizers and
  waiters reaches, the low bits of the word count exactly the operations that were admitted and
  have not ended, so the subtraction never borrows from the flag; and once any call of
  \<open>margo_finalize\<close> found nothing pending, no operation is in flight any more (nor is a new one
  ever admitted), although handlers may still be inside their compare-and-swap loop.
\<close>

theorem teardown_excludes_operations:
  assumes "shutdown_reachable fails (s, T)"
  shows "shutdown_state s AND MARGO_PENDING_MASK = of_nat (cnt admitted T) \<and> cnt admitted T < 2 ^ 31
    \<and> (teardowns s > 0 \<or> (\<exists>p \<in># T. tearing p) \<longrightarrow> Spawn \<notin># T \<and> Ult \<notin># T \<and> finalize_requested s)"
proof -
  obtain f where h: "handshake s T f" using handshake_reachable [OF assms] by auto
  have "Spawn \<notin># T \<and> Ult \<notin># T" if "cnt admitted T = 0"
    using that by (auto simp: cnt_0_iff)
  then show ?thesis using h handshake_requested [OF h] by (auto simp: handshake_def)
qed

text \<open>An instance whose program called \<^verbatim>\<open>margo_finalize\<close> with nothing pending.\<close>

lemma reachable_prefinalize:
  "shutdown_reachable False ((new_instance False)\<lparr>calls := 1, shutdown_state := MARGO_FINALIZE_BIT, teardowns := 1\<rparr>,
     {#Prefinalize False#})"
proof -
  let ?s = "(new_instance False)\<lparr>calls := 1\<rparr>"
  have "shutdown_reachable False (new_instance False, {#})" by (rule shutdown_reachable.new)
  then have "shutdown_reachable False (?s, {#Enter False#})"
    by (rule shutdown_reachable.step)
      (use shutdown_step.call_finalize [of "{#}" False "new_instance False"] in \<open>simp add: new_instance_def\<close>)
  moreover have "finalize_enter ?s = (?s\<lparr>shutdown_state := MARGO_FINALIZE_BIT, teardowns := 1\<rparr>, False)"
    by (simp add: finalize_enter_def new_instance_def)
  from shutdown_step.enter [OF this, of False False "{#}"]
  have "shutdown_step False (?s, {#Enter False#})
      (?s\<lparr>shutdown_state := MARGO_FINALIZE_BIT, teardowns := 1\<rparr>, {#Prefinalize False#})" by simp
  ultimately show ?thesis by (rule shutdown_reachable.step)
qed

theorem teardown_excludes_operations_witness:
  "Spawn \<notin># {#Prefinalize False#} \<and> Ult \<notin># {#Prefinalize False#}
   \<and> (\<exists>p \<in># {#Prefinalize False#}. tearing p)"
  using teardown_excludes_operations [OF reachable_prefinalize] by simp

text \<open>
  C7: no finalization is lost. If creating ULTs does not fail, then in every reachable state in
  which finalization was requested and in which no operation is in flight, none is between its
  decrement and its test of the flag, and none is about to enter \<open>margo_finalize\<close>, some call has
  torn the instance down or is doing it. A deferred finalization is thus always taken up again by
  the last operation that ends.
\<close>

theorem deferred_finalize_is_served:
  assumes "shutdown_reachable False (s, T)" "finalize_requested s"
    and "Spawn \<notin># T" "Ult \<notin># T" "Post \<notin># T" "Enter True \<notin># T" "Enter False \<notin># T"
  shows "teardowns s > 0"
proof -
  have "cnt admitted T = 0" "cnt triggering T = 0"
    using assms(3-) unfolding cnt_0_iff admitted_iff triggering_iff by blast+
  then show ?thesis using served_reachable [OF assms(1)] assms(2) by (simp add: served_def)
qed

theorem deferred_finalize_is_served_witness:
  "teardowns ((new_instance False)\<lparr>calls := 1, shutdown_state := MARGO_FINALIZE_BIT, teardowns := 1\<rparr>) > 0"
  using deferred_finalize_is_served [OF reachable_prefinalize] by (simp add: finalize_requested_def)


text \<open>The same run, one step later.\<close>

lemma reachable_join:
  "shutdown_reachable False (finalize_stop ((new_instance False)\<lparr>calls := 1, shutdown_state := MARGO_FINALIZE_BIT,
     teardowns := 1\<rparr>), {#Join False#})"
  using shutdown_reachable.step [OF reachable_prefinalize] shutdown_step.prefinalized [of False _ False "{#}"] by blast




text \<open>A state with one admitted operation, and nothing else.\<close>

abbreviation one_pending :: margo_instance where
  "one_pending \<equiv> (new_instance False)\<lparr>shutdown_state := 1\<rparr>"

lemma reachable_spawn: "shutdown_reachable fails (one_pending, {#Spawn#})"
proof -
  let ?s = "new_instance False"
  have "shutdown_reachable fails (?s, {#Handler#})"
    using shutdown_reachable.step [OF shutdown_reachable.new] shutdown_step.arrive [of "{#}" fails ?s] by simp
  then have "shutdown_reachable fails (?s, {#Handler_Cas 0#})"
    using shutdown_reachable.step shutdown_step.load [of fails ?s "{#}"] by (auto simp: new_instance_def)
  moreover have "incr_pending_round False 0 ?s = (one_pending, Inl True)"
    by (simp add: incr_pending_round_def new_instance_def)
  from shutdown_step.cas [OF this, of fails "{#}"]
  have "shutdown_step fails (?s, {#Handler_Cas 0#}) (one_pending, {#Spawn#})" by simp
  ultimately show ?thesis by (rule shutdown_reachable.step)
qed

text \<open>
  The decrement of an ending RPC and its test of the flag are two atomic operations, not one.
  With a single call of \<open>margo_finalize\<close> by the program and a single RPC, both the program's call
  and the one that the ending RPC makes can find nothing pending, and then two threads run the
  teardown (and join and free the progress thread) at the same time.
\<close>

theorem two_teardowns_reachable:
  "\<exists>s. shutdown_reachable False (s, {#Prefinalize False, Prefinalize False#}) \<and> calls s = 1 \<and> teardowns s = 2"
proof -
  let ?s = "new_instance False"
  let ?s1 = "?s\<lparr>calls := 1\<rparr>"
  let ?s2 = "?s1\<lparr>shutdown_state := MARGO_FINALIZE_BIT, teardowns := 1\<rparr>"
  let ?s3 = "?s2\<lparr>teardowns := 2\<rparr>"
  have "shutdown_reachable False (one_pending, {#Ult#})"
    using shutdown_reachable.step [OF reachable_spawn] shutdown_step.spawn [of False one_pending "{#}"] by simp
  moreover have "decr_pending one_pending = ?s" by (simp add: decr_pending_def new_instance_def)
  ultimately have "shutdown_reachable False (?s, {#Post#})"
    using shutdown_reachable.step shutdown_step.ult_ends [of False one_pending "{#}"] by simp
  then have "shutdown_reachable False (?s1, {#Enter False, Post#})"
    using shutdown_reachable.step shutdown_step.call_finalize [of "{#Post#}" False ?s] by (simp add: new_instance_def)
  moreover have "finalize_enter ?s1 = (?s2, False)" by (simp add: finalize_enter_def new_instance_def)
  from shutdown_step.enter [OF this, of False False "{#Post#}"]
  have "shutdown_step False (?s1, {#Enter False, Post#}) (?s2, {#Post, Prefinalize False#})" by (simp add: add_mset_commute)
  ultimately have "shutdown_reachable False (?s2, {#Post, Prefinalize False#})" by (rule shutdown_reachable.step)
  moreover have "finalize_requested ?s2" by (simp add: finalize_requested_def)
  ultimately have "shutdown_reachable False (?s2, {#Enter False, Prefinalize False#})"
    using shutdown_reachable.step shutdown_step.post [of False ?s2 "{#Prefinalize False#}"] by simp
  moreover have "MARGO_FINALIZE_BIT AND MARGO_PENDING_MASK = 0"
    using pack_pending [of 0 True] by (simp add: pack_def)
  then have "finalize_enter ?s2 = (?s3, False)" by (simp add: finalize_enter_def new_instance_def)
  from shutdown_step.enter [OF this, of False False "{#Prefinalize False#}"]
  have "shutdown_step False (?s2, {#Enter False, Prefinalize False#}) (?s3, {#Prefinalize False, Prefinalize False#})" by simp
  ultimately have "shutdown_reachable False (?s3, {#Prefinalize False, Prefinalize False#})" by (rule shutdown_reachable.step)
  then show ?thesis by (intro exI [of _ ?s3]) simp
qed

text \<open>
  The error path of the RPC handler for a failed creation of the ULT decrements the count but,
  unlike the end of a handler, does not look at the flag. A finalization that was deferred because
  of this operation is then lost: finalization is requested, nothing is pending, no thread is left,
  and nobody tore the instance down.
\<close>

theorem failed_ult_loses_finalize:
  "\<exists>s. shutdown_reachable True (s, {#}) \<and> finalize_requested s \<and> calls s = 1 \<and> teardowns s = 0
     \<and> shutdown_state s AND MARGO_PENDING_MASK = 0"
proof -
  let ?s1 = "one_pending\<lparr>calls := 1\<rparr>"
  let ?s2 = "?s1\<lparr>shutdown_state := pack 1 True\<rparr>"
  let ?s3 = "?s2\<lparr>shutdown_state := pack 0 True\<rparr>"
  have p: "pack 1 False = 1" by (simp add: pack_def)
  have "shutdown_reachable True (?s1, {#Enter False, Spawn#})"
    using shutdown_reachable.step [OF reachable_spawn] shutdown_step.call_finalize [of "{#Spawn#}" True one_pending]
    by (simp add: new_instance_def)
  moreover have "finalize_enter ?s1 = (?s2, True)"
    using pack_pending [of 1 False] pack_or [of 1 False] unfolding p finalize_enter_def Let_def
    by (simp add: new_instance_def)
  from shutdown_step.enter [OF this, of True False "{#Spawn#}"]
  have "shutdown_step True (?s1, {#Enter False, Spawn#}) (?s2, {#Spawn#})" by (simp add: after_def)
  ultimately have "shutdown_reachable True (?s2, {#Spawn#})" by (rule shutdown_reachable.step)
  moreover have "decr_pending ?s2 = ?s3"
    using pack_Suc(2) [of 0 True] by (simp add: decr_pending_def)
  ultimately have "shutdown_reachable True (?s3, {#})"
    using shutdown_reachable.step shutdown_step.spawn_fails [of True ?s2 "{#}"] by simp
  moreover have "finalize_requested ?s3" by (simp add: finalize_requested_def)
  ultimately show ?thesis by (intro exI [of _ ?s3]) (simp add: new_instance_def)
qed

end
