(* ===== verification/Progress.thy ===== *)
theory Progress
  imports Timer
begin

text \<open>
  The progress loop of \<^verbatim>\<open>src/margo-core.c\<close>: one iteration of \<^verbatim>\<open>__margo_hg_progress_fn\<close> triggers the
  completed operations, decides between spinning and blocking, computes how long Mercury may
  block, and fires the expired timers. The clock, Mercury and the size of the pool are arguments.
  Times are real numbers (the code has \<^verbatim>\<open>double\<close>s).
\<close>

section \<open>State\<close>

text \<open>The fields of the instance and the local variables of the loop.\<close>

record progress_state =
  hg_progress_timeout_ub :: u32
  hg_progress_spindown_msec :: u32
  num_progress_calls :: u64
  num_trigger_calls :: u64
  spin_flag :: bool
  spin_start_ts :: real

section \<open>The body of the loop\<close>

text \<open>
  The inner loop of \<^verbatim>\<open>HG_Trigger\<close> calls: each call returns a code and a count, and is followed by a
  read of the shutdown flag. The list holds what the calls observe, one entry per call that the
  loop makes; the result is the state and the observations that are left.
\<close>

fun trigger_loop :: "(hg_return \<times> nat \<times> bool) list \<Rightarrow> progress_state \<Rightarrow> progress_state" where
  "trigger_loop [] s = s"
| "trigger_loop ((ret, actual_count, shutdown) # obs) s =
    (let s = s\<lparr>num_trigger_calls := num_trigger_calls s + 1\<rparr>
     in if ret = HG_SUCCESS \<and> actual_count \<noteq> 0 \<and> \<not> shutdown then trigger_loop obs s else s)"

text \<open>Whether the spindown window that started at \<open>spin_start_ts\<close> has elapsed.\<close>

definition spindown :: "real \<Rightarrow> progress_state \<Rightarrow> progress_state" where
  "spindown now s =
    (if spin_flag s
     then if (now - spin_start_ts s) * 1000 < real (unat (hg_progress_spindown_msec s)) then s\<lparr>spin_flag := True\<rparr>
          else s\<lparr>spin_flag := False, spin_start_ts := 0\<rparr>
     else s)"

text \<open>
  The decision to spin: \<open>pending\<close> is the number of RPCs being processed and \<open>pool_size\<close> the number of
  ULTs of the progress pool, this one included.
\<close>

definition spin_decision :: "u32 \<Rightarrow> nat \<Rightarrow> real \<Rightarrow> progress_state \<Rightarrow> progress_state" where
  "spin_decision pending pool_size now s =
    (if hg_progress_spindown_msec s \<noteq> 0 \<and> \<not> spin_flag s
     then if pending \<noteq> 0 \<or> pool_size > 1 then s\<lparr>spin_flag := True, spin_start_ts := now\<rparr>
          else s\<lparr>spin_flag := False, spin_start_ts := 0\<rparr>
     else s)"

text \<open>How long Mercury may block, in milliseconds; \<open>next_exp\<close> is the result for the next timer.\<close>

definition progress_timeout :: "int \<times> real option \<Rightarrow> progress_state \<Rightarrow> u32" where
  "progress_timeout next_exp s =
    (if spin_flag s then 0
     else
       (case next_exp of
          (ret, Some e) \<Rightarrow>
            if ret = 0
            then if e \<ge> 0
                 then if e * 1000 < real (unat (hg_progress_timeout_ub s)) then word_of_int \<lfloor>e * 1000\<rfloor>
                      else hg_progress_timeout_ub s
                 else 0
            else hg_progress_timeout_ub s
        | (_, None) \<Rightarrow> hg_progress_timeout_ub s))"

text \<open>What one iteration reads from its surroundings.\<close>

record progress_env =
  pe_triggers :: "(hg_return \<times> nat \<times> bool) list"
  pe_now_spindown :: real
  pe_pending :: u32
  pe_pool_size :: nat
  pe_now_spin :: real
  pe_now_expiration :: real
  pe_progress_ret :: hg_return
  pe_now_timers :: real

text \<open>
  One iteration. The result is the timeout that was passed to \<^verbatim>\<open>HG_Progress\<close> and the new states, or
  \<^const>\<open>None\<close> when the code asserts (an unexpected result of \<^verbatim>\<open>HG_Progress\<close>) or the timers fail.
\<close>

definition progress_iteration ::
  "progress_env \<Rightarrow> progress_state \<times> timers \<Rightarrow> (u32 \<times> progress_state \<times> timers) option" where
  "progress_iteration e st =
    (let (s, t) = st;
         s = trigger_loop (pe_triggers e) s;
         s = spindown (pe_now_spindown e) s;
         s = spin_decision (pe_pending e) (pe_pool_size e) (pe_now_spin e) s;
         timeout = progress_timeout (timer_get_next_expiration (pe_now_expiration e) t) s;
         s = s\<lparr>num_progress_calls := num_progress_calls s + 1\<rparr>
     in if pe_progress_ret e \<noteq> HG_SUCCESS \<and> pe_progress_ret e \<noteq> HG_TIMEOUT then None
        else do {
          t \<leftarrow> margo_check_timers (pe_now_timers e) t;
          Some (timeout, s, t)
        })"

section \<open>Parameters\<close>

definition margo_set_progress_timeout_ub_msec :: "progress_state option \<Rightarrow> u32 \<Rightarrow> progress_state option \<times> int" where
  "margo_set_progress_timeout_ub_msec mid timeout =
    (case mid of None \<Rightarrow> (None, -1) | Some s \<Rightarrow> (Some (s\<lparr>hg_progress_timeout_ub := timeout\<rparr>), 0))"

definition margo_get_progress_timeout_ub_msec :: "progress_state option \<Rightarrow> int \<times> u32 option" where
  "margo_get_progress_timeout_ub_msec mid =
    (case mid of None \<Rightarrow> (-1, None) | Some s \<Rightarrow> (0, Some (hg_progress_timeout_ub s)))"

definition margo_get_num_progress_calls :: "progress_state option \<Rightarrow> u64" where
  "margo_get_num_progress_calls mid = (case mid of None \<Rightarrow> 0 | Some s \<Rightarrow> num_progress_calls s)"

definition margo_get_num_trigger_calls :: "progress_state option \<Rightarrow> u64" where
  "margo_get_num_trigger_calls mid = (case mid of None \<Rightarrow> 0 | Some s \<Rightarrow> num_trigger_calls s)"

text \<open>\<^verbatim>\<open>atoi\<close>: white space, an optional sign, digits (for values that an \<^verbatim>\<open>int\<close> holds).\<close>

definition is_digit :: "char \<Rightarrow> bool" where
  "is_digit c \<longleftrightarrow> 48 \<le> (of_char c :: nat) \<and> (of_char c :: nat) \<le> 57"

fun digits :: "int \<Rightarrow> string \<Rightarrow> int" where
  "digits acc [] = acc"
| "digits acc (c # cs) = (if is_digit c then digits (acc * 10 + (of_char c - 48)) cs else acc)"

definition is_space :: "char \<Rightarrow> bool" where
  "is_space c \<longleftrightarrow> c = CHR '' '' \<or> (9 \<le> (of_char c :: nat) \<and> (of_char c :: nat) \<le> 13)"

definition atoi :: "string \<Rightarrow> int" where
  "atoi str =
    (case dropWhile is_space str of
       CHR ''-'' # cs \<Rightarrow> - digits 0 cs
     | CHR ''+'' # cs \<Rightarrow> digits 0 cs
     | cs \<Rightarrow> digits 0 cs)"

definition margo_set_param :: "progress_state \<Rightarrow> string \<Rightarrow> string \<Rightarrow> progress_state \<times> int" where
  "margo_set_param s key val =
    (if key = ''progress_timeout_ub_msecs''
     then (s\<lparr>hg_progress_timeout_ub := word_of_int (atoi val)\<rparr>, 0)
     else (s, -1))"

section \<open>Properties\<close>

lemma next_expiration_head:
  assumes "timer_inv t xs"
  shows "timer_get_next_expiration now t =
    (case xs of [] \<Rightarrow> (-1, None) | x # _ \<Rightarrow> (0, Some (expiration t x - now)))"
  using tq_head [OF timer_invD(1) [OF assms]] by (auto simp: timer_get_next_expiration_def split: list.splits)

lemma unat_floor:
  fixes e :: real
  assumes "0 \<le> e" "e < real (unat (w :: u32))"
  shows "real (unat (word_of_int \<lfloor>e\<rfloor> :: u32)) = real_of_int \<lfloor>e\<rfloor>"
proof -
  have "\<lfloor>e\<rfloor> < int (unat w)" using assms(2) by (simp add: floor_less_iff)
  moreover have "int (unat w) < 2 ^ 32" using unsigned_less [of w, where 'a = int] by simp
  ultimately have "\<lfloor>e\<rfloor> < 2 ^ 32" by linarith
  then have "int (unat (word_of_int \<lfloor>e\<rfloor> :: u32)) = \<lfloor>e\<rfloor>"
    using assms(1) by (simp add: unat_eq_nat_uint uint_word_of_int)
  then show ?thesis by (metis of_int_of_nat_eq)
qed

text \<open>The timeout when the loop does not spin, against the remaining time of the first timer.\<close>

lemma progress_timeout_first:
  fixes e :: real
  assumes "\<not> spin_flag s"
  defines "t \<equiv> real (unat (progress_timeout (0, Some e) s))" and "ub \<equiv> real (unat (hg_progress_timeout_ub s))"
  shows "t \<le> ub" "0 \<le> e \<Longrightarrow> t \<le> e * 1000" "e < 0 \<Longrightarrow> t = 0" "min (e * 1000) ub - 1 < t \<or> e < 0"
proof -
  consider "e < 0" | "0 \<le> e" "e * 1000 < ub" | "0 \<le> e" "ub \<le> e * 1000" by linarith
  then have "t \<le> ub \<and> (0 \<le> e \<longrightarrow> t \<le> e * 1000) \<and> (e < 0 \<longrightarrow> t = 0) \<and> (min (e * 1000) ub - 1 < t \<or> e < 0)"
  proof cases
    case 2
    then have "t = real_of_int \<lfloor>e * 1000\<rfloor>"
      using assms(1) unat_floor [of "e * 1000" "hg_progress_timeout_ub s"] by (simp add: t_def ub_def progress_timeout_def)
    then show ?thesis using 2 by linarith
  qed (use assms(1) in \<open>auto simp: t_def ub_def progress_timeout_def simp del: of_nat_unat\<close>)
  then show "t \<le> ub" "0 \<le> e \<Longrightarrow> t \<le> e * 1000" "e < 0 \<Longrightarrow> t = 0" "min (e * 1000) ub - 1 < t \<or> e < 0" by auto
qed

text \<open>The policy part of an iteration: the flag is decided anew unless the window is still open.\<close>

definition policy :: "progress_env \<Rightarrow> progress_state \<Rightarrow> progress_state" where
  "policy e s = spin_decision (pe_pending e) (pe_pool_size e) (pe_now_spin e)
     (spindown (pe_now_spindown e) (trigger_loop (pe_triggers e) s))"

lemma trigger_loop_fields [simp]:
  "spin_flag (trigger_loop obs s) = spin_flag s" "spin_start_ts (trigger_loop obs s) = spin_start_ts s"
  "hg_progress_timeout_ub (trigger_loop obs s) = hg_progress_timeout_ub s"
  "hg_progress_spindown_msec (trigger_loop obs s) = hg_progress_spindown_msec s"
  by (induction obs s rule: trigger_loop.induct) (auto simp: Let_def)

lemma policy_fields:
  "hg_progress_timeout_ub (policy e s) = hg_progress_timeout_ub s"
  "spin_flag (policy e s) \<longleftrightarrow>
     (spin_flag s \<and> (pe_now_spindown e - spin_start_ts s) * 1000 < real (unat (hg_progress_spindown_msec s)))
     \<or> (hg_progress_spindown_msec s \<noteq> 0 \<and> (pe_pending e \<noteq> 0 \<or> pe_pool_size e > 1))"
  by (auto simp: policy_def spin_decision_def spindown_def)

lemma progress_iteration_result:
  "progress_iteration e (s, t) =
    (if pe_progress_ret e \<noteq> HG_SUCCESS \<and> pe_progress_ret e \<noteq> HG_TIMEOUT then None
     else map_option
       (\<lambda>t'. (progress_timeout (timer_get_next_expiration (pe_now_expiration e) t) (policy e s),
              (policy e s)\<lparr>num_progress_calls := num_progress_calls (policy e s) + 1\<rparr>, t'))
       (margo_check_timers (pe_now_timers e) t))"
  by (auto simp: progress_iteration_def policy_def Let_def map_option_case split: option.splits)

lemma progress_timeout_cases:
  fixes now :: real and s :: progress_state
  assumes i: "timer_inv t xs"
  defines "timeout \<equiv> real (unat (progress_timeout (timer_get_next_expiration now t) s))"
  shows "timeout \<le> real (unat (hg_progress_timeout_ub s))"
    and "x \<in> set xs \<Longrightarrow> timeout \<le> max 0 ((expiration t x - now) * 1000)"
    and "\<not> spin_flag s \<Longrightarrow>
      (\<exists>x \<in> set xs. (expiration t x - now) * 1000 - 1 < timeout) \<or> timeout = real (unat (hg_progress_timeout_ub s))"
proof -
  have "timeout \<le> real (unat (hg_progress_timeout_ub s))
    \<and> (x \<in> set xs \<longrightarrow> timeout \<le> max 0 ((expiration t x - now) * 1000))
    \<and> (\<not> spin_flag s \<longrightarrow>
        (\<exists>x \<in> set xs. (expiration t x - now) * 1000 - 1 < timeout) \<or> timeout = real (unat (hg_progress_timeout_ub s)))"
  proof (cases "spin_flag s")
    case True
    then show ?thesis by (simp add: timeout_def progress_timeout_def del: of_nat_unat)
  next
    case False
    show ?thesis
    proof (cases xs)
      case Nil
      then show ?thesis using False next_expiration_head [OF i, of now] by (simp add: timeout_def progress_timeout_def)
    next
      case (Cons y ys)
      define e where "e = expiration t y - now"
      have t: "timeout = real (unat (progress_timeout (0, Some e) s))"
        using Cons next_expiration_head [OF i, of now] by (simp add: timeout_def e_def)
      note f = progress_timeout_first [OF False, of e, folded t]
      have "e \<le> expiration t x - now" if "x \<in> set xs"
        using timer_invD(2) [OF i] that Cons by (auto simp: e_def)
      moreover have "e * 1000 - 1 < timeout \<or> timeout = real (unat (hg_progress_timeout_ub s))"
        using f False t by (cases "e * 1000 < real (unat (hg_progress_timeout_ub s))")
          (auto simp: progress_timeout_def split: if_splits)
      ultimately show ?thesis using f Cons by (force simp: e_def)
    qed
  qed
  then show "timeout \<le> real (unat (hg_progress_timeout_ub s))"
    "x \<in> set xs \<Longrightarrow> timeout \<le> max 0 ((expiration t x - now) * 1000)"
    "\<not> spin_flag s \<Longrightarrow>
      (\<exists>x \<in> set xs. (expiration t x - now) * 1000 - 1 < timeout) \<or> timeout = real (unat (hg_progress_timeout_ub s))"
    by auto
qed

text \<open>
  C28: the progress loop never oversleeps a timer, and never wakes up more than a millisecond
  early without need. For every iteration that starts from consistent timers (the list is alive and
  Mercury returns success or a timeout) the iteration completes; the timeout it passes to Mercury
  is at most the configured upper bound and at most the time left to every queued timer (zero if
  the timer expired); and if the loop is not in spin mode, the timeout is the upper bound or less
  than a millisecond short of the expiration of some timer. The loop passes zero whenever spinning
  is enabled and an RPC is pending or another ULT shares the pool.
\<close>

theorem progress_timeout_sound:
  assumes "timer_inv t xs" "list_live t" "pe_progress_ret e = HG_SUCCESS \<or> pe_progress_ret e = HG_TIMEOUT"
  shows "\<exists>timeout s' t'. progress_iteration e (s, t) = Some (timeout, s', t')
    \<and> timeout \<le> hg_progress_timeout_ub s
    \<and> (\<forall>x \<in> set xs. real (unat timeout) \<le> max 0 ((expiration t x - pe_now_expiration e) * 1000))
    \<and> (\<not> spin_flag s' \<longrightarrow> timeout = hg_progress_timeout_ub s
        \<or> (\<exists>x \<in> set xs. (expiration t x - pe_now_expiration e) * 1000 - 1 < real (unat timeout)))
    \<and> (hg_progress_spindown_msec s \<noteq> 0 \<and> (pe_pending e \<noteq> 0 \<or> pe_pool_size e > 1) \<longrightarrow> timeout = 0)"
proof -
  define timeout where "timeout = progress_timeout (timer_get_next_expiration (pe_now_expiration e) t) (policy e s)"
  obtain t' where t': "margo_check_timers (pe_now_timers e) t = Some t'"
    using check_timers_loop_fires [OF assms(1), of "pe_now_timers e"] assms(2)
    by (auto simp: margo_check_timers_def)
  let ?s = "(policy e s)\<lparr>num_progress_calls := num_progress_calls (policy e s) + 1\<rparr>"
  have r: "progress_iteration e (s, t) = Some (timeout, ?s, t')"
    using assms(3) t' by (auto simp: progress_iteration_result timeout_def)
  note c = progress_timeout_cases [OF assms(1), where now = "pe_now_expiration e" and s = "policy e s",
      folded timeout_def, unfolded policy_fields(1)]
  have le: "timeout \<le> hg_progress_timeout_ub s"
    using c(1) by (simp add: word_le_nat_alt del: of_nat_unat)
  have eq: "timeout = hg_progress_timeout_ub s" if "real (unat timeout) = real (unat (hg_progress_timeout_ub s))"
    using that by (simp add: word_unat_eq_iff del: of_nat_unat)
  have "timeout = 0" if "hg_progress_spindown_msec s \<noteq> 0 \<and> (pe_pending e \<noteq> 0 \<or> pe_pool_size e > 1)"
    using that policy_fields(2) [of e s] by (auto simp: timeout_def progress_timeout_def)
  then show ?thesis using r le eq c(2,3) by (intro exI [of _ timeout] exI [of _ ?s] exI [of _ t']) auto
qed

definition example_progress :: progress_state where
  "example_progress = \<lparr>hg_progress_timeout_ub = 100, hg_progress_spindown_msec = 10, num_progress_calls = 0,
     num_trigger_calls = 0, spin_flag = False, spin_start_ts = 0\<rparr>"

definition example_progress_env :: progress_env where
  "example_progress_env = \<lparr>pe_triggers = [(HG_TIMEOUT, 0, False)], pe_now_spindown = 0, pe_pending = 0, pe_pool_size = 1,
     pe_now_spin = 0, pe_now_expiration = 0, pe_progress_ret = HG_TIMEOUT, pe_now_timers = 0\<rparr>"

theorem progress_timeout_sound_witness:
  "\<exists>timeout s' t'. progress_iteration example_progress_env (example_progress, example_started) = Some (timeout, s', t')
     \<and> timeout \<le> 100"
proof -
  have "timer_inv example_started [2]" using example_started(2) by (simp add: timer_ok_def)
  moreover have "list_live example_started"
    by (simp add: example_started_def margo_timer_start_def margo_timer_queue_def DL_APPEND_def example_timers_def)
  ultimately show ?thesis
    using progress_timeout_sound [of example_started "[2]" example_progress_env example_progress]
    by (auto simp: example_progress_env_def example_progress_def)
qed

end
