(* ===== verification/Requests.thy ===== *)
theory Requests
  imports Handle_Cache Rpc_Id
begin

text \<open>
  Requests (\<^verbatim>\<open>struct margo_request_struct\<close>) and the operations of \<^verbatim>\<open>src/margo-core.c\<close> that start,
  complete and await them: forwarding an RPC, responding to one and transferring bulk data, each
  in a blocking, a non-blocking and a callback form. Mercury, the timers and the request arena are
  seen through what their calls return; the state records the resources a request holds.
\<close>

section \<open>Requests\<close>

datatype request_type =
  MARGO_RESPONSE_REQUEST | MARGO_FORWARD_REQUEST | MARGO_BULK_REQUEST | MARGO_INVALID_REQUEST

datatype request_kind = MARGO_REQ_EVENTUAL | MARGO_REQ_CALLBACK

text \<open>An eventual does not exist (or was freed), was created, or was set.\<close>

datatype eventual = Ev_None | Ev_Created | Ev_Set

record request =
  rq_timer :: ptr
  rq_mid :: ptr
  rq_handle :: ptr
  rq_monitor_data :: ptr
  rq_type :: request_type
  rq_kind :: request_kind
  rq_ev :: eventual
  rq_hret :: hg_return
  rq_cb :: ptr
  rq_uargs :: ptr

text \<open>A request that \<^verbatim>\<open>{0}\<close> or \<^verbatim>\<open>memset\<close> initialized; the zero of the type is none of its values.\<close>

definition zero_request :: request where
  "zero_request = \<lparr>rq_timer = None, rq_mid = None, rq_handle = None, rq_monitor_data = None,
     rq_type = MARGO_INVALID_REQUEST, rq_kind = MARGO_REQ_EVENTUAL, rq_ev = Ev_None,
     rq_hret = HG_SUCCESS, rq_cb = None, rq_uargs = None\<rparr>"

text \<open>
  The requests, the timers that were created and not destroyed, how often progress was made
  needed more than it was released, the objects that are out of the request arena, the completion
  callbacks that ran, the ids registered with Mercury, and the id each handle was reset to.
\<close>

record requests =
  req :: "addr \<Rightarrow> request"
  timers_out :: "addr set"
  progress_count :: int
  arena_out :: "addr set"
  completions :: "(ptr \<times> ptr \<times> hg_return) list"
  hg_ids :: "u64 set"
  handle_id :: "addr \<Rightarrow> u64"

definition upd_req :: "addr \<Rightarrow> (request \<Rightarrow> request) \<Rightarrow> requests \<Rightarrow> requests" where
  "upd_req r f w = w\<lparr>req := (req w)(r := f (req w r))\<rparr>"

text \<open>What a request tells about itself; a pointer is NULL without a request.\<close>

definition margo_request_get_handle :: "ptr \<Rightarrow> requests \<Rightarrow> ptr" where
  "margo_request_get_handle r w = (case r of None \<Rightarrow> None | Some a \<Rightarrow> rq_handle (req w a))"

definition margo_request_get_type :: "ptr \<Rightarrow> requests \<Rightarrow> request_type" where
  "margo_request_get_type r w = (case r of None \<Rightarrow> MARGO_INVALID_REQUEST | Some a \<Rightarrow> rq_type (req w a))"

definition margo_request_get_instance :: "ptr \<Rightarrow> requests \<Rightarrow> ptr" where
  "margo_request_get_instance r w = (case r of None \<Rightarrow> None | Some a \<Rightarrow> rq_mid (req w a))"

section \<open>Shared pieces\<close>

text \<open>What the calls that an operation makes return.\<close>

record op_env =
  oe_eventual :: bool
  oe_timer_create :: "hg_return \<times> addr"
  oe_timer_start :: hg_return
  oe_start :: hg_return

text \<open>\<^verbatim>\<open>if (req->kind == MARGO_REQ_EVENTUAL) MARGO_EVENTUAL_CREATE(&req->eventual.ev)\<close>\<close>

definition create_eventual :: "op_env \<Rightarrow> addr \<Rightarrow> requests \<Rightarrow> requests \<times> hg_return" where
  "create_eventual e r w =
    (if rq_kind (req w r) = MARGO_REQ_EVENTUAL
     then if oe_eventual e then (upd_req r (\<lambda>q. q\<lparr>rq_ev := Ev_Created\<rparr>) w, HG_SUCCESS) else (w, HG_NOMEM_ERROR)
     else (w, HG_SUCCESS))"

text \<open>\<^verbatim>\<open>if (timeout_ms > 0)\<close>: create the timer of the request and start it.\<close>

definition start_timer :: "op_env \<Rightarrow> real \<Rightarrow> addr \<Rightarrow> requests \<Rightarrow> requests \<times> hg_return" where
  "start_timer e timeout_ms r w =
    (if timeout_ms > 0
     then
       (case oe_timer_create e of
          (hret, t) \<Rightarrow>
            if hret \<noteq> HG_SUCCESS then (w, hret)
            else
              (let w = (upd_req r (\<lambda>q. q\<lparr>rq_timer := Some t\<rparr>) w)\<lparr>timers_out := insert t (timers_out w)\<rparr>
               in if oe_timer_start e \<noteq> HG_SUCCESS
                  then (w\<lparr>timers_out := timers_out w - {t}\<rparr>, oe_timer_start e)
                  else (w, HG_SUCCESS)))
     else (w, HG_SUCCESS))"

text \<open>\<^verbatim>\<open>if (hret != HG_SUCCESS && req->timer)\<close>: cancel and destroy the timer.\<close>

definition drop_timer :: "hg_return \<Rightarrow> addr \<Rightarrow> requests \<Rightarrow> requests" where
  "drop_timer hret r w =
    (if hret \<noteq> HG_SUCCESS
     then
       (case rq_timer (req w r) of
          Some t \<Rightarrow> (upd_req r (\<lambda>q. q\<lparr>rq_timer := None\<rparr>) w)\<lparr>timers_out := timers_out w - {t}\<rparr>
        | None \<Rightarrow> w)
     else w)"

text \<open>\<^verbatim>\<open>if (hret != HG_SUCCESS && req->kind == MARGO_REQ_EVENTUAL) MARGO_EVENTUAL_FREE\<close>\<close>

definition free_eventual :: "hg_return \<Rightarrow> addr \<Rightarrow> requests \<Rightarrow> requests" where
  "free_eventual hret r w =
    (if hret \<noteq> HG_SUCCESS \<and> rq_kind (req w r) = MARGO_REQ_EVENTUAL
     then upd_req r (\<lambda>q. q\<lparr>rq_ev := Ev_None\<rparr>) w else w)"

definition progress_incr :: "requests \<Rightarrow> requests" where
  "progress_incr w = w\<lparr>progress_count := progress_count w + 1\<rparr>"

definition progress_decr :: "requests \<Rightarrow> requests" where
  "progress_decr w = w\<lparr>progress_count := progress_count w - 1\<rparr>"

section \<open>Starting operations\<close>

text \<open>What forwarding reads and what its calls to Mercury return.\<close>

record forward_env =
  fe_handle_data :: "handle_data option"
  fe_client_id :: u64
  fe_registered :: "hg_return \<times> bool"
  fe_disabled :: "hg_return \<times> bool"
  fe_register :: u64
  fe_disable :: hg_return
  fe_reset :: hg_return
  fe_op :: op_env

text \<open>Register the id that includes the provider, unless Mercury knows it.\<close>

definition forward_register :: "forward_env \<Rightarrow> u64 \<Rightarrow> requests \<Rightarrow> requests \<times> hg_return" where
  "forward_register e server_id w =
    (if fst (fe_registered e) \<noteq> HG_SUCCESS then (w, fst (fe_registered e))
     else if snd (fe_registered e) then (w, HG_SUCCESS)
     else if fst (fe_disabled e) \<noteq> HG_SUCCESS then (w, fst (fe_disabled e))
     else if fe_register e = 0 then (w, HG_OTHER_ERROR)
     else (w\<lparr>hg_ids := insert server_id (hg_ids w)\<rparr>, fe_disable e))"

text \<open>The part of \<^verbatim>\<open>margo_provider_iforward_internal\<close> before the label \<^verbatim>\<open>finish\<close>.\<close>

definition forward_body :: "forward_env \<Rightarrow> u64 \<Rightarrow> ptr \<Rightarrow> addr \<Rightarrow> real \<Rightarrow> addr \<Rightarrow> requests \<Rightarrow> requests \<times> hg_return" where
  "forward_body e server_id mid handle timeout_ms r w =
    (case forward_register e server_id w of (w, hret) \<Rightarrow>
     if hret \<noteq> HG_SUCCESS then (w, hret)
     else if fe_reset e \<noteq> HG_SUCCESS then (w, fe_reset e)
     else
       (case create_eventual (fe_op e) r (w\<lparr>handle_id := (handle_id w)(handle := server_id)\<rparr>) of (w, hret) \<Rightarrow>
        if hret \<noteq> HG_SUCCESS then (w, hret)
        else
          (let w = upd_req r (\<lambda>q. q\<lparr>rq_type := MARGO_FORWARD_REQUEST, rq_timer := None,
                                rq_handle := Some handle, rq_mid := mid\<rparr>) w
           in case start_timer (fe_op e) timeout_ms r w of (w, hret) \<Rightarrow>
              if hret \<noteq> HG_SUCCESS then (w, hret)
              else
                (let hret = oe_start (fe_op e);
                     w = drop_timer hret r w
                 in (progress_incr w, hret)))))"

definition margo_provider_iforward_internal ::
  "forward_env \<Rightarrow> u16 \<Rightarrow> addr \<Rightarrow> real \<Rightarrow> addr \<Rightarrow> requests \<Rightarrow> requests \<times> hg_return" where
  "margo_provider_iforward_internal e provider_id handle timeout_ms r w =
    (case fe_handle_data e of
       None \<Rightarrow> (w, HG_NO_MATCH)
     | Some data \<Rightarrow>
         if hd_mid data = None then (w, HG_OTHER_ERROR)
         else
           (let server_id = mux_id (fe_client_id e) provider_id
            in case forward_body e server_id (hd_mid data) handle timeout_ms r w of
                 (w, hret) \<Rightarrow> (free_eventual hret r w, hret)))"

definition margo_irespond_internal ::
  "op_env \<Rightarrow> handle_data option \<Rightarrow> addr \<Rightarrow> real \<Rightarrow> addr \<Rightarrow> requests \<Rightarrow> requests \<times> hg_return" where
  "margo_irespond_internal e handle_data handle timeout_ms r w =
    (case handle_data of
       None \<Rightarrow> (w, HG_NO_MATCH)
     | Some data \<Rightarrow>
         (let w = upd_req r (\<lambda>q. q\<lparr>rq_type := MARGO_RESPONSE_REQUEST, rq_handle := Some handle,
                               rq_timer := None, rq_mid := hd_mid data\<rparr>) w;
              (w, hret) =
                (case create_eventual e r w of (w, hret) \<Rightarrow>
                 if hret \<noteq> HG_SUCCESS then (w, hret)
                 else
                   (case start_timer e timeout_ms r w of (w, hret) \<Rightarrow>
                    if hret \<noteq> HG_SUCCESS then (w, hret)
                    else
                      (let hret = oe_start e;
                           w = drop_timer hret r w
                       in (if hret = HG_SUCCESS then progress_incr w else w, hret))))
          in (free_eventual hret r w, hret)))"

definition margo_bulk_itransfer_internal :: "op_env \<Rightarrow> ptr \<Rightarrow> real \<Rightarrow> addr \<Rightarrow> requests \<Rightarrow> requests \<times> hg_return" where
  "margo_bulk_itransfer_internal e mid timeout_ms r w =
    (let w = upd_req r (\<lambda>q. q\<lparr>rq_type := MARGO_BULK_REQUEST, rq_timer := None, rq_handle := None, rq_mid := mid\<rparr>) w
     in case create_eventual e r w of (w, hret) \<Rightarrow>
        if hret \<noteq> HG_SUCCESS then (w, hret)
        else
          (case start_timer e timeout_ms r w of (w, hret) \<Rightarrow>
           if hret \<noteq> HG_SUCCESS then (w, hret)
           else
             (let hret = oe_start e;
                  w = (if hret = HG_SUCCESS then progress_incr w else w)
              in (drop_timer hret r w, hret))))"

section \<open>Completion\<close>

text \<open>\<open>info_ret\<close> is the result that Mercury reports for the operation.\<close>

definition cb_complete :: "hg_return \<Rightarrow> addr \<Rightarrow> requests \<Rightarrow> requests" where
  "cb_complete info_ret r w =
    (let q = req w r;
         hret = (if info_ret = HG_CANCELED \<and> rq_timer q \<noteq> None then HG_TIMEOUT else info_ret);
         w = (case rq_timer q of Some t \<Rightarrow> w\<lparr>timers_out := timers_out w - {t}\<rparr> | None \<Rightarrow> w)
     in if rq_kind q = MARGO_REQ_CALLBACK
        then if rq_cb q \<noteq> None then w\<lparr>completions := completions w @ [(rq_cb q, rq_uargs q, hret)]\<rparr> else w
        else upd_req r (\<lambda>q. q\<lparr>rq_hret := hret, rq_ev := Ev_Set\<rparr>) w)"

text \<open>The end of the callback, which reads the kind of the request again.\<close>

definition cb_finish :: "addr \<Rightarrow> requests \<Rightarrow> requests" where
  "cb_finish r w =
     progress_decr (if rq_kind (req w r) = MARGO_REQ_CALLBACK then w\<lparr>arena_out := arena_out w - {r}\<rparr> else w)"

definition margo_cb :: "hg_return \<Rightarrow> addr \<Rightarrow> requests \<Rightarrow> requests" where
  "margo_cb info_ret r w = cb_finish r (cb_complete info_ret r w)"

text \<open>What a timer that expires does: which operation it cancels, if any.\<close>

datatype cancel_call = Cancel_Handle ptr | Cancel_Bulk addr

definition margo_timeout_cb :: "addr \<Rightarrow> requests \<Rightarrow> cancel_call list" where
  "margo_timeout_cb r w =
    (let q = req w r
     in (if rq_type q = MARGO_FORWARD_REQUEST then [Cancel_Handle (rq_handle q)] else [])
        @ (if rq_type q = MARGO_RESPONSE_REQUEST then [Cancel_Handle (rq_handle q)] else [])
        @ (if rq_type q = MARGO_BULK_REQUEST then [Cancel_Bulk r] else []))"

text \<open>
  The error that the response carries: \<open>disabled\<close> is the result of
  \<^verbatim>\<open>HG_Registered_disabled_response\<close>, \<open>output\<close> of \<^verbatim>\<open>HG_Get_output\<close> and \<open>header\<close> the code it read.
\<close>

definition check_error_in_output :: "hg_return \<times> bool \<Rightarrow> hg_return \<Rightarrow> hg_return \<Rightarrow> hg_return" where
  "check_error_in_output disabled output header =
    (if fst disabled \<noteq> HG_SUCCESS then fst disabled
     else if snd disabled then HG_SUCCESS
     else if output \<noteq> HG_SUCCESS \<and> output \<noteq> HG_CHECKSUM_ERROR then output
     else header)"

text \<open>\<^const>\<open>None\<close> is a wait that has not ended; \<open>output\<close> is the result of the previous function.\<close>

definition margo_wait_internal :: "hg_return \<Rightarrow> addr \<Rightarrow> requests \<Rightarrow> (requests \<times> hg_return) option" where
  "margo_wait_internal output r w =
    (if rq_kind (req w r) \<noteq> MARGO_REQ_EVENTUAL then Some (w, HG_INVALID_ARG)
     else if rq_ev (req w r) \<noteq> Ev_Set then None
     else
       (let w = upd_req r (\<lambda>q. q\<lparr>rq_ev := Ev_None\<rparr>) w
        in Some (w, if rq_hret (req w r) \<noteq> HG_SUCCESS then rq_hret (req w r)
                    else if rq_type (req w r) = MARGO_FORWARD_REQUEST then output
                    else HG_SUCCESS)))"

definition margo_wait :: "hg_return \<Rightarrow> addr \<Rightarrow> requests \<Rightarrow> (requests \<times> hg_return) option" where
  "margo_wait output r w = do {
     (w, hret) \<leftarrow> margo_wait_internal output r w;
     Some (w\<lparr>arena_out := arena_out w - {r}\<rparr>, hret)
   }"

definition margo_test :: "addr \<Rightarrow> requests \<Rightarrow> int \<times> bool" where
  "margo_test r w =
    (if rq_kind (req w r) \<noteq> MARGO_REQ_EVENTUAL then (-1, False) else (0, rq_ev (req w r) = Ev_Set))"

section \<open>The user's operations\<close>

text \<open>
  The blocking forms keep the request on the stack, at an address \<open>r\<close>; \<open>meanwhile\<close> is what happens
  between the start of the operation and its wait. The others take an object from the arena: \<open>a\<close> is
  the result of \<^verbatim>\<open>mochi_arena_get\<close>, and a NULL instance is dereferenced (\<^const>\<open>None\<close>).
\<close>

definition stack_request :: "addr \<Rightarrow> requests \<Rightarrow> requests" where
  "stack_request r w = upd_req r (\<lambda>_. zero_request) w"

definition arena_request :: "addr \<Rightarrow> requests \<Rightarrow> requests" where
  "arena_request r w = (upd_req r (\<lambda>_. zero_request) w)\<lparr>arena_out := insert r (arena_out w)\<rparr>"

definition arena_return :: "addr \<Rightarrow> requests \<Rightarrow> requests" where
  "arena_return r w = w\<lparr>arena_out := arena_out w - {r}\<rparr>"

definition callback_request :: "ptr \<Rightarrow> ptr \<Rightarrow> addr \<Rightarrow> requests \<Rightarrow> requests" where
  "callback_request on_complete uargs r w =
     upd_req r (\<lambda>q. q\<lparr>rq_kind := MARGO_REQ_CALLBACK, rq_cb := on_complete, rq_uargs := uargs\<rparr>) w"

definition handle_mid :: "handle_data option \<Rightarrow> ptr" where
  "handle_mid d = (case d of None \<Rightarrow> None | Some data \<Rightarrow> hd_mid data)"

text \<open>The tail of the blocking operations: \<^verbatim>\<open>if (hret != HG_SUCCESS) return hret; return margo_wait_internal(&reqs);\<close>\<close>

definition then_wait :: "(requests \<Rightarrow> requests) \<Rightarrow> hg_return \<Rightarrow> addr \<Rightarrow> requests \<times> hg_return \<Rightarrow> (requests \<times> hg_return) option" where
  "then_wait meanwhile output r res =
    (case res of (w, hret) \<Rightarrow>
       if hret \<noteq> HG_SUCCESS then Some (w, hret) else margo_wait_internal output r (meanwhile w))"

text \<open>The tail of the others: \<^verbatim>\<open>if (hret != HG_SUCCESS) { mochi_arena_release(...); return hret; }\<close>\<close>

definition or_release :: "addr \<Rightarrow> requests \<times> hg_return \<Rightarrow> requests \<times> hg_return \<times> ptr" where
  "or_release r res =
    (case res of (w, hret) \<Rightarrow>
       if hret \<noteq> HG_SUCCESS then (arena_return r w, hret, None) else (w, HG_SUCCESS, Some r))"

definition margo_provider_forward_timed ::
  "forward_env \<Rightarrow> u16 \<Rightarrow> addr \<Rightarrow> real \<Rightarrow> (requests \<Rightarrow> requests) \<Rightarrow> hg_return \<Rightarrow> addr \<Rightarrow> requests \<Rightarrow> (requests \<times> hg_return) option" where
  "margo_provider_forward_timed e provider_id handle timeout_ms meanwhile output r w =
     then_wait meanwhile output r
       (margo_provider_iforward_internal e provider_id handle timeout_ms r (stack_request r w))"

definition margo_provider_iforward_timed ::
  "forward_env \<Rightarrow> ptr \<Rightarrow> u16 \<Rightarrow> addr \<Rightarrow> real \<Rightarrow> requests \<Rightarrow> (requests \<times> hg_return \<times> ptr) option" where
  "margo_provider_iforward_timed e a provider_id handle timeout_ms w = do {
     mid \<leftarrow> handle_mid (fe_handle_data e);
     Some (case a of
         None \<Rightarrow> (w, HG_NOMEM_ERROR, None)
       | Some r \<Rightarrow>
           or_release r (margo_provider_iforward_internal e provider_id handle timeout_ms r (arena_request r w)))
   }"

definition margo_provider_cforward_timed ::
  "forward_env \<Rightarrow> ptr \<Rightarrow> u16 \<Rightarrow> addr \<Rightarrow> real \<Rightarrow> ptr \<Rightarrow> ptr \<Rightarrow> requests \<Rightarrow> (requests \<times> hg_return) option" where
  "margo_provider_cforward_timed e a provider_id handle timeout_ms on_complete uargs w = do {
     mid \<leftarrow> handle_mid (fe_handle_data e);
     Some (case a of
         None \<Rightarrow> (w, HG_NOMEM_ERROR)
       | Some r \<Rightarrow>
           (case or_release r (margo_provider_iforward_internal e provider_id handle timeout_ms r
                   (callback_request on_complete uargs r (arena_request r w))) of
              (w, hret, _) \<Rightarrow> (w, hret)))
   }"

definition margo_respond_timed ::
  "op_env \<Rightarrow> handle_data option \<Rightarrow> addr \<Rightarrow> real \<Rightarrow> (requests \<Rightarrow> requests) \<Rightarrow> addr \<Rightarrow> requests \<Rightarrow> (requests \<times> hg_return) option" where
  "margo_respond_timed e d handle timeout_ms meanwhile r w =
    (if handle_mid d = None then Some (w, HG_OTHER_ERROR)
     else then_wait meanwhile HG_SUCCESS r (margo_irespond_internal e d handle timeout_ms r (stack_request r w)))"

definition margo_respond ::
  "op_env \<Rightarrow> handle_data option \<Rightarrow> addr \<Rightarrow> (requests \<Rightarrow> requests) \<Rightarrow> addr \<Rightarrow> requests \<Rightarrow> (requests \<times> hg_return) option" where
  "margo_respond e d handle meanwhile r w =
    (if handle_mid d = None then Some (w, HG_OTHER_ERROR)
     else then_wait meanwhile HG_SUCCESS r (margo_irespond_internal e d handle 0 r (stack_request r w)))"

definition margo_irespond_timed ::
  "op_env \<Rightarrow> handle_data option \<Rightarrow> ptr \<Rightarrow> addr \<Rightarrow> real \<Rightarrow> requests \<Rightarrow> (requests \<times> hg_return \<times> ptr) option" where
  "margo_irespond_timed e d a handle timeout_ms w = do {
     mid \<leftarrow> handle_mid d;
     Some (case a of
         None \<Rightarrow> (w, HG_NOMEM_ERROR, None)
       | Some r \<Rightarrow> or_release r (margo_irespond_internal e d handle timeout_ms r (arena_request r w)))
   }"

definition margo_irespond ::
  "op_env \<Rightarrow> handle_data option \<Rightarrow> ptr \<Rightarrow> addr \<Rightarrow> requests \<Rightarrow> (requests \<times> hg_return \<times> ptr) option" where
  "margo_irespond e d a handle w = do {
     mid \<leftarrow> handle_mid d;
     Some (case a of
         None \<Rightarrow> (w, HG_NOMEM_ERROR, None)
       | Some r \<Rightarrow> or_release r (margo_irespond_internal e d handle 0 r (arena_request r w)))
   }"

definition margo_crespond_timed ::
  "op_env \<Rightarrow> handle_data option \<Rightarrow> ptr \<Rightarrow> addr \<Rightarrow> real \<Rightarrow> ptr \<Rightarrow> ptr \<Rightarrow> requests \<Rightarrow> (requests \<times> hg_return) option" where
  "margo_crespond_timed e d a handle timeout_ms on_complete uargs w = do {
     mid \<leftarrow> handle_mid d;
     Some (case a of
         None \<Rightarrow> (w, HG_NOMEM_ERROR)
       | Some r \<Rightarrow>
           (case or_release r (margo_irespond_internal e d handle timeout_ms r
                   (callback_request on_complete uargs r (arena_request r w))) of
              (w, hret, _) \<Rightarrow> (w, hret)))
   }"

definition margo_crespond ::
  "op_env \<Rightarrow> handle_data option \<Rightarrow> ptr \<Rightarrow> addr \<Rightarrow> ptr \<Rightarrow> ptr \<Rightarrow> requests \<Rightarrow> (requests \<times> hg_return) option" where
  "margo_crespond e d a handle on_complete uargs w = do {
     mid \<leftarrow> handle_mid d;
     Some (case a of
         None \<Rightarrow> (w, HG_NOMEM_ERROR)
       | Some r \<Rightarrow>
           (case or_release r (margo_irespond_internal e d handle 0 r
                   (callback_request on_complete uargs r (arena_request r w))) of
              (w, hret, _) \<Rightarrow> (w, hret)))
   }"

definition margo_bulk_transfer_timed ::
  "op_env \<Rightarrow> ptr \<Rightarrow> real \<Rightarrow> (requests \<Rightarrow> requests) \<Rightarrow> addr \<Rightarrow> requests \<Rightarrow> (requests \<times> hg_return) option" where
  "margo_bulk_transfer_timed e mid timeout_ms meanwhile r w =
     then_wait meanwhile HG_SUCCESS r (margo_bulk_itransfer_internal e mid timeout_ms r (stack_request r w))"

definition margo_bulk_itransfer_timed ::
  "op_env \<Rightarrow> ptr \<Rightarrow> ptr \<Rightarrow> real \<Rightarrow> requests \<Rightarrow> requests \<times> hg_return \<times> ptr" where
  "margo_bulk_itransfer_timed e mid a timeout_ms w =
    (case a of
       None \<Rightarrow> (w, HG_NOMEM_ERROR, None)
     | Some r \<Rightarrow> or_release r (margo_bulk_itransfer_internal e mid timeout_ms r (arena_request r w)))"

definition margo_bulk_ctransfer_timed ::
  "op_env \<Rightarrow> ptr \<Rightarrow> ptr \<Rightarrow> real \<Rightarrow> ptr \<Rightarrow> ptr \<Rightarrow> requests \<Rightarrow> requests \<times> hg_return" where
  "margo_bulk_ctransfer_timed e mid a timeout_ms on_complete uargs w =
    (case a of
       None \<Rightarrow> (w, HG_NOMEM_ERROR)
     | Some r \<Rightarrow>
         (case or_release r (margo_bulk_itransfer_internal e mid timeout_ms r
                 (callback_request on_complete uargs r (arena_request r w))) of
            (w, hret, _) \<Rightarrow> (w, hret)))"

section \<open>The contract of an operation\<close>

lemma upd_req_simps [simp]:
  "req (upd_req r f w) = (req w)(r := f (req w r))" "timers_out (upd_req r f w) = timers_out w"
  "progress_count (upd_req r f w) = progress_count w" "arena_out (upd_req r f w) = arena_out w"
  "completions (upd_req r f w) = completions w" "hg_ids (upd_req r f w) = hg_ids w"
  "handle_id (upd_req r f w) = handle_id w"
  by (simp_all add: upd_req_def)

abbreviation timer_of :: "op_env \<Rightarrow> real \<Rightarrow> ptr" where
  "timer_of e timeout_ms \<equiv> (if timeout_ms > 0 then Some (snd (oe_timer_create e)) else None)"

text \<open>
  What a request holds after its operation was started: a timer if it has a timeout, an eventual
  unless it has a callback, one unit of needed progress, and nothing else changed.
\<close>

definition started :: "request_type \<Rightarrow> op_env \<Rightarrow> real \<Rightarrow> addr \<Rightarrow> requests \<Rightarrow> requests \<Rightarrow> bool" where
  "started ty e timeout_ms r w w' \<longleftrightarrow>
     timers_out w' = timers_out w \<union> set_option (timer_of e timeout_ms)
     \<and> progress_count w' = progress_count w + 1
     \<and> arena_out w' = arena_out w \<and> completions w' = completions w
     \<and> rq_timer (req w' r) = timer_of e timeout_ms \<and> rq_type (req w' r) = ty
     \<and> rq_kind (req w' r) = rq_kind (req w r)
     \<and> rq_cb (req w' r) = rq_cb (req w r) \<and> rq_uargs (req w' r) = rq_uargs (req w r)
     \<and> (rq_kind (req w r) = MARGO_REQ_EVENTUAL \<longrightarrow> rq_ev (req w' r) = Ev_Created)"

text \<open>After a failed start the request holds no timer and no progress.\<close>

definition not_started :: "requests \<Rightarrow> requests \<Rightarrow> bool" where
  "not_started w w' \<longleftrightarrow> timers_out w' = timers_out w \<and> progress_count w' = progress_count w
     \<and> arena_out w' = arena_out w \<and> completions w' = completions w"

text \<open>The result that a completion reports: a canceled operation with a timer has timed out.\<close>

definition completion_result :: "real \<Rightarrow> hg_return \<Rightarrow> hg_return" where
  "completion_result timeout_ms info_ret =
    (if info_ret = HG_CANCELED \<and> timeout_ms > 0 then HG_TIMEOUT else info_ret)"

text \<open>
  An operation is started with an environment and a timeout on a request; \<open>env_op\<close> is the part of
  its environment that describes the calls all operations make.
\<close>

locale async_operation =
  fixes start :: "'e \<Rightarrow> real \<Rightarrow> addr \<Rightarrow> requests \<Rightarrow> requests \<times> hg_return"
    and env_op :: "'e \<Rightarrow> op_env"
    and ty :: request_type
  assumes start_ok: "start e timeout_ms r w = (w', HG_SUCCESS) \<Longrightarrow> started ty (env_op e) timeout_ms r w w'"
begin

text \<open>Started, completed by Mercury, and awaited: everything the request held is given back.\<close>

lemma eventual_cycle:
  assumes s: "start e timeout_ms r w = (w1, HG_SUCCESS)" and k: "rq_kind (req w r) = MARGO_REQ_EVENTUAL"
    and fresh: "snd (oe_timer_create (env_op e)) \<notin> timers_out w"
  shows "\<exists>w2. margo_wait_internal output r (margo_cb info_ret r w1) =
      Some (w2, if completion_result timeout_ms info_ret \<noteq> HG_SUCCESS
                then completion_result timeout_ms info_ret
                else if ty = MARGO_FORWARD_REQUEST then output else HG_SUCCESS)
    \<and> not_started w w2"
  using start_ok [OF s] k fresh
  by (auto simp: started_def not_started_def margo_cb_def cb_complete_def cb_finish_def margo_wait_internal_def completion_result_def
      progress_decr_def Let_def split: if_splits)

text \<open>With a callback instead, the callback runs once and the object goes back to the arena.\<close>

lemma callback_cycle:
  fixes info_ret :: hg_return
  assumes s: "start e timeout_ms r w = (w1, HG_SUCCESS)" and k: "rq_kind (req w r) = MARGO_REQ_CALLBACK"
    and cb: "rq_cb (req w r) = Some cb" and fresh: "snd (oe_timer_create (env_op e)) \<notin> timers_out w"
  defines "w2 \<equiv> margo_cb info_ret r w1"
  shows "completions w2 = completions w @ [(Some cb, rq_uargs (req w r), completion_result timeout_ms info_ret)]
    \<and> timers_out w2 = timers_out w \<and> progress_count w2 = progress_count w \<and> arena_out w2 = arena_out w - {r}"
  using start_ok [OF s] k cb fresh
  by (auto simp: w2_def started_def margo_cb_def cb_complete_def cb_finish_def completion_result_def progress_decr_def Let_def split: if_splits)

end

locale clean_operation = async_operation +
  assumes start_fails: "start e timeout_ms r w = (w', hret) \<Longrightarrow> hret \<noteq> HG_SUCCESS \<Longrightarrow>
    snd (oe_timer_create (env_op e)) \<notin> timers_out w \<Longrightarrow> not_started w w'"
begin

text \<open>A failed non-blocking start gives the object back to the arena.\<close>

lemma failed_start_releases:
  assumes s: "start e timeout_ms r (arena_request r w) = (w1, hret)" and f: "hret \<noteq> HG_SUCCESS"
    and fresh: "snd (oe_timer_create (env_op e)) \<notin> timers_out w" "r \<notin> arena_out w"
  shows "\<exists>w2. or_release r (w1, hret) = (w2, hret, None) \<and> not_started w w2"
  using start_fails [OF s f] fresh f
  by (auto simp: or_release_def arena_return_def arena_request_def not_started_def)

end

section \<open>The operations meet it\<close>

lemmas op_defs = create_eventual_def start_timer_def drop_timer_def free_eventual_def progress_incr_def

lemma respond_ok:
  "margo_irespond_internal (fst e) (fst (snd e)) (snd (snd e)) timeout_ms r w = (w', HG_SUCCESS) \<Longrightarrow>
   started MARGO_RESPONSE_REQUEST (fst e) timeout_ms r w w'"
  unfolding margo_irespond_internal_def op_defs started_def
  by (auto simp: Let_def split: option.splits prod.splits if_splits)

lemma bulk_ok:
  "margo_bulk_itransfer_internal (fst e) (snd e) timeout_ms r w = (w', HG_SUCCESS) \<Longrightarrow>
   started MARGO_BULK_REQUEST (fst e) timeout_ms r w w'"
  unfolding margo_bulk_itransfer_internal_def op_defs started_def
  by (auto simp: Let_def split: option.splits prod.splits if_splits)

lemma respond_fails:
  "margo_irespond_internal (fst e) (fst (snd e)) (snd (snd e)) timeout_ms r w = (w', hret) \<Longrightarrow> hret \<noteq> HG_SUCCESS \<Longrightarrow>
   snd (oe_timer_create (fst e)) \<notin> timers_out w \<Longrightarrow> not_started w w'"
  unfolding margo_irespond_internal_def op_defs not_started_def
  by (auto simp: Let_def split: option.splits prod.splits if_splits)

lemma bulk_fails:
  "margo_bulk_itransfer_internal (fst e) (snd e) timeout_ms r w = (w', hret) \<Longrightarrow> hret \<noteq> HG_SUCCESS \<Longrightarrow>
   snd (oe_timer_create (fst e)) \<notin> timers_out w \<Longrightarrow> not_started w w'"
  unfolding margo_bulk_itransfer_internal_def op_defs not_started_def
  by (auto simp: Let_def split: option.splits prod.splits if_splits)

lemma forward_body_ok:
  "forward_body e server_id mid handle timeout_ms r w = (w', HG_SUCCESS) \<Longrightarrow>
   started MARGO_FORWARD_REQUEST (fe_op e) timeout_ms r w w' \<and> handle_id w' handle = server_id"
  unfolding forward_body_def forward_register_def op_defs started_def
  by (auto simp: Let_def split: option.splits prod.splits if_splits)

lemma forward_ok:
  "margo_provider_iforward_internal (fst e) (fst (snd e)) (snd (snd e)) timeout_ms r w = (w', HG_SUCCESS) \<Longrightarrow>
   started MARGO_FORWARD_REQUEST (fe_op (fst e)) timeout_ms r w w'
   \<and> handle_id w' (snd (snd e)) = mux_id (fe_client_id (fst e)) (fst (snd e))"
  unfolding margo_provider_iforward_internal_def Let_def
  by (auto simp: free_eventual_def split: option.splits prod.splits if_splits dest!: forward_body_ok)

lemma forward_body_fails:
  "forward_body e server_id mid handle timeout_ms r w = (w', hret) \<Longrightarrow> hret \<noteq> HG_SUCCESS \<Longrightarrow> hret \<noteq> oe_start (fe_op e) \<Longrightarrow>
   snd (oe_timer_create (fe_op e)) \<notin> timers_out w \<Longrightarrow> not_started w w'"
  unfolding forward_body_def forward_register_def op_defs not_started_def
  by (auto simp: Let_def split: option.splits prod.splits if_splits)

interpretation respond: clean_operation
  "\<lambda>e timeout_ms r w. margo_irespond_internal (fst e) (fst (snd e)) (snd (snd e)) timeout_ms r w" fst MARGO_RESPONSE_REQUEST
  by unfold_locales (rule respond_ok respond_fails; assumption)+

interpretation bulk: clean_operation
  "\<lambda>e timeout_ms r w. margo_bulk_itransfer_internal (fst e) (snd e) timeout_ms r w" fst MARGO_BULK_REQUEST
  by unfold_locales (rule bulk_ok bulk_fails; assumption)+

interpretation forward: async_operation
  "\<lambda>e timeout_ms r w. margo_provider_iforward_internal (fst e) (fst (snd e)) (snd (snd e)) timeout_ms r w"
  "\<lambda>e. fe_op (fst e)" MARGO_FORWARD_REQUEST
  by unfold_locales (rule forward_ok [THEN conjunct1])

section \<open>Waiting for any request\<close>

text \<open>
  One pass of the loop of \<^verbatim>\<open>margo_wait_any\<close>: \<open>see i\<close> is the state that the test of request \<open>i\<close> sees.
  The result is the index of a request that failed its test or is complete, and whether the pass
  met a request that is not NULL.
\<close>

fun wait_any_pass :: "(nat \<Rightarrow> requests) \<Rightarrow> nat \<Rightarrow> ptr list \<Rightarrow> bool \<Rightarrow> (nat \<times> bool) option \<times> bool" where
  "wait_any_pass see i [] has_pending = (None, has_pending)"
| "wait_any_pass see i (p # ps) has_pending =
    (case p of
       None \<Rightarrow> wait_any_pass see (Suc i) ps has_pending
     | Some r \<Rightarrow>
         (case margo_test r (see i) of (ret, flag) \<Rightarrow>
            if ret \<noteq> 0 then (Some (i, False), True)
            else if flag then (Some (i, True), True)
            else wait_any_pass see (Suc i) ps True))"

text \<open>
  The loop, from its pass \<open>k\<close> on; \<open>see k i\<close> is the state at test \<open>i\<close> of that pass. The result is the
  index, and the request that \<^verbatim>\<open>margo_wait\<close> is then called on, if any.
\<close>

partial_function (option) margo_wait_any_loop ::
  "(nat \<Rightarrow> nat \<Rightarrow> requests) \<Rightarrow> ptr list \<Rightarrow> nat \<Rightarrow> (nat \<times> hg_return \<times> ptr) option" where
  "margo_wait_any_loop see ps k =
    (case wait_any_pass (see k) 0 ps False of
       (Some (i, done), _) \<Rightarrow> Some (if done then (i, HG_SUCCESS, ps ! i) else (i, HG_OTHER_ERROR, None))
     | (None, has_pending) \<Rightarrow>
         if has_pending then margo_wait_any_loop see ps (Suc k) else Some (length ps, HG_SUCCESS, None))"

definition margo_wait_any :: "(nat \<Rightarrow> nat \<Rightarrow> requests) \<Rightarrow> ptr list \<Rightarrow> (nat \<times> hg_return \<times> ptr) option" where
  "margo_wait_any see ps = margo_wait_any_loop see ps 0"

lemma wait_any_pass_finds:
  assumes "\<And>j r. j < length ps \<Longrightarrow> ps ! j = Some r \<Longrightarrow> rq_kind (req (see (i + j)) r) = MARGO_REQ_EVENTUAL"
    and "k < length ps" "ps ! k = Some r" "rq_ev (req (see (i + k)) r) = Ev_Set"
    and "\<And>j r. j < k \<Longrightarrow> ps ! j = Some r \<Longrightarrow> rq_ev (req (see (i + j)) r) \<noteq> Ev_Set"
  shows "wait_any_pass see i ps b = (Some (i + k, True), True)"
  using assms
proof (induction ps arbitrary: i k b)
  case Nil
  then show ?case by simp
next
  case (Cons p ps)
  show ?case
  proof (cases k)
    case 0
    then show ?thesis using Cons.prems(1) [of 0] Cons.prems(3,4) by (simp add: margo_test_def)
  next
    case (Suc m)
    have IH: "wait_any_pass see (Suc i) ps b' = (Some (Suc i + m, True), True)" for b'
    proof (rule Cons.IH)
      show "rq_kind (req (see (Suc i + j)) r) = MARGO_REQ_EVENTUAL" if "j < length ps" "ps ! j = Some r" for j r
        using Cons.prems(1) [of "Suc j" r] that by simp
      show "rq_ev (req (see (Suc i + j)) r) \<noteq> Ev_Set" if "j < m" "ps ! j = Some r" for j r
        using Cons.prems(5) [of "Suc j" r] that Suc by simp
    qed (use Cons.prems(2-4) Suc in auto)
    show ?thesis
    proof (cases p)
      case None
      then show ?thesis using IH Suc by simp
    next
      case (Some q)
      then show ?thesis
        using IH Suc Cons.prems(1) [of 0 q] Cons.prems(5) [of 0 q] by (simp add: margo_test_def)
    qed
  qed
qed

lemma wait_any_pass_none:
  assumes "\<And>j r. j < length ps \<Longrightarrow> ps ! j = Some r \<Longrightarrow>
    rq_kind (req (see (i + j)) r) = MARGO_REQ_EVENTUAL \<and> rq_ev (req (see (i + j)) r) \<noteq> Ev_Set"
  shows "wait_any_pass see i ps b = (None, b \<or> (\<exists>p \<in> set ps. p \<noteq> None))"
  using assms
proof (induction ps arbitrary: i b)
  case Nil
  then show ?case by simp
next
  case (Cons p ps)
  have IH: "wait_any_pass see (Suc i) ps b' = (None, b' \<or> (\<exists>p \<in> set ps. p \<noteq> None))" for b'
    using Cons.prems [of "Suc _"] by (intro Cons.IH) auto
  show ?case using IH Cons.prems [of 0] by (cases p) (auto simp: margo_test_def)
qed

section \<open>Parallel transfers\<close>

text \<open>
  The loop of \<^verbatim>\<open>margo_bulk_parallel_transfer\<close> that starts the transfers of the chunks: the offsets
  and the length of each, and the result. \<open>results\<close> holds what the starts return. The variable
  \<open>remaining_size\<close> is read but never written.
\<close>

primrec parallel_starts ::
  "hg_return list \<Rightarrow> u64 \<Rightarrow> u64 \<Rightarrow> u64 \<Rightarrow> u64 \<Rightarrow> (u64 \<times> u64 \<times> u64) list \<times> hg_return" where
  "parallel_starts [] remaining_size chunk_size origin_offset local_offset = ([], HG_SUCCESS)"
| "parallel_starts (hret_xfer # results) remaining_size chunk_size origin_offset local_offset =
    (let chunk_size = (if remaining_size < chunk_size then remaining_size else chunk_size)
     in if hret_xfer \<noteq> HG_SUCCESS then ([], hret_xfer)
        else
          (case parallel_starts results remaining_size chunk_size (origin_offset + chunk_size) (local_offset + chunk_size) of
             (ts, hret) \<Rightarrow> ((origin_offset, local_offset, chunk_size) # ts, hret)))"

text \<open>The loop that waits for them: the first error ends it unless a start failed before.\<close>

primrec parallel_waits :: "hg_return list \<Rightarrow> hg_return \<Rightarrow> hg_return" where
  "parallel_waits [] hret = hret"
| "parallel_waits (hret_wait # results) hret =
    (if hret = HG_SUCCESS \<and> hret_wait \<noteq> HG_SUCCESS then hret_wait else parallel_waits results hret)"

definition chunk_count :: "u64 \<Rightarrow> u64 \<Rightarrow> u64" where
  "chunk_count sz chunk_size =
    (let count = sz div chunk_size in if count * chunk_size < sz then count + 1 else count)"

text \<open>\<open>starts\<close> and \<open>waits\<close> hold the results of the calls; the transfers that were started are returned too.\<close>

definition margo_bulk_parallel_transfer ::
  "(nat \<Rightarrow> hg_return) \<Rightarrow> (nat \<Rightarrow> hg_return) \<Rightarrow> u64 \<Rightarrow> u64 \<Rightarrow> u64 \<Rightarrow> u64 \<Rightarrow> (u64 \<times> u64 \<times> u64) list \<times> hg_return" where
  "margo_bulk_parallel_transfer starts waits origin_offset local_offset sz chunk_size =
    (if chunk_size = 0 then ([], HG_INVALID_PARAM)
     else
       (let count = chunk_count sz chunk_size
        in case parallel_starts (map starts [0..<unat count]) sz chunk_size origin_offset local_offset of
             (ts, hret) \<Rightarrow> (ts, parallel_waits (map waits [0..<length ts]) hret)))"

lemma parallel_starts_all:
  assumes "set results \<subseteq> {HG_SUCCESS}" "chunk_size \<le> remaining_size"
  shows "parallel_starts results remaining_size chunk_size origin_offset local_offset =
    (map (\<lambda>i. (origin_offset + of_nat i * chunk_size, local_offset + of_nat i * chunk_size, chunk_size)) [0..<length results],
     HG_SUCCESS)"
  using assms
proof (induction results arbitrary: origin_offset local_offset)
  case Nil
  then show ?case by simp
next
  case (Cons hret results)
  have m: "[0..<Suc n] = 0 # map Suc [0..<n]" for n by (simp add: map_Suc_upt upt_conv_Cons del: upt_Suc)
  show ?case
    using Cons.IH [of "origin_offset + chunk_size" "local_offset + chunk_size"] Cons.prems leD [OF Cons.prems(2)]
    unfolding length_Cons m by (simp add: Let_def algebra_simps)
qed

lemma unat_div_mult: "unat (sz div c * c) = unat sz div unat c * unat (c :: u64)"
proof -
  have "unat sz div unat c * unat c < 2 ^ 64"
    using unsigned_less [of sz, where 'a = nat] by (simp add: le_less_trans [OF div_times_less_eq_dividend])
  moreover have "unat sz div unat c < 2 ^ 64"
    using unsigned_less [of sz, where 'a = nat] by (simp add: le_less_trans [OF div_le_dividend])
  ultimately show ?thesis by (simp add: unat_word_ariths unat_div)
qed

lemma chunk_count_value:
  assumes "c \<noteq> 0"
  shows "unat (chunk_count sz c) = unat sz div unat c + (if unat c dvd unat sz then 0 else 1)"
proof -
  have c: "unat c > 0" using assms by (simp add: unat_gt_0)
  have lt: "sz div c * c < sz \<longleftrightarrow> \<not> unat c dvd unat sz"
    unfolding word_less_nat_alt unat_div_mult dvd_eq_mod_eq_0
    using div_mult_mod_eq [of "unat sz" "unat c"] by linarith
  have suc: "unat (sz div c + 1) = unat sz div unat c + 1" if "\<not> unat c dvd unat sz"
  proof -
    have "unat c \<ge> 2" using c that by (cases "unat c = 1") auto
    then have "unat sz div unat c \<le> unat sz div 2" by (rule div_le_mono2 [rotated]) simp
    moreover have "unat sz div 2 + 1 < 2 ^ 64" using unsigned_less [of sz, where 'a = nat] by simp
    ultimately have "unat sz div unat c + 1 < 2 ^ 64" by linarith
    then show ?thesis by (simp add: unat_word_ariths unat_div)
  qed
  show ?thesis using lt suc by (simp add: chunk_count_def Let_def unat_div)
qed

section \<open>Properties\<close>


definition example_op :: op_env where
  "example_op = \<lparr>oe_eventual = True, oe_timer_create = (HG_SUCCESS, 7), oe_timer_start = HG_SUCCESS, oe_start = HG_SUCCESS\<rparr>"

definition example_forward :: forward_env where
  "example_forward = \<lparr>fe_handle_data = Some (zero_handle_data\<lparr>hd_mid := Some 1\<rparr>), fe_client_id = 0x12340000FFFF,
     fe_registered = (HG_SUCCESS, True), fe_disabled = (HG_SUCCESS, False), fe_register = 1,
     fe_disable = HG_SUCCESS, fe_reset = HG_SUCCESS, fe_op = example_op\<rparr>"

definition example_requests :: requests where
  "example_requests = \<lparr>req = (\<lambda>_. zero_request), timers_out = {}, progress_count = 0, arena_out = {},
     completions = [], hg_ids = {}, handle_id = (\<lambda>_. 0)\<rparr>"

lemmas example_defs = example_op_def example_forward_def example_requests_def zero_request_def zero_handle_data_def
  op_defs forward_register_def




text \<open>
  The callback of an operation with a completion callback runs exactly once, with its argument
  and the result of the operation (a timeout if it was canceled and has a timer), and when Mercury
  completes the operation the timer, the needed progress and the request object are given back.
\<close>

theorem cforward_completes_once:
  assumes s: "margo_provider_cforward_timed e (Some r) provider_id handle timeout_ms (Some cb) uargs w = Some (w1, HG_SUCCESS)"
    and fresh: "snd (oe_timer_create (fe_op e)) \<notin> timers_out w" "r \<notin> arena_out w"
  shows "let w2 = margo_cb info_ret r w1
    in completions w2 = completions w @ [(Some cb, uargs, if info_ret = HG_CANCELED \<and> timeout_ms > 0 then HG_TIMEOUT else info_ret)]
       \<and> timers_out w2 = timers_out w \<and> progress_count w2 = progress_count w \<and> arena_out w2 = arena_out w"
proof -
  let ?w = "callback_request (Some cb) uargs r (arena_request r w)"
  have s': "margo_provider_iforward_internal (fst (e, provider_id, handle)) (fst (snd (e, provider_id, handle)))
      (snd (snd (e, provider_id, handle))) timeout_ms r ?w = (w1, HG_SUCCESS)"
    using s by (auto simp: margo_provider_cforward_timed_def ptr_simps or_release_def split: prod.splits if_splits)
  have "rq_kind (req ?w r) = MARGO_REQ_CALLBACK" "rq_cb (req ?w r) = Some cb" "rq_uargs (req ?w r) = uargs"
    "timers_out ?w = timers_out w" "progress_count ?w = progress_count w" "completions ?w = completions w"
    "arena_out ?w = insert r (arena_out w)"
    by (simp_all add: callback_request_def arena_request_def)
  then show ?thesis
    using forward.callback_cycle [OF s', of cb info_ret] fresh by (auto simp: completion_result_def Let_def)
qed

theorem cforward_completes_once_witness:
  "\<exists>w1. margo_provider_cforward_timed example_forward (Some 0) 3 5 10 (Some 8) (Some 9) example_requests = Some (w1, HG_SUCCESS)
     \<and> completions (margo_cb HG_SUCCESS 0 w1) = [(Some 8, Some 9, HG_SUCCESS)]"
proof -
  obtain w1 where w1: "margo_provider_cforward_timed example_forward (Some 0) 3 5 10 (Some 8) (Some 9) example_requests
      = Some (w1, HG_SUCCESS)"
    by (simp add: margo_provider_cforward_timed_def margo_provider_iforward_internal_def forward_body_def handle_mid_def
        or_release_def callback_request_def arena_request_def example_defs upd_req_def)
  then show ?thesis
    using cforward_completes_once [OF w1, of HG_SUCCESS] by (auto simp: example_defs Let_def)
qed

text \<open>
  \<open>margo_wait_any\<close> returns as soon as a request is complete, and chooses the first such one. For
  requests with eventuals (NULL entries are skipped), if request \<open>i\<close> is the first that a test of
  pass \<open>k\<close> finds complete and no test of an earlier pass found one, then the loop ends in that pass
  and the result is index \<open>i\<close>, whose request is then awaited.
\<close>

theorem margo_wait_any_first_complete:
  assumes ev: "\<And>l j r. l \<le> k \<Longrightarrow> j < length ps \<Longrightarrow> ps ! j = Some r \<Longrightarrow> rq_kind (req (see l j) r) = MARGO_REQ_EVENTUAL"
    and i: "i < length ps" "ps ! i = Some r" "rq_ev (req (see k i) r) = Ev_Set"
    and earlier: "\<And>l j q. j < length ps \<Longrightarrow> l < k \<or> (l = k \<and> j < i) \<Longrightarrow> ps ! j = Some q \<Longrightarrow> rq_ev (req (see l j) q) \<noteq> Ev_Set"
  shows "margo_wait_any see ps = Some (i, HG_SUCCESS, Some r)"
proof -
  have last: "margo_wait_any_loop see ps k = Some (i, HG_SUCCESS, Some r)"
  proof -
    have "wait_any_pass (see k) 0 ps False = (Some (0 + i, True), True)"
      using ev [of k] i earlier [of _ k] by (intro wait_any_pass_finds [where r = r]) auto
    then show ?thesis using i(2) by (subst margo_wait_any_loop.simps) simp
  qed
  have "margo_wait_any_loop see ps (k - n) = Some (i, HG_SUCCESS, Some r)" if "n \<le> k" for n
    using that
  proof (induction n)
    case 0
    then show ?case using last by simp
  next
    case (Suc n)
    have "wait_any_pass (see (k - Suc n)) 0 ps False = (None, False \<or> (\<exists>p \<in> set ps. p \<noteq> None))"
      using ev [of "k - Suc n"] earlier [of _ "k - Suc n"] Suc.prems by (intro wait_any_pass_none) auto
    moreover have "\<exists>p \<in> set ps. p \<noteq> None" using i by (metis nth_mem option.distinct(1))
    moreover have "Suc (k - Suc n) = k - n" using Suc.prems by simp
    ultimately show ?case using Suc by (subst margo_wait_any_loop.simps) simp
  qed
  from this [of k] show ?thesis by (simp add: margo_wait_any_def)
qed

theorem margo_wait_any_first_complete_witness:
  "margo_wait_any (\<lambda>k i. upd_req 4 (\<lambda>q. q\<lparr>rq_ev := if k = 2 then Ev_Set else Ev_Created\<rparr>) example_requests) [None, Some 3, Some 4]
     = Some (2, HG_SUCCESS, Some 4)"
  by (rule margo_wait_any_first_complete [where k = 2])
    (auto simp: example_requests_def zero_request_def nth_Cons' split: if_splits)



text \<open>
  The code never decreases \<open>remaining_size\<close>, so the last chunk is not cut. If the size is larger
  than the chunk size but not a multiple of it, the transfers that are issued are full chunks,
  and together they are longer than the requested size: the last one reads and writes past the end
  of the range.
\<close>

theorem parallel_transfer_overruns:
  assumes c: "chunk_size \<noteq> 0" "chunk_size \<le> sz" "\<not> unat chunk_size dvd unat sz" and ok: "\<And>i. starts i = HG_SUCCESS"
  shows "sum_list (map (\<lambda>(_, _, len). unat len)
    (fst (margo_bulk_parallel_transfer starts waits origin_offset local_offset sz chunk_size))) > unat sz"
proof -
  let ?n = "unat (chunk_count sz chunk_size)"
  have pos: "unat chunk_size > 0" using c(1) by (simp add: unat_gt_0)
  have "unat sz < ?n * unat chunk_size"
    using chunk_count_value [OF c(1), of sz] c(3) dividend_less_div_times [OF pos, of "unat sz"] by simp
  moreover have "fst (margo_bulk_parallel_transfer starts waits origin_offset local_offset sz chunk_size) =
      map (\<lambda>i. (origin_offset + of_nat i * chunk_size, local_offset + of_nat i * chunk_size, chunk_size)) [0..<?n]"
    using parallel_starts_all [of "map starts [0..<?n]" chunk_size sz] c(1,2) ok
    by (auto simp: margo_bulk_parallel_transfer_def Let_def image_subset_iff)
  ultimately show ?thesis by (simp add: comp_def sum_list_triv)
qed

theorem parallel_transfer_overruns_witness:
  "sum_list (map (\<lambda>(_, _, len). unat len)
     (fst (margo_bulk_parallel_transfer (\<lambda>_. HG_SUCCESS) (\<lambda>_. HG_SUCCESS) 0 0 10 4))) > 10"
  using parallel_transfer_overruns [of 4 10 "\<lambda>_. HG_SUCCESS" "\<lambda>_. HG_SUCCESS" 0 0] by (simp add: dvd_def) presburger

text \<open>
  The completion callback reads the request again after it has set the eventual. In between the
  waiter may return the object to the arena and another thread may reuse it for an operation with
  a callback; the end of the completion of the first operation then returns the object of the
  second one, which is still in flight, to the arena.
\<close>

theorem completion_reads_reused_request:
  "\<exists>w1 w2 w3. margo_provider_iforward_timed example_forward (Some 0) 3 5 0 example_requests = Some (w1, HG_SUCCESS, Some 0)
     \<and> margo_wait HG_SUCCESS 0 (cb_complete HG_SUCCESS 0 w1) = Some (w2, HG_SUCCESS) \<and> 0 \<notin> arena_out w2
     \<and> margo_provider_cforward_timed example_forward (Some 0) 3 6 0 (Some 8) None w2 = Some (w3, HG_SUCCESS) \<and> 0 \<in> arena_out w3
     \<and> 0 \<notin> arena_out (cb_finish 0 w3)"
proof -
  note defs = margo_provider_iforward_timed_def margo_provider_cforward_timed_def margo_provider_iforward_internal_def
    forward_body_def handle_mid_def or_release_def callback_request_def arena_request_def margo_wait_def
    margo_wait_internal_def cb_complete_def cb_finish_def progress_decr_def example_defs upd_req_def
  obtain w1 where w1: "margo_provider_iforward_timed example_forward (Some 0) 3 5 0 example_requests = Some (w1, HG_SUCCESS, Some 0)"
    and e: "rq_kind (req w1 0) = MARGO_REQ_EVENTUAL" "rq_timer (req w1 0) = None"
    by (simp add: defs)
  obtain w2 where w2: "margo_wait HG_SUCCESS 0 (cb_complete HG_SUCCESS 0 w1) = Some (w2, HG_SUCCESS)" "0 \<notin> arena_out w2"
    using e by (simp add: margo_wait_def margo_wait_internal_def cb_complete_def Let_def upd_req_def)
  obtain w3 where w3: "margo_provider_cforward_timed example_forward (Some 0) 3 6 0 (Some 8) None w2 = Some (w3, HG_SUCCESS)"
    "0 \<in> arena_out w3" "rq_kind (req w3 0) = MARGO_REQ_CALLBACK"
    by (simp add: defs Let_def)
  then have "0 \<notin> arena_out (cb_finish 0 w3)" by (simp add: cb_finish_def progress_decr_def)
  then show ?thesis using w1 w2 w3 by blast
qed

text \<open>
  When \<open>HG_Forward\<close> fails, \<open>margo_provider_iforward_internal\<close> has nevertheless counted the
  operation as one that needs progress, and no completion will ever undo that.
\<close>

theorem failed_forward_keeps_progress:
  assumes "fe_handle_data e = Some data" "hd_mid data \<noteq> None" "fe_registered e = (HG_SUCCESS, True)" "fe_reset e = HG_SUCCESS"
    "oe_eventual (fe_op e)" "oe_start (fe_op e) \<noteq> HG_SUCCESS"
  shows "\<exists>w1. margo_provider_iforward_internal e provider_id handle 0 r w = (w1, oe_start (fe_op e))
    \<and> progress_count w1 = progress_count w + 1"
  using assms
  by (cases "rq_kind (req w r)")
    (simp_all add: margo_provider_iforward_internal_def forward_body_def forward_register_def op_defs)

theorem failed_forward_keeps_progress_witness:
  "\<exists>w1. margo_provider_iforward_internal (example_forward\<lparr>fe_op := example_op\<lparr>oe_start := HG_NOMEM\<rparr>\<rparr>) 3 5 0 0 example_requests
      = (w1, HG_NOMEM) \<and> progress_count w1 = 1"
  using failed_forward_keeps_progress
    [of "example_forward\<lparr>fe_op := example_op\<lparr>oe_start := HG_NOMEM\<rparr>\<rparr>" "zero_handle_data\<lparr>hd_mid := Some 1\<rparr>" 3 5 0 example_requests]
  by (simp add: example_forward_def example_op_def example_requests_def zero_handle_data_def)

end
