(* ===== verification/Abt_Registry.thy ===== *)
theory Abt_Registry
  imports Margo_Prelude
begin

text \<open>
  The registry of Argobots pools and execution streams of an instance: the arrays of
  \<^verbatim>\<open>src/margo-abt-config.c\<close> and the functions of \<^verbatim>\<open>src/margo-config.c\<close> that search them, count
  references, and add and remove entries. Argobots is a parameter: the pools of the main scheduler
  of an execution stream and the number of units of a pool are arguments.
\<close>

section \<open>Data\<close>

record abt_pool =
  p_name :: "string option"
  p_pool :: ptr
  p_kind :: "string option"
  p_access :: "string option"
  p_refcount :: u32
  p_num_xstreams :: u32
  p_margo_free_flag :: bool
  p_used_by_primary :: bool

definition zero_pool :: abt_pool where
  "zero_pool = \<lparr>p_name = None, p_pool = None, p_kind = None, p_access = None, p_refcount = 0,
     p_num_xstreams = 0, p_margo_free_flag = False, p_used_by_primary = False\<rparr>"

record abt_xstream =
  x_name :: "string option"
  x_xstream :: ptr
  x_refcount :: u32
  x_sched_type :: "string option"
  x_margo_free_flag :: bool

definition zero_xstream :: abt_xstream where
  "zero_xstream = \<lparr>x_name = None, x_xstream = None, x_refcount = 0, x_sched_type = None, x_margo_free_flag = False\<rparr>"

text \<open>
  \<^verbatim>\<open>struct margo_abt\<close>, with the used part of each array as a list, how often the mutex is held, the
  two indices of the instance, and the pools and streams that were freed.
\<close>

record margo_abt =
  pools :: "abt_pool list"
  pools_cap :: nat
  xstreams :: "abt_xstream list"
  xstreams_cap :: nat
  lock_depth :: int
  progress_pool_idx :: nat
  rpc_pool_idx :: nat
  freed_pools :: "ptr list"
  freed_xstreams :: "ptr list"

definition abt_lock :: "margo_abt \<Rightarrow> margo_abt" where
  "abt_lock a = a\<lparr>lock_depth := lock_depth a + 1\<rparr>"

definition abt_unlock :: "margo_abt \<Rightarrow> margo_abt" where
  "abt_unlock a = a\<lparr>lock_depth := lock_depth a - 1\<rparr>"

text \<open>\<^verbatim>\<open>MARGO_PROGRESS_POOL\<close> and \<^verbatim>\<open>MARGO_RPC_POOL\<close>; entries past the used part are zero.\<close>

definition pool_at :: "margo_abt \<Rightarrow> nat \<Rightarrow> abt_pool" where
  "pool_at a i = (if i < length (pools a) then pools a ! i else zero_pool)"

definition progress_pool :: "margo_abt \<Rightarrow> ptr" where
  "progress_pool a = p_pool (pool_at a (progress_pool_idx a))"

definition rpc_pool :: "margo_abt \<Rightarrow> ptr" where
  "rpc_pool a = p_pool (pool_at a (rpc_pool_idx a))"

section \<open>Searching\<close>

text \<open>The result \<open>-1\<close> is \<^const>\<open>None\<close>; entries without a name are skipped.\<close>

definition find_pool_by_name :: "margo_abt \<Rightarrow> string option \<Rightarrow> nat option" where
  "find_pool_by_name a name = (if name = None then None else find_index (\<lambda>p. p_name p = name) (pools a))"

definition find_pool_by_handle :: "margo_abt \<Rightarrow> ptr \<Rightarrow> nat option" where
  "find_pool_by_handle a pool = (if pool = None then None else find_index (\<lambda>p. p_pool p = pool) (pools a))"

definition find_xstream_by_name :: "margo_abt \<Rightarrow> string option \<Rightarrow> nat option" where
  "find_xstream_by_name a name = (if name = None then None else find_index (\<lambda>x. x_name x = name) (xstreams a))"

definition find_xstream_by_handle :: "margo_abt \<Rightarrow> ptr \<Rightarrow> nat option" where
  "find_xstream_by_handle a xstream = (if xstream = None then None else find_index (\<lambda>x. x_xstream x = xstream) (xstreams a))"

section \<open>Unused names\<close>

fun show_nat :: "nat \<Rightarrow> string" where
  "show_nat n = (if n < 10 then [char_of (48 + n)] else show_nat (n div 10) @ [char_of (48 + n mod 10)])"

definition pool_name :: "nat \<Rightarrow> string" where
  "pool_name i = ''__pool_'' @ show_nat i @ ''__''"

definition xstream_name :: "nat \<Rightarrow> string" where
  "xstream_name i = ''__xstream_'' @ show_nat i @ ''__''"

text \<open>The loops try \<open>i\<close>, \<open>i + 1\<close>, and so on, until no entry has the name.\<close>

partial_function (option) unused_pool_name :: "abt_pool list \<Rightarrow> nat \<Rightarrow> string option" where
  "unused_pool_name ps i =
    (if Some (pool_name i) \<in> p_name ` set ps then unused_pool_name ps (i + 1) else Some (pool_name i))"

definition generate_unused_pool_name :: "margo_abt \<Rightarrow> string option" where
  "generate_unused_pool_name a = unused_pool_name (pools a) (length (pools a))"

partial_function (option) unused_xstream_name :: "abt_xstream list \<Rightarrow> nat \<Rightarrow> string option" where
  "unused_xstream_name xs i =
    (if Some (xstream_name i) \<in> x_name ` set xs then unused_xstream_name xs (i + 1) else Some (xstream_name i))"

definition generate_unused_xstream_name :: "margo_abt \<Rightarrow> string option" where
  "generate_unused_xstream_name a = unused_xstream_name (xstreams a) (length (xstreams a))"

section \<open>Adding and removing pools\<close>

definition pool_init_external :: "string option \<Rightarrow> ptr \<Rightarrow> margo_abt \<Rightarrow> abt_pool option" where
  "pool_init_external name pool a = do {
     n \<leftarrow> (case name of Some n \<Rightarrow> Some n | None \<Rightarrow> generate_unused_pool_name a);
     Some (zero_pool\<lparr>p_name := Some n, p_pool := pool, p_kind := Some ''external''\<rparr>)
   }"

text \<open>\<^verbatim>\<open>(unsigned)(cap * 1.5) + 1\<close>; \<open>realloc_ok\<close> says whether the array could grow.\<close>

definition grow_cap :: "nat \<Rightarrow> nat" where
  "grow_cap cap = cap * 3 div 2 + 1"

definition pools_space :: "bool \<Rightarrow> margo_abt \<Rightarrow> margo_abt option" where
  "pools_space realloc_ok a =
    (if length (pools a) = pools_cap a
     then if realloc_ok then Some (a\<lparr>pools_cap := grow_cap (pools_cap a)\<rparr>) else None
     else Some a)"

text \<open>The result says whether the pool was added.\<close>

definition abt_add_external_pool :: "bool \<Rightarrow> string option \<Rightarrow> ptr \<Rightarrow> margo_abt \<Rightarrow> (margo_abt \<times> bool) option" where
  "abt_add_external_pool realloc_ok name pool a =
    (if find_pool_by_name a name \<noteq> None then Some (a, False)
     else if find_pool_by_handle a pool \<noteq> None then Some (a, False)
     else
       (case pools_space realloc_ok a of
          None \<Rightarrow> Some (a, False)
        | Some a \<Rightarrow> do {
            p \<leftarrow> pool_init_external name pool a;
            Some (a\<lparr>pools := pools a @ [p]\<rparr>, True)
          }))"

text \<open>
  The same for a pool described in JSON: \<open>valid\<close> is the result of the validation, \<open>jname\<close> its name if
  it has one, and \<open>create\<close> the handle, kind and access of the pool that was created, unless that
  failed.
\<close>

definition abt_add_pool_from_json ::
  "bool \<Rightarrow> bool \<Rightarrow> string option \<Rightarrow> (addr \<times> string \<times> string option) option \<Rightarrow> margo_abt \<Rightarrow> (margo_abt \<times> bool) option" where
  "abt_add_pool_from_json valid realloc_ok jname create a =
    (if \<not> valid then Some (a, False)
     else if find_pool_by_name a jname \<noteq> None then Some (a, False)
     else
       (case pools_space realloc_ok a of
          None \<Rightarrow> Some (a, False)
        | Some a \<Rightarrow> do {
            n \<leftarrow> (case jname of Some n \<Rightarrow> Some n | None \<Rightarrow> generate_unused_pool_name a);
            Some (case create of
                None \<Rightarrow> (a, False)
              | Some (pool, kind, access) \<Rightarrow>
                  (a\<lparr>pools := pools a @ [zero_pool\<lparr>p_name := Some n, p_pool := Some pool, p_kind := Some kind,
                       p_access := access, p_margo_free_flag := True\<rparr>]\<rparr>, True))
          }))"

definition pool_destroy :: "abt_pool \<Rightarrow> margo_abt \<Rightarrow> margo_abt" where
  "pool_destroy p a =
    (if p_margo_free_flag p \<and> \<not> p_used_by_primary p \<and> p_pool p \<noteq> None
     then a\<lparr>freed_pools := freed_pools a @ [p_pool p]\<rparr> else a)"

text \<open>\<open>total_size\<close> is the result of \<^verbatim>\<open>ABT_pool_get_total_size\<close>, unless it failed.\<close>

definition abt_remove_pool :: "nat option \<Rightarrow> nat \<Rightarrow> margo_abt \<Rightarrow> margo_abt \<times> hg_return" where
  "abt_remove_pool total_size index a =
    (if index \<ge> length (pools a) then (a, HG_INVALID_ARG)
     else
       (let p = pools a ! index
        in if p_refcount p \<noteq> 0 then (a, HG_PERMISSION)
           else if p_num_xstreams p \<noteq> 0 then (a, HG_PERMISSION)
           else
             (case total_size of
                None \<Rightarrow> (a, HG_OTHER_ERROR)
              | Some n \<Rightarrow>
                  if n \<noteq> 0 then (a, HG_PERMISSION)
                  else
                    (let a = pool_destroy p a;
                         ps = pools a;
                         ps = (if index \<noteq> length ps - 1 then ps[index := last ps] else ps)
                     in (a\<lparr>pools := butlast ps\<rparr>, HG_SUCCESS)))))"

section \<open>Adding and removing execution streams\<close>

text \<open>
  \<open>sched\<close> are the pools of the main scheduler of a stream, unless Argobots reports an error. The
  loops look every pool up and stop at one that is not registered.
\<close>

fun count_xstream :: "(u32 \<Rightarrow> u32) \<Rightarrow> bool \<Rightarrow> ptr list \<Rightarrow> margo_abt \<Rightarrow> margo_abt \<times> bool" where
  "count_xstream f primary [] a = (a, True)"
| "count_xstream f primary (pool # ps) a =
    (case find_pool_by_handle a pool of
       None \<Rightarrow> (a, False)
     | Some i \<Rightarrow>
         (let e = pools a ! i;
              e = e\<lparr>p_num_xstreams := f (p_num_xstreams e), p_used_by_primary := p_used_by_primary e \<or> primary\<rparr>
          in count_xstream f primary ps (a\<lparr>pools := (pools a)[i := e]\<rparr>)))"

definition xstream_destroy :: "ptr list option \<Rightarrow> abt_xstream \<Rightarrow> margo_abt \<Rightarrow> margo_abt" where
  "xstream_destroy sched x a =
    (if x_xstream x = None then a
     else
       (let a = (case sched of None \<Rightarrow> a | Some ps \<Rightarrow> fst (count_xstream (\<lambda>n. n - 1) False ps a))
        in if x_margo_free_flag x then a\<lparr>freed_xstreams := freed_xstreams a @ [x_xstream x]\<rparr> else a))"

text \<open>
  \<open>sched_type\<close> is the result of \<^verbatim>\<open>__margo_abt_sched_init_external\<close>, unless it failed. The comparison of
  the name with \<^verbatim>\<open>"__primary__"\<close> dereferences a NULL name (\<^const>\<open>None\<close>).
\<close>

definition xstream_init_external ::
  "ptr list option \<Rightarrow> string option \<Rightarrow> string option \<Rightarrow> ptr \<Rightarrow> margo_abt \<Rightarrow> (margo_abt \<times> abt_xstream option) option" where
  "xstream_init_external sched sched_type name xstream a = do {
     n \<leftarrow> (case name of Some n \<Rightarrow> Some n | None \<Rightarrow> generate_unused_xstream_name a);
     let x = zero_xstream\<lparr>x_name := Some n, x_xstream := xstream\<rparr>;
     (case sched of
        None \<Rightarrow> Some (xstream_destroy None x a, None)
      | Some ps \<Rightarrow>
          if sched_type = None then Some (xstream_destroy sched x a, None)
          else do {
            nm \<leftarrow> name;
            let x = x\<lparr>x_sched_type := sched_type\<rparr>;
            Some (case count_xstream (\<lambda>n. n + 1) (nm = ''__primary__'') ps a of
                (a, True) \<Rightarrow> (a, Some x)
              | (a, False) \<Rightarrow> (xstream_destroy sched x a, None))
          })
   }"

definition xstreams_space :: "bool \<Rightarrow> margo_abt \<Rightarrow> margo_abt option" where
  "xstreams_space realloc_ok a =
    (if length (xstreams a) = xstreams_cap a
     then if realloc_ok then Some (a\<lparr>xstreams_cap := grow_cap (xstreams_cap a)\<rparr>) else None
     else Some a)"

definition abt_add_external_xstream ::
  "bool \<Rightarrow> ptr list option \<Rightarrow> string option \<Rightarrow> string option \<Rightarrow> ptr \<Rightarrow> margo_abt \<Rightarrow> (margo_abt \<times> bool) option" where
  "abt_add_external_xstream realloc_ok sched sched_type name xstream a =
    (if find_xstream_by_name a name \<noteq> None then Some (a, False)
     else if find_xstream_by_handle a xstream \<noteq> None then Some (a, False)
     else
       (case xstreams_space realloc_ok a of
          None \<Rightarrow> Some (a, False)
        | Some a \<Rightarrow> do {
            (a, x) \<leftarrow> xstream_init_external sched sched_type name xstream a;
            Some (case x of None \<Rightarrow> (a, False) | Some x \<Rightarrow> (a\<lparr>xstreams := xstreams a @ [x]\<rparr>, True))
          }))"

text \<open>A stream without a name makes \<^verbatim>\<open>strcmp\<close> read NULL (\<^const>\<open>None\<close>).\<close>

definition abt_remove_xstream :: "ptr list option \<Rightarrow> nat \<Rightarrow> margo_abt \<Rightarrow> (margo_abt \<times> hg_return) option" where
  "abt_remove_xstream sched index a =
    (if index \<ge> length (xstreams a) then Some (a, HG_INVALID_ARG)
     else do {
       let x = xstreams a ! index;
       n \<leftarrow> x_name x;
       Some (if n = ''__primary__'' then (a, HG_PERMISSION)
             else if x_refcount x \<noteq> 0 then (a, HG_PERMISSION)
             else
               (let a = xstream_destroy sched x a;
                    xs = xstreams a;
                    xs = (if index \<noteq> length xs - 1 then xs[index := last xs] else xs)
                in (a\<lparr>xstreams := butlast xs\<rparr>, HG_SUCCESS)))
     })"

section \<open>Tables of named handles\<close>

lemma find_index_append:
  "find_index P (xs @ ys) = (case find_index P xs of Some i \<Rightarrow> Some i | None \<Rightarrow> map_option (\<lambda>i. i + length xs) (find_index P ys))"
  by (induction xs) (auto simp: option.map_comp o_def option.map_ident split: option.splits)

lemma find_index_map: "find_index P (map f xs) = find_index (\<lambda>x. P (f x)) xs"
  by (induction xs) auto

lemma find_index_distinct:
  "distinct (map f xs) \<Longrightarrow> i < length xs \<Longrightarrow> find_index (\<lambda>x. f x = f (xs ! i)) xs = Some i"
  by (rule find_index_SomeI) (auto simp: distinct_conv_nth)

lemma distinct_submset: "mset ys \<subseteq># mset xs \<Longrightarrow> distinct xs \<Longrightarrow> distinct ys"
proof -
  assume sub: "mset ys \<subseteq># mset xs" and d: "distinct xs"
  have "count (mset ys) a \<le> count (mset xs) a" for a using sub by (rule mset_subset_eq_count)
  then have "count (mset ys) a \<le> 1" for a using d by (metis distinct_count_atmost_1 le_trans nle_le zero_le_one)
  then show "distinct ys"
    unfolding distinct_count_atmost_1 by (metis count_mset_0_iff le_neq_implies_less less_one)
qed

lemma distinct_map_submset: "mset ys \<subseteq># mset xs \<Longrightarrow> distinct (map f xs) \<Longrightarrow> distinct (map f ys)"
  by (rule distinct_submset [of "map f ys" "map f xs"]) (simp_all add: image_mset_subseteq_mono)

lemma set_swap_last:
  assumes i: "i < length xs" and d: "distinct xs"
  shows "set (butlast (xs[i := last xs])) = set xs - {xs ! i}"
proof -
  have "a \<in> set (butlast (xs[i := last xs])) \<longleftrightarrow> a \<in> set xs - {xs ! i}" for a
  proof -
    have "a \<in> set (butlast (xs[i := last xs])) \<longleftrightarrow> a \<in># mset xs - {# xs ! i #}"
      by (simp only: mset_update_swap_last [OF i, symmetric] set_mset_mset)
    also have "\<dots> \<longleftrightarrow> count (mset xs) a > (if a = xs ! i then 1 else 0)" by (auto simp: in_diff_count)
    finally show ?thesis using d unfolding distinct_count_atmost_1 by auto
  qed
  then show ?thesis by blast
qed

text \<open>
  What the clients of the registry rely on, for the table of pools and for that of streams: the
  entries, seen as names and handles, and the two searches.
\<close>

locale named_table =
  fixes table :: "'s \<Rightarrow> (string option \<times> ptr) list"
    and find_name :: "'s \<Rightarrow> string option \<Rightarrow> nat option"
    and find_handle :: "'s \<Rightarrow> ptr \<Rightarrow> nat option"
  assumes find_name_law: "find_name s n = (if n = None then None else find_index (\<lambda>e. fst e = n) (table s))"
    and find_handle_law: "find_handle s h = (if h = None then None else find_index (\<lambda>e. snd e = h) (table s))"
begin

definition unique :: "'s \<Rightarrow> bool" where
  "unique s \<longleftrightarrow> distinct (map fst (table s)) \<and> distinct (map snd (table s))
     \<and> None \<notin> fst ` set (table s) \<and> None \<notin> snd ` set (table s)"

lemma find_iff:
  assumes "unique s"
  shows "find_name s (Some n) = Some i \<longleftrightarrow> i < length (table s) \<and> fst (table s ! i) = Some n"
    "find_handle s (Some h) = Some i \<longleftrightarrow> i < length (table s) \<and> snd (table s ! i) = Some h"
proof -
  show "find_name s (Some n) = Some i \<longleftrightarrow> i < length (table s) \<and> fst (table s ! i) = Some n"
    using assms find_index_distinct [of fst "table s" i] find_index_SomeD [of "\<lambda>e. fst e = Some n" "table s" i]
    by (auto simp: find_name_law unique_def)
  show "find_handle s (Some h) = Some i \<longleftrightarrow> i < length (table s) \<and> snd (table s ! i) = Some h"
    using assms find_index_distinct [of snd "table s" i] find_index_SomeD [of "\<lambda>e. snd e = Some h" "table s" i]
    by (auto simp: find_handle_law unique_def)
qed

text \<open>An entry whose name and handle are not found can be appended; all others keep their index.\<close>

lemma append_entry:
  assumes u: "unique s" and t: "table s' = table s @ [(Some n, Some h)]"
    and new: "find_name s (Some n) = None" "find_handle s (Some h) = None"
  shows "unique s'" "find_name s' (Some n) = Some (length (table s))" "find_handle s' (Some h) = Some (length (table s))"
    "find_name s m = Some i \<Longrightarrow> find_name s' m = Some i" "find_handle s k = Some i \<Longrightarrow> find_handle s' k = Some i"
proof -
  have "Some n \<notin> fst ` set (table s)" "Some h \<notin> snd ` set (table s)"
    using new by (auto simp: find_name_law find_handle_law find_index_None_iff)
  then show u': "unique s'" using u t by (auto simp: unique_def)
  show "find_name s' (Some n) = Some (length (table s))" "find_handle s' (Some h) = Some (length (table s))"
    using find_iff [OF u'] t by auto
  show "find_name s m = Some i \<Longrightarrow> find_name s' m = Some i" "find_handle s k = Some i \<Longrightarrow> find_handle s' k = Some i"
    using t by (auto simp: find_name_law find_handle_law find_index_append split: if_splits)
qed

text \<open>Removing an entry by moving the last one into its place leaves exactly the others.\<close>

lemma swap_remove:
  assumes u: "unique s" and i: "i < length (table s)" and t: "table s' = butlast ((table s)[i := last (table s)])"
  shows "unique s'" "set (table s') = set (table s) - {table s ! i}"
    "find_handle s' (snd (table s ! i)) = None"
proof -
  have d: "distinct (table s)" using u by (auto simp: unique_def distinct_map)
  show s: "set (table s') = set (table s) - {table s ! i}" using set_swap_last [OF i d] t by simp
  have sub: "mset (table s') \<subseteq># mset (table s)" using mset_update_swap_last [OF i] t by simp
  show u': "unique s'" 
    using u distinct_map_submset [OF sub, of fst] distinct_map_submset [OF sub, of snd] s by (auto simp: unique_def)
  have "snd e \<noteq> snd (table s ! i)" if "e \<in> set (table s')" for e
    using that s u i by (auto simp: unique_def distinct_map inj_on_def)
  then show "find_handle s' (snd (table s ! i)) = None" by (auto simp: find_handle_law find_index_None_iff)
qed

end

abbreviation pool_table :: "margo_abt \<Rightarrow> (string option \<times> ptr) list" where
  "pool_table a \<equiv> map (\<lambda>p. (p_name p, p_pool p)) (pools a)"

abbreviation xstream_table :: "margo_abt \<Rightarrow> (string option \<times> ptr) list" where
  "xstream_table a \<equiv> map (\<lambda>x. (x_name x, x_xstream x)) (xstreams a)"

interpretation ptab: named_table pool_table find_pool_by_name find_pool_by_handle
  by unfold_locales (simp_all add: find_pool_by_name_def find_pool_by_handle_def find_index_map)

interpretation xtab: named_table xstream_table find_xstream_by_name find_xstream_by_handle
  by unfold_locales (simp_all add: find_xstream_by_name_def find_xstream_by_handle_def find_index_map)

section \<open>Generated names\<close>

declare show_nat.simps [simp del]

lemma show_nat_snoc: "\<exists>ds. show_nat n = ds @ [char_of (48 + n mod 10)] \<and> (ds = [] \<longleftrightarrow> n < 10) \<and> (n \<ge> 10 \<longrightarrow> ds = show_nat (n div 10))"
proof (cases "n < 10")
  case True
  then show ?thesis by (intro exI [of _ "[]"]) (simp add: show_nat.simps [of n])
next
  case False
  then show ?thesis
    by (intro exI [of _ "show_nat (n div 10)"]) (simp add: show_nat.simps [of n] show_nat.simps [of "n div 10"])
qed

lemma char_digit_eq: "(char_of (48 + m mod 10) :: char) = char_of (48 + n mod 10) \<longleftrightarrow> m mod 10 = (n :: nat) mod 10"
proof
  assume "(char_of (48 + m mod 10) :: char) = char_of (48 + n mod 10)"
  then have "(of_char (char_of (48 + m mod 10) :: char) :: nat) = of_char (char_of (48 + n mod 10) :: char)" by simp
  moreover have "48 + m mod 10 < 256" "48 + n mod 10 < 256" by (auto intro: le_less_trans [of _ "48 + 9"])
  ultimately show "m mod 10 = n mod 10" by (simp add: of_char_of)
qed simp

lemma show_nat_inj: "show_nat m = show_nat n \<Longrightarrow> m = n"
proof (induction m arbitrary: n rule: less_induct)
  case (less m)
  obtain ds where ds: "show_nat m = ds @ [char_of (48 + m mod 10)]" "ds = [] \<longleftrightarrow> m < 10" "m \<ge> 10 \<longrightarrow> ds = show_nat (m div 10)"
    using show_nat_snoc by blast
  obtain es where es: "show_nat n = es @ [char_of (48 + n mod 10)]" "es = [] \<longleftrightarrow> n < 10" "n \<ge> 10 \<longrightarrow> es = show_nat (n div 10)"
    using show_nat_snoc by blast
  have eq: "ds = es" "m mod 10 = n mod 10" using less.prems ds(1) es(1) char_digit_eq by auto
  show ?case
  proof (cases "m < 10")
    case True
    then show ?thesis using ds es eq by simp
  next
    case False
    then have "show_nat (m div 10) = show_nat (n div 10)" using ds es eq by auto
    then have "m div 10 = n div 10" using less.IH [of "m div 10"] False by simp
    then show ?thesis using eq(2) by (metis div_mult_mod_eq)
  qed
qed

lemma inj_pool_name: "inj pool_name"
  by (rule injI) (auto simp: pool_name_def dest: show_nat_inj)

lemma inj_xstream_name: "inj xstream_name"
  by (rule injI) (auto simp: xstream_name_def dest: show_nat_inj)

text \<open>Among one more candidates than there are names, one is unused.\<close>

lemma unused_candidate:
  assumes "inj (f :: nat \<Rightarrow> 'a)" "finite N" "card N \<le> k"
  shows "\<exists>i. n \<le> i \<and> i \<le> n + k \<and> f i \<notin> N \<and> (\<forall>j. n \<le> j \<and> j < i \<longrightarrow> f j \<in> N)"
proof -
  have "card (f ` {n..n + k}) = Suc k" using assms(1) by (simp add: card_image inj_on_def)
  then have "\<not> f ` {n..n + k} \<subseteq> N" using assms(2,3) by (metis card_mono not_less_eq_eq)
  then obtain i0 where "i0 \<in> {n..n + k}" "f i0 \<notin> N" by blast
  then have "n \<le> i0" "i0 \<le> n + k" by simp_all
  define i where "i = (LEAST i. n \<le> i \<and> f i \<notin> N)"
  have "n \<le> i \<and> f i \<notin> N" unfolding i_def by (rule LeastI [of _ i0]) (use \<open>n \<le> i0\<close> \<open>f i0 \<notin> N\<close> in simp)
  moreover have "i \<le> i0" unfolding i_def by (rule Least_le) (use \<open>n \<le> i0\<close> \<open>f i0 \<notin> N\<close> in simp)
  moreover have "f j \<in> N" if "n \<le> j" "j < i" for j
    using that not_less_Least [of j "\<lambda>i. n \<le> i \<and> f i \<notin> N"] unfolding i_def by auto
  ultimately show ?thesis using \<open>i0 \<le> n + k\<close> by (intro exI [of _ i]) auto
qed

lemma unused_pool_name_reaches:
  "n \<le> i \<Longrightarrow> Some (pool_name i) \<notin> p_name ` set ps \<Longrightarrow> (\<forall>j. n \<le> j \<and> j < i \<longrightarrow> Some (pool_name j) \<in> p_name ` set ps) \<Longrightarrow>
   unused_pool_name ps n = Some (pool_name i)"
proof (induction "i - n" arbitrary: n)
  case 0
  then show ?case by (simp add: unused_pool_name.simps)
next
  case (Suc k)
  then have "unused_pool_name ps (n + 1) = Some (pool_name i)" by (intro Suc.hyps(1)) auto
  moreover have "Some (pool_name n) \<in> p_name ` set ps" using Suc by auto
  ultimately show ?case by (subst unused_pool_name.simps) simp
qed

lemma unused_xstream_name_reaches:
  "n \<le> i \<Longrightarrow> Some (xstream_name i) \<notin> x_name ` set xs \<Longrightarrow> (\<forall>j. n \<le> j \<and> j < i \<longrightarrow> Some (xstream_name j) \<in> x_name ` set xs) \<Longrightarrow>
   unused_xstream_name xs n = Some (xstream_name i)"
proof (induction "i - n" arbitrary: n)
  case 0
  then show ?case by (simp add: unused_xstream_name.simps)
next
  case (Suc k)
  then have "unused_xstream_name xs (n + 1) = Some (xstream_name i)" by (intro Suc.hyps(1)) auto
  moreover have "Some (xstream_name n) \<in> x_name ` set xs" using Suc by auto
  ultimately show ?case by (subst unused_xstream_name.simps) simp
qed

lemma generate_unused_pool_name_ok:
  "\<exists>n. generate_unused_pool_name a = Some n \<and> Some n \<notin> p_name ` set (pools a) \<and> n \<in> range pool_name"
proof -
  have "inj (\<lambda>i. Some (pool_name i))" using inj_pool_name by (auto simp: inj_def)
  moreover have "card (p_name ` set (pools a)) \<le> length (pools a)"
    using card_image_le card_length le_trans by blast
  ultimately obtain i where "length (pools a) \<le> i" "Some (pool_name i) \<notin> p_name ` set (pools a)"
      "\<forall>j. length (pools a) \<le> j \<and> j < i \<longrightarrow> Some (pool_name j) \<in> p_name ` set (pools a)"
    using unused_candidate [of "\<lambda>i. Some (pool_name i)" "p_name ` set (pools a)" "length (pools a)" "length (pools a)"] by auto
  then show ?thesis using unused_pool_name_reaches by (auto simp: generate_unused_pool_name_def)
qed

lemma generate_unused_xstream_name_ok:
  "\<exists>n. generate_unused_xstream_name a = Some n \<and> Some n \<notin> x_name ` set (xstreams a) \<and> n \<in> range xstream_name"
proof -
  have "inj (\<lambda>i. Some (xstream_name i))" using inj_xstream_name by (auto simp: inj_def)
  moreover have "card (x_name ` set (xstreams a)) \<le> length (xstreams a)"
    using card_image_le card_length le_trans by blast
  ultimately obtain i where "length (xstreams a) \<le> i" "Some (xstream_name i) \<notin> x_name ` set (xstreams a)"
      "\<forall>j. length (xstreams a) \<le> j \<and> j < i \<longrightarrow> Some (xstream_name j) \<in> x_name ` set (xstreams a)"
    using unused_candidate [of "\<lambda>i. Some (xstream_name i)" "x_name ` set (xstreams a)" "length (xstreams a)" "length (xstreams a)"]
    by auto
  then show ?thesis using unused_xstream_name_reaches by (auto simp: generate_unused_xstream_name_def)
qed

section \<open>The invariant of the registry\<close>

text \<open>
  \<open>sp\<close> are the pools of the main scheduler of each stream, which do not change. A pool counts how
  often the streams use it, and the streams use registered pools only.
\<close>

definition uses :: "(ptr \<Rightarrow> ptr list) \<Rightarrow> abt_xstream list \<Rightarrow> ptr \<Rightarrow> nat" where
  "uses sp xs h = (\<Sum>x \<leftarrow> xs. count_list (sp (x_xstream x)) h)"

definition registry_ok :: "(ptr \<Rightarrow> ptr list) \<Rightarrow> margo_abt \<Rightarrow> bool" where
  "registry_ok sp a \<longleftrightarrow> ptab.unique a \<and> xtab.unique a
     \<and> (\<forall>p \<in> set (pools a). p_num_xstreams p = of_nat (uses sp (xstreams a) (p_pool p)))
     \<and> (\<forall>x \<in> set (xstreams a). set (sp (x_xstream x)) \<subseteq> p_pool ` set (pools a))
     \<and> (\<forall>h. uses sp (xstreams a) h < 2 ^ 32)"

lemma uses_simps [simp]:
  "uses sp [] h = 0" "uses sp (x # xs) h = count_list (sp (x_xstream x)) h + uses sp xs h"
  "uses sp (xs @ ys) h = uses sp xs h + uses sp ys h"
  by (simp_all add: uses_def)

lemma uses_0: "(\<And>x. x \<in> set xs \<Longrightarrow> h \<notin> set (sp (x_xstream x))) \<Longrightarrow> uses sp xs h = 0"
  by (induction xs) auto

lemma uses_pos: "uses sp xs h = 0 \<Longrightarrow> x \<in> set xs \<Longrightarrow> h \<notin> set (sp (x_xstream x))"
  by (induction xs) (auto simp: count_list_0_iff)

lemma uses_mset: "mset xs = mset ys \<Longrightarrow> uses sp xs h = uses sp ys h"
  unfolding uses_def by (metis mset_map sum_mset_sum_list)

text \<open>Only the names and handles matter to the searches.\<close>

lemma ptab_unique_cong: "pool_table a = pool_table a' \<Longrightarrow> ptab.unique a = ptab.unique a'"
  by (simp add: ptab.unique_def)

lemma xtab_unique_cong: "xstreams a = xstreams a' \<Longrightarrow> xtab.unique a = xtab.unique a'"
  by (simp add: xtab.unique_def)

text \<open>Adding a pool.\<close>

lemma add_pool_keeps:
  assumes ok: "registry_ok sp a" and t: "pools a' = pools a @ [p]" "xstreams a' = xstreams a"
    and p: "p_name p = Some n" "p_pool p = Some h" "p_num_xstreams p = 0"
    and new: "find_pool_by_name a (Some n) = None" "find_pool_by_handle a (Some h) = None"
  shows "registry_ok sp a'"
proof -
  have u: "ptab.unique a" using ok by (simp add: registry_ok_def)
  have "pool_table a' = pool_table a @ [(Some n, Some h)]" using t p by simp
  from ptab.append_entry(1) [OF u this new] have u': "ptab.unique a'" .
  have "Some h \<notin> p_pool ` set (pools a)"
    using new(2) by (auto simp: find_pool_by_handle_def find_index_None_iff)
  then have "uses sp (xstreams a) (Some h) = 0" using ok by (intro uses_0) (auto simp: registry_ok_def)
  then show ?thesis
    using ok u' t p xtab_unique_cong [of a' a] by (auto simp: registry_ok_def)
qed

text \<open>Removing a pool that nobody uses.\<close>

lemma remove_pool_keeps:
  assumes ok: "registry_ok sp a" and i: "i < length (pools a)" and z: "p_num_xstreams (pools a ! i) = 0"
    and t: "pools a' = butlast ((pools a)[i := last (pools a)])" "xstreams a' = xstreams a"
  shows "registry_ok sp a'" "set (pools a') = set (pools a) - {pools a ! i}"
    "\<And>x. x \<in> set (xstreams a) \<Longrightarrow> p_pool (pools a ! i) \<notin> set (sp (x_xstream x))"
    "find_pool_by_handle a' (p_pool (pools a ! i)) = None"
proof -
  have u: "ptab.unique a" using ok by (simp add: registry_ok_def)
  have ne: "pools a \<noteq> []" using i by auto
  have d: "distinct (pools a)" using u by (auto simp: ptab.unique_def distinct_map comp_def inj_on_def)
  have tab: "pool_table a' = butlast ((pool_table a)[i := last (pool_table a)])"
    using t(1) i ne by (simp add: map_butlast map_update last_map)
  have il: "i < length (pool_table a)" using i by simp
  note sw = ptab.swap_remove [OF u il tab]
  show s: "set (pools a') = set (pools a) - {pools a ! i}" using set_swap_last [OF i d] t(1) by simp
  have "of_nat (uses sp (xstreams a) (p_pool (pools a ! i))) = (0 :: u32)" "uses sp (xstreams a) (p_pool (pools a ! i)) < 2 ^ 32"
    using ok z i by (auto simp: registry_ok_def dest!: bspec [of _ _ "pools a ! i"])
  then have z': "uses sp (xstreams a) (p_pool (pools a ! i)) = 0"
    by (simp add: word_of_nat_eq_0_iff nat_dvd_not_less) (use nat_dvd_not_less in fastforce)
  then show nu: "p_pool (pools a ! i) \<notin> set (sp (x_xstream x))" if "x \<in> set (xstreams a)" for x
    using uses_pos that by blast
  show "find_pool_by_handle a' (p_pool (pools a ! i)) = None" using sw(3) i by simp
  have "set (sp (x_xstream x)) \<subseteq> p_pool ` set (pools a')" if "x \<in> set (xstreams a)" for x
    using ok nu [OF that] that s by (fastforce simp: registry_ok_def)
  then show "registry_ok sp a'"
    using ok sw(1) s t(2) xtab_unique_cong [of a' a] by (auto simp: registry_ok_def)
qed

section \<open>Counting the streams of a pool\<close>

text \<open>What a pass over the pools \<open>ps\<close> of a stream does to an entry.\<close>

definition counted :: "(u32 \<Rightarrow> u32) \<Rightarrow> bool \<Rightarrow> ptr list \<Rightarrow> abt_pool \<Rightarrow> abt_pool" where
  "counted f primary ps p =
     p\<lparr>p_num_xstreams := (f ^^ count_list ps (p_pool p)) (p_num_xstreams p),
       p_used_by_primary := p_used_by_primary p \<or> (primary \<and> p_pool p \<in> set ps)\<rparr>"

lemma counted_simps [simp]:
  "p_name (counted f b ps p) = p_name p" "p_pool (counted f b ps p) = p_pool p"
  "p_refcount (counted f b ps p) = p_refcount p"
  "p_num_xstreams (counted f b ps p) = (f ^^ count_list ps (p_pool p)) (p_num_xstreams p)"
  by (simp_all add: counted_def)

lemma counted_Nil [simp]: "counted f b [] = id"
  by (auto simp: counted_def fun_eq_iff)

lemma counted_update:
  assumes d: "distinct (map p_pool xs)" and i: "i < length xs" "p_pool (xs ! i) = q"
  shows "map (counted f b ps) (xs[i := (xs ! i)\<lparr>p_num_xstreams := f (p_num_xstreams (xs ! i)),
      p_used_by_primary := p_used_by_primary (xs ! i) \<or> b\<rparr>]) = map (counted f b (q # ps)) xs"
proof (rule nth_equalityI)
  fix j assume j: "j < length (map (counted f b ps) (xs[i := (xs ! i)\<lparr>p_num_xstreams := f (p_num_xstreams (xs ! i)),
      p_used_by_primary := p_used_by_primary (xs ! i) \<or> b\<rparr>]))"
  have "p_pool (xs ! j) \<noteq> q" if "j \<noteq> i" using d i j that by (auto simp: distinct_conv_nth)
  then show "map (counted f b ps) (xs[i := (xs ! i)\<lparr>p_num_xstreams := f (p_num_xstreams (xs ! i)),
      p_used_by_primary := p_used_by_primary (xs ! i) \<or> b\<rparr>]) ! j = map (counted f b (q # ps)) xs ! j"
    using i j by (cases "j = i"; cases b) (auto simp: counted_def funpow_swap1)
qed simp

lemma count_xstream_prefix:
  assumes "ptab.unique a" "set qs \<subseteq> p_pool ` set (pools a)"
  shows "count_xstream f b (qs @ rs) a = count_xstream f b rs (a\<lparr>pools := map (counted f b qs) (pools a)\<rparr>)"
  using assms
proof (induction qs arbitrary: a)
  case Nil
  then show ?case by simp
next
  case (Cons q qs)
  obtain i where i: "i < length (pools a)" "p_pool (pools a ! i) = q" using Cons.prems(2) by (auto simp: in_set_conv_nth)
  have "q \<noteq> None" using Cons.prems by (force simp: ptab.unique_def)
  then have f: "find_pool_by_handle a q = Some i" using ptab.find_iff(2) [OF Cons.prems(1), of _ i] i by auto
  have d: "distinct (map p_pool (pools a))" using Cons.prems(1) by (simp add: ptab.unique_def comp_def)
  let ?e = "(pools a ! i)\<lparr>p_num_xstreams := f (p_num_xstreams (pools a ! i)), p_used_by_primary := p_used_by_primary (pools a ! i) \<or> b\<rparr>"
  let ?a = "a\<lparr>pools := (pools a)[i := ?e]\<rparr>"
  have tab: "pool_table ?a = pool_table a"
    using i by (simp add: map_update) (metis (no_types, lifting) length_map list_update_id nth_map)
  then have u: "ptab.unique ?a" using Cons.prems(1) ptab_unique_cong by blast
  have "p_pool ` set (pools ?a) = p_pool ` set (pools a)"
    using arg_cong [OF tab, of "\<lambda>t. snd ` set t"] by (simp add: image_image)
  then have "count_xstream f b (qs @ rs) ?a = count_xstream f b rs (?a\<lparr>pools := map (counted f b qs) (pools ?a)\<rparr>)"
    using Cons.prems(2) by (intro Cons.IH [OF u]) auto
  then show ?case using f counted_update [OF d i] by (simp add: Let_def)
qed

lemma count_xstream_all:
  "ptab.unique a \<Longrightarrow> set ps \<subseteq> p_pool ` set (pools a) \<Longrightarrow>
   count_xstream f b ps a = (a\<lparr>pools := map (counted f b ps) (pools a)\<rparr>, True)"
  using count_xstream_prefix [of a ps f b "[]"] by simp

lemma count_xstream_stops:
  assumes "ptab.unique a" "set qs \<subseteq> p_pool ` set (pools a)" "find_pool_by_handle a q = None"
  shows "count_xstream f b (qs @ q # rs) a = (a\<lparr>pools := map (counted f b qs) (pools a)\<rparr>, False)"
proof -
  have "find_pool_by_handle (a\<lparr>pools := map (counted f b qs) (pools a)\<rparr>) q = None"
    using assms(3) by (simp add: find_pool_by_handle_def find_index_map split: if_splits)
  then show ?thesis using count_xstream_prefix [OF assms(1,2), of f b "q # rs"] by simp
qed

lemma funpow_add_word: "((\<lambda>n. n + 1) ^^ k) x = x + (of_nat k :: u32)" "((\<lambda>n. n - 1) ^^ k) x = x - (of_nat k :: u32)"
  by (induction k) (simp_all add: algebra_simps)

lemma find_pool_by_handle_registered: "find_pool_by_handle a q \<noteq> None \<Longrightarrow> q \<in> p_pool ` set (pools a)"
proof -
  assume "find_pool_by_handle a q \<noteq> None"
  then obtain i where "find_index (\<lambda>p. p_pool p = q) (pools a) = Some i"
    by (auto simp: find_pool_by_handle_def split: if_splits)
  then show ?thesis using find_index_SomeD [of "\<lambda>p. p_pool p = q" "pools a" i] by force
qed

lemma first_unregistered:
  "(\<exists>q \<in> set ps. find_pool_by_handle a q = None) \<Longrightarrow> None \<notin> set ps \<Longrightarrow>
   \<exists>qs q rs. ps = qs @ q # rs \<and> set qs \<subseteq> p_pool ` set (pools a) \<and> find_pool_by_handle a q = None"
proof -
  assume "\<exists>q \<in> set ps. find_pool_by_handle a q = None" "None \<notin> set ps"
  then obtain qs q rs where p: "ps = qs @ q # rs" "find_pool_by_handle a q = None" "\<forall>r \<in> set qs. find_pool_by_handle a r \<noteq> None"
    using split_list_first_prop [of ps "\<lambda>q. find_pool_by_handle a q = None"] by blast
  have "set qs \<subseteq> p_pool ` set (pools a)" using p(3) find_pool_by_handle_registered by blast
  then show ?thesis using p by blast
qed

section \<open>The operations keep the invariant\<close>

lemma registry_okD:
  assumes "registry_ok sp a"
  shows "ptab.unique a" "xtab.unique a" "p \<in> set (pools a) \<Longrightarrow> p_num_xstreams p = of_nat (uses sp (xstreams a) (p_pool p))"
    "x \<in> set (xstreams a) \<Longrightarrow> set (sp (x_xstream x)) \<subseteq> p_pool ` set (pools a)" "uses sp (xstreams a) h < 2 ^ 32"
  using assms by (auto simp: registry_ok_def)

lemma table_counted: "pool_table (a\<lparr>pools := map (counted f b ps) (pools a)\<rparr>) = pool_table a"
  by simp

lemma add_xstream_keeps:
  assumes ok: "registry_ok sp a" and new: "find_xstream_by_name a (Some n) = None" "find_xstream_by_handle a (Some h) = None"
    and ps: "set (sp (Some h)) \<subseteq> p_pool ` set (pools a)" and x: "x_name x = Some n" "x_xstream x = Some h"
    and bound: "\<And>q. uses sp (xstreams a) q + count_list (sp (Some h)) q < 2 ^ 32"
    and t: "pools a' = map (counted (\<lambda>n. n + 1) b (sp (Some h))) (pools a)" "xstreams a' = xstreams a @ [x]"
  shows "registry_ok sp a'"
proof -
  have "xstream_table a' = xstream_table a @ [(Some n, Some h)]" using t x by simp
  then have "xtab.unique a'" by (rule xtab.append_entry(1) [OF registry_okD(2) [OF ok] _ new])
  moreover have "ptab.unique a'" using registry_okD(1) [OF ok] t(1) by (simp add: ptab.unique_def comp_def)
  ultimately show ?thesis
    using registry_okD(3,4) [OF ok] t x ps bound by (auto simp: registry_ok_def funpow_add_word image_image)
qed

lemma remove_xstream_keeps:
  assumes ok: "registry_ok sp a" and i: "i < length (xstreams a)"
    and t: "pools a' = map (counted (\<lambda>n. n - 1) b (sp (x_xstream (xstreams a ! i)))) (pools a)"
      "xstreams a' = butlast ((xstreams a)[i := last (xstreams a)])"
  shows "registry_ok sp a'" "set (xstreams a') = set (xstreams a) - {xstreams a ! i}"
proof -
  have ne: "xstreams a \<noteq> []" using i by auto
  have tab: "xstream_table a' = butlast ((xstream_table a)[i := last (xstream_table a)])"
    using t(2) i ne by (simp add: map_butlast map_update last_map)
  have "i < length (xstream_table a)" using i by simp
  note sw = xtab.swap_remove [OF registry_okD(2) [OF ok] this tab]
  have d: "distinct (xstreams a)" using registry_okD(2) [OF ok] by (auto simp: xtab.unique_def distinct_map comp_def inj_on_def)
  show s: "set (xstreams a') = set (xstreams a) - {xstreams a ! i}" using set_swap_last [OF i d] t(2) by simp
  have "mset (xstreams a) = mset (xstreams a ! i # xstreams a')"
    using mset_update_swap_last [OF i] t(2) i by (simp add: insert_DiffM nth_mem_mset)
  from uses_mset [OF this] have u: "uses sp (xstreams a) h = count_list (sp (x_xstream (xstreams a ! i))) h + uses sp (xstreams a') h" for h
    by simp
  have "ptab.unique a'" using registry_okD(1) [OF ok] t(1) by (simp add: ptab.unique_def comp_def)
  moreover have "p_num_xstreams p = of_nat (uses sp (xstreams a') (p_pool p))" if "p \<in> set (pools a')" for p
    using that registry_okD(3) [OF ok] t(1) u by (auto simp: funpow_add_word)
  moreover have "set (sp (x_xstream x)) \<subseteq> p_pool ` set (pools a')" if "x \<in> set (xstreams a')" for x
    using that registry_okD(4) [OF ok, of x] t(1) s by (simp add: image_image)
  moreover have "uses sp (xstreams a') h < 2 ^ 32" for h using registry_okD(5) [OF ok, of h] u [of h] by linarith
  ultimately show "registry_ok sp a'" using sw(1) by (simp add: registry_ok_def)
qed

end
