(* ===== verification/Config_Api.thy ===== *)
theory Config_Api
  imports Abt_Registry
begin

text \<open>
  The public functions of \<^verbatim>\<open>src/margo-config.c\<close> on the registry of pools and execution streams:
  each takes the mutex of the registry, searches by handle, name or index, and releases the mutex.
  The instance pointer may be NULL. Monitoring is left out.
\<close>

section \<open>Shape of the functions\<close>

text \<open>\<^verbatim>\<open>if (!mid) return r\<close>, and the rest of the function on the registry of the instance.\<close>

definition on_mid :: "margo_abt option \<Rightarrow> 'r \<Rightarrow> (margo_abt \<Rightarrow> margo_abt \<times> 'r) \<Rightarrow> margo_abt option \<times> 'r" where
  "on_mid mid r f = (case mid of None \<Rightarrow> (None, r) | Some a \<Rightarrow> (case f a of (a', r') \<Rightarrow> (Some a', r')))"

text \<open>What the searches report: \<^verbatim>\<open>struct margo_pool_info\<close> and \<^verbatim>\<open>struct margo_xstream_info\<close>.\<close>

type_synonym info = "nat \<times> string option \<times> ptr"

definition pool_info :: "margo_abt \<Rightarrow> nat \<Rightarrow> info" where
  "pool_info a i = (i, p_name (pools a ! i), p_pool (pools a ! i))"

definition xstream_info :: "margo_abt \<Rightarrow> nat \<Rightarrow> info" where
  "xstream_info a i = (i, x_name (xstreams a ! i), x_xstream (xstreams a ! i))"

definition set_pool_refcount :: "nat \<Rightarrow> (u32 \<Rightarrow> u32) \<Rightarrow> margo_abt \<Rightarrow> margo_abt" where
  "set_pool_refcount i f a =
    (let p = pools a ! i in a\<lparr>pools := (pools a)[i := p\<lparr>p_refcount := f (p_refcount p)\<rparr>]\<rparr>)"

definition set_xstream_refcount :: "nat \<Rightarrow> (u32 \<Rightarrow> u32) \<Rightarrow> margo_abt \<Rightarrow> margo_abt" where
  "set_xstream_refcount i f a =
    (let x = xstreams a ! i in a\<lparr>xstreams := (xstreams a)[i := x\<lparr>x_refcount := f (x_refcount x)\<rparr>]\<rparr>)"

definition margo_get_num_pools :: "margo_abt \<Rightarrow> margo_abt \<times> nat" where
  "margo_get_num_pools a = (let a = abt_lock a; ret = length (pools a) in (abt_unlock a, ret))"

definition margo_get_num_xstreams :: "margo_abt \<Rightarrow> margo_abt \<times> nat" where
  "margo_get_num_xstreams a = (let a = abt_lock a; ret = length (xstreams a) in (abt_unlock a, ret))"

section \<open>Pools\<close>

definition margo_find_pool_by_handle :: "margo_abt option \<Rightarrow> ptr \<Rightarrow> margo_abt option \<times> hg_return \<times> info option" where
  "margo_find_pool_by_handle mid handle =
     on_mid mid (HG_INVALID_ARG, None) (\<lambda>a.
       if handle = None then (a, HG_INVALID_ARG, None)
       else
         (let a = abt_lock a;
              r = (case find_pool_by_handle a handle of
                     Some i \<Rightarrow> (HG_SUCCESS, Some (pool_info a i))
                   | None \<Rightarrow> (HG_NOENTRY, None))
          in (abt_unlock a, r)))"

definition margo_find_pool_by_name :: "margo_abt option \<Rightarrow> string option \<Rightarrow> margo_abt option \<times> hg_return \<times> info option" where
  "margo_find_pool_by_name mid name =
     on_mid mid (HG_INVALID_ARG, None) (\<lambda>a.
       if name = None then (a, HG_INVALID_ARG, None)
       else
         (let a = abt_lock a;
              r = (case find_pool_by_name a name of
                     Some i \<Rightarrow> (HG_SUCCESS, Some (pool_info a i))
                   | None \<Rightarrow> (HG_NOENTRY, None))
          in (abt_unlock a, r)))"

definition margo_find_pool_by_index :: "margo_abt option \<Rightarrow> u32 \<Rightarrow> margo_abt option \<times> hg_return \<times> info option" where
  "margo_find_pool_by_index mid index =
     on_mid mid (HG_INVALID_ARG, None) (\<lambda>a.
       let a = abt_lock a
       in if unat index \<ge> length (pools a) then (abt_unlock a, HG_INVALID_ARG, None)
          else (abt_unlock a, HG_SUCCESS, Some (pool_info a (unat index))))"

definition margo_pool_ref_incr_by_handle :: "margo_abt option \<Rightarrow> ptr \<Rightarrow> margo_abt option \<times> hg_return" where
  "margo_pool_ref_incr_by_handle mid handle =
     on_mid mid HG_INVALID_ARG (\<lambda>a.
       if handle = None then (a, HG_INVALID_ARG)
       else
         (let a = abt_lock a;
              (a, ret) = (case find_pool_by_handle a handle of
                            Some i \<Rightarrow> (set_pool_refcount i (\<lambda>n. n + 1) a, HG_SUCCESS)
                          | None \<Rightarrow> (a, HG_NOENTRY))
          in (abt_unlock a, ret)))"

definition margo_pool_ref_incr_by_name :: "margo_abt option \<Rightarrow> string option \<Rightarrow> margo_abt option \<times> hg_return" where
  "margo_pool_ref_incr_by_name mid name =
     on_mid mid HG_INVALID_ARG (\<lambda>a.
       if name = None then (a, HG_INVALID_ARG)
       else
         (let a = abt_lock a;
              (a, ret) = (case find_pool_by_name a name of
                            Some i \<Rightarrow> (set_pool_refcount i (\<lambda>n. n + 1) a, HG_SUCCESS)
                          | None \<Rightarrow> (a, HG_NOENTRY))
          in (abt_unlock a, ret)))"

definition margo_pool_ref_incr_by_index :: "margo_abt option \<Rightarrow> u32 \<Rightarrow> margo_abt option \<times> hg_return" where
  "margo_pool_ref_incr_by_index mid index =
     on_mid mid HG_INVALID_ARG (\<lambda>a.
       let a = abt_lock a
       in if unat index \<ge> length (pools a) then (abt_unlock a, HG_INVALID_ARG)
          else (abt_unlock (set_pool_refcount (unat index) (\<lambda>n. n + 1) a), HG_SUCCESS))"

definition margo_pool_ref_count_by_handle :: "margo_abt option \<Rightarrow> ptr \<Rightarrow> margo_abt option \<times> hg_return \<times> u32 option" where
  "margo_pool_ref_count_by_handle mid handle =
     on_mid mid (HG_INVALID_ARG, None) (\<lambda>a.
       if handle = None then (a, HG_INVALID_ARG, None)
       else
         (let a = abt_lock a;
              r = (case find_pool_by_handle a handle of
                     Some i \<Rightarrow> (HG_SUCCESS, Some (p_refcount (pools a ! i)))
                   | None \<Rightarrow> (HG_NOENTRY, None))
          in (abt_unlock a, r)))"

definition margo_pool_ref_count_by_name :: "margo_abt option \<Rightarrow> string option \<Rightarrow> margo_abt option \<times> hg_return \<times> u32 option" where
  "margo_pool_ref_count_by_name mid name =
     on_mid mid (HG_INVALID_ARG, None) (\<lambda>a.
       if name = None then (a, HG_INVALID_ARG, None)
       else
         (let a = abt_lock a;
              r = (case find_pool_by_name a name of
                     Some i \<Rightarrow> (HG_SUCCESS, Some (p_refcount (pools a ! i)))
                   | None \<Rightarrow> (HG_NOENTRY, None))
          in (abt_unlock a, r)))"

definition margo_pool_ref_count_by_index :: "margo_abt option \<Rightarrow> u32 \<Rightarrow> margo_abt option \<times> hg_return \<times> u32 option" where
  "margo_pool_ref_count_by_index mid index =
     on_mid mid (HG_INVALID_ARG, None) (\<lambda>a.
       let a = abt_lock a
       in if unat index \<ge> length (pools a) then (abt_unlock a, HG_INVALID_ARG, None)
          else (abt_unlock a, HG_SUCCESS, Some (p_refcount (pools a ! unat index))))"

text \<open>With a count of zero, the branch inside the loop releases the mutex, and the end of the function again.\<close>

definition margo_pool_release_by_handle :: "margo_abt option \<Rightarrow> ptr \<Rightarrow> margo_abt option \<times> hg_return" where
  "margo_pool_release_by_handle mid handle =
     on_mid mid HG_INVALID_ARG (\<lambda>a.
       if handle = None then (a, HG_INVALID_ARG)
       else
         (let a = abt_lock a;
              (a, ret) = (case find_pool_by_handle a handle of
                            Some i \<Rightarrow>
                              if p_refcount (pools a ! i) = 0 then (abt_unlock a, HG_PERMISSION)
                              else (set_pool_refcount i (\<lambda>n. n - 1) a, HG_SUCCESS)
                          | None \<Rightarrow> (a, HG_NOENTRY))
          in (abt_unlock a, ret)))"

definition margo_pool_release_by_name :: "margo_abt option \<Rightarrow> string option \<Rightarrow> margo_abt option \<times> hg_return" where
  "margo_pool_release_by_name mid name =
     on_mid mid HG_INVALID_ARG (\<lambda>a.
       if name = None then (a, HG_INVALID_ARG)
       else
         (let a = abt_lock a;
              (a, ret) = (case find_pool_by_name a name of
                            Some i \<Rightarrow>
                              if p_refcount (pools a ! i) = 0 then (abt_unlock a, HG_PERMISSION)
                              else (set_pool_refcount i (\<lambda>n. n - 1) a, HG_SUCCESS)
                          | None \<Rightarrow> (a, HG_NOENTRY))
          in (abt_unlock a, ret)))"

definition margo_pool_release_by_index :: "margo_abt option \<Rightarrow> u32 \<Rightarrow> margo_abt option \<times> hg_return" where
  "margo_pool_release_by_index mid index =
     on_mid mid HG_INVALID_ARG (\<lambda>a.
       let a = abt_lock a
       in if unat index \<ge> length (pools a) then (abt_unlock a, HG_INVALID_ARG)
          else if p_refcount (pools a ! unat index) = 0 then (abt_unlock a, HG_PERMISSION)
          else (abt_unlock (set_pool_refcount (unat index) (\<lambda>n. n - 1) a), HG_SUCCESS))"

text \<open>
  Adding a pool; the parameters that stand for Argobots and JSON are those of the functions of
  the registry. The result is \<^const>\<open>None\<close> when these fail to return.
\<close>

definition margo_add_pool_external ::
  "bool \<Rightarrow> margo_abt option \<Rightarrow> string option \<Rightarrow> ptr \<Rightarrow> bool \<Rightarrow> (margo_abt option \<times> hg_return \<times> info option) option" where
  "margo_add_pool_external realloc_ok mid name pool take_ownership =
    (case mid of
       None \<Rightarrow> Some (None, HG_INVALID_ARG, None)
     | Some a \<Rightarrow> do {
         (a, b) \<leftarrow> abt_add_external_pool realloc_ok name pool (abt_lock a);
         let last = length (pools a) - 1;
         Some (if b
               then (let a = a\<lparr>pools := (pools a)[last := (pools a ! last)\<lparr>p_margo_free_flag := take_ownership\<rparr>]\<rparr>
                     in (Some (abt_unlock a), HG_SUCCESS, Some (pool_info a last)))
               else (Some (abt_unlock a), HG_INVALID_ARG, None))
       })"

text \<open>\<open>parsed\<close> is \<^const>\<open>False\<close> for a string that is not JSON; the instance is not tested for NULL.\<close>

definition margo_add_pool_from_json ::
  "bool \<Rightarrow> bool \<Rightarrow> bool \<Rightarrow> string option \<Rightarrow> (addr \<times> string \<times> string option) option \<Rightarrow> margo_abt \<Rightarrow>
   (margo_abt \<times> hg_return \<times> info option) option" where
  "margo_add_pool_from_json parsed valid realloc_ok jname create a =
    (if \<not> parsed then Some (a, HG_INVALID_ARG, None)
     else do {
       (a, b) \<leftarrow> abt_add_pool_from_json valid realloc_ok jname create (abt_lock a);
       Some (if b then (abt_unlock a, HG_SUCCESS, Some (pool_info a (length (pools a) - 1)))
             else (abt_unlock a, HG_INVALID_ARG, None))
     })"

text \<open>What the three ways to remove a pool do once they have the index.\<close>

definition remove_pool_checked :: "nat option \<Rightarrow> nat \<Rightarrow> margo_abt \<Rightarrow> margo_abt \<times> hg_return" where
  "remove_pool_checked total_size i a =
    (if i \<ge> length (pools a) then (a, HG_INVALID_ARG)
     else if p_pool (pools a ! i) = progress_pool a then (a, HG_OTHER_ERROR)
     else if p_pool (pools a ! i) = rpc_pool a then (a, HG_OTHER_ERROR)
     else abt_remove_pool total_size i a)"

definition margo_remove_pool_by_index :: "nat option \<Rightarrow> margo_abt option \<Rightarrow> u32 \<Rightarrow> margo_abt option \<times> hg_return" where
  "margo_remove_pool_by_index total_size mid index =
     on_mid mid HG_INVALID_ARG (\<lambda>a.
       case remove_pool_checked total_size (unat index) (abt_lock a) of (a, ret) \<Rightarrow> (abt_unlock a, ret))"

definition margo_remove_pool_by_name :: "nat option \<Rightarrow> margo_abt option \<Rightarrow> string option \<Rightarrow> margo_abt option \<times> hg_return" where
  "margo_remove_pool_by_name total_size mid name =
     on_mid mid HG_INVALID_ARG (\<lambda>a.
       let a = abt_lock a;
           (a, ret) = (case find_pool_by_name a name of
                         None \<Rightarrow> (a, HG_INVALID_ARG)
                       | Some i \<Rightarrow> remove_pool_checked total_size i a)
       in (abt_unlock a, ret))"

definition margo_remove_pool_by_handle :: "nat option \<Rightarrow> margo_abt option \<Rightarrow> ptr \<Rightarrow> margo_abt option \<times> hg_return" where
  "margo_remove_pool_by_handle total_size mid handle =
     on_mid mid HG_INVALID_ARG (\<lambda>a.
       let a = abt_lock a;
           (a, ret) = (case find_pool_by_handle a handle of
                         None \<Rightarrow> (a, HG_INVALID_ARG)
                       | Some i \<Rightarrow> remove_pool_checked total_size i a)
       in (abt_unlock a, ret))"

section \<open>Execution streams\<close>

definition margo_find_xstream_by_handle :: "margo_abt option \<Rightarrow> ptr \<Rightarrow> margo_abt option \<times> hg_return \<times> info option" where
  "margo_find_xstream_by_handle mid handle =
     on_mid mid (HG_INVALID_ARG, None) (\<lambda>a.
       if handle = None then (a, HG_INVALID_ARG, None)
       else
         (let a = abt_lock a;
              r = (case find_xstream_by_handle a handle of
                     Some i \<Rightarrow> (HG_SUCCESS, Some (xstream_info a i))
                   | None \<Rightarrow> (HG_NOENTRY, None))
          in (abt_unlock a, r)))"

definition margo_find_xstream_by_name :: "margo_abt option \<Rightarrow> string option \<Rightarrow> margo_abt option \<times> hg_return \<times> info option" where
  "margo_find_xstream_by_name mid name =
     on_mid mid (HG_INVALID_ARG, None) (\<lambda>a.
       if name = None then (a, HG_INVALID_ARG, None)
       else
         (let a = abt_lock a;
              r = (case find_xstream_by_name a name of
                     Some i \<Rightarrow> (HG_SUCCESS, Some (xstream_info a i))
                   | None \<Rightarrow> (HG_NOENTRY, None))
          in (abt_unlock a, r)))"

definition margo_find_xstream_by_index :: "margo_abt option \<Rightarrow> u32 \<Rightarrow> margo_abt option \<times> hg_return \<times> info option" where
  "margo_find_xstream_by_index mid index =
     on_mid mid (HG_INVALID_ARG, None) (\<lambda>a.
       let a = abt_lock a
       in if unat index \<ge> length (xstreams a) then (abt_unlock a, HG_INVALID_ARG, None)
          else (abt_unlock a, HG_SUCCESS, Some (xstream_info a (unat index))))"

definition margo_xstream_ref_incr_by_handle :: "margo_abt option \<Rightarrow> ptr \<Rightarrow> margo_abt option \<times> hg_return" where
  "margo_xstream_ref_incr_by_handle mid handle =
     on_mid mid HG_INVALID_ARG (\<lambda>a.
       if handle = None then (a, HG_INVALID_ARG)
       else
         (let a = abt_lock a;
              (a, ret) = (case find_xstream_by_handle a handle of
                            Some i \<Rightarrow> (set_xstream_refcount i (\<lambda>n. n + 1) a, HG_SUCCESS)
                          | None \<Rightarrow> (a, HG_NOENTRY))
          in (abt_unlock a, ret)))"

definition margo_xstream_ref_incr_by_name :: "margo_abt option \<Rightarrow> string option \<Rightarrow> margo_abt option \<times> hg_return" where
  "margo_xstream_ref_incr_by_name mid name =
     on_mid mid HG_INVALID_ARG (\<lambda>a.
       if name = None then (a, HG_INVALID_ARG)
       else
         (let a = abt_lock a;
              (a, ret) = (case find_xstream_by_name a name of
                            Some i \<Rightarrow> (set_xstream_refcount i (\<lambda>n. n + 1) a, HG_SUCCESS)
                          | None \<Rightarrow> (a, HG_NOENTRY))
          in (abt_unlock a, ret)))"

definition margo_xstream_ref_incr_by_index :: "margo_abt option \<Rightarrow> u32 \<Rightarrow> margo_abt option \<times> hg_return" where
  "margo_xstream_ref_incr_by_index mid index =
     on_mid mid HG_INVALID_ARG (\<lambda>a.
       let a = abt_lock a
       in if unat index \<ge> length (xstreams a) then (abt_unlock a, HG_INVALID_ARG)
          else (abt_unlock (set_xstream_refcount (unat index) (\<lambda>n. n + 1) a), HG_SUCCESS))"

definition margo_xstream_ref_count_by_handle :: "margo_abt option \<Rightarrow> ptr \<Rightarrow> margo_abt option \<times> hg_return \<times> u32 option" where
  "margo_xstream_ref_count_by_handle mid handle =
     on_mid mid (HG_INVALID_ARG, None) (\<lambda>a.
       if handle = None then (a, HG_INVALID_ARG, None)
       else
         (let a = abt_lock a;
              r = (case find_xstream_by_handle a handle of
                     Some i \<Rightarrow> (HG_SUCCESS, Some (x_refcount (xstreams a ! i)))
                   | None \<Rightarrow> (HG_NOENTRY, None))
          in (abt_unlock a, r)))"

definition margo_xstream_ref_count_by_name :: "margo_abt option \<Rightarrow> string option \<Rightarrow> margo_abt option \<times> hg_return \<times> u32 option" where
  "margo_xstream_ref_count_by_name mid name =
     on_mid mid (HG_INVALID_ARG, None) (\<lambda>a.
       if name = None then (a, HG_INVALID_ARG, None)
       else
         (let a = abt_lock a;
              r = (case find_xstream_by_name a name of
                     Some i \<Rightarrow> (HG_SUCCESS, Some (x_refcount (xstreams a ! i)))
                   | None \<Rightarrow> (HG_NOENTRY, None))
          in (abt_unlock a, r)))"

definition margo_xstream_ref_count_by_index :: "margo_abt option \<Rightarrow> u32 \<Rightarrow> margo_abt option \<times> hg_return \<times> u32 option" where
  "margo_xstream_ref_count_by_index mid index =
     on_mid mid (HG_INVALID_ARG, None) (\<lambda>a.
       let a = abt_lock a
       in if unat index \<ge> length (xstreams a) then (abt_unlock a, HG_INVALID_ARG, None)
          else (abt_unlock a, HG_SUCCESS, Some (x_refcount (xstreams a ! unat index))))"

text \<open>With a count of zero, the branch inside the loop releases the mutex, and the end of the function again.\<close>

definition margo_xstream_release_by_handle :: "margo_abt option \<Rightarrow> ptr \<Rightarrow> margo_abt option \<times> hg_return" where
  "margo_xstream_release_by_handle mid handle =
     on_mid mid HG_INVALID_ARG (\<lambda>a.
       if handle = None then (a, HG_INVALID_ARG)
       else
         (let a = abt_lock a;
              (a, ret) = (case find_xstream_by_handle a handle of
                            Some i \<Rightarrow>
                              if x_refcount (xstreams a ! i) = 0 then (abt_unlock a, HG_PERMISSION)
                              else (set_xstream_refcount i (\<lambda>n. n - 1) a, HG_SUCCESS)
                          | None \<Rightarrow> (a, HG_NOENTRY))
          in (abt_unlock a, ret)))"

definition margo_xstream_release_by_name :: "margo_abt option \<Rightarrow> string option \<Rightarrow> margo_abt option \<times> hg_return" where
  "margo_xstream_release_by_name mid name =
     on_mid mid HG_INVALID_ARG (\<lambda>a.
       if name = None then (a, HG_INVALID_ARG)
       else
         (let a = abt_lock a;
              (a, ret) = (case find_xstream_by_name a name of
                            Some i \<Rightarrow>
                              if x_refcount (xstreams a ! i) = 0 then (abt_unlock a, HG_PERMISSION)
                              else (set_xstream_refcount i (\<lambda>n. n - 1) a, HG_SUCCESS)
                          | None \<Rightarrow> (a, HG_NOENTRY))
          in (abt_unlock a, ret)))"

definition margo_xstream_release_by_index :: "margo_abt option \<Rightarrow> u32 \<Rightarrow> margo_abt option \<times> hg_return" where
  "margo_xstream_release_by_index mid index =
     on_mid mid HG_INVALID_ARG (\<lambda>a.
       let a = abt_lock a
       in if unat index \<ge> length (xstreams a) then (abt_unlock a, HG_INVALID_ARG)
          else if x_refcount (xstreams a ! unat index) = 0 then (abt_unlock a, HG_PERMISSION)
          else (abt_unlock (set_xstream_refcount (unat index) (\<lambda>n. n - 1) a), HG_SUCCESS))"

definition margo_add_xstream_external ::
  "bool \<Rightarrow> ptr list option \<Rightarrow> string option \<Rightarrow> margo_abt option \<Rightarrow> string option \<Rightarrow> ptr \<Rightarrow> bool \<Rightarrow>
   (margo_abt option \<times> hg_return \<times> info option) option" where
  "margo_add_xstream_external realloc_ok sched sched_type mid name xstream take_ownership =
    (case mid of
       None \<Rightarrow> Some (None, HG_INVALID_ARG, None)
     | Some a \<Rightarrow> do {
         (a, b) \<leftarrow> abt_add_external_xstream realloc_ok sched sched_type name xstream (abt_lock a);
         let last = length (xstreams a) - 1;
         Some (if b
               then (let a = a\<lparr>xstreams := (xstreams a)[last := (xstreams a ! last)\<lparr>x_margo_free_flag := take_ownership\<rparr>]\<rparr>
                     in (Some (abt_unlock a), HG_SUCCESS, Some (xstream_info a last)))
               else (Some (abt_unlock a), HG_INVALID_ARG, None))
       })"

definition margo_remove_xstream_by_index ::
  "ptr list option \<Rightarrow> margo_abt option \<Rightarrow> u32 \<Rightarrow> (margo_abt option \<times> hg_return) option" where
  "margo_remove_xstream_by_index sched mid index =
    (case mid of
       None \<Rightarrow> Some (None, HG_INVALID_ARG)
     | Some a \<Rightarrow>
         (let a = abt_lock a
          in if unat index \<ge> length (xstreams a) then Some (Some (abt_unlock a), HG_OTHER_ERROR)
             else do {
               (a, ret) \<leftarrow> abt_remove_xstream sched (unat index) a;
               Some (Some (abt_unlock a), ret)
             }))"

definition margo_remove_xstream_by_name ::
  "ptr list option \<Rightarrow> margo_abt option \<Rightarrow> string option \<Rightarrow> (margo_abt option \<times> hg_return) option" where
  "margo_remove_xstream_by_name sched mid name =
    (case mid of
       None \<Rightarrow> Some (None, HG_INVALID_ARG)
     | Some a \<Rightarrow>
         (let a = abt_lock a
          in case find_xstream_by_name a name of
               None \<Rightarrow> Some (Some (abt_unlock a), HG_INVALID_ARG)
             | Some i \<Rightarrow> do {
                 (a, ret) \<leftarrow> abt_remove_xstream sched i a;
                 Some (Some (abt_unlock a), ret)
               }))"

definition margo_remove_xstream_by_handle ::
  "ptr list option \<Rightarrow> margo_abt option \<Rightarrow> ptr \<Rightarrow> (margo_abt option \<times> hg_return) option" where
  "margo_remove_xstream_by_handle sched mid handle =
    (case mid of
       None \<Rightarrow> Some (None, HG_INVALID_ARG)
     | Some a \<Rightarrow>
         (let a = abt_lock a
          in case find_xstream_by_handle a handle of
               None \<Rightarrow> Some (Some (abt_unlock a), HG_INVALID_ARG)
             | Some i \<Rightarrow> do {
                 (a, ret) \<leftarrow> abt_remove_xstream sched i a;
                 Some (Some (abt_unlock a), ret)
               }))"

section \<open>The invariant through the interface\<close>

lemma lock_simps [simp]:
  "pools (abt_lock a) = pools a" "xstreams (abt_lock a) = xstreams a" "pools (abt_unlock a) = pools a" "xstreams (abt_unlock a) = xstreams a"
  "find_pool_by_name (abt_lock a) n = find_pool_by_name a n" "find_pool_by_handle (abt_lock a) h = find_pool_by_handle a h"
  "find_xstream_by_name (abt_lock a) n = find_xstream_by_name a n" "find_xstream_by_handle (abt_lock a) h = find_xstream_by_handle a h"
  "abt_unlock (abt_lock a) = a"
  by (simp_all add: abt_lock_def abt_unlock_def find_pool_by_name_def find_pool_by_handle_def
      find_xstream_by_name_def find_xstream_by_handle_def)

lemma abt_lock_depth: "lock_depth (abt_lock a) = lock_depth a + 1"
  by (simp add: abt_lock_def)

text \<open>The invariant looks at the arrays only.\<close>

lemma registry_ok_cong: "pools a = pools a' \<Longrightarrow> xstreams a = xstreams a' \<Longrightarrow> registry_ok sp a = registry_ok sp a'"
  by (simp add: registry_ok_def ptab.unique_def xtab.unique_def)

lemma registry_ok_lock [simp]: "registry_ok sp (abt_lock a) = registry_ok sp a" "registry_ok sp (abt_unlock a) = registry_ok sp a"
  by (rule registry_ok_cong; simp)+

text \<open>Changes of an entry of a pool that the invariant does not see.\<close>

lemma update_pool_keeps:
  assumes ok: "registry_ok sp a" and i: "i < length (pools a)" and t: "pools a' = (pools a)[i := p]" "xstreams a' = xstreams a"
    and p: "p_name p = p_name (pools a ! i)" "p_pool p = p_pool (pools a ! i)" "p_num_xstreams p = p_num_xstreams (pools a ! i)"
  shows "registry_ok sp a'"
proof -
  have tab: "pool_table a' = pool_table a"
    using t(1) i p by (simp add: map_update) (metis (mono_tags, lifting) length_map list_update_id nth_map)
  have h: "p_pool ` set (pools a') = p_pool ` set (pools a)"
    using arg_cong [OF tab, of "\<lambda>t. snd ` set t"] by (simp add: image_image)
  have "p_num_xstreams q = of_nat (uses sp (xstreams a) (p_pool q))" if "q \<in> set (pools a')" for q
    using that registry_okD(3) [OF ok] t(1) i p set_update_subset_insert [of "pools a" i p] by auto
  then show ?thesis
    using ok h t(2) ptab_unique_cong [OF tab] xtab_unique_cong [of a' a] by (simp add: registry_ok_def)
qed

lemma update_xstream_keeps:
  assumes ok: "registry_ok sp a" and i: "i < length (xstreams a)" and t: "pools a' = pools a" "xstreams a' = (xstreams a)[i := x]"
    and x: "x_name x = x_name (xstreams a ! i)" "x_xstream x = x_xstream (xstreams a ! i)"
  shows "registry_ok sp a'"
proof -
  have tab: "xstream_table a' = xstream_table a"
    using t(2) i x by (simp add: map_update) (metis (mono_tags, lifting) length_map list_update_id nth_map)
  have hs: "map x_xstream (xstreams a') = map x_xstream (xstreams a)"
    using arg_cong [OF tab, of "map snd"] by (simp add: comp_def)
  have u: "uses sp (xstreams a') h = uses sp (xstreams a) h" for h
    using arg_cong [OF hs, of "map (\<lambda>k. count_list (sp k) h)"] by (simp add: uses_def comp_def)
  have im: "x_xstream ` set (xstreams a') = x_xstream ` set (xstreams a)" using arg_cong [OF hs, of set] by simp
  have "set (sp (x_xstream y)) \<subseteq> p_pool ` set (pools a)" if y: "y \<in> set (xstreams a')" for y
  proof -
    have "x_xstream y \<in> x_xstream ` set (xstreams a)" using y im by blast
    then obtain z where "z \<in> set (xstreams a)" "x_xstream y = x_xstream z" by blast
    then show ?thesis using registry_okD(4) [OF ok, of z] by simp
  qed
  moreover have "xtab.unique a'" using registry_okD(2) [OF ok] tab by (simp add: xtab.unique_def)
  moreover have "ptab.unique a'" using registry_okD(1) [OF ok] t(1) by (simp add: ptab.unique_def)
  ultimately show ?thesis using registry_okD(3,5) [OF ok] t(1) u by (simp add: registry_ok_def)
qed

lemma set_pool_refcount_keeps: "registry_ok sp a \<Longrightarrow> i < length (pools a) \<Longrightarrow> registry_ok sp (set_pool_refcount i f a)"
  by (rule update_pool_keeps [of sp a i _ "(pools a ! i)\<lparr>p_refcount := f (p_refcount (pools a ! i))\<rparr>"])
    (simp_all add: set_pool_refcount_def Let_def)

lemma set_xstream_refcount_keeps: "registry_ok sp a \<Longrightarrow> i < length (xstreams a) \<Longrightarrow> registry_ok sp (set_xstream_refcount i f a)"
  by (rule update_xstream_keeps [of sp a i _ "(xstreams a ! i)\<lparr>x_refcount := f (x_refcount (xstreams a ! i))\<rparr>"])
    (simp_all add: set_xstream_refcount_def Let_def)

text \<open>What adding a pool does when it succeeds, and that it changes nothing otherwise.\<close>

lemma generated_name_is_new:
  "generate_unused_pool_name a = Some n \<Longrightarrow> find_pool_by_name a (Some n) = None"
  using generate_unused_pool_name_ok [of a] by (auto simp: find_pool_by_name_def find_index_None_iff image_iff)

lemma generate_cap [simp]: "generate_unused_pool_name (a\<lparr>pools_cap := c\<rparr>) = generate_unused_pool_name a"
  by (simp add: generate_unused_pool_name_def)

lemma update_last [simp]: "xs[length xs - Suc 0 := last xs] = xs"
  by (cases xs rule: rev_cases) auto

lemma add_external_pool_result:
  assumes "abt_add_external_pool realloc_ok name (Some h) a = Some (a', b)"
  shows "xstreams a' = xstreams a \<and> lock_depth a' = lock_depth a
    \<and> (if b then \<exists>n. pools a' = pools a @ [zero_pool\<lparr>p_name := Some n, p_pool := Some h, p_kind := Some ''external''\<rparr>]
             \<and> (name = None \<or> name = Some n) \<and> find_pool_by_name a (Some n) = None \<and> find_pool_by_handle a (Some h) = None
       else pools a' = pools a)"
  using assms generated_name_is_new [of a]
  unfolding abt_add_external_pool_def pools_space_def pool_init_external_def
  by (auto simp: ptr_simps split: if_splits option.splits)

lemma add_pool_from_json_result:
  assumes "abt_add_pool_from_json valid realloc_ok jname create a = Some (a', b)"
  shows "xstreams a' = xstreams a \<and> lock_depth a' = lock_depth a
    \<and> (if b then \<exists>n h k c. create = Some (h, k, c) \<and> find_pool_by_name a (Some n) = None
             \<and> pools a' = pools a @ [zero_pool\<lparr>p_name := Some n, p_pool := Some h, p_kind := Some k, p_access := c, p_margo_free_flag := True\<rparr>]
       else pools a' = pools a)"
  using assms generated_name_is_new [of a] unfolding abt_add_pool_from_json_def pools_space_def
  by (auto simp: ptr_simps split: if_splits option.splits) blast+

lemma remove_pool_checked_result:
  assumes "remove_pool_checked total_size i a = (a', ret)"
  shows "xstreams a' = xstreams a \<and> lock_depth a' = lock_depth a
    \<and> progress_pool_idx a' = progress_pool_idx a \<and> rpc_pool_idx a' = rpc_pool_idx a
    \<and> (if ret = HG_SUCCESS
       then i < length (pools a) \<and> p_refcount (pools a ! i) = 0 \<and> p_num_xstreams (pools a ! i) = 0
         \<and> p_pool (pools a ! i) \<noteq> progress_pool a \<and> p_pool (pools a ! i) \<noteq> rpc_pool a \<and> total_size = Some 0
         \<and> pools a' = butlast ((pools a)[i := last (pools a)])
       else pools a' = pools a)"
  using assms unfolding remove_pool_checked_def abt_remove_pool_def pool_destroy_def
  by (auto simp: Let_def split: if_splits option.splits)

lemma add_external_xstream_keeps:
  assumes ok: "registry_ok sp a" and np: "None \<notin> set (sp (Some h))"
    and bound: "\<And>q. uses sp (xstreams a) q + count_list (sp (Some h)) q < 2 ^ 32"
    and r: "abt_add_external_xstream realloc_ok (Some (sp (Some h))) (Some ty) (Some n) (Some h) a = Some (a', b)"
  shows "registry_ok sp a' \<and> (b \<longrightarrow> xstreams a' \<noteq> [])"
proof (cases "find_xstream_by_name a (Some n) \<noteq> None \<or> find_xstream_by_handle a (Some h) \<noteq> None \<or> xstreams_space realloc_ok a = None")
  case True
  then have "a' = a \<and> \<not> b" using r by (auto simp: abt_add_external_xstream_def split: if_splits)
  then show ?thesis using ok by simp
next
  case False
  then obtain c where c: "xstreams_space realloc_ok a = Some c" and new: "find_xstream_by_name a (Some n) = None"
      "find_xstream_by_handle a (Some h) = None" by auto
  have same: "pools c = pools a" "xstreams c = xstreams a"
    using c by (auto simp: xstreams_space_def split: if_splits)
  then have okc: "registry_ok sp c" using ok registry_ok_cong by metis
  let ?ps = "sp (Some h)" and ?b = "n = ''__primary__''"
  show ?thesis
  proof (cases "set ?ps \<subseteq> p_pool ` set (pools c)")
    case True
    let ?x = "zero_xstream\<lparr>x_name := Some n, x_xstream := Some h, x_sched_type := Some ty\<rparr>"
    have "a' = c\<lparr>pools := map (counted (\<lambda>n. n + 1) ?b ?ps) (pools c), xstreams := xstreams c @ [?x]\<rparr>"
      using r c new count_xstream_all [OF registry_okD(1) [OF okc] True]
      by (auto simp: abt_add_external_xstream_def xstream_init_external_def)
    then show ?thesis
      using add_xstream_keeps [OF ok new, of ?x a' ?b] True same bound by simp
  next
    case False
    then have "\<exists>q \<in> set ?ps. find_pool_by_handle c q = None"
      using find_pool_by_handle_registered by blast
    then obtain qs q rs where p: "?ps = qs @ q # rs" "set qs \<subseteq> p_pool ` set (pools c)" "find_pool_by_handle c q = None"
      using first_unregistered np by blast
    let ?c = "c\<lparr>pools := map (counted (\<lambda>n. n + 1) ?b qs) (pools c)\<rparr>"
    have u: "ptab.unique ?c" using registry_okD(1) [OF okc] by (simp add: ptab.unique_def comp_def)
    have "set qs \<subseteq> p_pool ` set (pools ?c)" "find_pool_by_handle ?c q = None"
      using p(2,3) by (simp_all add: image_image find_pool_by_handle_def find_index_map split: if_splits)
    note stop = count_xstream_stops [OF registry_okD(1) [OF okc] p(2,3), of "\<lambda>n. n + 1" ?b rs]
      count_xstream_stops [OF u this, of "\<lambda>n. n - 1" False rs]
    have a': "a' = c\<lparr>pools := map (counted (\<lambda>n. n - 1) False qs) (map (counted (\<lambda>n. n + 1) ?b qs) (pools c))\<rparr>" "\<not> b"
      using r c new stop p(1)
      by (auto simp: abt_add_external_xstream_def xstream_init_external_def xstream_destroy_def zero_xstream_def)
    have "registry_ok sp a'"
      using okc unfolding a'(1) by (simp add: registry_ok_def ptab.unique_def xtab.unique_def comp_def funpow_add_word image_image)
    then show ?thesis using a'(2) by simp
  qed
qed

lemma remove_xstream_result:
  assumes ok: "registry_ok sp a" and i: "i < length (xstreams a)"
    and r: "abt_remove_xstream (Some (sp (x_xstream (xstreams a ! i)))) i a = Some (a', ret)"
  shows "registry_ok sp a' \<and> (ret = HG_SUCCESS \<longrightarrow> set (xstreams a') = set (xstreams a) - {xstreams a ! i})"
proof (cases "ret = HG_SUCCESS")
  case False
  then have "a' = a" using r by (auto simp: abt_remove_xstream_def Let_def ptr_simps split: if_splits)
  then show ?thesis using ok False by simp
next
  case True
  let ?x = "xstreams a ! i"
  have "None \<notin> x_xstream ` set (xstreams a)" using registry_okD(2) [OF ok] by (simp add: xtab.unique_def image_image)
  then have nn: "x_xstream ?x \<noteq> None" using i by (metis imageI nth_mem)
  have sub: "set (sp (x_xstream ?x)) \<subseteq> p_pool ` set (pools a)" using registry_okD(4) [OF ok] i by simp
  have "pools a' = map (counted (\<lambda>n. n - 1) False (sp (x_xstream ?x))) (pools a)
      \<and> xstreams a' = butlast ((xstreams a)[i := last (xstreams a)])"
    using r True i nn count_xstream_all [OF registry_okD(1) [OF ok] sub]
    by (auto simp: abt_remove_xstream_def xstream_destroy_def Let_def ptr_simps split: if_splits)
  then show ?thesis using remove_xstream_keeps [OF ok i, of a' False] by simp
qed

section \<open>Reachable registries\<close>

text \<open>
  The calls that add and remove pools and streams, or change the counts of streams. Argobots returns
  new handles for new pools, and a stream is added with a name; the counts of the streams of a pool
  do not wrap around.
\<close>

inductive registry_step :: "(ptr \<Rightarrow> ptr list) \<Rightarrow> margo_abt \<Rightarrow> margo_abt \<Rightarrow> bool" for sp :: "ptr \<Rightarrow> ptr list" and a :: margo_abt where
  add_pool: "margo_add_pool_external realloc_ok (Some a) name (Some h) own = Some (Some a', ret, info) \<Longrightarrow> registry_step sp a a'"
| add_pool_json: "find_pool_by_handle a (map_option fst create) = None \<Longrightarrow>
    margo_add_pool_from_json parsed valid realloc_ok jname create a = Some (a', ret, info) \<Longrightarrow> registry_step sp a a'"
| remove_pool_by_handle: "margo_remove_pool_by_handle total_size (Some a) h = (Some a', ret) \<Longrightarrow> registry_step sp a a'"
| remove_pool_by_name: "margo_remove_pool_by_name total_size (Some a) n = (Some a', ret) \<Longrightarrow> registry_step sp a a'"
| remove_pool_by_index: "margo_remove_pool_by_index total_size (Some a) k = (Some a', ret) \<Longrightarrow> registry_step sp a a'"
| add_xstream: "None \<notin> set (sp (Some x)) \<Longrightarrow>
    (\<And>q. uses sp (xstreams a) q + count_list (sp (Some x)) q < 2 ^ 32) \<Longrightarrow>
    margo_add_xstream_external realloc_ok (Some (sp (Some x))) (Some ty) (Some a) (Some m) (Some x) own = Some (Some a', ret, info) \<Longrightarrow>
    registry_step sp a a'"
| remove_xstream_by_handle: "margo_remove_xstream_by_handle (Some (sp h)) (Some a) h = Some (Some a', ret) \<Longrightarrow> registry_step sp a a'"
| remove_xstream_by_name: "find_xstream_by_name a n = Some i \<Longrightarrow>
    margo_remove_xstream_by_name (Some (sp (x_xstream (xstreams a ! i)))) (Some a) n = Some (Some a', ret) \<Longrightarrow> registry_step sp a a'"
| remove_xstream_by_index: "margo_remove_xstream_by_index (Some (sp (x_xstream (xstreams a ! unat k)))) (Some a) k = Some (Some a', ret) \<Longrightarrow> registry_step sp a a'"
| xstream_ref_incr: "margo_xstream_ref_incr_by_handle (Some a) h = (Some a', ret) \<Longrightarrow> registry_step sp a a'"
| xstream_release: "margo_xstream_release_by_handle (Some a) h = (Some a', ret) \<Longrightarrow> registry_step sp a a'"

text \<open>The registries that sequences of these calls, and of changes of the counts of pools, produce.\<close>

inductive registry_reachable :: "(ptr \<Rightarrow> ptr list) \<Rightarrow> margo_abt \<Rightarrow> bool" for sp :: "ptr \<Rightarrow> ptr list" where
  empty: "pools a = [] \<Longrightarrow> xstreams a = [] \<Longrightarrow> registry_reachable sp a"
| step: "registry_reachable sp a \<Longrightarrow> registry_step sp a a' \<Longrightarrow> registry_reachable sp a'"
| pool_ref_incr: "registry_reachable sp a \<Longrightarrow> margo_pool_ref_incr_by_handle (Some a) h = (Some a', ret) \<Longrightarrow> registry_reachable sp a'"
| pool_release: "registry_reachable sp a \<Longrightarrow> margo_pool_release_by_handle (Some a) h = (Some a', ret) \<Longrightarrow> registry_reachable sp a'"

lemma find_bounds:
  "find_pool_by_handle a h = Some i \<Longrightarrow> i < length (pools a)" "find_pool_by_name a n = Some i \<Longrightarrow> i < length (pools a)"
  "find_xstream_by_handle a h = Some i \<Longrightarrow> i < length (xstreams a)" "find_xstream_by_name a n = Some i \<Longrightarrow> i < length (xstreams a)"
  by (auto simp: find_pool_by_handle_def find_pool_by_name_def find_xstream_by_handle_def find_xstream_by_name_def
      dest: find_index_SomeD split: if_splits)

lemma find_xstream_by_handle_at: "find_xstream_by_handle a h = Some i \<Longrightarrow> x_xstream (xstreams a ! i) = h"
  by (auto simp: find_xstream_by_handle_def dest: find_index_SomeD split: if_splits)

lemma add_pool_external_keeps:
  assumes ok: "registry_ok sp a" and r: "margo_add_pool_external realloc_ok (Some a) name (Some h) own = Some (Some a', ret, info)"
  shows "registry_ok sp a'"
proof -
  obtain c b where c: "abt_add_external_pool realloc_ok name (Some h) (abt_lock a) = Some (c, b)"
    using r by (auto simp: margo_add_pool_external_def ptr_simps)
  note res = add_external_pool_result [OF c]
  show ?thesis
  proof (cases b)
    case False
    then show ?thesis using r c res ok registry_ok_cong [of c a] by (auto simp: margo_add_pool_external_def)
  next
    case True
    then obtain n where n: "pools c = pools a @ [zero_pool\<lparr>p_name := Some n, p_pool := Some h, p_kind := Some ''external''\<rparr>]"
        "find_pool_by_name a (Some n) = None" "find_pool_by_handle a (Some h) = None" "xstreams c = xstreams a"
      using res by auto
    have okc: "registry_ok sp c"
      by (rule add_pool_keeps [OF ok n(1,4) _ _ _ n(2,3)]) (simp_all add: zero_pool_def)
    have l: "length (pools c) - 1 < length (pools c)" using n(1) by simp
    have "a' = abt_unlock (c\<lparr>pools := (pools c)[length (pools c) - 1 := (pools c ! (length (pools c) - 1))\<lparr>p_margo_free_flag := own\<rparr>]\<rparr>)"
      using r c True by (auto simp: margo_add_pool_external_def Let_def)
    then show ?thesis using update_pool_keeps [OF okc l, of a'] by simp
  qed
qed

lemma remove_pool_checked_keeps:
  assumes ok: "registry_ok sp a" and r: "remove_pool_checked total_size i a = (a', ret)"
  shows "registry_ok sp a'"
  using remove_pool_checked_result [OF r] remove_pool_keeps(1) [OF ok, of i a'] ok registry_ok_cong [of a' a]
  by (cases "ret = HG_SUCCESS") simp_all

lemma add_pool_from_json_keeps:
  assumes ok: "registry_ok sp a" and new: "find_pool_by_handle a (map_option fst create) = None"
    and r: "margo_add_pool_from_json parsed valid realloc_ok jname create a = Some (a', ret, info)"
  shows "registry_ok sp a'"
proof (cases parsed)
  case False
  then show ?thesis using r ok by (simp add: margo_add_pool_from_json_def)
next
  case True
  then obtain c b where c: "abt_add_pool_from_json valid realloc_ok jname create (abt_lock a) = Some (c, b)"
    using r by (auto simp: margo_add_pool_from_json_def ptr_simps)
  have a': "a' = abt_unlock c" using r c True by (auto simp: margo_add_pool_from_json_def split: if_splits)
  note res = add_pool_from_json_result [OF c]
  show ?thesis
  proof (cases b)
    case False
    then show ?thesis using a' res ok registry_ok_cong [of c a] by simp
  next
    case True
    then obtain n h k d where n: "create = Some (h, k, d)" "find_pool_by_name a (Some n) = None" "xstreams c = xstreams a"
        "pools c = pools a @ [zero_pool\<lparr>p_name := Some n, p_pool := Some h, p_kind := Some k, p_access := d, p_margo_free_flag := True\<rparr>]"
      using res by auto
    have h: "find_pool_by_handle a (Some h) = None" using new n(1) by simp
    have "registry_ok sp c"
      by (rule add_pool_keeps [OF ok n(4,3) _ _ _ n(2) h]) (simp_all add: zero_pool_def)
    then show ?thesis using a' by simp
  qed
qed

lemma add_xstream_external_keeps:
  assumes ok: "registry_ok sp a" and np: "None \<notin> set (sp (Some x))"
    and bound: "\<And>q. uses sp (xstreams a) q + count_list (sp (Some x)) q < 2 ^ 32"
    and r: "margo_add_xstream_external realloc_ok (Some (sp (Some x))) (Some ty) (Some a) (Some m) (Some x) own = Some (Some a', ret, info)"
  shows "registry_ok sp a'"
proof -
  obtain c b where c: "abt_add_external_xstream realloc_ok (Some (sp (Some x))) (Some ty) (Some m) (Some x) (abt_lock a) = Some (c, b)"
    using r by (auto simp: margo_add_xstream_external_def ptr_simps)
  have okc: "registry_ok sp c" and ne: "b \<longrightarrow> xstreams c \<noteq> []"
    using add_external_xstream_keeps [of sp "abt_lock a", OF _ np _ c] ok bound by auto
  show ?thesis
  proof (cases b)
    case False
    then show ?thesis using r c okc by (auto simp: margo_add_xstream_external_def)
  next
    case True
    then have l: "length (xstreams c) - 1 < length (xstreams c)" using ne by simp
    have "a' = abt_unlock (c\<lparr>xstreams := (xstreams c)[length (xstreams c) - 1 :=
        (xstreams c ! (length (xstreams c) - 1))\<lparr>x_margo_free_flag := own\<rparr>]\<rparr>)"
      using r c True by (auto simp: margo_add_xstream_external_def Let_def)
    then show ?thesis using update_xstream_keeps [OF okc l, of a'] by simp
  qed
qed

lemmas remove_defs = margo_remove_pool_by_handle_def margo_remove_pool_by_name_def margo_remove_pool_by_index_def
  margo_remove_xstream_by_handle_def margo_remove_xstream_by_name_def margo_remove_xstream_by_index_def on_mid_def Let_def

lemmas ref_defs = margo_pool_ref_incr_by_handle_def margo_pool_release_by_handle_def
  margo_xstream_ref_incr_by_handle_def margo_xstream_release_by_handle_def on_mid_def Let_def

lemma registry_step_keeps:
  assumes ok: "registry_ok sp a" and "registry_step sp a a'"
  shows "registry_ok sp a'"
  using assms(2)
proof cases
  case add_pool
  with ok show ?thesis using add_pool_external_keeps by blast
next
  case add_pool_json
  with ok show ?thesis using add_pool_from_json_keeps by blast
next
  case add_xstream
  with ok show ?thesis using add_xstream_external_keeps by blast
next
  case (remove_pool_by_handle total_size h ret)
  with ok show ?thesis
    using remove_pool_checked_keeps [of sp "abt_lock a"] by (auto simp: remove_defs split: prod.splits option.splits)
next
  case (remove_pool_by_name total_size n ret)
  with ok show ?thesis
    using remove_pool_checked_keeps [of sp "abt_lock a"] by (auto simp: remove_defs split: prod.splits option.splits)
next
  case (remove_pool_by_index total_size k ret)
  with ok show ?thesis
    using remove_pool_checked_keeps [of sp "abt_lock a"] by (auto simp: remove_defs split: prod.splits)
next
  case (remove_xstream_by_handle h ret)
  with ok show ?thesis
    using remove_xstream_result [of sp "abt_lock a"] find_bounds(3) [of a h] find_xstream_by_handle_at [of a h]
    by (auto simp: remove_defs ptr_simps split: option.splits)
next
  case (remove_xstream_by_name n i ret)
  with ok show ?thesis
    using remove_xstream_result [of sp "abt_lock a"] find_bounds(4) [of a n i]
    by (auto simp: remove_defs ptr_simps)
next
  case (remove_xstream_by_index k ret)
  with ok show ?thesis
    using remove_xstream_result [of sp "abt_lock a" "unat k"] by (auto simp: remove_defs ptr_simps split: if_splits)
next
  case (xstream_ref_incr h ret)
  with ok show ?thesis
    using set_xstream_refcount_keeps [of sp "abt_lock a"] find_bounds(3) [of a h]
    by (auto simp: ref_defs split: option.splits if_splits)
next
  case (xstream_release h ret)
  with ok show ?thesis
    using set_xstream_refcount_keeps [of sp "abt_lock a"] find_bounds(3) [of a h]
    by (auto simp: ref_defs split: option.splits if_splits)
qed

lemma registry_reachable_ok: "registry_reachable sp a \<Longrightarrow> registry_ok sp a"
proof (induction rule: registry_reachable.induct)
  case (empty a)
  then show ?case by (simp add: registry_ok_def ptab.unique_def xtab.unique_def)
next
  case (step a a')
  then show ?case using registry_step_keeps by blast
next
  case (pool_ref_incr a h a' ret)
  then show ?case
    using set_pool_refcount_keeps [of sp "abt_lock a"] find_bounds(1) [of a h]
    by (auto simp: ref_defs split: option.splits if_splits)
next
  case (pool_release a h a' ret)
  then show ?case
    using set_pool_refcount_keeps [of sp "abt_lock a"] find_bounds(1) [of a h]
    by (auto simp: ref_defs split: option.splits if_splits)
qed

section \<open>Properties\<close>


definition empty_registry :: margo_abt where
  "empty_registry = \<lparr>pools = [], pools_cap = 0, xstreams = [], xstreams_cap = 0, lock_depth = 0, progress_pool_idx = 0,
     rpc_pool_idx = 0, freed_pools = [], freed_xstreams = []\<rparr>"

text \<open>A registry with one pool, named \<^verbatim>\<open>a\<close>.\<close>

definition one_pool :: margo_abt where
  "one_pool = empty_registry\<lparr>pools := [zero_pool\<lparr>p_name := Some ''a'', p_pool := Some 1, p_kind := Some ''external''\<rparr>], pools_cap := 1\<rparr>"

lemma one_pool_added: "\<exists>info. margo_add_pool_external True (Some empty_registry) (Some ''a'') (Some 1) False = Some (Some one_pool, HG_SUCCESS, info)"
  by (simp add: margo_add_pool_external_def abt_add_external_pool_def find_pool_by_name_def find_pool_by_handle_def
      pools_space_def pool_init_external_def grow_cap_def empty_registry_def one_pool_def abt_lock_def abt_unlock_def zero_pool_def)

lemma one_pool_reachable: "registry_reachable sp one_pool"
proof -
  have "registry_reachable sp empty_registry" by (rule registry_reachable.empty) (simp_all add: empty_registry_def)
  then show ?thesis using one_pool_added registry_reachable.step registry_step.add_pool by blast
qed


text \<open>
  A pool in use is never removed. If \<open>margo_remove_pool_by_handle\<close> succeeds in a reachable registry,
  then the handle named a pool without references, empty, used by the scheduler of no registered
  stream, and neither the progress pool nor the default handler pool; afterwards that pool and no
  other is gone, it cannot be found any more, and the mutex is as it was.
\<close>

theorem remove_pool_only_unused:
  assumes r: "registry_reachable sp a" and s: "margo_remove_pool_by_handle total_size (Some a) h = (Some a', HG_SUCCESS)"
  shows "\<exists>p \<in> set (pools a). p_pool p = h \<and> p_refcount p = 0 \<and> total_size = Some 0
    \<and> (\<forall>x \<in> set (xstreams a). h \<notin> set (sp (x_xstream x))) \<and> h \<noteq> progress_pool a \<and> h \<noteq> rpc_pool a
    \<and> set (pools a') = set (pools a) - {p} \<and> find_pool_by_handle a' h = None \<and> lock_depth a' = lock_depth a"
proof -
  note ok = registry_reachable_ok [OF r]
  obtain i c where i: "find_pool_by_handle a h = Some i" "remove_pool_checked total_size i (abt_lock a) = (c, HG_SUCCESS)" "a' = abt_unlock c"
    using s by (auto simp: remove_defs split: prod.splits option.splits)
  note res = remove_pool_checked_result [OF i(2)]
  have il: "i < length (pools a)" "p_pool (pools a ! i) = h"
    using i(1) by (auto simp: find_pool_by_handle_def dest: find_index_SomeD split: if_splits)
  have t: "pools a' = butlast ((pools a)[i := last (pools a)])" "xstreams a' = xstreams a" "p_num_xstreams (pools a ! i) = 0"
    using res i(3) by simp_all
  note k = remove_pool_keeps [OF ok il(1) t(3,1,2)]
  have pp: "progress_pool (abt_lock a) = progress_pool a" "rpc_pool (abt_lock a) = rpc_pool a"
    by (simp_all add: progress_pool_def rpc_pool_def pool_at_def abt_lock_def)
  show ?thesis
    using k il res i(3) pp by (intro bexI [of _ "pools a ! i"]) (auto simp: abt_lock_def abt_unlock_def)
qed

definition two_pools :: margo_abt where
  "two_pools = empty_registry\<lparr>pools := [zero_pool\<lparr>p_name := Some ''a'', p_pool := Some 1, p_kind := Some ''external''\<rparr>,
     zero_pool\<lparr>p_name := Some ''b'', p_pool := Some 2, p_kind := Some ''external''\<rparr>], pools_cap := 2\<rparr>"

lemma two_pools_reachable: "registry_reachable sp two_pools"
proof -
  have "\<exists>info. margo_add_pool_external True (Some one_pool) (Some ''b'') (Some 2) False = Some (Some two_pools, HG_SUCCESS, info)"
    by (simp add: margo_add_pool_external_def abt_add_external_pool_def find_pool_by_name_def find_pool_by_handle_def
        pools_space_def pool_init_external_def grow_cap_def empty_registry_def one_pool_def two_pools_def abt_lock_def abt_unlock_def
        zero_pool_def)
  then show ?thesis using one_pool_reachable registry_reachable.step registry_step.add_pool by blast
qed

theorem remove_pool_only_unused_witness:
  "\<exists>a'. margo_remove_pool_by_handle (Some 0) (Some two_pools) (Some 2) = (Some a', HG_SUCCESS)
     \<and> find_pool_by_handle a' (Some 2) = None \<and> (\<exists>p \<in> set (pools two_pools). p_pool p = Some 2)"
proof -
  obtain a' where a': "margo_remove_pool_by_handle (Some 0) (Some two_pools) (Some 2) = (Some a', HG_SUCCESS)"
    by (simp add: remove_defs remove_pool_checked_def abt_remove_pool_def pool_destroy_def find_pool_by_handle_def two_pools_def
        empty_registry_def zero_pool_def progress_pool_def rpc_pool_def pool_at_def abt_lock_def abt_unlock_def)
  then show ?thesis using remove_pool_only_unused [OF two_pools_reachable [of "\<lambda>_. []"] a'] by blast
qed

text \<open>
  A pool that was added is found again. If \<open>margo_add_pool_external\<close> succeeds in a reachable
  registry, the pool is the last one; searching for its handle, its name (the one given, or a new one
  that the code generates, which always ends) or its index finds it there, every pool that could be
  found before is found at the same index, and the mutex is as it was.
\<close>

theorem add_pool_then_find:
  assumes r: "registry_reachable sp a" and s: "margo_add_pool_external realloc_ok (Some a) name (Some h) own = Some (Some a', HG_SUCCESS, info)"
  shows "\<exists>n. (name = None \<or> name = Some n) \<and> info = Some (length (pools a), Some n, Some h)
    \<and> find_pool_by_name a' (Some n) = Some (length (pools a)) \<and> find_pool_by_handle a' (Some h) = Some (length (pools a))
    \<and> (\<forall>m i. find_pool_by_name a m = Some i \<longrightarrow> find_pool_by_name a' m = Some i)
    \<and> (\<forall>k i. find_pool_by_handle a k = Some i \<longrightarrow> find_pool_by_handle a' k = Some i)
    \<and> lock_depth a' = lock_depth a"
proof -
  obtain c b where c: "abt_add_external_pool realloc_ok name (Some h) (abt_lock a) = Some (c, b)"
    using s by (auto simp: margo_add_pool_external_def ptr_simps)
  have b: b using s c by (auto simp: margo_add_pool_external_def Let_def split: if_splits)
  then obtain n where n: "pools c = pools a @ [zero_pool\<lparr>p_name := Some n, p_pool := Some h, p_kind := Some ''external''\<rparr>]"
      "find_pool_by_name a (Some n) = None" "find_pool_by_handle a (Some h) = None" "name = None \<or> name = Some n" "lock_depth c = lock_depth a + 1"
    using add_external_pool_result [OF c] abt_lock_depth [of a] by auto
  let ?p = "zero_pool\<lparr>p_name := Some n, p_pool := Some h, p_kind := Some ''external'', p_margo_free_flag := own\<rparr>"
  have a': "a' = abt_unlock (c\<lparr>pools := pools a @ [?p]\<rparr>)" "info = Some (length (pools a), Some n, Some h)"
    using s c b n(1) by (auto simp: margo_add_pool_external_def pool_info_def Let_def)
  have u: "ptab.unique a" using registry_okD(1) [OF registry_reachable_ok [OF r]] .
  have "pool_table a' = pool_table a @ [(Some n, Some h)]" using a'(1) by simp
  note e = ptab.append_entry [OF u this n(2,3)]
  show ?thesis using e n(4,5) a' by (auto simp: abt_unlock_def)
qed

theorem add_pool_then_find_witness:
  "\<exists>info. margo_add_pool_external True (Some empty_registry) (Some ''a'') (Some 1) False = Some (Some one_pool, HG_SUCCESS, info)
     \<and> find_pool_by_name one_pool (Some ''a'') = Some 0"
proof -
  have e: "registry_reachable (\<lambda>_. []) empty_registry" by (rule registry_reachable.empty) (simp_all add: empty_registry_def)
  obtain info where i: "margo_add_pool_external True (Some empty_registry) (Some ''a'') (Some 1) False = Some (Some one_pool, HG_SUCCESS, info)"
    using one_pool_added by blast
  show ?thesis using add_pool_then_find [OF e i] i by (auto simp: empty_registry_def)
qed

text \<open>
  Releasing a reference by handle that does not exist unlocks twice. If the count of the pool
  is zero, \<open>margo_pool_release_by_handle\<close> returns \<open>HG_PERMISSION\<close> with one more release of the mutex
  than acquisitions, while in all other cases the mutex is as it was before the call.
\<close>

theorem release_unlocks_twice:
  assumes "find_pool_by_handle a (Some h) = Some i"
  shows "\<exists>a' ret. margo_pool_release_by_handle (Some a) (Some h) = (Some a', ret)
    \<and> (if p_refcount (pools a ! i) = 0 then ret = HG_PERMISSION \<and> lock_depth a' = lock_depth a - 1
       else ret = HG_SUCCESS \<and> lock_depth a' = lock_depth a)"
  using assms
  by (auto simp: margo_pool_release_by_handle_def on_mid_def Let_def set_pool_refcount_def abt_lock_def abt_unlock_def
      find_pool_by_handle_def)

theorem release_unlocks_twice_witness:
  "\<exists>a'. margo_pool_release_by_handle (Some one_pool) (Some 1) = (Some a', HG_PERMISSION) \<and> lock_depth a' = - 1"
proof -
  have f: "find_pool_by_handle one_pool (Some 1) = Some 0" by (simp add: find_pool_by_handle_def one_pool_def)
  show ?thesis using release_unlocks_twice [OF f] by (simp add: one_pool_def empty_registry_def zero_pool_def)
qed

text \<open>
  Removing a pool moves the last pool into its place, but the indices of the progress pool and of
  the default handler pool are not adjusted. In a reachable registry with three pools of which the
  last is the progress pool, removing the second one succeeds, and then the index of the progress
  pool is past the end of the array.
\<close>

theorem remove_pool_moves_progress_pool:
  "\<exists>a a'. registry_reachable sp a \<and> progress_pool a = Some 3 \<and> margo_remove_pool_by_handle (Some 0) (Some a) (Some 2) = (Some a', HG_SUCCESS)
     \<and> progress_pool_idx a' \<ge> length (pools a') \<and> progress_pool a' = None"
proof -
  let ?p = "\<lambda>n h. zero_pool\<lparr>p_name := Some n, p_pool := Some h, p_kind := Some ''external''\<rparr>"
  let ?e = "empty_registry\<lparr>progress_pool_idx := 2\<rparr>"
  let ?a = "?e\<lparr>pools := [?p ''a'' 1], pools_cap := 1\<rparr>"
  let ?b = "?e\<lparr>pools := [?p ''a'' 1, ?p ''b'' 2], pools_cap := 2\<rparr>"
  let ?c = "?e\<lparr>pools := [?p ''a'' 1, ?p ''b'' 2, ?p ''c'' 3], pools_cap := 4\<rparr>"
  note defs = margo_add_pool_external_def abt_add_external_pool_def find_pool_by_name_def find_pool_by_handle_def
    pools_space_def pool_init_external_def grow_cap_def empty_registry_def abt_lock_def abt_unlock_def zero_pool_def
  have e: "registry_reachable sp ?e" by (rule registry_reachable.empty) (simp_all add: empty_registry_def)
  have "\<exists>info. margo_add_pool_external True (Some ?e) (Some ''a'') (Some 1) False = Some (Some ?a, HG_SUCCESS, info)"
    by (simp add: defs)
  then have a: "registry_reachable sp ?a" using e registry_reachable.step registry_step.add_pool by blast
  have "\<exists>info. margo_add_pool_external True (Some ?a) (Some ''b'') (Some 2) False = Some (Some ?b, HG_SUCCESS, info)"
    by (simp add: defs)
  then have b: "registry_reachable sp ?b" using a registry_reachable.step registry_step.add_pool by blast
  have "\<exists>info. margo_add_pool_external True (Some ?b) (Some ''c'') (Some 3) False = Some (Some ?c, HG_SUCCESS, info)"
    by (simp add: defs)
  then have c: "registry_reachable sp ?c" using b registry_reachable.step registry_step.add_pool by blast
  have "\<exists>a'. margo_remove_pool_by_handle (Some 0) (Some ?c) (Some 2) = (Some a', HG_SUCCESS)
      \<and> progress_pool_idx a' \<ge> length (pools a') \<and> progress_pool a' = None"
    by (simp add: remove_defs remove_pool_checked_def abt_remove_pool_def pool_destroy_def defs progress_pool_def rpc_pool_def pool_at_def)
  moreover have "progress_pool ?c = Some 3" by (simp add: progress_pool_def pool_at_def)
  ultimately show ?thesis using c by blast
qed

end
