(* ===== verification/Rpc_Registry.thy ===== *)
theory Rpc_Registry
  imports Config_Api Handle_Cache Rpc_Id
begin

text \<open>
  Registration of RPCs (\<^verbatim>\<open>src/margo-core.c\<close>): the data that Margo attaches to a Mercury id, the list
  of registered names, and the references that registered RPCs hold on the pools of the registry.
  Mercury's table of ids is seen through what its documentation promises (an id that was registered
  or given data is found until it is deregistered, which calls the free callback of the data); the
  results of its calls are arguments.
\<close>

section \<open>State\<close>

text \<open>\<^verbatim>\<open>struct margo_rpc_data\<close>, with the two fields that handles do not copy.\<close>

record registered_data = rpc_data +
  rd_user_data :: ptr
  rd_user_free_callback :: ptr

text \<open>
  The fields of the instance, the ids that Mercury knows, the data attached to them, those with
  responses disabled, the handlers passed to \<^verbatim>\<open>HG_Register\<close>, and the calls of user callbacks.
\<close>

record rpc_registry =
  registered_rpcs :: "(string \<times> u64) list"
  num_registered_rpcs :: u16
  hg_registered :: "u64 set"
  hg_rpc_data :: "u64 \<rightharpoonup> registered_data"
  hg_disabled :: "u64 set"
  hg_handlers :: "(u64 \<times> addr) list"
  data_frees :: "(addr \<times> addr) list"
  rpc_abt :: margo_abt

text \<open>The results of the calls to Mercury and to the allocator.\<close>

record register_env =
  re_register :: hg_return
  re_malloc :: bool
  re_register_data :: hg_return

section \<open>Operations\<close>

definition margo_get_handler_pool :: "margo_abt option \<Rightarrow> int \<times> ptr option" where
  "margo_get_handler_pool mid = (case mid of Some a \<Rightarrow> (0, Some (rpc_pool a)) | None \<Rightarrow> (-1, None))"

definition margo_get_progress_pool :: "margo_abt option \<Rightarrow> int \<times> ptr option" where
  "margo_get_progress_pool mid = (case mid of Some a \<Rightarrow> (0, Some (progress_pool a)) | None \<Rightarrow> (-1, None))"

text \<open>
  The progress loop moves to another pool. \<open>migrate\<close> is the result of \<^verbatim>\<open>ABT_thread_migrate_to_pool\<close> for the handle of the pool, \<open>inv_arg\<close> the error code
  \<^verbatim>\<open>ABT_ERR_INV_ARG\<close>.
\<close>

definition margo_migrate_progress_loop :: "int \<Rightarrow> (ptr \<Rightarrow> int) \<Rightarrow> margo_abt option \<Rightarrow> nat \<Rightarrow> margo_abt option \<times> int" where
  "margo_migrate_progress_loop inv_arg migrate mid pool_idx =
    (case mid of
       None \<Rightarrow> (None, inv_arg)
     | Some a \<Rightarrow>
         if pool_idx \<ge> length (pools a) then (Some a, inv_arg)
         else if pool_idx = progress_pool_idx a then (Some a, 0)
         else
           (let a = a\<lparr>progress_pool_idx := pool_idx\<rparr>;
                target_pool = p_pool (pools a ! pool_idx)
            in (Some a, migrate target_pool)))"

text \<open>\<^verbatim>\<open>index = find(pool); if (index >= 0) pools[index].refcount...\<close>\<close>

definition change_ref :: "(u32 \<Rightarrow> u32) \<Rightarrow> ptr \<Rightarrow> margo_abt \<Rightarrow> margo_abt" where
  "change_ref f pool a = (case find_pool_by_handle a pool of Some i \<Rightarrow> set_pool_refcount i f a | None \<Rightarrow> a)"

definition margo_register_internal ::
  "register_env \<Rightarrow> ptr \<Rightarrow> string option \<Rightarrow> u64 \<Rightarrow> ptr \<Rightarrow> ptr \<Rightarrow> addr \<Rightarrow> ptr \<Rightarrow> rpc_registry \<Rightarrow> rpc_registry \<times> u64" where
  "margo_register_internal e mid name rpc_id in_proc_cb out_proc_cb rpc_cb pool s =
    (let pool = (if pool = None then rpc_pool (rpc_abt s) else pool)
     in if re_register e \<noteq> HG_SUCCESS then (s, 0)
        else
          (let s = s\<lparr>hg_registered := insert rpc_id (hg_registered s), hg_handlers := (rpc_id, rpc_cb) # hg_handlers s\<rparr>;
               (s, ok) =
                 (case hg_rpc_data s rpc_id of
                    Some margo_data \<Rightarrow> (s, True)
                  | None \<Rightarrow>
                      if \<not> re_malloc e then (s, False)
                      else if re_register_data e \<noteq> HG_SUCCESS then (s, False)
                      else
                        (s\<lparr>hg_rpc_data := (hg_rpc_data s)(rpc_id \<mapsto>
                             \<lparr>rd_mid = mid, rd_pool = pool, rd_rpc_name = name, rd_in_proc_cb = in_proc_cb,
                              rd_out_proc_cb = out_proc_cb, rd_user_data = None, rd_user_free_callback = None\<rparr>)\<rparr>,
                         True))
           in if \<not> ok then (s, 0)
              else
                (case margo_find_pool_by_handle (Some (rpc_abt s)) pool of
                   (Some a, HG_SUCCESS, Some (i, _)) \<Rightarrow> (s\<lparr>rpc_abt := set_pool_refcount i (\<lambda>n. n + 1) a\<rparr>, rpc_id)
                 | _ \<Rightarrow> (s, rpc_id))))"

text \<open>
  \<open>node_ok\<close> says whether the node of the list could be allocated, \<open>null_handler\<close> is the address of
  \<^verbatim>\<open>_handler_for_NULL\<close>; the name is cut to the 63 characters that the node holds.
\<close>

definition margo_provider_register_name ::
  "bool \<Rightarrow> bool \<Rightarrow> addr \<Rightarrow> register_env \<Rightarrow> ptr \<Rightarrow> string \<Rightarrow> ptr \<Rightarrow> ptr \<Rightarrow> ptr \<Rightarrow> u16 \<Rightarrow> ptr \<Rightarrow> rpc_registry \<Rightarrow> rpc_registry \<times> u64" where
  "margo_provider_register_name hg_2_3 node_ok null_handler e mid func_name in_proc_cb out_proc_cb rpc_cb provider_id pool s =
    (let rpc_cb = (case rpc_cb of None \<Rightarrow> null_handler | Some cb \<Rightarrow> cb);
         rpc_id = gen_id hg_2_3 func_name provider_id
     in if \<not> node_ok then (s, 0)
        else
          (let next = registered_rpcs s;
               s = s\<lparr>registered_rpcs := (take 63 func_name, rpc_id) # next, num_registered_rpcs := num_registered_rpcs s + 1\<rparr>
           in case margo_register_internal e mid (Some func_name) rpc_id in_proc_cb out_proc_cb rpc_cb pool s of
                (s, rpc_id) \<Rightarrow>
                  if rpc_id = 0
                  then (s\<lparr>registered_rpcs := next, num_registered_rpcs := num_registered_rpcs s - 1\<rparr>, rpc_id)
                  else (s, rpc_id)))"

definition margo_rpc_data_free :: "registered_data \<Rightarrow> rpc_registry \<Rightarrow> rpc_registry" where
  "margo_rpc_data_free data s =
    (case (rd_user_data data, rd_user_free_callback data) of
       (Some d, Some f) \<Rightarrow> s\<lparr>data_frees := data_frees s @ [(f, d)]\<rparr>
     | _ \<Rightarrow> s)"

text \<open>\<open>hret\<close> is the result of \<^verbatim>\<open>HG_Deregister\<close>; the instance and its class exist.\<close>

definition margo_deregister :: "hg_return \<Rightarrow> u64 \<Rightarrow> rpc_registry \<Rightarrow> rpc_registry \<times> hg_return" where
  "margo_deregister hret rpc_id s =
    (let s = (case hg_rpc_data s rpc_id of
                Some data \<Rightarrow> s\<lparr>rpc_abt := abt_unlock (change_ref (\<lambda>n. n - 1) (rd_pool data) (abt_lock (rpc_abt s)))\<rparr>
              | None \<Rightarrow> s)
     in if hret \<noteq> HG_SUCCESS then (s, hret)
        else
          (let s = (case hg_rpc_data s rpc_id of Some data \<Rightarrow> margo_rpc_data_free data s | None \<Rightarrow> s)
           in (s\<lparr>hg_registered := hg_registered s - {rpc_id}, hg_rpc_data := (hg_rpc_data s)(rpc_id := None)\<rparr>, hret)))"

text \<open>The id and the flag that the two functions store, for a call of \<^verbatim>\<open>HG_Registered\<close> that succeeds.\<close>

definition margo_provider_registered_name :: "bool \<Rightarrow> string \<Rightarrow> u16 \<Rightarrow> rpc_registry \<Rightarrow> u64 \<times> bool" where
  "margo_provider_registered_name hg_2_3 func_name provider_id s =
    (let rpc_id = gen_id hg_2_3 func_name provider_id in (rpc_id, rpc_id \<in> hg_registered s))"

definition margo_registered_name :: "bool \<Rightarrow> string \<Rightarrow> rpc_registry \<Rightarrow> u64 \<times> bool" where
  "margo_registered_name hg_2_3 func_name s = margo_provider_registered_name hg_2_3 func_name MARGO_DEFAULT_PROVIDER_ID s"

definition margo_register_data :: "u64 \<Rightarrow> ptr \<Rightarrow> ptr \<Rightarrow> rpc_registry \<Rightarrow> rpc_registry \<times> hg_return" where
  "margo_register_data rpc_id data free_callback s =
    (case hg_rpc_data s rpc_id of
       None \<Rightarrow> (s, HG_OTHER_ERROR)
     | Some margo_data \<Rightarrow>
         (let s = margo_rpc_data_free margo_data s
          in (s\<lparr>hg_rpc_data := (hg_rpc_data s)(rpc_id \<mapsto>
                  margo_data\<lparr>rd_user_data := data, rd_user_free_callback := free_callback\<rparr>)\<rparr>, HG_SUCCESS)))"

definition margo_registered_data :: "u64 \<Rightarrow> rpc_registry \<Rightarrow> ptr" where
  "margo_registered_data rpc_id s = (case hg_rpc_data s rpc_id of None \<Rightarrow> None | Some data \<Rightarrow> rd_user_data data)"

definition margo_registered_disable_response :: "hg_return \<Rightarrow> u64 \<Rightarrow> bool \<Rightarrow> rpc_registry \<Rightarrow> rpc_registry \<times> hg_return" where
  "margo_registered_disable_response hret rpc_id disable s =
    (if hret = HG_SUCCESS
     then (s\<lparr>hg_disabled := (if disable then insert rpc_id (hg_disabled s) else hg_disabled s - {rpc_id})\<rparr>, hret)
     else (s, hret))"

definition margo_registered_disabled_response :: "hg_return \<Rightarrow> u64 \<Rightarrow> rpc_registry \<Rightarrow> hg_return \<times> bool option" where
  "margo_registered_disabled_response hret rpc_id s =
    (if hret \<noteq> HG_SUCCESS then (hret, None) else (HG_SUCCESS, Some (rpc_id \<in> hg_disabled s)))"

definition margo_rpc_get_name :: "u64 \<Rightarrow> rpc_registry \<Rightarrow> string option" where
  "margo_rpc_get_name rpc_id s = (case hg_rpc_data s rpc_id of None \<Rightarrow> None | Some data \<Rightarrow> rd_rpc_name data)"

definition margo_rpc_get_pool :: "u64 \<Rightarrow> rpc_registry \<Rightarrow> hg_return \<times> ptr option" where
  "margo_rpc_get_pool rpc_id s =
    (case hg_rpc_data s rpc_id of None \<Rightarrow> (HG_NOENTRY, None) | Some data \<Rightarrow> (HG_SUCCESS, Some (rd_pool data)))"

definition margo_rpc_set_pool :: "u64 \<Rightarrow> ptr \<Rightarrow> rpc_registry \<Rightarrow> rpc_registry \<times> hg_return" where
  "margo_rpc_set_pool rpc_id pool s =
    (case hg_rpc_data s rpc_id of
       None \<Rightarrow> (s, HG_NOENTRY)
     | Some data \<Rightarrow>
         (let a = abt_lock (rpc_abt s);
              pool = (if pool = None then rpc_pool a else pool);
              old_pool_entry_idx = find_pool_by_handle a (rd_pool data);
              new_pool_entry_idx = find_pool_by_handle a pool;
              a = (case old_pool_entry_idx of Some i \<Rightarrow> set_pool_refcount i (\<lambda>n. n - 1) a | None \<Rightarrow> a);
              a = (case new_pool_entry_idx of Some i \<Rightarrow> set_pool_refcount i (\<lambda>n. n + 1) a | None \<Rightarrow> a)
          in (s\<lparr>rpc_abt := abt_unlock a, hg_rpc_data := (hg_rpc_data s)(rpc_id \<mapsto> data\<lparr>rd_pool := pool\<rparr>)\<rparr>, HG_SUCCESS)))"

text \<open>
  The id of the RPC that the calling ULT serves, kept under an Argobots key (zero if it was never
  set): \<open>ok\<close> is whether Argobots reports success.
\<close>

definition margo_set_current_rpc_id :: "bool \<Rightarrow> u64 \<Rightarrow> u64 \<Rightarrow> u64 \<times> hg_return" where
  "margo_set_current_rpc_id ok parent_id key =
    (let parent_id = (if parent_id = 0 then mux_id 0 MARGO_DEFAULT_PROVIDER_ID else parent_id)
     in if ok then (parent_id, HG_SUCCESS) else (key, HG_OTHER_ERROR))"

definition margo_get_current_rpc_id :: "bool \<Rightarrow> u64 \<Rightarrow> u64 \<times> hg_return" where
  "margo_get_current_rpc_id ok key =
    (if \<not> ok \<or> key = 0 then (mux_id 0 MARGO_DEFAULT_PROVIDER_ID, HG_OTHER_ERROR) else (key, HG_SUCCESS))"

section \<open>References on pools\<close>

text \<open>
  What the registration of RPCs relies on: a table of reference counts by pool, of which one count
  can be changed. A table covers a number of users per pool if every pool in use is in the table
  with a count that is not smaller.
\<close>

locale ref_table =
  fixes refs :: "'a \<Rightarrow> addr \<Rightarrow> u32 option"
    and change :: "(u32 \<Rightarrow> u32) \<Rightarrow> ptr \<Rightarrow> 'a \<Rightarrow> 'a"
    and inv :: "'a \<Rightarrow> bool"
  assumes refs_change: "inv a \<Longrightarrow> refs (change f (Some h) a) = (case refs a h of None \<Rightarrow> refs a | Some r \<Rightarrow> (refs a)(h \<mapsto> f r))"
    and change_None: "change f None a = a"
    and inv_change: "inv a \<Longrightarrow> inv (change f p a)"
begin

definition covers :: "'a \<Rightarrow> (addr \<Rightarrow> nat) \<Rightarrow> bool" where
  "covers a users \<longleftrightarrow> (\<forall>h. users h \<noteq> 0 \<longrightarrow> (\<exists>r. refs a h = Some r \<and> users h \<le> unat r))"

lemma coversD: "covers a users \<Longrightarrow> users h \<noteq> 0 \<Longrightarrow> \<exists>r. refs a h = Some r \<and> users h \<le> unat r"
  by (simp add: covers_def)

lemma covers_incr:
  assumes c: "covers a users" and i: "inv a" and r: "refs a h = Some r" "r \<noteq> - 1"
    and k: "k \<le> users h + 1"
  shows "covers (change (\<lambda>n. n + 1) (Some h) a) (users(h := k))"
proof -
  have "unat (r + 1) = unat r + 1" using r(2) max_word_wrap unatSuc [of r] by (metis Suc_eq_plus1 add.commute)
  moreover have "users h \<le> unat r" using coversD [OF c, of h] r(1) by (cases "users h = 0") auto
  ultimately have "k \<le> unat (r + 1)" using k by simp
  then show ?thesis using c r(1) unfolding covers_def refs_change [OF i] by simp
qed

lemma covers_decr:
  assumes c: "covers a users" and i: "inv a" and u: "users h \<noteq> 0"
  shows "covers (change (\<lambda>n. n - 1) (Some h) a) (users(h := users h - 1))"
proof -
  obtain r where r: "refs a h = Some r" "users h \<le> unat r" using coversD [OF c u] by blast
  then have "r \<noteq> 0" using u by auto
  then have "unat (r - 1) = unat r - 1" by (rule unat_minus_one)
  then show ?thesis using c r unfolding covers_def refs_change [OF i] by auto
qed

lemma covers_release:
  assumes c: "covers a users" and i: "inv a" and r: "\<And>r. refs a h = Some r \<Longrightarrow> users h < unat r"
  shows "covers (change (\<lambda>n. n - 1) (Some h) a) users"
proof (cases "refs a h")
  case None
  then show ?thesis using c unfolding covers_def refs_change [OF i] by simp
next
  case (Some s)
  then have "users h < unat s" using r by blast
  then have "s \<noteq> 0" by auto
  then have "unat (s - 1) = unat s - 1" by (rule unat_minus_one)
  then show ?thesis using c Some \<open>users h < unat s\<close> unfolding covers_def refs_change [OF i] by auto
qed

text \<open>Pools without references may come and go.\<close>

lemma covers_cong:
  assumes c: "covers a users" and s: "\<And>h. refs b h = refs a h \<or> refs a h = None \<or> refs a h = Some 0"
  shows "covers b users"
  unfolding covers_def
proof (intro allI impI)
  fix h assume "users h \<noteq> 0"
  then show "\<exists>r. refs b h = Some r \<and> users h \<le> unat r" using coversD [OF c, of h] s [of h] by auto
qed

end

text \<open>The counts of the registry of pools.\<close>

definition ref_view :: "margo_abt \<Rightarrow> (ptr \<times> u32) list" where
  "ref_view a = map (\<lambda>p. (p_pool p, p_refcount p)) (pools a)"

definition refs :: "margo_abt \<Rightarrow> addr \<Rightarrow> u32 option" where
  "refs a h = map_option (\<lambda>i. p_refcount (pools a ! i)) (find_pool_by_handle a (Some h))"

lemma ptab_handles: "ptab.unique a \<Longrightarrow> distinct (map p_pool (pools a)) \<and> None \<notin> p_pool ` set (pools a)"
  by (simp add: ptab.unique_def comp_def image_image)

lemma ptab_names: "ptab.unique a \<Longrightarrow> p \<in> set (pools a) \<Longrightarrow> p_name p \<noteq> None"
proof
  assume "ptab.unique a" "p \<in> set (pools a)" "p_name p = None"
  then have "None \<in> p_name ` set (pools a)" by force
  with \<open>ptab.unique a\<close> show False by (simp add: ptab.unique_def image_image)
qed

lemma find_pool_iff:
  "ptab.unique a \<Longrightarrow> find_pool_by_handle a (Some h) = Some i \<longleftrightarrow> i < length (pools a) \<and> p_pool (pools a ! i) = Some h"
  using ptab.find_iff(2) [of a h i] by auto

lemma refs_iff: "ptab.unique a \<Longrightarrow> refs a h = Some r \<longleftrightarrow> (Some h, r) \<in> set (ref_view a)"
  unfolding in_set_conv_nth by (auto simp: refs_def ref_view_def find_pool_iff)

lemma refs_cong:
  assumes "ptab.unique a" "ptab.unique b" "set (ref_view a) = set (ref_view b)"
  shows "refs a = refs b"
proof
  fix h
  have "refs a h = Some r \<longleftrightarrow> refs b h = Some r" for r using assms refs_iff by simp
  then show "refs a h = refs b h" by (metis not_None_eq)
qed

lemma pools_set_refcount:
  "pools (set_pool_refcount i f a) = (pools a)[i := (pools a ! i)\<lparr>p_refcount := f (p_refcount (pools a ! i))\<rparr>]"
  by (simp add: set_pool_refcount_def Let_def)

lemma set_refcount_table [simp]: "pool_table (set_pool_refcount i f a) = pool_table a"
  unfolding pools_set_refcount by (rule map_update_same) simp

lemma find_pool_set_refcount [simp]: "find_pool_by_handle (set_pool_refcount i f a) h = find_pool_by_handle a h"
  by (simp only: ptab.find_handle_law set_refcount_table)

lemma change_ref_unique: "ptab.unique a \<Longrightarrow> ptab.unique (change_ref f p a)"
  using ptab_unique_cong [OF set_refcount_table] by (simp add: change_ref_def split: option.splits)

lemma refs_change_ref:
  assumes u: "ptab.unique a"
  shows "refs (change_ref f (Some h) a) = (case refs a h of None \<Rightarrow> refs a | Some r \<Rightarrow> (refs a)(h \<mapsto> f r))"
proof (cases "find_pool_by_handle a (Some h)")
  case None
  then show ?thesis by (simp add: change_ref_def refs_def)
next
  case (Some i)
  note h = Some
  have "refs (set_pool_refcount i f a) k = (if k = h then Some (f (p_refcount (pools a ! i))) else refs a k)" for k
  proof (cases "find_pool_by_handle a (Some k)")
    case None
    then show ?thesis using h by (auto simp: refs_def)
  next
    case (Some j)
    have "i < length (pools a)" "p_pool (pools a ! i) = Some h" using h find_pool_iff [OF u] by auto
    moreover have "p_pool (pools a ! j) = Some k" using Some find_pool_iff [OF u] by auto
    ultimately have "j = i \<longleftrightarrow> k = h" "i < length (pools a)" using Some h by auto
    then show ?thesis using Some h by (auto simp: refs_def pools_set_refcount)
  qed
  then show ?thesis using h by (auto simp: change_ref_def refs_def fun_eq_iff)
qed

interpretation pool_refs: ref_table refs change_ref ptab.unique
proof unfold_locales
  show "change_ref f None a = a" for f a by (simp add: change_ref_def find_pool_by_handle_def)
qed (simp_all add: refs_change_ref change_ref_unique)

section \<open>Users of pools\<close>

text \<open>How many registered RPCs have a pool in their data.\<close>

definition users :: "(u64 \<rightharpoonup> registered_data) \<Rightarrow> addr \<Rightarrow> nat" where
  "users m h = card {rpc_id. \<exists>data. m rpc_id = Some data \<and> rd_pool data = Some h}"

lemma users_empty [simp]: "users Map.empty h = 0"
  by (simp add: users_def)

lemma users_pos: "m rpc_id = Some data \<Longrightarrow> rd_pool data = Some h \<Longrightarrow> users m h \<noteq> 0"
  by (auto simp: users_def card_eq_0_iff)

lemma users_update:
  "users (m(rpc_id \<mapsto> data)) h = users (m(rpc_id := None)) h + (if rd_pool data = Some h then 1 else 0)"
proof -
  let ?A = "{i. \<exists>d. (m(rpc_id := None)) i = Some d \<and> rd_pool d = Some h}"
  have "{i. \<exists>d. (m(rpc_id \<mapsto> data)) i = Some d \<and> rd_pool d = Some h} = (if rd_pool data = Some h then insert rpc_id ?A else ?A)"
    by (auto split: if_splits)
  moreover have "rpc_id \<notin> ?A" by simp
  ultimately show ?thesis unfolding users_def by simp
qed

lemma users_remove:
  assumes "m rpc_id = Some data"
  shows "users m h = users (m(rpc_id := None)) h + (if rd_pool data = Some h then 1 else 0)"
  using users_update [of m rpc_id data h] assms by (metis fun_upd_triv)

lemma users_fun:
  assumes "m rpc_id = Some data"
  shows "users (m(rpc_id := None)) = (case rd_pool data of None \<Rightarrow> users m | Some h \<Rightarrow> (users m)(h := users m h - 1))"
  using users_remove [of m rpc_id data, OF assms] by (auto simp: fun_eq_iff split: option.splits)

text \<open>The calls that add and remove pools and streams do not change the count of a pool in use.\<close>

lemma count_xstream_refs: "count_xstream f b ps a = (a', r) \<Longrightarrow> ref_view a' = ref_view a"
proof (induction f b ps a rule: count_xstream.induct)
  case (2 f primary pool ps a)
  show ?case
  proof (cases "find_pool_by_handle a pool")
    case (Some i)
    let ?e = "(pools a ! i)\<lparr>p_num_xstreams := f (p_num_xstreams (pools a ! i)),
      p_used_by_primary := p_used_by_primary (pools a ! i) \<or> primary\<rparr>"
    have "ref_view a' = ref_view (a\<lparr>pools := (pools a)[i := ?e]\<rparr>)"
      using "2.IH" [OF Some refl refl] "2.prems" Some by (simp add: Let_def)
    also have "\<dots> = ref_view a" unfolding ref_view_def by (simp add: map_update_same)
    finally show ?thesis .
  qed (use 2 in simp)
qed simp

lemma xstream_destroy_refs [simp]: "ref_view (xstream_destroy sched x a) = ref_view a"
proof -
  have "ref_view (fst (count_xstream f b ps a)) = ref_view a" for f b ps
    using count_xstream_refs [of f b ps a] by (metis prod.collapse)
  then show ?thesis by (auto simp: xstream_destroy_def Let_def ref_view_def split: option.splits)
qed

lemma refs_view: "ptab.unique a \<Longrightarrow> ptab.unique b \<Longrightarrow> ref_view a = ref_view b \<Longrightarrow> refs a = refs b"
  by (rule refs_cong) simp_all

lemma ref_view_lock [simp]: "ref_view (abt_lock a) = ref_view a" "ref_view (abt_unlock a) = ref_view a"
  "refs (abt_lock a) = refs a" "refs (abt_unlock a) = refs a"
  "ptab.unique (abt_lock a) = ptab.unique a" "ptab.unique (abt_unlock a) = ptab.unique a"
  by (simp_all add: ref_view_def refs_def fun_eq_iff abt_unlock_def find_pool_by_handle_def ptab.unique_def)

lemma add_xstream_refs:
  assumes "margo_add_xstream_external realloc_ok sched ty (Some a) name x own = Some (Some a', ret, info)"
  shows "ref_view a' = ref_view a"
proof -
  have i: "ref_view b' = ref_view b" if "xstream_init_external sched ty name x b = Some (b', y)" for b b' y
    using that count_xstream_refs [of _ _ _ b]
    by (auto simp: xstream_init_external_def ptr_simps Let_def split: option.splits if_splits prod.splits bool.splits)
  have "ref_view b' = ref_view b" if "abt_add_external_xstream realloc_ok sched ty name x b = Some (b', c)" for b b' c
  proof -
    have "ref_view (b\<lparr>xstreams_cap := k\<rparr>) = ref_view b" "ref_view (b\<lparr>xstreams := ys\<rparr>) = ref_view b" for b k ys
      by (simp_all add: ref_view_def)
    then show ?thesis using that i
      by (auto simp: abt_add_external_xstream_def xstreams_space_def ptr_simps split: option.splits if_splits)
  qed
  note r = this
  obtain b c where b: "abt_add_external_xstream realloc_ok sched ty name x (abt_lock a) = Some (b, c)"
    using assms by (auto simp: margo_add_xstream_external_def ptr_simps)
  have "ref_view a' = ref_view b"
    using assms b by (auto simp: margo_add_xstream_external_def Let_def ref_view_def split: if_splits)
  then show ?thesis using r [OF b] by simp
qed

lemma remove_xstream_refs: "abt_remove_xstream sched i a = Some (a', ret) \<Longrightarrow> ref_view a' = ref_view a"
proof -
  assume r: "abt_remove_xstream sched i a = Some (a', ret)"
  have "ref_view (b\<lparr>xstreams := ys\<rparr>) = ref_view b" for b ys by (simp add: ref_view_def)
  then show ?thesis using r by (auto simp: abt_remove_xstream_def Let_def ptr_simps split: if_splits)
qed

text \<open>Pools with references stay, with their count.\<close>

definition keeps_used :: "margo_abt \<Rightarrow> margo_abt \<Rightarrow> bool" where
  "keeps_used a b \<longleftrightarrow> (\<forall>e \<in> set (ref_view a). snd e \<noteq> 0 \<longrightarrow> e \<in> set (ref_view b))"

lemma keeps_used_view: "ref_view b = ref_view a \<Longrightarrow> keeps_used a b"
  by (simp add: keeps_used_def)

lemma add_pool_keeps_used:
  assumes "margo_add_pool_external realloc_ok (Some a) name (Some h) own = Some (Some a', ret, info)"
  shows "keeps_used a a'"
proof -
  obtain c b where c: "abt_add_external_pool realloc_ok name (Some h) (abt_lock a) = Some (c, b)"
    using assms by (auto simp: margo_add_pool_external_def ptr_simps)
  note res = add_external_pool_result [OF c]
  show ?thesis
  proof (cases b)
    case False
    then have "ref_view a' = ref_view a" using assms c res by (auto simp: margo_add_pool_external_def ref_view_def)
    then show ?thesis by (rule keeps_used_view)
  next
    case True
    then obtain n where "pools c = pools a @ [zero_pool\<lparr>p_name := Some n, p_pool := Some h, p_kind := Some ''external''\<rparr>]"
      using res by auto
    then show ?thesis
      using assms c True by (auto simp: margo_add_pool_external_def Let_def ref_view_def keeps_used_def)
  qed
qed

lemma add_pool_json_keeps_used:
  assumes "margo_add_pool_from_json parsed valid realloc_ok jname create a = Some (a', ret, info)"
  shows "keeps_used a a'"
proof (cases parsed)
  case False
  then show ?thesis using assms by (simp add: margo_add_pool_from_json_def keeps_used_def)
next
  case True
  then obtain c b where c: "abt_add_pool_from_json valid realloc_ok jname create (abt_lock a) = Some (c, b)"
    using assms by (auto simp: margo_add_pool_from_json_def ptr_simps)
  have "a' = abt_unlock c" using assms c True by (auto simp: margo_add_pool_from_json_def split: if_splits)
  moreover have "\<exists>ps. pools c = pools a @ ps" using add_pool_from_json_result [OF c] by (cases b) auto
  ultimately show ?thesis by (auto simp: keeps_used_def ref_view_def)
qed

lemma remove_pool_keeps_used:
  assumes u: "ptab.unique a" and r: "remove_pool_checked total_size i a = (a', ret)"
  shows "keeps_used a a'"
proof (cases "ret = HG_SUCCESS")
  case False
  then show ?thesis using remove_pool_checked_result [OF r] by (simp add: keeps_used_def ref_view_def)
next
  case True
  then have i: "i < length (pools a)" "p_refcount (pools a ! i) = 0" "pools a' = butlast ((pools a)[i := last (pools a)])"
    using remove_pool_checked_result [OF r] by auto
  have "distinct (pools a)" using ptab_handles [OF u] by (auto simp: distinct_map)
  then have "set (pools a') = set (pools a) - {pools a ! i}" using set_swap_last [OF i(1)] i(3) by simp
  then show ?thesis using i(2) by (auto simp: keeps_used_def ref_view_def)
qed

lemma registry_step_keeps_used:
  assumes ok: "registry_ok sp a" and "registry_step sp a a'"
  shows "keeps_used a a'"
  using assms(2)
proof cases
  case add_pool
  then show ?thesis by (rule add_pool_keeps_used)
next
  case add_pool_json
  then show ?thesis using add_pool_json_keeps_used by blast
next
  case add_xstream
  then show ?thesis using keeps_used_view [OF add_xstream_refs] by blast
next
  case (remove_pool_by_handle total_size h ret)
  with registry_okD(1) [OF ok] show ?thesis
    using remove_pool_keeps_used [of "abt_lock a"] by (auto simp: remove_defs keeps_used_def split: prod.splits option.splits)
next
  case (remove_pool_by_name total_size n ret)
  with registry_okD(1) [OF ok] show ?thesis
    using remove_pool_keeps_used [of "abt_lock a"] by (auto simp: remove_defs keeps_used_def split: prod.splits option.splits)
next
  case (remove_pool_by_index total_size k ret)
  with registry_okD(1) [OF ok] show ?thesis
    using remove_pool_keeps_used [of "abt_lock a"] by (auto simp: remove_defs keeps_used_def split: prod.splits)
next
  case (remove_xstream_by_handle h ret)
  then show ?thesis
    using remove_xstream_refs [of _ _ "abt_lock a"] by (auto simp: remove_defs ptr_simps intro!: keeps_used_view split: option.splits)
next
  case (remove_xstream_by_name n i ret)
  then show ?thesis
    using remove_xstream_refs [of _ _ "abt_lock a"] by (auto simp: remove_defs ptr_simps intro!: keeps_used_view)
next
  case (remove_xstream_by_index k ret)
  then show ?thesis
    using remove_xstream_refs [of _ _ "abt_lock a"] by (auto simp: remove_defs ptr_simps intro!: keeps_used_view split: if_splits)
next
  case (xstream_ref_incr h ret)
  then show ?thesis
    by (auto simp: ref_defs set_xstream_refcount_def ref_view_def intro!: keeps_used_view split: option.splits if_splits)
next
  case (xstream_release h ret)
  then show ?thesis
    by (auto simp: ref_defs set_xstream_refcount_def ref_view_def intro!: keeps_used_view split: option.splits if_splits)
qed

lemma keeps_used_covers:
  assumes "ptab.unique a" "ptab.unique b" "keeps_used a b" "pool_refs.covers a u"
  shows "pool_refs.covers b u"
proof (rule pool_refs.covers_cong [OF assms(4)])
  fix h
  show "refs b h = refs a h \<or> refs a h = None \<or> refs a h = Some 0"
  proof (cases "refs a h")
    case (Some r)
    then show ?thesis using assms(3) refs_iff [OF assms(1), of h r] refs_iff [OF assms(2), of h r] by (cases "r = 0") (auto simp: keeps_used_def)
  qed simp
qed

section \<open>What the operations do\<close>

lemma find_pool_call:
  "(case margo_find_pool_by_handle (Some a) pool of (Some a, HG_SUCCESS, Some (i, _)) \<Rightarrow> f a i | _ \<Rightarrow> g) =
   (case find_pool_by_handle a pool of Some i \<Rightarrow> f a i | None \<Rightarrow> g)"
proof (cases pool)
  case None
  then show ?thesis by (simp add: margo_find_pool_by_handle_def on_mid_def find_pool_by_handle_def)
next
  case (Some h)
  then show ?thesis by (cases "find_pool_by_handle a pool") (simp_all add: margo_find_pool_by_handle_def on_mid_def pool_info_def Let_def)
qed

text \<open>The pool that a registration uses.\<close>

definition eff_pool :: "ptr \<Rightarrow> rpc_registry \<Rightarrow> ptr" where
  "eff_pool pool s = (if pool = None then rpc_pool (rpc_abt s) else pool)"

definition new_data :: "ptr \<Rightarrow> string option \<Rightarrow> ptr \<Rightarrow> ptr \<Rightarrow> ptr \<Rightarrow> registered_data" where
  "new_data mid name in_cb out_cb pool = \<lparr>rd_mid = mid, rd_pool = pool, rd_rpc_name = name, rd_in_proc_cb = in_cb,
     rd_out_proc_cb = out_cb, rd_user_data = None, rd_user_free_callback = None\<rparr>"

lemma register_effect:
  assumes "margo_register_internal e mid name rpc_id in_cb out_cb cb pool s = (s', r)"
  shows "(r = 0 \<and> rpc_abt s' = rpc_abt s \<and> hg_rpc_data s' = hg_rpc_data s)
    \<or> (r = rpc_id \<and> rpc_abt s' = change_ref (\<lambda>n. n + 1) (eff_pool pool s) (rpc_abt s) \<and> rpc_id \<in> hg_registered s'
       \<and> hg_rpc_data s' = (case hg_rpc_data s rpc_id of
           Some d \<Rightarrow> hg_rpc_data s | None \<Rightarrow> (hg_rpc_data s)(rpc_id \<mapsto> new_data mid name in_cb out_cb (eff_pool pool s))))"
proof (cases "re_register e = HG_SUCCESS \<and> (hg_rpc_data s rpc_id \<noteq> None \<or> re_malloc e \<and> re_register_data e = HG_SUCCESS)")
  case True
  then show ?thesis
    using assms
    by (cases "find_pool_by_handle (rpc_abt s) (eff_pool pool s)"; cases "hg_rpc_data s rpc_id";
        auto simp add: margo_register_internal_def find_pool_call change_ref_def new_data_def Let_def simp flip: eff_pool_def)
next
  case False
  then show ?thesis
    using assms by (auto simp: margo_register_internal_def Let_def split: if_splits option.splits)
qed

lemma provider_register_effect:
  assumes "margo_provider_register_name v node_ok nh e mid name in_cb out_cb cb provider_id pool s = (s', r)"
  shows "(r = 0 \<and> rpc_abt s' = rpc_abt s \<and> hg_rpc_data s' = hg_rpc_data s)
    \<or> (r = gen_id v name provider_id \<and> rpc_abt s' = change_ref (\<lambda>n. n + 1) (eff_pool pool s) (rpc_abt s)
       \<and> gen_id v name provider_id \<in> hg_registered s'
       \<and> hg_rpc_data s' = (case hg_rpc_data s (gen_id v name provider_id) of
           Some d \<Rightarrow> hg_rpc_data s | None \<Rightarrow> (hg_rpc_data s)(gen_id v name provider_id \<mapsto> new_data mid (Some name) in_cb out_cb (eff_pool pool s))))"
proof (cases node_ok)
  case False
  then show ?thesis using assms by (simp add: margo_provider_register_name_def)
next
  case True
  let ?id = "gen_id v name provider_id"
  let ?s = "s\<lparr>registered_rpcs := (take 63 name, ?id) # registered_rpcs s, num_registered_rpcs := num_registered_rpcs s + 1\<rparr>"
  obtain t q where q: "margo_register_internal e mid (Some name) ?id in_cb out_cb (case cb of None \<Rightarrow> nh | Some c \<Rightarrow> c) pool ?s = (t, q)"
    by fastforce
  have "rpc_abt s' = rpc_abt t" "hg_rpc_data s' = hg_rpc_data t" "hg_registered s' = hg_registered t" "r = q"
    using assms True q by (auto simp: margo_provider_register_name_def Let_def split: if_splits)
  moreover have "eff_pool pool ?s = eff_pool pool s" by (simp add: eff_pool_def)
  ultimately show ?thesis using register_effect [OF q] by (auto split: option.splits)
qed

lemma free_data_simps [simp]:
  "rpc_abt (margo_rpc_data_free d s) = rpc_abt s" "hg_rpc_data (margo_rpc_data_free d s) = hg_rpc_data s"
  "hg_registered (margo_rpc_data_free d s) = hg_registered s"
  by (simp_all add: margo_rpc_data_free_def split: option.splits)

lemma deregister_effect:
  assumes "margo_deregister HG_SUCCESS rpc_id s = (s', hret)"
  shows "hg_rpc_data s' = (hg_rpc_data s)(rpc_id := None) \<and> hg_registered s' = hg_registered s - {rpc_id}
    \<and> rpc_abt s' = (case hg_rpc_data s rpc_id of None \<Rightarrow> rpc_abt s
        | Some d \<Rightarrow> abt_unlock (change_ref (\<lambda>n. n - 1) (rd_pool d) (abt_lock (rpc_abt s))))"
  using assms by (auto simp: margo_deregister_def Let_def split: option.splits)

lemma set_pool_effect:
  assumes "margo_rpc_set_pool rpc_id pool s = (s', hret)" "hg_rpc_data s rpc_id = Some d"
  shows "hg_rpc_data s' = (hg_rpc_data s)(rpc_id \<mapsto> d\<lparr>rd_pool := eff_pool pool s\<rparr>)
    \<and> rpc_abt s' = abt_unlock (change_ref (\<lambda>n. n + 1) (eff_pool pool s) (change_ref (\<lambda>n. n - 1) (rd_pool d) (abt_lock (rpc_abt s))))"
proof -
  have "rpc_pool (abt_lock a) = rpc_pool a" for a by (simp add: rpc_pool_def pool_at_def abt_lock_def)
  then show ?thesis
    using assms by (cases "pool = None") (auto simp: margo_rpc_set_pool_def Let_def change_ref_def eff_pool_def split: option.splits)
qed

section \<open>Reachable registries\<close>

text \<open>
  The states that sequences of calls reach, from a registry of pools without RPCs. Pools named in a
  registration are known to the registry, fewer than \<open>2 ^ 32 - 1\<close> references are taken on a pool, a
  user releases references that users took, and \<^verbatim>\<open>HG_Deregister\<close> succeeds for an id with data.
\<close>

definition counts_small :: "rpc_registry \<Rightarrow> bool" where
  "counts_small s \<longleftrightarrow> (\<forall>p \<in> set (pools (rpc_abt s)). p_refcount p \<noteq> - 1)"

definition pool_known :: "ptr \<Rightarrow> rpc_registry \<Rightarrow> bool" where
  "pool_known pool s \<longleftrightarrow> pool = None \<or> find_pool_by_handle (rpc_abt s) pool \<noteq> None"

inductive rpc_reachable :: "(ptr \<Rightarrow> ptr list) \<Rightarrow> rpc_registry \<Rightarrow> bool" for sp :: "ptr \<Rightarrow> ptr list" where
  init: "registry_reachable sp (rpc_abt s) \<Longrightarrow> hg_rpc_data s = Map.empty \<Longrightarrow> rpc_reachable sp s"
| provider_register: "rpc_reachable sp s \<Longrightarrow> pool_known pool s \<Longrightarrow> counts_small s \<Longrightarrow>
    margo_provider_register_name v node_ok nh e mid name in_cb out_cb cb provider_id pool s = (s', r) \<Longrightarrow> rpc_reachable sp s'"
| forward_register: "rpc_reachable sp s \<Longrightarrow> counts_small s \<Longrightarrow>
    margo_register_internal e mid name rpc_id in_cb out_cb cb None s = (s', r) \<Longrightarrow> rpc_reachable sp s'"
| deregister: "rpc_reachable sp s \<Longrightarrow> (hg_rpc_data s rpc_id \<noteq> None \<Longrightarrow> hret = HG_SUCCESS) \<Longrightarrow>
    margo_deregister hret rpc_id s = (s', r) \<Longrightarrow> rpc_reachable sp s'"
| set_pool: "rpc_reachable sp s \<Longrightarrow> pool_known pool s \<Longrightarrow> counts_small s \<Longrightarrow>
    margo_rpc_set_pool rpc_id pool s = (s', hret) \<Longrightarrow> rpc_reachable sp s'"
| register_data: "rpc_reachable sp s \<Longrightarrow> margo_register_data rpc_id data free_callback s = (s', hret) \<Longrightarrow> rpc_reachable sp s'"
| disable: "rpc_reachable sp s \<Longrightarrow> margo_registered_disable_response hret rpc_id b s = (s', hret') \<Longrightarrow> rpc_reachable sp s'"
| registry: "rpc_reachable sp s \<Longrightarrow> registry_step sp (rpc_abt s) a \<Longrightarrow> rpc_reachable sp (s\<lparr>rpc_abt := a\<rparr>)"
| pool_ref_incr: "rpc_reachable sp s \<Longrightarrow> counts_small s \<Longrightarrow>
    margo_pool_ref_incr_by_handle (Some (rpc_abt s)) (Some h) = (Some a, hret) \<Longrightarrow> rpc_reachable sp (s\<lparr>rpc_abt := a\<rparr>)"
| pool_release: "rpc_reachable sp s \<Longrightarrow>
    (\<And>i. find_pool_by_handle (rpc_abt s) (Some h) = Some i \<Longrightarrow>
       users (hg_rpc_data s) h < unat (p_refcount (pools (rpc_abt s) ! i))) \<Longrightarrow>
    margo_pool_release_by_handle (Some (rpc_abt s)) (Some h) = (Some a, hret) \<Longrightarrow> rpc_reachable sp (s\<lparr>rpc_abt := a\<rparr>)"

definition rpc_ok :: "(ptr \<Rightarrow> ptr list) \<Rightarrow> rpc_registry \<Rightarrow> bool" where
  "rpc_ok sp s \<longleftrightarrow> registry_ok sp (rpc_abt s) \<and> pool_refs.covers (rpc_abt s) (users (hg_rpc_data s))"

lemma rpc_okI: "registry_ok sp (rpc_abt s) \<Longrightarrow> pool_refs.covers (rpc_abt s) (users (hg_rpc_data s)) \<Longrightarrow> rpc_ok sp s"
  by (simp add: rpc_ok_def)

lemma rpc_okD:
  assumes "rpc_ok sp s"
  shows "registry_ok sp (rpc_abt s)" "pool_refs.covers (rpc_abt s) (users (hg_rpc_data s))" "ptab.unique (rpc_abt s)"
  using assms registry_okD(1) by (auto simp: rpc_ok_def)

lemma rpc_ok_cong: "rpc_abt s' = rpc_abt s \<Longrightarrow> users (hg_rpc_data s') = users (hg_rpc_data s) \<Longrightarrow> rpc_ok sp s' = rpc_ok sp s"
  by (simp add: rpc_ok_def)

lemma change_ref_keeps: "registry_ok sp a \<Longrightarrow> registry_ok sp (change_ref f p a)"
  using set_pool_refcount_keeps find_bounds(1) by (auto simp: change_ref_def split: option.splits)

text \<open>A pool that a registration names, or the default one, is in the registry with a count.\<close>

lemma known_refs:
  assumes u: "ptab.unique (rpc_abt s)" and k: "pool_known pool s" and c: "counts_small s" and p: "eff_pool pool s = Some h"
  obtains r where "refs (rpc_abt s) h = Some r" "r \<noteq> - 1"
proof -
  have "\<exists>q \<in> set (pools (rpc_abt s)). p_pool q = Some h"
  proof (cases pool)
    case None
    then have "rpc_pool (rpc_abt s) = Some h" using p by (simp add: eff_pool_def)
    then show ?thesis by (auto simp: rpc_pool_def pool_at_def zero_pool_def split: if_splits)
  next
    case (Some x)
    then have "x = h" using p by (simp add: eff_pool_def)
    then show ?thesis using k Some by (auto simp: pool_known_def find_pool_by_handle_def find_index_None_iff)
  qed
  then obtain q where q: "q \<in> set (pools (rpc_abt s))" "p_pool q = Some h" by blast
  then have "refs (rpc_abt s) h = Some (p_refcount q)" unfolding refs_iff [OF u] ref_view_def by force
  then show thesis using that c q(1) by (auto simp: counts_small_def)
qed

lemma covers_register:
  assumes ok: "rpc_ok sp s" and k: "pool_known pool s" and c: "counts_small s" and n: "n \<le> 1"
  shows "pool_refs.covers (change_ref (\<lambda>n. n + 1) (eff_pool pool s) (rpc_abt s))
    (\<lambda>h. users (hg_rpc_data s) h + (if eff_pool pool s = Some h then n else 0))"
proof (cases "eff_pool pool s")
  case None
  then show ?thesis using rpc_okD(2) [OF ok] by (simp add: pool_refs.change_None)
next
  case (Some h)
  obtain r where r: "refs (rpc_abt s) h = Some r" "r \<noteq> - 1" using known_refs [OF rpc_okD(3) [OF ok] k c Some] .
  have "(\<lambda>k. users (hg_rpc_data s) k + (if eff_pool pool s = Some k then n else 0)) = (users (hg_rpc_data s))(h := users (hg_rpc_data s) h + n)"
    using Some by auto
  then show ?thesis using pool_refs.covers_incr [OF rpc_okD(2,3) [OF ok] r, of "users (hg_rpc_data s) h + n"] n Some by simp
qed

lemma covers_lock [simp]:
  "pool_refs.covers (abt_lock a) u = pool_refs.covers a u" "pool_refs.covers (abt_unlock a) u = pool_refs.covers a u"
  by (simp_all add: pool_refs.covers_def)

lemma register_keeps:
  assumes ok: "rpc_ok sp s" and k: "pool_known pool s" and c: "counts_small s"
    and e: "(r = 0 \<and> rpc_abt s' = rpc_abt s \<and> hg_rpc_data s' = hg_rpc_data s)
      \<or> (r = rpc_id \<and> rpc_abt s' = change_ref (\<lambda>n. n + 1) (eff_pool pool s) (rpc_abt s) \<and> rpc_id \<in> hg_registered s'
         \<and> hg_rpc_data s' = (case hg_rpc_data s rpc_id of
             Some d \<Rightarrow> hg_rpc_data s | None \<Rightarrow> (hg_rpc_data s)(rpc_id \<mapsto> new_data mid name in_cb out_cb (eff_pool pool s))))"
  shows "rpc_ok sp s'"
  using e
proof (elim disjE conjE)
  assume "rpc_abt s' = rpc_abt s" "hg_rpc_data s' = hg_rpc_data s"
  then show ?thesis using ok rpc_ok_cong [of s' s sp] by simp
next
  assume a: "rpc_abt s' = change_ref (\<lambda>n. n + 1) (eff_pool pool s) (rpc_abt s)"
    and d: "hg_rpc_data s' = (case hg_rpc_data s rpc_id of
      Some d \<Rightarrow> hg_rpc_data s | None \<Rightarrow> (hg_rpc_data s)(rpc_id \<mapsto> new_data mid name in_cb out_cb (eff_pool pool s)))"
  have "\<exists>n \<le> 1. users (hg_rpc_data s') = (\<lambda>h. users (hg_rpc_data s) h + (if eff_pool pool s = Some h then n else 0))"
  proof (cases "hg_rpc_data s rpc_id")
    case None
    then have "(hg_rpc_data s)(rpc_id := None) = hg_rpc_data s" by (simp add: fun_upd_idem)
    then show ?thesis using d None by (intro exI [of _ 1] conjI ext) (simp_all add: users_update new_data_def)
  next
    case (Some x)
    then show ?thesis using d by (intro exI [of _ 0] conjI ext) simp_all
  qed
  then show ?thesis
    using covers_register [OF ok k c] a change_ref_keeps [OF rpc_okD(1) [OF ok]] by (auto intro!: rpc_okI)
qed

lemma covers_drop:
  assumes "pool_refs.covers a (users m)" "ptab.unique a" "m rpc_id = Some d"
  shows "pool_refs.covers (change_ref (\<lambda>n. n - 1) (rd_pool d) a) (users (m(rpc_id := None)))"
proof (cases "rd_pool d")
  case None
  then show ?thesis using assms(1) users_fun [of m rpc_id d, OF assms(3)] by (simp add: pool_refs.change_None)
next
  case (Some h)
  then show ?thesis
    using pool_refs.covers_decr [OF assms(1,2)] users_pos [of m rpc_id d h, OF assms(3)] users_fun [of m rpc_id d, OF assms(3)] by simp
qed

lemma deregister_keeps:
  assumes ok: "rpc_ok sp s" and h: "hg_rpc_data s rpc_id \<noteq> None \<Longrightarrow> hret = HG_SUCCESS"
    and r: "margo_deregister hret rpc_id s = (s', r)"
  shows "rpc_ok sp s'"
proof (cases "hg_rpc_data s rpc_id")
  case None
  then have "rpc_abt s' = rpc_abt s" "hg_rpc_data s' = hg_rpc_data s"
    using r by (auto simp: margo_deregister_def fun_upd_idem split: if_splits)
  then show ?thesis using ok rpc_ok_cong [of s' s sp] by simp
next
  case (Some d)
  then have "margo_deregister HG_SUCCESS rpc_id s = (s', r)" using h r by simp
  note e = deregister_effect [OF this]
  show ?thesis
    using e Some covers_drop [of "abt_lock (rpc_abt s)" "hg_rpc_data s" rpc_id d] rpc_okD [OF ok] change_ref_keeps [of sp "abt_lock (rpc_abt s)"]
    by (auto intro!: rpc_okI)
qed

lemma set_pool_keeps:
  assumes ok: "rpc_ok sp s" and k: "pool_known pool s" and c: "counts_small s" and r: "margo_rpc_set_pool rpc_id pool s = (s', hret)"
  shows "rpc_ok sp s'"
proof (cases "hg_rpc_data s rpc_id")
  case None
  then show ?thesis using r ok by (simp add: margo_rpc_set_pool_def)
next
  case (Some d)
  let ?m = "hg_rpc_data s" and ?p = "eff_pool pool s"
  let ?a = "change_ref (\<lambda>n. n - 1) (rd_pool d) (abt_lock (rpc_abt s))"
  note e = set_pool_effect [OF r Some]
  have a: "pool_refs.covers ?a (users (?m(rpc_id := None)))" "ptab.unique ?a"
    using covers_drop [of "abt_lock (rpc_abt s)" "hg_rpc_data s" rpc_id d] rpc_okD [OF ok] change_ref_unique [of "abt_lock (rpc_abt s)"] Some by simp_all
  have "pool_refs.covers (change_ref (\<lambda>n. n + 1) ?p ?a) (users (hg_rpc_data s'))"
  proof (cases ?p)
    case None
    then have "users (hg_rpc_data s') = users (?m(rpc_id := None))" using e by (intro ext) (simp add: users_update)
    then show ?thesis using a(1) None by (simp add: pool_refs.change_None)
  next
    case (Some h)
    obtain q where q: "refs (rpc_abt s) h = Some q" "q \<noteq> - 1" using known_refs [OF rpc_okD(3) [OF ok] k c Some] .
    have "\<exists>q'. refs ?a h = Some q' \<and> q' \<noteq> - 1"
    proof (cases "rd_pool d = Some h")
      case True
      then have "q \<noteq> 0"
        using pool_refs.coversD [OF rpc_okD(2) [OF ok], of h] users_pos [of ?m rpc_id d h, OF \<open>?m rpc_id = Some d\<close>] q by auto
      then have "q - 1 \<noteq> - 1" by simp
      then show ?thesis using True q pool_refs.refs_change [of "abt_lock (rpc_abt s)"] rpc_okD(3) [OF ok] by simp
    next
      case False
      then show ?thesis using q pool_refs.refs_change [of "abt_lock (rpc_abt s)"] rpc_okD(3) [OF ok] 
        by (cases "rd_pool d") (auto simp: pool_refs.change_None split: option.splits)
    qed
    then obtain q' where q': "refs ?a h = Some q'" "q' \<noteq> - 1" by blast
    have "users (hg_rpc_data s') = (users (?m(rpc_id := None)))(h := users (?m(rpc_id := None)) h + 1)"
      using e Some by (intro ext) (simp add: users_update)
    then show ?thesis using pool_refs.covers_incr [OF a q' order_refl] Some by simp
  qed
  then show ?thesis
    using e rpc_okD(1) [OF ok] change_ref_keeps [of sp] by (auto intro!: rpc_okI)
qed

lemma ref_incr_effect:
  "margo_pool_ref_incr_by_handle (Some a) (Some h) = (Some a', ret) \<Longrightarrow>
     a' = abt_unlock (change_ref (\<lambda>n. n + 1) (Some h) (abt_lock a))"
  by (auto simp: ref_defs change_ref_def split: option.splits)

lemma release_effect:
  "margo_pool_release_by_handle (Some a) (Some h) = (Some a', ret) \<Longrightarrow>
     ref_view a' = ref_view a \<and> registry_ok sp a' = registry_ok sp a
     \<or> a' = abt_unlock (change_ref (\<lambda>n. n - 1) (Some h) (abt_lock a))"
  by (auto simp: ref_defs change_ref_def split: option.splits if_splits)

lemma ref_incr_keeps:
  assumes ok: "rpc_ok sp s" and c: "counts_small s"
    and r: "margo_pool_ref_incr_by_handle (Some (rpc_abt s)) (Some h) = (Some a, ret)"
  shows "rpc_ok sp (s\<lparr>rpc_abt := a\<rparr>)"
proof (cases "refs (rpc_abt s) h")
  case None
  then have "a = rpc_abt s" using ref_incr_effect [OF r] by (simp add: change_ref_def refs_def)
  then show ?thesis using ok by (simp add: rpc_ok_def)
next
  case (Some q)
  then have "(Some h, q) \<in> set (ref_view (rpc_abt s))" using refs_iff [OF rpc_okD(3) [OF ok]] by simp
  then have "q \<noteq> - 1" using c by (auto simp: counts_small_def ref_view_def)
  then show ?thesis
    using pool_refs.covers_incr [of "abt_lock (rpc_abt s)" "users (hg_rpc_data s)" h q "users (hg_rpc_data s) h"]
      ref_incr_effect [OF r] rpc_okD [OF ok] Some change_ref_keeps [of sp "abt_lock (rpc_abt s)"] by (simp add: rpc_ok_def)
qed

lemma release_keeps:
  assumes ok: "rpc_ok sp s"
    and g: "\<And>i. find_pool_by_handle (rpc_abt s) (Some h) = Some i \<Longrightarrow> users (hg_rpc_data s) h < unat (p_refcount (pools (rpc_abt s) ! i))"
    and r: "margo_pool_release_by_handle (Some (rpc_abt s)) (Some h) = (Some a, ret)"
  shows "rpc_ok sp (s\<lparr>rpc_abt := a\<rparr>)"
  using release_effect [OF r, of sp]
proof (elim disjE conjE)
  assume v: "ref_view a = ref_view (rpc_abt s)" "registry_ok sp a = registry_ok sp (rpc_abt s)"
  then have a: "registry_ok sp a" using rpc_okD(1) [OF ok] by simp
  then have "pool_refs.covers a (users (hg_rpc_data s))"
    using keeps_used_covers [OF rpc_okD(3) [OF ok] _ keeps_used_view] registry_okD(1) v(1) rpc_okD(2) [OF ok] by blast
  then show ?thesis using a by (simp add: rpc_ok_def)
next
  assume a: "a = abt_unlock (change_ref (\<lambda>n. n - 1) (Some h) (abt_lock (rpc_abt s)))"
  have "users (hg_rpc_data s) h < unat q" if "refs (rpc_abt s) h = Some q" for q using that g by (auto simp: refs_def)
  then show ?thesis
    using a pool_refs.covers_release [of "abt_lock (rpc_abt s)"] rpc_okD [OF ok] change_ref_keeps [of sp "abt_lock (rpc_abt s)"]
    by (simp add: rpc_ok_def)
qed

lemma registry_keeps:
  assumes ok: "rpc_ok sp s" and r: "registry_step sp (rpc_abt s) a"
  shows "rpc_ok sp (s\<lparr>rpc_abt := a\<rparr>)"
proof -
  have a: "registry_ok sp a" using registry_step_keeps [OF rpc_okD(1) [OF ok] r] .
  then show ?thesis
    using keeps_used_covers [OF rpc_okD(3) [OF ok] registry_okD(1) [OF a] registry_step_keeps_used [OF rpc_okD(1) [OF ok] r]] rpc_okD(2) [OF ok]
    by (simp add: rpc_ok_def)
qed

lemma rpc_reachable_ok: "rpc_reachable sp s \<Longrightarrow> rpc_ok sp s"
proof (induction rule: rpc_reachable.induct)
  case (init s)
  then show ?case using registry_reachable_ok by (auto intro!: rpc_okI simp: pool_refs.covers_def)
next
  case provider_register
  then show ?case using register_keeps [OF _ _ _ provider_register_effect] by fast
next
  case (forward_register s e mid name rpc_id in_cb out_cb cb s' r)
  have "pool_known None s" by (simp add: pool_known_def)
  then show ?case
    using register_keeps [OF forward_register.IH _ forward_register.hyps(2) register_effect [OF forward_register.hyps(3)]] by blast
next
  case (deregister s rpc_id hret s' r)
  then show ?case using deregister_keeps by blast
next
  case set_pool
  then show ?case using set_pool_keeps by blast
next
  case (register_data s rpc_id data free_callback s' hret)
  have "users (hg_rpc_data s') = users (hg_rpc_data s) \<and> rpc_abt s' = rpc_abt s"
  proof (cases "hg_rpc_data s rpc_id")
    case (Some d)
    then show ?thesis
      using register_data users_remove [of "hg_rpc_data s" rpc_id d] by (auto simp: margo_register_data_def Let_def fun_eq_iff users_update)
  qed (use register_data in \<open>simp add: margo_register_data_def\<close>)
  then show ?case using register_data.IH rpc_ok_cong [of s' s sp] by simp
next
  case (disable s hret rpc_id b s' hret')
  then have "rpc_abt s' = rpc_abt s" "hg_rpc_data s' = hg_rpc_data s"
    by (auto simp: margo_registered_disable_response_def split: if_splits)
  then show ?case using disable.IH rpc_ok_cong [of s' s sp] by simp
next
  case registry
  then show ?case by (intro registry_keeps)
next
  case pool_ref_incr
  then show ?case by (intro ref_incr_keeps)
next
  case (pool_release s h a hret)
  then show ?case using release_keeps by blast
qed

section \<open>Properties\<close>


text \<open>An instance with one pool and no RPCs, and calls that succeed.\<close>

definition example_rpcs :: rpc_registry where
  "example_rpcs = \<lparr>registered_rpcs = [], num_registered_rpcs = 0, hg_registered = {}, hg_rpc_data = Map.empty,
     hg_disabled = {}, hg_handlers = [], data_frees = [], rpc_abt = one_pool\<rparr>"

definition example_register :: register_env where
  "example_register = \<lparr>re_register = HG_SUCCESS, re_malloc = True, re_register_data = HG_SUCCESS\<rparr>"

lemmas example_rpc_defs = example_rpcs_def example_register_def one_pool_def empty_registry_def zero_pool_def


text \<open>
  Registering an RPC and removing it again. If \<open>margo_provider_register_name\<close> succeeds for a name
  and provider without data, the id it returns is the one that clients compute, the RPC is found
  under its name, with the name, the pool and no user data, and no other RPC is affected; removing
  it restores the data of all ids, the pools with their counts, and the mutex.
\<close>

theorem register_deregister_roundtrip:
  assumes new: "hg_rpc_data s (gen_id v name provider_id) = None"
    and r: "margo_provider_register_name v node_ok nh e mid name in_cb out_cb cb provider_id pool s = (s1, rpc_id)" "rpc_id \<noteq> 0"
    and dr: "margo_deregister HG_SUCCESS rpc_id s1 = (s2, hret)"
  shows "rpc_id = gen_id v name provider_id \<and> margo_provider_registered_name v name provider_id s1 = (rpc_id, True)
    \<and> margo_rpc_get_name rpc_id s1 = Some name
    \<and> margo_rpc_get_pool rpc_id s1 = (HG_SUCCESS, Some (if pool = None then rpc_pool (rpc_abt s) else pool))
    \<and> margo_registered_data rpc_id s1 = None
    \<and> (\<forall>i. i \<noteq> rpc_id \<longrightarrow> hg_rpc_data s1 i = hg_rpc_data s i)
    \<and> margo_provider_registered_name v name provider_id s2 = (rpc_id, False)
    \<and> hg_rpc_data s2 = hg_rpc_data s \<and> pools (rpc_abt s2) = pools (rpc_abt s)
    \<and> lock_depth (rpc_abt s2) = lock_depth (rpc_abt s)"
proof -
  let ?p = "eff_pool pool s" and ?a = "rpc_abt s"
  have e: "rpc_id = gen_id v name provider_id" "rpc_abt s1 = change_ref (\<lambda>n. n + 1) ?p ?a" "rpc_id \<in> hg_registered s1"
    "hg_rpc_data s1 = (hg_rpc_data s)(rpc_id \<mapsto> new_data mid (Some name) in_cb out_cb ?p)"
    using provider_register_effect [OF r(1)] r(2) new by auto
  note d = deregister_effect [OF dr]
  have data: "hg_rpc_data s1 rpc_id = Some (new_data mid (Some name) in_cb out_cb ?p)" using e(4) by simp
  have a2: "rpc_abt s2 = abt_unlock (change_ref (\<lambda>n. n - 1) ?p (abt_lock (rpc_abt s1)))"
    using d data by (simp add: new_data_def)
  have "pools (rpc_abt s2) = pools ?a \<and> lock_depth (rpc_abt s2) = lock_depth ?a"
  proof (cases "find_pool_by_handle ?a ?p")
    case None
    then show ?thesis using a2 e(2) by (simp add: change_ref_def)
  next
    case (Some i)
    have "lock_depth (set_pool_refcount i f b) = lock_depth b" "pools (set_pool_refcount i f (abt_lock b)) = pools (set_pool_refcount i f b)" for f b
      by (simp_all add: set_pool_refcount_def Let_def)
    then show ?thesis
      using Some a2 e(2) find_bounds(1) [OF Some] by (simp add: change_ref_def pools_set_refcount abt_lock_depth) (simp add: abt_unlock_def abt_lock_depth)
  qed
  moreover have "hg_rpc_data s2 = hg_rpc_data s" using d e(4) new e(1) by (auto simp: fun_upd_idem)
  ultimately show ?thesis
    using e d data
    by (simp add: margo_provider_registered_name_def margo_rpc_get_name_def margo_rpc_get_pool_def margo_registered_data_def new_data_def eff_pool_def)
qed

theorem register_deregister_roundtrip_witness:
  "\<exists>s1 s2 rpc_id hret. margo_provider_register_name True True 0 example_register None ''r'' None None None 1 (Some 1) example_rpcs = (s1, rpc_id)
     \<and> rpc_id \<noteq> 0 \<and> margo_deregister HG_SUCCESS rpc_id s1 = (s2, hret) \<and> margo_rpc_get_name rpc_id s1 = Some ''r''
     \<and> margo_provider_registered_name True ''r'' 1 s2 = (rpc_id, False)"
proof -
  have "bit (gen_id True ''r'' 1) 0" by (simp add: gen_id_def Let_def bit_simps)
  then have nz: "gen_id True ''r'' 1 \<noteq> 0" by (metis bit_0_eq bot_apply bot_bool_def)
  obtain s1 r where s1: "margo_provider_register_name True True 0 example_register None ''r'' None None None 1 (Some 1) example_rpcs = (s1, r)"
    by fastforce
  have r: "r \<noteq> 0"
    using s1 nz unfolding margo_provider_register_name_def margo_register_internal_def find_pool_call
    by (auto simp: example_rpc_defs find_pool_by_handle_def Let_def)
  obtain s2 hret where s2: "margo_deregister HG_SUCCESS r s1 = (s2, hret)" by fastforce
  have "hg_rpc_data example_rpcs (gen_id True ''r'' 1) = None" by (simp add: example_rpcs_def)
  from register_deregister_roundtrip [OF this s1 r s2] show ?thesis using s1 s2 r by blast
qed

text \<open>
  A migration that fails changes the index nevertheless: the instance names a pool for progress in which the loop does not run, and
  the pool in which it does run is no longer named.
\<close>

lemma failed_migration_keeps_index:
  assumes "pool_idx < length (pools a)" "pool_idx \<noteq> progress_pool_idx a" "migrate (p_pool (pools a ! pool_idx)) \<noteq> 0"
  shows "\<exists>a' ret. margo_migrate_progress_loop inv_arg migrate (Some a) pool_idx = (Some a', ret) \<and> ret \<noteq> 0
    \<and> margo_get_progress_pool (Some a') = (0, Some (p_pool (pools a ! pool_idx)))"
  using assms by (simp add: margo_migrate_progress_loop_def margo_get_progress_pool_def progress_pool_def pool_at_def Let_def)

end
