(* ===== verification/Serialization.thy ===== *)
theory Serialization
  imports Requests
begin

text \<open>
  The header that Margo puts in front of every RPC and every response (\<^verbatim>\<open>src/margo-serialization.h\<close>),
  and the functions of \<^verbatim>\<open>src/margo-core.c\<close> that read and write inputs, outputs and errors through it.
  Mercury's \<^verbatim>\<open>hg_proc_memcpy\<close>, \<^verbatim>\<open>HG_Get_input\<close>, \<^verbatim>\<open>HG_Get_output\<close> and \<^verbatim>\<open>HG_Respond\<close>, and the user's
  callbacks, are parameters.
\<close>

section \<open>Serialization\<close>

text \<open>A \<^verbatim>\<open>hg_proc_t\<close> with the bytes written so far, the bytes left to read, or neither.\<close>

datatype 'b hg_proc = HG_ENCODE "'b list" | HG_DECODE "'b list" | HG_FREE

text \<open>
  The fields of \<^verbatim>\<open>margo_forward_proc_args\<close> (the header is the id of the parent RPC) and of
  \<^verbatim>\<open>margo_respond_proc_args\<close> (the header is a return code) that are not only used for monitoring.
\<close>

type_synonym ('b, 'a) proc_cb = "'b hg_proc \<Rightarrow> 'a \<Rightarrow> 'b hg_proc \<times> 'a \<times> hg_return"

record ('b, 'a, 'h) proc_args =
  user_args :: 'a
  user_cb :: "('b, 'a) proc_cb option"
  pa_header :: 'h

definition margo_forward_proc ::
  "('b, u64) proc_cb \<Rightarrow> 'b hg_proc \<Rightarrow> ('b, 'a, u64) proc_args \<Rightarrow> 'b hg_proc \<times> ('b, 'a, u64) proc_args \<times> hg_return" where
  "margo_forward_proc memcpy p sargs =
    (case memcpy p (pa_header sargs) of (p, header, hret) \<Rightarrow>
      (let sargs = sargs\<lparr>pa_header := header\<rparr>
       in if hret \<noteq> HG_SUCCESS then (p, sargs, hret)
          else
            (case user_cb sargs of
               Some cb \<Rightarrow> (case cb p (user_args sargs) of (p, a, hret) \<Rightarrow> (p, sargs\<lparr>user_args := a\<rparr>, hret))
             | None \<Rightarrow> (p, sargs, hret))))"

definition margo_respond_proc ::
  "('b, hg_return) proc_cb \<Rightarrow> 'b hg_proc \<Rightarrow> ('b, 'a, hg_return) proc_args \<Rightarrow> 'b hg_proc \<times> ('b, 'a, hg_return) proc_args \<times> hg_return" where
  "margo_respond_proc memcpy p sargs =
    (case memcpy p (pa_header sargs) of (p, header, hret) \<Rightarrow>
      (let sargs = sargs\<lparr>pa_header := header\<rparr>
       in if hret \<noteq> HG_SUCCESS then (p, sargs, hret)
          else if pa_header sargs \<noteq> HG_SUCCESS then (p, sargs, hret)
          else
            (case user_cb sargs of
               Some cb \<Rightarrow> (case cb p (user_args sargs) of (p, a, hret) \<Rightarrow> (p, sargs\<lparr>user_args := a\<rparr>, hret))
             | None \<Rightarrow> (p, sargs, hret))))"

section \<open>Inputs and outputs\<close>

text \<open>
  The arguments that the functions build. \<open>get\<close> and \<open>free\<close> stand for Mercury's functions on the handle:
  they take the arguments and return them with a return code. The user's callbacks of the handle are
  those of its data; a handle without data is \<^const>\<open>None\<close>.
\<close>

definition forward_args :: "('b, 'a) proc_cb option \<Rightarrow> 'a \<Rightarrow> u64 \<Rightarrow> ('b, 'a, u64) proc_args" where
  "forward_args in_cb in_struct parent_rpc_id = \<lparr>user_args = in_struct, user_cb = in_cb, pa_header = parent_rpc_id\<rparr>"

definition respond_args :: "('b, 'a) proc_cb option \<Rightarrow> 'a \<Rightarrow> hg_return \<Rightarrow> ('b, 'a, hg_return) proc_args" where
  "respond_args out_cb out_struct hg_ret = \<lparr>user_args = out_struct, user_cb = out_cb, pa_header = hg_ret\<rparr>"

definition margo_get_input ::
  "(('b, 'a, u64) proc_args \<Rightarrow> ('b, 'a, u64) proc_args \<times> hg_return) \<Rightarrow> ('b, 'a) proc_cb option option \<Rightarrow> 'a \<Rightarrow> 'a \<times> hg_return" where
  "margo_get_input get handle_data in_struct =
    (case handle_data of
       None \<Rightarrow> (in_struct, HG_NO_MATCH)
     | Some in_cb \<Rightarrow> (case get (forward_args in_cb in_struct 0) of (args, hret) \<Rightarrow> (user_args args, hret)))"

definition margo_free_input ::
  "(('b, 'a, u64) proc_args \<Rightarrow> ('b, 'a, u64) proc_args \<times> hg_return) \<Rightarrow> ('b, 'a) proc_cb option option \<Rightarrow> 'a \<Rightarrow> 'a \<times> hg_return" where
  "margo_free_input free handle_data in_struct =
    (case handle_data of
       None \<Rightarrow> (in_struct, HG_NO_MATCH)
     | Some in_cb \<Rightarrow> (case free (forward_args in_cb in_struct 0) of (args, hret) \<Rightarrow> (user_args args, hret)))"

text \<open>If the header reports an error the output is freed again, without a look at the result.\<close>

definition margo_get_output ::
  "(('b, 'a, hg_return) proc_args \<Rightarrow> ('b, 'a, hg_return) proc_args \<times> hg_return) \<Rightarrow>
   (('b, 'a, hg_return) proc_args \<Rightarrow> ('b, 'a, hg_return) proc_args \<times> hg_return) \<Rightarrow>
   ('b, 'a) proc_cb option option \<Rightarrow> 'a \<Rightarrow> 'a \<times> hg_return" where
  "margo_get_output get free handle_data out_struct =
    (case handle_data of
       None \<Rightarrow> (out_struct, HG_NO_MATCH)
     | Some out_cb \<Rightarrow>
         (case get (respond_args out_cb out_struct HG_SUCCESS) of (args, hret) \<Rightarrow>
            if hret \<noteq> HG_SUCCESS then (user_args args, hret)
            else
              (let hret = pa_header args
               in if hret \<noteq> HG_SUCCESS then (user_args (fst (free args)), hret) else (user_args args, hret))))"

definition margo_free_output ::
  "(('b, 'a, hg_return) proc_args \<Rightarrow> ('b, 'a, hg_return) proc_args \<times> hg_return) \<Rightarrow> ('b, 'a) proc_cb option option \<Rightarrow> 'a \<Rightarrow> 'a \<times> hg_return" where
  "margo_free_output free handle_data out_struct =
    (case handle_data of
       None \<Rightarrow> (out_struct, HG_NO_MATCH)
     | Some out_cb \<Rightarrow> (case free (respond_args out_cb out_struct HG_SUCCESS) of (args, hret) \<Rightarrow> (user_args args, hret)))"

text \<open>
  The two readers of the header alone: what \<open>margo_wait_internal\<close> calls after a forward, and what
  the handler of an RPC calls first (\<^const>\<open>None\<close> if the id is not stored).
\<close>

definition read_response_header ::
  "(('b, 'a, hg_return) proc_args \<Rightarrow> ('b, 'a, hg_return) proc_args \<times> hg_return) \<Rightarrow> hg_return \<times> bool \<Rightarrow> 'a \<Rightarrow> hg_return" where
  "read_response_header get disabled null =
    (case get (respond_args None null HG_SUCCESS) of (args, hret) \<Rightarrow> check_error_in_output disabled hret (pa_header args))"

definition check_parent_id_in_input ::
  "(('b, 'a, u64) proc_args \<Rightarrow> ('b, 'a, u64) proc_args \<times> hg_return) \<Rightarrow> 'a \<Rightarrow> u64 option \<times> hg_return" where
  "check_parent_id_in_input get null =
    (case get (forward_args None null 0) of (args, hret) \<Rightarrow>
       if hret \<noteq> HG_SUCCESS \<and> hret \<noteq> HG_CHECKSUM_ERROR then (None, hret) else (Some (pa_header args), HG_SUCCESS))"

text \<open>
  The response that is sent when an RPC cannot be run: nothing if the query of the flag fails or
  responses are disabled. \<open>respond\<close> is \<^verbatim>\<open>HG_Respond\<close> without a completion callback.
\<close>

definition margo_respond_with_error ::
  "(('b, 'a, hg_return) proc_args \<Rightarrow> 'r) \<Rightarrow> hg_return \<times> bool \<Rightarrow> 'a \<Rightarrow> hg_return \<Rightarrow> 'r option" where
  "margo_respond_with_error respond disabled null hg_ret =
    (if fst disabled \<noteq> HG_SUCCESS then None
     else if snd disabled then None
     else Some (respond (respond_args None null hg_ret)))"

text \<open>The handler of an RPC that was registered without one.\<close>

definition handler_for_NULL ::
  "(('b, 'a, hg_return) proc_args \<Rightarrow> 'r) \<Rightarrow> hg_return \<times> bool \<Rightarrow> 'a \<Rightarrow> 'r option \<times> hg_return" where
  "handler_for_NULL respond disabled null = (margo_respond_with_error respond disabled null HG_NOENTRY, HG_SUCCESS)"

section \<open>User data of handles\<close>

definition margo_get_data :: "handle_data option \<Rightarrow> ptr" where
  "margo_get_data d = (case d of None \<Rightarrow> None | Some data \<Rightarrow> hd_user_data data)"

text \<open>The last result is the call of the previous free callback, if there was one.\<close>

definition margo_set_data :: "handle_data option \<Rightarrow> ptr \<Rightarrow> ptr \<Rightarrow> handle_data option \<times> hg_return \<times> (addr \<times> ptr) option" where
  "margo_set_data d data free_callback =
    (case d of
       None \<Rightarrow> (None, HG_NO_MATCH, None)
     | Some h \<Rightarrow>
         (Some (h\<lparr>hd_user_data := data, hd_user_free_callback := free_callback\<rparr>), HG_SUCCESS,
          map_option (\<lambda>f. (f, hd_user_data h)) (hd_user_free_callback h)))"

definition margo_handle_get_name :: "handle_data option \<Rightarrow> string option" where
  "margo_handle_get_name d = (case d of None \<Rightarrow> None | Some data \<Rightarrow> hd_rpc_name data)"

definition margo_hg_handle_get_instance :: "handle_data option \<Rightarrow> ptr" where
  "margo_hg_handle_get_instance d = (case d of None \<Rightarrow> None | Some data \<Rightarrow> hd_mid data)"

text \<open>\<open>handler_pool\<close> is the result of \<open>margo_get_handler_pool\<close> for the instance of the handle.\<close>

definition margo_hg_handle_get_handler_pool :: "ptr \<Rightarrow> handle_data option \<Rightarrow> ptr" where
  "margo_hg_handle_get_handler_pool handler_pool d =
    (case d of None \<Rightarrow> None | Some data \<Rightarrow> if hd_pool data = None then handler_pool else hd_pool data)"

section \<open>What a copy promises\<close>

text \<open>
  The contract of \<^verbatim>\<open>hg_proc_memcpy\<close> and of a user's callback, for one value \<open>x\<close> with the bytes \<open>rep\<close>:
  encoding appends the bytes, decoding reads them and stores the value, whatever was there before.
\<close>

definition codes :: "('b, 'a) proc_cb \<Rightarrow> 'b list \<Rightarrow> 'a \<Rightarrow> bool" where
  "codes cb rep x \<longleftrightarrow>
     (\<forall>bs. cb (HG_ENCODE bs) x = (HG_ENCODE (bs @ rep), x, HG_SUCCESS))
   \<and> (\<forall>bs y. cb (HG_DECODE (rep @ bs)) y = (HG_DECODE bs, x, HG_SUCCESS))"

lemma codesD:
  assumes "codes cb rep x"
  shows "cb (HG_ENCODE bs) x = (HG_ENCODE (bs @ rep), x, HG_SUCCESS)" "cb (HG_DECODE (rep @ bs)) y = (HG_DECODE bs, x, HG_SUCCESS)"
  using assms by (simp_all add: codes_def)

text \<open>Mercury runs the registered callback on the bytes of the message (\<open>proc\<close> is one of the two above).\<close>

definition reads :: "('b hg_proc \<Rightarrow> 's \<Rightarrow> 'b hg_proc \<times> 's \<times> hg_return) \<Rightarrow> 'b list \<Rightarrow> ('s \<Rightarrow> 's \<times> hg_return) \<Rightarrow> bool" where
  "reads proc msg get \<longleftrightarrow> (\<forall>s. get s = snd (proc (HG_DECODE msg) s))"

text \<open>Freeing runs it too, with \<^const>\<open>HG_FREE\<close>, for which a copy does nothing.\<close>

definition frees :: "('b hg_proc \<Rightarrow> 's \<Rightarrow> 'b hg_proc \<times> 's \<times> hg_return) \<Rightarrow> ('s \<Rightarrow> 's \<times> hg_return) \<Rightarrow> bool" where
  "frees proc free \<longleftrightarrow> (\<forall>s. free s = snd (proc HG_FREE s))"

lemma respond_encode:
  assumes m: "codes memcpy hdr hg_ret" and u: "hg_ret = HG_SUCCESS \<Longrightarrow> codes cb rep out_struct"
  shows "margo_respond_proc memcpy (HG_ENCODE bs) (respond_args (Some cb) out_struct hg_ret) =
    (HG_ENCODE (bs @ hdr @ (if hg_ret = HG_SUCCESS then rep else [])), respond_args (Some cb) out_struct hg_ret, HG_SUCCESS)"
  using codesD(1) [OF m] codesD(1) [OF u] by (simp add: margo_respond_proc_def respond_args_def)

lemma respond_encode_error:
  assumes m: "codes memcpy hdr hg_ret"
  shows "margo_respond_proc memcpy (HG_ENCODE bs) (respond_args None null hg_ret) = (HG_ENCODE (bs @ hdr), respond_args None null hg_ret, HG_SUCCESS)"
  using codesD(1) [OF m] by (simp add: margo_respond_proc_def respond_args_def Let_def)

lemma respond_decode:
  assumes m: "codes memcpy hdr hg_ret"
  shows "margo_respond_proc memcpy (HG_DECODE (hdr @ bs)) (respond_args c out y) =
    (if hg_ret \<noteq> HG_SUCCESS then (HG_DECODE bs, respond_args c out hg_ret, HG_SUCCESS)
     else (case c of None \<Rightarrow> (HG_DECODE bs, respond_args c out hg_ret, HG_SUCCESS)
           | Some cb \<Rightarrow> (case cb (HG_DECODE bs) out of (p, a, hret) \<Rightarrow> (p, respond_args c a hg_ret, hret))))"
  using codesD(2) [OF m] by (simp add: margo_respond_proc_def respond_args_def split: option.splits prod.splits)

lemma forward_encode:
  assumes m: "codes memcpy hdr parent" and u: "codes cb rep in_struct"
  shows "margo_forward_proc memcpy (HG_ENCODE bs) (forward_args (Some cb) in_struct parent) =
    (HG_ENCODE (bs @ hdr @ rep), forward_args (Some cb) in_struct parent, HG_SUCCESS)"
  using codesD(1) [OF m] codesD(1) [OF u] by (simp add: margo_forward_proc_def forward_args_def)

lemma forward_decode:
  assumes m: "codes memcpy hdr parent"
  shows "margo_forward_proc memcpy (HG_DECODE (hdr @ bs)) (forward_args c x y) =
    (case c of None \<Rightarrow> (HG_DECODE bs, forward_args c x parent, HG_SUCCESS)
     | Some cb \<Rightarrow> (case cb (HG_DECODE bs) x of (p, a, hret) \<Rightarrow> (p, forward_args c a parent, hret)))"
  using codesD(2) [OF m] by (simp add: margo_forward_proc_def forward_args_def split: option.splits prod.splits)

section \<open>Properties\<close>

text \<open>
  C34: a response arrives as it was sent, with its data or with its error. Let \<open>hg_proc_memcpy\<close> code
  return codes and the user's callback code the output. If the server responds with its output, the
  wait after the forward reports success and \<open>margo_get_output\<close> succeeds and returns that output. If
  the server could not run the RPC and responds with an error, both report exactly that error, and
  the user's callback does not run, not even to free the output, so the user's structure is untouched.
\<close>

theorem response_roundtrip:
  assumes m: "codes memcpy hdr hg_ret" and u: "hg_ret = HG_SUCCESS \<Longrightarrow> codes cb rep out_struct"
    and sent: "margo_respond_proc memcpy (HG_ENCODE [])
      (if hg_ret = HG_SUCCESS then respond_args (Some cb) out_struct HG_SUCCESS else respond_args None null hg_ret) = (HG_ENCODE msg, sargs, hret)"
    and get: "reads (margo_respond_proc memcpy) msg get" and free: "frees (margo_respond_proc memcpy) free"
      "\<And>h. memcpy HG_FREE h = (HG_FREE, h, HG_SUCCESS)"
  shows "hret = HG_SUCCESS \<and> read_response_header get (HG_SUCCESS, False) null = hg_ret
    \<and> margo_get_output get free (Some (Some cb)) out0 = (if hg_ret = HG_SUCCESS then out_struct else out0, hg_ret)"
proof -
  have msg: "msg = hdr @ (if hg_ret = HG_SUCCESS then rep else [])" "hret = HG_SUCCESS"
    using sent respond_encode [OF m u, of "[]"] respond_encode_error [OF m, of "[]" null] by (auto split: if_splits)
  have "get (respond_args None null HG_SUCCESS) = (respond_args None null hg_ret, HG_SUCCESS)"
    using get msg(1) by (simp add: reads_def respond_decode [OF m] respond_decode [OF m, of "[]", simplified])
  moreover have "get (respond_args (Some cb) out0 HG_SUCCESS) = (respond_args (Some cb) (if hg_ret = HG_SUCCESS then out_struct else out0) hg_ret, HG_SUCCESS)"
    using get msg(1) codesD(2) [OF u, of "[]"] by (simp add: reads_def respond_decode [OF m] respond_decode [OF m, of "[]", simplified])
  moreover have "free (respond_args c x hg_ret) = (respond_args c x hg_ret, HG_SUCCESS)" if "hg_ret \<noteq> HG_SUCCESS" for c x
    using free that by (simp add: frees_def margo_respond_proc_def respond_args_def)
  ultimately show ?thesis
    using msg(2)
    by (simp add: read_response_header_def check_error_in_output_def margo_get_output_def) (simp add: respond_args_def)
qed

text \<open>A copy that codes a value as one byte: zero for one of two values, one for the other.\<close>

fun example_copy :: "'a \<Rightarrow> 'a \<Rightarrow> (u8, 'a) proc_cb" where
  "example_copy z n (HG_ENCODE bs) x = (HG_ENCODE (bs @ [if x = z then 0 else 1]), x, HG_SUCCESS)"
| "example_copy z n (HG_DECODE (b # bs)) x = (HG_DECODE bs, if b = 0 then z else n, HG_SUCCESS)"
| "example_copy z n (HG_DECODE []) x = (HG_DECODE [], x, HG_OTHER_ERROR)"
| "example_copy z n HG_FREE x = (HG_FREE, x, HG_SUCCESS)"

lemma example_copy_codes: "x = z \<or> x = n \<Longrightarrow> codes (example_copy z n) [if x = z then 0 else 1] x"
  by (auto simp: codes_def)

theorem response_roundtrip_witness:
  "\<exists>get free. margo_get_output get free (Some (Some (example_copy True False))) True = (True, HG_NOENTRY)
     \<and> read_response_header get (HG_SUCCESS, False) True = HG_NOENTRY"
proof -
  let ?m = "example_copy HG_SUCCESS HG_NOENTRY"
  let ?p = "margo_respond_proc ?m :: _ \<Rightarrow> (u8, bool, hg_return) proc_args \<Rightarrow> _"
  have m: "codes ?m [1] HG_NOENTRY" using example_copy_codes [of HG_NOENTRY HG_SUCCESS HG_NOENTRY] by simp
  have s: "?p (HG_ENCODE []) (if HG_NOENTRY = HG_SUCCESS then respond_args (Some (example_copy True False)) False HG_SUCCESS
      else respond_args None True HG_NOENTRY) = (HG_ENCODE [1], respond_args None True HG_NOENTRY, HG_SUCCESS)"
    using respond_encode_error [OF m, of "[]" True] by simp
  have "reads ?p [1] (\<lambda>s. snd (?p (HG_DECODE [1]) s))" "frees ?p (\<lambda>s. snd (?p HG_FREE s))"
    by (simp_all add: reads_def frees_def)
  from response_roundtrip [OF m _ s this, where rep = "[]" and ?out0.0 = True] show ?thesis by auto
qed

text \<open>
  An RPC arrives as it was sent. If \<open>hg_proc_memcpy\<close> codes the id of the parent RPC and the user's
  callback codes the input, then what \<open>margo_provider_iforward_internal\<close> sends is read by the handler:
  the id of the parent by \<open>check_parent_id_in_input\<close> and the input by \<open>margo_get_input\<close>.
\<close>

theorem forward_roundtrip:
  assumes m: "codes memcpy hdr parent" and u: "codes cb rep in_struct"
    and sent: "margo_forward_proc memcpy (HG_ENCODE []) (forward_args (Some cb) in_struct parent) = (HG_ENCODE msg, sargs, hret)"
    and get: "reads (margo_forward_proc memcpy) msg get"
  shows "hret = HG_SUCCESS \<and> check_parent_id_in_input get null = (Some parent, HG_SUCCESS)
    \<and> margo_get_input get (Some (Some cb)) in0 = (in_struct, HG_SUCCESS)"
proof -
  have msg: "msg = hdr @ rep" "hret = HG_SUCCESS" using sent forward_encode [OF m u, of "[]"] by auto
  have "get (forward_args None null 0) = (forward_args None null parent, HG_SUCCESS)"
    using get msg(1) by (simp add: reads_def forward_decode [OF m])
  moreover have "get (forward_args (Some cb) in0 0) = (forward_args (Some cb) in_struct parent, HG_SUCCESS)"
    using get msg(1) codesD(2) [OF u, of "[]"] by (simp add: reads_def forward_decode [OF m])
  ultimately show ?thesis using msg(2) by (simp add: check_parent_id_in_input_def margo_get_input_def) (simp add: forward_args_def)
qed

theorem forward_roundtrip_witness:
  "\<exists>get. check_parent_id_in_input get True = (Some 7, HG_SUCCESS)
     \<and> margo_get_input get (Some (Some (example_copy True False))) True = (False, HG_SUCCESS)"
proof -
  let ?m = "example_copy 0 7 :: (u8, u64) proc_cb"
  let ?p = "margo_forward_proc ?m :: _ \<Rightarrow> (u8, bool, u64) proc_args \<Rightarrow> _"
  have m: "codes ?m [1] 7" using example_copy_codes [of 7 0 "7 :: u64"] by simp
  have u: "codes (example_copy True False) [1] False" using example_copy_codes [of False True False] by simp
  have s: "?p (HG_ENCODE []) (forward_args (Some (example_copy True False)) False 7) =
      (HG_ENCODE [1, 1], forward_args (Some (example_copy True False)) False 7, HG_SUCCESS)"
    using forward_encode [OF m u, of "[]"] by simp
  have "reads ?p [1, 1] (\<lambda>s. snd (?p (HG_DECODE [1, 1]) s))" by (simp add: reads_def)
  from forward_roundtrip [OF m u s this, of True True] show ?thesis by blast
qed

end
