(* ===== verification/Json_Config.thy ===== *)
theory Json_Config
  imports Margo_Prelude
begin

text \<open>
  JSON configurations: the values that json-c produces, its accessors as its documentation describes
  them, and the helpers and checks of \<^verbatim>\<open>src/margo-macros.h\<close> that the configuration code is built from.
\<close>

section \<open>Values\<close>

text \<open>
  A \<^verbatim>\<open>json_object*\<close> is an optional value: json-c represents the value \<^verbatim>\<open>null\<close> by the NULL pointer, also
  inside arrays and objects. Strings are C strings, integers are those of \<^verbatim>\<open>int64_t\<close>.
\<close>

datatype json =
    JBool bool
  | JInt int
  | JDouble real
  | JString string
  | JArray "json option list"
  | JObject "(string \<times> json option) list"

definition object_get :: "json option \<Rightarrow> string \<Rightarrow> json option" where
  "object_get j key =
    (case j of Some (JObject kvs) \<Rightarrow> (case map_of kvs key of Some v \<Rightarrow> v | None \<Rightarrow> None) | _ \<Rightarrow> None)"

definition elements :: "json option \<Rightarrow> json option list" where
  "elements j = (case j of Some (JArray xs) \<Rightarrow> xs | _ \<Rightarrow> [])"

definition get_string :: "json option \<Rightarrow> string option" where
  "get_string j = (case j of Some (JString s) \<Rightarrow> Some s | _ \<Rightarrow> None)"

text \<open>\<^verbatim>\<open>json_object_get_int\<close> limits the value to the range of \<^verbatim>\<open>int\<close>.\<close>

definition get_int :: "int \<Rightarrow> int" where
  "get_int i = max (- (2 ^ 31)) (min (2 ^ 31 - 1) i)"

text \<open>The conversion of a 64-bit value to \<^verbatim>\<open>int\<close>.\<close>

definition to_int :: "int \<Rightarrow> int" where
  "to_int i = (i + 2 ^ 31) mod 2 ^ 32 - 2 ^ 31"

datatype json_type = json_type_boolean | json_type_int | json_type_double | json_type_string | json_type_array | json_type_object

fun type_of :: "json \<Rightarrow> json_type" where
  "type_of (JBool _) = json_type_boolean"
| "type_of (JInt _) = json_type_int"
| "type_of (JDouble _) = json_type_double"
| "type_of (JString _) = json_type_string"
| "type_of (JArray _) = json_type_array"
| "type_of (JObject _) = json_type_object"

definition is_type :: "json option \<Rightarrow> json_type \<Rightarrow> bool" where
  "is_type j t \<longleftrightarrow> (\<exists>v. j = Some v \<and> type_of v = t)"

lemma is_type_code [code, simp]: "is_type None t = False" "is_type (Some v) t = (type_of v = t)"
  by (simp_all add: is_type_def)

section \<open>Helpers\<close>

definition object_get_int_or :: "json option \<Rightarrow> string \<Rightarrow> int \<Rightarrow> int" where
  "object_get_int_or object key x = (case object_get object key of Some (JInt i) \<Rightarrow> get_int i | _ \<Rightarrow> x)"

definition object_get_int64_or :: "json option \<Rightarrow> string \<Rightarrow> int \<Rightarrow> int" where
  "object_get_int64_or object key x = (case object_get object key of Some (JInt i) \<Rightarrow> i | _ \<Rightarrow> x)"

text \<open>\<^verbatim>\<open>json_object_get_uint64\<close> returns zero for a negative integer.\<close>

definition object_get_uint64_or :: "json option \<Rightarrow> string \<Rightarrow> int \<Rightarrow> int" where
  "object_get_uint64_or object key x = (case object_get object key of Some (JInt i) \<Rightarrow> max 0 i | _ \<Rightarrow> x)"

definition object_get_bool_or :: "json option \<Rightarrow> string \<Rightarrow> bool \<Rightarrow> bool" where
  "object_get_bool_or object key x = (case object_get object key of Some (JBool b) \<Rightarrow> b | _ \<Rightarrow> x)"

definition object_get_string_or :: "json option \<Rightarrow> string \<Rightarrow> string \<Rightarrow> string" where
  "object_get_string_or object key fallback = (case object_get object key of Some (JString s) \<Rightarrow> s | _ \<Rightarrow> fallback)"

text \<open>The checks return \<^const>\<open>False\<close> where the macros execute \<^verbatim>\<open>HANDLE_CONFIG_ERROR\<close>.\<close>

definition has_optional :: "json option \<Rightarrow> string \<Rightarrow> json_type \<Rightarrow> bool" where
  "has_optional config key t \<longleftrightarrow> object_get config key = None \<or> is_type (object_get config key) t"

definition has_required :: "json option \<Rightarrow> string \<Rightarrow> json_type \<Rightarrow> bool" where
  "has_required config key t \<longleftrightarrow> object_get config key \<noteq> None \<and> is_type (object_get config key) t"

definition is_in_enum_string :: "json option \<Rightarrow> string list \<Rightarrow> bool" where
  "is_in_enum_string config vals = (case get_string config of Some s \<Rightarrow> s \<in> set vals | None \<Rightarrow> False)"

text \<open>\<^verbatim>\<open>isdigit\<close> and \<^verbatim>\<open>isalnum\<close> in the C locale.\<close>

definition isdigit :: "char \<Rightarrow> bool" where
  "isdigit c \<longleftrightarrow> 48 \<le> (of_char c :: nat) \<and> (of_char c :: nat) \<le> 57"

definition isalnum :: "char \<Rightarrow> bool" where
  "isalnum c \<longleftrightarrow> isdigit c \<or> (65 \<le> (of_char c :: nat) \<and> (of_char c :: nat) \<le> 90)
     \<or> (97 \<le> (of_char c :: nat) \<and> (of_char c :: nat) \<le> 122)"

definition valid_name :: "string \<Rightarrow> bool" where
  "valid_name name \<longleftrightarrow> name \<noteq> [] \<and> \<not> isdigit (hd name) \<and> (\<forall>c \<in> set name. isalnum c \<or> c = CHR ''_'')"

definition name_is_valid :: "json option \<Rightarrow> bool" where
  "name_is_valid obj = (case get_string (object_get obj ''name'') of Some name \<Rightarrow> valid_name name | None \<Rightarrow> False)"

text \<open>The two nested loops: every element is compared with those before it.\<close>

definition names_unique :: "json option list \<Rightarrow> bool" where
  "names_unique xs \<longleftrightarrow>
    (\<forall>i < length xs. \<forall>j < i.
       \<not> (object_get (xs ! i) ''name'' \<noteq> None \<and> object_get (xs ! i) ''name'' = object_get (xs ! j) ''name''))"

text \<open>\<^verbatim>\<open>json_array_foreach\<close> ends at an element that is null.\<close>

fun find_by_name :: "json option list \<Rightarrow> string \<Rightarrow> nat option" where
  "find_by_name [] name = None"
| "find_by_name (None # xs) name = None"
| "find_by_name (Some x # xs) name =
    (if get_string (object_get (Some x) ''name'') = Some name then Some 0 else map_option Suc (find_by_name xs name))"

lemma names_unique_sorted_wrt:
  "names_unique xs \<longleftrightarrow> sorted_wrt (\<lambda>y x. \<not> (object_get x ''name'' \<noteq> None \<and> object_get x ''name'' = object_get y ''name'')) xs"
  unfolding names_unique_def sorted_wrt_iff_nth_less by (meson less_trans)

lemma names_unique_distinct:
  "names_unique xs \<longleftrightarrow> distinct (filter (\<lambda>n. n \<noteq> None) (map (\<lambda>x. object_get x ''name'') xs))"
  unfolding names_unique_sorted_wrt by (induction xs) (auto simp: image_iff)

lemma object_get_Cons: "object_get (Some (JObject ((k, v) # kvs))) key = (if k = key then v else object_get (Some (JObject kvs)) key)"
  by (simp add: object_get_def)

lemma object_get_Nil: "object_get (Some (JObject [])) key = None"
  by (simp add: object_get_def)

lemma object_get_append:
  "key \<notin> fst ` set kvs \<Longrightarrow> object_get (Some (JObject (kvs @ kvs'))) key = object_get (Some (JObject kvs')) key"
  by (induction kvs) (auto simp: object_get_def map_add_def)

lemmas object_simps [simp] = object_get_Cons object_get_Nil

end
