(* ===== verification/Monitor_Stats.thy ===== *)
theory Monitor_Stats
  imports Json_Config Abt_Registry
begin

text \<open>
  The data that the default monitoring keeps (\<^verbatim>\<open>src/margo-default-monitoring.c\<close>): running statistics, time
  series in frames of fixed size, the time series of RPCs and of pools, and the identifiers of addresses.
  Values of type \<^verbatim>\<open>double\<close> are real numbers.
\<close>

section \<open>Statistics\<close>

record statistics =
  st_num :: u64
  st_min :: real
  st_max :: real
  st_sum :: real
  st_avg :: real
  st_var :: real

definition zero_statistics :: statistics where
  "zero_statistics = \<lparr>st_num = 0, st_min = 0, st_max = 0, st_sum = 0, st_avg = 0, st_var = 0\<rparr>"

definition update_statistics :: "real \<Rightarrow> statistics \<Rightarrow> statistics" where
  "update_statistics v s =
    (let n = st_num s + 1;
         mn = (if st_min s > v \<or> n = 1 then v else st_min s);
         mx = (if st_max s < v then v else st_max s);
         sm = st_sum s + v;
         old_avg = st_avg s;
         avg = sm / real (unat n)
     in \<lparr>st_num = n, st_min = mn, st_max = mx, st_sum = sm, st_avg = avg, st_var = st_var s + (v - old_avg) * (v - avg)\<rparr>)"

text \<open>The second component is the structure afterwards.\<close>

definition statistics_to_json :: "bool \<Rightarrow> statistics \<Rightarrow> json option \<times> statistics" where
  "statistics_to_json reset s =
    (Some (JObject [(''num'', Some (JInt (to_int (int (unat (st_num s)))))), (''min'', Some (JDouble (st_min s))),
       (''max'', Some (JDouble (st_max s))), (''avg'', Some (JDouble (st_avg s))), (''var'', Some (JDouble (st_var s))),
       (''sum'', Some (JDouble (st_sum s)))]),
     if reset then zero_statistics else s)"

definition record_all :: "real list \<Rightarrow> statistics" where
  "record_all vs = fold update_statistics vs zero_statistics"

lemma record_all_snoc: "record_all (vs @ [v]) = update_statistics v (record_all vs)"
  by (simp add: record_all_def)

definition mean :: "real list \<Rightarrow> real" where
  "mean vs = sum_list vs / real (length vs)"

text \<open>The sum of the squared distances from the mean.\<close>

lemma sum_sq_dist:
  "(\<Sum>v \<leftarrow> vs. (v - m)\<^sup>2) = (\<Sum>v \<leftarrow> vs. v\<^sup>2) - 2 * m * sum_list vs + real (length vs) * m\<^sup>2"
  by (induction vs) (auto simp: power2_eq_square algebra_simps)

lemma sum_sq_mean:
  assumes "vs \<noteq> []"
  shows "(\<Sum>v \<leftarrow> vs. (v - mean vs)\<^sup>2) = (\<Sum>v \<leftarrow> vs. v\<^sup>2) - (sum_list vs)\<^sup>2 / real (length vs)"
  using assms unfolding sum_sq_dist by (simp add: mean_def power2_eq_square field_simps)

lemma real_unat_count:
  assumes "n + 1 < 2 ^ 64"
  shows "real (unat (of_nat n + 1 :: u64)) = real n + 1"
proof -
  have "take_bit 64 (n + 1) = n + 1" using assms by (rule take_bit_nat_eq_self)
  then have "unat (of_nat (n + 1) :: u64) = n + 1" by (simp only: unsigned_of_nat) simp
  then have "unat (of_nat n + 1 :: u64) = n + 1" by (simp add: add.commute)
  then show ?thesis by simp
qed

lemma record_all_counts:
  assumes "length vs < 2 ^ 64"
  shows "st_num (record_all vs) = of_nat (length vs)" "st_sum (record_all vs) = sum_list vs"
    "vs \<noteq> [] \<longrightarrow> st_avg (record_all vs) = mean vs"
proof -
  have "st_num (record_all vs) = of_nat (length vs) \<and> st_sum (record_all vs) = sum_list vs \<and> (vs \<noteq> [] \<longrightarrow> st_avg (record_all vs) = mean vs)"
    using assms
  proof (induction vs rule: rev_induct)
    case Nil
    then show ?case by (simp add: record_all_def zero_statistics_def)
  next
    case (snoc v vs)
    have "real (unat (of_nat (length vs) + 1 :: u64)) = real (length vs) + 1" using real_unat_count [of "length vs"] snoc.prems by simp
    then show ?case using snoc by (simp add: record_all_snoc update_statistics_def mean_def Let_def add.commute)
  qed
  then show "st_num (record_all vs) = of_nat (length vs)" "st_sum (record_all vs) = sum_list vs"
    "vs \<noteq> [] \<longrightarrow> st_avg (record_all vs) = mean vs" by auto
qed

lemma record_all_var:
  assumes "length vs < 2 ^ 64" "vs \<noteq> []"
  shows "st_var (record_all vs) = (\<Sum>v \<leftarrow> vs. v\<^sup>2) - (sum_list vs)\<^sup>2 / real (length vs)"
  using assms
proof (induction vs rule: rev_induct)
  case (snoc v vs)
  have u: "real (unat (of_nat (length vs) + 1 :: u64)) = real (length vs) + 1" using real_unat_count [of "length vs"] snoc.prems by simp
  have l: "length vs < 2 ^ 64" using snoc.prems by simp
  note c = record_all_counts [OF l]
  show ?case
  proof (cases "vs = []")
    case True
    then show ?thesis by (simp add: record_all_def update_statistics_def zero_statistics_def Let_def)
  next
    case False
    let ?n = "real (length vs)" and ?s = "sum_list vs"
    have n: "?n > 0" using False by simp
    have "st_var (record_all (vs @ [v])) = st_var (record_all vs) + (v - mean vs) * (v - (?s + v) / (?n + 1))"
      using c False u by (simp add: record_all_snoc update_statistics_def Let_def add.commute)
    also have "\<dots> = (\<Sum>v \<leftarrow> vs. v\<^sup>2) - ?s\<^sup>2 / ?n + (v - ?s / ?n) * (v - (?s + v) / (?n + 1))"
      using snoc.IH [OF l False] by (simp add: mean_def)
    also have "\<dots> = (\<Sum>v \<leftarrow> vs. v\<^sup>2) + v\<^sup>2 - (?s + v)\<^sup>2 / (?n + 1)"
      using n by (simp add: divide_simps power2_eq_square) (simp add: algebra_simps)
    finally show ?thesis by (simp add: add.commute)
  qed
qed simp

lemma record_all_bounds:
  assumes "length vs < 2 ^ 64" "vs \<noteq> []"
  shows "st_min (record_all vs) = Min (set vs)" and "st_max (record_all vs) = max 0 (Max (set vs))"
proof -
  have "st_min (record_all vs) = Min (set vs) \<and> st_max (record_all vs) = max 0 (Max (set vs))"
    using assms
  proof (induction vs rule: rev_induct)
    case (snoc v vs)
    show ?case
    proof (cases "vs = []")
      case True
      then show ?thesis by (simp add: record_all_def update_statistics_def zero_statistics_def Let_def max_def)
    next
      case False
      have l: "length vs < 2 ^ 64" using snoc.prems by simp
      have "real (unat (of_nat (length vs) + 1 :: u64)) = real (length vs) + 1" using real_unat_count [of "length vs"] snoc.prems by simp
      then have one: "(of_nat (length vs) + 1 :: u64) \<noteq> 1" using False by auto
      define mn mx where "mn = Min (set vs)" and "mx = Max (set vs)"
      have "Min (set (vs @ [v])) = min v mn" "Max (set (vs @ [v])) = max v mx" using False by (simp_all add: mn_def mx_def)
      moreover have "st_min (record_all vs) = mn" "st_max (record_all vs) = max 0 mx" using snoc.IH [OF l False] by (simp_all add: mn_def mx_def)
      ultimately show ?thesis using one record_all_counts(1) [OF l]
        by (simp only: record_all_snoc update_statistics_def Let_def statistics.simps) (auto simp: max_def min_def)
    qed
  qed simp
  then show "st_min (record_all vs) = Min (set vs)" and "st_max (record_all vs) = max 0 (Max (set vs))" by auto
qed



text \<open>The field \<^verbatim>\<open>max\<close> starts at zero and is not set by the first sample: if all samples are negative it stays zero.\<close>

lemma negative_samples_maximum: "v < 0 \<Longrightarrow> st_max (record_all [v]) = 0"
  by (simp add: record_all_def update_statistics_def zero_statistics_def Let_def)

section \<open>Time series\<close>

text \<open>The frames are on a heap: the link to the next frame, and the values, whose number is the field \<^verbatim>\<open>size\<close>.\<close>

record frames =
  fr_next :: "addr \<Rightarrow> ptr"
  fr_data :: "addr \<Rightarrow> (real \<times> u64) list"

record time_series =
  frame_capacity :: nat
  first_frame :: ptr
  last_frame :: ptr

text \<open>\<open>m\<close> is the address of a new frame, if one is needed.\<close>

definition time_series_append :: "addr \<Rightarrow> real \<Rightarrow> u64 \<Rightarrow> frames \<times> time_series \<Rightarrow> frames \<times> time_series" where
  "time_series_append m ts val = (\<lambda>(h, series).
     (let (frame, h, series) =
            (case last_frame series of
               Some f \<Rightarrow>
                 if length (fr_data h f) = frame_capacity series
                 then (m, h\<lparr>fr_next := (fr_next h)(m := None), fr_data := (fr_data h)(m := [])\<rparr>, series\<lparr>last_frame := Some m\<rparr>)
                 else (f, h, series)
             | None \<Rightarrow> (m, h\<lparr>fr_next := (fr_next h)(m := None), fr_data := (fr_data h)(m := [])\<rparr>, series\<lparr>last_frame := Some m\<rparr>));
          series = (if first_frame series = None then series\<lparr>first_frame := Some frame\<rparr> else series)
      in (h\<lparr>fr_data := (fr_data h)(frame := fr_data h frame @ [(ts, val)])\<rparr>, series)))"

text \<open>The loops that write a series: all values, from the first frame along the links.\<close>

partial_function (option) frame_values :: "frames \<Rightarrow> ptr \<Rightarrow> (real \<times> u64) list option" where
  "frame_values h frame =
    (case frame of
       None \<Rightarrow> Some []
     | Some f \<Rightarrow> do { vs \<leftarrow> frame_values h (fr_next h f); Some (fr_data h f @ vs) })"

text \<open>The frames that are freed, in order.\<close>

partial_function (option) frames_to_clear :: "frames \<Rightarrow> ptr \<Rightarrow> addr list option" where
  "frames_to_clear h frame =
    (case frame of None \<Rightarrow> Some [] | Some f \<Rightarrow> do { fs \<leftarrow> frames_to_clear h (fr_next h f); Some (f # fs) })"

definition time_series_clear :: "frames \<times> time_series \<Rightarrow> (time_series \<times> addr list) option" where
  "time_series_clear hs = do {
     fs \<leftarrow> frames_to_clear (fst hs) (first_frame (snd hs));
     Some ((snd hs)\<lparr>first_frame := None, last_frame := None\<rparr>, fs)
   }"

text \<open>
  What a series holds: its frames are among \<open>A\<close>, the first one has no successor and holds the first
  \<open>frame_capacity\<close> of the values that were appended.
\<close>

definition series_holds :: "frames \<Rightarrow> time_series \<Rightarrow> addr set \<Rightarrow> (real \<times> u64) list \<Rightarrow> bool" where
  "series_holds h s A vs \<longleftrightarrow> frame_capacity s > 0 \<and>
    (if vs = [] then first_frame s = None \<and> last_frame s = None
     else \<exists>f l. first_frame s = Some f \<and> last_frame s = Some l \<and> f \<in> A \<and> l \<in> A \<and> fr_next h f = None
       \<and> fr_data h f = take (frame_capacity s) vs \<and> length (fr_data h l) \<le> frame_capacity s
       \<and> (l \<noteq> f \<longrightarrow> length vs > frame_capacity s))"

lemma series_append:
  assumes "series_holds h s A vs" "m \<notin> A"
  shows "\<exists>h' s'. time_series_append m ts v (h, s) = (h', s') \<and> series_holds h' s' (insert m A) (vs @ [(ts, v)])
    \<and> frame_capacity s' = frame_capacity s"
proof (cases "vs = []")
  case True
  then show ?thesis using assms(1)
    by (auto simp: series_holds_def time_series_append_def Let_def take_Cons' Suc_le_eq)
next
  case False
  then obtain f l where f: "first_frame s = Some f" "last_frame s = Some l" "f \<in> A" "l \<in> A" "fr_next h f = None"
      "fr_data h f = take (frame_capacity s) vs" "length (fr_data h l) \<le> frame_capacity s" "l \<noteq> f \<longrightarrow> length vs > frame_capacity s"
    and c: "frame_capacity s > 0"
    using assms(1) by (auto simp: series_holds_def)
  show ?thesis
  proof (cases "length (fr_data h l) = frame_capacity s")
    case True
    have "length vs \<ge> frame_capacity s" using True f(6,8) by (cases "l = f") auto
    then show ?thesis using True f c False assms(2)
      by (auto simp: series_holds_def time_series_append_def Let_def Suc_le_eq)
  next
    case ne: False
    show ?thesis
    proof (cases "l = f")
      case True
      then have "length vs < frame_capacity s" using ne f(6,7) by (simp add: min_def split: if_splits)
      then show ?thesis using True f c False ne
        by (auto simp: series_holds_def time_series_append_def Let_def)
    next
      case lf: False
      then show ?thesis using f c False ne
        by (auto simp: series_holds_def time_series_append_def Let_def)
    qed
  qed
qed

lemma series_append_other:
  assumes "series_holds h s A vs" "series_holds h s2 B ws" "A \<inter> B = {}" "m \<notin> B"
  shows "series_holds (fst (time_series_append m ts v (h, s))) s2 B ws"
proof (cases "last_frame s")
  case None
  then show ?thesis using assms(2,4) by (auto simp: series_holds_def time_series_append_def Let_def split: if_splits)
next
  case (Some l)
  then have "l \<in> A" using assms(1) by (auto simp: series_holds_def split: if_splits)
  then have "l \<notin> B" using assms(3) by blast
  then show ?thesis using Some assms(2,4) by (auto simp: series_holds_def time_series_append_def Let_def split: if_splits)
qed

lemma series_values:
  assumes "series_holds h s A vs"
  shows "frame_values h (first_frame s) = Some (take (frame_capacity s) vs)"
    and "\<exists>fs. frames_to_clear h (first_frame s) = Some fs \<and> length fs \<le> 1"
  using assms by (auto simp: series_holds_def frame_values.simps frames_to_clear.simps split: if_splits)

text \<open>
  What a time series shows. After any number of appends to an empty series, with a fresh address for every
  frame, the loop that writes the series ends and shows the values in the order in which they were
  appended, up to the capacity of one frame. Everything up to that capacity is shown; later
  values are stored in frames that no link reaches.
\<close>

theorem time_series_shows_first_frame:
  assumes "distinct (map fst es)" "frame_capacity s > 0" "first_frame s = None" "last_frame s = None"
    and "fold (\<lambda>(m, ts, v). time_series_append m ts v) es (h, s) = (h', s')"
  shows "frame_values h' (first_frame s') = Some (take (frame_capacity s) (map snd es))"
proof -
  have "\<exists>h' s'. fold (\<lambda>(m, ts, v). time_series_append m ts v) es (h, s) = (h', s') \<and> series_holds h' s' (set (map fst es)) (map snd es)
      \<and> frame_capacity s' = frame_capacity s"
    using assms(1)
  proof (induction es rule: rev_induct)
    case Nil
    then show ?case using assms(2-4) by (simp add: series_holds_def)
  next
    case (snoc e es)
    obtain m ts v where e: "e = (m, ts, v)" by (cases e)
    obtain h1 s1 where 1: "fold (\<lambda>(m, ts, v). time_series_append m ts v) es (h, s) = (h1, s1)"
        "series_holds h1 s1 (set (map fst es)) (map snd es)" "frame_capacity s1 = frame_capacity s"
      using snoc by auto
    from series_append [OF 1(2), of m ts v] show ?case using 1(1,3) e snoc.prems by auto
  qed
  then show ?thesis using series_values(1) assms(5) by fastforce
qed

theorem time_series_shows_first_frame_witness:
  "\<exists>h' s'. fold (\<lambda>(m, ts, v). time_series_append m ts v) [(1, 1, 10), (2, 2, 20), (3, 3, 30)]
       (\<lparr>fr_next = \<lambda>_. None, fr_data = \<lambda>_. []\<rparr>, \<lparr>frame_capacity = 2, first_frame = None, last_frame = None\<rparr>) = (h', s')
     \<and> frame_values h' (first_frame s') = Some [(1, 10), (2, 20)]"
proof -
  let ?h = "\<lparr>fr_next = \<lambda>_. None, fr_data = \<lambda>_. []\<rparr>" and ?s = "\<lparr>frame_capacity = 2, first_frame = None, last_frame = None\<rparr>"
  obtain h' s' where "fold (\<lambda>(m, ts, v). time_series_append m ts v) [(1, 1, 10), (2, 2, 20), (3, 3, 30)] (?h, ?s) = (h', s')"
    by (cases "fold (\<lambda>(m, ts, v). time_series_append m ts v) [(1, 1, 10), (2, 2, 20), (3, 3, 30)] (?h, ?s)")
  with time_series_shows_first_frame [OF _ _ _ _ this] show ?thesis by auto
qed

section \<open>Time series of RPCs\<close>

record rpc_series =
  rpc_count :: u64
  rpc_count_series :: time_series
  bulk_size :: u64
  bulk_size_series :: time_series

text \<open>The hash table with its order of iteration; addresses from \<open>fresh\<close> on are not allocated.\<close>

record rpc_table =
  rt_heap :: frames
  rt_fresh :: addr
  rt_ids :: "u64 list"
  rt_series :: "u64 \<Rightarrow> rpc_series"

definition new_rpc_series :: rpc_series where
  "new_rpc_series = \<lparr>rpc_count = 0, rpc_count_series = \<lparr>frame_capacity = 256, first_frame = None, last_frame = None\<rparr>,
     bulk_size = 0, bulk_size_series = \<lparr>frame_capacity = 256, first_frame = None, last_frame = None\<rparr>\<rparr>"

definition find_or_add_time_series_for_rpc :: "u64 \<Rightarrow> rpc_table \<Rightarrow> rpc_table" where
  "find_or_add_time_series_for_rpc rpc_id t =
    (if rpc_id \<in> set (rt_ids t) then t
     else t\<lparr>rt_ids := rt_ids t @ [rpc_id], rt_series := (rt_series t)(rpc_id := new_rpc_series)\<rparr>)"

text \<open>The parts of the handlers of RPC and bulk transfer events that concern time series.\<close>

definition count_rpc :: "u64 \<Rightarrow> rpc_table \<Rightarrow> rpc_table" where
  "count_rpc rpc_id t =
    (let t = find_or_add_time_series_for_rpc rpc_id t; r = rt_series t rpc_id
     in t\<lparr>rt_series := (rt_series t)(rpc_id := r\<lparr>rpc_count := rpc_count r + 1\<rparr>)\<rparr>)"

definition count_bulk :: "u64 \<Rightarrow> u64 \<Rightarrow> rpc_table \<Rightarrow> rpc_table" where
  "count_bulk rpc_id sz t =
    (let t = find_or_add_time_series_for_rpc rpc_id t; r = rt_series t rpc_id
     in t\<lparr>rt_series := (rt_series t)(rpc_id := r\<lparr>bulk_size := bulk_size r + sz\<rparr>)\<rparr>)"

definition update_one :: "real \<Rightarrow> u64 \<Rightarrow> rpc_table \<Rightarrow> rpc_table" where
  "update_one ts rpc_id t =
    (let r = rt_series t rpc_id;
         (h, cs) = time_series_append (rt_fresh t) ts (rpc_count r) (rt_heap t, rpc_count_series r);
         r = r\<lparr>rpc_count_series := cs, rpc_count := 0\<rparr>;
         (h, bs) = time_series_append (rt_fresh t + 1) ts (bulk_size r) (h, bulk_size_series r);
         r = r\<lparr>bulk_size_series := bs, bulk_size := 0\<rparr>
     in t\<lparr>rt_heap := h, rt_fresh := rt_fresh t + 2, rt_series := (rt_series t)(rpc_id := r)\<rparr>)"

definition update_rpc_time_series :: "real \<Rightarrow> rpc_table \<Rightarrow> rpc_table" where
  "update_rpc_time_series ts t = fold (update_one ts) (rt_ids t) t"

datatype series_event = Handled u64 | Transferred u64 u64 | Updated real

fun series_step :: "series_event \<Rightarrow> rpc_table \<Rightarrow> rpc_table" where
  "series_step (Handled i) = count_rpc i"
| "series_step (Transferred i n) = count_bulk i n"
| "series_step (Updated ts) = update_rpc_time_series ts"

definition new_rpc_table :: "frames \<Rightarrow> addr \<Rightarrow> rpc_table" where
  "new_rpc_table h fresh = \<lparr>rt_heap = h, rt_fresh = fresh, rt_ids = [], rt_series = (\<lambda>_. new_rpc_series)\<rparr>"

text \<open>The series hold the values \<open>V\<close> in disjoint sets of frames \<open>S\<close>; the flag selects counts or sizes.\<close>

definition rpc_core :: "(u64 \<times> bool \<Rightarrow> (real \<times> u64) list) \<Rightarrow> (u64 \<times> bool \<Rightarrow> addr set) \<Rightarrow> rpc_table \<Rightarrow> bool" where
  "rpc_core V S t \<longleftrightarrow> distinct (rt_ids t) \<and> (\<forall>k. S k \<subseteq> {..<rt_fresh t}) \<and> (\<forall>k k'. k \<noteq> k' \<longrightarrow> S k \<inter> S k' = {})
     \<and> (\<forall>i \<in> set (rt_ids t). series_holds (rt_heap t) (rpc_count_series (rt_series t i)) (S (i, False)) (V (i, False))
         \<and> series_holds (rt_heap t) (bulk_size_series (rt_series t i)) (S (i, True)) (V (i, True))
         \<and> frame_capacity (rpc_count_series (rt_series t i)) = 256 \<and> frame_capacity (bulk_size_series (rt_series t i)) = 256)"

lemma rpc_core_append:
  fixes b :: bool
  assumes c: "rpc_core V S t" and i: "i \<in> set (rt_ids t)" and r: "r = rt_series t i" and q: "q = (if b then bulk_size_series r else rpc_count_series r)"
    and a: "time_series_append (rt_fresh t) ts v (rt_heap t, q) = (h, q')"
    and t': "t' = t\<lparr>rt_heap := h, rt_fresh := rt_fresh t + 1,
        rt_series := (rt_series t)(i := if b then r\<lparr>bulk_size_series := q', bulk_size := 0\<rparr> else r\<lparr>rpc_count_series := q', rpc_count := 0\<rparr>)\<rparr>"
  shows "rpc_core (V((i, b) := V (i, b) @ [(ts, v)])) (S((i, b) := insert (rt_fresh t) (S (i, b)))) t'"
proof -
  let ?S = "S((i, b) := insert (rt_fresh t) (S (i, b)))"
  have sub: "S k \<subseteq> {..<rt_fresh t}" for k using c unfolding rpc_core_def by blast
  then have fr: "rt_fresh t \<notin> S k" for k by blast
  have dis: "S k \<inter> S k' = {}" if "k \<noteq> k'" for k k' using c that unfolding rpc_core_def by blast
  have qh: "series_holds (rt_heap t) q (S (i, b)) (V (i, b))" "frame_capacity q = 256" using c i q r by (auto simp: rpc_core_def)
  have q': "series_holds h q' (?S (i, b)) (V (i, b) @ [(ts, v)])" "frame_capacity q' = 256"
    using series_append [OF qh(1) fr, of ts v] a qh(2) by auto
  have other: "series_holds h s2 (S k) ws" if "series_holds (rt_heap t) s2 (S k) ws" "k \<noteq> (i, b)" for s2 k ws
    using series_append_other [OF qh(1) that(1) dis [OF that(2) [symmetric]] fr, of ts v] a by simp
  have "?S k \<subseteq> {..<rt_fresh t'}" for k using sub [of k] sub [of "(i, b)"] t' by (auto simp: less_Suc_eq)
  moreover have "?S k \<inter> ?S k' = {}" if "k \<noteq> k'" for k k' using dis [OF that] fr that by auto
  ultimately show ?thesis using c q' other t' q r unfolding rpc_core_def
    by (cases b) (auto simp: rpc_core_def)
qed

lemma update_one_core:
  assumes c: "rpc_core V S t" and i: "i \<in> set (rt_ids t)"
  shows "\<exists>S'. rpc_core (V((i, False) := V (i, False) @ [(ts, rpc_count (rt_series t i))], (i, True) := V (i, True) @ [(ts, bulk_size (rt_series t i))])) S'
      (update_one ts i t)"
    and "rt_ids (update_one ts i t) = rt_ids t"
    and "rpc_count (rt_series (update_one ts i t) j) = (if j = i then 0 else rpc_count (rt_series t j))"
    and "bulk_size (rt_series (update_one ts i t) j) = (if j = i then 0 else bulk_size (rt_series t j))"
proof -
  let ?r = "rt_series t i"
  obtain h q where a: "time_series_append (rt_fresh t) ts (rpc_count ?r) (rt_heap t, rpc_count_series ?r) = (h, q)" by fastforce
  define t1 where "t1 = t\<lparr>rt_heap := h, rt_fresh := rt_fresh t + 1, rt_series := (rt_series t)(i := ?r\<lparr>rpc_count_series := q, rpc_count := 0\<rparr>)\<rparr>"
  have c1: "rpc_core (V((i, False) := V (i, False) @ [(ts, rpc_count ?r)])) (S((i, False) := insert (rt_fresh t) (S (i, False)))) t1"
    by (rule rpc_core_append [OF c i refl _ a]) (simp_all add: t1_def)
  obtain h2 q2 where a2: "time_series_append (rt_fresh t1) ts (bulk_size ?r) (rt_heap t1, bulk_size_series (rt_series t1 i)) = (h2, q2)" by fastforce
  define t2 where "t2 = t1\<lparr>rt_heap := h2, rt_fresh := rt_fresh t1 + 1, rt_series := (rt_series t1)(i := (rt_series t1 i)\<lparr>bulk_size_series := q2, bulk_size := 0\<rparr>)\<rparr>"
  have i1: "i \<in> set (rt_ids t1)" using i by (simp add: t1_def)
  have "update_one ts i t = t2"
    using a a2 by (simp add: update_one_def t2_def t1_def)
  moreover have "\<exists>S'. rpc_core ((V((i, False) := V (i, False) @ [(ts, rpc_count ?r)]))((i, True) := (V((i, False) := V (i, False) @ [(ts, rpc_count ?r)])) (i, True) @ [(ts, bulk_size ?r)])) S' t2"
    by (rule exI, rule rpc_core_append [OF c1 i1 refl _ a2]) (simp_all add: t2_def)
  ultimately show "\<exists>S'. rpc_core (V((i, False) := V (i, False) @ [(ts, rpc_count ?r)], (i, True) := V (i, True) @ [(ts, bulk_size ?r)])) S' (update_one ts i t)"
    by simp
  show "rt_ids (update_one ts i t) = rt_ids t"
    "rpc_count (rt_series (update_one ts i t) j) = (if j = i then 0 else rpc_count (rt_series t j))"
    "bulk_size (rt_series (update_one ts i t) j) = (if j = i then 0 else bulk_size (rt_series t j))"
    using \<open>update_one ts i t = t2\<close> by (simp_all add: t2_def t1_def)
qed

lemma update_all_core:
  assumes "rpc_core V S t" "distinct is" "set is \<subseteq> set (rt_ids t)"
  shows "\<exists>S'. rpc_core (\<lambda>(i, b). if i \<in> set is then V (i, b) @ [(ts, if b then bulk_size (rt_series t i) else rpc_count (rt_series t i))] else V (i, b)) S'
      (fold (update_one ts) is t)
    \<and> rt_ids (fold (update_one ts) is t) = rt_ids t
    \<and> (\<forall>j. rpc_count (rt_series (fold (update_one ts) is t) j) = (if j \<in> set is then 0 else rpc_count (rt_series t j))
         \<and> bulk_size (rt_series (fold (update_one ts) is t) j) = (if j \<in> set is then 0 else bulk_size (rt_series t j)))"
  using assms
proof (induction "is" arbitrary: V S t)
  case Nil
  then show ?case by (auto intro!: exI [of _ S])
next
  case (Cons i "is")
  have i: "i \<in> set (rt_ids t)" using Cons.prems(3) by simp
  note u = update_one_core [OF Cons.prems(1) i, of ts]
  let ?V = "V((i, False) := V (i, False) @ [(ts, rpc_count (rt_series t i))], (i, True) := V (i, True) @ [(ts, bulk_size (rt_series t i))])"
  let ?t = "update_one ts i t"
  obtain S1 where S1: "rpc_core ?V S1 ?t" using u(1) by blast
  have "distinct is" "set is \<subseteq> set (rt_ids ?t)" "i \<notin> set is" using Cons.prems u(2) by auto
  moreover obtain S' where S': "rpc_core (\<lambda>(j, b). if j \<in> set is then ?V (j, b) @ [(ts, if b then bulk_size (rt_series ?t j) else rpc_count (rt_series ?t j))] else ?V (j, b)) S'
      (fold (update_one ts) is ?t)"
    and r: "rt_ids (fold (update_one ts) is ?t) = rt_ids ?t"
      "\<forall>j. rpc_count (rt_series (fold (update_one ts) is ?t) j) = (if j \<in> set is then 0 else rpc_count (rt_series ?t j))
         \<and> bulk_size (rt_series (fold (update_one ts) is ?t) j) = (if j \<in> set is then 0 else bulk_size (rt_series ?t j))"
    using Cons.IH [OF S1] calculation(1,2) by blast
  moreover have "(\<lambda>(j, b). if j \<in> set is then ?V (j, b) @ [(ts, if b then bulk_size (rt_series ?t j) else rpc_count (rt_series ?t j))] else ?V (j, b))
      = (\<lambda>(j, b). if j \<in> set (i # is) then V (j, b) @ [(ts, if b then bulk_size (rt_series t j) else rpc_count (rt_series t j))] else V (j, b))"
    using calculation(3) u(3,4) by (auto simp: fun_eq_iff)
  ultimately show ?case using u(2,3,4) by auto
qed

definition handled :: "u64 \<Rightarrow> series_event list \<Rightarrow> nat" where
  "handled i es = length (filter (\<lambda>e. e = Handled i) es)"

definition transferred :: "u64 \<Rightarrow> series_event list \<Rightarrow> u64" where
  "transferred i es = (\<Sum>e \<leftarrow> es. case e of Transferred j n \<Rightarrow> if j = i then n else 0 | _ \<Rightarrow> 0)"

definition updates :: "series_event list \<Rightarrow> nat" where
  "updates es = length (filter (\<lambda>e. case e of Updated _ \<Rightarrow> True | _ \<Rightarrow> False) es)"

definition rpc_inv :: "series_event list \<Rightarrow> rpc_table \<Rightarrow> bool" where
  "rpc_inv es t \<longleftrightarrow> (\<exists>V S. rpc_core V S t
     \<and> (\<forall>i \<in> set (rt_ids t). sum_list (map snd (V (i, False))) + rpc_count (rt_series t i) = of_nat (handled i es)
          \<and> sum_list (map snd (V (i, True))) + bulk_size (rt_series t i) = transferred i es
          \<and> map fst (V (i, False)) = map fst (V (i, True)) \<and> length (V (i, False)) \<le> updates es)
     \<and> (\<forall>i. i \<notin> set (rt_ids t) \<longrightarrow> handled i es = 0 \<and> transferred i es = 0))"

lemma find_or_add_core:
  assumes "rpc_core V S t"
  shows "\<exists>V'. rpc_core V' S (find_or_add_time_series_for_rpc i t) \<and> (\<forall>j \<in> set (rt_ids t). V' (j, False) = V (j, False) \<and> V' (j, True) = V (j, True))
    \<and> (i \<notin> set (rt_ids t) \<longrightarrow> V' (i, False) = [] \<and> V' (i, True) = [])"
proof (cases "i \<in> set (rt_ids t)")
  case False
  then show ?thesis using assms
    by (intro exI [of _ "V((i, False) := [], (i, True) := [])"])
      (auto simp: rpc_core_def find_or_add_time_series_for_rpc_def new_rpc_series_def series_holds_def)
qed (use assms in \<open>auto simp: find_or_add_time_series_for_rpc_def\<close>)

lemma find_or_add_series:
  "rt_series (find_or_add_time_series_for_rpc i t) j = (if j = i \<and> i \<notin> set (rt_ids t) then new_rpc_series else rt_series t j)"
  "set (rt_ids (find_or_add_time_series_for_rpc i t)) = insert i (set (rt_ids t))"
  by (auto simp: find_or_add_time_series_for_rpc_def)

lemma rpc_core_count:
  "rpc_core V S (t\<lparr>rt_series := (rt_series t)(i := (rt_series t i)\<lparr>rpc_count := n\<rparr>)\<rparr>) = rpc_core V S t"
  "rpc_core V S (t\<lparr>rt_series := (rt_series t)(i := (rt_series t i)\<lparr>bulk_size := n\<rparr>)\<rparr>) = rpc_core V S t"
  by (auto simp: rpc_core_def)

lemma event_counts [simp]:
  "handled i (es @ [e]) = handled i es + (if e = Handled i then 1 else 0)"
  "transferred i (es @ [e]) = transferred i es + (case e of Transferred j n \<Rightarrow> if j = i then n else 0 | _ \<Rightarrow> 0)"
  "updates (es @ [e]) = updates es + (case e of Updated _ \<Rightarrow> 1 | _ \<Rightarrow> 0)"
  by (auto simp: handled_def transferred_def updates_def split: series_event.splits)

lemma rpc_inv_count:
  assumes inv: "rpc_inv es t" and e: "e = Handled i \<or> (\<exists>n. e = Transferred i n)"
  shows "rpc_inv (es @ [e]) (series_step e t)"
proof -
  obtain V S where c: "rpc_core V S t"
    and v: "\<And>j. j \<in> set (rt_ids t) \<Longrightarrow> sum_list (map snd (V (j, False))) + rpc_count (rt_series t j) = of_nat (handled j es)"
      "\<And>j. j \<in> set (rt_ids t) \<Longrightarrow> sum_list (map snd (V (j, True))) + bulk_size (rt_series t j) = transferred j es"
      "\<And>j. j \<in> set (rt_ids t) \<Longrightarrow> map fst (V (j, False)) = map fst (V (j, True)) \<and> length (V (j, False)) \<le> updates es"
    and o: "\<And>j. j \<notin> set (rt_ids t) \<Longrightarrow> handled j es = 0 \<and> transferred j es = 0"
    using inv unfolding rpc_inv_def by blast
  let ?t = "find_or_add_time_series_for_rpc i t"
  obtain V' where c': "rpc_core V' S ?t" and V': "\<And>j. j \<in> set (rt_ids t) \<Longrightarrow> V' (j, False) = V (j, False) \<and> V' (j, True) = V (j, True)"
      "i \<notin> set (rt_ids t) \<Longrightarrow> V' (i, False) = [] \<and> V' (i, True) = []"
    using find_or_add_core [OF c, of i] by blast
  have w: "sum_list (map snd (V' (j, False))) + rpc_count (rt_series ?t j) = of_nat (handled j es)
      \<and> sum_list (map snd (V' (j, True))) + bulk_size (rt_series ?t j) = transferred j es
      \<and> map fst (V' (j, False)) = map fst (V' (j, True)) \<and> length (V' (j, False)) \<le> updates es" if "j \<in> set (rt_ids ?t)" for j
  proof (cases "j \<in> set (rt_ids t)")
    case True
    then show ?thesis using v [OF True] V'(1) [OF True] by (auto simp: find_or_add_series)
  next
    case False
    then have "j = i" using that by (simp add: find_or_add_series)
    then show ?thesis using False V'(2) o [OF False] by (auto simp: find_or_add_series new_rpc_series_def)
  qed
  have o': "handled j es = 0 \<and> transferred j es = 0 \<and> j \<noteq> i" if "j \<notin> set (rt_ids ?t)" for j using o that by (simp add: find_or_add_series)
  have "\<exists>n. series_step e t = (if e = Handled i then ?t\<lparr>rt_series := (rt_series ?t)(i := (rt_series ?t i)\<lparr>rpc_count := rpc_count (rt_series ?t i) + 1\<rparr>)\<rparr>
      else ?t\<lparr>rt_series := (rt_series ?t)(i := (rt_series ?t i)\<lparr>bulk_size := bulk_size (rt_series ?t i) + n\<rparr>)\<rparr>) \<and> (e = Handled i \<or> e = Transferred i n)"
    using e by (auto simp: count_rpc_def count_bulk_def Let_def)
  then obtain n where n: "series_step e t = (if e = Handled i then ?t\<lparr>rt_series := (rt_series ?t)(i := (rt_series ?t i)\<lparr>rpc_count := rpc_count (rt_series ?t i) + 1\<rparr>)\<rparr>
      else ?t\<lparr>rt_series := (rt_series ?t)(i := (rt_series ?t i)\<lparr>bulk_size := bulk_size (rt_series ?t i) + n\<rparr>)\<rparr>)" "e = Handled i \<or> e = Transferred i n" by blast
  show ?thesis
    unfolding rpc_inv_def
  proof (intro exI [of _ V'] exI [of _ S] conjI ballI allI impI)
    show "rpc_core V' S (series_step e t)" using c' by (simp add: n(1) rpc_core_count)
  next
    fix j
    assume "j \<in> set (rt_ids (series_step e t))"
    then have "j \<in> set (rt_ids ?t)" using n(1) by (simp split: if_splits)
    from w [OF this] show "sum_list (map snd (V' (j, False))) + rpc_count (rt_series (series_step e t) j) = of_nat (handled j (es @ [e]))"
      "sum_list (map snd (V' (j, True))) + bulk_size (rt_series (series_step e t) j) = transferred j (es @ [e])"
      "map fst (V' (j, False)) = map fst (V' (j, True))" "length (V' (j, False)) \<le> updates (es @ [e])"
      using n by (auto simp: algebra_simps)
  next
    fix j
    assume "j \<notin> set (rt_ids (series_step e t))"
    then have "j \<notin> set (rt_ids ?t)" using n(1) by (simp split: if_splits)
    from o' [OF this] show "handled j (es @ [e]) = 0" "transferred j (es @ [e]) = 0" using n(2) by auto
  qed
qed

lemma rpc_inv_update:
  assumes "rpc_inv es t"
  shows "rpc_inv (es @ [Updated ts]) (update_rpc_time_series ts t)"
proof -
  obtain V S where c: "rpc_core V S t"
    and v: "\<And>j. j \<in> set (rt_ids t) \<Longrightarrow> sum_list (map snd (V (j, False))) + rpc_count (rt_series t j) = of_nat (handled j es)
        \<and> sum_list (map snd (V (j, True))) + bulk_size (rt_series t j) = transferred j es
        \<and> map fst (V (j, False)) = map fst (V (j, True)) \<and> length (V (j, False)) \<le> updates es"
    and o: "\<And>j. j \<notin> set (rt_ids t) \<Longrightarrow> handled j es = 0 \<and> transferred j es = 0"
    using assms unfolding rpc_inv_def by blast
  have d: "distinct (rt_ids t)" using c by (simp add: rpc_core_def)
  let ?V = "\<lambda>(i, b). if i \<in> set (rt_ids t) then V (i, b) @ [(ts, if b then bulk_size (rt_series t i) else rpc_count (rt_series t i))] else V (i, b)"
  let ?t = "update_rpc_time_series ts t"
  obtain S' where s: "rpc_core ?V S' ?t" and i: "rt_ids ?t = rt_ids t"
      and z: "\<And>j. rpc_count (rt_series ?t j) = (if j \<in> set (rt_ids t) then 0 else rpc_count (rt_series t j))
         \<and> bulk_size (rt_series ?t j) = (if j \<in> set (rt_ids t) then 0 else bulk_size (rt_series t j))"
    using update_all_core [OF c d subset_refl, of ts] unfolding update_rpc_time_series_def by blast
  show ?thesis
    unfolding rpc_inv_def
    by (intro exI [of _ ?V] exI [of _ S'] conjI ballI allI impI, rule s) (use v o i z in \<open>auto simp: fun_eq_iff\<close>)
qed

lemma rpc_inv_fold: "rpc_inv es (fold series_step es (new_rpc_table h fresh))"
proof (induction es rule: rev_induct)
  case Nil
  have "rpc_core (\<lambda>_. []) (\<lambda>_. {}) (new_rpc_table h fresh)" by (simp add: rpc_core_def new_rpc_table_def)
  then show ?case unfolding rpc_inv_def by (intro exI) (auto simp: new_rpc_table_def handled_def transferred_def)
next
  case (snoc e es)
  then show ?case using rpc_inv_count [OF snoc, of e] rpc_inv_update [OF snoc] by (cases e) auto
qed

text \<open>
  The time series account for every RPC and every transferred byte. After any interleaving of RPCs, bulk transfers
  and periodic updates with at most as many updates as a frame has places, for every RPC id in the
  table the series of counts and of sizes can be written, they have the same
  timestamps, the counts together with the RPCs since the last update add up to the number of RPCs
  handled, and the sizes to the total size transferred (modulo the width of the counters).
\<close>

theorem rpc_series_account:
  assumes "t = fold series_step es (new_rpc_table h fresh)" "updates es \<le> 256" "i \<in> set (rt_ids t)"
  shows "\<exists>cs bs. frame_values (rt_heap t) (first_frame (rpc_count_series (rt_series t i))) = Some cs
    \<and> frame_values (rt_heap t) (first_frame (bulk_size_series (rt_series t i))) = Some bs
    \<and> map fst cs = map fst bs
    \<and> sum_list (map snd cs) + rpc_count (rt_series t i) = of_nat (handled i es)
    \<and> sum_list (map snd bs) + bulk_size (rt_series t i) = transferred i es"
proof -
  obtain V S where c: "rpc_core V S t"
    and v: "sum_list (map snd (V (i, False))) + rpc_count (rt_series t i) = of_nat (handled i es)"
      "sum_list (map snd (V (i, True))) + bulk_size (rt_series t i) = transferred i es"
      "map fst (V (i, False)) = map fst (V (i, True))" "length (V (i, False)) \<le> updates es"
    using rpc_inv_fold [of es h fresh] assms(1,3) unfolding rpc_inv_def by blast
  have l: "length (V (i, True)) = length (V (i, False))" using arg_cong [OF v(3), of length] by simp
  have h: "series_holds (rt_heap t) (rpc_count_series (rt_series t i)) (S (i, False)) (V (i, False))"
      "series_holds (rt_heap t) (bulk_size_series (rt_series t i)) (S (i, True)) (V (i, True))"
      "frame_capacity (rpc_count_series (rt_series t i)) = 256" "frame_capacity (bulk_size_series (rt_series t i)) = 256"
    using c assms(3) unfolding rpc_core_def by blast+
  show ?thesis using series_values(1) [OF h(1)] series_values(1) [OF h(2)] h(3,4) v l assms(2) by simp
qed

theorem rpc_series_account_witness:
  "let t = fold series_step [Handled 7, Handled 7, Transferred 7 100, Updated 1, Handled 7]
      (new_rpc_table \<lparr>fr_next = \<lambda>_. None, fr_data = \<lambda>_. []\<rparr> 0)
   in \<exists>cs. frame_values (rt_heap t) (first_frame (rpc_count_series (rt_series t 7))) = Some cs
      \<and> sum_list (map snd cs) + rpc_count (rt_series t 7) = 3"
proof -
  let ?es = "[Handled 7, Handled 7, Transferred 7 100, Updated 1, Handled 7]"
  let ?t = "fold series_step ?es (new_rpc_table \<lparr>fr_next = \<lambda>_. None, fr_data = \<lambda>_. []\<rparr> 0)"
  have "7 \<in> set (rt_ids ?t)"
    by (simp add: count_rpc_def find_or_add_time_series_for_rpc_def Let_def)
  moreover have "handled 7 ?es = 3" "updates ?es \<le> 256" by (simp_all add: handled_def updates_def)
  ultimately show ?thesis using rpc_series_account [of ?t ?es _ 0 7] by (auto simp: Let_def)
qed

section \<open>Time series of pools\<close>

text \<open>
  The array of series follows the array of pools: a new pool gets an empty series with the capacity of the last one
  (there is none before the first pool: \<^const>\<open>None\<close>), and the series of a removed pool is
  cleared and the following ones are moved down.
\<close>

definition on_add_pool :: "time_series list \<Rightarrow> time_series list option" where
  "on_add_pool ss = (if ss = [] then None
     else Some (ss @ [\<lparr>frame_capacity = frame_capacity (last ss), first_frame = None, last_frame = None\<rparr>]))"

definition on_remove_pool :: "frames \<Rightarrow> nat \<Rightarrow> time_series list \<Rightarrow> (time_series list \<times> addr list) option" where
  "on_remove_pool h index ss =
    (if index \<ge> length ss then None
     else do {
       (s, fs) \<leftarrow> time_series_clear (h, ss ! index);
       Some (take index ss @ drop (index + 1) ss, fs)
     })"

text \<open>The registry fills the gap with the last pool instead, so that series and pools no longer correspond.\<close>

lemma remove_pool_mixes_series:
  assumes "abt_remove_pool (Some 0) 0 a = (a', HG_SUCCESS)" "pools a = [p, q, r]" "q \<noteq> r"
    and "on_remove_pool h 0 [s0, s1, s2] = Some (ss, fs)"
  shows "pools a' = [r, q] \<and> ss = [s1, s2]"
  using assms by (auto simp: abt_remove_pool_def on_remove_pool_def pool_destroy_def Let_def ptr_simps split: if_splits)

section \<open>Addresses\<close>

text \<open>The two hash tables; \<open>name\<close> is the string that Mercury gives for an address, unless it reports an error.\<close>

record addr_table =
  addr_by_name :: "string \<rightharpoonup> u64"
  addr_by_id :: "u64 \<rightharpoonup> string"
  addr_last_id :: u64

definition addr_key :: "string option \<Rightarrow> string" where
  "addr_key name = (case name of Some s \<Rightarrow> s | None \<Rightarrow> ''<unknown>'')"

definition addr_info_find_or_add :: "string option \<Rightarrow> addr_table \<Rightarrow> addr_table \<times> u64" where
  "addr_info_find_or_add name t =
    (case addr_by_name t (addr_key name) of
       Some i \<Rightarrow> (t, i)
     | None \<Rightarrow>
         (let i = addr_last_id t + 1
          in (t\<lparr>addr_last_id := i, addr_by_name := (addr_by_name t)(addr_key name \<mapsto> i), addr_by_id := (addr_by_id t)(i \<mapsto> addr_key name)\<rparr>, i)))"

definition addr_info_find_by_id :: "u64 \<Rightarrow> addr_table \<Rightarrow> string option" where
  "addr_info_find_by_id i t = addr_by_id t i"

definition new_addr_table :: addr_table where
  "new_addr_table = \<lparr>addr_by_name = Map.empty, addr_by_id = Map.empty, addr_last_id = 0\<rparr>"

definition addr_inv :: "addr_table \<Rightarrow> nat \<Rightarrow> bool" where
  "addr_inv t n \<longleftrightarrow> (\<forall>s i. addr_by_name t s = Some i \<longleftrightarrow> addr_by_id t i = Some s)
     \<and> unat (addr_last_id t) \<le> n \<and> (\<forall>s i. addr_by_name t s = Some i \<longrightarrow> i \<noteq> 0 \<and> i \<le> addr_last_id t)"

lemma addr_find_or_add_inv:
  assumes "addr_inv t n" "n + 1 < 2 ^ 64" "addr_info_find_or_add name t = (t', i)"
  shows "addr_inv t' (n + 1)" "addr_by_name t' (addr_key name) = Some i" "addr_by_name t \<subseteq>\<^sub>m addr_by_name t'"
proof -
  have "addr_inv t' (n + 1) \<and> addr_by_name t' (addr_key name) = Some i \<and> addr_by_name t \<subseteq>\<^sub>m addr_by_name t'"
  proof (cases "addr_by_name t (addr_key name)")
    case (Some j)
    then show ?thesis using assms by (auto simp: addr_info_find_or_add_def addr_inv_def)
  next
    case None
    let ?i = "addr_last_id t + 1"
    have l: "unat ?i = unat (addr_last_id t) + 1"
      using assms(1,2) by (simp add: addr_inv_def unat_word_ariths(1))
    have nz: "?i \<noteq> 0" using l by (metis add_is_0 one_neq_zero unat_0)
    have gt: "j < ?i" if "addr_by_name t s = Some j" for s j
    proof -
      have "j \<le> addr_last_id t" using assms(1) that unfolding addr_inv_def by blast
      then show ?thesis using l by (simp add: word_le_nat_alt word_less_nat_alt)
    qed
    have new: "addr_by_id t ?i = None"
    proof (rule ccontr)
      assume "addr_by_id t ?i \<noteq> None"
      then obtain s where "addr_by_name t s = Some ?i" using assms(1) unfolding addr_inv_def by blast
      then show False using gt by blast
    qed
    have t': "t' = t\<lparr>addr_last_id := ?i, addr_by_name := (addr_by_name t)(addr_key name \<mapsto> ?i), addr_by_id := (addr_by_id t)(?i \<mapsto> addr_key name)\<rparr>" "i = ?i"
      using assms(3) None by (auto simp: addr_info_find_or_add_def Let_def)
    have b: "addr_by_name t s = Some j \<longleftrightarrow> addr_by_id t j = Some s" for s j using assms(1) unfolding addr_inv_def by blast
    have nn: "addr_by_id t j \<noteq> Some (addr_key name)" for j using b [of "addr_key name" j] None by simp
    have eq: "addr_by_name t' s = Some j \<longleftrightarrow> addr_by_id t' j = Some s" for s j
      using b [of s j] nn new t'(1) by auto
    moreover have "unat (addr_last_id t') \<le> n + 1" using assms(1) l t' by (simp add: addr_inv_def)
    moreover have "j \<noteq> 0 \<and> j \<le> addr_last_id t'" if "addr_by_name t' s = Some j" for s j
      using that t' nz gt [of s j] assms(1) by (auto simp: addr_inv_def less_imp_le split: if_splits)
    ultimately have "addr_inv t' (n + 1)" unfolding addr_inv_def by blast
    then show ?thesis using t' None by (auto simp: map_le_def)
  qed
  then show "addr_inv t' (n + 1)" "addr_by_name t' (addr_key name) = Some i" "addr_by_name t \<subseteq>\<^sub>m addr_by_name t'" by auto
qed

text \<open>
  Identifiers of addresses are faithful and stable. After any sequence of look-ups shorter than the
  range of the identifiers, every address that was looked up has a nonzero identifier under which its
  name is found, different names have different identifiers, and a further look-up of any name
  changes none of them and returns the one that is stored.
\<close>

theorem addr_ids_stable:
  assumes "t = fold (\<lambda>n t. fst (addr_info_find_or_add n t)) ns new_addr_table" "length ns + 1 < 2 ^ 64"
    and "addr_info_find_or_add name t = (t', i)"
  shows "(\<forall>n \<in> set ns. \<exists>j. addr_by_name t (addr_key n) = Some j \<and> j \<noteq> 0 \<and> addr_info_find_by_id j t = Some (addr_key n))
    \<and> (\<forall>n m j. addr_by_name t n = Some j \<longrightarrow> addr_by_name t m = Some j \<longrightarrow> n = m)
    \<and> addr_info_find_by_id i t' = Some (addr_key name)
    \<and> (\<forall>j s. addr_info_find_by_id j t = Some s \<longrightarrow> addr_info_find_by_id j t' = Some s)"
proof -
  have f: "addr_inv (fold (\<lambda>n t. fst (addr_info_find_or_add n t)) ns new_addr_table) (length ns)
      \<and> (\<forall>n \<in> set ns. addr_by_name (fold (\<lambda>n t. fst (addr_info_find_or_add n t)) ns new_addr_table) (addr_key n) \<noteq> None)"
    using assms(2)
  proof (induction ns rule: rev_induct)
    case Nil
    then show ?case by (simp add: addr_inv_def new_addr_table_def)
  next
    case (snoc n ns)
    let ?t = "fold (\<lambda>n t. fst (addr_info_find_or_add n t)) ns new_addr_table"
    obtain u k where u: "addr_info_find_or_add n ?t = (u, k)" by fastforce
    note r = addr_find_or_add_inv [OF _ _ u, of "length ns"]
    have "addr_by_name u (addr_key m) \<noteq> None" if "m \<in> set ns" for m
    proof -
      have "addr_by_name ?t (addr_key m) \<noteq> None" using snoc that by simp
      then show ?thesis using r(3) snoc by (auto simp: map_le_def dom_def)
    qed
    then show ?case using snoc r u by auto
  qed
  then have inv: "addr_inv t (length ns)" and d: "\<forall>n \<in> set ns. addr_by_name t (addr_key n) \<noteq> None" using assms(1) by auto
  note r = addr_find_or_add_inv [OF inv assms(2,3)]
  have b: "addr_by_name t s = Some j \<longleftrightarrow> addr_by_id t j = Some s" "addr_by_name t s = Some j \<Longrightarrow> j \<noteq> 0" for s j
    using inv unfolding addr_inv_def by blast+
  have b': "addr_by_name t' s = Some j \<longleftrightarrow> addr_by_id t' j = Some s" for s j using r(1) unfolding addr_inv_def by blast
  have m: "addr_by_name t' s = Some j" if "addr_by_name t s = Some j" for s j
    using r(3) that by (metis domI map_le_def)
  show ?thesis
    unfolding addr_info_find_by_id_def
  proof (intro conjI ballI allI impI)
    fix n
    assume "n \<in> set ns"
    then obtain j where "addr_by_name t (addr_key n) = Some j" using d by blast
    then show "\<exists>j. addr_by_name t (addr_key n) = Some j \<and> j \<noteq> 0 \<and> addr_by_id t j = Some (addr_key n)" using b by blast
  next
    fix n m j
    assume "addr_by_name t n = Some j" "addr_by_name t m = Some j"
    then have "addr_by_id t j = Some n" "addr_by_id t j = Some m" using b(1) by blast+
    then show "n = m" by simp
  next
    show "addr_by_id t' i = Some (addr_key name)" using b' r(2) by blast
  next
    fix j s
    assume "addr_by_id t j = Some s"
    then show "addr_by_id t' j = Some s" using b(1) b' m by blast
  qed
qed

theorem addr_ids_stable_witness:
  "let t = fold (\<lambda>n t. fst (addr_info_find_or_add n t)) [Some ''a'', None, Some ''b''] new_addr_table
   in addr_info_find_by_id (snd (addr_info_find_or_add (Some ''a'') t)) (fst (addr_info_find_or_add (Some ''a'') t)) = Some ''a''"
proof -
  let ?t = "fold (\<lambda>n t. fst (addr_info_find_or_add n t)) [Some ''a'', None, Some ''b''] new_addr_table"
  obtain t' i where r: "addr_info_find_or_add (Some ''a'') ?t = (t', i)" by fastforce
  then show ?thesis using addr_ids_stable [OF refl _ r] by (simp add: addr_key_def)
qed

end
