(* ===== verification/Monitoring.thy ===== *)
theory Monitoring
  imports Monitor_Stats Rpc_Id
begin

text \<open>
  The callbacks of the default monitoring (\<^verbatim>\<open>src/margo-default-monitoring.c\<close>): what they record for an RPC at its origin and at
  its target, for bulk operations and for the progress loop, and the configuration of the monitor. A
  callback is called at the start and at the end of an operation with the time and with a
  value \<open>uctx\<close> that it may set at the start and find again at the end. A pointer that is NULL
  and would be dereferenced gives \<^const>\<open>None\<close>.
\<close>

section \<open>State\<close>

datatype monitor_event = MARGO_MONITOR_FN_START | MARGO_MONITOR_FN_END

record callpath =
  cp_rpc_id :: u64
  cp_parent_id :: u64
  cp_addr_id :: u64

datatype bulk_op = HG_BULK_PUSH | HG_BULK_PULL

record bulk_key =
  bk_callpath :: callpath
  bk_remote_addr_id :: u64
  bk_operation :: bulk_op

datatype stat_kind = DURATION | TIMESTAMP

datatype origin_op = O_forward | O_forward_cb | O_wait | O_set_input | O_get_output

datatype target_op = T_handler | T_ult | T_respond | T_respond_cb | T_wait | T_set_output | T_get_input

text \<open>The statistics structures, by the field that holds them and the key of the hash table.\<close>

datatype stat_key =
    Progress_with_timeout | Progress_without_timeout | Progress_timeout_value | Trigger
  | Bulk_create_duration callpath | Bulk_create_size callpath
  | Transfer_duration bulk_key | Transfer_size bulk_key
  | Transfer_cb stat_kind bulk_key | Transfer_wait stat_kind bulk_key
  | Origin origin_op stat_kind callpath | Target target_op stat_kind callpath

text \<open>The entry of the hash table that a session refers to is given by its key.\<close>

record session =
  create_ts :: real
  forward_start_ts :: real
  forward_end_ts :: real
  wait_end_ts :: real
  origin_stats :: "callpath option"
  handler_start_ts :: real
  ult_start_ts :: real
  respond_start_ts :: real
  respond_end_ts :: real
  target_stats :: "callpath option"

record bulk_session =
  transfer_start_ts :: real
  transfer_end_ts :: real
  transfer_stats :: "bulk_key option"

text \<open>
  The state of the monitor: its configuration, the hash tables (their keys in the order of iteration, and the statistics, zero for
  keys that are new), the names of RPCs, the sessions by address, the sessions attached to handles and to requests, and
  the sessions that were given back to their arenas.
\<close>

record monitor =
  enable_statistics :: bool
  enable_time_series :: bool
  sample_progress_every :: int
  progress_sampling :: u64
  rpc_infos :: "u64 \<rightharpoonup> string"
  addr_infos :: addr_table
  stats :: "stat_key \<Rightarrow> statistics"
  origin_keys :: "callpath list"
  target_keys :: "callpath list"
  bulk_create_keys :: "callpath list"
  bulk_transfer_keys :: "bulk_key list"
  sessions :: "addr \<Rightarrow> session"
  bulk_sessions :: "addr \<Rightarrow> bulk_session"
  handle_session :: "addr \<Rightarrow> ptr"
  request_session :: "addr \<Rightarrow> ptr"
  released_sessions :: "ptr list"
  released_bulk_sessions :: "ptr list"
  rpc_series_table :: rpc_table
  rpc_time_series_last_ts :: real
  time_series_interval :: real

text \<open>An entry is added behind the others, unless there is one with the key.\<close>

definition hash_add :: "'k \<Rightarrow> 'k list \<Rightarrow> 'k list" where
  "hash_add k ks = (if k \<in> set ks then ks else ks @ [k])"

definition record_stat :: "stat_key \<Rightarrow> real \<Rightarrow> monitor \<Rightarrow> monitor" where
  "record_stat k v m = m\<lparr>stats := (stats m)(k := update_statistics v (stats m k))\<rparr>"

definition set_session :: "addr \<Rightarrow> (session \<Rightarrow> session) \<Rightarrow> monitor \<Rightarrow> monitor" where
  "set_session p f m = m\<lparr>sessions := (sessions m)(p := f (sessions m p))\<rparr>"

section \<open>RPCs\<close>

definition on_register :: "u64 \<Rightarrow> string \<Rightarrow> monitor_event \<Rightarrow> monitor \<Rightarrow> monitor" where
  "on_register rpc_id name ev m =
    (if ev = MARGO_MONITOR_FN_START then m else m\<lparr>rpc_infos := (rpc_infos m)(rpc_id \<mapsto> name)\<rparr>)"

text \<open>The result of a callback is the monitor and the value of \<open>uctx\<close>. \<open>new\<close> is the session that the arena gives.\<close>

definition on_create :: "addr \<Rightarrow> addr \<Rightarrow> monitor_event \<Rightarrow> real \<Rightarrow> real \<Rightarrow> monitor \<Rightarrow> (monitor \<times> real) option" where
  "on_create new handle ev ts uctx m =
    (if \<not> enable_statistics m then Some (m, uctx)
     else case ev of
       MARGO_MONITOR_FN_START \<Rightarrow> Some (m, ts)
     | MARGO_MONITOR_FN_END \<Rightarrow>
         Some ((set_session new (\<lambda>s. s\<lparr>create_ts := ts\<rparr>) m)\<lparr>handle_session := (handle_session m)(handle := Some new)\<rparr>, uctx))"

text \<open>\<open>id\<close> is the id of the handle, \<open>addr_name\<close> the string of its address, \<open>parent\<close> the id of the current RPC.\<close>

definition on_forward ::
  "u64 \<Rightarrow> u16 \<Rightarrow> string option \<Rightarrow> u64 \<Rightarrow> addr \<Rightarrow> monitor_event \<Rightarrow> real \<Rightarrow> real \<Rightarrow> monitor \<Rightarrow> (monitor \<times> real) option" where
  "on_forward rpc_id provider_id addr_name parent handle ev ts uctx m =
    (if \<not> enable_statistics m then Some (m, uctx)
     else do {
       p \<leftarrow> handle_session m handle;
       (case ev of
          MARGO_MONITOR_FN_START \<Rightarrow>
            (let (addrs, a) = addr_info_find_or_add addr_name (addr_infos m);
                 key = \<lparr>cp_rpc_id = mux_id rpc_id provider_id, cp_parent_id = parent, cp_addr_id = a\<rparr>;
                 m = m\<lparr>addr_infos := addrs, origin_keys := hash_add key (origin_keys m)\<rparr>;
                 m = set_session p (\<lambda>s. s\<lparr>origin_stats := Some key\<rparr>) m;
                 m = record_stat (Origin O_forward TIMESTAMP key) (ts - create_ts (sessions m p)) m
             in Some (set_session p (\<lambda>s. s\<lparr>forward_start_ts := ts\<rparr>) m, ts))
        | MARGO_MONITOR_FN_END \<Rightarrow> do {
            key \<leftarrow> origin_stats (sessions m p);
            let m = record_stat (Origin O_forward DURATION key) (ts - uctx) m;
            Some (set_session p (\<lambda>s. s\<lparr>forward_end_ts := ts\<rparr>) m, uctx)
          })
     })"

text \<open>The callbacks that record the time since a reference point at the start, and the duration at the end.\<close>

definition on_origin :: "origin_op \<Rightarrow> (session \<Rightarrow> real) \<Rightarrow> addr \<Rightarrow> monitor_event \<Rightarrow> real \<Rightarrow> real \<Rightarrow> monitor \<Rightarrow> (monitor \<times> real) option" where
  "on_origin op ref handle ev ts uctx m =
    (if \<not> enable_statistics m then Some (m, uctx)
     else do {
       p \<leftarrow> handle_session m handle;
       key \<leftarrow> origin_stats (sessions m p);
       Some (case ev of
           MARGO_MONITOR_FN_START \<Rightarrow> (record_stat (Origin op TIMESTAMP key) (ts - ref (sessions m p)) m, ts)
         | MARGO_MONITOR_FN_END \<Rightarrow> (record_stat (Origin op DURATION key) (ts - uctx) m, uctx))
     })"

definition on_target :: "target_op \<Rightarrow> (session \<Rightarrow> real) \<Rightarrow> addr \<Rightarrow> monitor_event \<Rightarrow> real \<Rightarrow> real \<Rightarrow> monitor \<Rightarrow> (monitor \<times> real) option" where
  "on_target op ref handle ev ts uctx m =
    (if \<not> enable_statistics m then Some (m, uctx)
     else do {
       p \<leftarrow> handle_session m handle;
       key \<leftarrow> target_stats (sessions m p);
       Some (case ev of
           MARGO_MONITOR_FN_START \<Rightarrow> (record_stat (Target op TIMESTAMP key) (ts - ref (sessions m p)) m, ts)
         | MARGO_MONITOR_FN_END \<Rightarrow> (record_stat (Target op DURATION key) (ts - uctx) m, uctx))
     })"

definition on_set_input :: "addr \<Rightarrow> monitor_event \<Rightarrow> real \<Rightarrow> real \<Rightarrow> monitor \<Rightarrow> (monitor \<times> real) option" where
  "on_set_input = on_origin O_set_input forward_start_ts"

definition on_set_output :: "addr \<Rightarrow> monitor_event \<Rightarrow> real \<Rightarrow> real \<Rightarrow> monitor \<Rightarrow> (monitor \<times> real) option" where
  "on_set_output = on_target T_set_output respond_start_ts"

definition on_get_output :: "addr \<Rightarrow> monitor_event \<Rightarrow> real \<Rightarrow> real \<Rightarrow> monitor \<Rightarrow> (monitor \<times> real) option" where
  "on_get_output = on_origin O_get_output wait_end_ts"

definition on_get_input :: "addr \<Rightarrow> monitor_event \<Rightarrow> real \<Rightarrow> real \<Rightarrow> monitor \<Rightarrow> (monitor \<times> real) option" where
  "on_get_input = on_target T_get_input ult_start_ts"

definition on_forward_cb :: "addr \<Rightarrow> monitor_event \<Rightarrow> real \<Rightarrow> real \<Rightarrow> monitor \<Rightarrow> (monitor \<times> real) option" where
  "on_forward_cb = on_origin O_forward_cb forward_start_ts"

definition on_respond :: "addr \<Rightarrow> monitor_event \<Rightarrow> real \<Rightarrow> real \<Rightarrow> monitor \<Rightarrow> (monitor \<times> real) option" where
  "on_respond handle ev ts uctx m =
    (if \<not> enable_statistics m then Some (m, uctx)
     else do {
       p \<leftarrow> handle_session m handle;
       (m, u) \<leftarrow> on_target T_respond ult_start_ts handle ev ts uctx m;
       Some (set_session p (\<lambda>s. case ev of MARGO_MONITOR_FN_START \<Rightarrow> s\<lparr>respond_start_ts := ts\<rparr>
         | MARGO_MONITOR_FN_END \<Rightarrow> s\<lparr>respond_end_ts := ts\<rparr>) m, u)
     })"

definition on_respond_cb :: "addr \<Rightarrow> monitor_event \<Rightarrow> real \<Rightarrow> real \<Rightarrow> monitor \<Rightarrow> (monitor \<times> real) option" where
  "on_respond_cb = on_target T_respond_cb respond_start_ts"

text \<open>The request is a forward or a response of the handle, or a bulk transfer.\<close>

datatype wait_request = Forward_request addr | Response_request addr | Bulk_request addr

definition on_wait :: "wait_request \<Rightarrow> monitor_event \<Rightarrow> real \<Rightarrow> real \<Rightarrow> monitor \<Rightarrow> (monitor \<times> real) option" where
  "on_wait request ev ts uctx m =
    (if \<not> enable_statistics m then Some (m, uctx)
     else case request of
       Forward_request h \<Rightarrow> do {
         p \<leftarrow> handle_session m h;
         (m, u) \<leftarrow> on_origin O_wait forward_end_ts h ev ts uctx m;
         Some (if ev = MARGO_MONITOR_FN_END then set_session p (\<lambda>s. s\<lparr>wait_end_ts := ts\<rparr>) m else m, u)
       }
     | Response_request h \<Rightarrow> on_target T_wait respond_end_ts h ev ts uctx m
     | Bulk_request r \<Rightarrow> do {
         p \<leftarrow> request_session m r;
         key \<leftarrow> transfer_stats (bulk_sessions m p);
         Some (case ev of
             MARGO_MONITOR_FN_START \<Rightarrow> (record_stat (Transfer_wait TIMESTAMP key) (ts - transfer_end_ts (bulk_sessions m p)) m, ts)
           | MARGO_MONITOR_FN_END \<Rightarrow>
               ((record_stat (Transfer_wait DURATION key) (ts - uctx) m)\<lparr>released_bulk_sessions := Some p # released_bulk_sessions m\<rparr>, uctx))
       })"

definition on_rpc_handler ::
  "addr \<Rightarrow> u64 \<Rightarrow> string option \<Rightarrow> u64 \<Rightarrow> addr \<Rightarrow> monitor_event \<Rightarrow> real \<Rightarrow> real \<Rightarrow> monitor \<Rightarrow> (monitor \<times> real) option" where
  "on_rpc_handler new rpc_id addr_name parent handle ev ts uctx m =
    (if \<not> (enable_statistics m \<or> enable_time_series m) then Some (m, uctx)
     else case ev of
       MARGO_MONITOR_FN_START \<Rightarrow>
         (let (addrs, a) = addr_info_find_or_add addr_name (addr_infos m);
              key = \<lparr>cp_rpc_id = rpc_id, cp_parent_id = parent, cp_addr_id = a\<rparr>;
              m = m\<lparr>addr_infos := addrs\<rparr>;
              (m, uctx) =
                (if enable_statistics m
                 then (let p = (case handle_session m handle of Some p \<Rightarrow> p | None \<Rightarrow> new);
                           m = set_session p (\<lambda>s. s\<lparr>handler_start_ts := ts, target_stats := Some key\<rparr>) m
                       in (m\<lparr>handle_session := (handle_session m)(handle := Some p), target_keys := hash_add key (target_keys m)\<rparr>, ts))
                 else (m, uctx))
          in Some (if enable_time_series m then m\<lparr>rpc_series_table := count_rpc rpc_id (rpc_series_table m)\<rparr> else m, uctx))
     | MARGO_MONITOR_FN_END \<Rightarrow>
         if enable_statistics m
         then do {
           p \<leftarrow> handle_session m handle;
           key \<leftarrow> target_stats (sessions m p);
           Some (record_stat (Target T_handler DURATION key) (ts - uctx) m, uctx)
         }
         else Some (m, uctx))"

text \<open>The third result is the callpath that is attached to the calling ULT.\<close>

definition on_rpc_ult :: "addr \<Rightarrow> monitor_event \<Rightarrow> real \<Rightarrow> real \<Rightarrow> monitor \<Rightarrow> (monitor \<times> real \<times> callpath option) option" where
  "on_rpc_ult handle ev ts uctx m =
    (if \<not> enable_statistics m then Some (m, uctx, None)
     else do {
       p \<leftarrow> handle_session m handle;
       key \<leftarrow> target_stats (sessions m p);
       (m, u) \<leftarrow> on_target T_ult handler_start_ts handle ev ts uctx m;
       Some (case ev of
           MARGO_MONITOR_FN_START \<Rightarrow> (set_session p (\<lambda>s. s\<lparr>ult_start_ts := ts\<rparr>) m, u, Some key)
         | MARGO_MONITOR_FN_END \<Rightarrow> (m, u, None))
     })"

text \<open>Releasing NULL to the arena does nothing.\<close>

definition on_destroy :: "addr \<Rightarrow> monitor_event \<Rightarrow> real \<Rightarrow> real \<Rightarrow> monitor \<Rightarrow> (monitor \<times> real) option" where
  "on_destroy handle ev ts uctx m =
    (if \<not> enable_statistics m \<or> ev = MARGO_MONITOR_FN_END then Some (m, uctx)
     else Some (case handle_session m handle of Some p \<Rightarrow> m\<lparr>released_sessions := Some p # released_sessions m\<rparr> | None \<Rightarrow> m, uctx))"

section \<open>Bulk operations\<close>

text \<open>\<open>current\<close> is the callpath attached to the calling ULT, if any.\<close>

definition default_callpath :: callpath where
  "default_callpath = \<lparr>cp_rpc_id = mux_id 0 MARGO_DEFAULT_PROVIDER_ID, cp_parent_id = mux_id 0 MARGO_DEFAULT_PROVIDER_ID, cp_addr_id = 0\<rparr>"

definition on_bulk_create :: "callpath option \<Rightarrow> u64 list \<Rightarrow> monitor_event \<Rightarrow> real \<Rightarrow> real \<Rightarrow> monitor \<Rightarrow> monitor \<times> real" where
  "on_bulk_create current sizes ev ts uctx m =
    (if \<not> enable_statistics m then (m, uctx)
     else case ev of
       MARGO_MONITOR_FN_START \<Rightarrow> (m, ts)
     | MARGO_MONITOR_FN_END \<Rightarrow>
         (let key = (case current of Some c \<Rightarrow> c | None \<Rightarrow> default_callpath);
              m = m\<lparr>bulk_create_keys := hash_add key (bulk_create_keys m)\<rparr>;
              sz = sum_list sizes;
              m = record_stat (Bulk_create_duration key) (ts - uctx) m
          in (record_stat (Bulk_create_size key) (real (unat sz)) m, uctx)))"

definition on_bulk_transfer ::
  "addr \<Rightarrow> callpath option \<Rightarrow> string option \<Rightarrow> bulk_op \<Rightarrow> u64 \<Rightarrow> addr \<Rightarrow> monitor_event \<Rightarrow> real \<Rightarrow> real \<Rightarrow> monitor \<Rightarrow> (monitor \<times> real) option" where
  "on_bulk_transfer new current addr_name op sz request ev ts uctx m =
    (if \<not> (enable_statistics m \<or> enable_time_series m) then Some (m, uctx)
     else case ev of
       MARGO_MONITOR_FN_START \<Rightarrow>
         (let (addrs, a) = addr_info_find_or_add addr_name (addr_infos m);
              key = \<lparr>bk_callpath = (case current of Some c \<Rightarrow> c | None \<Rightarrow> default_callpath), bk_remote_addr_id = a, bk_operation = op\<rparr>;
              m = m\<lparr>addr_infos := addrs\<rparr>;
              (m, uctx) =
                (if enable_statistics m
                 then (m\<lparr>bulk_transfer_keys := hash_add key (bulk_transfer_keys m),
                         bulk_sessions := (bulk_sessions m)(new := (bulk_sessions m new)\<lparr>transfer_start_ts := ts, transfer_stats := Some key\<rparr>),
                         request_session := (request_session m)(request := Some new)\<rparr>, ts)
                 else (m, uctx))
          in Some (if enable_time_series m then m\<lparr>rpc_series_table := count_bulk (cp_rpc_id (bk_callpath key)) sz (rpc_series_table m)\<rparr> else m, uctx))
     | MARGO_MONITOR_FN_END \<Rightarrow>
         if enable_statistics m
         then do {
           p \<leftarrow> request_session m request;
           key \<leftarrow> transfer_stats (bulk_sessions m p);
           let m = record_stat (Transfer_duration key) (ts - uctx) m;
           let m = record_stat (Transfer_size key) (real (unat sz)) m;
           Some (m\<lparr>bulk_sessions := (bulk_sessions m)(p := (bulk_sessions m p)\<lparr>transfer_end_ts := ts\<rparr>)\<rparr>, uctx)
         }
         else Some (m, uctx))"

definition on_bulk_transfer_cb :: "addr \<Rightarrow> monitor_event \<Rightarrow> real \<Rightarrow> real \<Rightarrow> monitor \<Rightarrow> (monitor \<times> real) option" where
  "on_bulk_transfer_cb request ev ts uctx m =
    (if \<not> enable_statistics m then Some (m, uctx)
     else do {
       p \<leftarrow> request_session m request;
       key \<leftarrow> transfer_stats (bulk_sessions m p);
       Some (case ev of
           MARGO_MONITOR_FN_START \<Rightarrow> (record_stat (Transfer_cb TIMESTAMP key) (ts - transfer_start_ts (bulk_sessions m p)) m, ts)
         | MARGO_MONITOR_FN_END \<Rightarrow> (record_stat (Transfer_cb DURATION key) (ts - uctx) m, uctx))
     })"

section \<open>Progress\<close>

text \<open>The time series of pools are left out here.\<close>

definition on_progress :: "u32 \<Rightarrow> monitor_event \<Rightarrow> real \<Rightarrow> real \<Rightarrow> monitor \<Rightarrow> monitor \<times> real" where
  "on_progress timeout_ms ev ts uctx m =
    (let m = (if ev = MARGO_MONITOR_FN_END \<and> enable_time_series m \<and> ts > rpc_time_series_last_ts m + time_series_interval m
              then m\<lparr>rpc_series_table := update_rpc_time_series ts (rpc_series_table m), rpc_time_series_last_ts := ts\<rparr> else m)
     in if \<not> enable_statistics m then (m, uctx)
        else case ev of
          MARGO_MONITOR_FN_START \<Rightarrow>
            if sample_progress_every m = 0 then (m, uctx)
            else
              (let n = (if progress_sampling m = 0 then of_int (sample_progress_every m) else progress_sampling m) - 1;
                   m = m\<lparr>progress_sampling := n\<rparr>
               in if n \<noteq> 0 then (m, uctx) else (m, ts))
        | MARGO_MONITOR_FN_END \<Rightarrow>
            if sample_progress_every m = 0 \<or> progress_sampling m \<noteq> 0 then (m, uctx)
            else if timeout_ms \<noteq> 0
            then (record_stat Progress_timeout_value (real (unat timeout_ms)) (record_stat Progress_with_timeout (ts - uctx) m), uctx)
            else (record_stat Progress_without_timeout (ts - uctx) m, uctx))"

definition on_trigger :: "u32 \<Rightarrow> monitor_event \<Rightarrow> real \<Rightarrow> real \<Rightarrow> monitor \<Rightarrow> monitor \<times> real" where
  "on_trigger actual_count ev ts uctx m =
    (if \<not> enable_statistics m then (m, uctx)
     else case ev of
       MARGO_MONITOR_FN_START \<Rightarrow> (m, ts)
     | MARGO_MONITOR_FN_END \<Rightarrow> if actual_count = 0 then (m, uctx) else (record_stat Trigger (ts - uctx) m, uctx))"

section \<open>What the life of an RPC records\<close>

lemma record_stat_simps [simp]:
  "enable_statistics (record_stat k v m) = enable_statistics m"
  "enable_time_series (record_stat k v m) = enable_time_series m"
  "sample_progress_every (record_stat k v m) = sample_progress_every m"
  "progress_sampling (record_stat k v m) = progress_sampling m"
  "handle_session (record_stat k v m) = handle_session m"
  "request_session (record_stat k v m) = request_session m"
  "sessions (record_stat k v m) = sessions m"
  "bulk_sessions (record_stat k v m) = bulk_sessions m"
  "addr_infos (record_stat k v m) = addr_infos m"
  "released_sessions (record_stat k v m) = released_sessions m"
  "released_bulk_sessions (record_stat k v m) = released_bulk_sessions m"
  "stats (record_stat k v m) = (stats m)(k := update_statistics v (stats m k))"
  by (simp_all add: record_stat_def)

lemma set_session_simps [simp]:
  "enable_statistics (set_session p f m) = enable_statistics m"
  "enable_time_series (set_session p f m) = enable_time_series m"
  "handle_session (set_session p f m) = handle_session m"
  "addr_infos (set_session p f m) = addr_infos m"
  "released_sessions (set_session p f m) = released_sessions m"
  "stats (set_session p f m) = stats m"
  "sessions (set_session p f m) = (sessions m)(p := f (sessions m p))"
  by (simp_all add: set_session_def)

lemmas origin_callbacks = on_create_def on_forward_def on_origin_def on_set_input_def on_forward_cb_def on_wait_def
  on_get_output_def on_destroy_def

lemmas target_callbacks = on_rpc_handler_def on_rpc_ult_def on_target_def on_get_input_def on_respond_def on_set_output_def
  on_respond_cb_def on_wait_def on_destroy_def

text \<open>A callback at the start and at the end of an operation, at two times.\<close>

definition around :: "(monitor_event \<Rightarrow> real \<Rightarrow> real \<Rightarrow> monitor \<Rightarrow> (monitor \<times> real) option) \<Rightarrow> real \<Rightarrow> real \<Rightarrow> monitor \<Rightarrow> monitor option" where
  "around f t0 t1 m = do { (m, u) \<leftarrow> f MARGO_MONITOR_FN_START t0 0 m; (m, u) \<leftarrow> f MARGO_MONITOR_FN_END t1 u m; Some m }"

text \<open>
  The callbacks that the core makes for a forward, from the creation of the handle to its destruction. The completion
  callback of the progress loop may come before or after \<^verbatim>\<open>margo_provider_iforward\<close> returns (\<open>early\<close>).
\<close>

definition monitored_forward ::
  "bool \<Rightarrow> addr \<Rightarrow> addr \<Rightarrow> u64 \<Rightarrow> u16 \<Rightarrow> string option \<Rightarrow> u64 \<Rightarrow> (nat \<Rightarrow> real) \<Rightarrow> monitor \<Rightarrow> monitor option" where
  "monitored_forward early new h rpc pid name parent t m = do {
     m \<leftarrow> around (on_create new h) (t 0) (t 1) m;
     (m, u) \<leftarrow> on_forward rpc pid name parent h MARGO_MONITOR_FN_START (t 2) 0 m;
     m \<leftarrow> around (on_set_input h) (t 3) (t 4) m;
     m \<leftarrow> (if early then around (on_forward_cb h) (t 5) (t 6) m else Some m);
     (m, u) \<leftarrow> on_forward rpc pid name parent h MARGO_MONITOR_FN_END (t 7) u m;
     m \<leftarrow> (if early then Some m else around (on_forward_cb h) (t 5) (t 6) m);
     m \<leftarrow> around (on_wait (Forward_request h)) (t 8) (t 9) m;
     m \<leftarrow> around (on_get_output h) (t 10) (t 11) m;
     around (on_destroy h) (t 12) (t 13) m
   }"

definition forward_samples :: "callpath \<Rightarrow> (nat \<Rightarrow> real) \<Rightarrow> (stat_key \<times> real) list" where
  "forward_samples key t =
    [(Origin O_forward TIMESTAMP key, t 2 - t 1), (Origin O_forward DURATION key, t 7 - t 2),
     (Origin O_set_input TIMESTAMP key, t 3 - t 2), (Origin O_set_input DURATION key, t 4 - t 3),
     (Origin O_forward_cb TIMESTAMP key, t 5 - t 2), (Origin O_forward_cb DURATION key, t 6 - t 5),
     (Origin O_wait TIMESTAMP key, t 8 - t 7), (Origin O_wait DURATION key, t 9 - t 8),
     (Origin O_get_output TIMESTAMP key, t 10 - t 9), (Origin O_get_output DURATION key, t 11 - t 10)]"

definition recorded :: "(stat_key \<times> real) list \<Rightarrow> (stat_key \<Rightarrow> statistics) \<Rightarrow> stat_key \<Rightarrow> statistics" where
  "recorded samples st k = (case map_of samples k of Some v \<Rightarrow> update_statistics v (st k) | None \<Rightarrow> st k)"


definition empty_monitor :: monitor where
  "empty_monitor = \<lparr>enable_statistics = True, enable_time_series = False, sample_progress_every = 2, progress_sampling = 0,
     rpc_infos = Map.empty, addr_infos = new_addr_table, stats = (\<lambda>_. zero_statistics), origin_keys = [], target_keys = [], bulk_create_keys = [], bulk_transfer_keys = [],
     sessions = (\<lambda>_. \<lparr>create_ts = 0, forward_start_ts = 0, forward_end_ts = 0, wait_end_ts = 0, origin_stats = None, handler_start_ts = 0,
       ult_start_ts = 0, respond_start_ts = 0, respond_end_ts = 0, target_stats = None\<rparr>),
     bulk_sessions = (\<lambda>_. \<lparr>transfer_start_ts = 0, transfer_end_ts = 0, transfer_stats = None\<rparr>),
     handle_session = (\<lambda>_. None), request_session = (\<lambda>_. None), released_sessions = [], released_bulk_sessions = [],
     rpc_series_table = new_rpc_table \<lparr>fr_next = \<lambda>_. None, fr_data = \<lambda>_. []\<rparr> 0, rpc_time_series_last_ts = 0, time_series_interval = 1\<rparr>"


text \<open>
  The callbacks at the target of an RPC: the handler that the progress loop calls creates the ULT, which gets the
  input, responds (the output is set by the response) and destroys the handle. The completion callback of
  the response may come before or after \<^verbatim>\<open>margo_irespond\<close> returns.
\<close>

definition monitored_handling ::
  "bool \<Rightarrow> addr \<Rightarrow> addr \<Rightarrow> u64 \<Rightarrow> string option \<Rightarrow> u64 \<Rightarrow> (nat \<Rightarrow> real) \<Rightarrow> monitor \<Rightarrow> monitor option" where
  "monitored_handling early new h rpc name parent t m = do {
     m \<leftarrow> around (on_rpc_handler new rpc name parent h) (t 0) (t 1) m;
     (m, u, cp) \<leftarrow> on_rpc_ult h MARGO_MONITOR_FN_START (t 2) 0 m;
     m \<leftarrow> around (on_get_input h) (t 3) (t 4) m;
     (m, v) \<leftarrow> on_respond h MARGO_MONITOR_FN_START (t 5) 0 m;
     m \<leftarrow> around (on_set_output h) (t 6) (t 7) m;
     m \<leftarrow> (if early then around (on_respond_cb h) (t 8) (t 9) m else Some m);
     (m, v) \<leftarrow> on_respond h MARGO_MONITOR_FN_END (t 10) v m;
     m \<leftarrow> (if early then Some m else around (on_respond_cb h) (t 8) (t 9) m);
     m \<leftarrow> around (on_wait (Response_request h)) (t 11) (t 12) m;
     (m, u, cp) \<leftarrow> on_rpc_ult h MARGO_MONITOR_FN_END (t 13) u m;
     around (on_destroy h) (t 14) (t 15) m
   }"

definition handling_samples :: "callpath \<Rightarrow> (nat \<Rightarrow> real) \<Rightarrow> (stat_key \<times> real) list" where
  "handling_samples key t =
    [(Target T_handler DURATION key, t 1 - t 0), (Target T_ult TIMESTAMP key, t 2 - t 0), (Target T_ult DURATION key, t 13 - t 2),
     (Target T_get_input TIMESTAMP key, t 3 - t 2), (Target T_get_input DURATION key, t 4 - t 3),
     (Target T_respond TIMESTAMP key, t 5 - t 2), (Target T_respond DURATION key, t 10 - t 5),
     (Target T_set_output TIMESTAMP key, t 6 - t 5), (Target T_set_output DURATION key, t 7 - t 6),
     (Target T_respond_cb TIMESTAMP key, t 8 - t 5), (Target T_respond_cb DURATION key, t 9 - t 8),
     (Target T_wait TIMESTAMP key, t 11 - t 10), (Target T_wait DURATION key, t 12 - t 11)]"

lemma handler_around:
  assumes "enable_statistics m" "handle_session m h = None" "addr_info_find_or_add name (addr_infos m) = (addrs, a)"
  shows "\<exists>m1. around (on_rpc_handler new rpc name parent h) t0 t1 m = Some m1 \<and>
    enable_statistics m1 \<and> handle_session m1 h = Some new \<and>
    target_stats (sessions m1 new) = Some \<lparr>cp_rpc_id = rpc, cp_parent_id = parent, cp_addr_id = a\<rparr> \<and>
    handler_start_ts (sessions m1 new) = t0 \<and> addr_infos m1 = addrs \<and> released_sessions m1 = released_sessions m \<and>
    stats m1 = (stats m)(Target T_handler DURATION \<lparr>cp_rpc_id = rpc, cp_parent_id = parent, cp_addr_id = a\<rparr> :=
      update_statistics (t1 - t0) (stats m (Target T_handler DURATION \<lparr>cp_rpc_id = rpc, cp_parent_id = parent, cp_addr_id = a\<rparr>)))"
  using assms by (cases "enable_time_series m") (simp_all add: around_def on_rpc_handler_def Let_def)

definition record_list :: "(stat_key \<times> real) list \<Rightarrow> (stat_key \<Rightarrow> statistics) \<Rightarrow> stat_key \<Rightarrow> statistics" where
  "record_list = fold (\<lambda>(k, v) st. st(k := update_statistics v (st k)))"

definition handling_order :: "bool \<Rightarrow> callpath \<Rightarrow> (nat \<Rightarrow> real) \<Rightarrow> (stat_key \<times> real) list" where
  "handling_order early key t =
    (let cb = [(Target T_respond_cb TIMESTAMP key, t 8 - t 5), (Target T_respond_cb DURATION key, t 9 - t 8)]
     in [(Target T_ult TIMESTAMP key, t 2 - t 0), (Target T_get_input TIMESTAMP key, t 3 - t 2), (Target T_get_input DURATION key, t 4 - t 3),
       (Target T_respond TIMESTAMP key, t 5 - t 2), (Target T_set_output TIMESTAMP key, t 6 - t 5), (Target T_set_output DURATION key, t 7 - t 6)]
      @ (if early then cb else []) @ [(Target T_respond DURATION key, t 10 - t 5)] @ (if early then [] else cb)
      @ [(Target T_wait TIMESTAMP key, t 11 - t 10), (Target T_wait DURATION key, t 12 - t 11), (Target T_ult DURATION key, t 13 - t 2)])"

text \<open>Samples of distinct keys may be recorded in any order.\<close>

lemma record_list_distinct:
  "distinct (map fst xs) \<Longrightarrow> record_list xs st = recorded xs st"
proof (induction xs arbitrary: st)
  case Nil
  then show ?case by (simp add: record_list_def recorded_def fun_eq_iff)
next
  case (Cons x xs)
  obtain k v where x: "x = (k, v)" by fastforce
  have "map_of xs k = None" using Cons.prems x by (simp add: map_of_eq_None_iff)
  moreover have "record_list (x # xs) st = recorded xs (st(k := update_statistics v (st k)))"
    using Cons.IH Cons.prems x by (simp add: record_list_def)
  moreover have "recorded xs (st(k := update_statistics v (st k))) j = recorded (x # xs) st j" if "map_of xs k = None" for j
    using that x by (cases "j = k") (simp_all add: recorded_def split: option.split)
  ultimately show ?case by (simp add: fun_eq_iff)
qed

lemma recorded_cong:
  "distinct (map fst xs) \<Longrightarrow> distinct (map fst ys) \<Longrightarrow> set xs = set ys \<Longrightarrow> recorded xs = recorded ys"
  using map_of_inject_set [of xs ys] by (simp add: recorded_def fun_eq_iff)

lemma handling_order_recorded:
  "record_list ((Target T_handler DURATION key, t 1 - t 0) # handling_order early key t) st = recorded (handling_samples key t) st"
proof -
  have "distinct (map fst ((Target T_handler DURATION key, t 1 - t 0) # handling_order early key t))" by (cases early) (simp_all add: handling_order_def)
  moreover have "distinct (map fst (handling_samples key t))" by (simp add: handling_samples_def)
  moreover have "set ((Target T_handler DURATION key, t 1 - t 0) # handling_order early key t) = set (handling_samples key t)"
    by (cases early) (auto simp: handling_order_def handling_samples_def)
  ultimately show ?thesis using record_list_distinct recorded_cong by metis
qed

text \<open>
  The handling of an RPC is accounted for once at the target. From the handler to the destruction of a handle that had no
  session, no callback dereferences NULL; the statistics of the callpath receive exactly one sample for the handler, the ULT,
  getting the input, the response, setting the output, the completion of the response and the wait for it;
  all other statistics are unchanged; and the session is given back once.
\<close>

theorem handling_is_recorded:
  assumes "enable_statistics m" "handle_session m h = None" "addr_info_find_or_add name (addr_infos m) = (addrs, a)"
  shows "\<exists>m'. monitored_handling early new h rpc name parent t m = Some m' \<and>
    stats m' = recorded (handling_samples \<lparr>cp_rpc_id = rpc, cp_parent_id = parent, cp_addr_id = a\<rparr> t) (stats m) \<and>
    addr_infos m' = addrs \<and> released_sessions m' = Some new # released_sessions m"
proof -
  let ?key = "\<lparr>cp_rpc_id = rpc, cp_parent_id = parent, cp_addr_id = a\<rparr>"
  obtain m1 where m1: "around (on_rpc_handler new rpc name parent h) (t 0) (t 1) m = Some m1"
    "enable_statistics m1" "handle_session m1 h = Some new" "target_stats (sessions m1 new) = Some ?key"
    "handler_start_ts (sessions m1 new) = t 0" "addr_infos m1 = addrs" "released_sessions m1 = released_sessions m"
    "stats m1 = (stats m)(Target T_handler DURATION ?key := update_statistics (t 1 - t 0) (stats m (Target T_handler DURATION ?key)))"
    using handler_around [OF assms(1) assms(2) assms(3), of new rpc parent "t 0" "t 1"] by blast
  have 1: "\<exists>m'. monitored_handling early new h rpc name parent t m = Some m' \<and> addr_infos m' = addrs \<and>
      released_sessions m' = Some new # released_sessions m \<and> stats m' = record_list (handling_order early ?key t) (stats m1)"
    using m1(2-7) unfolding monitored_handling_def m1(1)
    by (cases early) (simp_all add: around_def target_callbacks record_list_def handling_order_def)
  moreover have "record_list (handling_order early ?key t) (stats m1) = recorded (handling_samples ?key t) (stats m)"
    using handling_order_recorded [of ?key t early "stats m"] by (simp add: m1(8) record_list_def)
  ultimately show ?thesis by auto
qed

theorem handling_is_recorded_witness:
  "\<exists>m'. monitored_handling False 7 8 1 None 3 real empty_monitor = Some m' \<and>
    stats m' = recorded (handling_samples \<lparr>cp_rpc_id = 1, cp_parent_id = 3, cp_addr_id = 1\<rparr> real) (\<lambda>_. zero_statistics) \<and>
    addr_infos m' = fst (addr_info_find_or_add None new_addr_table) \<and> released_sessions m' = [Some 7]"
  using handling_is_recorded [of empty_monitor 8 None "fst (addr_info_find_or_add None new_addr_table)" 1 False 7 1 3 real]
  by (simp add: empty_monitor_def addr_info_find_or_add_def new_addr_table_def addr_key_def)

section \<open>Sampling of the progress loop\<close>

text \<open>A call of \<^verbatim>\<open>HG_Progress\<close> with its timeout, the time before it and the time after it.\<close>

type_synonym progress_call = "u32 \<times> real \<times> real"

definition monitored_progress :: "progress_call \<Rightarrow> monitor \<Rightarrow> monitor" where
  "monitored_progress c m =
    (let (m, u) = on_progress (fst c) MARGO_MONITOR_FN_START (fst (snd c)) 0 m
     in fst (on_progress (fst c) MARGO_MONITOR_FN_END (snd (snd c)) u m))"

text \<open>Every \<open>n\<close>-th call of a list, when \<open>i\<close> calls were made before.\<close>

fun every_nth :: "nat \<Rightarrow> nat \<Rightarrow> 'a list \<Rightarrow> 'a list" where
  "every_nth n i [] = []"
| "every_nth n i (x # xs) = (if n dvd Suc i then x # every_nth n (Suc i) xs else every_nth n (Suc i) xs)"

lemma length_every_nth:
  assumes "n > 0" shows "length (every_nth n i xs) = (i + length xs) div n - i div n"
proof (induction xs arbitrary: i)
  case (Cons x xs)
  have "Suc i div n \<le> Suc (i + length xs) div n" by (rule div_le_mono) simp
  then show ?case using Cons [of "Suc i"] assms by (auto simp: div_Suc dvd_eq_mod_eq_0 Suc_diff_le)
qed simp

text \<open>The value of the counter after \<open>i\<close> calls.\<close>

definition sampling_after :: "nat \<Rightarrow> nat \<Rightarrow> nat" where
  "sampling_after n i = (if n dvd i then 0 else n - i mod n)"

lemma sampling_after_Suc:
  assumes "n > 0"
  shows "sampling_after n (Suc i) = (if sampling_after n i = 0 then n else sampling_after n i) - 1"
    and "sampling_after n i \<le> n" and "sampling_after n i = 0 \<longleftrightarrow> n dvd i"
proof -
  have "i mod n < n" using assms by simp
  then show "sampling_after n (Suc i) = (if sampling_after n i = 0 then n else sampling_after n i) - 1"
    and "sampling_after n i \<le> n" and "sampling_after n i = 0 \<longleftrightarrow> n dvd i"
    by (auto simp: sampling_after_def dvd_eq_mod_eq_0 mod_Suc split: if_splits)
qed

lemma of_nat_pred_u64:
  assumes "0 < k" shows "(of_nat k :: u64) - 1 = of_nat (k - 1)"
  using assms by (simp add: of_nat_diff)

lemma of_nat_u64_eq_0:
  assumes "k < 2 ^ 64" shows "(of_nat k :: u64) = 0 \<longleftrightarrow> k = 0"
  using assms by (auto simp: word_of_nat_eq_0_iff dest: dvd_imp_le)

definition sampled_stats :: "progress_call list \<Rightarrow> (stat_key \<Rightarrow> statistics) \<Rightarrow> stat_key \<Rightarrow> statistics" where
  "sampled_stats cs st =
    (let timed = filter (\<lambda>c. fst c \<noteq> 0) cs; polls = filter (\<lambda>c. fst c = 0) cs; duration = (\<lambda>c. snd (snd c) - fst (snd c))
     in st(Progress_with_timeout := fold update_statistics (map duration timed) (st Progress_with_timeout),
           Progress_timeout_value := fold update_statistics (map (\<lambda>c. real (unat (fst c))) timed) (st Progress_timeout_value),
           Progress_without_timeout := fold update_statistics (map duration polls) (st Progress_without_timeout)))"

definition sampling_state :: "nat \<Rightarrow> nat \<Rightarrow> monitor \<Rightarrow> bool" where
  "sampling_state n i m \<longleftrightarrow> enable_statistics m \<and> sample_progress_every m = int n \<and> progress_sampling m = of_nat (sampling_after n i)"

lemma monitored_progress_step:
  assumes "sampling_state n i m" "0 < n" "n < 2 ^ 31"
  shows "sampling_state n (Suc i) (monitored_progress c m)"
    and "stats (monitored_progress c m) = (if n dvd Suc i then sampled_stats [c] (stats m) else stats m)"
proof -
  let ?k = "if sampling_after n i = 0 then n else sampling_after n i"
  have k: "0 < ?k" "?k < 2 ^ 64" using assms sampling_after_Suc(2) [of n i] by (auto simp del: One_nat_def)
  have s: "sampling_after n (Suc i) = ?k - 1" using assms(2) by (rule sampling_after_Suc(1))
  have p0: "progress_sampling m = 0 \<longleftrightarrow> sampling_after n i = 0"
    using assms sampling_after_Suc(2) [of n i] of_nat_u64_eq_0 [of "sampling_after n i"] by (simp add: sampling_state_def)
  then have p: "(if progress_sampling m = 0 then of_int (sample_progress_every m) else progress_sampling m) - 1 = of_nat (?k - 1)"
    using assms(1) of_nat_pred_u64 [OF k(1)] by (cases "sampling_after n i = 0") (simp_all add: sampling_state_def)
  have z: "(of_nat (?k - 1) :: u64) = 0 \<longleftrightarrow> n dvd Suc i"
    using of_nat_u64_eq_0 [of "?k - 1"] k s sampling_after_Suc(3) [OF assms(2), of "Suc i"] by simp
  show "sampling_state n (Suc i) (monitored_progress c m)"
    and "stats (monitored_progress c m) = (if n dvd Suc i then sampled_stats [c] (stats m) else stats m)"
    using assms p z s by (simp_all add: sampling_state_def monitored_progress_def on_progress_def Let_def sampled_stats_def fun_eq_iff)
qed

lemma sampled_stats_Cons: "sampled_stats (c # cs) st = sampled_stats cs (sampled_stats [c] st)"
  by (simp add: sampled_stats_def Let_def fun_eq_iff)

lemma monitored_progress_fold:
  assumes "sampling_state n i m" "0 < n" "n < 2 ^ 31"
  shows "stats (fold monitored_progress cs m) = sampled_stats (every_nth n i cs) (stats m)"
  using assms
proof (induction cs arbitrary: i m)
  case Nil
  then show ?case by (simp add: sampled_stats_def fun_eq_iff)
next
  case (Cons c cs)
  note step = monitored_progress_step [OF Cons.prems, of c]
  show ?case using Cons.IH [OF step(1) Cons.prems(2,3)] step(2) sampled_stats_Cons [of c "every_nth n (Suc i) cs" "stats m"] by simp
qed

text \<open>
  The progress loop is sampled regularly. With \<^verbatim>\<open>sample_progress_every\<close> set to \<open>n\<close> and a new monitor, the statistics of any
  sequence of progress calls are those of exactly the calls number \<open>n\<close>, \<open>2n\<close>, \<open>3n\<close> and so on: their durations are recorded
  apart for calls with and without a timeout, together with the timeouts, and there are as many as the number of calls
  divided by \<open>n\<close>; nothing else is recorded.
\<close>

theorem progress_is_sampled:
  assumes "enable_statistics m" "sample_progress_every m = int n" "progress_sampling m = 0" "0 < n" "n < 2 ^ 31"
  shows "stats (fold monitored_progress cs m) = sampled_stats (every_nth n 0 cs) (stats m)
    \<and> length (every_nth n 0 cs) = length cs div n"
  using monitored_progress_fold [of n 0 m cs] length_every_nth [OF assms(4), of 0 cs] assms
  by (simp add: sampling_state_def sampling_after_def)

theorem progress_is_sampled_witness:
  "stats (fold monitored_progress [(0, 0, 1), (10, 2, 5), (7, 5, 6), (0, 8, 9), (0, 10, 11)] empty_monitor)
    = sampled_stats [(10, 2, 5), (0, 8, 9)] (\<lambda>_. zero_statistics)"
  using progress_is_sampled [of empty_monitor 2 "[(0, 0, 1), (10, 2, 5), (7, 5, 6), (0, 8, 9), (0, 10, 11)]"]
  by (simp add: empty_monitor_def)

section \<open>Configuration of the monitor\<close>

record monitor_config =
  filename_prefix :: string
  precision :: int
  stats_pretty_json :: bool
  time_series_pretty_json :: bool
  sampling_config :: int
  interval_config :: real
  statistics_enabled :: bool
  time_series_enabled :: bool

text \<open>The environment: the prefix of file names and whether the two variables that disable parts are set.\<close>

record monitor_env =
  MARGO_MONITORING_FILENAME_PREFIX :: "string option"
  MARGO_MONITORING_DISABLE_STATISTICS :: bool
  MARGO_MONITORING_DISABLE_TIME_SERIES :: bool

definition default_config :: "monitor_env \<Rightarrow> monitor_config" where
  "default_config env = \<lparr>
     filename_prefix = (case MARGO_MONITORING_FILENAME_PREFIX env of Some p \<Rightarrow> p | None \<Rightarrow> ''margo''),
     precision = 9, stats_pretty_json = False, time_series_pretty_json = False, sampling_config = 1, interval_config = 1,
     statistics_enabled = (\<not> MARGO_MONITORING_DISABLE_STATISTICS env), time_series_enabled = (\<not> MARGO_MONITORING_DISABLE_TIME_SERIES env)\<rparr>"

definition read_statistics_config :: "json option \<Rightarrow> monitor_config \<Rightarrow> monitor_config" where
  "read_statistics_config statistics c =
    (if \<not> is_type statistics json_type_object then c
     else let p = object_get_int_or statistics ''precision'' (precision c)
      in c\<lparr>statistics_enabled := (case object_get statistics ''disable'' of Some (JBool b) \<Rightarrow> \<not> b | _ \<Rightarrow> statistics_enabled c),
           precision := (if p > 9 then 9 else p),
           sampling_config := (case object_get statistics ''sample_progress_every'' of
               Some (JInt i) \<Rightarrow> (if get_int i \<le> 0 then 0 else get_int i) | _ \<Rightarrow> sampling_config c),
           stats_pretty_json := (stats_pretty_json c \<or> object_get_bool_or statistics ''pretty_json'' False)\<rparr>)"

definition read_time_series_config :: "json option \<Rightarrow> monitor_config \<Rightarrow> monitor_config" where
  "read_time_series_config series c =
    (if \<not> is_type series json_type_object then c
     else c\<lparr>time_series_enabled := (case object_get series ''disable'' of Some (JBool b) \<Rightarrow> \<not> b | _ \<Rightarrow> time_series_enabled c),
            precision := object_get_int_or series ''precision'' (precision c),
            interval_config := (case object_get series ''time_interval_sec'' of Some (JDouble d) \<Rightarrow> d | _ \<Rightarrow> interval_config c),
            time_series_pretty_json := (time_series_pretty_json c \<or> object_get_bool_or series ''pretty_json'' False)\<rparr>)"

definition monitor_read_config :: "monitor_env \<Rightarrow> json option \<Rightarrow> monitor_config" where
  "monitor_read_config env config =
    (let c = default_config env;
         c = c\<lparr>filename_prefix := object_get_string_or config ''filename_prefix'' (filename_prefix c)\<rparr>;
         c = read_statistics_config (object_get config ''statistics'') c
     in read_time_series_config (object_get config ''time_series'') c)"

definition monitor_config_to_json :: "monitor_config \<Rightarrow> json" where
  "monitor_config_to_json c = JObject
    [(''filename_prefix'', Some (JString (filename_prefix c))), (''precision'', Some (JInt (precision c))),
     (''statistics'', Some (JObject [(''pretty_json'', Some (JBool (stats_pretty_json c))), (''disable'', Some (JBool (\<not> statistics_enabled c)))])),
     (''time_series'', Some (JObject [(''pretty_json'', Some (JBool (stats_pretty_json c))), (''disable'', Some (JBool (\<not> time_series_enabled c))),
       (''time_interval_sec'', Some (JDouble (interval_config c)))]))]"

text \<open>
  The configuration that the monitor reports, read again in any environment, gives the same prefix, interval and
  enabled parts and the same layout of statistics. The precision and the sampling of the progress loop come back as
  their defaults, and the layout of time series as that of statistics.
\<close>

theorem monitor_config_read_back:
  "monitor_read_config env (Some (monitor_config_to_json c)) =
    c\<lparr>precision := 9, sampling_config := 1, time_series_pretty_json := stats_pretty_json c\<rparr>"
  by (simp add: monitor_read_config_def monitor_config_to_json_def read_statistics_config_def read_time_series_config_def
      default_config_def object_get_int_or_def object_get_string_or_def object_get_bool_or_def Let_def)

text \<open>
  The precision becomes one character of a format. It is limited to one digit when it is read for statistics, but not when
  it is read for time series.
\<close>

definition double_format :: "int \<Rightarrow> string" where
  "double_format prec = ''%.'' @ [char_of (48 + prec)] @ ''f''"

lemma statistics_precision_one_digit:
  assumes "is_type statistics json_type_object" shows "precision (read_statistics_config statistics c) \<le> 9"
  using assms by (simp add: read_statistics_config_def Let_def)

lemma time_series_precision_unlimited:
  "double_format (precision (monitor_read_config env (Some (JObject [(''time_series'', Some (JObject [(''precision'', Some (JInt 10))]))])))) = ''%.:f''"
  by (simp add: monitor_read_config_def read_statistics_config_def read_time_series_config_def default_config_def object_get_string_or_def
      object_get_int_or_def get_int_def double_format_def Let_def char_of_def bit_0 bit_Suc)

text \<open>An interval that is an integer is ignored: only the type \<^verbatim>\<open>double\<close> reaches the conversion of integers.\<close>

lemma integer_interval_ignored:
  "interval_config (monitor_read_config env (Some (JObject [(''time_series'', Some (JObject [(''time_interval_sec'', Some (JInt 5))]))]))) = 1"
  by (simp add: monitor_read_config_def read_statistics_config_def read_time_series_config_def default_config_def object_get_string_or_def Let_def)

end
