(* ===== verification/Monitor_Output.thy ===== *)
theory Monitor_Output
  imports Monitoring "HOL-Library.State_Monad"
begin

text \<open>
  The output of the default monitoring (\<^verbatim>\<open>src/margo-default-monitoring.c\<close>): statistics and time series as JSON, with the reset of
  what was printed, and the update of the time series of pools. A JSON object that is being built is its list of
  members; a nested object is changed in place. The statistics structures are the state of a monad,
  since printing may reset them. Host name, process id and command line are left out.
\<close>

section \<open>Objects\<close>

type_synonym object = "(string \<times> json option) list"

definition members :: "object \<Rightarrow> string \<Rightarrow> object" where
  "members obj key = (case map_of obj key of Some (Some (JObject kvs)) \<Rightarrow> kvs | _ \<Rightarrow> [])"

text \<open>
  \<^verbatim>\<open>json_object_object_get_or_create_object\<close> and a change \<open>f\<close> of the object that it returns: an object that is not there is
  added at the end, with the members \<open>new\<close>.
\<close>

fun at_object :: "string \<Rightarrow> object \<Rightarrow> (object \<Rightarrow> object) \<Rightarrow> object \<Rightarrow> object" where
  "at_object key new f [] = [(key, Some (JObject (f new)))]"
| "at_object key new f ((k, v) # obj) =
    (if k = key then (k, Some (JObject (f (members [(k, v)] k)))) # obj else (k, v) # at_object key new f obj)"

text \<open>\<^verbatim>\<open>json_object_object_add_ex\<close> with \<^verbatim>\<open>JSON_C_OBJECT_ADD_KEY_IS_NEW\<close> does not look for the key.\<close>

definition add_new :: "string \<Rightarrow> json option \<Rightarrow> object \<Rightarrow> object" where
  "add_new key v obj = obj @ [(key, v)]"

section \<open>Statistics\<close>

type_synonym 'a printer = "(stat_key \<Rightarrow> statistics, 'a) state"

definition print_stat :: "bool \<Rightarrow> stat_key \<Rightarrow> json option printer" where
  "print_stat reset k = State (\<lambda>st. let (j, s) = statistics_to_json reset (st k) in (j, st(k := s)))"

definition statistics_pair_to_json :: "bool \<Rightarrow> (stat_kind \<Rightarrow> stat_key) \<Rightarrow> string \<Rightarrow> string \<Rightarrow> object printer" where
  "statistics_pair_to_json reset k name1 name2 = do {
     a \<leftarrow> print_stat reset (k DURATION);
     b \<leftarrow> print_stat reset (k TIMESTAMP);
     State_Monad.return [(name1, a), (name2, b)]
   }"

definition hg_statistics_to_json :: "bool \<Rightarrow> object printer" where
  "hg_statistics_to_json reset = do {
     a \<leftarrow> print_stat reset Progress_with_timeout;
     b \<leftarrow> print_stat reset Progress_timeout_value;
     c \<leftarrow> print_stat reset Progress_without_timeout;
     d \<leftarrow> print_stat reset Trigger;
     State_Monad.return [(''progress_with_timeout'', a), (''progress_timeout_value_msec'', b), (''progress_without_timeout'', c), (''trigger'', d)]
   }"

definition bulk_create_statistics_to_json :: "bool \<Rightarrow> callpath \<Rightarrow> object printer" where
  "bulk_create_statistics_to_json reset cp = do {
     a \<leftarrow> print_stat reset (Bulk_create_duration cp);
     b \<leftarrow> print_stat reset (Bulk_create_size cp);
     State_Monad.return [(''duration'', a), (''size'', b)]
   }"

definition bulk_transfer_statistics_to_json :: "bool \<Rightarrow> bulk_key \<Rightarrow> object printer" where
  "bulk_transfer_statistics_to_json reset k = do {
     a \<leftarrow> print_stat reset (Transfer_duration k);
     b \<leftarrow> print_stat reset (Transfer_size k);
     c \<leftarrow> statistics_pair_to_json reset (\<lambda>i. Transfer_cb i k) ''duration'' ''relative_timestamp_from_itransfer_start'';
     d \<leftarrow> statistics_pair_to_json reset (\<lambda>i. Transfer_wait i k) ''duration'' ''relative_timestamp_from_itransfer_end'';
     State_Monad.return [(''itransfer'', Some (JObject [(''duration'', a), (''size'', b)])), (''transfer_cb'', Some (JObject c)),
       (''itransfer_wait'', Some (JObject d))]
   }"

definition origin_name :: "origin_op \<Rightarrow> string" where
  "origin_name op = (case op of O_forward \<Rightarrow> ''iforward'' | O_forward_cb \<Rightarrow> ''forward_cb'' | O_wait \<Rightarrow> ''iforward_wait''
     | O_set_input \<Rightarrow> ''set_input'' | O_get_output \<Rightarrow> ''get_output'')"

definition origin_reference :: "origin_op \<Rightarrow> string" where
  "origin_reference op = (case op of O_forward \<Rightarrow> ''relative_timestamp_from_create'' | O_forward_cb \<Rightarrow> ''relative_timestamp_from_iforward_start''
     | O_wait \<Rightarrow> ''relative_timestamp_from_iforward_end'' | O_set_input \<Rightarrow> ''relative_timestamp_from_iforward_start''
     | O_get_output \<Rightarrow> ''relative_timestamp_from_wait_end'')"

definition target_name :: "target_op \<Rightarrow> string" where
  "target_name op = (case op of T_handler \<Rightarrow> ''handler'' | T_ult \<Rightarrow> ''ult'' | T_respond \<Rightarrow> ''irespond'' | T_respond_cb \<Rightarrow> ''respond_cb''
     | T_wait \<Rightarrow> ''irespond_wait'' | T_set_output \<Rightarrow> ''set_output'' | T_get_input \<Rightarrow> ''get_input'')"

definition target_reference :: "target_op \<Rightarrow> string" where
  "target_reference op = (case op of T_handler \<Rightarrow> [] | T_ult \<Rightarrow> ''relative_timestamp_from_handler_start'' | T_respond \<Rightarrow> ''relative_timestamp_from_ult_start''
     | T_respond_cb \<Rightarrow> ''relative_timestamp_from_irespond_start'' | T_wait \<Rightarrow> ''relative_timestamp_from_irespond_end''
     | T_set_output \<Rightarrow> ''relative_timestamp_from_irespond_start'' | T_get_input \<Rightarrow> ''relative_timestamp_from_ult_start'')"

text \<open>The members are added in the order of the list.\<close>

primrec print_members :: "('a \<Rightarrow> string) \<Rightarrow> ('a \<Rightarrow> object printer) \<Rightarrow> 'a list \<Rightarrow> object printer" where
  "print_members name print [] = State_Monad.return []"
| "print_members name print (x # xs) = do {
     a \<leftarrow> print x;
     rest \<leftarrow> print_members name print xs;
     State_Monad.return ((name x, Some (JObject a)) # rest)
   }"

definition origin_rpc_statistics_to_json :: "bool \<Rightarrow> callpath \<Rightarrow> object printer" where
  "origin_rpc_statistics_to_json reset cp =
    print_members origin_name (\<lambda>op. statistics_pair_to_json reset (\<lambda>i. Origin op i cp) ''duration'' (origin_reference op))
      [O_forward, O_forward_cb, O_wait, O_set_input, O_get_output]"

definition target_rpc_statistics_to_json :: "bool \<Rightarrow> callpath \<Rightarrow> object printer" where
  "target_rpc_statistics_to_json reset cp = do {
     a \<leftarrow> print_stat reset (Target T_handler DURATION cp);
     rest \<leftarrow> print_members target_name (\<lambda>op. statistics_pair_to_json reset (\<lambda>i. Target op i cp) ''duration'' (target_reference op))
       [T_ult, T_respond, T_respond_cb, T_wait, T_set_output, T_get_input];
     State_Monad.return ((''handler'', Some (JObject [(''duration'', a)])) # rest)
   }"

section \<open>The whole state\<close>

definition build_rpc_key :: "callpath \<Rightarrow> string" where
  "build_rpc_key cp =
    (let (base_id, provider_id) = demux_id (cp_rpc_id cp);
         (parent_base_id, parent_provider_id) = demux_id (cp_parent_id cp)
     in show_nat (unat parent_base_id) @ '':'' @ show_nat (unat parent_provider_id) @ '':''
        @ show_nat (unat base_id) @ '':'' @ show_nat (unat provider_id))"

definition rpc_info_members :: "(u64 \<rightharpoonup> string) \<Rightarrow> callpath \<Rightarrow> object" where
  "rpc_info_members infos cp =
    (let (base_id, provider_id) = demux_id (cp_rpc_id cp);
         (parent_base_id, parent_provider_id) = demux_id (cp_parent_id cp)
     in [(''rpc_id'', Some (JInt (uint base_id))), (''provider_id'', Some (JInt (uint provider_id))),
         (''parent_rpc_id'', Some (JInt (uint parent_base_id))), (''parent_provider_id'', Some (JInt (uint parent_provider_id))),
         (''name'', Some (JString (case infos (cp_rpc_id cp) of Some name \<Rightarrow> name | None \<Rightarrow> [])))])"

definition addr_name :: "addr_table \<Rightarrow> u64 \<Rightarrow> string" where
  "addr_name t i = (case addr_info_find_by_id i t of Some name \<Rightarrow> name | None \<Rightarrow> ''<unknown>'')"

text \<open>The object of an RPC, with the members that identify it if it is new.\<close>

definition at_rpc :: "(u64 \<rightharpoonup> string) \<Rightarrow> callpath \<Rightarrow> (object \<Rightarrow> object) \<Rightarrow> object \<Rightarrow> object" where
  "at_rpc infos cp = at_object (build_rpc_key cp) (rpc_info_members infos cp)"

text \<open>\<^verbatim>\<open>HASH_ITER\<close>: for each entry its statistics are printed and added to the object.\<close>

primrec hash_iter :: "('a \<Rightarrow> object printer) \<Rightarrow> ('a \<Rightarrow> object \<Rightarrow> object \<Rightarrow> object) \<Rightarrow> 'a list \<Rightarrow> object \<Rightarrow> object printer" where
  "hash_iter print add [] rpcs = State_Monad.return rpcs"
| "hash_iter print add (x # xs) rpcs = do { s \<leftarrow> print x; hash_iter print add xs (add x s rpcs) }"

definition add_origin :: "(u64 \<rightharpoonup> string) \<Rightarrow> addr_table \<Rightarrow> callpath \<Rightarrow> object \<Rightarrow> object \<Rightarrow> object" where
  "add_origin infos t cp statistics =
    at_rpc infos cp (at_object ''origin'' [] (add_new (''sent to '' @ addr_name t (cp_addr_id cp)) (Some (JObject statistics))))"

definition add_target :: "(u64 \<rightharpoonup> string) \<Rightarrow> addr_table \<Rightarrow> callpath \<Rightarrow> object \<Rightarrow> object \<Rightarrow> object" where
  "add_target infos t cp statistics =
    at_rpc infos cp (at_object ''target'' [] (add_new (''received from '' @ addr_name t (cp_addr_id cp)) (Some (JObject statistics))))"

text \<open>The object of the bulk operations of a callpath.\<close>

definition at_bulk :: "(u64 \<rightharpoonup> string) \<Rightarrow> addr_table \<Rightarrow> callpath \<Rightarrow> (object \<Rightarrow> object) \<Rightarrow> object \<Rightarrow> object" where
  "at_bulk infos t cp f =
    at_rpc infos cp (at_object ''target'' [] (at_object (''received from '' @ addr_name t (cp_addr_id cp)) [] (at_object ''bulk'' [] f)))"

definition add_bulk_create :: "(u64 \<rightharpoonup> string) \<Rightarrow> addr_table \<Rightarrow> callpath \<Rightarrow> object \<Rightarrow> object \<Rightarrow> object" where
  "add_bulk_create infos t cp create = at_bulk infos t cp (add_new ''create'' (Some (JObject create)))"

definition transfer_name :: "addr_table \<Rightarrow> bulk_key \<Rightarrow> string" where
  "transfer_name t k = (if bk_operation k = HG_BULK_PULL then ''pull from '' else ''push to '') @ addr_name t (bk_remote_addr_id k)"

definition add_bulk_transfer :: "(u64 \<rightharpoonup> string) \<Rightarrow> addr_table \<Rightarrow> bulk_key \<Rightarrow> object \<Rightarrow> object \<Rightarrow> object" where
  "add_bulk_transfer infos t k statistics = at_bulk infos t (bk_callpath k) (add_new (transfer_name t k) (Some (JObject statistics)))"

definition print_statistics :: "bool \<Rightarrow> string \<Rightarrow> monitor \<Rightarrow> object printer" where
  "print_statistics reset self_addr_str m = do {
     progress \<leftarrow> hg_statistics_to_json reset;
     rpcs \<leftarrow> hash_iter (origin_rpc_statistics_to_json reset) (add_origin (rpc_infos m) (addr_infos m)) (origin_keys m) [];
     rpcs \<leftarrow> hash_iter (target_rpc_statistics_to_json reset) (add_target (rpc_infos m) (addr_infos m)) (target_keys m) rpcs;
     rpcs \<leftarrow> hash_iter (bulk_create_statistics_to_json reset) (add_bulk_create (rpc_infos m) (addr_infos m)) (bulk_create_keys m) rpcs;
     rpcs \<leftarrow> hash_iter (bulk_transfer_statistics_to_json reset) (add_bulk_transfer (rpc_infos m) (addr_infos m)) (bulk_transfer_keys m) rpcs;
     State_Monad.return [(''address'', Some (JString self_addr_str)), (''progress_loop'', Some (JObject progress)), (''rpcs'', Some (JObject rpcs))]
   }"

definition monitor_statistics_to_json :: "bool \<Rightarrow> string \<Rightarrow> monitor \<Rightarrow> object \<times> monitor" where
  "monitor_statistics_to_json reset self_addr_str m =
    (let (obj, st) = run_state (print_statistics reset self_addr_str m) (stats m) in (obj, m\<lparr>stats := st\<rparr>))"

section \<open>Printing and resetting\<close>

definition stat_json :: "statistics \<Rightarrow> json option" where
  "stat_json s = fst (statistics_to_json False s)"

definition reset_at :: "bool \<Rightarrow> stat_key set \<Rightarrow> (stat_key \<Rightarrow> statistics) \<Rightarrow> stat_key \<Rightarrow> statistics" where
  "reset_at reset K st k = (if reset \<and> k \<in> K then zero_statistics else st k)"

lemma reset_at_outside [simp]: "k \<notin> K \<Longrightarrow> reset_at reset K st k = st k"
  by (simp add: reset_at_def)

lemma reset_at_reset_at [simp]: "reset_at reset K (reset_at reset L st) = reset_at reset (K \<union> L) st"
  by (auto simp: reset_at_def fun_eq_iff)

lemma reset_at_empty [simp]: "reset_at reset {} st = st"
  by (simp add: fun_eq_iff)

lemma run_bind [simp]: "run_state (State_Monad.bind f g) st = (case run_state f st of (a, st') \<Rightarrow> run_state (g a) st')"
  by (simp add: State_Monad.bind_def Let_def split: prod.split)

lemma run_return [simp]: "run_state (State_Monad.return a) st = (a, st)"
  by (simp add: State_Monad.return_def)

lemma run_print_stat [simp]: "run_state (print_stat reset k) st = (stat_json (st k), reset_at reset {k} st)"
  by (auto simp: print_stat_def stat_json_def statistics_to_json_def reset_at_def fun_eq_iff)

text \<open>The objects that the printers make, and the keys of the structures in them.\<close>

definition pair_json :: "(stat_key \<Rightarrow> statistics) \<Rightarrow> (stat_kind \<Rightarrow> stat_key) \<Rightarrow> string \<Rightarrow> object" where
  "pair_json st k name2 = [(''duration'', stat_json (st (k DURATION))), (name2, stat_json (st (k TIMESTAMP)))]"

definition origin_json :: "(stat_key \<Rightarrow> statistics) \<Rightarrow> callpath \<Rightarrow> object" where
  "origin_json st cp = map (\<lambda>op. (origin_name op, Some (JObject (pair_json st (\<lambda>i. Origin op i cp) (origin_reference op)))))
     [O_forward, O_forward_cb, O_wait, O_set_input, O_get_output]"

definition target_json :: "(stat_key \<Rightarrow> statistics) \<Rightarrow> callpath \<Rightarrow> object" where
  "target_json st cp = (''handler'', Some (JObject [(''duration'', stat_json (st (Target T_handler DURATION cp)))])) #
     map (\<lambda>op. (target_name op, Some (JObject (pair_json st (\<lambda>i. Target op i cp) (target_reference op)))))
       [T_ult, T_respond, T_respond_cb, T_wait, T_set_output, T_get_input]"

definition create_json :: "(stat_key \<Rightarrow> statistics) \<Rightarrow> callpath \<Rightarrow> object" where
  "create_json st cp = [(''duration'', stat_json (st (Bulk_create_duration cp))), (''size'', stat_json (st (Bulk_create_size cp)))]"

definition transfer_json :: "(stat_key \<Rightarrow> statistics) \<Rightarrow> bulk_key \<Rightarrow> object" where
  "transfer_json st k =
    [(''itransfer'', Some (JObject [(''duration'', stat_json (st (Transfer_duration k))), (''size'', stat_json (st (Transfer_size k)))])),
     (''transfer_cb'', Some (JObject (pair_json st (\<lambda>i. Transfer_cb i k) ''relative_timestamp_from_itransfer_start''))),
     (''itransfer_wait'', Some (JObject (pair_json st (\<lambda>i. Transfer_wait i k) ''relative_timestamp_from_itransfer_end'')))]"

definition origin_stats_of :: "callpath \<Rightarrow> stat_key set" where
  "origin_stats_of cp = (\<Union>op \<in> {O_forward, O_forward_cb, O_wait, O_set_input, O_get_output}. {Origin op DURATION cp, Origin op TIMESTAMP cp})"

definition target_stats_of :: "callpath \<Rightarrow> stat_key set" where
  "target_stats_of cp = {Target T_handler DURATION cp} \<union>
     (\<Union>op \<in> {T_ult, T_respond, T_respond_cb, T_wait, T_set_output, T_get_input}. {Target op DURATION cp, Target op TIMESTAMP cp})"

definition create_stats_of :: "callpath \<Rightarrow> stat_key set" where
  "create_stats_of cp = {Bulk_create_duration cp, Bulk_create_size cp}"

definition transfer_stats_of :: "bulk_key \<Rightarrow> stat_key set" where
  "transfer_stats_of k = {Transfer_duration k, Transfer_size k, Transfer_cb DURATION k, Transfer_cb TIMESTAMP k,
     Transfer_wait DURATION k, Transfer_wait TIMESTAMP k}"

lemmas stats_of_defs = origin_stats_of_def target_stats_of_def create_stats_of_def transfer_stats_of_def

lemma run_pair:
  "k DURATION \<noteq> k TIMESTAMP \<Longrightarrow>
    run_state (statistics_pair_to_json reset k ''duration'' name2) st = (pair_json st k name2, reset_at reset {k DURATION, k TIMESTAMP} st)"
  by (simp add: statistics_pair_to_json_def pair_json_def insert_commute)

lemma run_to_reset:
  assumes "run_state p st = (a, reset_at reset K st)" "a = b" "K = L"
  shows "run_state p st = (b, reset_at reset L st)"
  using assms by simp

text \<open>
  A printer that can be iterated: it makes an object from the structures of its entry, resets exactly them, and is not
  affected by the reset of other entries.
\<close>

locale statistics_printer =
  fixes print :: "bool \<Rightarrow> 'a \<Rightarrow> object printer"
    and obj_of :: "(stat_key \<Rightarrow> statistics) \<Rightarrow> 'a \<Rightarrow> object"
    and stats_of :: "'a \<Rightarrow> stat_key set"
  assumes run: "run_state (print reset x) st = (obj_of st x, reset_at reset (stats_of x) st)"
    and indep: "x \<noteq> y \<Longrightarrow> obj_of (reset_at reset (stats_of x) st) y = obj_of st y"
begin

lemma run_hash_iter:
  assumes "distinct xs"
  shows "run_state (hash_iter (print reset) add xs rpcs) st
    = (fold (\<lambda>x. add x (obj_of st x)) xs rpcs, reset_at reset (\<Union>x \<in> set xs. stats_of x) st)"
  using assms
proof (induction xs arbitrary: rpcs st)
  case (Cons x xs)
  have "fold (\<lambda>y. add y (obj_of (reset_at reset (stats_of x) st) y)) xs o' = fold (\<lambda>y. add y (obj_of st y)) xs o'" for o'
    using Cons.prems by (intro fold_cong refl) (metis distinct.simps(2) indep)
  then show ?case using Cons by (simp add: run Un_commute)
qed simp

end

interpretation op: statistics_printer origin_rpc_statistics_to_json origin_json origin_stats_of
proof
  fix reset x y st
  show "run_state (origin_rpc_statistics_to_json reset x) st = (origin_json st x, reset_at reset (origin_stats_of x) st)"
    by (rule run_to_reset, simp add: origin_rpc_statistics_to_json_def run_pair)
      (auto simp: origin_json_def pair_json_def origin_stats_of_def)
  show "x \<noteq> y \<Longrightarrow> origin_json (reset_at reset (origin_stats_of x) st) y = origin_json st y"
    by (simp add: origin_json_def pair_json_def origin_stats_of_def)
qed

interpretation tp: statistics_printer target_rpc_statistics_to_json target_json target_stats_of
proof
  fix reset x y st
  show "run_state (target_rpc_statistics_to_json reset x) st = (target_json st x, reset_at reset (target_stats_of x) st)"
    by (rule run_to_reset, simp add: target_rpc_statistics_to_json_def run_pair)
      (auto simp: target_json_def pair_json_def target_stats_of_def)
  show "x \<noteq> y \<Longrightarrow> target_json (reset_at reset (target_stats_of x) st) y = target_json st y"
    by (simp add: target_json_def pair_json_def target_stats_of_def)
qed

interpretation cp: statistics_printer bulk_create_statistics_to_json create_json create_stats_of
proof
  fix reset x y st
  show "run_state (bulk_create_statistics_to_json reset x) st = (create_json st x, reset_at reset (create_stats_of x) st)"
    by (simp add: bulk_create_statistics_to_json_def create_json_def create_stats_of_def insert_commute)
  show "x \<noteq> y \<Longrightarrow> create_json (reset_at reset (create_stats_of x) st) y = create_json st y"
    by (simp add: create_json_def create_stats_of_def)
qed

interpretation bp: statistics_printer bulk_transfer_statistics_to_json transfer_json transfer_stats_of
proof
  fix reset x y st
  show "run_state (bulk_transfer_statistics_to_json reset x) st = (transfer_json st x, reset_at reset (transfer_stats_of x) st)"
    by (rule run_to_reset, simp add: bulk_transfer_statistics_to_json_def run_pair)
      (auto simp: transfer_json_def pair_json_def transfer_stats_of_def)
  show "x \<noteq> y \<Longrightarrow> transfer_json (reset_at reset (transfer_stats_of x) st) y = transfer_json st y"
    by (simp add: transfer_json_def pair_json_def transfer_stats_of_def)
qed

section \<open>Where the statistics are printed\<close>

lemma map_of_at_object:
  "map_of (at_object key new f obj) k =
    (if k = key then Some (Some (JObject (f (if map_of obj key = None then new else members obj key)))) else map_of obj k)"
  by (induction key new f obj rule: at_object.induct) (auto simp: members_def)

lemma members_at_object:
  "members (at_object key new f obj) k = (if k = key then f (if map_of obj key = None then new else members obj key) else members obj k)"
  by (simp add: members_def map_of_at_object)

lemma members_None: "map_of obj k = None \<Longrightarrow> members obj k = []"
  by (simp add: members_def)

lemma members_at_object_empty:
  "members (at_object key [] f obj) k = (if k = key then f (members obj key) else members obj k)"
  by (simp add: members_at_object members_None)

text \<open>A section of an RPC, and the object of the bulk operations of an RPC and an address.\<close>

definition rpc_section :: "object \<Rightarrow> string \<Rightarrow> string \<Rightarrow> object" where
  "rpc_section rpcs r s = members (members rpcs r) s"

definition bulk_section :: "object \<Rightarrow> string \<Rightarrow> string \<Rightarrow> object" where
  "bulk_section rpcs r a = members (members (rpc_section rpcs r ''target'') a) ''bulk''"

lemma members_rpc_info: "members (rpc_info_members infos cp) s = []"
  by (simp add: members_def rpc_info_members_def split: prod.split)

lemma rpc_section_at_rpc:
  "rpc_section (at_rpc infos cp (at_object s0 [] g) rpcs) r s =
    (if r = build_rpc_key cp \<and> s = s0 then g (rpc_section rpcs r s) else rpc_section rpcs r s)"
  by (auto simp: rpc_section_def at_rpc_def members_at_object members_at_object_empty members_rpc_info members_None)

lemma fold_append:
  assumes "\<And>x obj. V (add x obj) = V obj @ (if P x then [e x] else [])"
  shows "V (fold add xs obj) = V obj @ map e (filter P xs)"
  using assms by (induction xs arbitrary: obj) auto

lemma rpc_section_origin:
  "rpc_section (fold (\<lambda>x. add_origin infos t x (j x)) cps rpcs) r s = rpc_section rpcs r s @
    map (\<lambda>cp. (''sent to '' @ addr_name t (cp_addr_id cp), Some (JObject (j cp)))) (filter (\<lambda>cp. build_rpc_key cp = r \<and> s = ''origin'') cps)"
  by (rule fold_append) (auto simp: add_origin_def rpc_section_at_rpc add_new_def)

lemma rpc_section_target:
  "rpc_section (fold (\<lambda>x. add_target infos t x (j x)) cps rpcs) r s = rpc_section rpcs r s @
    map (\<lambda>cp. (''received from '' @ addr_name t (cp_addr_id cp), Some (JObject (j cp)))) (filter (\<lambda>cp. build_rpc_key cp = r \<and> s = ''target'') cps)"
  by (rule fold_append) (auto simp: add_target_def rpc_section_at_rpc add_new_def)

lemma at_bulk_frame:
  "rpc_section (at_bulk infos t cp f rpcs) r ''origin'' = rpc_section rpcs r ''origin''"
  "k \<noteq> ''bulk'' \<Longrightarrow> map_of (members (rpc_section (at_bulk infos t cp f rpcs) r ''target'') a) k
    = map_of (members (rpc_section rpcs r ''target'') a) k"
  by (simp_all add: at_bulk_def rpc_section_at_rpc members_at_object_empty map_of_at_object)

lemma bulk_section_at_bulk:
  "bulk_section (at_bulk infos t cp f rpcs) r a =
    (if r = build_rpc_key cp \<and> a = ''received from '' @ addr_name t (cp_addr_id cp) then f (bulk_section rpcs r a) else bulk_section rpcs r a)"
  by (simp add: bulk_section_def at_bulk_def rpc_section_at_rpc members_at_object_empty)

lemma bulk_section_create:
  "bulk_section (fold (\<lambda>x. add_bulk_create infos t x (j x)) cps rpcs) r a = bulk_section rpcs r a @
    map (\<lambda>cp. (''create'', Some (JObject (j cp)))) (filter (\<lambda>cp. build_rpc_key cp = r \<and> a = ''received from '' @ addr_name t (cp_addr_id cp)) cps)"
  by (rule fold_append) (auto simp: add_bulk_create_def bulk_section_at_bulk add_new_def)

lemma bulk_section_transfer:
  "bulk_section (fold (\<lambda>x. add_bulk_transfer infos t x (j x)) ks rpcs) r a = bulk_section rpcs r a @
    map (\<lambda>k. (transfer_name t k, Some (JObject (j k))))
      (filter (\<lambda>k. build_rpc_key (bk_callpath k) = r \<and> a = ''received from '' @ addr_name t (cp_addr_id (bk_callpath k))) ks)"
  by (rule fold_append) (auto simp: add_bulk_transfer_def bulk_section_at_bulk add_new_def)

lemma bulk_create_frame:
  "rpc_section (fold (\<lambda>x. add_bulk_create infos t x (j x)) cps rpcs) r ''origin'' = rpc_section rpcs r ''origin''"
  "k \<noteq> ''bulk'' \<Longrightarrow> map_of (members (rpc_section (fold (\<lambda>x. add_bulk_create infos t x (j x)) cps rpcs) r ''target'') a) k
    = map_of (members (rpc_section rpcs r ''target'') a) k"
  by (induction cps arbitrary: rpcs) (simp_all add: add_bulk_create_def at_bulk_frame)

lemma bulk_transfer_frame:
  "rpc_section (fold (\<lambda>x. add_bulk_transfer infos t x (j x)) ks rpcs) r ''origin'' = rpc_section rpcs r ''origin''"
  "k \<noteq> ''bulk'' \<Longrightarrow> map_of (members (rpc_section (fold (\<lambda>x. add_bulk_transfer infos t x (j x)) ks rpcs) r ''target'') a) k
    = map_of (members (rpc_section rpcs r ''target'') a) k"
  by (induction ks arbitrary: rpcs) (simp_all add: add_bulk_transfer_def at_bulk_frame)

lemma map_of_map_unique:
  assumes "x \<in> set xs" "\<And>y. y \<in> set xs \<Longrightarrow> name y = name x \<Longrightarrow> y = x"
  shows "map_of (map (\<lambda>y. (name y, v y)) xs) (name x) = Some (v x)"
  using assms by (induction xs) fastforce+

section \<open>Keys of RPCs\<close>

lemma show_nat_no_colon: "CHR '':'' \<notin> set (show_nat n)"
proof (induction n rule: less_induct)
  case (less n)
  have "(char_of (48 + n mod 10) :: char) \<noteq> CHR '':''"
  proof
    assume "(char_of (48 + n mod 10) :: char) = CHR '':''"
    then have "(of_char (char_of (48 + n mod 10) :: char) :: nat) = of_char CHR '':''" by simp
    moreover have "48 + n mod 10 < 58" by simp
    ultimately show False by (simp add: of_char_of)
  qed
  then show ?case using less [of "n div 10"] by (subst show_nat.simps) auto
qed

lemma colon_split:
  assumes "CHR '':'' \<notin> set xs" "CHR '':'' \<notin> set xs'"
  shows "xs @ CHR '':'' # ys = xs' @ CHR '':'' # ys' \<longleftrightarrow> xs = xs' \<and> ys = ys'"
  using assms by (auto simp: append_eq_append_conv2 append_eq_Cons_conv Cons_eq_append_conv)

lemma demux_id_inj: "demux_id i = demux_id j \<Longrightarrow> i = j"
  using demux_mux_id [of i] demux_mux_id [of j] by (auto split: prod.splits)

lemma build_rpc_key_inj:
  "build_rpc_key cp = build_rpc_key cp' \<longleftrightarrow> cp_rpc_id cp = cp_rpc_id cp' \<and> cp_parent_id cp = cp_parent_id cp'"
proof
  assume "build_rpc_key cp = build_rpc_key cp'"
  then have "demux_id (cp_rpc_id cp) = demux_id (cp_rpc_id cp')" "demux_id (cp_parent_id cp) = demux_id (cp_parent_id cp')"
    by (auto simp: build_rpc_key_def colon_split show_nat_no_colon word_unat_eq_iff split: prod.splits dest!: show_nat_inj)
  then show "cp_rpc_id cp = cp_rpc_id cp' \<and> cp_parent_id cp = cp_parent_id cp'" using demux_id_inj by blast
qed (simp add: build_rpc_key_def)

section \<open>The output is complete\<close>

text \<open>The members that lead to a statistics structure in the output, and the structures that are printed.\<close>

definition json_path :: "json option \<Rightarrow> string list \<Rightarrow> json option" where
  "json_path j p = foldl object_get j p"

definition target_path :: "addr_table \<Rightarrow> callpath \<Rightarrow> string list" where
  "target_path t cp = [''rpcs'', build_rpc_key cp, ''target'', ''received from '' @ addr_name t (cp_addr_id cp)]"

fun stat_path :: "addr_table \<Rightarrow> stat_key \<Rightarrow> string list" where
  "stat_path t Progress_with_timeout = [''progress_loop'', ''progress_with_timeout'']"
| "stat_path t Progress_timeout_value = [''progress_loop'', ''progress_timeout_value_msec'']"
| "stat_path t Progress_without_timeout = [''progress_loop'', ''progress_without_timeout'']"
| "stat_path t Trigger = [''progress_loop'', ''trigger'']"
| "stat_path t (Origin op i cp) = [''rpcs'', build_rpc_key cp, ''origin'', ''sent to '' @ addr_name t (cp_addr_id cp), origin_name op,
     if i = DURATION then ''duration'' else origin_reference op]"
| "stat_path t (Target op i cp) = target_path t cp @ [target_name op, if i = DURATION then ''duration'' else target_reference op]"
| "stat_path t (Bulk_create_duration cp) = target_path t cp @ [''bulk'', ''create'', ''duration'']"
| "stat_path t (Bulk_create_size cp) = target_path t cp @ [''bulk'', ''create'', ''size'']"
| "stat_path t (Transfer_duration k) = target_path t (bk_callpath k) @ [''bulk'', transfer_name t k, ''itransfer'', ''duration'']"
| "stat_path t (Transfer_size k) = target_path t (bk_callpath k) @ [''bulk'', transfer_name t k, ''itransfer'', ''size'']"
| "stat_path t (Transfer_cb i k) = target_path t (bk_callpath k) @ [''bulk'', transfer_name t k, ''transfer_cb'',
     if i = DURATION then ''duration'' else ''relative_timestamp_from_itransfer_start'']"
| "stat_path t (Transfer_wait i k) = target_path t (bk_callpath k) @ [''bulk'', transfer_name t k, ''itransfer_wait'',
     if i = DURATION then ''duration'' else ''relative_timestamp_from_itransfer_end'']"

definition printed :: "monitor \<Rightarrow> stat_key set" where
  "printed m = {Progress_with_timeout, Progress_timeout_value, Progress_without_timeout, Trigger}
     \<union> (\<Union>cp \<in> set (origin_keys m). origin_stats_of cp) \<union> (\<Union>cp \<in> set (target_keys m). target_stats_of cp)
     \<union> (\<Union>cp \<in> set (bulk_create_keys m). create_stats_of cp) \<union> (\<Union>k \<in> set (bulk_transfer_keys m). transfer_stats_of k)"

text \<open>Entries of a hash table differ in what the output shows of them.\<close>

definition shown :: "addr_table \<Rightarrow> callpath \<Rightarrow> u64 \<times> u64 \<times> string" where
  "shown t cp = (cp_rpc_id cp, cp_parent_id cp, addr_name t (cp_addr_id cp))"

definition entries_differ :: "monitor \<Rightarrow> bool" where
  "entries_differ m \<longleftrightarrow> distinct (map (shown (addr_infos m)) (origin_keys m)) \<and> distinct (map (shown (addr_infos m)) (target_keys m))
     \<and> distinct (map (shown (addr_infos m)) (bulk_create_keys m))
     \<and> distinct (map (\<lambda>k. (shown (addr_infos m) (bk_callpath k), transfer_name (addr_infos m) k)) (bulk_transfer_keys m))"

lemma json_path_step:
  "json_path (Some (JObject obj)) (k # k' # ks) = json_path (Some (JObject (members obj k))) (k' # ks)"
  by (auto simp: json_path_def object_get_def members_def split: option.split json.split)

lemma json_path_last: "map_of obj k = Some v \<Longrightarrow> json_path (Some (JObject obj)) [k] = v"
  by (simp add: json_path_def object_get_def)

lemma members_Some: "map_of obj k = Some (Some (JObject kvs)) \<Longrightarrow> members obj k = kvs"
  by (simp add: members_def)

lemma distinct_map_unique: "distinct (map f xs) \<Longrightarrow> x \<in> set xs \<Longrightarrow> y \<in> set xs \<Longrightarrow> f y = f x \<Longrightarrow> y = x"
  by (auto simp: distinct_map inj_on_def)

lemma map_of_filter_unique:
  assumes "distinct (map f xs)" "x \<in> set xs" "P x" "\<And>y. y \<in> set xs \<Longrightarrow> P y \<Longrightarrow> name y = name x \<Longrightarrow> f y = f x"
  shows "map_of (map (\<lambda>y. (name y, v y)) (filter P xs)) (name x) = Some (v x)"
proof (rule map_of_map_unique)
  show "x \<in> set (filter P xs)" using assms(2,3) by simp
  fix y assume "y \<in> set (filter P xs)" "name y = name x"
  then have "y \<in> set xs" "f y = f x" using assms(4) by auto
  then show "y = x" using distinct_map_unique [OF assms(1) assms(2)] by blast
qed

text \<open>The sections of the output.\<close>

definition rpcs_of :: "(stat_key \<Rightarrow> statistics) \<Rightarrow> monitor \<Rightarrow> object" where
  "rpcs_of st m = fold (\<lambda>k. add_bulk_transfer (rpc_infos m) (addr_infos m) k (transfer_json st k)) (bulk_transfer_keys m)
     (fold (\<lambda>cp. add_bulk_create (rpc_infos m) (addr_infos m) cp (create_json st cp)) (bulk_create_keys m)
       (fold (\<lambda>cp. add_target (rpc_infos m) (addr_infos m) cp (target_json st cp)) (target_keys m)
         (fold (\<lambda>cp. add_origin (rpc_infos m) (addr_infos m) cp (origin_json st cp)) (origin_keys m) [])))"

lemma section_empty [simp]: "rpc_section [] r s = []" "bulk_section [] r a = []"
  by (simp_all add: rpc_section_def bulk_section_def members_def)

lemma origin_entry:
  assumes "entries_differ m" "cp \<in> set (origin_keys m)"
  shows "members (rpc_section (rpcs_of st m) (build_rpc_key cp) ''origin'') (''sent to '' @ addr_name (addr_infos m) (cp_addr_id cp)) = origin_json st cp"
proof (rule members_Some)
  let ?name = "\<lambda>cp. ''sent to '' @ addr_name (addr_infos m) (cp_addr_id cp)"
  have "map_of (map (\<lambda>y. (?name y, Some (JObject (origin_json st y)))) (filter (\<lambda>y. build_rpc_key y = build_rpc_key cp) (origin_keys m))) (?name cp)
      = Some (Some (JObject (origin_json st cp)))"
    by (rule map_of_filter_unique [where f = "shown (addr_infos m)"]) (use assms in \<open>auto simp: entries_differ_def shown_def build_rpc_key_inj\<close>)
  then show "map_of (rpc_section (rpcs_of st m) (build_rpc_key cp) ''origin'') (?name cp) = Some (Some (JObject (origin_json st cp)))"
    by (simp add: rpcs_of_def bulk_create_frame bulk_transfer_frame rpc_section_target rpc_section_origin)
qed

lemma target_entry:
  assumes "entries_differ m" "cp \<in> set (target_keys m)" "k \<noteq> ''bulk''"
  shows "map_of (members (rpc_section (rpcs_of st m) (build_rpc_key cp) ''target'') (''received from '' @ addr_name (addr_infos m) (cp_addr_id cp))) k
    = map_of (target_json st cp) k"
proof -
  let ?name = "\<lambda>cp. ''received from '' @ addr_name (addr_infos m) (cp_addr_id cp)"
  have "map_of (map (\<lambda>y. (?name y, Some (JObject (target_json st y)))) (filter (\<lambda>y. build_rpc_key y = build_rpc_key cp) (target_keys m))) (?name cp)
      = Some (Some (JObject (target_json st cp)))"
    by (rule map_of_filter_unique [where f = "shown (addr_infos m)"]) (use assms in \<open>auto simp: entries_differ_def shown_def build_rpc_key_inj\<close>)
  then show ?thesis using assms(3)
    by (simp add: rpcs_of_def bulk_create_frame bulk_transfer_frame rpc_section_target rpc_section_origin members_Some)
qed

lemma bulk_section_before: "bulk_section (fold (\<lambda>cp. add_target infos t cp (target_json st cp)) cps
    (fold (\<lambda>cp. add_origin infos t cp (origin_json st cp)) ops [])) r a = []"
proof -
  have "members (target_json st cp) ''bulk'' = []" for cp by (simp add: target_json_def members_def target_name_def)
  then have "members (members (map (\<lambda>y. (name y, Some (JObject (target_json st y)))) xs) a) ''bulk'' = []" for name xs
    by (induction xs) (auto simp: members_def)
  then show ?thesis by (simp add: bulk_section_def rpc_section_target rpc_section_origin)
qed

lemma transfer_name_not_create: "transfer_name t k \<noteq> ''create''"
  by (auto simp: transfer_name_def)

lemma create_entry:
  assumes "entries_differ m" "cp \<in> set (bulk_create_keys m)"
  shows "map_of (bulk_section (rpcs_of st m) (build_rpc_key cp) (''received from '' @ addr_name (addr_infos m) (cp_addr_id cp))) ''create''
    = Some (Some (JObject (create_json st cp)))"
proof -
  let ?P = "\<lambda>y. build_rpc_key y = build_rpc_key cp \<and> ''received from '' @ addr_name (addr_infos m) (cp_addr_id cp) = ''received from '' @ addr_name (addr_infos m) (cp_addr_id y)"
  have "map_of (map (\<lambda>y. (''create'', Some (JObject (create_json st y)))) (filter ?P (bulk_create_keys m))) ''create'' = Some (Some (JObject (create_json st cp)))"
    by (rule map_of_filter_unique [where f = "shown (addr_infos m)" and name = "\<lambda>_. ''create''"])
      (use assms in \<open>auto simp: entries_differ_def shown_def build_rpc_key_inj\<close>)
  then show ?thesis by (simp add: rpcs_of_def bulk_section_create bulk_section_transfer bulk_section_before map_add_def)
qed

lemma transfer_entry:
  assumes "entries_differ m" "k \<in> set (bulk_transfer_keys m)"
  shows "map_of (bulk_section (rpcs_of st m) (build_rpc_key (bk_callpath k)) (''received from '' @ addr_name (addr_infos m) (cp_addr_id (bk_callpath k))))
    (transfer_name (addr_infos m) k) = Some (Some (JObject (transfer_json st k)))"
proof -
  let ?a = "\<lambda>y. ''received from '' @ addr_name (addr_infos m) (cp_addr_id (bk_callpath y))"
  let ?P = "\<lambda>y. build_rpc_key (bk_callpath y) = build_rpc_key (bk_callpath k) \<and> ?a k = ?a y"
  have "map_of (map (\<lambda>y. (transfer_name (addr_infos m) y, Some (JObject (transfer_json st y)))) (filter ?P (bulk_transfer_keys m))) (transfer_name (addr_infos m) k)
      = Some (Some (JObject (transfer_json st k)))"
    by (rule map_of_filter_unique [where f = "\<lambda>k. (shown (addr_infos m) (bk_callpath k), transfer_name (addr_infos m) k)"])
      (use assms in \<open>auto simp: entries_differ_def shown_def build_rpc_key_inj\<close>)
  moreover have "map_of (map (\<lambda>y. (''create'', v y)) ys) (transfer_name (addr_infos m) k) = None" for v :: "callpath \<Rightarrow> json option" and ys
    using transfer_name_not_create [of "addr_infos m" k] by (induction ys) auto
  ultimately show ?thesis by (simp add: rpcs_of_def bulk_section_create bulk_section_transfer bulk_section_before map_add_def)
qed

definition hg_json :: "(stat_key \<Rightarrow> statistics) \<Rightarrow> object" where
  "hg_json st = [(''progress_with_timeout'', stat_json (st Progress_with_timeout)), (''progress_timeout_value_msec'', stat_json (st Progress_timeout_value)),
     (''progress_without_timeout'', stat_json (st Progress_without_timeout)), (''trigger'', stat_json (st Trigger))]"

lemma json_reset_disjoint:
  "K \<inter> origin_stats_of cp = {} \<Longrightarrow> origin_json (reset_at reset K st) cp = origin_json st cp"
  "K \<inter> target_stats_of cp = {} \<Longrightarrow> target_json (reset_at reset K st) cp = target_json st cp"
  "K \<inter> create_stats_of cp = {} \<Longrightarrow> create_json (reset_at reset K st) cp = create_json st cp"
  "K \<inter> transfer_stats_of k = {} \<Longrightarrow> transfer_json (reset_at reset K st) k = transfer_json st k"
  by (auto simp: stats_of_defs origin_json_def target_json_def create_json_def transfer_json_def pair_json_def)

lemma run_print_statistics:
  assumes "entries_differ m"
  shows "run_state (print_statistics reset self m) st =
    ([(''address'', Some (JString self)), (''progress_loop'', Some (JObject (hg_json st))), (''rpcs'', Some (JObject (rpcs_of st m)))],
     reset_at reset (printed m) st)"
proof -
  have d: "distinct (origin_keys m)" "distinct (target_keys m)" "distinct (bulk_create_keys m)" "distinct (bulk_transfer_keys m)"
    using assms by (auto simp: entries_differ_def distinct_map)
  define H where "H = {Progress_with_timeout, Progress_timeout_value, Progress_without_timeout, Trigger}"
  define Os where "Os = (\<Union>cp \<in> set (origin_keys m). origin_stats_of cp)"
  define Ts where "Ts = (\<Union>cp \<in> set (target_keys m). target_stats_of cp)"
  define Cs where "Cs = (\<Union>cp \<in> set (bulk_create_keys m). create_stats_of cp)"
  define Bs where "Bs = (\<Union>k \<in> set (bulk_transfer_keys m). transfer_stats_of k)"
  have h: "run_state (hg_statistics_to_json reset) st = (hg_json st, reset_at reset H st)"
    by (rule run_to_reset, simp add: hg_statistics_to_json_def) (auto simp: hg_json_def H_def)
  have o: "H \<inter> origin_stats_of cp = {}" and t: "(Os \<union> H) \<inter> target_stats_of cp = {}"
    and c: "(Ts \<union> Os \<union> H) \<inter> create_stats_of cp = {}" and b: "(Cs \<union> Ts \<union> Os \<union> H) \<inter> transfer_stats_of k = {}" for cp k
    by (auto simp: stats_of_defs H_def Os_def Ts_def Cs_def)
  have "Bs \<union> Cs \<union> Ts \<union> Os \<union> H = printed m" by (auto simp: printed_def H_def Os_def Ts_def Cs_def Bs_def)
  then show ?thesis
    by (simp add: print_statistics_def h op.run_hash_iter [OF d(1), folded Os_def] tp.run_hash_iter [OF d(2), folded Ts_def]
        cp.run_hash_iter [OF d(3), folded Cs_def] bp.run_hash_iter [OF d(4), folded Bs_def]
        json_reset_disjoint(1) [OF o] json_reset_disjoint(2) [OF t] json_reset_disjoint(3) [OF c] json_reset_disjoint(4) [OF b] rpcs_of_def)
qed

lemma members_path:
  "json_path (Some (JObject obj)) (''rpcs'' # r # s # a # k # ks) =
    json_path (Some (JObject (members (rpc_section (members obj ''rpcs'') r s) a))) (k # ks)"
  by (simp add: json_path_step rpc_section_def)

text \<open>
  The output of the statistics is complete and the reset is exact. When entries of the same hash table differ in what
  is shown of them (the ids of the RPC and its parent, and the names of the addresses), every statistics
  structure of the monitor is found in the JSON output at the members that name its RPC, its role, its address and its
  operation; and after the output exactly the structures that were printed are zero if a reset was
  asked for, and nothing has changed otherwise.
\<close>

theorem statistics_output_complete:
  assumes "entries_differ m" "monitor_statistics_to_json reset self m = (out, m')"
  shows "(\<forall>k \<in> printed m. json_path (Some (JObject out)) (stat_path (addr_infos m) k) = stat_json (stats m k))
    \<and> m' = m\<lparr>stats := \<lambda>k. if reset \<and> k \<in> printed m then zero_statistics else stats m k\<rparr>"
proof
  let ?st = "stats m" and ?t = "addr_infos m" and ?rpcs = "rpcs_of (stats m) m"
  have out: "out = [(''address'', Some (JString self)), (''progress_loop'', Some (JObject (hg_json ?st))), (''rpcs'', Some (JObject ?rpcs))]"
    and m': "m' = m\<lparr>stats := reset_at reset (printed m) ?st\<rparr>"
    using assms(2) by (auto simp: monitor_statistics_to_json_def run_print_statistics [OF assms(1)])
  have rp: "members out ''rpcs'' = ?rpcs" "members out ''progress_loop'' = hg_json ?st" by (simp_all add: out members_def)
  note read = json_path_step json_path_last members_path rp members_Some
  show "\<forall>k \<in> printed m. json_path (Some (JObject out)) (stat_path ?t k) = stat_json (?st k)"
  proof
    fix k assume "k \<in> printed m"
    then consider "k \<in> {Progress_with_timeout, Progress_timeout_value, Progress_without_timeout, Trigger}"
      | cp where "cp \<in> set (origin_keys m)" "k \<in> origin_stats_of cp"
      | cp where "cp \<in> set (target_keys m)" "k \<in> target_stats_of cp"
      | cp where "cp \<in> set (bulk_create_keys m)" "k \<in> create_stats_of cp"
      | bk where "bk \<in> set (bulk_transfer_keys m)" "k \<in> transfer_stats_of bk" unfolding printed_def by blast
    then show "json_path (Some (JObject out)) (stat_path ?t k) = stat_json (?st k)"
    proof cases
      case 1
      then show ?thesis by (auto simp: read hg_json_def)
    next
      case 2
      have "json_path (Some (JObject (origin_json ?st cp))) [origin_name op, if i = DURATION then ''duration'' else origin_reference op] = stat_json (?st (Origin op i cp))" for op i
        by (cases op; cases i) (simp_all add: read origin_json_def members_def pair_json_def origin_name_def origin_reference_def)
      moreover obtain op i where "k = Origin op i cp" using 2(2) by (auto simp: origin_stats_of_def)
      ultimately show ?thesis using origin_entry [OF assms(1) 2(1), of ?st] by (simp only: stat_path.simps members_path rp)
    next
      case 3
      let ?e = "members (rpc_section ?rpcs (build_rpc_key cp) ''target'') (''received from '' @ addr_name ?t (cp_addr_id cp))"
      have e: "j \<noteq> ''bulk'' \<Longrightarrow> map_of ?e j = map_of (target_json ?st cp) j" for j using target_entry [OF assms(1) 3(1)] .
      have "json_path (Some (JObject ?e)) [target_name op, if i = DURATION then ''duration'' else target_reference op] = stat_json (?st (Target op i cp))"
        if "op = T_handler \<longrightarrow> i = DURATION" for op i
      proof -
        have "target_name op \<noteq> ''bulk''" by (cases op) (simp_all add: target_name_def)
        then have "members ?e (target_name op) = members (target_json ?st cp) (target_name op)" using e by (simp add: members_def)
        then show ?thesis using that
          by (cases op; cases i) (simp_all add: read target_json_def members_def pair_json_def target_name_def target_reference_def)
      qed
      moreover obtain op i where "k = Target op i cp" "op = T_handler \<longrightarrow> i = DURATION" using 3(2) by (auto simp: target_stats_of_def)
      ultimately show ?thesis by (simp only: stat_path.simps target_path_def append_Cons append_Nil members_path rp)
    next
      case 4
      let ?e = "members (rpc_section ?rpcs (build_rpc_key cp) ''target'') (''received from '' @ addr_name ?t (cp_addr_id cp))"
      have "members (members ?e ''bulk'') ''create'' = create_json ?st cp"
        using create_entry [OF assms(1) 4(1), of ?st] by (simp add: bulk_section_def members_Some)
      then show ?thesis using 4 by (auto simp: json_path_step json_path_last rpc_section_def rp create_stats_of_def target_path_def create_json_def)
    next
      case 5
      let ?e = "members (rpc_section ?rpcs (build_rpc_key (bk_callpath bk)) ''target'') (''received from '' @ addr_name ?t (cp_addr_id (bk_callpath bk)))"
      have "members (members ?e ''bulk'') (transfer_name ?t bk) = transfer_json ?st bk"
        using transfer_entry [OF assms(1) 5(1), of ?st] by (simp add: bulk_section_def members_Some)
      moreover have "members (transfer_json ?st bk) ''itransfer'' = [(''duration'', stat_json (?st (Transfer_duration bk))), (''size'', stat_json (?st (Transfer_size bk)))]"
        "members (transfer_json ?st bk) ''transfer_cb'' = pair_json ?st (\<lambda>i. Transfer_cb i bk) ''relative_timestamp_from_itransfer_start''"
        "members (transfer_json ?st bk) ''itransfer_wait'' = pair_json ?st (\<lambda>i. Transfer_wait i bk) ''relative_timestamp_from_itransfer_end''"
        by (simp_all add: transfer_json_def members_def)
      ultimately show ?thesis using 5 by (auto simp: json_path_step json_path_last rpc_section_def rp transfer_stats_of_def target_path_def pair_json_def)
    qed
  qed
  show "m' = m\<lparr>stats := \<lambda>k. if reset \<and> k \<in> printed m then zero_statistics else stats m k\<rparr>"
    unfolding m' by (simp add: reset_at_def fun_eq_iff)
qed

lemma addr_name_inj:
  assumes "addr_inv t n" "addr_info_find_by_id i t \<noteq> None" "addr_info_find_by_id j t \<noteq> None" "addr_name t i = addr_name t j"
  shows "i = j"
proof -
  obtain s where "addr_by_id t i = Some s" "addr_by_id t j = Some s"
    using assms(2-4) by (auto simp: addr_info_find_by_id_def addr_name_def)
  then show ?thesis using assms(1) unfolding addr_inv_def by (metis option.inject)
qed

text \<open>Entries whose addresses are in the table differ in what is shown.\<close>

lemma known_entries_differ:
  assumes "addr_inv t n" "distinct cps" "\<forall>cp \<in> set cps. addr_info_find_by_id (cp_addr_id cp) t \<noteq> None"
  shows "distinct (map (shown t) cps)"
  using assms addr_name_inj [OF assms(1)] by (auto simp: distinct_map inj_on_def shown_def intro: callpath.equality)

definition example_monitor :: monitor where
  "example_monitor = the (monitored_handling False 9 10 5 (Some ''na+sm'') 3 real
     (the (monitored_forward True 7 8 1 2 (Some ''ofi'') 3 real empty_monitor)))"

lemma example_monitor_keys:
  "origin_keys example_monitor = [\<lparr>cp_rpc_id = mux_id 1 2, cp_parent_id = 3, cp_addr_id = 1\<rparr>] \<and>
   target_keys example_monitor = [\<lparr>cp_rpc_id = 5, cp_parent_id = 3, cp_addr_id = 2\<rparr>] \<and>
   bulk_create_keys example_monitor = [] \<and> bulk_transfer_keys example_monitor = []"
  by (simp add: example_monitor_def empty_monitor_def monitored_handling_def monitored_forward_def around_def origin_callbacks target_callbacks
      addr_info_find_or_add_def new_addr_table_def addr_key_def hash_add_def record_stat_def set_session_def Let_def)

theorem statistics_output_complete_witness:
  "json_path (Some (JObject (fst (monitor_statistics_to_json True ''self'' example_monitor))))
     (stat_path (addr_infos example_monitor) (Target T_ult DURATION \<lparr>cp_rpc_id = 5, cp_parent_id = 3, cp_addr_id = 2\<rparr>))
   = stat_json (stats example_monitor (Target T_ult DURATION \<lparr>cp_rpc_id = 5, cp_parent_id = 3, cp_addr_id = 2\<rparr>))"
proof -
  have "entries_differ example_monitor" using example_monitor_keys by (simp add: entries_differ_def)
  moreover have "Target T_ult DURATION \<lparr>cp_rpc_id = 5, cp_parent_id = 3, cp_addr_id = 2\<rparr> \<in> printed example_monitor"
    using example_monitor_keys by (simp add: printed_def target_stats_of_def)
  ultimately show ?thesis
    using statistics_output_complete [of example_monitor True "''self''"
        "fst (monitor_statistics_to_json True ''self'' example_monitor)" "snd (monitor_statistics_to_json True ''self'' example_monitor)"]
    by (auto simp del: stat_path.simps)
qed

section \<open>Time series\<close>

text \<open>
  A series of the output; the second result is the series afterwards and the last one the frames that were freed. A loop over frames
  that does not end gives \<^const>\<open>None\<close>.
\<close>

definition rpc_time_series_to_json :: "bool \<Rightarrow> frames \<Rightarrow> rpc_series \<Rightarrow> (object \<times> rpc_series \<times> addr list) option" where
  "rpc_time_series_to_json reset h r = do {
     cs \<leftarrow> frame_values h (first_frame (rpc_count_series r));
     bs \<leftarrow> frame_values h (first_frame (bulk_size_series r));
     let json = [(''timestamps'', Some (JArray (map (\<lambda>(ts, v). Some (JDouble ts)) cs))), (''count'', Some (JArray (map (\<lambda>(ts, v). Some (JInt (uint v))) cs))),
       (''bulk_size'', Some (JArray (map (\<lambda>(ts, v). Some (JInt (uint v))) bs)))];
     (if \<not> reset then Some (json, r, [])
      else do {
        (c, fs) \<leftarrow> time_series_clear (h, rpc_count_series r);
        (b, gs) \<leftarrow> time_series_clear (h, bulk_size_series r);
        Some (json, r\<lparr>rpc_count_series := c, bulk_size_series := b\<rparr>, fs @ gs)
      })
   }"

definition series_key :: "(u64 \<rightharpoonup> string) \<Rightarrow> u64 \<Rightarrow> string" where
  "series_key infos rpc_id =
    (case infos rpc_id of Some name \<Rightarrow> name @ '':'' @ show_nat (unat (snd (demux_id rpc_id))) | None \<Rightarrow> ''<unknown>'')"

primrec rpc_series_loop :: "bool \<Rightarrow> (u64 \<rightharpoonup> string) \<Rightarrow> u64 list \<Rightarrow> rpc_table \<Rightarrow> object \<Rightarrow> (object \<times> rpc_table) option" where
  "rpc_series_loop reset infos [] t rpcs = Some (rpcs, t)"
| "rpc_series_loop reset infos (i # is) t rpcs = do {
     (json, r, freed) \<leftarrow> rpc_time_series_to_json reset (rt_heap t) (rt_series t i);
     rpc_series_loop reset infos is (t\<lparr>rt_series := (rt_series t)(i := r)\<rparr>) (add_new (series_key infos i) (Some (JObject json)) rpcs)
   }"

text \<open>The two arrays of series of pools with their frames; addresses from \<open>pt_fresh\<close> on are not allocated.\<close>

record pool_table =
  pt_heap :: frames
  pt_fresh :: addr
  pt_size :: "time_series list"
  pt_total :: "time_series list"

text \<open>
  The pools with their sizes, if they could be found and queried. The arrays of series have their own length: an index
  beyond it is \<^const>\<open>None\<close>.
\<close>

fun update_pools_loop :: "real \<Rightarrow> nat \<Rightarrow> (u64 \<times> u64) option list \<Rightarrow> pool_table \<Rightarrow> pool_table option" where
  "update_pools_loop ts i [] t = Some t"
| "update_pools_loop ts i (None # ps) t = update_pools_loop ts (i + 1) ps t"
| "update_pools_loop ts i (Some (size_now, total_now) # ps) t =
    (if i \<ge> length (pt_size t) \<or> i \<ge> length (pt_total t) then None
     else
       (let (h, s) = time_series_append (pt_fresh t) ts size_now (pt_heap t, pt_size t ! i);
            (h, s') = time_series_append (pt_fresh t + 1) ts total_now (h, pt_total t ! i)
        in update_pools_loop ts (i + 1) ps
          (t\<lparr>pt_heap := h, pt_fresh := pt_fresh t + 2, pt_size := (pt_size t)[i := s], pt_total := (pt_total t)[i := s']\<rparr>)))"

definition update_pool_time_series :: "bool \<Rightarrow> real \<Rightarrow> (u64 \<times> u64) option list \<Rightarrow> pool_table \<Rightarrow> pool_table option" where
  "update_pool_time_series enabled ts ps t = (if \<not> enabled then Some t else update_pools_loop ts 0 ps t)"

fun pool_series_loop :: "nat \<Rightarrow> string list \<Rightarrow> pool_table \<Rightarrow> object \<Rightarrow> object option" where
  "pool_series_loop i [] t json = Some json"
| "pool_series_loop i (name # names) t json =
    (if i \<ge> length (pt_size t) \<or> i \<ge> length (pt_total t) then None
     else do {
       ss \<leftarrow> frame_values (pt_heap t) (first_frame (pt_size t ! i));
       us \<leftarrow> frame_values (pt_heap t) (first_frame (pt_total t ! i));
       pool_series_loop (i + 1) names t (add_new name (Some (JObject
         [(''timestamps'', Some (JArray (map (\<lambda>(ts, v). Some (JDouble ts)) ss))), (''size'', Some (JArray (map (\<lambda>(ts, v). Some (JInt (uint v))) ss))),
          (''total_size'', Some (JArray (map (\<lambda>(ts, v). Some (JInt (uint v))) us)))])) json)
     })"

definition clear_series :: "time_series \<Rightarrow> time_series" where
  "clear_series s = s\<lparr>first_frame := None, last_frame := None\<rparr>"

definition pool_time_series_to_json :: "bool \<Rightarrow> string list \<Rightarrow> pool_table \<Rightarrow> (object \<times> pool_table) option" where
  "pool_time_series_to_json reset names t = do {
     json \<leftarrow> pool_series_loop 0 names t [];
     (let n = length names;
          clear = (\<lambda>ss. map clear_series (take n ss) @ drop n ss)
      in Some (json, if reset then t\<lparr>pt_size := clear (pt_size t), pt_total := clear (pt_total t)\<rparr> else t))
   }"

definition monitor_time_series_to_json ::
  "bool \<Rightarrow> string \<Rightarrow> (u64 \<rightharpoonup> string) \<Rightarrow> string list \<Rightarrow> rpc_table \<Rightarrow> pool_table \<Rightarrow> (object \<times> rpc_table \<times> pool_table) option" where
  "monitor_time_series_to_json reset self_addr_str infos names t pt = do {
     (rpcs, t) \<leftarrow> rpc_series_loop reset infos (rt_ids t) t [];
     (pools, pt) \<leftarrow> pool_time_series_to_json reset names pt;
     Some ([(''address'', Some (JString self_addr_str)), (''rpcs'', Some (JObject rpcs)), (''pools'', Some (JObject pools))], t, pt)
   }"

text \<open>Every series of a pool holds the sizes of its pool, in frames of its own; the flag selects the total sizes.\<close>

definition pools_hold :: "(nat \<times> bool \<Rightarrow> (real \<times> u64) list) \<Rightarrow> (nat \<times> bool \<Rightarrow> addr set) \<Rightarrow> pool_table \<Rightarrow> bool" where
  "pools_hold V S t \<longleftrightarrow> length (pt_total t) = length (pt_size t)
     \<and> (\<forall>x. S x \<subseteq> {..<pt_fresh t}) \<and> (\<forall>x y. x \<noteq> y \<longrightarrow> S x \<inter> S y = {})
     \<and> (\<forall>i < length (pt_size t). series_holds (pt_heap t) (pt_size t ! i) (S (i, False)) (V (i, False)) \<and> frame_capacity (pt_size t ! i) = 256
         \<and> series_holds (pt_heap t) (pt_total t ! i) (S (i, True)) (V (i, True)) \<and> frame_capacity (pt_total t ! i) = 256)"

lemma pools_hold_append:
  fixes b :: bool
  assumes p: "pools_hold V S t" and i: "i < length (pt_size t)" and s: "s = (if b then pt_total t ! i else pt_size t ! i)"
    and a: "time_series_append (pt_fresh t) ts v (pt_heap t, s) = (h, s')"
    and t': "t' = t\<lparr>pt_heap := h, pt_fresh := pt_fresh t + 1, pt_size := if b then pt_size t else (pt_size t)[i := s'],
        pt_total := if b then (pt_total t)[i := s'] else pt_total t\<rparr>"
  shows "pools_hold (V((i, b) := V (i, b) @ [(ts, v)])) (S((i, b) := insert (pt_fresh t) (S (i, b)))) t'"
proof -
  let ?S = "S((i, b) := insert (pt_fresh t) (S (i, b)))"
  have l: "length (pt_total t) = length (pt_size t)" using p unfolding pools_hold_def by blast
  have sub: "S x \<subseteq> {..<pt_fresh t}" for x using p unfolding pools_hold_def by blast
  then have fr: "pt_fresh t \<notin> S x" for x by blast
  have dis: "S x \<inter> S y = {}" if "x \<noteq> y" for x y using p that unfolding pools_hold_def by blast
  have hold: "series_holds (pt_heap t) (if c then pt_total t ! j else pt_size t ! j) (S (j, c)) (V (j, c))"
    "frame_capacity (if c then pt_total t ! j else pt_size t ! j) = 256" if "j < length (pt_size t)" for j c
    using p that unfolding pools_hold_def by auto
  have new: "series_holds h s' (?S (i, b)) (V (i, b) @ [(ts, v)])" "frame_capacity s' = 256"
    using series_append [OF hold(1) [OF i, of b] fr, of ts v] a hold(2) [OF i, of b] s by auto
  have other: "series_holds h (if c then pt_total t ! j else pt_size t ! j) (S (j, c)) (V (j, c))" if "j < length (pt_size t)" "(j, c) \<noteq> (i, b)" for j c
    using series_append_other [OF hold(1) [OF i, of b] hold(1) [OF that(1), of c] dis [OF that(2) [symmetric]] fr, of ts v] a s by simp
  have get: "(if c then pt_total t' ! j else pt_size t' ! j) = (if (j, c) = (i, b) then s' else if c then pt_total t ! j else pt_size t ! j)"
    if "j < length (pt_size t)" for j c using that t' l i by auto
  have all: "series_holds (pt_heap t') (if c then pt_total t' ! j else pt_size t' ! j) (?S (j, c)) ((V((i, b) := V (i, b) @ [(ts, v)])) (j, c))
      \<and> frame_capacity (if c then pt_total t' ! j else pt_size t' ! j) = 256" if "j < length (pt_size t)" for j c
    unfolding get [OF that] using new other [OF that, of c] hold(2) [OF that, of c] t' by simp
  have "length (pt_total t') = length (pt_size t')" "length (pt_size t') = length (pt_size t)" using l t' by auto
  moreover have "?S x \<subseteq> {..<pt_fresh t'}" for x using sub [of x] sub [of "(i, b)"] t' by (auto simp: less_Suc_eq)
  moreover have "?S x \<inter> ?S y = {}" if "x \<noteq> y" for x y using dis [OF that] fr that by auto
  ultimately show ?thesis unfolding pools_hold_def using all [of _ False] all [of _ True] by simp
qed

definition select_size :: "bool \<Rightarrow> u64 \<times> u64 \<Rightarrow> u64" where
  "select_size b p = (if b then snd p else fst p)"

lemma update_pools_loop_holds:
  assumes "pools_hold V S t" "i + length ps \<le> length (pt_size t)"
  shows "\<exists>t' S'. update_pools_loop ts i (map Some ps) t = Some t' \<and> length (pt_size t') = length (pt_size t)
    \<and> pools_hold (\<lambda>(j, b). V (j, b) @ (if i \<le> j \<and> j < i + length ps then [(ts, select_size b (ps ! (j - i)))] else [])) S' t'"
  using assms
proof (induction ps arbitrary: i t V S)
  case Nil
  have "(\<lambda>(j, b). V (j, b) @ (if i \<le> j \<and> j < i + length ([] :: (u64 \<times> u64) list) then [(ts, select_size b ([] ! (j - i)))] else [])) = V" by (auto simp: fun_eq_iff)
  then show ?case using Nil by (intro exI [of _ t] exI [of _ S]) (simp del: list.size)
next
  case (Cons p ps)
  obtain u v where p: "p = (u, v)" by fastforce
  have i: "i < length (pt_size t)" "length (pt_total t) = length (pt_size t)" using Cons.prems unfolding pools_hold_def by auto
  obtain h s where 1: "time_series_append (pt_fresh t) ts u (pt_heap t, pt_size t ! i) = (h, s)" by fastforce
  define t1 where "t1 = t\<lparr>pt_heap := h, pt_fresh := pt_fresh t + 1, pt_size := (pt_size t)[i := s]\<rparr>"
  obtain h' s' where 2: "time_series_append (pt_fresh t1) ts v (pt_heap t1, pt_total t1 ! i) = (h', s')" by fastforce
  define t2 where "t2 = t1\<lparr>pt_heap := h', pt_fresh := pt_fresh t1 + 1, pt_total := (pt_total t1)[i := s']\<rparr>"
  have hold1: "pools_hold (V((i, False) := V (i, False) @ [(ts, u)])) (S((i, False) := insert (pt_fresh t) (S (i, False)))) t1"
    by (rule pools_hold_append [OF Cons.prems(1) i(1) _ 1]) (simp_all add: t1_def)
  have i1: "i < length (pt_size t1)" using i(1) by (simp add: t1_def)
  have "pools_hold ((V((i, False) := V (i, False) @ [(ts, u)]))((i, True) := (V((i, False) := V (i, False) @ [(ts, u)])) (i, True) @ [(ts, v)]))
      ((S((i, False) := insert (pt_fresh t) (S (i, False))))((i, True) := insert (pt_fresh t1) ((S((i, False) := insert (pt_fresh t) (S (i, False)))) (i, True)))) t2"
    by (rule pools_hold_append [OF hold1 i1 _ 2]) (simp_all add: t2_def)
  then obtain S2 where hold: "pools_hold (V((i, False) := V (i, False) @ [(ts, u)], (i, True) := V (i, True) @ [(ts, v)])) S2 t2" by auto
  have l: "length (pt_size t2) = length (pt_size t)" by (simp add: t1_def t2_def)
  have t2: "t2 = t\<lparr>pt_heap := h', pt_fresh := pt_fresh t + 2, pt_size := (pt_size t)[i := s], pt_total := (pt_total t)[i := s']\<rparr>"
    by (rule pool_table.equality) (simp_all add: t1_def t2_def)
  have "i + 1 + length ps \<le> length (pt_size t2)" using l Cons.prems(2) by simp
  from Cons.IH [OF hold this] obtain t' S' where t': "update_pools_loop ts (i + 1) (map Some ps) t2 = Some t'" "length (pt_size t') = length (pt_size t2)"
    "pools_hold (\<lambda>(j, b). (V((i, False) := V (i, False) @ [(ts, u)], (i, True) := V (i, True) @ [(ts, v)])) (j, b)
       @ (if i + 1 \<le> j \<and> j < i + 1 + length ps then [(ts, select_size b (ps ! (j - (i + 1))))] else [])) S' t'"
    by blast
  have "(\<lambda>(j, b). (V((i, False) := V (i, False) @ [(ts, u)], (i, True) := V (i, True) @ [(ts, v)])) (j, b)
       @ (if i + 1 \<le> j \<and> j < i + 1 + length ps then [(ts, select_size b (ps ! (j - (i + 1))))] else []))
     = (\<lambda>(j, b). V (j, b) @ (if i \<le> j \<and> j < i + length (p # ps) then [(ts, select_size b ((p # ps) ! (j - i)))] else []))"
    by (auto simp: fun_eq_iff p select_size_def nth_Cons' le_Suc_eq)
  moreover have "update_pools_loop ts i (map Some (p # ps)) t = Some t'"
    using t'(1) i 1 2 p t2 by (simp add: t1_def)
  ultimately show ?case using t'(2,3) l by auto
qed

text \<open>A sequence of updates, each with the time and the sizes of all pools.\<close>

primrec update_all :: "(real \<times> (u64 \<times> u64) list) list \<Rightarrow> pool_table \<Rightarrow> pool_table option" where
  "update_all [] t = Some t"
| "update_all (u # us) t = do { t \<leftarrow> update_pool_time_series True (fst u) (map Some (snd u)) t; update_all us t }"

lemma update_all_holds:
  assumes "pools_hold V S t" "\<forall>u \<in> set us. length (snd u) = length (pt_size t)"
  shows "\<exists>t' S'. update_all us t = Some t' \<and> length (pt_size t') = length (pt_size t)
    \<and> pools_hold (\<lambda>(j, b). V (j, b) @ (if j < length (pt_size t) then map (\<lambda>u. (fst u, select_size b (snd u ! j))) us else [])) S' t'"
  using assms
proof (induction us arbitrary: t V S)
  case Nil
  have "(\<lambda>(j, b). V (j, b) @ (if j < length (pt_size t) then map (\<lambda>u. (fst u, select_size b (snd u ! j))) [] else [])) = V" by (auto simp: fun_eq_iff)
  then show ?case using Nil by auto
next
  case (Cons u us)
  let ?W = "\<lambda>(j, b). V (j, b) @ (if 0 \<le> j \<and> j < 0 + length (snd u) then [(fst u, select_size b (snd u ! (j - 0)))] else [])"
  obtain t1 S1 where 1: "update_pools_loop (fst u) 0 (map Some (snd u)) t = Some t1" "length (pt_size t1) = length (pt_size t)" "pools_hold ?W S1 t1"
    using update_pools_loop_holds [OF Cons.prems(1), of 0 "snd u" "fst u"] Cons.prems(2) by auto
  from Cons.IH [OF 1(3)] Cons.prems(2) 1(2) obtain t' S' where t': "update_all us t1 = Some t'" "length (pt_size t') = length (pt_size t1)"
    "pools_hold (\<lambda>(j, b). ?W (j, b) @ (if j < length (pt_size t1) then map (\<lambda>u. (fst u, select_size b (snd u ! j))) us else [])) S' t'" by auto
  have "(\<lambda>(j, b). ?W (j, b) @ (if j < length (pt_size t1) then map (\<lambda>u. (fst u, select_size b (snd u ! j))) us else []))
      = (\<lambda>(j, b). V (j, b) @ (if j < length (pt_size t) then map (\<lambda>u. (fst u, select_size b (snd u ! j))) (u # us) else []))"
    using Cons.prems(2) 1(2) by (auto simp: fun_eq_iff)
  then show ?case using t' 1 by (auto simp: update_pool_time_series_def)
qed

lemma pool_series_loop_values:
  assumes "pools_hold V S t" "i + length names \<le> length (pt_size t)" "\<And>j b. length (V (j, b)) \<le> 256"
  shows "pool_series_loop i names t json = Some (json @ map (\<lambda>j. (names ! (j - i), Some (JObject
      [(''timestamps'', Some (JArray (map (\<lambda>(ts, v). Some (JDouble ts)) (V (j, False))))), (''size'', Some (JArray (map (\<lambda>(ts, v). Some (JInt (uint v))) (V (j, False))))),
       (''total_size'', Some (JArray (map (\<lambda>(ts, v). Some (JInt (uint v))) (V (j, True)))))]))) [i..<i + length names])"
  using assms(2)
proof (induction names arbitrary: i json)
  case (Cons name names)
  have i: "i < length (pt_size t)" "i < length (pt_total t)" using Cons.prems assms(1) by (auto simp: pools_hold_def)
  have "series_holds (pt_heap t) (pt_size t ! i) (S (i, False)) (V (i, False))" "frame_capacity (pt_size t ! i) = 256"
    "series_holds (pt_heap t) (pt_total t ! i) (S (i, True)) (V (i, True))" "frame_capacity (pt_total t ! i) = 256"
    using assms(1) i(1) unfolding pools_hold_def by blast+
  then have v: "frame_values (pt_heap t) (first_frame (pt_size t ! i)) = Some (V (i, False))" "frame_values (pt_heap t) (first_frame (pt_total t ! i)) = Some (V (i, True))"
    using series_values(1) assms(3) [of i] by fastforce+
  have m: "map (\<lambda>j. f ((name # names) ! (j - i)) j) [i + 1..<i + 1 + length names] = map (\<lambda>j. f (names ! (j - (i + 1))) j) [i + 1..<i + 1 + length names]" for f :: "string \<Rightarrow> nat \<Rightarrow> string \<times> json option"
    by (rule map_cong) (auto simp: nth_Cons')
  have "[i..<i + length (name # names)] = i # [i + 1..<i + 1 + length names]" by (simp add: upt_conv_Cons del: upt_Suc)
  then show ?case using Cons.IH [of "i + 1"] Cons.prems i v
    m [of "\<lambda>n j. (n, Some (JObject [(''timestamps'', Some (JArray (map (\<lambda>(ts, v). Some (JDouble ts)) (V (j, False))))), (''size'', Some (JArray (map (\<lambda>(ts, v). Some (JInt (uint v))) (V (j, False))))),
       (''total_size'', Some (JArray (map (\<lambda>(ts, v). Some (JInt (uint v))) (V (j, True)))))]))"]
    by (simp add: add_new_def del: upt_Suc)
qed simp

definition new_series :: time_series where
  "new_series = \<lparr>frame_capacity = 256, first_frame = None, last_frame = None\<rparr>"

definition new_pool_table :: "nat \<Rightarrow> frames \<Rightarrow> addr \<Rightarrow> pool_table" where
  "new_pool_table n h fresh = \<lparr>pt_heap = h, pt_fresh = fresh, pt_size = replicate n new_series, pt_total = replicate n new_series\<rparr>"

text \<open>
  The output shows the history of the pools. Starting with empty series for \<open>n\<close> pools, after any sequence of at most 256
  updates (the capacity of a frame) no access is out of range, and the output has for every pool the times of the
  updates and the sizes of the pool at these times, in order; with a reset all series are empty afterwards.
\<close>

theorem pool_series_shown:
  assumes "\<forall>u \<in> set us. length (snd u) = n" "length us \<le> 256" "length names = n" "distinct names"
  shows "\<exists>t' out t2. update_all us (new_pool_table n h fresh) = Some t' \<and> pool_time_series_to_json reset names t' = Some (out, t2)
    \<and> (\<forall>i < n. map_of out (names ! i) = Some (Some (JObject
        [(''timestamps'', Some (JArray (map (\<lambda>u. Some (JDouble (fst u))) us))), (''size'', Some (JArray (map (\<lambda>u. Some (JInt (uint (fst (snd u ! i))))) us))),
         (''total_size'', Some (JArray (map (\<lambda>u. Some (JInt (uint (snd (snd u ! i))))) us)))])))
    \<and> (reset \<longrightarrow> pt_size t2 = replicate n new_series \<and> pt_total t2 = replicate n new_series)"
proof -
  let ?t = "new_pool_table n h fresh"
  have "pools_hold (\<lambda>_. []) (\<lambda>_. {}) ?t" by (simp add: pools_hold_def new_pool_table_def new_series_def series_holds_def)
  then obtain t' S' where t': "update_all us ?t = Some t'" "length (pt_size t') = n"
    "pools_hold (\<lambda>(j, b). [] @ (if j < n then map (\<lambda>u. (fst u, select_size b (snd u ! j))) us else [])) S' t'"
    using update_all_holds [of "\<lambda>_. []" "\<lambda>_. {}" ?t us] assms(1) by (auto simp: new_pool_table_def)
  define V where "V = (\<lambda>(j, b). [] @ (if j < n then map (\<lambda>u. (fst u, select_size b (snd u ! j))) us else []))"
  let ?json = "\<lambda>j. Some (JObject [(''timestamps'', Some (JArray (map (\<lambda>(ts, v). Some (JDouble ts)) (V (j, False))))),
    (''size'', Some (JArray (map (\<lambda>(ts, v). Some (JInt (uint v))) (V (j, False))))), (''total_size'', Some (JArray (map (\<lambda>(ts, v). Some (JInt (uint v))) (V (j, True)))))])"
  have out: "pool_series_loop 0 names t' [] = Some ([] @ map (\<lambda>j. (names ! (j - 0), ?json j)) [0..<0 + length names])"
    using pool_series_loop_values [OF t'(3) [folded V_def], of 0 names "[]"] assms(2,3) t'(2) by (auto simp: V_def)
  have "map_of (map (\<lambda>j. (names ! j, ?json j)) [0..<n]) (names ! i) = Some (?json i)" if "i < n" for i
    by (rule map_of_map_unique) (use that assms(3,4) in \<open>auto simp: nth_eq_iff_index_eq\<close>)
  moreover have "?json i = Some (JObject [(''timestamps'', Some (JArray (map (\<lambda>u. Some (JDouble (fst u))) us))),
      (''size'', Some (JArray (map (\<lambda>u. Some (JInt (uint (fst (snd u ! i))))) us))), (''total_size'', Some (JArray (map (\<lambda>u. Some (JInt (uint (snd (snd u ! i))))) us)))])" if "i < n" for i
    using that by (simp add: V_def select_size_def)
  moreover have "map clear_series (pt_size t') = replicate n new_series" "map clear_series (pt_total t') = replicate n new_series"
    using t'(2,3) by (auto intro!: nth_equalityI simp: pools_hold_def clear_series_def new_series_def)
  moreover have "length (pt_total t') = n" using t'(2,3) by (simp add: pools_hold_def)
  ultimately show ?thesis using t'(1,2) out assms(3) by (simp add: pool_time_series_to_json_def)
qed

theorem pool_series_shown_witness:
  "\<exists>t' out t2. update_all [(1, [(4, 5)]), (2, [(6, 8)])] (new_pool_table 1 \<lparr>fr_next = \<lambda>_. None, fr_data = \<lambda>_. []\<rparr> 0) = Some t'
    \<and> pool_time_series_to_json True [''__primary__''] t' = Some (out, t2)
    \<and> map_of out ''__primary__'' = Some (Some (JObject
        [(''timestamps'', Some (JArray [Some (JDouble 1), Some (JDouble 2)])), (''size'', Some (JArray [Some (JInt 4), Some (JInt 6)])),
         (''total_size'', Some (JArray [Some (JInt 5), Some (JInt 8)]))]))"
  using pool_series_shown [of "[(1, [(4, 5)]), (2, [(6, 8)])]" 1 "[''__primary__'']" "\<lparr>fr_next = \<lambda>_. None, fr_data = \<lambda>_. []\<rparr>" 0 True]
  by auto

end
