(* ===== verification/Monitor_Life.thy ===== *)
theory Monitor_Life
  imports Monitor_Output Handle_Cache Requests
begin

text \<open>
  The default monitoring as a whole (\<^verbatim>\<open>src/margo-default-monitoring.c\<close>): the creation of its state, the update of all time series by the
  progress loop, the dump on request, the files that are written and the end. The host name, the process id and the results of opening files are
  parameters; the text of a JSON value is left to json-c.
\<close>

section \<open>State\<close>

text \<open>\<^verbatim>\<open>default_monitor_state\<close>: the configuration, the address of the instance, what the callbacks change, and the series of pools (no array if time series are disabled).\<close>

record default_monitor =
  dm_config :: monitor_config
  dm_self_addr_str :: string
  dm_state :: monitor
  dm_pools :: pool_table

text \<open>
  \<open>self_addr_str\<close> is the text of the address of the instance, empty if it could not be obtained; \<open>h\<close> and \<open>h'\<close> are the
  memory for frames, \<open>sessions0\<close> and \<open>bulk_sessions0\<close> that of the two arenas for sessions.
\<close>

definition default_monitor_initialize ::
  "monitor_env \<Rightarrow> frames \<Rightarrow> frames \<Rightarrow> (addr \<Rightarrow> session) \<Rightarrow> (addr \<Rightarrow> bulk_session) \<Rightarrow> nat \<Rightarrow> string \<Rightarrow> json option \<Rightarrow> default_monitor" where
  "default_monitor_initialize env h h' sessions0 bulk_sessions0 num_pools self_addr_str config =
    (let c = monitor_read_config env config
     in \<lparr>dm_config = c,
         dm_self_addr_str = (if self_addr_str \<noteq> [] then self_addr_str else ''<unknown>''),
         dm_state = \<lparr>enable_statistics = statistics_enabled c, enable_time_series = time_series_enabled c,
           sample_progress_every = sampling_config c, progress_sampling = 0, rpc_infos = Map.empty, addr_infos = new_addr_table,
           stats = (\<lambda>_. zero_statistics), origin_keys = [], target_keys = [], bulk_create_keys = [], bulk_transfer_keys = [],
           sessions = sessions0, bulk_sessions = bulk_sessions0, handle_session = (\<lambda>_. None), request_session = (\<lambda>_. None),
           released_sessions = [], released_bulk_sessions = [], rpc_series_table = new_rpc_table h 0,
           rpc_time_series_last_ts = 0, time_series_interval = interval_config c\<rparr>,
         dm_pools = new_pool_table (if time_series_enabled c then num_pools else 0) h' 0\<rparr>)"

text \<open>Progress with both kinds of series; \<open>pool_sizes\<close> are the sizes of the pools at that time.\<close>

definition default_monitor_on_progress ::
  "(u64 \<times> u64) option list \<Rightarrow> u32 \<Rightarrow> monitor_event \<Rightarrow> real \<Rightarrow> real \<Rightarrow> default_monitor \<Rightarrow> (default_monitor \<times> real) option" where
  "default_monitor_on_progress pool_sizes timeout_ms ev ts uctx d = do {
     let m = dm_state d;
     pt \<leftarrow> (if ev = MARGO_MONITOR_FN_END \<and> enable_time_series m \<and> ts > rpc_time_series_last_ts m + time_series_interval m
            then update_pool_time_series (enable_time_series m) ts pool_sizes (dm_pools d) else Some (dm_pools d));
     let (m, uctx) = on_progress timeout_ms ev ts uctx m;
     Some (d\<lparr>dm_state := m, dm_pools := pt\<rparr>, uctx)
   }"

section \<open>Output\<close>

text \<open>The statistics with the reset, and the time series; \<open>names\<close> are the names of the pools.\<close>

definition dump_statistics :: "bool \<Rightarrow> default_monitor \<Rightarrow> object \<times> default_monitor" where
  "dump_statistics reset d =
    (let (json, m) = monitor_statistics_to_json reset (dm_self_addr_str d) (dm_state d) in (json, d\<lparr>dm_state := m\<rparr>))"

definition dump_time_series :: "bool \<Rightarrow> string list \<Rightarrow> default_monitor \<Rightarrow> (object \<times> default_monitor) option" where
  "dump_time_series reset names d = do {
     (json, t, pt) \<leftarrow> monitor_time_series_to_json reset (dm_self_addr_str d) (rpc_infos (dm_state d)) names (rpc_series_table (dm_state d)) (dm_pools d);
     Some (json, d\<lparr>dm_state := (dm_state d)\<lparr>rpc_series_table := t\<rparr>, dm_pools := pt\<rparr>)
   }"

text \<open>The value whose text is passed to the function for the dump.\<close>

definition default_monitor_dump :: "bool \<Rightarrow> string list \<Rightarrow> default_monitor \<Rightarrow> (object \<times> default_monitor) option" where
  "default_monitor_dump reset names d = do {
     let (stats_members, d) = (if enable_statistics (dm_state d)
       then let (json, d) = dump_statistics reset d in ([(''stats'', Some (JObject json))], d) else ([], d));
     (if enable_time_series (dm_state d)
      then do { (json, d) \<leftarrow> dump_time_series reset names d; Some (stats_members @ [(''series'', Some (JObject json))], d) }
      else Some (stats_members, d))
   }"

definition monitor_filename :: "string \<Rightarrow> string \<Rightarrow> nat \<Rightarrow> string \<Rightarrow> string" where
  "monitor_filename prefix hostname pid suffix = prefix @ ''.'' @ hostname @ ''.'' @ show_nat pid @ suffix"

text \<open>The files that are written, in order; \<open>opens\<close> says whether a file can be opened.\<close>

definition write_monitor_state_to_json_file ::
  "(string \<Rightarrow> bool) \<Rightarrow> string \<Rightarrow> nat \<Rightarrow> bool \<Rightarrow> string list \<Rightarrow> default_monitor \<Rightarrow> ((string \<times> object) list \<times> default_monitor) option" where
  "write_monitor_state_to_json_file opens hostname pid reset names d =
    (let prefix = filename_prefix (dm_config d);
         stats_filename = monitor_filename prefix hostname pid ''.stats.json'';
         series_filename = monitor_filename prefix hostname pid ''.series.json''
     in if prefix = [] then Some ([], d)
        else do {
          let (files, d) = (if enable_statistics (dm_state d) \<and> opens stats_filename
            then let (json, d) = dump_statistics reset d in ([(stats_filename, json)], d) else ([], d));
          (if enable_time_series (dm_state d) \<and> opens series_filename
           then do { (json, d) \<leftarrow> dump_time_series reset names d; Some (files @ [(series_filename, json)], d) }
           else Some (files, d))
        })"

text \<open>
  The end: a last update of the series, then the files. The result is what was written; the tables and series are freed afterwards. No state
  is a NULL pointer.
\<close>

definition default_monitor_finalize ::
  "(string \<Rightarrow> bool) \<Rightarrow> string \<Rightarrow> nat \<Rightarrow> real \<Rightarrow> (u64 \<times> u64) option list \<Rightarrow> string list \<Rightarrow> default_monitor option \<Rightarrow> (string \<times> object) list option" where
  "default_monitor_finalize opens hostname pid ts pool_sizes names monitor =
    (case monitor of
       None \<Rightarrow> Some []
     | Some d \<Rightarrow> do {
         let m = dm_state d;
         let m = (if enable_time_series m then m\<lparr>rpc_series_table := update_rpc_time_series ts (rpc_series_table m), rpc_time_series_last_ts := ts\<rparr> else m);
         pt \<leftarrow> update_pool_time_series (enable_time_series m) ts pool_sizes (dm_pools d);
         (files, d) \<leftarrow> write_monitor_state_to_json_file opens hostname pid False names (d\<lparr>dm_state := m, dm_pools := pt\<rparr>);
         Some files
       })"

text \<open>
  The release of the time series: the operations on the two mutexes and the frames that are freed. An index beyond an array of series of pools is
  \<^const>\<open>None\<close>.
\<close>

datatype series_mutex = RPC_TIME_SERIES_MTX | POOL_TIME_SERIES_MTX

datatype mutex_call = Spinlock series_mutex | Unlock series_mutex

primrec free_rpc_series :: "frames \<Rightarrow> (u64 \<Rightarrow> rpc_series) \<Rightarrow> u64 list \<Rightarrow> addr list option" where
  "free_rpc_series h r [] = Some []"
| "free_rpc_series h r (i # is) = do {
     (_, fs) \<leftarrow> time_series_clear (h, rpc_count_series (r i));
     (_, gs) \<leftarrow> time_series_clear (h, bulk_size_series (r i));
     hs \<leftarrow> free_rpc_series h r is;
     Some (fs @ gs @ hs)
   }"

primrec free_pool_series :: "pool_table \<Rightarrow> nat list \<Rightarrow> addr list option" where
  "free_pool_series pt [] = Some []"
| "free_pool_series pt (i # is) =
    (if i \<ge> length (pt_size pt) \<or> i \<ge> length (pt_total pt) then None
     else do {
       (_, fs) \<leftarrow> time_series_clear (pt_heap pt, pt_size pt ! i);
       (_, gs) \<leftarrow> time_series_clear (pt_heap pt, pt_total pt ! i);
       hs \<leftarrow> free_pool_series pt is;
       Some (fs @ gs @ hs)
     })"

definition free_all_time_series :: "nat \<Rightarrow> default_monitor \<Rightarrow> (mutex_call list \<times> addr list) option" where
  "free_all_time_series num_pools d =
    (if \<not> enable_time_series (dm_state d) then Some ([], [])
     else do {
       let t = rpc_series_table (dm_state d);
       let ops = [Spinlock RPC_TIME_SERIES_MTX];
       fs \<leftarrow> free_rpc_series (rt_heap t) (rt_series t) (rt_ids t);
       let ops = ops @ [Unlock RPC_TIME_SERIES_MTX, Spinlock POOL_TIME_SERIES_MTX];
       gs \<leftarrow> free_pool_series (dm_pools d) [0..<num_pools];
       Some (ops @ [Unlock RPC_TIME_SERIES_MTX], fs @ gs)
     })"

text \<open>The mutex that a thread holds after a sequence of calls; \<^const>\<open>None\<close> if it locks a mutex twice or unlocks one that it does not hold.\<close>

fun held_after :: "mutex_call list \<Rightarrow> series_mutex set \<Rightarrow> series_mutex set option" where
  "held_after [] H = Some H"
| "held_after (Spinlock m # cs) H = (if m \<in> H then None else held_after cs (insert m H))"
| "held_after (Unlock m # cs) H = (if m \<in> H then held_after cs (H - {m}) else None)"

lemma free_all_time_series_unlocks_wrong:
  assumes "free_all_time_series n d = Some (ops, fs)" "enable_time_series (dm_state d)"
  shows "held_after ops {} = None"
  using assms by (auto simp: free_all_time_series_def Let_def split: bind_splits)

text \<open>Where the arrays of series are as long as the registry of pools, the release ends.\<close>

lemma series_clear_ends: "series_holds h s A vs \<Longrightarrow> \<exists>s' fs. time_series_clear (h, s) = Some (s', fs)"
  by (auto simp: time_series_clear_def series_holds_def frames_to_clear.simps split: if_splits)

lemma free_rpc_series_ends:
  "\<forall>i \<in> set is. (\<exists>A vs. series_holds h (rpc_count_series (r i)) A vs) \<and> (\<exists>A vs. series_holds h (bulk_size_series (r i)) A vs) \<Longrightarrow>
    \<exists>fs. free_rpc_series h r is = Some fs"
proof (induction "is")
  case (Cons i "is")
  obtain s fs s' gs where "time_series_clear (h, rpc_count_series (r i)) = Some (s, fs)" "time_series_clear (h, bulk_size_series (r i)) = Some (s', gs)"
    using Cons.prems series_clear_ends by (metis list.set_intros(1))
  then show ?case using Cons by auto
qed simp

lemma free_pool_series_ends:
  "\<forall>i \<in> set is. i < length (pt_size pt) \<and> i < length (pt_total pt) \<and> (\<exists>A vs. series_holds (pt_heap pt) (pt_size pt ! i) A vs)
      \<and> (\<exists>A vs. series_holds (pt_heap pt) (pt_total pt ! i) A vs) \<Longrightarrow>
    \<exists>fs. free_pool_series pt is = Some fs"
proof (induction "is")
  case (Cons i "is")
  obtain s fs s' gs where "time_series_clear (pt_heap pt, pt_size pt ! i) = Some (s, fs)" "time_series_clear (pt_heap pt, pt_total pt ! i) = Some (s', gs)"
    using Cons.prems series_clear_ends by (metis list.set_intros(1))
  then show ?case using Cons by auto
qed simp

section \<open>The interface of monitoring\<close>

text \<open>
  \<^verbatim>\<open>src/margo-monitoring.c\<close>: the functions check the instance, its monitor and the callback. An instance is its monitor if it has one, and a
  monitor has its callbacks if they are not NULL.
\<close>

record ('u, 's) margo_monitor =
  mm_uargs :: 's
  mm_on_user :: "('u \<Rightarrow> 's \<Rightarrow> 's) option"
  mm_dump :: "(bool \<Rightarrow> 's \<Rightarrow> 's) option"

definition margo_monitor_call_user ::
  "'u \<Rightarrow> ('u, 's) margo_monitor option option \<Rightarrow> ('u, 's) margo_monitor option option \<times> hg_return" where
  "margo_monitor_call_user args mid =
    (case mid of
       None \<Rightarrow> (mid, HG_INVALID_ARG)
     | Some None \<Rightarrow> (mid, HG_SUCCESS)
     | Some (Some m) \<Rightarrow>
         (case mm_on_user m of None \<Rightarrow> (mid, HG_SUCCESS) | Some f \<Rightarrow> (Some (Some (m\<lparr>mm_uargs := f args (mm_uargs m)\<rparr>)), HG_SUCCESS)))"

definition margo_monitor_dump ::
  "bool \<Rightarrow> ('u, 's) margo_monitor option option \<Rightarrow> ('u, 's) margo_monitor option option \<times> hg_return" where
  "margo_monitor_dump reset mid =
    (case mid of
       None \<Rightarrow> (mid, HG_INVALID_ARG)
     | Some None \<Rightarrow> (mid, HG_SUCCESS)
     | Some (Some m) \<Rightarrow>
         (case mm_dump m of None \<Rightarrow> (mid, HG_NOENTRY) | Some f \<Rightarrow> (Some (Some (m\<lparr>mm_uargs := f reset (mm_uargs m)\<rparr>)), HG_SUCCESS)))"

text \<open>
  The data that a monitor keeps with a handle and with a request. A handle is \<^const>\<open>None\<close> for NULL, otherwise the data that Margo attached to it, if any;
  \<open>wanted\<close> says whether the pointer for the result is not NULL, and the last component is what is stored there.
\<close>

definition margo_set_monitoring_data :: "handle_data option option \<Rightarrow> ptr \<Rightarrow> handle_data option option \<times> hg_return" where
  "margo_set_monitoring_data handle data =
    (case handle of
       None \<Rightarrow> (handle, HG_INVALID_ARG)
     | Some None \<Rightarrow> (handle, HG_OTHER_ERROR)
     | Some (Some handle_data) \<Rightarrow> (Some (Some (handle_data\<lparr>hd_monitor_data := data\<rparr>)), HG_SUCCESS))"

definition margo_get_monitoring_data :: "handle_data option option \<Rightarrow> bool \<Rightarrow> hg_return \<times> ptr option" where
  "margo_get_monitoring_data handle wanted =
    (case handle of
       None \<Rightarrow> (HG_INVALID_ARG, None)
     | Some None \<Rightarrow> (HG_OTHER_ERROR, None)
     | Some (Some handle_data) \<Rightarrow> (HG_SUCCESS, if wanted then Some (hd_monitor_data handle_data) else None))"

definition margo_request_set_monitoring_data :: "ptr \<Rightarrow> ptr \<Rightarrow> requests \<Rightarrow> requests \<times> hg_return" where
  "margo_request_set_monitoring_data r data w =
    (case r of
       None \<Rightarrow> (w, HG_INVALID_ARG)
     | Some a \<Rightarrow> (upd_req a (rq_monitor_data_update (\<lambda>_. data)) w, HG_SUCCESS))"

definition margo_request_get_monitoring_data :: "ptr \<Rightarrow> bool \<Rightarrow> requests \<Rightarrow> hg_return \<times> ptr option" where
  "margo_request_get_monitoring_data r wanted w =
    (case r of
       None \<Rightarrow> (HG_INVALID_ARG, None)
     | Some a \<Rightarrow> (HG_SUCCESS, if wanted then Some (rq_monitor_data (req w a)) else None))"

text \<open>Data that was set with success is returned, for its own request only, and an error changes nothing.\<close>

lemma monitoring_data_set_get:
  "margo_set_monitoring_data h data = (h', ret) \<Longrightarrow>
    (if ret = HG_SUCCESS then margo_get_monitoring_data h' True = (HG_SUCCESS, Some data) else h' = h \<and> fst (margo_get_monitoring_data h True) = ret)"
  by (auto simp: margo_set_monitoring_data_def margo_get_monitoring_data_def split: option.splits)

lemma request_monitoring_data_set_get:
  "margo_request_set_monitoring_data (Some a) data w = (w', ret) \<Longrightarrow>
    ret = HG_SUCCESS
    \<and> margo_request_get_monitoring_data (Some b) True w' =
      (if b = a then (HG_SUCCESS, Some data) else margo_request_get_monitoring_data (Some b) True w)"
  by (auto simp: margo_request_set_monitoring_data_def margo_request_get_monitoring_data_def upd_req_def)

section \<open>Dumps\<close>

definition record_samples :: "(stat_key \<times> real) list \<Rightarrow> default_monitor \<Rightarrow> default_monitor" where
  "record_samples samples d = d\<lparr>dm_state := fold (\<lambda>(k, v). record_stat k v) samples (dm_state d)\<rparr>"

definition samples_of :: "stat_key \<Rightarrow> (stat_key \<times> real) list \<Rightarrow> real list" where
  "samples_of k samples = map snd (filter (\<lambda>s. fst s = k) samples)"

lemma fold_record_stat:
  "stats (fold (\<lambda>(k, v). record_stat k v) samples m) k = fold update_statistics (samples_of k samples) (stats m k)"
  by (induction samples arbitrary: m) (auto simp: samples_of_def record_stat_def)

text \<open>Recording changes nothing that decides what is printed and where.\<close>

lemma fold_record_stat_frame:
  "m' = fold (\<lambda>(k, v). record_stat k v) samples m \<Longrightarrow>
    entries_differ m' = entries_differ m \<and> printed m' = printed m \<and> addr_infos m' = addr_infos m \<and> enable_statistics m' = enable_statistics m"
proof -
  assume m': "m' = fold (\<lambda>(k, v). record_stat k v) samples m"
  have "\<exists>st. fold (\<lambda>(k, v). record_stat k v) samples m = m\<lparr>stats := st\<rparr>"
  proof (induction samples rule: rev_induct)
    case Nil
    show ?case by (simp add: exI [of _ "stats m"])
  next
    case (snoc x xs)
    then show ?case by (auto simp: record_stat_def split: prod.split)
  qed
  then obtain st where "m' = m\<lparr>stats := st\<rparr>" using m' by blast
  then show ?thesis by (simp add: entries_differ_def printed_def)
qed

lemma dump_has_statistics:
  assumes "enable_statistics (dm_state d)" "entries_differ (dm_state d)" "default_monitor_dump reset names d = Some (out, d')" "k \<in> printed (dm_state d)"
  shows "json_path (Some (JObject out)) (''stats'' # stat_path (addr_infos (dm_state d)) k) = stat_json (stats (dm_state d) k)"
    and "stats (dm_state d') k = (if reset then zero_statistics else stats (dm_state d) k)"
    and "entries_differ (dm_state d')" "printed (dm_state d') = printed (dm_state d)" "addr_infos (dm_state d') = addr_infos (dm_state d)"
      "enable_statistics (dm_state d')"
proof -
  obtain json m where j: "monitor_statistics_to_json reset (dm_self_addr_str d) (dm_state d) = (json, m)" by fastforce
  note c = statistics_output_complete [OF assms(2) j]
  have out: "map_of out ''stats'' = Some (Some (JObject json))" "\<exists>t. dm_state d' = m\<lparr>rpc_series_table := t\<rparr>"
    using assms(1,3) j by (auto simp: default_monitor_dump_def dump_statistics_def dump_time_series_def bind_eq_Some_conv split: if_splits)
      (metis monitor.surjective monitor.update_convs(18))+
  obtain p ps where p: "stat_path (addr_infos (dm_state d)) k = p # ps" by (cases k) (simp_all add: target_path_def)
  show "json_path (Some (JObject out)) (''stats'' # stat_path (addr_infos (dm_state d)) k) = stat_json (stats (dm_state d) k)"
    using c [THEN conjunct1, THEN bspec, OF assms(4)] out(1) by (simp add: p json_path_step members_def)
  obtain t where t: "dm_state d' = m\<lparr>rpc_series_table := t\<rparr>" using out(2) by blast
  show "stats (dm_state d') k = (if reset then zero_statistics else stats (dm_state d) k)" using t c assms(4) by simp
  show "entries_differ (dm_state d')" "printed (dm_state d') = printed (dm_state d)" "addr_infos (dm_state d') = addr_infos (dm_state d)"
      "enable_statistics (dm_state d')"
    using t c assms(1,2) by (simp_all add: entries_differ_def printed_def)
qed

text \<open>
  C31: dumps with a reset report intervals. When entries of the same hash table differ in what is shown of them, a dump shows every statistics structure
  under its path; and when the first of two dumps resets, the second one shows for every structure of the first the statistics of exactly the samples
  that were recorded in between, so no sample is lost or counted twice.
\<close>

theorem dumps_report_intervals:
  assumes "enable_statistics (dm_state d)" "entries_differ (dm_state d)" "k \<in> printed (dm_state d)"
    "default_monitor_dump True names d = Some (out1, d1)" "default_monitor_dump reset names' (record_samples samples d1) = Some (out2, d2)"
  shows "json_path (Some (JObject out1)) (''stats'' # stat_path (addr_infos (dm_state d)) k) = stat_json (stats (dm_state d) k)
    \<and> json_path (Some (JObject out2)) (''stats'' # stat_path (addr_infos (dm_state d)) k) = stat_json (record_all (samples_of k samples))"
proof -
  note one = dump_has_statistics [OF assms(1,2,4,3)]
  define d' where "d' = record_samples samples d1"
  have f: "entries_differ (dm_state d')" "printed (dm_state d') = printed (dm_state d)" "addr_infos (dm_state d') = addr_infos (dm_state d)"
    "enable_statistics (dm_state d')"
    using fold_record_stat_frame [of "dm_state d'" samples "dm_state d1"] one(3-6) by (simp_all add: d'_def record_samples_def)
  have "stats (dm_state d') k = record_all (samples_of k samples)"
    using one(2) by (simp add: d'_def record_samples_def fold_record_stat record_all_def)
  then show ?thesis
    using one(1) dump_has_statistics(1) [OF f(4,1) assms(5) [folded d'_def], of k] assms(3) f(2,3) by simp
qed

definition example_default_monitor :: default_monitor where
  "example_default_monitor = default_monitor_initialize
     \<lparr>MARGO_MONITORING_FILENAME_PREFIX = None, MARGO_MONITORING_DISABLE_STATISTICS = False, MARGO_MONITORING_DISABLE_TIME_SERIES = True\<rparr>
     \<lparr>fr_next = \<lambda>_. None, fr_data = \<lambda>_. []\<rparr> \<lparr>fr_next = \<lambda>_. None, fr_data = \<lambda>_. []\<rparr> (sessions empty_monitor) (bulk_sessions empty_monitor) 1 ''na+sm://1'' None"

theorem dumps_report_intervals_witness:
  "\<exists>out1 d1 out2 d2. default_monitor_dump True [] example_default_monitor = Some (out1, d1)
    \<and> default_monitor_dump True [] (record_samples [(Trigger, 3), (Progress_with_timeout, 7), (Trigger, 5)] d1) = Some (out2, d2)
    \<and> json_path (Some (JObject out2)) [''stats'', ''progress_loop'', ''trigger''] = stat_json (record_all [3, 5])"
proof -
  let ?d = example_default_monitor and ?samples = "[(Trigger, 3), (Progress_with_timeout, 7), (Trigger, 5)]"
  have d: "enable_statistics (dm_state ?d)" "\<not> enable_time_series (dm_state ?d)" "entries_differ (dm_state ?d)" "Trigger \<in> printed (dm_state ?d)"
    by (simp_all add: example_default_monitor_def default_monitor_initialize_def monitor_read_config_def default_config_def read_statistics_config_def
        read_time_series_config_def entries_differ_def printed_def object_get_def Let_def)
  have t: "\<exists>out e'. default_monitor_dump True [] e = Some (out, e') \<and> enable_time_series (dm_state e') = enable_time_series (dm_state e)"
    if "\<not> enable_time_series (dm_state e)" for e
    using that by (auto simp: default_monitor_dump_def dump_statistics_def monitor_statistics_to_json_def split: prod.split)
  obtain out1 d1 where 1: "default_monitor_dump True [] ?d = Some (out1, d1)" "\<not> enable_time_series (dm_state d1)" using t [OF d(2)] d(2) by auto
  have "\<not> enable_time_series (dm_state (record_samples ?samples d1))" using 1(2) by (simp add: record_samples_def)
  then obtain out2 d2 where 2: "default_monitor_dump True [] (record_samples ?samples d1) = Some (out2, d2)" using t by blast
  from dumps_report_intervals [OF d(1,3,4) 1(1) 2] have "json_path (Some (JObject out2)) [''stats'', ''progress_loop'', ''trigger''] = stat_json (record_all [3, 5])"
    by (simp add: samples_of_def)
  then show ?thesis using 1 2 by blast
qed

text \<open>The files at the end have names of their own, and are written exactly if their part is enabled, the prefix is not empty and they can be opened.\<close>

lemma final_files:
  assumes "default_monitor_finalize opens hostname pid ts pool_sizes names (Some d) = Some files"
  defines "name \<equiv> monitor_filename (filename_prefix (dm_config d)) hostname pid"
  shows "map fst files = (if filename_prefix (dm_config d) = [] then []
      else filter opens ((if enable_statistics (dm_state d) then [name ''.stats.json''] else []) @ (if enable_time_series (dm_state d) then [name ''.series.json''] else [])))
    \<and> distinct (map fst files)"
  using assms(1)
  by (auto simp: default_monitor_finalize_def write_monitor_state_to_json_file_def dump_statistics_def dump_time_series_def
      monitor_statistics_to_json_def bind_eq_Some_conv name_def monitor_filename_def Let_def split: if_splits prod.splits)

end
