(* ===== verification/Uthash.thy ===== *)
theory Uthash
  imports Monitoring
begin

text \<open>
  The hash tables of \<^verbatim>\<open>src/uthash.h\<close> that the default monitoring uses: a doubly linked list of all elements in the order in which they were added, and an array of
  buckets, each with a doubly linked list of its elements, that doubles when a bucket gets long. Both kinds of links are fields of the elements. The tables are shown to
  behave as a list of elements that is searched by key.
\<close>

section \<open>Data\<close>

text \<open>
  An element and its hash handle are at a fixed distance, so an address stands for both. The table exists while there are elements. A key is what its
  pointer and its length describe.
\<close>

record bucket =
  b_head :: ptr
  b_count :: u32
  b_expand_mult :: u32

record ut_table =
  t_buckets :: "bucket list"
  t_num_buckets :: u32
  t_log2_num_buckets :: u32
  t_num_items :: u32
  t_tail :: ptr
  t_ideal_chain_maxlen :: u32
  t_nonideal_items :: u32
  t_ineff_expands :: u32
  t_noexpand :: u32

record 'k uthash =
  ut_head :: ptr
  ut_tbl :: "ut_table option"
  ut_prev :: "addr \<Rightarrow> ptr"
  ut_next :: "addr \<Rightarrow> ptr"
  ut_hh_prev :: "addr \<Rightarrow> ptr"
  ut_hh_next :: "addr \<Rightarrow> ptr"
  ut_key :: "addr \<Rightarrow> 'k"
  ut_hashv :: "addr \<Rightarrow> u32"

definition HASH_INITIAL_NUM_BUCKETS :: u32 where "HASH_INITIAL_NUM_BUCKETS = 32"
definition HASH_INITIAL_NUM_BUCKETS_LOG2 :: u32 where "HASH_INITIAL_NUM_BUCKETS_LOG2 = 5"
definition HASH_BKT_CAPACITY_THRESH :: u32 where "HASH_BKT_CAPACITY_THRESH = 10"

text \<open>The head of a table is null in a state that was allocated with zeros.\<close>

definition empty_uthash :: "'k \<Rightarrow> 'k uthash" where
  "empty_uthash k = \<lparr>ut_head = None, ut_tbl = None, ut_prev = (\<lambda>_. None), ut_next = (\<lambda>_. None), ut_hh_prev = (\<lambda>_. None), ut_hh_next = (\<lambda>_. None),
     ut_key = (\<lambda>_. k), ut_hashv = (\<lambda>_. 0)\<rparr>"

definition zero_bucket :: bucket where
  "zero_bucket = \<lparr>b_head = None, b_count = 0, b_expand_mult = 0\<rparr>"

section \<open>Operations\<close>

definition HASH_TO_BKT :: "u32 \<Rightarrow> u32 \<Rightarrow> nat" where
  "HASH_TO_BKT hashv num_bkts = unat (hashv AND (num_bkts - 1))"

partial_function (option) HASH_FIND_IN_BKT :: "'k uthash \<Rightarrow> 'k \<Rightarrow> u32 \<Rightarrow> ptr \<Rightarrow> ptr option" where
  "HASH_FIND_IN_BKT s key hashval out =
    (case out of
       None \<Rightarrow> Some None
     | Some a \<Rightarrow>
         if ut_hashv s a = hashval \<and> ut_key s a = key then Some (Some a)
         else HASH_FIND_IN_BKT s key hashval (ut_hh_next s a))"

text \<open>\<open>hash\<close> is the hash function of the table. An access outside the array of buckets is \<^const>\<open>None\<close>.\<close>

definition bucket_at :: "ut_table \<Rightarrow> nat \<Rightarrow> bucket option" where
  "bucket_at t i = (if i < length (t_buckets t) then Some (t_buckets t ! i) else None)"

definition HASH_FIND :: "('k \<Rightarrow> u32) \<Rightarrow> 'k uthash \<Rightarrow> 'k \<Rightarrow> ptr option" where
  "HASH_FIND hash s key =
    (case ut_head s of
       None \<Rightarrow> Some None
     | Some _ \<Rightarrow> do {
         t \<leftarrow> ut_tbl s;
         b \<leftarrow> bucket_at t (HASH_TO_BKT (hash key) (t_num_buckets t));
         HASH_FIND_IN_BKT s key (hash key) (b_head b)
       })"

text \<open>\<open>ok\<close> says whether memory can be allocated; without, the program ends (\<^const>\<open>None\<close>).\<close>

definition HASH_MAKE_TABLE :: "bool \<Rightarrow> addr \<Rightarrow> ut_table option" where
  "HASH_MAKE_TABLE ok add =
    (if ok
     then Some \<lparr>t_buckets = replicate (unat HASH_INITIAL_NUM_BUCKETS) zero_bucket, t_num_buckets = HASH_INITIAL_NUM_BUCKETS,
       t_log2_num_buckets = HASH_INITIAL_NUM_BUCKETS_LOG2, t_num_items = 0, t_tail = Some add, t_ideal_chain_maxlen = 0, t_nonideal_items = 0,
       t_ineff_expands = 0, t_noexpand = 0\<rparr>
     else None)"

definition HASH_APPEND_LIST :: "addr \<Rightarrow> 'k uthash \<Rightarrow> 'k uthash option" where
  "HASH_APPEND_LIST add s = do {
     t \<leftarrow> ut_tbl s;
     tail \<leftarrow> t_tail t;
     let s = s\<lparr>ut_next := (ut_next s)(add := None), ut_prev := (ut_prev s)(add := Some tail)\<rparr>;
     let s = s\<lparr>ut_next := (ut_next s)(tail := Some add)\<rparr>;
     Some (s\<lparr>ut_tbl := Some (t\<lparr>t_tail := Some add\<rparr>)\<rparr>)
   }"

text \<open>
  The two loops of \<^verbatim>\<open>HASH_EXPAND_BUCKETS\<close> change the links of the buckets, the new array and the number of elements that are not in an
  ideal position.
\<close>

record expansion =
  e_prev :: "addr \<Rightarrow> ptr"
  e_next :: "addr \<Rightarrow> ptr"
  e_buckets :: "bucket list"
  e_nonideal :: u32

text \<open>Put an element at the head of its new bucket.\<close>

definition expand_one :: "u32 \<Rightarrow> u32 \<Rightarrow> (addr \<Rightarrow> u32) \<Rightarrow> addr \<Rightarrow> expansion \<Rightarrow> expansion option" where
  "expand_one ideal num hashv thh e =
    (let i = HASH_TO_BKT (hashv thh) num
     in if i \<ge> length (e_buckets e) then None
        else
          (let newbkt = (e_buckets e ! i)\<lparr>b_count := b_count (e_buckets e ! i) + 1\<rparr>;
               nonideal = (b_count newbkt > ideal);
               newbkt' = (if nonideal \<and> b_count newbkt > b_expand_mult newbkt * ideal
                          then newbkt\<lparr>b_expand_mult := b_expand_mult newbkt + 1\<rparr> else newbkt);
               pv = (e_prev e)(thh := None);
               nx = (e_next e)(thh := b_head newbkt);
               pv = (case b_head newbkt of None \<Rightarrow> pv | Some h \<Rightarrow> pv(h := Some thh))
           in Some \<lparr>e_prev = pv, e_next = nx, e_buckets = (e_buckets e)[i := newbkt'\<lparr>b_head := Some thh\<rparr>],
                e_nonideal = (if nonideal then e_nonideal e + 1 else e_nonideal e)\<rparr>))"

partial_function (option) expand_chain :: "u32 \<Rightarrow> u32 \<Rightarrow> (addr \<Rightarrow> u32) \<Rightarrow> ptr \<Rightarrow> expansion \<Rightarrow> expansion option" where
  "expand_chain ideal num hashv thh e =
    (case thh of
       None \<Rightarrow> Some e
     | Some a \<Rightarrow> do {
         let nxt = e_next e a;
         e \<leftarrow> expand_one ideal num hashv a e;
         expand_chain ideal num hashv nxt e
       })"

primrec expand_loop :: "u32 \<Rightarrow> u32 \<Rightarrow> (addr \<Rightarrow> u32) \<Rightarrow> bucket list \<Rightarrow> expansion \<Rightarrow> expansion option" where
  "expand_loop ideal num hashv [] e = Some e"
| "expand_loop ideal num hashv (b # bs) e = do {
     e \<leftarrow> expand_chain ideal num hashv (b_head b) e;
     expand_loop ideal num hashv bs e
   }"

definition HASH_EXPAND_BUCKETS :: "bool \<Rightarrow> ut_table \<Rightarrow> 'k uthash \<Rightarrow> 'k uthash option" where
  "HASH_EXPAND_BUCKETS ok t s =
    (if \<not> ok then None
     else do {
       let num = t_num_buckets t * 2;
       let ideal = drop_bit (unat (t_log2_num_buckets t + 1)) (t_num_items t) + (if t_num_items t AND (num - 1) \<noteq> 0 then 1 else 0);
       e \<leftarrow> expand_loop ideal num (ut_hashv s) (t_buckets t)
         \<lparr>e_prev = ut_hh_prev s, e_next = ut_hh_next s, e_buckets = replicate (unat num) zero_bucket, e_nonideal = 0\<rparr>;
       let ineff = (if e_nonideal e > drop_bit 1 (t_num_items t) then t_ineff_expands t + 1 else 0);
       let t = t\<lparr>t_buckets := e_buckets e, t_num_buckets := num, t_log2_num_buckets := t_log2_num_buckets t + 1, t_ideal_chain_maxlen := ideal,
         t_nonideal_items := e_nonideal e, t_ineff_expands := ineff, t_noexpand := (if ineff > 1 then 1 else t_noexpand t)\<rparr>;
       Some (s\<lparr>ut_tbl := Some t, ut_hh_prev := e_prev e, ut_hh_next := e_next e\<rparr>)
     })"

definition HASH_ADD_TO_BKT :: "bool \<Rightarrow> nat \<Rightarrow> addr \<Rightarrow> 'k uthash \<Rightarrow> 'k uthash option" where
  "HASH_ADD_TO_BKT ok i add s = do {
     t \<leftarrow> ut_tbl s;
     b \<leftarrow> bucket_at t i;
     let b = b\<lparr>b_count := b_count b + 1\<rparr>;
     let s = s\<lparr>ut_hh_next := (ut_hh_next s)(add := b_head b), ut_hh_prev := (ut_hh_prev s)(add := None)\<rparr>;
     let s = (case b_head b of None \<Rightarrow> s | Some h \<Rightarrow> s\<lparr>ut_hh_prev := (ut_hh_prev s)(h := Some add)\<rparr>);
     let t = t\<lparr>t_buckets := (t_buckets t)[i := b\<lparr>b_head := Some add\<rparr>]\<rparr>;
     let s = s\<lparr>ut_tbl := Some t\<rparr>;
     (if b_count b \<ge> (b_expand_mult b + 1) * HASH_BKT_CAPACITY_THRESH \<and> t_noexpand t = 0 then HASH_EXPAND_BUCKETS ok t s else Some s)
   }"

definition HASH_ADD_TO_TABLE :: "bool \<Rightarrow> u32 \<Rightarrow> addr \<Rightarrow> 'k uthash \<Rightarrow> 'k uthash option" where
  "HASH_ADD_TO_TABLE ok hashval add s = do {
     t \<leftarrow> ut_tbl s;
     let t = t\<lparr>t_num_items := t_num_items t + 1\<rparr>;
     HASH_ADD_TO_BKT ok (HASH_TO_BKT hashval (t_num_buckets t)) add (s\<lparr>ut_tbl := Some t\<rparr>)
   }"

definition HASH_ADD :: "('k \<Rightarrow> u32) \<Rightarrow> bool \<Rightarrow> addr \<Rightarrow> 'k uthash \<Rightarrow> 'k uthash option" where
  "HASH_ADD hash ok add s = do {
     let hashval = hash (ut_key s add);
     let s = s\<lparr>ut_hashv := (ut_hashv s)(add := hashval)\<rparr>;
     s \<leftarrow> (case ut_head s of
            None \<Rightarrow> do {
              t \<leftarrow> HASH_MAKE_TABLE ok add;
              Some (s\<lparr>ut_next := (ut_next s)(add := None), ut_prev := (ut_prev s)(add := None), ut_tbl := Some t, ut_head := Some add\<rparr>)
            }
          | Some _ \<Rightarrow> HASH_APPEND_LIST add s);
     HASH_ADD_TO_TABLE ok hashval add s
   }"

definition HASH_DEL_IN_BKT :: "nat \<Rightarrow> addr \<Rightarrow> 'k uthash \<Rightarrow> 'k uthash option" where
  "HASH_DEL_IN_BKT i delhh s = do {
     t \<leftarrow> ut_tbl s;
     b \<leftarrow> bucket_at t i;
     let b = b\<lparr>b_count := b_count b - 1\<rparr>;
     let b = (if b_head b = Some delhh then b\<lparr>b_head := ut_hh_next s delhh\<rparr> else b);
     let s = s\<lparr>ut_tbl := Some (t\<lparr>t_buckets := (t_buckets t)[i := b]\<rparr>)\<rparr>;
     let s = (case ut_hh_prev s delhh of None \<Rightarrow> s | Some p \<Rightarrow> s\<lparr>ut_hh_next := (ut_hh_next s)(p := ut_hh_next s delhh)\<rparr>);
     let s = (case ut_hh_next s delhh of None \<Rightarrow> s | Some n \<Rightarrow> s\<lparr>ut_hh_prev := (ut_hh_prev s)(n := ut_hh_prev s delhh)\<rparr>);
     Some s
   }"

definition HASH_DELETE :: "addr \<Rightarrow> 'k uthash \<Rightarrow> 'k uthash option" where
  "HASH_DELETE del s =
    (if ut_prev s del = None \<and> ut_next s del = None then do { t \<leftarrow> ut_tbl s; Some (s\<lparr>ut_tbl := None, ut_head := None\<rparr>) }
     else do {
       t \<leftarrow> ut_tbl s;
       let t = (if t_tail t = Some del then t\<lparr>t_tail := ut_prev s del\<rparr> else t);
       let s = s\<lparr>ut_tbl := Some t\<rparr>;
       let s = (case ut_prev s del of
                  Some p \<Rightarrow> s\<lparr>ut_next := (ut_next s)(p := ut_next s del)\<rparr>
                | None \<Rightarrow> s\<lparr>ut_head := ut_next s del\<rparr>);
       let s = (case ut_next s del of Some n \<Rightarrow> s\<lparr>ut_prev := (ut_prev s)(n := ut_prev s del)\<rparr> | None \<Rightarrow> s);
       s \<leftarrow> HASH_DEL_IN_BKT (HASH_TO_BKT (ut_hashv s del) (t_num_buckets t)) del s;
       t \<leftarrow> ut_tbl s;
       Some (s\<lparr>ut_tbl := Some (t\<lparr>t_num_items := t_num_items t - 1\<rparr>)\<rparr>)
     })"

text \<open>
  The monitoring system looks a key up and adds a new element for it if there is none. \<open>new\<close> is the address of the element that is allocated.
\<close>

definition find_or_add :: "('k \<Rightarrow> u32) \<Rightarrow> bool \<Rightarrow> 'k \<Rightarrow> addr \<Rightarrow> 'k uthash \<Rightarrow> (addr \<times> 'k uthash) option" where
  "find_or_add hash ok key new s = do {
     r \<leftarrow> HASH_FIND hash s key;
     (case r of
        Some a \<Rightarrow> Some (a, s)
      | None \<Rightarrow> do {
          s \<leftarrow> HASH_ADD hash ok new (s\<lparr>ut_key := (ut_key s)(new := key)\<rparr>);
          Some (new, s)
        })
   }"

text \<open>
  The loop of \<^verbatim>\<open>HASH_ITER\<close> with a body that deletes the element and, if \<open>frees\<close>, frees it. The second component of the state is the list of the
  elements that were freed; an access to one of them is \<^const>\<open>None\<close>.
\<close>

partial_function (option) delete_loop :: "bool \<Rightarrow> ptr \<Rightarrow> ptr \<Rightarrow> 'k uthash \<Rightarrow> addr list \<Rightarrow> ('k uthash \<times> addr list) option" where
  "delete_loop frees el tmp s freed =
    (case el of
       None \<Rightarrow> Some (s, freed)
     | Some p \<Rightarrow>
         if p \<in> set freed then None
         else do {
           s \<leftarrow> HASH_DELETE p s;
           let freed = (if frees then freed @ [p] else freed);
           nxt \<leftarrow> (case tmp of None \<Rightarrow> Some None | Some q \<Rightarrow> if q \<in> set freed then None else Some (ut_next s q));
           delete_loop frees tmp nxt s freed
         })"

definition HASH_ITER_DELETE :: "bool \<Rightarrow> 'k uthash \<Rightarrow> addr list \<Rightarrow> ('k uthash \<times> addr list) option" where
  "HASH_ITER_DELETE frees s freed = delete_loop frees (ut_head s) (case ut_head s of None \<Rightarrow> None | Some h \<Rightarrow> ut_next s h) s freed"

definition rpc_info_clear :: "'k uthash \<Rightarrow> ('k uthash \<times> addr list) option" where
  "rpc_info_clear hash = HASH_ITER_DELETE True hash []"

text \<open>An element of the two tables of addresses has a hash handle for each of them.\<close>

definition addr_info_clear :: "'i uthash \<Rightarrow> 'n uthash \<Rightarrow> ('i uthash \<times> 'n uthash \<times> addr list) option" where
  "addr_info_clear hash_by_id hash_by_name = do {
     (hash_by_id, freed) \<leftarrow> HASH_ITER_DELETE False hash_by_id [];
     (hash_by_name, freed) \<leftarrow> HASH_ITER_DELETE True hash_by_name freed;
     Some (hash_by_id, hash_by_name, freed)
   }"

text \<open>The tables that are freed when the default monitoring is finalized, in the order of the code.\<close>

definition free_tables ::
  "'r uthash \<Rightarrow> 'i uthash \<Rightarrow> 'n uthash \<Rightarrow> 'o uthash \<Rightarrow> 't uthash \<Rightarrow> 'c uthash \<Rightarrow> 'b uthash \<Rightarrow> addr list option" where
  "free_tables rpc_info addr_info_by_id addr_info_by_name origin_rpc_stats target_rpc_stats bulk_create_stats bulk_transfer_stats = do {
     (_, rpc_freed) \<leftarrow> rpc_info_clear rpc_info;
     (_, _, addr_freed) \<leftarrow> addr_info_clear addr_info_by_id addr_info_by_name;
     (_, freed) \<leftarrow> HASH_ITER_DELETE True origin_rpc_stats (rpc_freed @ addr_freed);
     (_, freed) \<leftarrow> HASH_ITER_DELETE True target_rpc_stats freed;
     (_, freed) \<leftarrow> HASH_ITER_DELETE True bulk_create_stats freed;
     (_, freed) \<leftarrow> HASH_ITER_DELETE True bulk_transfer_stats freed;
     Some freed
   }"

section \<open>Doubly linked segments\<close>

text \<open>The links lead from \<open>p\<close> through \<open>xs\<close> to \<open>r\<close>; the element before the first one is \<open>q\<close>.\<close>

primrec dseg :: "(addr \<Rightarrow> ptr) \<Rightarrow> (addr \<Rightarrow> ptr) \<Rightarrow> ptr \<Rightarrow> ptr \<Rightarrow> addr list \<Rightarrow> ptr \<Rightarrow> bool" where
  "dseg nx pv q p [] r = (p = r)"
| "dseg nx pv q p (x # xs) r = (p = Some x \<and> pv x = q \<and> dseg nx pv (Some x) (nx x) xs r)"

lemma dseg_append:
  "dseg nx pv q p (xs @ ys) r \<longleftrightarrow> (\<exists>m. dseg nx pv q p xs m \<and> dseg nx pv (if xs = [] then q else Some (last xs)) m ys r)"
  by (induction xs arbitrary: q p) auto

lemma dseg_frame: "(\<And>x. x \<in> set xs \<Longrightarrow> nx' x = nx x \<and> pv' x = pv x) \<Longrightarrow> dseg nx' pv' q p xs r = dseg nx pv q p xs r"
  by (induction xs arbitrary: q p) auto

lemma dseg_upd [simp]:
  "a \<notin> set xs \<Longrightarrow> dseg (nx(a := v)) pv q p xs r = dseg nx pv q p xs r"
  "a \<notin> set xs \<Longrightarrow> dseg nx (pv(a := v)) q p xs r = dseg nx pv q p xs r"
  by (auto intro!: dseg_frame)

lemma dseg_first: "dseg nx pv q p xs r \<Longrightarrow> p = (if xs = [] then r else Some (hd xs))"
  by (cases xs) auto

lemma dseg_retarget:
  "dseg nx pv q p xs r \<Longrightarrow> distinct xs \<Longrightarrow> xs \<noteq> [] \<Longrightarrow> dseg (nx(last xs := r')) pv q p xs r'"
proof (induction xs arbitrary: q p)
  case (Cons x xs)
  then show ?case by (cases "xs = []") auto
qed simp

lemma dseg_new_prev: "dseg nx pv q p xs r \<Longrightarrow> distinct xs \<Longrightarrow> xs \<noteq> [] \<Longrightarrow> dseg nx (pv(hd xs := q')) q' p xs r"
  by (cases xs) auto

text \<open>Insertion at the front, insertion at the end, and deletion.\<close>

lemma dseg_cons:
  assumes "dseg nx pv None p xs None" "distinct xs" "a \<notin> set xs"
  shows "dseg (nx(a := p)) (case p of None \<Rightarrow> pv(a := None) | Some h \<Rightarrow> pv(a := None, h := Some a)) None (Some a) (a # xs) None"
proof (cases xs)
  case (Cons x ys)
  then have "p = Some x" "x \<noteq> a" using assms by auto
  moreover have "dseg (nx(a := p)) (pv(a := None, x := Some a)) (Some a) p xs None"
    using assms dseg_new_prev [of "nx(a := p)" "pv(a := None)" None p xs None "Some a"] Cons by simp
  ultimately show ?thesis by simp
qed (use assms in simp)

lemma dseg_snoc:
  assumes "dseg nx pv None p xs None" "distinct xs" "xs \<noteq> []" "a \<notin> set xs"
  shows "dseg (nx(a := None, last xs := Some a)) (pv(a := Some (last xs))) None p (xs @ [a]) None"
proof -
  have "dseg (nx(a := None, last xs := Some a)) (pv(a := Some (last xs))) None p xs (Some a)"
    using dseg_retarget [of "nx(a := None)" "pv(a := Some (last xs))" None p xs None "Some a"] assms by simp
  moreover have "last xs \<noteq> a" using assms by auto
  ultimately show ?thesis using assms(3) by (auto simp: dseg_append)
qed

lemma dseg_links:
  assumes "dseg nx pv None p (ys @ a # zs) None"
  shows "pv a = (if ys = [] then None else Some (last ys))" "nx a = (if zs = [] then None else Some (hd zs))"
    "p = Some (if ys = [] then a else hd ys)"
  using assms dseg_first [of nx pv None p "ys @ a # zs" None] dseg_first [of nx pv "Some a" "nx a" zs None] by (auto simp: dseg_append split: if_splits)

lemma dseg_delete:
  assumes d: "dseg nx pv None p (ys @ a # zs) None" "distinct (ys @ a # zs)"
  shows "dseg (case pv a of None \<Rightarrow> nx | Some b \<Rightarrow> nx(b := nx a)) (case nx a of None \<Rightarrow> pv | Some b \<Rightarrow> pv(b := pv a)) None
    (if pv a = None then nx a else p) (ys @ zs) None"
proof -
  let ?nx = "case pv a of None \<Rightarrow> nx | Some b \<Rightarrow> nx(b := nx a)" and ?pv = "case nx a of None \<Rightarrow> pv | Some b \<Rightarrow> pv(b := pv a)"
  note l = dseg_links [OF d(1)]
  have s: "dseg nx pv None p ys (Some a)" "dseg nx pv (Some a) (nx a) zs None" using d(1) by (auto simp: dseg_append)
  have z: "dseg nx ?pv (pv a) (nx a) zs None"
  proof (cases "zs = []")
    case False
    then show ?thesis using s(2) d(2) l(2) dseg_new_prev [of nx pv "Some a" "nx a" zs None "pv a"] by simp
  qed (use s(2) in simp)
  have pv: "x \<in> set ys \<Longrightarrow> ?pv x = pv x" for x using d(2) l(2) by (cases zs) auto
  have nx: "x \<in> set zs \<Longrightarrow> ?nx x = nx x" for x using d(2) l(1) last_in_set [of ys] by (auto simp: disjoint_iff split: if_splits)
  have "dseg ?nx ?pv (pv a) (nx a) zs None" using z dseg_frame [of zs ?nx nx ?pv ?pv] nx by simp
  moreover have "dseg ?nx ?pv None (if pv a = None then nx a else p) ys (nx a)"
  proof (cases "ys = []")
    case False
    then have "dseg ?nx pv None p ys (nx a)" using dseg_retarget [OF s(1)] d(2) l(1) by simp
    then show ?thesis using dseg_frame [of ys ?nx ?nx ?pv pv] pv False l(1) by simp
  qed (use l in simp)
  ultimately show ?thesis using l(1) by (auto simp: dseg_append split: if_splits)
qed

section \<open>Buckets\<close>

text \<open>Every bucket holds the elements of \<open>S\<close> that \<open>f\<close> sends to it, and their number.\<close>

definition chain_ok :: "(addr \<Rightarrow> ptr) \<Rightarrow> (addr \<Rightarrow> ptr) \<Rightarrow> (addr \<Rightarrow> nat) \<Rightarrow> addr set \<Rightarrow> bucket list \<Rightarrow> nat \<Rightarrow> addr list \<Rightarrow> bool" where
  "chain_ok nx pv f S bs i c \<longleftrightarrow>
    distinct c \<and> set c = {a \<in> S. f a = i} \<and> dseg nx pv None (b_head (bs ! i)) c None \<and> b_count (bs ! i) = of_nat (length c)"

definition chains_ok :: "(addr \<Rightarrow> ptr) \<Rightarrow> (addr \<Rightarrow> ptr) \<Rightarrow> (addr \<Rightarrow> nat) \<Rightarrow> addr set \<Rightarrow> bucket list \<Rightarrow> bool" where
  "chains_ok nx pv f S bs \<longleftrightarrow> (\<forall>i < length bs. \<exists>c. chain_ok nx pv f S bs i c)"

lemma chains_ok_empty: "chains_ok nx pv f {} (replicate n zero_bucket)"
  by (auto simp: chains_ok_def chain_ok_def zero_bucket_def intro!: exI [of _ "[]"])

lemma chains_ok_cong: "(\<And>a. a \<in> S \<Longrightarrow> f a = g a) \<Longrightarrow> chains_ok nx pv f S bs = chains_ok nx pv g S bs"
  unfolding chains_ok_def chain_ok_def by (simp cong: conj_cong)

lemma chains_ok_insert:
  assumes ok: "chains_ok nx pv f S bs" and a: "a \<notin> S" "f a = i" "i < length bs"
    and b: "b_head b = Some a" "b_count b = b_count (bs ! i) + 1"
  shows "chains_ok (nx(a := b_head (bs ! i))) (case b_head (bs ! i) of None \<Rightarrow> pv(a := None) | Some h \<Rightarrow> pv(a := None, h := Some a)) f (insert a S) (bs[i := b])"
    (is "chains_ok ?nx ?pv _ _ _")
proof -
  obtain c where c: "chain_ok nx pv f S bs i c" using ok a(3) by (auto simp: chains_ok_def)
  have "a \<notin> set c" using c a(1) by (auto simp: chain_ok_def)
  then have "chain_ok ?nx ?pv f (insert a S) (bs[i := b]) i (a # c)"
    using c a b dseg_cons [of nx pv "b_head (bs ! i)" c a] by (auto simp: chain_ok_def simp del: dseg.simps)
  moreover have "\<exists>d. chain_ok ?nx ?pv f (insert a S) (bs[i := b]) j d" if j: "j < length bs" "j \<noteq> i" for j
  proof -
    obtain d where d: "chain_ok nx pv f S bs j d" using ok j by (auto simp: chains_ok_def)
    have "dseg nx pv None (b_head (bs ! i)) c None" using c by (simp add: chain_ok_def)
    then have "h \<in> set c" if "b_head (bs ! i) = Some h" for h using that by (cases c) simp_all
    moreover have "set c \<inter> set d = {}" "a \<notin> set d" using c d a j unfolding chain_ok_def by auto
    ultimately have "?nx x = nx x \<and> ?pv x = pv x" if "x \<in> set d" for x
      using that by (cases "b_head (bs ! i)") (auto simp: disjoint_iff)
    then have "dseg ?nx ?pv None (b_head (bs ! j)) d None" using d dseg_frame [of d ?nx nx ?pv pv] by (simp add: chain_ok_def)
    then show ?thesis using d a j by (intro exI [of _ d]) (auto simp: chain_ok_def)
  qed
  ultimately show ?thesis unfolding chains_ok_def by (metis length_list_update)
qed

lemma chains_ok_delete:
  assumes ok: "chains_ok nx pv f S bs" and a: "a \<in> S" "f a = i" "i < length bs"
    and b: "b_head b = (if b_head (bs ! i) = Some a then nx a else b_head (bs ! i))" "b_count b = b_count (bs ! i) - 1"
  shows "chains_ok (case pv a of None \<Rightarrow> nx | Some p \<Rightarrow> nx(p := nx a)) (case nx a of None \<Rightarrow> pv | Some n \<Rightarrow> pv(n := pv a)) f (S - {a}) (bs[i := b])"
    (is "chains_ok ?nx ?pv _ _ _")
proof -
  obtain c where c: "chain_ok nx pv f S bs i c" using ok a(3) by (auto simp: chains_ok_def)
  then have "a \<in> set c" using a by (auto simp: chain_ok_def)
  then obtain ys zs where yz: "c = ys @ a # zs" by (meson split_list)
  have d: "dseg nx pv None (b_head (bs ! i)) (ys @ a # zs) None" "distinct (ys @ a # zs)" using c yz by (simp_all add: chain_ok_def)
  note l = dseg_links [OF d(1)]
  have h: "b_head b = (if pv a = None then nx a else b_head (bs ! i))" using b(1) l d(2) by (cases ys) auto
  have "chain_ok ?nx ?pv f (S - {a}) (bs[i := b]) i (ys @ zs)"
    using dseg_delete [OF d] c a b(2) yz d(2) by (auto simp: chain_ok_def h)
  moreover have "\<exists>e. chain_ok ?nx ?pv f (S - {a}) (bs[i := b]) j e" if j: "j < length bs" "j \<noteq> i" for j
  proof -
    obtain e where e: "chain_ok nx pv f S bs j e" using ok j by (auto simp: chains_ok_def)
    have "p \<in> set c" if "pv a = Some p" for p using that l yz by (auto split: if_splits)
    moreover have "n \<in> set c" if "nx a = Some n" for n using that l yz by (auto split: if_splits)
    moreover have "set c \<inter> set e = {}" using c e j unfolding chain_ok_def by auto
    ultimately have "?nx x = nx x \<and> ?pv x = pv x" if "x \<in> set e" for x
      using that by (cases "pv a"; cases "nx a") (auto simp: disjoint_iff)
    then have "dseg ?nx ?pv None (b_head (bs ! j)) e None" using e dseg_frame [of e ?nx nx ?pv pv] by (simp add: chain_ok_def)
    then show ?thesis using e a j by (intro exI [of _ e]) (auto simp: chain_ok_def)
  qed
  ultimately show ?thesis unfolding chains_ok_def by (metis length_list_update)
qed

section \<open>The table as a list of elements\<close>

lemma to_bkt: "k < 32 \<Longrightarrow> HASH_TO_BKT h (2 ^ k) = unat h mod 2 ^ k"
proof -
  have "h AND (2 ^ k - 1) = take_bit k h" by (simp add: take_bit_eq_mask mask_eq_exp_minus_1)
  then show ?thesis unfolding HASH_TO_BKT_def by (simp add: unsigned_take_bit_eq flip: take_bit_eq_mod)
qed

definition table_ok :: "('k \<Rightarrow> u32) \<Rightarrow> 'k uthash \<Rightarrow> ut_table \<Rightarrow> addr set \<Rightarrow> bool" where
  "table_ok hash s t S \<longleftrightarrow>
    (\<exists>k < 32. t_log2_num_buckets t = of_nat k \<and> t_num_buckets t = 2 ^ k \<and> length (t_buckets t) = 2 ^ k)
    \<and> (\<forall>a \<in> S. ut_hashv s a = hash (ut_key s a))
    \<and> chains_ok (ut_hh_next s) (ut_hh_prev s) (\<lambda>a. HASH_TO_BKT (ut_hashv s a) (t_num_buckets t)) S (t_buckets t)"

definition uthash_rep :: "('k \<Rightarrow> u32) \<Rightarrow> 'k uthash \<Rightarrow> addr list \<Rightarrow> bool" where
  "uthash_rep hash s xs \<longleftrightarrow> distinct xs \<and> dseg (ut_next s) (ut_prev s) None (ut_head s) xs None
    \<and> (xs \<noteq> [] \<longrightarrow> (\<exists>t. ut_tbl s = Some t \<and> t_tail t = Some (last xs) \<and> t_num_items t = of_nat (length xs) \<and> table_ok hash s t (set xs)))"

lemma table_ok_bkt: "table_ok hash s t S \<Longrightarrow> HASH_TO_BKT h (t_num_buckets t) < length (t_buckets t)"
  by (auto simp: table_ok_def to_bkt)

lemma find_in_bkt:
  "dseg (ut_hh_next s) pv q p c None \<Longrightarrow> HASH_FIND_IN_BKT s key h p = Some (List.find (\<lambda>a. ut_hashv s a = h \<and> ut_key s a = key) c)"
proof (induction c arbitrary: q p)
  case Nil
  then show ?case by (simp add: HASH_FIND_IN_BKT.simps)
next
  case (Cons a c)
  then show ?case by (subst HASH_FIND_IN_BKT.simps) auto
qed

lemma HASH_FIND_ok:
  assumes "uthash_rep hash s xs"
  shows "\<exists>r. HASH_FIND hash s key = Some r \<and> (case r of None \<Rightarrow> \<forall>a \<in> set xs. ut_key s a \<noteq> key | Some a \<Rightarrow> a \<in> set xs \<and> ut_key s a = key)"
proof (cases "xs = []")
  case True
  then show ?thesis using assms by (simp add: uthash_rep_def HASH_FIND_def)
next
  case False
  obtain t where t: "ut_tbl s = Some t" "table_ok hash s t (set xs)" using assms False by (auto simp: uthash_rep_def)
  have h: "ut_head s = Some (hd xs)" using assms False dseg_first [of "ut_next s" "ut_prev s" None "ut_head s" xs None] by (simp add: uthash_rep_def)
  let ?i = "HASH_TO_BKT (hash key) (t_num_buckets t)"
  let ?f = "\<lambda>a. HASH_TO_BKT (ut_hashv s a) (t_num_buckets t)"
  have i: "?i < length (t_buckets t)" using table_ok_bkt [OF t(2)] .
  obtain c where c: "chain_ok (ut_hh_next s) (ut_hh_prev s) ?f (set xs) (t_buckets t) ?i c" using t(2) i by (auto simp: table_ok_def chains_ok_def)
  let ?P = "\<lambda>a. ut_hashv s a = hash key \<and> ut_key s a = key"
  have "dseg (ut_hh_next s) (ut_hh_prev s) None (b_head (t_buckets t ! ?i)) c None" using c by (simp add: chain_ok_def)
  from find_in_bkt [OF this] have "HASH_FIND hash s key = Some (List.find ?P c)"
    using h t(1) i by (simp add: HASH_FIND_def bucket_at_def)
  moreover have "case List.find ?P c of None \<Rightarrow> \<forall>a \<in> set xs. ut_key s a \<noteq> key | Some a \<Rightarrow> a \<in> set xs \<and> ut_key s a = key"
  proof (cases "List.find ?P c")
    case None
    have "ut_key s a \<noteq> key" if "a \<in> set xs" for a
    proof
      assume k: "ut_key s a = key"
      then have hv: "ut_hashv s a = hash key" using t(2) that by (auto simp: table_ok_def)
      then have "a \<in> set c" using c that by (auto simp: chain_ok_def)
      then show False using None k hv by (auto simp: find_None_iff)
    qed
    then show ?thesis using None by simp
  next
    case (Some a)
    then have "a \<in> set c" "ut_key s a = key" by (auto simp: find_Some_iff)
    then show ?thesis using c Some by (auto simp: chain_ok_def)
  qed
  ultimately show ?thesis by blast
qed

text \<open>Expansion. The elements of an old bucket are reached by their links to the next element.\<close>

primrec path :: "(addr \<Rightarrow> ptr) \<Rightarrow> ptr \<Rightarrow> addr list \<Rightarrow> bool" where
  "path nx p [] = (p = None)"
| "path nx p (x # xs) = (p = Some x \<and> path nx (nx x) xs)"

lemma dseg_path: "dseg nx pv q p xs None \<Longrightarrow> path nx p xs"
  by (induction xs arbitrary: q p) auto

lemma path_frame: "(\<And>x. x \<in> set xs \<Longrightarrow> nx' x = nx x) \<Longrightarrow> path nx' p xs = path nx p xs"
  by (induction xs arbitrary: p) auto

lemma expand_one_ok:
  assumes ok: "chains_ok (e_next e) (e_prev e) f S (e_buckets e)" and f: "f = (\<lambda>a. HASH_TO_BKT (hashv a) num)"
    and a: "a \<notin> S" "f a < length (e_buckets e)"
  shows "\<exists>e'. expand_one ideal num hashv a e = Some e' \<and> chains_ok (e_next e') (e_prev e') f (insert a S) (e_buckets e')
    \<and> length (e_buckets e') = length (e_buckets e) \<and> (\<forall>x. x \<noteq> a \<longrightarrow> e_next e' x = e_next e x)"
proof -
  let ?old = "e_buckets e ! f a"
  let ?new = "?old\<lparr>b_count := b_count ?old + 1\<rparr>"
  define b where "b = (if b_count ?new > ideal \<and> b_count ?new > b_expand_mult ?new * ideal then ?new\<lparr>b_expand_mult := b_expand_mult ?new + 1\<rparr> else ?new)\<lparr>b_head := Some a\<rparr>"
  have b: "b_head b = Some a" "b_count b = b_count ?old + 1" by (simp_all add: b_def)
  have "expand_one ideal num hashv a e = Some
      \<lparr>e_prev = (case b_head ?old of None \<Rightarrow> (e_prev e)(a := None) | Some h \<Rightarrow> (e_prev e)(a := None, h := Some a)), e_next = (e_next e)(a := b_head ?old),
        e_buckets = (e_buckets e)[f a := b], e_nonideal = (if b_count ?new > ideal then e_nonideal e + 1 else e_nonideal e)\<rparr>"
    using a(2) unfolding b_def f by (simp add: expand_one_def Let_def)
  then show ?thesis using chains_ok_insert [OF ok a(1) refl a(2) b] by simp
qed

lemma expand_chain_ok:
  assumes "chains_ok (e_next e) (e_prev e) f S (e_buckets e)" and f: "f = (\<lambda>a. HASH_TO_BKT (hashv a) num)"
    and "path (e_next e) p c" "distinct c" "set c \<inter> S = {}" "\<forall>a \<in> set c. f a < length (e_buckets e)"
  shows "\<exists>e'. expand_chain ideal num hashv p e = Some e' \<and> chains_ok (e_next e') (e_prev e') f (S \<union> set c) (e_buckets e')
    \<and> length (e_buckets e') = length (e_buckets e) \<and> (\<forall>x. x \<notin> set c \<longrightarrow> e_next e' x = e_next e x)"
  using assms(1,3-)
proof (induction c arbitrary: S p e)
  case Nil
  then show ?case by (simp add: expand_chain.simps)
next
  case (Cons a c)
  have "a \<notin> S" "f a < length (e_buckets e)" using Cons.prems by auto
  from expand_one_ok [OF Cons.prems(1) f this] obtain e1 where e1: "expand_one ideal num hashv a e = Some e1"
      "chains_ok (e_next e1) (e_prev e1) f (insert a S) (e_buckets e1)" "length (e_buckets e1) = length (e_buckets e)"
      "\<forall>x. x \<noteq> a \<longrightarrow> e_next e1 x = e_next e x" by blast
  have "path (e_next e1) (e_next e a) c = path (e_next e) (e_next e a) c" using Cons.prems(3) e1(4) by (intro path_frame) auto
  then have p: "p = Some a" "path (e_next e1) (e_next e a) c" using Cons.prems(2) by auto
  obtain e2 where "expand_chain ideal num hashv (e_next e a) e1 = Some e2" "chains_ok (e_next e2) (e_prev e2) f (insert a S \<union> set c) (e_buckets e2)"
      "length (e_buckets e2) = length (e_buckets e1)" "\<forall>x. x \<notin> set c \<longrightarrow> e_next e2 x = e_next e1 x"
    using Cons.IH [OF e1(2) p(2)] Cons.prems(3-5) e1(3) by auto
  then show ?case using p(1) e1 by (subst expand_chain.simps) auto
qed

lemma expand_loop_ok:
  assumes "chains_ok (e_next e) (e_prev e) f S (e_buckets e)" and f: "f = (\<lambda>a. HASH_TO_BKT (hashv a) num)"
    and "list_all2 (\<lambda>b c. path (e_next e) (b_head b) c) bs cs" "\<forall>c \<in> set cs. distinct c" "sorted_wrt (\<lambda>c d. set c \<inter> set d = {}) cs"
      "\<forall>c \<in> set cs. set c \<inter> S = {} \<and> (\<forall>a \<in> set c. f a < length (e_buckets e))"
  shows "\<exists>e'. expand_loop ideal num hashv bs e = Some e' \<and> chains_ok (e_next e') (e_prev e') f (S \<union> (\<Union>c \<in> set cs. set c)) (e_buckets e')
    \<and> length (e_buckets e') = length (e_buckets e)"
  using assms(1,3-)
proof (induction bs arbitrary: S e cs)
  case Nil
  then show ?case by simp
next
  case (Cons b bs)
  then obtain c ds where cs: "cs = c # ds" "path (e_next e) (b_head b) c" "list_all2 (\<lambda>b c. path (e_next e) (b_head b) c) bs ds"
    by (auto simp: list_all2_Cons1)
  obtain e1 where e1: "expand_chain ideal num hashv (b_head b) e = Some e1" "chains_ok (e_next e1) (e_prev e1) f (S \<union> set c) (e_buckets e1)"
      "length (e_buckets e1) = length (e_buckets e)" "\<forall>x. x \<notin> set c \<longrightarrow> e_next e1 x = e_next e x"
    using expand_chain_ok [OF Cons.prems(1) f cs(2), of ideal] Cons.prems(3,5) cs(1) by auto
  have dis: "set c \<inter> set d = {}" if "d \<in> set ds" for d using Cons.prems(4) cs(1) that by simp
  have pf: "path (e_next e1) p d \<longleftrightarrow> path (e_next e) p d" if "d \<in> set ds" for p d
    using dis [OF that] e1(4) by (intro path_frame) auto
  have "list_all2 (\<lambda>b c. path (e_next e1) (b_head b) c) bs ds"
    using cs(3) pf [OF nth_mem] by (simp add: list_all2_conv_all_nth)
  moreover have "\<forall>d \<in> set ds. set d \<inter> (S \<union> set c) = {} \<and> (\<forall>a \<in> set d. f a < length (e_buckets e1))"
    using Cons.prems(5) cs(1) dis e1(3) by fastforce
  ultimately obtain e2 where "expand_loop ideal num hashv bs e1 = Some e2"
      "chains_ok (e_next e2) (e_prev e2) f (S \<union> set c \<union> (\<Union>c \<in> set ds. set c)) (e_buckets e2)" "length (e_buckets e2) = length (e_buckets e1)"
    using Cons.IH [OF e1(2), of ds] Cons.prems(3,4) cs(1) by (auto simp: Un_assoc)
  then show ?case using cs(1) e1 by (simp add: Un_assoc)
qed

lemma chains_list:
  assumes "chains_ok nx pv f S bs"
  obtains cs where "length cs = length bs" "\<forall>i < length bs. chain_ok nx pv f S bs i (cs ! i)" "sorted_wrt (\<lambda>c d. set c \<inter> set d = {}) cs"
proof -
  obtain cs where cs: "length cs = length bs" "\<forall>i < length bs. chain_ok nx pv f S bs i (cs ! i)"
    using assms Skolem_list_nth [of "length bs" "chain_ok nx pv f S bs"] by (auto simp: chains_ok_def)
  have "set (cs ! i) \<inter> set (cs ! j) = {}" if "i < j" "j < length cs" for i j
    using cs that by (fastforce simp: chain_ok_def)
  then show ?thesis using that [OF cs] by (simp add: sorted_wrt_iff_nth_less)
qed

lemma unat_pow2: "k < 32 \<Longrightarrow> unat (2 ^ k :: u32) = 2 ^ k"
proof -
  assume "k < 32"
  then have "(2 :: nat) ^ k < 2 ^ 32" by (intro power_strict_increasing) auto
  then show ?thesis using of_nat_inverse [of "2 ^ k" "2 ^ k :: u32"] by simp
qed

text \<open>Operations on the buckets leave the list of elements alone.\<close>

definition same_list :: "'k uthash \<Rightarrow> 'k uthash \<Rightarrow> bool" where
  "same_list s s' \<longleftrightarrow> ut_head s' = ut_head s \<and> ut_prev s' = ut_prev s \<and> ut_next s' = ut_next s \<and> ut_key s' = ut_key s \<and> ut_hashv s' = ut_hashv s"

lemma HASH_EXPAND_BUCKETS_ok:
  assumes t: "table_ok hash s t S" and k: "unat (t_log2_num_buckets t) < 31" and fs: "\<forall>a \<in> S. HASH_TO_BKT (ut_hashv s a) (t_num_buckets t) < length (t_buckets t)"
  shows "\<exists>s' t'. HASH_EXPAND_BUCKETS True t s = Some s' \<and> same_list s s' \<and> ut_tbl s' = Some t' \<and> table_ok hash s' t' S
    \<and> t_tail t' = t_tail t \<and> t_num_items t' = t_num_items t"
proof -
  obtain n where n: "n < 31" "t_log2_num_buckets t = of_nat n" "t_num_buckets t = 2 ^ n" "length (t_buckets t) = 2 ^ n"
    using t k by (auto simp: table_ok_def unat_of_nat)
  define num where "num = t_num_buckets t * 2"
  have num: "num = 2 ^ Suc n" using n(3) by (simp add: num_def mult.commute)
  have unum: "unat num = 2 ^ Suc n" using n(1) unfolding num by (intro unat_pow2) simp
  let ?f = "\<lambda>a. HASH_TO_BKT (ut_hashv s a) (t_num_buckets t)" and ?g = "\<lambda>a. HASH_TO_BKT (ut_hashv s a) num"
  let ?e = "\<lparr>e_prev = ut_hh_prev s, e_next = ut_hh_next s, e_buckets = replicate (unat num) zero_bucket, e_nonideal = 0\<rparr>"
  let ?ideal = "drop_bit (unat (t_log2_num_buckets t + 1)) (t_num_items t) + (if t_num_items t AND (num - 1) \<noteq> 0 then 1 else 0)"
  have "chains_ok (ut_hh_next s) (ut_hh_prev s) ?f S (t_buckets t)" using t unfolding table_ok_def by blast
  then obtain cs where cs: "length cs = length (t_buckets t)" "\<forall>i < length (t_buckets t). chain_ok (ut_hh_next s) (ut_hh_prev s) ?f S (t_buckets t) i (cs ! i)"
      "sorted_wrt (\<lambda>c d. set c \<inter> set d = {}) cs"
    by (rule chains_list)
  have d: "\<forall>c \<in> set cs. distinct c" using cs(1,2) by (metis chain_ok_def in_set_conv_nth)
  have S: "(\<Union>c \<in> set cs. set c) = S"
  proof
    have "set c \<subseteq> S" if mem: "c \<in> set cs" for c
    proof -
      obtain i where "i < length (t_buckets t)" "c = cs ! i" using mem cs(1) by (auto simp: in_set_conv_nth)
      then show ?thesis using cs(2) unfolding chain_ok_def by blast
    qed
    then show "(\<Union>c \<in> set cs. set c) \<subseteq> S" by blast
    show "S \<subseteq> (\<Union>c \<in> set cs. set c)"
    proof
      fix a assume a: "a \<in> S"
      then have f: "?f a < length (t_buckets t)" using fs by blast
      then have "a \<in> set (cs ! ?f a)" using cs(2) a unfolding chain_ok_def by blast
      moreover have "?f a < length cs" using f cs(1) by simp
      ultimately show "a \<in> (\<Union>c \<in> set cs. set c)" by (meson UN_I nth_mem)
    qed
  qed
  have g: "?g a < unat num" for a using n(1) unum unfolding num by (simp add: to_bkt del: power_Suc)
  have p: "list_all2 (\<lambda>b c. path (e_next ?e) (b_head b) c) (t_buckets t) cs"
    using cs(1,2) unfolding list_all2_conv_all_nth chain_ok_def by (metis dseg_path expansion.select_convs(2))
  obtain e where e: "expand_loop ?ideal num (ut_hashv s) (t_buckets t) ?e = Some e" "chains_ok (e_next e) (e_prev e) ?g S (e_buckets e)"
      "length (e_buckets e) = unat num"
    using expand_loop_ok [of ?e ?g "{}" "ut_hashv s" num "t_buckets t" cs ?ideal] p d cs(3) S g by (auto simp: chains_ok_empty)
  show ?thesis
  proof (intro exI conjI)
    show "HASH_EXPAND_BUCKETS True t s = Some (s\<lparr>ut_tbl := Some (t\<lparr>t_buckets := e_buckets e, t_num_buckets := num, t_log2_num_buckets := t_log2_num_buckets t + 1,
        t_ideal_chain_maxlen := ?ideal, t_nonideal_items := e_nonideal e,
        t_ineff_expands := (if e_nonideal e > drop_bit 1 (t_num_items t) then t_ineff_expands t + 1 else 0),
        t_noexpand := (if (if e_nonideal e > drop_bit 1 (t_num_items t) then t_ineff_expands t + 1 else 0) > 1 then 1 else t_noexpand t)\<rparr>),
        ut_hh_prev := e_prev e, ut_hh_next := e_next e\<rparr>)" (is "_ = Some ?s")
      using e(1) unfolding HASH_EXPAND_BUCKETS_def num_def Let_def by simp
    show "table_ok hash ?s (the (ut_tbl ?s)) S"
      using t e n unum num unfolding table_ok_def by (auto intro!: exI [of _ "Suc n"] simp: add.commute)
  qed (simp_all add: same_list_def)
qed

definition can_grow :: "'k uthash \<Rightarrow> bool" where
  "can_grow s \<longleftrightarrow> (case ut_tbl s of None \<Rightarrow> True | Some t \<Rightarrow> unat (t_log2_num_buckets t) < 31)"

lemma HASH_ADD_TO_BKT_ok:
  assumes s: "ut_tbl s = Some t" "table_ok hash s t S" "a \<notin> S" "ut_hashv s a = hash (ut_key s a)" "unat (t_log2_num_buckets t) < 31"
  shows "\<exists>s' t'. HASH_ADD_TO_BKT True (HASH_TO_BKT (ut_hashv s a) (t_num_buckets t)) a s = Some s'
    \<and> same_list s s' \<and> ut_tbl s' = Some t' \<and> table_ok hash s' t' (insert a S)
    \<and> t_tail t' = t_tail t \<and> t_num_items t' = t_num_items t"
proof -
  let ?i = "HASH_TO_BKT (ut_hashv s a) (t_num_buckets t)"
  have i: "?i < length (t_buckets t)" using table_ok_bkt [OF s(2)] .
  let ?old = "t_buckets t ! ?i"
  define b where "b = ?old\<lparr>b_count := b_count ?old + 1, b_head := Some a\<rparr>"
  define nx where "nx = (ut_hh_next s)(a := b_head ?old)"
  define pv where "pv = (case b_head ?old of None \<Rightarrow> (ut_hh_prev s)(a := None) | Some h \<Rightarrow> (ut_hh_prev s)(a := None, h := Some a))"
  define t1 where "t1 = t\<lparr>t_buckets := (t_buckets t)[?i := b]\<rparr>"
  define s1 where "s1 = s\<lparr>ut_hh_next := nx, ut_hh_prev := pv, ut_tbl := Some t1\<rparr>"
  have eq: "HASH_ADD_TO_BKT True ?i a s =
      (if b_count b \<ge> (b_expand_mult b + 1) * HASH_BKT_CAPACITY_THRESH \<and> t_noexpand t1 = 0 then HASH_EXPAND_BUCKETS True t1 s1 else Some s1)"
    using s(1) i unfolding HASH_ADD_TO_BKT_def s1_def t1_def nx_def pv_def b_def bucket_at_def Let_def by (cases "b_head ?old") simp_all
  have c: "chains_ok nx pv (\<lambda>a. HASH_TO_BKT (ut_hashv s a) (t_num_buckets t)) (insert a S) ((t_buckets t)[?i := b])"
    unfolding nx_def pv_def using s(2,3) i by (intro chains_ok_insert) (auto simp: table_ok_def b_def)
  then have ok: "table_ok hash s1 t1 (insert a S)" using s(2,4) by (auto simp: table_ok_def s1_def t1_def)
  show ?thesis
  proof (cases "b_count b \<ge> (b_expand_mult b + 1) * HASH_BKT_CAPACITY_THRESH \<and> t_noexpand t1 = 0")
    case True
    have "unat (t_log2_num_buckets t1) < 31" using s(5) by (simp add: t1_def)
    from HASH_EXPAND_BUCKETS_ok [OF ok this] show ?thesis using True eq table_ok_bkt [OF ok] by (auto simp: s1_def t1_def same_list_def)
  next
    case False
    then show ?thesis using eq ok by (intro exI [of _ s1] exI [of _ t1]) (auto simp: s1_def t1_def same_list_def)
  qed
qed

text \<open>Adding an element puts it at the end of the list, in a table of its own if it is the first one.\<close>

lemma HASH_ADD_ok:
  assumes s: "uthash_rep hash s xs" and a: "a \<notin> set xs" and g: "xs \<noteq> [] \<Longrightarrow> can_grow s"
  shows "\<exists>s'. HASH_ADD hash True a s = Some s' \<and> uthash_rep hash s' (xs @ [a]) \<and> ut_key s' = ut_key s"
proof -
  let ?h = "hash (ut_key s a)"
  have "\<exists>s1 t1. HASH_ADD hash True a s = HASH_ADD_TO_BKT True (HASH_TO_BKT (ut_hashv s1 a) (t_num_buckets t1)) a s1
    \<and> ut_tbl s1 = Some t1 \<and> table_ok hash s1 t1 (set xs) \<and> unat (t_log2_num_buckets t1) < 31
    \<and> t_tail t1 = Some a \<and> t_num_items t1 = of_nat (length (xs @ [a])) \<and> ut_hashv s1 a = ?h \<and> ut_key s1 = ut_key s
    \<and> dseg (ut_next s1) (ut_prev s1) None (ut_head s1) (xs @ [a]) None"
  proof (cases "xs = []")
    case True
    then have h: "ut_head s = None" using s by (simp add: uthash_rep_def)
    obtain t where t: "HASH_MAKE_TABLE True a = Some t" by (simp add: HASH_MAKE_TABLE_def)
    let ?s = "s\<lparr>ut_hashv := (ut_hashv s)(a := ?h), ut_next := (ut_next s)(a := None), ut_prev := (ut_prev s)(a := None), ut_head := Some a,
      ut_tbl := Some (t\<lparr>t_num_items := t_num_items t + 1\<rparr>)\<rparr>"
    have tf: "t_num_items t = 0" "t_tail t = Some a" "t_num_buckets t = 2 ^ 5" "t_log2_num_buckets t = of_nat 5" "t_buckets t = replicate (2 ^ 5) zero_bucket"
      using t by (auto simp: HASH_MAKE_TABLE_def HASH_INITIAL_NUM_BUCKETS_def HASH_INITIAL_NUM_BUCKETS_LOG2_def)
    have ok: "table_ok hash ?s (the (ut_tbl ?s)) (set xs)"
      using True tf unfolding table_ok_def by (auto intro!: chains_ok_empty exI [of _ 5])
    show ?thesis
      using True h t ok tf by (intro exI [of _ ?s] exI [of _ "the (ut_tbl ?s)"]) (simp add: HASH_ADD_def HASH_ADD_TO_TABLE_def Let_def)
  next
    case False
    then obtain t where t: "ut_tbl s = Some t" "t_tail t = Some (last xs)" "t_num_items t = of_nat (length xs)" "table_ok hash s t (set xs)"
      using s by (auto simp: uthash_rep_def)
    have d: "distinct xs" "dseg (ut_next s) (ut_prev s) None (ut_head s) xs None" using s by (auto simp: uthash_rep_def)
    then have h: "ut_head s = Some (hd xs)" using dseg_first [OF d(2)] False by simp
    let ?t = "t\<lparr>t_tail := Some a, t_num_items := t_num_items t + 1\<rparr>"
    let ?s = "s\<lparr>ut_hashv := (ut_hashv s)(a := ?h), ut_prev := (ut_prev s)(a := Some (last xs)), ut_next := (ut_next s)(a := None, last xs := Some a), ut_tbl := Some ?t\<rparr>"
    let ?f = "\<lambda>x. HASH_TO_BKT (ut_hashv s x) (t_num_buckets t)" and ?g = "\<lambda>x. HASH_TO_BKT (((ut_hashv s)(a := ?h)) x) (t_num_buckets t)"
    have "chains_ok (ut_hh_next s) (ut_hh_prev s) ?f (set xs) (t_buckets t)" using t(4) unfolding table_ok_def by blast
    moreover have "?f x = ?g x" if mem: "x \<in> set xs" for x using mem a by auto
    ultimately have "chains_ok (ut_hh_next s) (ut_hh_prev s) ?g (set xs) (t_buckets t)" using chains_ok_cong [of "set xs" ?f ?g] by blast
    then have ok: "table_ok hash ?s ?t (set xs)" using t(4) a unfolding table_ok_def by simp
    show ?thesis
      using h t ok g False dseg_snoc [OF d(2,1) False a] by (intro exI [of _ ?s] exI [of _ ?t]) (simp add: HASH_ADD_def HASH_ADD_TO_TABLE_def HASH_APPEND_LIST_def Let_def can_grow_def)
  qed
  then obtain s1 t1 where s1: "HASH_ADD hash True a s = HASH_ADD_TO_BKT True (HASH_TO_BKT (ut_hashv s1 a) (t_num_buckets t1)) a s1"
    "ut_tbl s1 = Some t1" "table_ok hash s1 t1 (set xs)" "unat (t_log2_num_buckets t1) < 31"
    "t_tail t1 = Some a" "t_num_items t1 = of_nat (length (xs @ [a]))" "ut_hashv s1 a = ?h" "ut_key s1 = ut_key s"
    "dseg (ut_next s1) (ut_prev s1) None (ut_head s1) (xs @ [a]) None" by blast
  have "ut_hashv s1 a = hash (ut_key s1 a)" using s1 by simp
  from HASH_ADD_TO_BKT_ok [OF s1(2,3) a this s1(4)] obtain s2 t2 where "HASH_ADD hash True a s = Some s2" "same_list s1 s2" "ut_tbl s2 = Some t2"
    "table_ok hash s2 t2 (insert a (set xs))" "t_tail t2 = t_tail t1" "t_num_items t2 = t_num_items t1" using s1(1) by auto
  then show ?thesis using s1 s a by (intro exI [of _ s2]) (auto simp: uthash_rep_def same_list_def)
qed

text \<open>Deleting an element takes it out of the list; the table goes with the last one.\<close>

lemma HASH_DEL_IN_BKT_ok:
  assumes t: "ut_tbl s = Some t" "table_ok hash s t S" "a \<in> S"
  shows "\<exists>s' t'. HASH_DEL_IN_BKT (HASH_TO_BKT (ut_hashv s a) (t_num_buckets t)) a s = Some s' \<and> same_list s s' \<and> ut_tbl s' = Some t'
    \<and> table_ok hash s' t' (S - {a}) \<and> t_tail t' = t_tail t \<and> t_num_items t' = t_num_items t"
proof -
  let ?f = "\<lambda>a. HASH_TO_BKT (ut_hashv s a) (t_num_buckets t)"
  let ?i = "?f a"
  let ?nx = "case ut_hh_prev s a of None \<Rightarrow> ut_hh_next s | Some p \<Rightarrow> (ut_hh_next s)(p := ut_hh_next s a)"
  let ?pv = "case ut_hh_next s a of None \<Rightarrow> ut_hh_prev s | Some n \<Rightarrow> (ut_hh_prev s)(n := ut_hh_prev s a)"
  have i: "?i < length (t_buckets t)" using table_ok_bkt [OF t(2)] .
  let ?old = "t_buckets t ! ?i"
  define b where "b = ?old\<lparr>b_count := b_count ?old - 1, b_head := (if b_head ?old = Some a then ut_hh_next s a else b_head ?old)\<rparr>"
  have ch: "chains_ok (ut_hh_next s) (ut_hh_prev s) ?f S (t_buckets t)" using t(2) unfolding table_ok_def by blast
  have c: "chains_ok ?nx ?pv ?f (S - {a}) ((t_buckets t)[?i := b])"
    by (rule chains_ok_delete [OF ch t(3) refl i]) (simp_all add: b_def)
  have "ut_hh_prev s a \<noteq> Some a"
  proof -
    obtain c where c: "chain_ok (ut_hh_next s) (ut_hh_prev s) ?f S (t_buckets t) ?i c" using ch i by (auto simp: chains_ok_def)
    then have "a \<in> set c" using t(3) by (auto simp: chain_ok_def)
    then obtain ys zs where yz: "c = ys @ a # zs" by (meson split_list)
    then have d: "dseg (ut_hh_next s) (ut_hh_prev s) None (b_head ?old) (ys @ a # zs) None" "distinct (ys @ a # zs)" using c by (simp_all add: chain_ok_def)
    show ?thesis using dseg_links(1) [OF d(1)] d(2) last_in_set [of ys] by auto
  qed
  then have nx: "?nx a = ut_hh_next s a" by (auto split: option.split)
  let ?s = "s\<lparr>ut_tbl := Some (t\<lparr>t_buckets := (t_buckets t)[?i := b]\<rparr>), ut_hh_next := ?nx, ut_hh_prev := ?pv\<rparr>"
  have eq: "HASH_DEL_IN_BKT ?i a s = Some ?s"
    using t(1) i nx unfolding HASH_DEL_IN_BKT_def bucket_at_def b_def Let_def by (auto split: option.split)
  have "table_ok hash ?s (the (ut_tbl ?s)) (S - {a})" using t(2) c unfolding table_ok_def by simp
  then show ?thesis using eq by (intro exI [of _ ?s] exI [of _ "the (ut_tbl ?s)"]) (simp add: same_list_def)
qed

lemma HASH_DELETE_ok:
  assumes s: "uthash_rep hash s (ys @ a # zs)"
  shows "\<exists>s'. HASH_DELETE a s = Some s' \<and> uthash_rep hash s' (ys @ zs) \<and> ut_key s' = ut_key s \<and> (ys = [] \<longrightarrow> ut_next s' = ut_next s)
    \<and> (ys @ zs = [] \<longrightarrow> ut_tbl s' = None)"
proof -
  let ?xs = "ys @ a # zs"
  obtain t where t: "ut_tbl s = Some t" "t_tail t = Some (last ?xs)" "t_num_items t = of_nat (length ?xs)" "table_ok hash s t (set ?xs)"
    using s by (auto simp: uthash_rep_def)
  have d: "dseg (ut_next s) (ut_prev s) None (ut_head s) ?xs None" "distinct ?xs" using s by (auto simp: uthash_rep_def)
  note l = dseg_links [OF d(1)]
  show ?thesis
  proof (cases "ys @ zs = []")
    case True
    then show ?thesis using l t(1) by (simp add: HASH_DELETE_def uthash_rep_def)
  next
    case False
    let ?nx = "case ut_prev s a of None \<Rightarrow> ut_next s | Some p \<Rightarrow> (ut_next s)(p := ut_next s a)"
    let ?pv = "case ut_next s a of None \<Rightarrow> ut_prev s | Some n \<Rightarrow> (ut_prev s)(n := ut_prev s a)"
    let ?t = "if t_tail t = Some a then t\<lparr>t_tail := ut_prev s a\<rparr> else t"
    define s1 where "s1 = s\<lparr>ut_tbl := Some ?t, ut_head := (if ut_prev s a = None then ut_next s a else ut_head s), ut_next := ?nx, ut_prev := ?pv\<rparr>"
    have na: "ut_prev s a \<noteq> Some a" using l(1) d(2) last_in_set [of ys] by auto
    have p: "\<not> (ut_prev s a = None \<and> ut_next s a = None)" using l False by auto
    have eq: "HASH_DELETE a s = do {
        s \<leftarrow> HASH_DEL_IN_BKT (HASH_TO_BKT (ut_hashv s1 a) (t_num_buckets ?t)) a s1;
        t \<leftarrow> ut_tbl s;
        Some (s\<lparr>ut_tbl := Some (t\<lparr>t_num_items := t_num_items t - 1\<rparr>)\<rparr>) }"
      using p na t(1) by (cases "ut_prev s a"; cases "ut_next s a") (simp_all add: HASH_DELETE_def s1_def Let_def)
    have "table_ok hash s1 ?t (set ?xs)" using t(4) by (simp add: table_ok_def s1_def)
    from HASH_DEL_IN_BKT_ok [OF _ this, of a] obtain s2 t2 where s2: "HASH_DEL_IN_BKT (HASH_TO_BKT (ut_hashv s1 a) (t_num_buckets ?t)) a s1 = Some s2"
      "same_list s1 s2" "ut_tbl s2 = Some t2" "table_ok hash s2 t2 (set ?xs - {a})" "t_tail t2 = t_tail ?t" "t_num_items t2 = t_num_items t"
      by (auto simp: s1_def)
    let ?t3 = "t2\<lparr>t_num_items := t_num_items t2 - 1\<rparr>"
    let ?s3 = "s2\<lparr>ut_tbl := Some ?t3\<rparr>"
    have set: "set ?xs - {a} = set (ys @ zs)" using d(2) by auto
    have ok: "table_ok hash ?s3 ?t3 (set (ys @ zs))" using s2(4) unfolding set by (simp add: table_ok_def)
    have tail: "t_tail t2 = Some (last (ys @ zs))" using s2(5) t(2) l(1) False d(2) last_in_set [of zs] by (cases "zs = []") auto
    have dl: "dseg (ut_next ?s3) (ut_prev ?s3) None (ut_head ?s3) (ys @ zs) None" using dseg_delete [OF d] s2(2) by (simp add: same_list_def s1_def)
    have "uthash_rep hash ?s3 (ys @ zs)" using dl ok tail d(2) s2(6) t(3) unfolding uthash_rep_def by simp
    moreover have "ys = [] \<longrightarrow> ut_next ?s3 = ut_next s" using s2(2) l(1) by (simp add: same_list_def s1_def)
    moreover have "ut_key ?s3 = ut_key s" using s2(2) by (simp add: same_list_def s1_def)
    ultimately show ?thesis using eq s2 False by auto
  qed
qed

section \<open>Freeing the elements\<close>

lemma delete_loop_ok:
  assumes "uthash_rep hash s xs" "set xs \<inter> set freed = {}" "tmp = (case xs of x # y # _ \<Rightarrow> Some y | _ \<Rightarrow> None)"
  shows "\<exists>s'. delete_loop frees (ut_head s) tmp s freed = Some (s', if frees then freed @ xs else freed) \<and> ut_head s' = None \<and> (xs \<noteq> [] \<longrightarrow> ut_tbl s' = None)"
  using assms
proof (induction xs arbitrary: s freed tmp)
  case Nil
  then show ?case by (simp add: delete_loop.simps uthash_rep_def)
next
  case (Cons x xs)
  obtain s1 where s1: "HASH_DELETE x s = Some s1" "uthash_rep hash s1 xs" "ut_next s1 = ut_next s" "xs = [] \<longrightarrow> ut_tbl s1 = None"
    using HASH_DELETE_ok [of hash s "[]" x xs] Cons.prems(1) by auto
  have h: "ut_head s = Some x" "distinct (x # xs)" using Cons.prems(1) by (auto simp: uthash_rep_def)
  let ?freed = "if frees then freed @ [x] else freed"
  let ?nxt = "case xs of y # z # _ \<Rightarrow> Some z | _ \<Rightarrow> None"
  have d: "dseg (ut_next s1) (ut_prev s1) None (ut_head s1) xs None" using s1(2) by (simp add: uthash_rep_def)
  have tmp: "tmp = ut_head s1" using Cons.prems(3) d by (cases xs) auto
  have nxt: "(case tmp of None \<Rightarrow> Some None | Some q \<Rightarrow> if q \<in> set ?freed then None else Some (ut_next s1 q)) = Some ?nxt"
  proof (cases xs)
    case (Cons y ys)
    then have "ut_next s1 y = (case ys of z # _ \<Rightarrow> Some z | [] \<Rightarrow> None)" using d by (cases ys) auto
    then show ?thesis using Cons h(2) Cons.prems(2,3) by (auto split: list.split)
  qed (use Cons.prems(3) in simp)
  have "set xs \<inter> set ?freed = {}" using h(2) Cons.prems(2) by auto
  from Cons.IH [OF s1(2) this refl] obtain s' where s': "delete_loop frees (ut_head s1) ?nxt s1 ?freed = Some (s', if frees then ?freed @ xs else ?freed)"
    "ut_head s' = None" "xs \<noteq> [] \<longrightarrow> ut_tbl s' = None" by blast
  have "x \<notin> set freed" using Cons.prems(2) by auto
  then have "delete_loop frees (ut_head s) tmp s freed = delete_loop frees tmp ?nxt s1 ?freed"
    using h(1) s1(1) nxt by (subst delete_loop.simps) (simp add: Let_def)
  moreover have "ut_tbl s' = None" if "xs = []"
    using that s'(1) d s1(4) by (auto simp: delete_loop.simps split: if_splits)
  ultimately show ?case using s' tmp by (intro exI [of _ s']) auto
qed

text \<open>Every element is deleted once, and freed once where the body frees it; no element is used after it was freed.\<close>

lemma HASH_ITER_DELETE_ok:
  assumes "uthash_rep hash s xs" "set xs \<inter> set freed = {}"
  shows "\<exists>s'. HASH_ITER_DELETE frees s freed = Some (s', if frees then freed @ xs else freed) \<and> ut_head s' = None \<and> (xs \<noteq> [] \<longrightarrow> ut_tbl s' = None)"
proof -
  have "dseg (ut_next s) (ut_prev s) None (ut_head s) xs None" using assms(1) by (simp add: uthash_rep_def)
  then have "(case ut_head s of None \<Rightarrow> None | Some h \<Rightarrow> ut_next s h) = (case xs of x # y # _ \<Rightarrow> Some y | _ \<Rightarrow> None)"
    by (cases xs rule: list.exhaust [case_product list.exhaust [of "List.tl xs"]]) auto
  then show ?thesis using delete_loop_ok [OF assms] unfolding HASH_ITER_DELETE_def by simp
qed

section \<open>The table as a map\<close>

text \<open>
  Where an element is added only if there is none with its key, the table is a map from keys to elements, which is how the statistics of the
  default monitoring are described.
\<close>

definition entries :: "'k uthash \<Rightarrow> addr list \<Rightarrow> 'k \<rightharpoonup> addr" where
  "entries s xs = map_of (map (\<lambda>a. (ut_key s a, a)) xs)"

definition uthash_map :: "('k \<Rightarrow> u32) \<Rightarrow> 'k uthash \<Rightarrow> 'k list \<Rightarrow> ('k \<rightharpoonup> addr) \<Rightarrow> bool" where
  "uthash_map hash s ks m \<longleftrightarrow> (\<exists>xs. uthash_rep hash s xs \<and> ks = map (ut_key s) xs \<and> distinct ks \<and> m = entries s xs)"

lemma entries_Some: "distinct (map (ut_key s) xs) \<Longrightarrow> entries s xs key = Some a \<longleftrightarrow> a \<in> set xs \<and> ut_key s a = key"
  by (auto simp: entries_def map_of_eq_Some_iff comp_def)

lemma entries_None: "entries s xs key = None \<longleftrightarrow> (\<forall>a \<in> set xs. ut_key s a \<noteq> key)"
  by (auto simp: entries_def map_of_eq_None_iff image_image)

lemma ran_entries: "distinct (map (ut_key s) xs) \<Longrightarrow> ran (entries s xs) = set xs"
  by (auto simp: ran_def entries_Some)

lemma uthash_map_empty: "ut_head s = None \<Longrightarrow> uthash_map hash s [] Map.empty"
  unfolding uthash_map_def by (intro exI [of _ "[]"]) (simp add: uthash_rep_def entries_def)

lemma uthash_rep_key: "a \<notin> set xs \<Longrightarrow> uthash_rep hash (s\<lparr>ut_key := (ut_key s)(a := key)\<rparr>) xs = uthash_rep hash s xs"
proof -
  assume a: "a \<notin> set xs"
  then have "table_ok hash (s\<lparr>ut_key := (ut_key s)(a := key)\<rparr>) t (set xs) = table_ok hash s t (set xs)" for t
    unfolding table_ok_def by (auto simp: fun_upd_def)
  then show ?thesis by (simp add: uthash_rep_def)
qed

lemma HASH_FIND_map:
  assumes "uthash_rep hash s xs" "distinct (map (ut_key s) xs)"
  shows "HASH_FIND hash s key = Some (entries s xs key)"
proof -
  obtain r where r: "HASH_FIND hash s key = Some r" "case r of None \<Rightarrow> \<forall>a \<in> set xs. ut_key s a \<noteq> key | Some a \<Rightarrow> a \<in> set xs \<and> ut_key s a = key"
    using HASH_FIND_ok [OF assms(1)] by blast
  have "entries s xs key = r"
    using r(2) entries_None [of s xs key] entries_Some [OF assms(2), of key] by (cases r) auto
  then show ?thesis using r(1) by simp
qed

lemma find_or_add_map:
  assumes "uthash_map hash s ks m" "new \<notin> ran m" "can_grow s \<or> m = Map.empty"
  shows "\<exists>s'. find_or_add hash True key new s = Some (case m key of Some a \<Rightarrow> a | None \<Rightarrow> new, s')
    \<and> uthash_map hash s' (hash_add key ks) (case m key of Some _ \<Rightarrow> m | None \<Rightarrow> m(key \<mapsto> new))"
proof -
  obtain xs where xs: "uthash_rep hash s xs" "distinct (map (ut_key s) xs)" "m = entries s xs" "ks = map (ut_key s) xs" using assms(1) by (auto simp: uthash_map_def)
  note f = HASH_FIND_map [OF xs(1,2), of key]
  show ?thesis
  proof (cases "m key")
    case (Some a)
    then have "key \<in> set ks" using entries_Some [OF xs(2)] xs(3,4) by auto
    then show ?thesis using f assms(1) xs(3) Some by (simp add: find_or_add_def hash_add_def)
  next
    case None
    let ?s = "s\<lparr>ut_key := (ut_key s)(new := key)\<rparr>"
    have new: "new \<notin> set xs" using assms(2) ran_entries [OF xs(2)] xs(3) by simp
    have g: "can_grow ?s" if ne: "xs \<noteq> []"
    proof -
      have "m \<noteq> Map.empty" using ran_entries [OF xs(2)] xs(3) ne by auto
      then show ?thesis using assms(3) by (simp add: can_grow_def)
    qed
    have "uthash_rep hash ?s xs" using uthash_rep_key [OF new, of hash s key] xs(1) by simp
    from HASH_ADD_ok [OF this new g] obtain s' where s': "HASH_ADD hash True new ?s = Some s'" "uthash_rep hash s' (xs @ [new])" "ut_key s' = ut_key ?s" by blast
    have same: "map (ut_key s') xs = map (ut_key s) xs" using s'(3) new by auto
    have key: "key \<notin> set ks" using None entries_None [of s xs key] xs(3,4) by auto
    have ks: "map (ut_key s') (xs @ [new]) = hash_add key ks" using same s'(3) key xs(4) by (simp add: hash_add_def)
    have d: "distinct (map (ut_key s') (xs @ [new]))" unfolding ks using xs(2,4) key by (simp add: hash_add_def)
    have mem: "a \<in> set (xs @ [new]) \<and> ut_key s' a = k \<longleftrightarrow> (if k = key then a = new else a \<in> set xs \<and> ut_key s a = k)" for a k
      using s'(3) new key xs(4) by (cases "a = new") auto
    have "entries s' (xs @ [new]) k = (m(key \<mapsto> new)) k" for k
    proof -
      have "entries s' (xs @ [new]) k = Some a \<longleftrightarrow> (m(key \<mapsto> new)) k = Some a" for a
        unfolding entries_Some [OF d] mem xs(3) using entries_Some [OF xs(2), of k a] by auto
      then show ?thesis by (metis option.exhaust)
    qed
    then have "entries s' (xs @ [new]) = m(key \<mapsto> new)" by blast
    then have "uthash_map hash s' (hash_add key ks) (m(key \<mapsto> new))"
      unfolding uthash_map_def using s'(2) d unfolding ks by (intro exI [of _ "xs @ [new]"]) (simp add: ks [symmetric])
    then show ?thesis using None f s'(1) xs(3) by (simp add: find_or_add_def)
  qed
qed

lemma HASH_DELETE_map:
  assumes "uthash_map hash s ks m" "m key = Some a"
  shows "\<exists>s'. HASH_DELETE a s = Some s' \<and> uthash_map hash s' (remove1 key ks) (m(key := None))"
proof -
  obtain xs where xs: "uthash_rep hash s xs" "distinct (map (ut_key s) xs)" "m = entries s xs" "ks = map (ut_key s) xs" using assms(1) by (auto simp: uthash_map_def)
  have a: "a \<in> set xs" "ut_key s a = key" using assms(2) entries_Some [OF xs(2)] xs(3) by auto
  obtain ys zs where yz: "xs = ys @ a # zs" using a(1) by (meson split_list)
  obtain s' where s': "HASH_DELETE a s = Some s'" "uthash_rep hash s' (ys @ zs)" "ut_key s' = ut_key s"
    using HASH_DELETE_ok [of hash s ys a zs] xs(1) yz by auto
  have d: "distinct (map (ut_key s') (ys @ zs))" using xs(2) yz s'(3) by simp
  have ks: "remove1 key ks = map (ut_key s') (ys @ zs)" using xs(2,4) yz a(2) s'(3) by (auto simp: remove1_append)
  have mem: "x \<in> set (ys @ zs) \<and> ut_key s x = k \<longleftrightarrow> k \<noteq> key \<and> x \<in> set xs \<and> ut_key s x = k" for x k
  proof -
    have n: "key \<notin> ut_key s ` set (ys @ zs)" using xs(2) yz a(2) by auto
    have "ut_key s x \<noteq> key" if "x \<in> set (ys @ zs)" using n imageI [OF that, of "ut_key s"] by auto
    then show ?thesis using yz a(2) by auto
  qed
  have "entries s' (ys @ zs) k = (m(key := None)) k" for k
  proof -
    have "entries s' (ys @ zs) k = Some x \<longleftrightarrow> (m(key := None)) k = Some x" for x
      unfolding entries_Some [OF d] s'(3) mem xs(3) using entries_Some [OF xs(2), of k x] by auto
    then show ?thesis by (metis option.exhaust)
  qed
  then have "entries s' (ys @ zs) = m(key := None)" by blast
  then have "uthash_map hash s' (remove1 key ks) (m(key := None))" unfolding uthash_map_def ks using s'(2) d by (intro exI [of _ "ys @ zs"]) simp
  then show ?thesis using s'(1) by blast
qed

text \<open>The two tables of addresses hold the same elements: each is freed once.\<close>

lemma addr_info_clear_ok:
  assumes "uthash_rep hi s xs" "uthash_rep hn t ys"
  shows "\<exists>s' t'. addr_info_clear s t = Some (s', t', ys) \<and> ut_head s' = None \<and> ut_head t' = None"
proof -
  obtain s' where s': "HASH_ITER_DELETE False s [] = Some (s', [])" "ut_head s' = None" using HASH_ITER_DELETE_ok [OF assms(1), of "[]" False] by auto
  obtain t' where t': "HASH_ITER_DELETE True t [] = Some (t', ys)" "ut_head t' = None" using HASH_ITER_DELETE_ok [OF assms(2), of "[]" True] by auto
  show ?thesis using s' t' by (simp add: addr_info_clear_def)
qed

lemma free_tables_ok:
  assumes "uthash_rep hr r rs" "uthash_rep hi i is" "uthash_rep hn n ns" "uthash_rep h1 og os" "uthash_rep h2 t ts" "uthash_rep h3 c cs" "uthash_rep h4 b bs"
    and "distinct (rs @ ns @ os @ ts @ cs @ bs)"
  shows "free_tables r i n og t c b = Some (rs @ ns @ os @ ts @ cs @ bs)"
proof -
  have d: "set os \<inter> set (rs @ ns) = {}" "set ts \<inter> set (rs @ ns @ os) = {}" "set cs \<inter> set (rs @ ns @ os @ ts) = {}" "set bs \<inter> set (rs @ ns @ os @ ts @ cs) = {}"
    using assms(8) by auto
  obtain r' where "rpc_info_clear r = Some (r', rs)" using HASH_ITER_DELETE_ok [OF assms(1), of "[]" True] by (auto simp: rpc_info_clear_def)
  moreover obtain i' n' where "addr_info_clear i n = Some (i', n', ns)" using addr_info_clear_ok [OF assms(2,3)] by blast
  moreover obtain o' where "HASH_ITER_DELETE True og (rs @ ns) = Some (o', rs @ ns @ os)"
    using HASH_ITER_DELETE_ok [OF assms(4) d(1), of True] by auto
  moreover obtain t' where "HASH_ITER_DELETE True t (rs @ ns @ os) = Some (t', rs @ ns @ os @ ts)"
    using HASH_ITER_DELETE_ok [OF assms(5) d(2), of True] by auto
  moreover obtain c' where "HASH_ITER_DELETE True c (rs @ ns @ os @ ts) = Some (c', rs @ ns @ os @ ts @ cs)"
    using HASH_ITER_DELETE_ok [OF assms(6) d(3), of True] by auto
  moreover obtain b' where "HASH_ITER_DELETE True b (rs @ ns @ os @ ts @ cs) = Some (b', rs @ ns @ os @ ts @ cs @ bs)"
    using HASH_ITER_DELETE_ok [OF assms(7) d(4), of True] by auto
  ultimately show ?thesis by (simp add: free_tables_def)
qed

lemma rpc_info_clear_map:
  assumes "uthash_map hash s ks m"
  shows "\<exists>s' freed. rpc_info_clear s = Some (s', freed) \<and> distinct freed \<and> set freed = ran m \<and> ut_head s' = None \<and> (ks \<noteq> [] \<longrightarrow> ut_tbl s' = None)"
proof -
  obtain xs where xs: "uthash_rep hash s xs" "distinct (map (ut_key s) xs)" "m = entries s xs" "ks = map (ut_key s) xs" using assms by (auto simp: uthash_map_def)
  have "distinct xs" using xs(1) by (simp add: uthash_rep_def)
  moreover obtain s' where "HASH_ITER_DELETE True s [] = Some (s', xs)" "ut_head s' = None" "xs \<noteq> [] \<longrightarrow> ut_tbl s' = None"
    using HASH_ITER_DELETE_ok [OF xs(1), of "[]" True] by auto
  ultimately show ?thesis using xs(3,4) ran_entries [OF xs(2)] by (intro exI [of _ s'] exI [of _ xs]) (simp add: rpc_info_clear_def)
qed

section \<open>Properties\<close>

text \<open>
  C30: A hash table is a map from keys to elements that keeps the order in which the keys were added: a table without a first element is the empty map;
  looking a key up returns its element; finding or adding returns the element of the key if there is one and otherwise adds the new element, behind the
  others; deleting an element removes its key and no other; and freeing the table frees every element exactly once and the table too.
  This holds through the doubling of the number of buckets, as long as there are fewer than 2 to the 31 of them.
\<close>

theorem uthash_refines_map:
  assumes "uthash_map hash s ks m" "new \<notin> ran m" "can_grow s \<or> ks = []"
  shows "HASH_FIND hash s key = Some (m key)
    \<and> (\<exists>s'. find_or_add hash True key new s = Some (case m key of Some a \<Rightarrow> a | None \<Rightarrow> new, s')
        \<and> uthash_map hash s' (hash_add key ks) (case m key of Some _ \<Rightarrow> m | None \<Rightarrow> m(key \<mapsto> new)))
    \<and> (\<forall>a. m key = Some a \<longrightarrow> (\<exists>s'. HASH_DELETE a s = Some s' \<and> uthash_map hash s' (remove1 key ks) (m(key := None))))
    \<and> (\<exists>s' freed. rpc_info_clear s = Some (s', freed) \<and> distinct freed \<and> set freed = ran m \<and> ut_head s' = None \<and> (ks \<noteq> [] \<longrightarrow> ut_tbl s' = None))
    \<and> (\<forall>s'. ut_head s' = None \<longrightarrow> uthash_map hash s' [] Map.empty)"
proof -
  have "HASH_FIND hash s key = Some (m key)" using assms(1) HASH_FIND_map [of hash s _ key] by (auto simp: uthash_map_def)
  moreover have "can_grow s \<or> m = Map.empty" using assms(1,3) by (auto simp: uthash_map_def entries_def)
  moreover have "\<forall>s'. ut_head s' = None \<longrightarrow> uthash_map hash s' [] Map.empty" using uthash_map_empty [of _ hash] by blast
  ultimately show ?thesis
    using find_or_add_map [OF assms(1,2), of key] HASH_DELETE_map [OF assms(1), of key] rpc_info_clear_map [OF assms(1)] by blast
qed

theorem uthash_refines_map_witness:
  "\<exists>s1 s2. find_or_add of_nat True 39 5 (empty_uthash (0 :: nat)) = Some (5, s1) \<and> HASH_FIND of_nat s1 7 = Some None
    \<and> find_or_add of_nat True 7 6 s1 = Some (6, s2) \<and> uthash_map of_nat s2 [39, 7] [39 \<mapsto> 5, 7 \<mapsto> 6]"
proof -
  let ?e = "empty_uthash (0 :: nat)"
  obtain s1 where s1: "find_or_add of_nat True 39 5 ?e = Some (5, s1)" "uthash_map of_nat s1 [39] [39 \<mapsto> 5]"
    using find_or_add_map [OF uthash_map_empty, of ?e 5 of_nat 39] by (auto simp: empty_uthash_def hash_add_def)
  have "\<not> (10 :: u32) \<le> 1" by (simp add: word_le_nat_alt)
  then have "can_grow s1"
    using s1(1) by (auto simp: find_or_add_def HASH_FIND_def HASH_ADD_def HASH_ADD_TO_TABLE_def HASH_MAKE_TABLE_def HASH_ADD_TO_BKT_def bucket_at_def HASH_TO_BKT_def empty_uthash_def
      can_grow_def zero_bucket_def HASH_INITIAL_NUM_BUCKETS_def HASH_INITIAL_NUM_BUCKETS_LOG2_def HASH_BKT_CAPACITY_THRESH_def Let_def split: if_splits)
  then show ?thesis using uthash_refines_map [OF s1(2), of 6 7] s1(1) by (auto simp: hash_add_def)
qed

end
