(* ===== verification/Abt_Config.thy ===== *)
theory Abt_Config
  imports Config_Api Json_Config
begin

text \<open>
  The JSON side of the Argobots environment (\<^verbatim>\<open>src/margo-abt-config.c\<close>): validation of the
  configuration, initialization of pools, schedulers and execution streams from it, and the output of
  the environment as JSON. Argobots is a parameter: the handles that it creates, the results of its
  calls, and the pools of the main scheduler of a stream are arguments. \<open>abt2\<close> says whether the code was
  compiled for version 2 of Argobots, \<open>initialized\<close> whether Argobots was initialized before. Memory for
  the strings is always available.
\<close>

section \<open>Validation\<close>

definition pool_validate_json :: "bool \<Rightarrow> json option \<Rightarrow> bool" where
  "pool_validate_json initialized jpool =
    (if jpool = None then True
     else if \<not> is_type jpool json_type_object then False
     else
       (let jaccess = object_get jpool ''access'';
            jkind = object_get jpool ''kind'';
            jname = object_get jpool ''name''
        in has_optional jpool ''access'' json_type_string
         \<and> (jaccess \<noteq> None \<longrightarrow> is_in_enum_string jaccess [''private'', ''spsc'', ''mpsc'', ''spmc'', ''mpmc''])
         \<and> has_optional jpool ''kind'' json_type_string
         \<and> (jkind \<noteq> None \<longrightarrow>
              is_in_enum_string jkind [''fifo'', ''fifo_wait'', ''prio_wait'', ''earliest_first'', ''external'']
              \<and> get_string jkind \<noteq> Some ''external'')
         \<and> has_optional jpool ''name'' json_type_string
         \<and> (jname \<noteq> None \<longrightarrow> name_is_valid jpool \<and> (get_string jname = Some ''__primary__'' \<longrightarrow> \<not> initialized))))"

text \<open>A reference of a scheduler to a pool: an index, or a name of the registry or of the array of pools.\<close>

definition pool_ref_valid :: "margo_abt \<Rightarrow> json option \<Rightarrow> json option \<Rightarrow> bool" where
  "pool_ref_valid a jextra_pool_array jpool_ref =
    (case jpool_ref of
       Some (JInt i) \<Rightarrow> 0 \<le> get_int i \<and> get_int i < int (length (pools a)) + int (length (elements jextra_pool_array))
     | Some (JString name) \<Rightarrow>
         find_pool_by_name a (Some name) \<noteq> None
         \<or> (\<exists>p \<in> set (elements jextra_pool_array). get_string (object_get p ''name'') = Some name)
     | _ \<Rightarrow> False)"

definition sched_validate_json :: "bool \<Rightarrow> margo_abt \<Rightarrow> json option \<Rightarrow> json option \<Rightarrow> bool" where
  "sched_validate_json abt2 a jextra_pool_array jsched =
    (if jsched = None then True
     else if \<not> is_type jsched json_type_object then False
     else
       (let jtype = object_get jsched ''type'';
            jsched_pools = object_get jsched ''pools''
        in has_optional jsched ''type'' json_type_string
         \<and> (jtype \<noteq> None \<longrightarrow> is_in_enum_string jtype [''default'', ''basic'', ''prio'', ''randws'', ''basic_wait''])
         \<and> has_optional jsched ''pools'' json_type_array
         \<and> (\<not> abt2 \<longrightarrow> elements jsched_pools \<noteq> [])
         \<and> list_all (pool_ref_valid a jextra_pool_array) (elements jsched_pools)))"

definition xstream_validate_json :: "bool \<Rightarrow> bool \<Rightarrow> margo_abt \<Rightarrow> json option \<Rightarrow> json option \<Rightarrow> bool" where
  "xstream_validate_json abt2 initialized a jextra_pools_array jxstream =
    (if abt2 \<and> jxstream = None then True
     else if \<not> abt2 \<and> \<not> is_type jxstream json_type_object then False
     else
       (let jsched = object_get jxstream ''scheduler'';
            jname = object_get jxstream ''name''
        in has_optional jxstream ''name'' json_type_string
         \<and> has_optional jxstream ''cpubind'' json_type_int
         \<and> has_optional jxstream ''affinity'' json_type_array
         \<and> sched_validate_json abt2 a jextra_pools_array jsched
         \<and> (\<not> abt2 \<longrightarrow> jsched \<noteq> None)
         \<and> list_all (\<lambda>v. is_type v json_type_int) (elements (object_get jxstream ''affinity''))
         \<and> (jname \<noteq> None \<longrightarrow> name_is_valid jxstream
              \<and> (get_string jname = Some ''__primary__'' \<longrightarrow>
                   \<not> initialized \<and> jsched \<noteq> None \<and> elements (object_get jsched ''pools'') \<noteq> []))))"

text \<open>The environment with which the configuration of a new instance is validated: all zero.\<close>

definition dummy_abt :: margo_abt where
  "dummy_abt = \<lparr>pools = [], pools_cap = 0, xstreams = [], xstreams_cap = 0, lock_depth = 0, progress_pool_idx = 0,
     rpc_pool_idx = 0, freed_pools = [], freed_xstreams = []\<rparr>"

text \<open>The check of the environment variables only prints warnings.\<close>

definition abt_validate_json :: "bool \<Rightarrow> bool \<Rightarrow> json option \<Rightarrow> bool" where
  "abt_validate_json abt2 initialized a =
    (if a = None then True
     else if \<not> is_type a json_type_object then False
     else
       (let jpools = object_get a ''pools'';
            jxstreams = object_get a ''xstreams''
        in has_optional a ''pools'' json_type_array
         \<and> has_optional a ''xstreams'' json_type_array
         \<and> has_optional a ''abt_mem_max_num_stacks'' json_type_int
         \<and> has_optional a ''abt_thread_stacksize'' json_type_int
         \<and> has_optional a ''profiling_dir'' json_type_string
         \<and> list_all (pool_validate_json initialized) (elements jpools)
         \<and> names_unique (elements jpools)
         \<and> list_all (xstream_validate_json abt2 initialized dummy_abt jpools) (elements jxstreams)
         \<and> names_unique (elements jxstreams)))"

section \<open>Initialization\<close>

text \<open>\<open>create\<close> is the handle that Argobots returns for the pool, unless it fails.\<close>

definition pool_init_from_json :: "bool \<Rightarrow> ptr \<Rightarrow> json option \<Rightarrow> margo_abt \<Rightarrow> abt_pool option option" where
  "pool_init_from_json abt2 create jpool a = do {
     n \<leftarrow> (case get_string (object_get jpool ''name'') of Some n \<Rightarrow> Some n | None \<Rightarrow> generate_unused_pool_name a);
     let kind = object_get_string_or jpool ''kind'' ''fifo_wait'';
     let access = (case get_string (object_get jpool ''access'') of Some s \<Rightarrow> s | None \<Rightarrow> ''mpmc'');
     Some (if kind \<in> {''fifo_wait'', ''fifo'', ''prio_wait'', ''earliest_first''} \<or> (abt2 \<and> kind = ''randws'')
           then map_option (\<lambda>h. zero_pool\<lparr>p_name := Some n, p_pool := Some h, p_kind := Some kind,
                  p_access := Some access, p_margo_free_flag := True\<rparr>) create
           else None)
   }"

text \<open>The pool that a reference names, with the bounds check.\<close>

definition pool_ref_resolve :: "margo_abt \<Rightarrow> json option \<Rightarrow> ptr option" where
  "pool_ref_resolve a jpool =
    (let pool_idx =
       (case jpool of
          Some (JInt i) \<Rightarrow> nat (get_int i mod 2 ^ 32)
        | _ \<Rightarrow> (case find_index (\<lambda>p. p_name p = get_string jpool) (pools a) of Some i \<Rightarrow> i | None \<Rightarrow> length (pools a)))
     in if pool_idx \<ge> length (pools a) then None else Some (p_pool (pools a ! pool_idx)))"

text \<open>The type and the pools of the scheduler; \<open>create\<close> is whether \<^verbatim>\<open>ABT_sched_create_basic\<close> succeeds.\<close>

definition sched_init_from_json :: "bool \<Rightarrow> json option \<Rightarrow> margo_abt \<Rightarrow> (string \<times> ptr list) option" where
  "sched_init_from_json create jsched a =
    (case those (map (pool_ref_resolve a) (elements (object_get jsched ''pools''))) of
       None \<Rightarrow> None
     | Some abt_pools \<Rightarrow> if create then Some (object_get_string_or jsched ''type'' ''basic_wait'', abt_pools) else None)"

text \<open>\<open>sched\<close> are the pools of the scheduler, unless Argobots reports an error.\<close>

definition sched_init_external :: "ptr list option \<Rightarrow> margo_abt \<Rightarrow> string option" where
  "sched_init_external sched a =
    (case sched of
       None \<Rightarrow> None
     | Some ps \<Rightarrow> if list_all (\<lambda>p. find_pool_by_handle a p \<noteq> None) ps then Some ''external'' else None)"

text \<open>
  What Argobots does for a stream: whether the scheduler could be created, the pools it makes for a
  scheduler without pools, the stream that \<^verbatim>\<open>ABT_xstream_create\<close> stores (its result is overwritten
  before it is tested), the calling stream (unless that fails), whether its scheduler could be changed,
  and the pools of the scheduler it had before.
\<close>

record xstream_env =
  xe_sched_create :: bool
  xe_default_pools :: "ptr list"
  xe_create :: ptr
  xe_self :: ptr
  xe_set_main_sched :: bool
  xe_old_pools :: "ptr list option"

text \<open>The part after the stream exists: count it in its pools. Binding to processors is left out.\<close>

definition xstream_count_pools :: "bool \<Rightarrow> ptr list \<Rightarrow> abt_xstream \<Rightarrow> margo_abt \<Rightarrow> margo_abt \<times> abt_xstream option" where
  "xstream_count_pools primary ps x a =
    (case count_xstream (\<lambda>n. n + 1) primary ps a of
       (a, True) \<Rightarrow> (a, Some x)
     | (a, False) \<Rightarrow> (xstream_destroy (Some ps) x a, None))"

definition xstream_init_from_json ::
  "xstream_env \<Rightarrow> json option \<Rightarrow> margo_abt \<Rightarrow> (margo_abt \<times> abt_xstream option) option" where
  "xstream_init_from_json e jxstream a = do {
     n \<leftarrow> (case get_string (object_get jxstream ''name'') of Some n \<Rightarrow> Some n | None \<Rightarrow> generate_unused_xstream_name a);
     let x = zero_xstream\<lparr>x_name := Some n\<rparr>;
     Some (case sched_init_from_json (xe_sched_create e) (object_get jxstream ''scheduler'') a of
         None \<Rightarrow> (xstream_destroy None x a, None)
       | Some (ty, abt_pools) \<Rightarrow>
           (let x = x\<lparr>x_sched_type := Some ty\<rparr>;
                ps = (if abt_pools = [] then xe_default_pools e else abt_pools)
            in if n \<noteq> ''__primary__''
               then xstream_count_pools False ps (x\<lparr>x_xstream := xe_create e, x_margo_free_flag := True\<rparr>) a
               else
                 (case xe_self e of
                    None \<Rightarrow> (xstream_destroy None x a, None)
                  | Some self \<Rightarrow>
                      (let x = x\<lparr>x_xstream := Some self\<rparr>
                       in if \<not> xe_set_main_sched e then (xstream_destroy (xe_old_pools e) x a, None)
                          else xstream_count_pools True ps x a))))
   }"

text \<open>\<open>main_pools\<close> gives the pools of the main scheduler of a stream, unless Argobots reports an error.\<close>

definition abt_destroy :: "(ptr \<Rightarrow> ptr list option) \<Rightarrow> margo_abt \<Rightarrow> margo_abt" where
  "abt_destroy main_pools a =
    (let a = foldl (\<lambda>a x. xstream_destroy (main_pools (x_xstream x)) x a) a (xstreams a);
         a = foldl (\<lambda>a p. pool_destroy p a) a (pools a)
     in a\<lparr>pools := [], pools_cap := 0, xstreams := [], xstreams_cap := 0\<rparr>)"

text \<open>The loops over the two arrays of the configuration; the results say whether all went well.\<close>

fun init_pools :: "bool \<Rightarrow> (nat \<Rightarrow> ptr) \<Rightarrow> json option list \<Rightarrow> margo_abt \<Rightarrow> (margo_abt \<times> bool) option" where
  "init_pools abt2 create [] a = Some (a, True)"
| "init_pools abt2 create (jpool # jpools) a = do {
     p \<leftarrow> pool_init_from_json abt2 (create (length (pools a))) jpool a;
     (case p of
        None \<Rightarrow> Some (a, False)
      | Some p \<Rightarrow> init_pools abt2 create jpools (a\<lparr>pools := pools a @ [p]\<rparr>))
   }"

fun init_xstreams :: "(nat \<Rightarrow> xstream_env) \<Rightarrow> json option list \<Rightarrow> margo_abt \<Rightarrow> (margo_abt \<times> bool) option" where
  "init_xstreams xe [] a = Some (a, True)"
| "init_xstreams xe (jxstream # jxstreams) a = do {
     (a, x) \<leftarrow> xstream_init_from_json (xe (length (xstreams a))) jxstream a;
     (case x of
        None \<Rightarrow> Some (a, False)
      | Some x \<Rightarrow> init_xstreams xe jxstreams (a\<lparr>xstreams := xstreams a @ [x]\<rparr>))
   }"

text \<open>
  What the initialization depends on: the version of Argobots, whether it was initialized before and
  whether \<^verbatim>\<open>ABT_init\<close> succeeds, the two allocations, the pools and streams that are created, and the
  stream that calls.
\<close>

record abt_env =
  ae_abt2 :: bool
  ae_initialized :: bool
  ae_init :: bool
  ae_calloc_pools :: bool
  ae_calloc_xstreams :: bool
  ae_pool :: "nat \<Rightarrow> ptr"
  ae_xstream :: "nat \<Rightarrow> xstream_env"
  ae_main_pools :: "ptr \<Rightarrow> ptr list option"
  ae_self :: ptr

text \<open>Add a primary stream if the configuration has none, with the primary pool or a new one.\<close>

definition add_primary :: "abt_env \<Rightarrow> nat option \<Rightarrow> margo_abt \<Rightarrow> (margo_abt \<times> bool) option" where
  "add_primary e primary_pool_idx a =
    (if \<not> ae_initialized e
     then do {
       (a, ok) \<leftarrow> (case primary_pool_idx of
                   Some i \<Rightarrow> Some (a, True)
                 | None \<Rightarrow> init_pools (ae_abt2 e) (ae_pool e)
                     [Some (JObject [(''name'', Some (JString ''__primary__'')), (''access'', Some (JString ''mpmc''))])] a);
       if \<not> ok then Some (a, False)
       else do {
         let i = (case primary_pool_idx of Some i \<Rightarrow> i | None \<Rightarrow> length (pools a) - 1);
         let a = a\<lparr>pools := (pools a)[i := (pools a ! i)\<lparr>p_margo_free_flag := False\<rparr>]\<rparr>;
         init_xstreams (ae_xstream e)
           [Some (JObject [(''name'', Some (JString ''__primary__'')),
              (''scheduler'', Some (JObject [(''pools'', Some (JArray [Some (JInt (int i))]))]))])] a
       }
     }
     else do {
       let primary_pool = (case ae_main_pools e (ae_self e) of Some (p # _) \<Rightarrow> p | _ \<Rightarrow> None);
       p \<leftarrow> pool_init_external (Some ''__primary__'') primary_pool a;
       let a = a\<lparr>pools := pools a @ [p]\<rparr>;
       let sched = ae_main_pools e (ae_self e);
       (a, x) \<leftarrow> xstream_init_external sched (sched_init_external sched a) (Some ''__primary__'') (ae_self e) a;
       Some (case x of None \<Rightarrow> (a, False) | Some x \<Rightarrow> (a\<lparr>xstreams := xstreams a @ [x]\<rparr>, True))
     })"

text \<open>
  The whole initialization; the count of instances, the environment variables and the profiler are
  left out. On an error everything that was created is destroyed.
\<close>

definition abt_init_from_json :: "abt_env \<Rightarrow> json option \<Rightarrow> (margo_abt \<times> bool) option" where
  "abt_init_from_json e jabt = do {
     let a = dummy_abt;
     let jpools = elements (object_get jabt ''pools'');
     let jxstreams = elements (object_get jabt ''xstreams'');
     let fail = (\<lambda>a. Some (abt_destroy (ae_main_pools e) a, False));
     if \<not> ae_initialized e \<and> \<not> ae_init e then fail a
     else do {
       let a = a\<lparr>pools_cap := length jpools + 3\<rparr>;
       if \<not> ae_calloc_pools e then fail a
       else do {
         (a, ok) \<leftarrow> init_pools (ae_abt2 e) (ae_pool e) jpools a;
         if \<not> ok then fail a
         else do {
           let a = a\<lparr>xstreams_cap := length jxstreams + 1\<rparr>;
           if \<not> ae_calloc_xstreams e then fail a
           else do {
             (a, ok) \<leftarrow> init_xstreams (ae_xstream e) jxstreams a;
             if \<not> ok then fail a
             else do {
               let primary_pool_idx = find_pool_by_name a (Some ''__primary__'');
               case find_xstream_by_name a (Some ''__primary__'') of
                 Some i \<Rightarrow>
                   (case ae_main_pools e (x_xstream (xstreams a ! i)) of
                      None \<Rightarrow> fail a
                    | Some ps \<Rightarrow>
                        (let primary_es_pool_idx = find_pool_by_handle a (case ps of p # _ \<Rightarrow> p | [] \<Rightarrow> None)
                         in if primary_pool_idx \<noteq> None \<and> primary_pool_idx \<noteq> primary_es_pool_idx then fail a
                            else Some (a, True)))
               | None \<Rightarrow> do {
                   (a, ok) \<leftarrow> add_primary e primary_pool_idx a;
                   if ok then Some (a, True) else fail a
                 }
             }
           }
         }
       }
     }
   }"

section \<open>Output\<close>

definition jstring :: "string option \<Rightarrow> json option" where
  "jstring s = map_option JString s"

definition pool_to_json :: "abt_pool \<Rightarrow> json option" where
  "pool_to_json p =
     Some (JObject ([(''kind'', jstring (p_kind p)), (''name'', jstring (p_name p))]
       @ (case p_access p of Some s \<Rightarrow> [(''access'', Some (JString s))] | None \<Rightarrow> [])))"

text \<open>The bits \<^verbatim>\<open>MARGO_CONFIG_HIDE_EXTERNAL\<close> and \<^verbatim>\<open>MARGO_CONFIG_USE_NAMES\<close> of the options.\<close>

record config_options =
  hide_external :: bool
  use_names :: bool

definition sched_to_json :: "config_options \<Rightarrow> string option \<Rightarrow> ptr list option \<Rightarrow> margo_abt \<Rightarrow> json option" where
  "sched_to_json options ty sched a =
     Some (JObject
       [(''type'', jstring ty),
        (''pools'', Some (JArray (concat (map (\<lambda>pool.
            case find_pool_by_handle a pool of
              None \<Rightarrow> []
            | Some i \<Rightarrow>
                if hide_external options \<and> p_kind (pools a ! i) = Some ''external'' then []
                else if use_names options then [jstring (p_name (pools a ! i))]
                else [Some (JInt (int i))])
          (case sched of None \<Rightarrow> [] | Some ps \<Rightarrow> ps)))))])"

text \<open>\<open>cpubind\<close> and \<open>affinity\<close> are what Argobots reports for a stream, unless it reports an error.\<close>

definition xstream_to_json ::
  "config_options \<Rightarrow> (ptr \<Rightarrow> ptr list option) \<Rightarrow> (ptr \<Rightarrow> int option) \<Rightarrow> (ptr \<Rightarrow> int list option) \<Rightarrow> margo_abt \<Rightarrow> abt_xstream \<Rightarrow> json option" where
  "xstream_to_json options main_pools cpubind affinity a x =
    (case main_pools (x_xstream x) of
       None \<Rightarrow> Some (JObject [])
     | Some ps \<Rightarrow>
         Some (JObject ([(''scheduler'', sched_to_json options (x_sched_type x) (Some ps) a), (''name'', jstring (x_name x))]
           @ (case cpubind (x_xstream x) of Some c \<Rightarrow> [(''cpubind'', Some (JInt c))] | None \<Rightarrow> [])
           @ (case affinity (x_xstream x) of Some cs \<Rightarrow> [(''affinity'', Some (JArray (map (\<lambda>c. Some (JInt c)) cs)))] | None \<Rightarrow> []))))"

text \<open>\<open>num_stacks\<close> and \<open>stacksize\<close> are the values of the environment variables, if they are set.\<close>

definition abt_to_json ::
  "config_options \<Rightarrow> (ptr \<Rightarrow> ptr list option) \<Rightarrow> (ptr \<Rightarrow> int option) \<Rightarrow> (ptr \<Rightarrow> int list option) \<Rightarrow>
   int option \<Rightarrow> int option \<Rightarrow> string \<Rightarrow> bool \<Rightarrow> margo_abt \<Rightarrow> json option" where
  "abt_to_json options main_pools cpubind affinity num_stacks stacksize profiling_dir lazy_stack_alloc a =
    (let jxstreams = map (xstream_to_json options main_pools cpubind affinity a)
           (filter (\<lambda>x. \<not> (hide_external options \<and> x_sched_type x = Some ''external'')) (xstreams a));
         jpools = map pool_to_json (filter (\<lambda>p. \<not> (hide_external options \<and> p_kind p = Some ''external'')) (pools a))
     in Some (JObject ([(''pools'', Some (JArray jpools)), (''xstreams'', Some (JArray jxstreams))]
          @ (case num_stacks of Some n \<Rightarrow> [(''abt_mem_max_num_stacks'', Some (JInt n))] | None \<Rightarrow> [])
          @ (case stacksize of Some n \<Rightarrow> [(''abt_thread_stacksize'', Some (JInt n))] | None \<Rightarrow> [])
          @ [(''profiling_dir'', Some (JString profiling_dir)), (''lazy_stack_alloc'', Some (JBool lazy_stack_alloc))])))"

section \<open>Adding a stream\<close>

definition abt_add_xstream_from_json ::
  "bool \<Rightarrow> bool \<Rightarrow> bool \<Rightarrow> xstream_env \<Rightarrow> json option \<Rightarrow> margo_abt \<Rightarrow> (margo_abt \<times> bool) option" where
  "abt_add_xstream_from_json abt2 initialized realloc_ok e config a =
    (if \<not> xstream_validate_json abt2 initialized a None config then Some (a, False)
     else if find_xstream_by_name a (get_string (object_get config ''name'')) \<noteq> None then Some (a, False)
     else
       (case xstreams_space realloc_ok a of
          None \<Rightarrow> Some (a, False)
        | Some a \<Rightarrow> do {
            (a, x) \<leftarrow> xstream_init_from_json e config a;
            Some (case x of None \<Rightarrow> (a, False) | Some x \<Rightarrow> (a\<lparr>xstreams := xstreams a @ [x]\<rparr>, True))
          }))"

text \<open>\<open>config\<close> is the parsed string: \<^const>\<open>None\<close> if it is not JSON, otherwise the value.\<close>

definition margo_add_xstream_from_json ::
  "bool \<Rightarrow> bool \<Rightarrow> bool \<Rightarrow> xstream_env \<Rightarrow> margo_abt option \<Rightarrow> json option option \<Rightarrow>
   (margo_abt option \<times> hg_return \<times> info option) option" where
  "margo_add_xstream_from_json abt2 initialized realloc_ok e mid config =
    (case mid of
       None \<Rightarrow> Some (None, HG_INVALID_ARG, None)
     | Some a \<Rightarrow>
         (case config of
            None \<Rightarrow> Some (Some a, HG_INVALID_ARG, None)
          | Some config \<Rightarrow> do {
              (a, b) \<leftarrow> abt_add_xstream_from_json abt2 initialized realloc_ok e config (abt_lock a);
              Some (if b then (Some (abt_unlock a), HG_SUCCESS, Some (xstream_info a (length (xstreams a) - 1)))
                    else (Some (abt_unlock a), HG_INVALID_ARG, None))
            }))"

text \<open>The whole operation for a pool; the registry has it with the results of validation and creation as arguments.\<close>

definition abt_add_pool_from_config ::
  "bool \<Rightarrow> bool \<Rightarrow> bool \<Rightarrow> ptr \<Rightarrow> json option \<Rightarrow> margo_abt \<Rightarrow> (margo_abt \<times> bool) option" where
  "abt_add_pool_from_config abt2 initialized realloc_ok create config a =
    (if \<not> pool_validate_json initialized config then Some (a, False)
     else if find_pool_by_name a (get_string (object_get config ''name'')) \<noteq> None then Some (a, False)
     else
       (case pools_space realloc_ok a of
          None \<Rightarrow> Some (a, False)
        | Some a \<Rightarrow> do {
            p \<leftarrow> pool_init_from_json abt2 create config a;
            Some (case p of None \<Rightarrow> (a, False) | Some p \<Rightarrow> (a\<lparr>pools := pools a @ [p]\<rparr>, True))
          }))"

section \<open>Accepted configurations can be built\<close>

lemma has_optional_string: "has_optional j k json_type_string \<Longrightarrow> object_get j k = None \<or> (\<exists>s. object_get j k = Some (JString s))"
  by (cases "object_get j k") (auto simp: has_optional_def elim: type_of.elims)

text \<open>What a pool or a stream takes from its description.\<close>

definition pool_matches :: "json option \<Rightarrow> abt_pool \<Rightarrow> bool" where
  "pool_matches j p \<longleftrightarrow> p_kind p = Some (object_get_string_or j ''kind'' ''fifo_wait'')
     \<and> p_access p = Some (object_get_string_or j ''access'' ''mpmc'')
     \<and> p_name p \<noteq> None \<and> (object_get j ''name'' \<noteq> None \<longrightarrow> p_name p = get_string (object_get j ''name''))
     \<and> p_pool p \<noteq> None"

definition xstream_matches :: "json option \<Rightarrow> abt_xstream \<Rightarrow> bool" where
  "xstream_matches j x \<longleftrightarrow> x_sched_type x = Some (object_get_string_or (object_get j ''scheduler'') ''type'' ''basic_wait'')
     \<and> x_name x \<noteq> None \<and> (object_get j ''name'' \<noteq> None \<longrightarrow> x_name x = get_string (object_get j ''name''))
     \<and> x_xstream x \<noteq> None"

lemma pool_validate_kind:
  "pool_validate_json initialized j \<Longrightarrow> object_get_string_or j ''kind'' ''fifo_wait'' \<in> {''fifo_wait'', ''fifo'', ''prio_wait'', ''earliest_first''}"
  by (auto simp: pool_validate_json_def object_get_string_or_def is_in_enum_string_def get_string_def object_get_def [of None] Let_def
      split: option.splits json.splits if_splits)

lemma pool_init_ok:
  assumes v: "pool_validate_json initialized j"
  shows "\<exists>p. pool_init_from_json abt2 (Some h) j a = Some (Some p) \<and> pool_matches j p \<and> p_pool p = Some h"
proof -
  let ?kind = "object_get_string_or j ''kind'' ''fifo_wait''"
  have k: "?kind \<in> {''fifo_wait'', ''fifo'', ''prio_wait'', ''earliest_first''}"
    using v by (rule pool_validate_kind)
  obtain n where n: "generate_unused_pool_name a = Some n" using generate_unused_pool_name_ok by blast
  have "has_optional j ''name'' json_type_string \<and> has_optional j ''access'' json_type_string"
    using v by (cases j) (auto simp: pool_validate_json_def has_optional_def object_get_def [of None] Let_def split: if_splits)
  then have nm: "object_get j ''name'' = None \<or> (\<exists>s. object_get j ''name'' = Some (JString s))"
    and ac: "object_get j ''access'' = None \<or> (\<exists>s. object_get j ''access'' = Some (JString s))"
    using has_optional_string by blast+
  show ?thesis
    using k nm ac n
    by (auto simp: pool_init_from_json_def pool_matches_def get_string_def object_get_string_or_def [of j "''access''"] split: option.splits)
qed

text \<open>So the theorems of the registry about \<^const>\<open>abt_add_pool_from_json\<close> are theorems about JSON descriptions.\<close>

lemma abt_add_pool_from_config_registry:
  "abt_add_pool_from_config abt2 initialized realloc_ok create config a =
   abt_add_pool_from_json (pool_validate_json initialized config) realloc_ok (get_string (object_get config ''name''))
     (map_option (\<lambda>h. (h, object_get_string_or config ''kind'' ''fifo_wait'',
        Some (case get_string (object_get config ''access'') of Some s \<Rightarrow> s | None \<Rightarrow> ''mpmc''))) create) a"
proof (cases "pool_validate_json initialized config")
  case True
  then have "object_get_string_or config ''kind'' ''fifo_wait'' \<in> {''fifo_wait'', ''fifo'', ''prio_wait'', ''earliest_first''}"
    by (rule pool_validate_kind)
  then have p: "pool_init_from_json abt2 create config b =
      Option.bind (case get_string (object_get config ''name'') of Some n \<Rightarrow> Some n | None \<Rightarrow> generate_unused_pool_name b)
        (\<lambda>n. Some (map_option (\<lambda>h. zero_pool\<lparr>p_name := Some n, p_pool := Some h, p_kind := Some (object_get_string_or config ''kind'' ''fifo_wait''),
           p_access := Some (case get_string (object_get config ''access'') of Some s \<Rightarrow> s | None \<Rightarrow> ''mpmc''), p_margo_free_flag := True\<rparr>) create))" for b
    unfolding pool_init_from_json_def Let_def by simp
  show ?thesis
    using True unfolding abt_add_pool_from_config_def abt_add_pool_from_json_def p
    by (cases create) (simp_all add: o_def split: option.split)
qed (simp add: abt_add_pool_from_config_def abt_add_pool_from_json_def)

lemma init_pools_ok:
  assumes "list_all (pool_validate_json initialized) js" and "\<And>i. create i \<noteq> None"
  shows "\<exists>ps. init_pools abt2 create js a = Some (a\<lparr>pools := pools a @ ps\<rparr>, True) \<and> list_all2 pool_matches js ps"
  using assms(1)
proof (induction js arbitrary: a)
  case Nil
  then show ?case by simp
next
  case (Cons j js)
  obtain h where h: "create (length (pools a)) = Some h" using assms(2) by blast
  obtain p where p: "pool_init_from_json abt2 (Some h) j a = Some (Some p)" "pool_matches j p"
    using pool_init_ok [of initialized j abt2 h a] Cons.prems by auto
  obtain ps where "init_pools abt2 create js (a\<lparr>pools := pools a @ [p]\<rparr>) = Some (a\<lparr>pools := (pools a @ [p]) @ ps\<rparr>, True)" "list_all2 pool_matches js ps"
    using Cons.IH [of "a\<lparr>pools := pools a @ [p]\<rparr>"] Cons.prems by auto
  then show ?case using h p by (intro exI [of _ "p # ps"]) simp
qed

text \<open>References that were validated against the configuration resolve in the registry.\<close>

lemma get_int_mod: "0 \<le> get_int i \<Longrightarrow> get_int i mod 2 ^ 32 = get_int i"
  by (rule mod_pos_pos_trivial) (simp_all add: get_int_def)

lemma pool_ref_resolves:
  assumes v: "pool_ref_valid dummy_abt jpools r" and m: "list_all2 pool_matches (elements jpools) (pools a)"
  shows "\<exists>h. pool_ref_resolve a r = Some (Some h) \<and> Some h \<in> p_pool ` set (pools a)"
proof -
  have l: "length (elements jpools) = length (pools a)" using m by (rule list_all2_lengthD)
  have ok: "\<exists>h. Some (p_pool (pools a ! i)) = Some (Some h) \<and> Some h \<in> p_pool ` set (pools a)" if "i < length (pools a)" for i
  proof -
    have "p_pool (pools a ! i) \<noteq> None" using list_all2_nthD2 [OF m that] by (simp add: pool_matches_def)
    then show ?thesis using that by (metis imageI not_None_eq nth_mem)
  qed
  consider i where "r = Some (JInt i)" "0 \<le> get_int i" "get_int i < int (length (pools a))"
    | s p where "r = Some (JString s)" "p \<in> set (elements jpools)" "get_string (object_get p ''name'') = Some s"
    using v l by (auto simp: pool_ref_valid_def dummy_abt_def find_pool_by_name_def split: option.splits json.splits)
  then show ?thesis
  proof cases
    case 1
    then have "nat (get_int i mod 2 ^ 32) < length (pools a)" using get_int_mod [of i] by simp
    then show ?thesis using ok 1(1) by (simp add: pool_ref_resolve_def)
  next
    case 2
    then obtain k where k: "k < length (pools a)" "elements jpools ! k = p" using l by (metis in_set_conv_nth)
    then have "p_name (pools a ! k) = Some s"
      using list_all2_nthD2 [OF m k(1)] 2(3) by (auto simp: pool_matches_def get_string_def split: option.splits)
    then have "find_index (\<lambda>q. p_name q = Some s) (pools a) \<noteq> None"
      using k(1) by (auto simp: find_index_None_iff)
    then obtain i where i: "find_index (\<lambda>q. p_name q = Some s) (pools a) = Some i" by blast
    then have "i < length (pools a)" using find_index_SomeD by blast
    then show ?thesis using ok i 2(1) by (simp add: pool_ref_resolve_def get_string_def)
  qed
qed

lemma those_ok:
  "list_all (\<lambda>x. \<exists>y. f x = Some y \<and> P y) xs \<Longrightarrow> \<exists>ys. those (map f xs) = Some ys \<and> list_all P ys \<and> length ys = length xs"
  by (induction xs) auto

lemma sched_init_ok:
  assumes v: "sched_validate_json False dummy_abt jpools jsched" and n: "jsched \<noteq> None"
    and m: "list_all2 pool_matches (elements jpools) (pools a)"
  shows "\<exists>hs. sched_init_from_json True jsched a = Some (object_get_string_or jsched ''type'' ''basic_wait'', hs) \<and> hs \<noteq> []
    \<and> list_all (\<lambda>h. h \<noteq> None \<and> h \<in> p_pool ` set (pools a)) hs"
proof -
  let ?rs = "elements (object_get jsched ''pools'')"
  have r: "list_all (pool_ref_valid dummy_abt jpools) ?rs" "?rs \<noteq> []"
    using v n by (auto simp: sched_validate_json_def Let_def split: if_splits)
  have "list_all (\<lambda>r. \<exists>h. pool_ref_resolve a r = Some h \<and> (h \<noteq> None \<and> h \<in> p_pool ` set (pools a))) ?rs"
    using r(1) pool_ref_resolves [OF _ m] unfolding list_all_iff by blast
  then obtain hs where "those (map (pool_ref_resolve a) ?rs) = Some hs" "list_all (\<lambda>h. h \<noteq> None \<and> h \<in> p_pool ` set (pools a)) hs" "length hs = length ?rs"
    using those_ok [of "pool_ref_resolve a" "\<lambda>h. h \<noteq> None \<and> h \<in> p_pool ` set (pools a)"] by blast
  then show ?thesis using r(2) by (auto simp: sched_init_from_json_def)
qed

text \<open>What counting a stream leaves alone.\<close>

definition static :: "margo_abt \<Rightarrow> (string option \<times> ptr \<times> string option \<times> string option) list" where
  "static a = map (\<lambda>p. (p_name p, p_pool p, p_kind p, p_access p)) (pools a)"

lemma static_handles:
  assumes "static a = static b"
  shows "p_pool ` set (pools a) = p_pool ` set (pools b)"
proof -
  have "p_pool ` set (pools x) = (fst \<circ> snd) ` set (static x)" for x by (simp add: static_def image_image)
  then show ?thesis using assms by simp
qed

lemma static_matches:
  assumes "static a = static b"
  shows "list_all2 pool_matches js (pools a) = list_all2 pool_matches js (pools b)"
proof -
  let ?P = "\<lambda>j (n, h, k, c). k = Some (object_get_string_or j ''kind'' ''fifo_wait'') \<and> c = Some (object_get_string_or j ''access'' ''mpmc'')
    \<and> n \<noteq> None \<and> (object_get j ''name'' \<noteq> None \<longrightarrow> n = get_string (object_get j ''name'')) \<and> h \<noteq> (None :: ptr)"
  have "list_all2 pool_matches js (pools x) = list_all2 ?P js (static x)" for x
    by (simp add: static_def list_all2_map2 pool_matches_def [abs_def])
  then show ?thesis using assms by simp
qed

lemma count_xstream_ok:
  "list_all (\<lambda>h. h \<noteq> None \<and> h \<in> p_pool ` set (pools a)) hs \<Longrightarrow>
   \<exists>a'. count_xstream f b hs a = (a', True) \<and> static a' = static a \<and> xstreams a' = xstreams a"
proof (induction hs arbitrary: a)
  case Nil
  then show ?case by simp
next
  case (Cons h hs)
  obtain p where "p \<in> set (pools a)" "p_pool p = h" "h \<noteq> None" using Cons.prems by auto
  then have "find_pool_by_handle a h \<noteq> None"
    using find_index_None_iff [of "\<lambda>p. p_pool p = h" "pools a"] by (auto simp: find_pool_by_handle_def)
  then obtain i where i: "find_pool_by_handle a h = Some i" by blast
  let ?e = "(pools a ! i)\<lparr>p_num_xstreams := f (p_num_xstreams (pools a ! i)), p_used_by_primary := p_used_by_primary (pools a ! i) \<or> b\<rparr>"
  let ?a = "a\<lparr>pools := (pools a)[i := ?e]\<rparr>"
  have s: "static ?a = static a" by (simp add: static_def map_update_same)
  then have "list_all (\<lambda>h. h \<noteq> None \<and> h \<in> p_pool ` set (pools ?a)) hs" using Cons.prems static_handles [OF s] by (simp add: list_all_iff)
  then obtain a' where "count_xstream f b hs ?a = (a', True)" "static a' = static ?a" "xstreams a' = xstreams ?a" using Cons.IH by blast
  then show ?case using i s by (simp add: Let_def)
qed

text \<open>What Argobots needs to provide for a stream.\<close>

definition xstream_env_ok :: "xstream_env \<Rightarrow> bool" where
  "xstream_env_ok e \<longleftrightarrow> xe_sched_create e \<and> xe_create e \<noteq> None \<and> xe_self e \<noteq> None \<and> xe_set_main_sched e"

lemma generated_xstream_not_primary: "generate_unused_xstream_name a = Some n \<Longrightarrow> n \<noteq> ''__primary__''"
  using generate_unused_xstream_name_ok [of a] by (auto simp: xstream_name_def)

lemma xstream_init_ok:
  assumes e: "xstream_env_ok e" and s: "sched_init_from_json True (object_get jx ''scheduler'') a =
      Some (object_get_string_or (object_get jx ''scheduler'') ''type'' ''basic_wait'', hs)" "hs \<noteq> []"
      "list_all (\<lambda>h. h \<noteq> None \<and> h \<in> p_pool ` set (pools a)) hs"
    and o: "has_optional jx ''name'' json_type_string"
  shows "\<exists>a' x. xstream_init_from_json e jx a = Some (a', Some x) \<and> xstream_matches jx x \<and> static a' = static a
    \<and> xstreams a' = xstreams a \<and> (object_get jx ''name'' = None \<longrightarrow> x_name x \<noteq> Some ''__primary__'')"
proof -
  obtain n where n: "(case get_string (object_get jx ''name'') of Some n \<Rightarrow> Some n | None \<Rightarrow> generate_unused_xstream_name a) = Some n"
    using generate_unused_xstream_name_ok [of a] by (cases "get_string (object_get jx ''name'')") auto
  have nm: "object_get jx ''name'' \<noteq> None \<Longrightarrow> Some n = get_string (object_get jx ''name'')"
    using n has_optional_string [OF o] by (auto simp: get_string_def)
  have np: "object_get jx ''name'' = None \<Longrightarrow> n \<noteq> ''__primary__''"
    using n generated_xstream_not_primary by (simp add: get_string_def)
  obtain c where c: "count_xstream (\<lambda>n. n + 1) (n = ''__primary__'') hs a = (c, True)" "static c = static a" "xstreams c = xstreams a"
    using count_xstream_ok [OF s(3)] by blast
  obtain x where "xstream_init_from_json e jx a = Some (c, Some x)" "x_name x = Some n" "x_xstream x \<noteq> None"
      "x_sched_type x = Some (object_get_string_or (object_get jx ''scheduler'') ''type'' ''basic_wait'')"
    using n s(1,2) c(1) e by (cases "n = ''__primary__''") (auto simp: xstream_init_from_json_def xstream_env_ok_def xstream_count_pools_def)
  then show ?thesis using c nm np by (auto simp: xstream_matches_def)
qed

lemma init_xstreams_ok:
  assumes "list_all (xstream_validate_json False initialized dummy_abt jpools) js"
    and "\<And>i. xstream_env_ok (xe i)" and "list_all2 pool_matches (elements jpools) (pools a)"
  shows "\<exists>a' xs. init_xstreams xe js a = Some (a', True) \<and> xstreams a' = xstreams a @ xs \<and> static a' = static a
    \<and> list_all2 (\<lambda>j x. xstream_matches j x \<and> (object_get j ''name'' = None \<longrightarrow> x_name x \<noteq> Some ''__primary__'')) js xs"
  using assms(1,3)
proof (induction js arbitrary: a)
  case Nil
  then show ?case by simp
next
  case (Cons j js)
  have v: "xstream_validate_json False initialized dummy_abt jpools j" using Cons.prems(1) by simp
  then have sv: "sched_validate_json False dummy_abt jpools (object_get j ''scheduler'')" "object_get j ''scheduler'' \<noteq> None"
      "has_optional j ''name'' json_type_string"
    by (auto simp: xstream_validate_json_def Let_def split: if_splits)
  obtain hs where hs: "sched_init_from_json True (object_get j ''scheduler'') a =
      Some (object_get_string_or (object_get j ''scheduler'') ''type'' ''basic_wait'', hs)" "hs \<noteq> []"
      "list_all (\<lambda>h. h \<noteq> None \<and> h \<in> p_pool ` set (pools a)) hs"
    using sched_init_ok [OF sv(1,2) Cons.prems(2)] by blast
  obtain b x where b: "xstream_init_from_json (xe (length (xstreams a))) j a = Some (b, Some x)" "xstream_matches j x" "static b = static a"
      "xstreams b = xstreams a" "object_get j ''name'' = None \<longrightarrow> x_name x \<noteq> Some ''__primary__''"
    using xstream_init_ok [OF assms(2) hs sv(3)] by blast
  let ?b = "b\<lparr>xstreams := xstreams b @ [x]\<rparr>"
  have sb: "static ?b = static a" using b(3) by (simp add: static_def)
  then have "list_all2 pool_matches (elements jpools) (pools ?b)" using Cons.prems(2) static_matches [OF sb] by simp
  then obtain a' xs where "init_xstreams xe js ?b = Some (a', True)" "xstreams a' = xstreams ?b @ xs" "static a' = static ?b"
      "list_all2 (\<lambda>j x. xstream_matches j x \<and> (object_get j ''name'' = None \<longrightarrow> x_name x \<noteq> Some ''__primary__'')) js xs"
    using Cons.IH [of ?b] Cons.prems(1) by auto
  then show ?case using b sb by (intro exI [of _ a'] exI [of _ "x # xs"]) simp
qed

text \<open>The stream that is added when the configuration names none.\<close>

lemma primary_xstream_ok:
  assumes e: "xstream_env_ok e" and i: "i < length (pools a)" "length (pools a) \<le> 2 ^ 31" and h: "p_pool (pools a ! i) \<noteq> None"
  shows "\<exists>a' x. xstream_init_from_json e (Some (JObject [(''name'', Some (JString ''__primary__'')),
      (''scheduler'', Some (JObject [(''pools'', Some (JArray [Some (JInt (int i))]))]))])) a = Some (a', Some x)
    \<and> x_name x = Some ''__primary__'' \<and> static a' = static a \<and> xstreams a' = xstreams a"
proof -
  let ?js = "Some (JObject [(''pools'', Some (JArray [Some (JInt (int i))]))])"
  let ?j = "Some (JObject [(''name'', Some (JString ''__primary__'')), (''scheduler'', ?js)])"
  have "nat (get_int (int i) mod 2 ^ 32) = i" using i by (simp add: get_int_def)
  then have "pool_ref_resolve a (Some (JInt (int i))) = Some (p_pool (pools a ! i))"
    using i(1) by (simp add: pool_ref_resolve_def)
  then have s: "sched_init_from_json True (object_get ?j ''scheduler'') a =
      Some (object_get_string_or (object_get ?j ''scheduler'') ''type'' ''basic_wait'', [p_pool (pools a ! i)])"
    by (simp add: sched_init_from_json_def object_get_string_or_def elements_def)
  have l: "list_all (\<lambda>h. h \<noteq> None \<and> h \<in> p_pool ` set (pools a)) [p_pool (pools a ! i)]"
    using i(1) h by simp
  show ?thesis
    using xstream_init_ok [OF e s _ l] by (auto simp: has_optional_def xstream_matches_def get_string_def)
qed

text \<open>The pool that is added when there is no primary pool.\<close>

lemma primary_pool_ok:
  assumes "\<And>i. create i \<noteq> None"
  shows "\<exists>p. init_pools abt2 create [Some (JObject [(''name'', Some (JString ''__primary__'')), (''access'', Some (JString ''mpmc''))])] a =
      Some (a\<lparr>pools := pools a @ [p]\<rparr>, True) \<and> p_name p = Some ''__primary__'' \<and> p_pool p \<noteq> None"
proof -
  obtain h where "create (length (pools a)) = Some h" using assms by blast
  then show ?thesis
    by (intro exI [of _ "zero_pool\<lparr>p_name := Some ''__primary__'', p_pool := Some h, p_kind := Some ''fifo_wait'',
          p_access := Some ''mpmc'', p_margo_free_flag := True\<rparr>"])
      (simp add: pool_init_from_json_def get_string_def object_get_string_or_def)
qed

lemma add_primary_ok:
  assumes e: "\<not> ae_initialized e" "\<And>i. ae_pool e i \<noteq> None" "\<And>i. xstream_env_ok (ae_xstream e i)"
    and idx: "idx = find_pool_by_name a (Some ''__primary__'')"
    and h: "\<forall>p \<in> set (pools a). p_pool p \<noteq> None" and l: "length (pools a) < 2 ^ 31"
  shows "\<exists>a' ps x. add_primary e idx a = Some (a', True) \<and> xstreams a' = xstreams a @ [x] \<and> x_name x = Some ''__primary__''
    \<and> static a' = static a @ ps \<and> length ps \<le> 1 \<and> Some ''__primary__'' \<in> fst ` set (static a')"
proof -
  let ?flag = "\<lambda>a i. a\<lparr>pools := (pools a)[i := (pools a ! i)\<lparr>p_margo_free_flag := False\<rparr>]\<rparr>"
  have flag: "static (?flag b i) = static b" for b i by (simp add: static_def map_update_same)
  let ?new = "init_pools (ae_abt2 e) (ae_pool e)
      [Some (JObject [(''name'', Some (JString ''__primary__'')), (''access'', Some (JString ''mpmc''))])] a"
  have "\<exists>b i ps. (case idx of Some i \<Rightarrow> Some (a, True) | None \<Rightarrow> ?new) = Some (b, True)
      \<and> i = (case idx of Some i \<Rightarrow> i | None \<Rightarrow> length (pools b) - 1) \<and> i < length (pools b) \<and> p_name (pools b ! i) = Some ''__primary__''
      \<and> p_pool (pools b ! i) \<noteq> None \<and> static b = static a @ ps \<and> length ps \<le> 1 \<and> xstreams b = xstreams a \<and> length (pools b) \<le> 2 ^ 31"
  proof (cases idx)
    case None
    obtain p where "?new = Some (a\<lparr>pools := pools a @ [p]\<rparr>, True)" "p_name p = Some ''__primary__''" "p_pool p \<noteq> None"
      using primary_pool_ok [of "ae_pool e" "ae_abt2 e" a] e(2) by blast
    then show ?thesis using None l
      by (intro exI [of _ "a\<lparr>pools := pools a @ [p]\<rparr>"] exI [of _ "length (pools a)"] exI [of _ "[(p_name p, p_pool p, p_kind p, p_access p)]"])
        (simp add: static_def del: init_pools.simps)
  next
    case (Some k)
    then have "k < length (pools a)" "p_name (pools a ! k) = Some ''__primary__''"
      using idx find_index_SomeD [of "\<lambda>p. p_name p = Some ''__primary__''" "pools a" k] by (auto simp: find_pool_by_name_def)
    then show ?thesis using Some h l by (intro exI [of _ a] exI [of _ k] exI [of _ "[]"]) simp
  qed
  then obtain b i ps where b: "(case idx of Some i \<Rightarrow> Some (a, True) | None \<Rightarrow> ?new) = Some (b, True)"
      and i: "i = (case idx of Some i \<Rightarrow> i | None \<Rightarrow> length (pools b) - 1)" "i < length (pools b)" "p_name (pools b ! i) = Some ''__primary__''"
      and p: "p_pool (pools b ! i) \<noteq> None" and st: "static b = static a @ ps" "length ps \<le> 1" "xstreams b = xstreams a" "length (pools b) \<le> 2 ^ 31"
    by (elim exE conjE) rule
  obtain a' x where x: "xstream_init_from_json (ae_xstream e (length (xstreams b)))
      (Some (JObject [(''name'', Some (JString ''__primary__'')), (''scheduler'', Some (JObject [(''pools'', Some (JArray [Some (JInt (int i))]))]))])) (?flag b i)
      = Some (a', Some x)" "x_name x = Some ''__primary__''" "static a' = static (?flag b i)" "xstreams a' = xstreams (?flag b i)"
    using primary_xstream_ok [OF e(3) [of "length (xstreams b)"], of i "?flag b i"] i(2) st(4) p by auto
  let ?a = "a'\<lparr>xstreams := xstreams a' @ [x]\<rparr>"
  have s: "static ?a = static b" using x(3) flag by (simp add: static_def)
  have "(Some ''__primary__'', p_pool (pools b ! i), p_kind (pools b ! i), p_access (pools b ! i)) \<in> set (static b)"
    using i(2,3) nth_mem [OF i(2)] by (force simp: static_def)
  then have "Some ''__primary__'' \<in> fst ` set (static ?a)" unfolding s by force
  moreover have "add_primary e idx a = Some (?a, True)"
    using e(1) b x(1,4) st(3) by (simp add: add_primary_def i(1) [symmetric] Let_def)
  ultimately show ?thesis using x(2,4) s st by (intro exI [of _ ?a] exI [of _ ps] exI [of _ x]) simp
qed

text \<open>
  A configuration that validation accepts is one that initialization can build. When Argobots was not
  running before, its calls and the allocations succeed, and the configuration leaves the primary stream
  to the library, initialization succeeds; the registry then has the pools and the streams of the
  configuration in their order, with their names, kinds, access and scheduler types, followed by at
  most one more pool and by the primary stream, and there is a primary pool.
\<close>

theorem valid_config_is_built:
  assumes "abt_validate_json False False j" and "\<not> ae_initialized e" "\<not> ae_abt2 e" "ae_init e" "ae_calloc_pools e" "ae_calloc_xstreams e"
    and "\<forall>i. ae_pool e i \<noteq> None" "\<forall>i. xstream_env_ok (ae_xstream e i)"
    and "\<forall>x \<in> set (elements (object_get j ''xstreams'')). get_string (object_get x ''name'') \<noteq> Some ''__primary__''"
    and "length (elements (object_get j ''pools'')) < 2 ^ 31"
  shows "\<exists>a x. abt_init_from_json e j = Some (a, True)
    \<and> list_all2 pool_matches (elements (object_get j ''pools'')) (take (length (elements (object_get j ''pools''))) (pools a))
    \<and> length (pools a) \<le> length (elements (object_get j ''pools'')) + 1
    \<and> list_all2 xstream_matches (elements (object_get j ''xstreams'')) (butlast (xstreams a))
    \<and> last (xstreams a) = x \<and> xstreams a \<noteq> [] \<and> x_name x = Some ''__primary__''
    \<and> (\<exists>i. find_pool_by_name a (Some ''__primary__'') = Some i)"
proof -
  let ?jps = "elements (object_get j ''pools'')" and ?jxs = "elements (object_get j ''xstreams'')"
  have v: "list_all (pool_validate_json False) ?jps" "list_all (xstream_validate_json False False dummy_abt (object_get j ''pools'')) ?jxs"
    using assms(1) by (cases j; auto simp: abt_validate_json_def Let_def object_get_def [of None] elements_def [of None] split: if_splits)+
  obtain ps where ps: "init_pools False (ae_pool e) ?jps (dummy_abt\<lparr>pools_cap := length ?jps + 3\<rparr>)
      = Some (dummy_abt\<lparr>pools_cap := length ?jps + 3, pools := ps\<rparr>, True)" "list_all2 pool_matches ?jps ps"
    using init_pools_ok [OF v(1), of "ae_pool e" False "dummy_abt\<lparr>pools_cap := length ?jps + 3\<rparr>"] assms(7) by (auto simp: dummy_abt_def)
  let ?a = "dummy_abt\<lparr>pools_cap := length ?jps + 3, pools := ps, xstreams_cap := length ?jxs + 1\<rparr>"
  obtain b xs where b: "init_xstreams (ae_xstream e) ?jxs ?a = Some (b, True)" "xstreams b = xs" "static b = static ?a"
      "list_all2 (\<lambda>j x. xstream_matches j x \<and> (object_get j ''name'' = None \<longrightarrow> x_name x \<noteq> Some ''__primary__'')) ?jxs xs"
    using init_xstreams_ok [OF v(2), of "ae_xstream e" ?a] assms(8) ps(2) by (auto simp: dummy_abt_def)
  have xm: "list_all2 xstream_matches ?jxs xs" using b(4) by (rule list_all2_mono) simp
  have "x_name x \<noteq> Some ''__primary__''" if x: "x \<in> set xs" for x
  proof -
    obtain k where k: "k < length xs" "x = xs ! k" using x by (auto simp: in_set_conv_nth)
    then have "get_string (object_get (?jxs ! k) ''name'') \<noteq> Some ''__primary__''"
      using assms(9) list_all2_lengthD [OF b(4)] by simp
    then show ?thesis using list_all2_nthD2 [OF b(4) k(1)] k(2) by (cases "object_get (?jxs ! k) ''name''") (auto simp: xstream_matches_def)
  qed
  then have np: "find_xstream_by_name b (Some ''__primary__'') = None"
    using b(2) by (simp add: find_xstream_by_name_def find_index_None_iff)
  have pm: "list_all2 pool_matches ?jps (pools b)" using ps(2) static_matches [OF b(3)] by simp
  have len: "length (pools b) = length ?jps" using list_all2_lengthD [OF pm] by simp
  have "\<forall>p \<in> set (pools b). p_pool p \<noteq> None"
    using list_all2_nthD2 [OF pm] by (fastforce simp: in_set_conv_nth pool_matches_def)
  then obtain a' ps' x where a': "add_primary e (find_pool_by_name b (Some ''__primary__'')) b = Some (a', True)"
      "xstreams a' = xstreams b @ [x]" "x_name x = Some ''__primary__''" "static a' = static b @ ps'" "length ps' \<le> 1"
      "Some ''__primary__'' \<in> fst ` set (static a')"
    using add_primary_ok [OF assms(2) spec [OF assms(7)] spec [OF assms(8)] refl, of b] assms(10) len by metis
  have "length (pools a') = length (pools b) + length ps'" using arg_cong [OF a'(4), of length] by (simp add: static_def)
  moreover have "static (a'\<lparr>pools := take (length ?jps) (pools a')\<rparr>) = static b"
    using arg_cong [OF a'(4), of "take (length ?jps)"] len by (simp add: static_def take_map)
  then have "list_all2 pool_matches ?jps (take (length ?jps) (pools a'))" using pm static_matches [of "a'\<lparr>pools := take (length ?jps) (pools a')\<rparr>"] by simp
  moreover have "find_pool_by_name a' (Some ''__primary__'') \<noteq> None"
    using a'(6) by (auto simp: find_pool_by_name_def find_index_None_iff static_def)
  moreover have "abt_init_from_json e j = Some (a', True)"
    using assms(2-6) ps(1) b(1) np a'(1) by (simp add: abt_init_from_json_def Let_def)
  ultimately show ?thesis using a' b(2) xm len by (intro exI [of _ a'] exI [of _ x]) simp
qed

theorem valid_config_is_built_witness:
  "let j = Some (JObject [(''pools'', Some (JArray [Some (JObject [(''name'', Some (JString ''p'')), (''kind'', Some (JString ''prio_wait''))])])),
        (''xstreams'', Some (JArray [Some (JObject [(''scheduler'', Some (JObject [(''pools'', Some (JArray [Some (JString ''p'')]))]))])]))]);
       xe = \<lparr>xe_sched_create = True, xe_default_pools = [], xe_create = Some 10, xe_self = Some 11, xe_set_main_sched = True, xe_old_pools = None\<rparr>;
       e = \<lparr>ae_abt2 = False, ae_initialized = False, ae_init = True, ae_calloc_pools = True, ae_calloc_xstreams = True,
         ae_pool = (\<lambda>i. Some (i + 1)), ae_xstream = (\<lambda>i. xe), ae_main_pools = (\<lambda>_. None), ae_self = Some 11\<rparr>
   in \<exists>a x. abt_init_from_json e j = Some (a, True) \<and> last (xstreams a) = x \<and> x_name x = Some ''__primary__''"
proof -
  let ?j = "Some (JObject [(''pools'', Some (JArray [Some (JObject [(''name'', Some (JString ''p'')), (''kind'', Some (JString ''prio_wait''))])])),
        (''xstreams'', Some (JArray [Some (JObject [(''scheduler'', Some (JObject [(''pools'', Some (JArray [Some (JString ''p'')]))]))])]))])"
  let ?xe = "\<lparr>xe_sched_create = True, xe_default_pools = [], xe_create = Some 10, xe_self = Some 11, xe_set_main_sched = True, xe_old_pools = None\<rparr>"
  let ?e = "\<lparr>ae_abt2 = False, ae_initialized = False, ae_init = True, ae_calloc_pools = True, ae_calloc_xstreams = True,
         ae_pool = (\<lambda>i. Some (i + 1)), ae_xstream = (\<lambda>i. ?xe), ae_main_pools = (\<lambda>_. None), ae_self = Some 11\<rparr>"
  have "abt_validate_json False False ?j"
    by (simp add: abt_validate_json_def pool_validate_json_def xstream_validate_json_def sched_validate_json_def pool_ref_valid_def has_optional_def
        elements_def get_string_def is_in_enum_string_def name_is_valid_def valid_name_def isalnum_def isdigit_def names_unique_def find_pool_by_name_def)
  then show ?thesis
    using valid_config_is_built [of ?j ?e] by (auto simp: xstream_env_ok_def elements_def get_string_def)
qed

section \<open>The output describes the environment\<close>

text \<open>
  The environments that can be described: pools and streams that margo made, with distinct valid names and
  distinct handles, whose schedulers have at least one pool and only registered ones.
\<close>

definition pool_describable :: "abt_pool \<Rightarrow> bool" where
  "pool_describable p \<longleftrightarrow> p_kind p \<in> Some ` {''fifo'', ''fifo_wait'', ''prio_wait'', ''earliest_first''}
     \<and> p_access p \<in> Some ` {''private'', ''spsc'', ''mpsc'', ''spmc'', ''mpmc''}
     \<and> p_name p \<noteq> None \<and> valid_name (the (p_name p)) \<and> p_pool p \<noteq> None"

definition xstream_describable :: "(ptr \<Rightarrow> ptr list option) \<Rightarrow> margo_abt \<Rightarrow> abt_xstream \<Rightarrow> bool" where
  "xstream_describable main_pools a x \<longleftrightarrow> x_sched_type x \<in> Some ` {''default'', ''basic'', ''prio'', ''randws'', ''basic_wait''}
     \<and> x_name x \<noteq> None \<and> valid_name (the (x_name x)) \<and> x_xstream x \<noteq> None
     \<and> (case main_pools (x_xstream x) of None \<Rightarrow> False
        | Some ps \<Rightarrow> ps \<noteq> [] \<and> list_all (\<lambda>h. h \<noteq> None \<and> h \<in> p_pool ` set (pools a)) ps)"

definition abt_describable :: "(ptr \<Rightarrow> ptr list option) \<Rightarrow> margo_abt \<Rightarrow> bool" where
  "abt_describable main_pools a \<longleftrightarrow> list_all pool_describable (pools a) \<and> distinct (map p_name (pools a)) \<and> distinct (map p_pool (pools a))
     \<and> length (pools a) < 2 ^ 31 \<and> list_all (xstream_describable main_pools a) (xstreams a) \<and> distinct (map x_name (xstreams a))"

lemma pool_to_json_get [simp]:
  "object_get (pool_to_json p) ''kind'' = jstring (p_kind p)"
  "object_get (pool_to_json p) ''name'' = jstring (p_name p)"
  "object_get (pool_to_json p) ''access'' = jstring (p_access p)"
  by (auto simp: pool_to_json_def jstring_def split: option.splits)

lemma jstring_inj [simp]: "jstring s = jstring t \<longleftrightarrow> s = t"
  by (cases s; cases t) (auto simp: jstring_def)

lemma get_jstring [simp]: "get_string (jstring s) = s"
  by (cases s) (auto simp: jstring_def get_string_def)

lemma jstring_None [simp]: "jstring s = None \<longleftrightarrow> s = None"
  by (simp add: jstring_def)

lemma jstring_type [simp]: "is_type (jstring s) json_type_string \<longleftrightarrow> s \<noteq> None"
  by (cases s) (auto simp: jstring_def)

lemma describable_pool:
  assumes "pool_describable p"
  shows "pool_validate_json False (pool_to_json p)" and "pool_matches (pool_to_json p) p"
proof -
  have o: "is_type (pool_to_json p) json_type_object" "pool_to_json p \<noteq> None" by (auto simp: pool_to_json_def)
  show "pool_validate_json False (pool_to_json p)"
    using assms o unfolding pool_validate_json_def
    by (auto simp: pool_describable_def has_optional_def is_in_enum_string_def name_is_valid_def Let_def)
  show "pool_matches (pool_to_json p) p"
    using assms by (auto simp: pool_matches_def pool_describable_def object_get_string_or_def jstring_def get_string_def)
qed

lemma names_unique_jstring:
  "distinct (map f xs) \<Longrightarrow> (\<And>x. object_get (g x) ''name'' = jstring (f x)) \<Longrightarrow> names_unique (map g xs)"
  by (auto simp: names_unique_def distinct_conv_nth)

text \<open>The reference that is written for a pool of a scheduler.\<close>

definition pool_to_ref :: "config_options \<Rightarrow> margo_abt \<Rightarrow> ptr \<Rightarrow> json option" where
  "pool_to_ref options a h = (case find_pool_by_handle a h of None \<Rightarrow> None
     | Some i \<Rightarrow> if use_names options then jstring (p_name (pools a ! i)) else Some (JInt (int i)))"

lemma pool_to_ref_ok:
  assumes d: "abt_describable mp a" and h: "h \<noteq> None" "h \<in> p_pool ` set (pools a)"
  shows "\<exists>i. find_pool_by_handle a h = Some i \<and> p_kind (pools a ! i) \<noteq> Some ''external''"
    and "pool_ref_resolve a (pool_to_ref options a h) = Some h"
    and "pool_ref_valid dummy_abt (Some (JArray (map pool_to_json (pools a)))) (pool_to_ref options a h)"
proof -
  obtain i where i: "i < length (pools a)" "p_pool (pools a ! i) = h" using h(2) by (auto simp: in_set_conv_nth)
  have dh: "distinct (map p_pool (pools a))" and dn: "distinct (map p_name (pools a))" and l: "length (pools a) < 2 ^ 31"
    and pd: "pool_describable (pools a ! i)"
    using d i(1) by (auto simp: abt_describable_def list_all_length)
  have f: "find_pool_by_handle a h = Some i"
    using find_index_distinct [OF dh i(1)] i(2) h(1) by (simp add: find_pool_by_handle_def)
  show "\<exists>i. find_pool_by_handle a h = Some i \<and> p_kind (pools a ! i) \<noteq> Some ''external''"
    using f pd by (auto simp: pool_describable_def)
  obtain n where n: "p_name (pools a ! i) = Some n" using pd by (auto simp: pool_describable_def)
  have fn: "find_index (\<lambda>p. p_name p = Some n) (pools a) = Some i" using find_index_distinct [OF dn i(1)] n by simp
  have gi: "get_int (int i) = int i" using i(1) l by (simp add: get_int_def)
  then have "nat (get_int (int i) mod 2 ^ 32) = i" using i(1) l by simp
  then show "pool_ref_resolve a (pool_to_ref options a h) = Some h"
    using f n fn i by (cases "use_names options") (simp_all add: pool_to_ref_def pool_ref_resolve_def jstring_def get_string_def)
  show "pool_ref_valid dummy_abt (Some (JArray (map pool_to_json (pools a)))) (pool_to_ref options a h)"
    using f n gi i nth_mem [OF i(1)]
    by (cases "use_names options") (auto simp: pool_to_ref_def pool_ref_valid_def jstring_def elements_def dummy_abt_def get_string_def intro!: bexI [of _ "pools a ! i"])
qed

lemma sched_to_json_refs:
  assumes d: "abt_describable mp a" and h: "list_all (\<lambda>h. h \<noteq> None \<and> h \<in> p_pool ` set (pools a)) ps"
  shows "sched_to_json options ty (Some ps) a = Some (JObject [(''type'', jstring ty), (''pools'', Some (JArray (map (pool_to_ref options a) ps)))])"
proof -
  have "concat (map (\<lambda>pool. case find_pool_by_handle a pool of None \<Rightarrow> []
            | Some i \<Rightarrow> if hide_external options \<and> p_kind (pools a ! i) = Some ''external'' then []
                else if use_names options then [jstring (p_name (pools a ! i))] else [Some (JInt (int i))]) ps) = map (pool_to_ref options a) ps"
    using h
  proof (induction ps)
    case Nil
    then show ?case by simp
  next
    case (Cons h hs)
    then obtain i where "find_pool_by_handle a h = Some i" "p_kind (pools a ! i) \<noteq> Some ''external''"
      using pool_to_ref_ok(1) [OF d] by auto
    then show ?case using Cons by (simp add: pool_to_ref_def)
  qed
  then show ?thesis by (simp add: sched_to_json_def)
qed

lemma those_Some_map: "list_all (\<lambda>x. f x = Some x) xs \<Longrightarrow> those (map f xs) = Some xs"
  by (induction xs) auto

lemma describable_sched:
  assumes d: "abt_describable mp a" and h: "list_all (\<lambda>h. h \<noteq> None \<and> h \<in> p_pool ` set (pools a)) ps" "ps \<noteq> []"
    and t: "ty \<in> {''default'', ''basic'', ''prio'', ''randws'', ''basic_wait''}"
  shows "sched_init_from_json True (sched_to_json options (Some ty) (Some ps) a) a = Some (ty, ps)"
    and "sched_validate_json False dummy_abt (Some (JArray (map pool_to_json (pools a)))) (sched_to_json options (Some ty) (Some ps) a)"
proof -
  have r: "pool_ref_resolve a (pool_to_ref options a h) = Some h"
      "pool_ref_valid dummy_abt (Some (JArray (map pool_to_json (pools a)))) (pool_to_ref options a h)" if "h \<in> set ps" for h
    using pool_to_ref_ok(2,3) [OF d, of h options] h(1) that by (auto simp: list_all_iff)
  have "those (map (pool_ref_resolve a) (map (pool_to_ref options a) ps)) = Some ps"
    using those_Some_map [of "\<lambda>h. pool_ref_resolve a (pool_to_ref options a h)" ps] r(1) by (simp add: list_all_iff o_def)
  then show "sched_init_from_json True (sched_to_json options (Some ty) (Some ps) a) a = Some (ty, ps)"
    unfolding sched_to_json_refs [OF d h(1)] by (simp add: sched_init_from_json_def elements_def object_get_string_or_def jstring_def)
  show "sched_validate_json False dummy_abt (Some (JArray (map pool_to_json (pools a)))) (sched_to_json options (Some ty) (Some ps) a)"
    unfolding sched_to_json_refs [OF d h(1)] using t h(2) r(2)
    by (auto simp: sched_validate_json_def has_optional_def elements_def is_in_enum_string_def jstring_def get_string_def list_all_iff Let_def)
qed

lemma describable_xstream:
  assumes d: "abt_describable mp a" and x: "xstream_describable mp a x"
  shows "xstream_validate_json False False dummy_abt (Some (JArray (map pool_to_json (pools a)))) (xstream_to_json options mp cpubind affinity a x)"
    and "xstream_matches (xstream_to_json options mp cpubind affinity a x) x"
    and "sched_init_from_json True (object_get (xstream_to_json options mp cpubind affinity a x) ''scheduler'') a =
      Some (the (x_sched_type x), the (mp (x_xstream x)))"
proof -
  let ?j = "xstream_to_json options mp cpubind affinity a x" and ?js = "sched_to_json options (x_sched_type x) (mp (x_xstream x)) a"
  obtain ty ps n h where t: "x_sched_type x = Some ty" "ty \<in> {''default'', ''basic'', ''prio'', ''randws'', ''basic_wait''}"
      and p: "mp (x_xstream x) = Some ps" "list_all (\<lambda>h. h \<noteq> None \<and> h \<in> p_pool ` set (pools a)) ps" "ps \<noteq> []"
      and n: "x_name x = Some n" "valid_name n" "x_xstream x = Some h"
    using x by (auto simp: xstream_describable_def split: option.splits)
  note s = describable_sched [OF d p(2,3) t(2), of options]
  have g: "object_get ?j ''scheduler'' = ?js" "object_get ?j ''name'' = jstring (x_name x)" "is_type ?j json_type_object"
      "object_get ?j ''cpubind'' = map_option JInt (cpubind (x_xstream x))"
      "object_get ?j ''affinity'' = map_option (\<lambda>cs. JArray (map (\<lambda>c. Some (JInt c)) cs)) (affinity (x_xstream x))"
    using p(1) by (auto simp: xstream_to_json_def split: option.splits)
  have e: "elements (object_get ?js ''pools'') \<noteq> []" "?js \<noteq> None" "object_get_string_or ?js ''type'' ''basic_wait'' = ty"
    using p t(1) sched_to_json_refs [OF d p(2), of options "Some ty"] by (auto simp: elements_def object_get_string_or_def jstring_def)
  have "list_all (\<lambda>v. is_type v json_type_int) (elements (object_get ?j ''affinity''))"
    unfolding g(5) by (cases "affinity (x_xstream x)") (auto simp: elements_def list_all_iff)
  moreover have "has_optional ?j ''cpubind'' json_type_int" "has_optional ?j ''affinity'' json_type_array"
    unfolding has_optional_def g(4,5) by (cases "cpubind (x_xstream x)"; cases "affinity (x_xstream x)"; simp)+
  ultimately show "xstream_validate_json False False dummy_abt (Some (JArray (map pool_to_json (pools a)))) ?j"
    unfolding xstream_validate_json_def Let_def using g(1-3) s(2) e(1,2) n t(1) p(1)
    by (auto simp: has_optional_def name_is_valid_def)
  show "xstream_matches ?j x" using g(1,2) e(3) t(1) n by (simp add: xstream_matches_def)
  show "sched_init_from_json True (object_get ?j ''scheduler'') a = Some (the (x_sched_type x), the (mp (x_xstream x)))"
    using g(1) s(1) t(1) p(1) by simp
qed

lemma xstream_to_json_name:
  "mp (x_xstream x) \<noteq> None \<Longrightarrow> object_get (xstream_to_json options mp cpubind affinity a x) ''name'' = jstring (x_name x)"
  by (auto simp: xstream_to_json_def)

lemma names_unique_map:
  "distinct (map f xs) \<Longrightarrow> list_all (\<lambda>x. object_get (g x) ''name'' = jstring (f x)) xs \<Longrightarrow> names_unique (map g xs)"
  by (auto simp: names_unique_def distinct_conv_nth list_all_length)

lemma abt_to_json_pools:
  assumes "abt_describable main_pools a"
  shows "object_get (abt_to_json options main_pools cpubind affinity num_stacks stacksize profiling_dir lazy_stack_alloc a) ''pools''
    = Some (JArray (map pool_to_json (pools a)))"
proof -
  have "filter (\<lambda>p. \<not> (hide_external options \<and> p_kind p = Some ''external'')) (pools a) = pools a"
    using assms by (auto simp: filter_id_conv abt_describable_def list_all_iff pool_describable_def)
  then show ?thesis by (simp add: abt_to_json_def Let_def)
qed

text \<open>
  Printing an environment and reading it back. For an environment that margo made, with any of the
  output options, the printed configuration is accepted by validation; its pools and streams, in order,
  describe the pools and streams of the environment; and the scheduler that is printed for each stream
  reads back, in the same environment, as the type and the list of pools of that scheduler.
\<close>

theorem config_output_roundtrip:
  assumes d: "abt_describable main_pools a"
    and j: "j = abt_to_json options main_pools cpubind affinity num_stacks stacksize profiling_dir lazy_stack_alloc a"
  shows "abt_validate_json False False j
    \<and> list_all2 pool_matches (elements (object_get j ''pools'')) (pools a)
    \<and> list_all2 (\<lambda>jx x. xstream_matches jx x
        \<and> sched_init_from_json True (object_get jx ''scheduler'') a = Some (the (x_sched_type x), the (main_pools (x_xstream x))))
        (elements (object_get j ''xstreams'')) (xstreams a)"
proof -
  let ?ps = "map pool_to_json (pools a)" and ?xj = "xstream_to_json options main_pools cpubind affinity a"
  have pd: "\<forall>p \<in> set (pools a). pool_describable p" and xd: "\<forall>x \<in> set (xstreams a). xstream_describable main_pools a x"
    using d by (simp_all add: abt_describable_def list_all_iff)
  have fp: "filter (\<lambda>p. hide_external options \<longrightarrow> p_kind p \<noteq> Some ''external'') (pools a) = pools a"
    using pd by (auto simp: filter_id_conv pool_describable_def)
  have fx: "filter (\<lambda>x. hide_external options \<longrightarrow> x_sched_type x \<noteq> Some ''external'') (xstreams a) = xstreams a"
    using xd by (auto simp: filter_id_conv xstream_describable_def)
  have g: "object_get j ''pools'' = Some (JArray ?ps)" "object_get j ''xstreams'' = Some (JArray (map ?xj (xstreams a)))"
    "is_type j json_type_object" "has_optional j ''abt_mem_max_num_stacks'' json_type_int" "has_optional j ''abt_thread_stacksize'' json_type_int"
    "has_optional j ''profiling_dir'' json_type_string"
    unfolding j by (auto simp: abt_to_json_def Let_def has_optional_def fp fx split: option.splits)
  have "names_unique ?ps" "names_unique (map ?xj (xstreams a))"
    using d xd by (auto intro!: names_unique_map xstream_to_json_name simp: abt_describable_def list_all_iff xstream_describable_def split: option.splits)
  then have "abt_validate_json False False j"
    using g pd xd describable_pool(1) describable_xstream(1) [OF d]
    by (auto simp: abt_validate_json_def has_optional_def elements_def list_all_iff Let_def)
  moreover have "list_all2 pool_matches (elements (object_get j ''pools'')) (pools a)"
    using pd describable_pool(2) by (auto simp: g(1) elements_def list_all2_map1 list_all2_same)
  ultimately show ?thesis
    using xd describable_xstream(2,3) [OF d] by (auto simp: g(2) elements_def list_all2_map1 list_all2_same)
qed

theorem config_output_roundtrip_witness:
  "let a = dummy_abt\<lparr>pools := [zero_pool\<lparr>p_name := Some ''p'', p_pool := Some 1, p_kind := Some ''fifo_wait'', p_access := Some ''mpmc''\<rparr>],
         xstreams := [zero_xstream\<lparr>x_name := Some ''__primary__'', x_xstream := Some 2, x_sched_type := Some ''basic_wait''\<rparr>]\<rparr>
   in abt_validate_json False False (abt_to_json \<lparr>hide_external = False, use_names = True\<rparr> (\<lambda>_. Some [Some 1]) (\<lambda>_. None) (\<lambda>_. None) None (Some 4096) ''.'' False a)"
proof -
  let ?a = "dummy_abt\<lparr>pools := [zero_pool\<lparr>p_name := Some ''p'', p_pool := Some 1, p_kind := Some ''fifo_wait'', p_access := Some ''mpmc''\<rparr>],
         xstreams := [zero_xstream\<lparr>x_name := Some ''__primary__'', x_xstream := Some 2, x_sched_type := Some ''basic_wait''\<rparr>]\<rparr>"
  have "abt_describable (\<lambda>_. Some [Some 1]) ?a"
    by (simp add: abt_describable_def pool_describable_def xstream_describable_def valid_name_def isalnum_def isdigit_def)
  from config_output_roundtrip [OF this refl] show ?thesis by simp
qed

text \<open>
  With \<^verbatim>\<open>MARGO_CONFIG_HIDE_EXTERNAL\<close> and without \<^verbatim>\<open>MARGO_CONFIG_USE_NAMES\<close> the indices of the schedulers are
  those of the array with the external pools, which the printed array does not have: the library does
  not accept the configuration that it prints.
\<close>

lemma hidden_external_pools_shift:
  "let a = dummy_abt\<lparr>pools := [zero_pool\<lparr>p_name := Some ''x'', p_pool := Some 1, p_kind := Some ''external'', p_access := Some ''unknown''\<rparr>,
           zero_pool\<lparr>p_name := Some ''p'', p_pool := Some 2, p_kind := Some ''fifo_wait'', p_access := Some ''mpmc''\<rparr>],
         xstreams := [zero_xstream\<lparr>x_name := Some ''s'', x_xstream := Some 3, x_sched_type := Some ''basic_wait''\<rparr>]\<rparr>
   in \<not> abt_validate_json False False (abt_to_json \<lparr>hide_external = True, use_names = False\<rparr> (\<lambda>_. Some [Some 2]) (\<lambda>_. None) (\<lambda>_. None) None None ''.'' False a)"
  by (simp add: abt_validate_json_def abt_to_json_def xstream_validate_json_def xstream_to_json_def sched_validate_json_def sched_to_json_def
      pool_ref_valid_def find_pool_by_handle_def elements_def get_int_def dummy_abt_def has_optional_def jstring_def)

text \<open>
  The name that is generated for a pool without a name is only compared with the pools before it: a later
  pool of an accepted configuration may have it as its own name.
\<close>

lemma generated_pool_name_clash:
  "let jpools = [Some (JObject []), Some (JObject [(''name'', Some (JString ''__pool_0__''))])]
   in abt_validate_json False False (Some (JObject [(''pools'', Some (JArray jpools))]))
    \<and> map_option (\<lambda>(a, b). map p_name (pools a)) (init_pools False (\<lambda>i. Some (i + 1)) jpools dummy_abt)
        = Some [Some ''__pool_0__'', Some ''__pool_0__'']"
proof -
  have "generate_unused_pool_name dummy_abt = Some ''__pool_0__''" by (simp add: generate_unused_pool_name_def dummy_abt_def unused_pool_name.simps [of "[]" 0]) code_simp
  then show ?thesis
    by (auto simp: abt_validate_json_def pool_validate_json_def has_optional_def elements_def get_string_def object_get_string_or_def
        name_is_valid_def valid_name_def isalnum_def isdigit_def names_unique_def pool_init_from_json_def less_Suc_eq_0_disj dummy_abt_def)
qed

end
