(* ===== verification/Hg_Config.thy ===== *)
theory Hg_Config
  imports Json_Config "HOL-Library.Sublist"
begin

text \<open>
  The Mercury environment of an instance (\<^verbatim>\<open>src/margo-hg-config.c\<close>): validation of its configuration,
  creation of the Mercury class, context and address, output as JSON, and destruction. Mercury is a
  parameter: the objects that it creates are arguments, the calls that create and destroy objects are
  recorded in the order in which they are made, and the widths of the fields of its structures are
  functions of the arguments. Memory for strings is always available.
\<close>

section \<open>State\<close>

text \<open>Which fields exist depends on the version of Mercury; \<^verbatim>\<open>HG_VERSION_PATH\<close> is not defined, hence zero.\<close>

type_synonym hg_version = "nat \<times> nat"

definition has_sizes :: "hg_version \<Rightarrow> bool" where
  "has_sizes v \<longleftrightarrow> fst v > 2 \<or> (fst v = 2 \<and> snd v > 1)"

definition has_sm_info :: "hg_version \<Rightarrow> bool" where
  "has_sm_info v \<longleftrightarrow> fst v > 2 \<or> (fst v = 2 \<and> snd v > 0)"

definition has_formats :: "hg_version \<Rightarrow> bool" where
  "has_formats v \<longleftrightarrow> fst v > 2 \<or> (fst v = 2 \<and> snd v > 1)"

datatype checksum_level = HG_CHECKSUM_NONE | HG_CHECKSUM_RPC_HEADERS | HG_CHECKSUM_RPC_PAYLOAD

datatype addr_format = NA_ADDR_UNSPEC | NA_ADDR_IPV4 | NA_ADDR_IPV6 | NA_ADDR_NATIVE

text \<open>The fields of \<^verbatim>\<open>struct hg_init_info\<close> that the code uses, and the two flags of \<^verbatim>\<open>progress_mode\<close>.\<close>

record hg_init_info =
  request_post_init :: int
  request_post_incr :: int
  auto_sm :: bool
  no_bulk_eager :: bool
  no_loopback :: bool
  hg_stats :: bool
  na_no_block :: bool
  na_no_retry :: bool
  max_contexts :: int
  ip_subnet :: "string option"
  auth_key :: "string option"
  max_unexpected_size :: int
  max_expected_size :: int
  sm_info_string :: "string option"
  request_mem_device :: bool
  checksum :: checksum_level
  naddr_format :: addr_format

abbreviation "MARGO_OWNS_HG_CLASS \<equiv> 1 :: u8"
abbreviation "MARGO_OWNS_HG_CONTEXT \<equiv> 2 :: u8"

record margo_hg =
  hg_info :: hg_init_info
  hg_class :: ptr
  hg_context :: ptr
  self_addr :: ptr
  self_addr_str :: "string option"
  log_level :: "string option"
  log_subsys :: "string option"
  hg_ownership :: u8

record hg_user_args =
  user_protocol :: string
  user_init_info :: "hg_init_info option"
  user_class :: ptr
  user_context :: ptr

text \<open>The calls that create and destroy objects of Mercury.\<close>

datatype hg_call =
    HG_Init_opt addr | HG_Finalize addr
  | HG_Context_create addr | HG_Context_destroy addr
  | HG_Addr_self addr | HG_Addr_free addr

text \<open>
  What Mercury and the system do: the version, how the integers are stored in their fields, the value of
  \<^verbatim>\<open>HG_INIT_INFO_INITIALIZER\<close>, the created class and context (unless that fails), the class of a context, the
  address of a class (unless that fails), its string (unless it cannot be converted), whether the class
  listens, whether memory for the string was available, and the variable \<^verbatim>\<open>SLINGSHOT_VNIS\<close>.
\<close>

record hg_env =
  he_version :: hg_version
  he_post_init :: "int \<Rightarrow> int"
  he_post_incr :: "int \<Rightarrow> int"
  he_max_contexts :: "int \<Rightarrow> int"
  he_msg_size :: "int \<Rightarrow> int"
  he_initializer :: hg_init_info
  he_init_opt :: ptr
  he_context_create :: ptr
  he_context_class :: "addr \<Rightarrow> ptr"
  he_addr_self :: ptr
  he_addr_string :: "string option"
  he_listening :: bool
  he_calloc :: bool
  he_vnis :: "string option"

section \<open>Operations\<close>

text \<open>The warnings about ignored fields are left out.\<close>

definition hg_validate_json :: "hg_version \<Rightarrow> json option \<Rightarrow> bool" where
  "hg_validate_json v json =
    (if json = None then True
     else if \<not> is_type json json_type_object then False
     else
       list_all (\<lambda>key. has_optional json key json_type_string)
         [''address'', ''version'', ''ip_subnet'', ''auth_key'', ''log_level'', ''log_subsys'']
     \<and> list_all (\<lambda>key. has_optional json key json_type_boolean)
         [''listening'', ''auto_sm'', ''no_bulk_eager'', ''no_loopback'', ''stats'', ''na_no_block'', ''na_no_retry'']
     \<and> list_all (\<lambda>key. has_optional json key json_type_int)
         [''request_post_incr'', ''request_post_init'', ''max_contexts'', ''input_eager_size'', ''output_eager_size'']
     \<and> (has_sizes v \<longrightarrow> has_optional json ''na_max_unexpected_size'' json_type_int
          \<and> has_optional json ''na_max_expected_size'' json_type_int)
     \<and> (has_sm_info v \<longrightarrow> has_optional json ''sm_info_string'' json_type_string)
     \<and> (has_formats v \<longrightarrow>
          has_optional json ''na_request_mem_device'' json_type_boolean
        \<and> has_optional json ''checksum_level'' json_type_string
        \<and> (object_get json ''checksum_level'' \<noteq> None \<longrightarrow>
             is_in_enum_string (object_get json ''checksum_level'') [''none'', ''rpc_headers'', ''rpc_payload''])
        \<and> has_optional json ''na_addr_format'' json_type_string
        \<and> (object_get json ''na_addr_format'' \<noteq> None \<longrightarrow>
             is_in_enum_string (object_get json ''na_addr_format'') [''unspec'', ''ipv4'', ''ipv4'', ''ipv6'', ''native''])))"

text \<open>The result is the key, whether CXI seems to be used, the chosen index, and whether the key was explicit.\<close>

definition auto_set_cxi_auth_key :: "string option \<Rightarrow> string \<Rightarrow> string option \<Rightarrow> string option \<times> bool \<times> int \<times> bool" where
  "auto_set_cxi_auth_key vnis protocol key =
    (if \<not> sublist ''cxi'' protocol then (key, False, - 1, False)
     else if key \<noteq> None then (key, False, - 1, True)
     else
       (case vnis of
          None \<Rightarrow> (key, True, - 1, False)
        | Some vni_env \<Rightarrow>
            (let vni_env_count = 1 + length (filter (\<lambda>c. c = CHR '','') vni_env)
             in if vni_env_count > 1 then (Some ''0:0:1'', True, 1, False) else (key, True, - 1, False))))"

fun checksum_of_string :: "string \<Rightarrow> checksum_level" where
  "checksum_of_string s =
    (if s = ''rpc_headers'' then HG_CHECKSUM_RPC_HEADERS
     else if s = ''rpc_payload'' then HG_CHECKSUM_RPC_PAYLOAD
     else HG_CHECKSUM_NONE)"

fun addr_format_of_string :: "string \<Rightarrow> addr_format" where
  "addr_format_of_string s =
    (if s = ''ipv4'' then NA_ADDR_IPV4 else if s = ''ipv6'' then NA_ADDR_IPV6
     else if s = ''native'' then NA_ADDR_NATIVE else NA_ADDR_UNSPEC)"

text \<open>The structure \<^verbatim>\<open>hg_init_info\<close>, filled from the JSON configuration.\<close>

definition init_info_from_json :: "hg_env \<Rightarrow> string \<Rightarrow> json option \<Rightarrow> hg_init_info \<Rightarrow> hg_init_info" where
  "init_info_from_json e protocol json i =
    (let v = he_version e in
     i\<lparr>request_post_init := he_post_init e (object_get_uint64_or json ''request_post_init'' 256),
       request_post_incr := he_post_incr e (object_get_uint64_or json ''request_post_incr'' 256),
       auto_sm := object_get_bool_or json ''auto_sm'' False,
       no_bulk_eager := object_get_bool_or json ''no_bulk_eager'' False,
       no_loopback := object_get_bool_or json ''no_loopback'' False,
       hg_stats := object_get_bool_or json ''stats'' False,
       na_no_block := object_get_bool_or json ''na_no_block'' False,
       na_no_retry := object_get_bool_or json ''na_no_retry'' False,
       max_contexts := he_max_contexts e (object_get_uint64_or json ''max_contexts'' 0),
       ip_subnet := (if object_get json ''ip_subnet'' \<noteq> None then get_string (object_get json ''ip_subnet'') else ip_subnet i),
       auth_key := (if object_get json ''auth_key'' \<noteq> None then get_string (object_get json ''auth_key'')
                    else fst (auto_set_cxi_auth_key (he_vnis e) protocol (auth_key i))),
       max_unexpected_size := (if has_sizes v then he_msg_size e (object_get_uint64_or json ''na_max_unexpected_size'' 0) else max_unexpected_size i),
       max_expected_size := (if has_sizes v then he_msg_size e (object_get_uint64_or json ''na_max_expected_size'' 0) else max_expected_size i),
       sm_info_string := (if has_sm_info v \<and> object_get json ''sm_info_string'' \<noteq> None then get_string (object_get json ''sm_info_string'')
                          else sm_info_string i),
       request_mem_device := (if has_formats v then object_get_bool_or json ''na_request_mem_device'' False else request_mem_device i),
       checksum := (case if has_formats v then get_string (object_get json ''checksum_level'') else None of
                      Some s \<Rightarrow> checksum_of_string s | None \<Rightarrow> checksum i),
       naddr_format := (case if has_formats v then get_string (object_get json ''na_addr_format'') else None of
                          Some s \<Rightarrow> addr_format_of_string s | None \<Rightarrow> naddr_format i)\<rparr>)"

definition zero_info :: hg_init_info where
  "zero_info = \<lparr>request_post_init = 0, request_post_incr = 0, auto_sm = False, no_bulk_eager = False, no_loopback = False,
     hg_stats = False, na_no_block = False, na_no_retry = False, max_contexts = 0, ip_subnet = None, auth_key = None,
     max_unexpected_size = 0, max_expected_size = 0, sm_info_string = None, request_mem_device = False,
     checksum = HG_CHECKSUM_NONE, naddr_format = NA_ADDR_UNSPEC\<rparr>"

definition zero_hg :: margo_hg where
  "zero_hg = \<lparr>hg_info = zero_info, hg_class = None, hg_context = None, self_addr = None, self_addr_str = None,
     log_level = None, log_subsys = None, hg_ownership = 0\<rparr>"

text \<open>What \<^verbatim>\<open>margo_init_ext\<close> passes in.\<close>

definition new_hg :: "hg_env \<Rightarrow> margo_hg" where
  "new_hg e = zero_hg\<lparr>hg_info := he_initializer e\<rparr>"

definition hg_destroy :: "margo_hg \<Rightarrow> hg_call list \<Rightarrow> margo_hg \<times> hg_call list" where
  "hg_destroy hg w =
    (let w = (case (hg_class hg, self_addr hg) of (Some _, Some a) \<Rightarrow> w @ [HG_Addr_free a] | _ \<Rightarrow> w);
         w = (case hg_context hg of
                Some c \<Rightarrow> if hg_ownership hg AND MARGO_OWNS_HG_CONTEXT \<noteq> 0 then w @ [HG_Context_destroy c] else w
              | None \<Rightarrow> w);
         w = (case hg_class hg of
                Some c \<Rightarrow> if hg_ownership hg AND MARGO_OWNS_HG_CLASS \<noteq> 0 then w @ [HG_Finalize c] else w
              | None \<Rightarrow> w)
     in (zero_hg, w))"

text \<open>The three stages after the structure is filled: class, context, address. \<^const>\<open>None\<close> is an error.\<close>

definition init_class :: "hg_env \<Rightarrow> hg_user_args \<Rightarrow> margo_hg \<Rightarrow> hg_call list \<Rightarrow> margo_hg \<times> hg_call list \<times> bool" where
  "init_class e user hg w =
    (if user_class user \<noteq> None \<and> user_context user = None then (hg\<lparr>hg_class := user_class user\<rparr>, w, True)
     else
       (case he_init_opt e of
          None \<Rightarrow> (hg\<lparr>hg_class := None\<rparr>, w, False)
        | Some c \<Rightarrow> (hg\<lparr>hg_class := Some c, hg_ownership := MARGO_OWNS_HG_CLASS\<rparr>, w @ [HG_Init_opt c], True)))"

definition init_context :: "hg_env \<Rightarrow> hg_user_args \<Rightarrow> margo_hg \<Rightarrow> hg_call list \<Rightarrow> margo_hg \<times> hg_call list \<times> bool" where
  "init_context e user hg w =
    (case user_context user of
       Some c \<Rightarrow> (hg\<lparr>hg_context := Some c, hg_class := he_context_class e c\<rparr>, w, he_context_class e c \<noteq> None)
     | None \<Rightarrow>
         (case he_context_create e of
            None \<Rightarrow> (hg\<lparr>hg_context := None\<rparr>, w, False)
          | Some c \<Rightarrow> (hg\<lparr>hg_context := Some c, hg_ownership := hg_ownership hg OR MARGO_OWNS_HG_CONTEXT\<rparr>, w @ [HG_Context_create c], True)))"

definition init_addr :: "hg_env \<Rightarrow> margo_hg \<Rightarrow> hg_call list \<Rightarrow> margo_hg \<times> hg_call list \<times> bool" where
  "init_addr e hg w =
    (case he_addr_self e of
       None \<Rightarrow> (hg, w, False)
     | Some a \<Rightarrow>
         (let hg = hg\<lparr>self_addr := Some a\<rparr>; w = w @ [HG_Addr_self a]
          in if he_addr_string e = None \<and> he_listening e then (hg\<lparr>self_addr_str := None\<rparr>, w, True)
             else if \<not> he_calloc e then (hg\<lparr>self_addr_str := None\<rparr>, w, False)
             else (hg\<lparr>self_addr_str := Some (case he_addr_string e of Some s \<Rightarrow> s | None \<Rightarrow> [])\<rparr>, w, True)))"

text \<open>The structure is filled from the user's, or from the configuration, which may also name the log levels.\<close>

definition hg_fill_info :: "hg_env \<Rightarrow> json option \<Rightarrow> hg_user_args \<Rightarrow> margo_hg \<Rightarrow> margo_hg" where
  "hg_fill_info e json user hg =
    (case (user_init_info user, user_class user) of
       (Some i, None) \<Rightarrow> hg\<lparr>hg_info := i\<rparr>
     | _ \<Rightarrow> hg\<lparr>hg_info := init_info_from_json e (user_protocol user) json (hg_info hg),
          log_level := (if object_get json ''log_level'' \<noteq> None then get_string (object_get json ''log_level'') else log_level hg),
          log_subsys := (if object_get json ''log_subsys'' \<noteq> None then get_string (object_get json ''log_subsys'') else log_subsys hg)\<rparr>)"

text \<open>The plumber may replace the protocol that is passed to \<^verbatim>\<open>HG_Init_opt\<close>; Mercury's answer is \<open>he_init_opt\<close> in both cases.\<close>

definition hg_init_from_json :: "hg_env \<Rightarrow> json option \<Rightarrow> hg_user_args \<Rightarrow> margo_hg \<Rightarrow> hg_call list \<Rightarrow> margo_hg \<times> hg_call list \<times> bool" where
  "hg_init_from_json e json user hg w =
    (let fail = (\<lambda>hg w. (fst (hg_destroy hg w), snd (hg_destroy hg w), False));
         (hg, w, ok) = init_class e user (hg_fill_info e json user hg) w
     in if \<not> ok then fail hg w
        else
          (let (hg, w, ok) = init_context e user hg w
           in if \<not> ok then fail hg w
              else
                (let (hg, w, ok) = init_addr e hg w
                 in if \<not> ok then fail hg w
                    else
                      (hg\<lparr>log_level := (if log_level hg = None then Some ''warning'' else log_level hg),
                          log_subsys := (if log_subsys hg = None then Some ''hg,na'' else log_subsys hg)\<rparr>, w, True))))"

definition checksum_to_string :: "checksum_level \<Rightarrow> string" where
  "checksum_to_string c = (case c of HG_CHECKSUM_NONE \<Rightarrow> ''none'' | HG_CHECKSUM_RPC_HEADERS \<Rightarrow> ''rpc_headers'' | HG_CHECKSUM_RPC_PAYLOAD \<Rightarrow> ''rpc_payload'')"

definition addr_format_to_string :: "addr_format \<Rightarrow> string" where
  "addr_format_to_string f = (case f of NA_ADDR_UNSPEC \<Rightarrow> ''unspec'' | NA_ADDR_IPV4 \<Rightarrow> ''ipv4'' | NA_ADDR_IPV6 \<Rightarrow> ''ipv6'' | NA_ADDR_NATIVE \<Rightarrow> ''native'')"

text \<open>\<open>opt key s\<close> is a field that is only added when the string is there.\<close>

definition opt :: "string \<Rightarrow> string option \<Rightarrow> (string \<times> json option) list" where
  "opt key s = (case s of Some s \<Rightarrow> [(key, Some (JString s))] | None \<Rightarrow> [])"

definition info_to_json :: "hg_version \<Rightarrow> margo_hg \<Rightarrow> (string \<times> json option) list" where
  "info_to_json v hg =
    (let i = hg_info hg in
      [(''request_post_init'', Some (JInt (request_post_init i))), (''request_post_incr'', Some (JInt (request_post_incr i))),
       (''auto_sm'', Some (JBool (auto_sm i))), (''no_bulk_eager'', Some (JBool (no_bulk_eager i))),
       (''no_loopback'', Some (JBool (no_loopback i))), (''stats'', Some (JBool (hg_stats i))),
       (''na_no_block'', Some (JBool (na_no_block i))), (''na_no_retry'', Some (JBool (na_no_retry i))),
       (''max_contexts'', Some (JInt (max_contexts i)))]
      @ opt ''ip_subnet'' (ip_subnet i) @ opt ''auth_key'' (auth_key i) @ opt ''log_level'' (log_level hg) @ opt ''log_subsys'' (log_subsys hg)
      @ (if has_sizes v
         then [(''na_max_unexpected_size'', Some (JInt (max_unexpected_size i))), (''na_max_expected_size'', Some (JInt (max_expected_size i)))]
         else [])
      @ (if has_sm_info v then opt ''sm_info_string'' (sm_info_string i) else [])
      @ (if has_formats v
         then [(''na_request_mem_device'', Some (JBool (request_mem_device i))), (''checksum_level'', Some (JString (checksum_to_string (checksum i)))),
               (''na_addr_format'', Some (JString (addr_format_to_string (naddr_format i))))]
         else []))"

text \<open>\<open>version\<close>, \<open>listening\<close> and the two sizes are what Mercury reports.\<close>

definition hg_to_json :: "hg_version \<Rightarrow> string \<Rightarrow> bool \<Rightarrow> int \<Rightarrow> int \<Rightarrow> margo_hg \<Rightarrow> json option" where
  "hg_to_json v version listening input_eager_size output_eager_size hg =
     Some (JObject ([(''version'', Some (JString version))] @ opt ''address'' (self_addr_str hg)
       @ [(''listening'', Some (JBool listening)), (''input_eager_size'', Some (JInt input_eager_size)),
          (''output_eager_size'', Some (JInt output_eager_size))]
       @ (if hg_ownership hg AND MARGO_OWNS_HG_CLASS = 0 then [] else info_to_json v hg)))"

section \<open>What is created is destroyed\<close>

text \<open>The call that undoes a call.\<close>

fun undo :: "hg_call \<Rightarrow> hg_call" where
  "undo (HG_Init_opt c) = HG_Finalize c"
| "undo (HG_Context_create c) = HG_Context_destroy c"
| "undo (HG_Addr_self a) = HG_Addr_free a"
| "undo c = c"

text \<open>The objects of a Mercury environment, in the order of their creation.\<close>

definition hg_held :: "margo_hg \<Rightarrow> hg_call list" where
  "hg_held hg =
    (case hg_class hg of Some c \<Rightarrow> if hg_ownership hg AND MARGO_OWNS_HG_CLASS \<noteq> 0 then [HG_Init_opt c] else [] | None \<Rightarrow> [])
    @ (case hg_context hg of Some c \<Rightarrow> if hg_ownership hg AND MARGO_OWNS_HG_CONTEXT \<noteq> 0 then [HG_Context_create c] else [] | None \<Rightarrow> [])
    @ (case (hg_class hg, self_addr hg) of (Some _, Some a) \<Rightarrow> [HG_Addr_self a] | _ \<Rightarrow> [])"

lemma hg_destroy_undoes: "hg_destroy hg w = (zero_hg, w @ map undo (rev (hg_held hg)))"
  by (simp add: hg_destroy_def hg_held_def split: option.split)

lemma hg_held_zero [simp]: "hg_held zero_hg = []"
  by (simp add: hg_held_def zero_hg_def)

lemma init_class_held:
  assumes "init_class e user hg w = (hg', w', ok)" "hg_class hg = None" "hg_context hg = None" "self_addr hg = None" "hg_ownership hg = 0"
    "user_context user = None"
  shows "w' = w @ hg_held hg' \<and> hg_context hg' = None \<and> self_addr hg' = None \<and> (ok \<longrightarrow> hg_class hg' \<noteq> None)
    \<and> hg_ownership hg' AND MARGO_OWNS_HG_CONTEXT = 0"
  using assms by (auto simp: init_class_def hg_held_def split: if_splits option.splits)

lemma init_context_held:
  assumes "init_context e user hg w = (hg', w', ok)" "w = w0 @ hg_held hg" "hg_class hg \<noteq> None" "hg_context hg = None" "self_addr hg = None"
    "hg_ownership hg AND MARGO_OWNS_HG_CONTEXT = 0" "user_context user = None"
  shows "w' = w0 @ hg_held hg' \<and> self_addr hg' = None \<and> hg_class hg' \<noteq> None"
proof (cases "he_context_create e")
  case None
  then show ?thesis using assms by (auto simp: init_context_def hg_held_def split: option.splits)
next
  case (Some c)
  have "(hg_ownership hg OR MARGO_OWNS_HG_CONTEXT) AND MARGO_OWNS_HG_CLASS = hg_ownership hg AND MARGO_OWNS_HG_CLASS"
    by (simp add: bit.conj_disj_distrib2)
  moreover have "(hg_ownership hg OR MARGO_OWNS_HG_CONTEXT) AND MARGO_OWNS_HG_CONTEXT \<noteq> 0"
    by (simp add: bit.conj_disj_distrib2 assms(6))
  ultimately show ?thesis using Some assms by (auto simp: init_context_def hg_held_def split: option.splits)
qed

lemma init_addr_held:
  assumes "init_addr e hg w = (hg', w', ok)" "w = w0 @ hg_held hg" "hg_class hg \<noteq> None" "self_addr hg = None"
  shows "w' = w0 @ hg_held hg'"
proof (cases "he_addr_self e")
  case (Some a)
  obtain c where c: "hg_class hg = Some c" using assms(3) by blast
  have "hg_held (hg\<lparr>self_addr := Some a, self_addr_str := s\<rparr>) = hg_held hg @ [HG_Addr_self a]" for s
    using assms(4) c by (simp add: hg_held_def split: option.split)
  then show ?thesis using assms(1,2) Some by (auto simp: init_addr_def Let_def split: if_splits)
qed (use assms in \<open>auto simp: init_addr_def\<close>)

text \<open>
  Unless the user passes a context: when initialization fails at any point, every object that it created
  has been destroyed, the last one first, and destroying the environment again does nothing; when it
  succeeds, exactly the objects that it created are destroyed later, the last one first.
\<close>

lemma hg_init_undone:
  assumes "user_context user = None" and "hg_init_from_json e json user (new_hg e) w = (hg, w', ok)"
  shows "\<exists>created. set created \<subseteq> range HG_Init_opt \<union> range HG_Context_create \<union> range HG_Addr_self
    \<and> (if ok then w' = w @ created \<and> hg_destroy hg w' = (zero_hg, w @ created @ map undo (rev created))
       else w' = w @ created @ map undo (rev created) \<and> hg_destroy hg w' = (hg, w'))"
proof -
  let ?held = "\<lambda>hg w'. w' = w @ hg_held hg"
  have held: "set (hg_held hg) \<subseteq> range HG_Init_opt \<union> range HG_Context_create \<union> range HG_Addr_self" for hg
    by (auto simp: hg_held_def split: option.splits if_splits)
  define h0 where "h0 = hg_fill_info e json user (new_hg e)"
  have h0: "hg_class h0 = None" "hg_context h0 = None" "self_addr h0 = None" "hg_ownership h0 = 0"
    by (auto simp: h0_def hg_fill_info_def new_hg_def zero_hg_def split: option.splits)
  obtain h1 w1 b1 where c1: "init_class e user h0 w = (h1, w1, b1)" by (metis prod_cases3)
  obtain h2 w2 b2 where c2: "init_context e user h1 w1 = (h2, w2, b2)" by (metis prod_cases3)
  obtain h3 w3 b3 where c3: "init_addr e h2 w2 = (h3, w3, b3)" by (metis prod_cases3)
  note s1 = init_class_held [OF c1 h0 assms(1)]
  have r: "(hg, w', ok) =
      (if \<not> b1 then (zero_hg, w1 @ map undo (rev (hg_held h1)), False)
       else if \<not> b2 then (zero_hg, w2 @ map undo (rev (hg_held h2)), False)
       else if \<not> b3 then (zero_hg, w3 @ map undo (rev (hg_held h3)), False)
       else (h3\<lparr>log_level := (if log_level h3 = None then Some ''warning'' else log_level h3),
                log_subsys := (if log_subsys h3 = None then Some ''hg,na'' else log_subsys h3)\<rparr>, w3, True))"
    using assms(2) [symmetric] c1 c2 c3 unfolding hg_init_from_json_def h0_def [symmetric] hg_destroy_undoes by (simp add: Let_def)
  have s2: "?held h2 w2 \<and> self_addr h2 = None \<and> hg_class h2 \<noteq> None" if b1
    using init_context_held [OF c2] s1 that assms(1) by blast
  have s3: "?held h3 w3" if b1 using init_addr_held [OF c3] s2 that by blast
  consider "\<not> b1" | "b1" "\<not> b2" | "b1" "b2" "\<not> b3" | "b1" "b2" "b3" by blast
  then show ?thesis
  proof cases
    case 1
    then show ?thesis using r s1 held by (intro exI [of _ "hg_held h1"]) (simp add: hg_destroy_undoes)
  next
    case 2
    then show ?thesis using r s2 held by (intro exI [of _ "hg_held h2"]) (simp add: hg_destroy_undoes)
  next
    case 3
    then show ?thesis using r s3 held by (intro exI [of _ "hg_held h3"]) (simp add: hg_destroy_undoes)
  next
    case 4
    have "hg_held (h3\<lparr>log_level := l, log_subsys := s\<rparr>) = hg_held h3" for l s by (simp add: hg_held_def split: option.split)
    then show ?thesis using 4 r s3 held by (intro exI [of _ "hg_held h3"]) (simp add: hg_destroy_undoes)
  qed
qed

definition example_hg_env :: hg_env where
  "example_hg_env = \<lparr>he_version = (2, 4), he_post_init = (\<lambda>x. x mod 2 ^ 32), he_post_incr = (\<lambda>x. x mod 2 ^ 32),
     he_max_contexts = (\<lambda>x. x mod 2 ^ 8), he_msg_size = (\<lambda>x. x mod 2 ^ 64), he_initializer = zero_info, he_init_opt = Some 1,
     he_context_create = Some 2, he_context_class = (\<lambda>_. Some 9), he_addr_self = None, he_addr_string = Some ''na+sm://1'',
     he_listening = True, he_calloc = True, he_vnis = None\<rparr>"

lemma hg_init_undone_example:
  "let (hg, w, ok) = hg_init_from_json example_hg_env None \<lparr>user_protocol = ''na+sm'', user_init_info = None, user_class = None, user_context = None\<rparr>
         (new_hg example_hg_env) []
   in \<not> ok \<and> w = [HG_Init_opt 1, HG_Context_create 2, HG_Context_destroy 2, HG_Finalize 1] \<and> hg_destroy hg w = (hg, w)"
proof -
  let ?user = "\<lparr>user_protocol = ''na+sm'', user_init_info = None, user_class = None, user_context = None\<rparr>"
  obtain hg w ok where r: "hg_init_from_json example_hg_env None ?user (new_hg example_hg_env) [] = (hg, w, ok)" by (metis prod_cases3)
  then have "\<not> ok" "w = [HG_Init_opt 1, HG_Context_create 2, HG_Context_destroy 2, HG_Finalize 1]"
    by (simp_all add: hg_init_from_json_def init_class_def init_context_def init_addr_def hg_destroy_def example_hg_env_def hg_fill_info_def new_hg_def zero_hg_def Let_def)
  then show ?thesis using hg_init_undone [OF _ r] r by (auto split: if_splits)
qed

text \<open>
  A user who passes a context loses the class of that context: a second class is created, the code takes
  ownership, replaces the class by that of the context, and finalizes that one; the class that was
  created is never finalized.
\<close>

lemma hg_user_context_class_finalized:
  assumes "user_context user = Some x" "he_context_class e x = Some c" "he_init_opt e = Some k" "he_addr_self e = Some a" "he_calloc e"
  shows "\<exists>hg. hg_init_from_json e json user (new_hg e) w = (hg, w @ [HG_Init_opt k, HG_Addr_self a], True)
    \<and> snd (hg_destroy hg w') = w' @ [HG_Addr_free a, HG_Finalize c]"
  using assms by (simp add: hg_init_from_json_def init_class_def init_context_def init_addr_def hg_destroy_def Let_def)

section \<open>Output and input\<close>

lemma opt_get [simp]:
  "object_get (Some (JObject (opt key s @ kvs))) k = (if k = key \<and> s \<noteq> None then map_option JString s else object_get (Some (JObject kvs)) k)"
  by (cases s) (auto simp: opt_def)

lemma opt_get_last [simp]:
  "object_get (Some (JObject (opt key s))) k = (if k = key then map_option JString s else None)"
  using opt_get [of key s "[]" k] by (auto split: if_splits)

lemma checksum_roundtrip: "checksum_of_string (checksum_to_string c) = c"
  by (cases c) (simp_all add: checksum_to_string_def)

lemma addr_format_roundtrip: "addr_format_of_string (addr_format_to_string f) = f"
  by (cases f) (simp_all add: addr_format_to_string_def)

text \<open>A field of a Mercury structure returns what was stored in it, so storing that again changes nothing.\<close>

definition stores :: "(int \<Rightarrow> int) \<Rightarrow> bool" where
  "stores f \<longleftrightarrow> (\<forall>x. 0 \<le> x \<longrightarrow> 0 \<le> f x \<and> f (f x) = f x)"

lemma append_get:
  "object_get (Some (JObject (kvs @ kvs'))) k = (if k \<in> set (map fst kvs) then object_get (Some (JObject kvs)) k else object_get (Some (JObject kvs')) k)"
proof (cases "map_of kvs k")
  case None
  then have "k \<notin> fst ` set kvs" by (simp add: map_of_eq_None_iff)
  then show ?thesis using None by (simp add: object_get_def map_add_def)
next
  case (Some v)
  then have "k \<in> fst ` set kvs" by (metis domI dom_map_of_conv_image_fst)
  then show ?thesis using Some by (simp add: object_get_def map_add_def)
qed

lemma opt_keys [simp]: "map fst (opt key s) = (if s = None then [] else [key])"
  by (cases s) (simp_all add: opt_def)

lemma hg_to_json_get:
  assumes "hg_ownership hg AND MARGO_OWNS_HG_CLASS \<noteq> 0" and j: "j = hg_to_json v version listening input_eager_size output_eager_size hg"
  shows "object_get j ''request_post_init'' = Some (JInt (request_post_init (hg_info hg)))"
    "object_get j ''request_post_incr'' = Some (JInt (request_post_incr (hg_info hg)))"
    "object_get j ''auto_sm'' = Some (JBool (auto_sm (hg_info hg)))"
    "object_get j ''no_bulk_eager'' = Some (JBool (no_bulk_eager (hg_info hg)))"
    "object_get j ''no_loopback'' = Some (JBool (no_loopback (hg_info hg)))"
    "object_get j ''stats'' = Some (JBool (hg_stats (hg_info hg)))"
    "object_get j ''na_no_block'' = Some (JBool (na_no_block (hg_info hg)))"
    "object_get j ''na_no_retry'' = Some (JBool (na_no_retry (hg_info hg)))"
    "object_get j ''max_contexts'' = Some (JInt (max_contexts (hg_info hg)))"
    "object_get j ''ip_subnet'' = map_option JString (ip_subnet (hg_info hg))"
    "object_get j ''auth_key'' = map_option JString (auth_key (hg_info hg))"
    "object_get j ''log_level'' = map_option JString (log_level hg)"
    "object_get j ''log_subsys'' = map_option JString (log_subsys hg)"
    "object_get j ''na_max_unexpected_size'' = (if has_sizes v then Some (JInt (max_unexpected_size (hg_info hg))) else None)"
    "object_get j ''na_max_expected_size'' = (if has_sizes v then Some (JInt (max_expected_size (hg_info hg))) else None)"
    "object_get j ''sm_info_string'' = (if has_sm_info v then map_option JString (sm_info_string (hg_info hg)) else None)"
    "object_get j ''na_request_mem_device'' = (if has_formats v then Some (JBool (request_mem_device (hg_info hg))) else None)"
    "object_get j ''checksum_level'' = (if has_formats v then Some (JString (checksum_to_string (checksum (hg_info hg)))) else None)"
    "object_get j ''na_addr_format'' = (if has_formats v then Some (JString (addr_format_to_string (naddr_format (hg_info hg)))) else None)"
    "object_get j ''version'' = Some (JString version)"
    "object_get j ''address'' = map_option JString (self_addr_str hg)"
    "object_get j ''listening'' = Some (JBool listening)"
    "object_get j ''input_eager_size'' = Some (JInt input_eager_size)"
    "object_get j ''output_eager_size'' = Some (JInt output_eager_size)"
    "is_type j json_type_object"
  using assms(1) unfolding j hg_to_json_def info_to_json_def Let_def
  by (simp_all add: append_get del: set_map)

lemma hg_output_valid:
  assumes "hg_ownership hg AND MARGO_OWNS_HG_CLASS \<noteq> 0"
  shows "hg_validate_json v (hg_to_json v version listening input_eager_size output_eager_size hg)"
proof -
  define j where "j = hg_to_json v version listening input_eager_size output_eager_size hg"
  note g = hg_to_json_get [OF assms j_def]
  have o: "map_option JString s = None \<or> is_type (map_option JString s) json_type_string" for s by (cases s) simp_all
  have "is_in_enum_string (Some (JString (checksum_to_string c))) [''none'', ''rpc_headers'', ''rpc_payload'']" for c
    by (cases c) (simp_all add: is_in_enum_string_def get_string_def checksum_to_string_def)
  moreover have "is_in_enum_string (Some (JString (addr_format_to_string f))) [''unspec'', ''ipv4'', ''ipv4'', ''ipv6'', ''native'']" for f
    by (cases f) (simp_all add: is_in_enum_string_def get_string_def addr_format_to_string_def)
  moreover have "j \<noteq> None" using g(25) by (auto simp: is_type_def)
  ultimately show ?thesis unfolding j_def [symmetric] hg_validate_json_def using o by (simp add: has_optional_def g)
qed

lemma optional_string: "has_optional j key json_type_string \<Longrightarrow> object_get j key \<noteq> None \<Longrightarrow> get_string (object_get j key) \<noteq> None"
  by (auto simp: has_optional_def get_string_def is_type_def elim!: type_of.elims)

lemma validated_strings:
  assumes "hg_validate_json v j"
  shows "object_get j ''ip_subnet'' \<noteq> None \<Longrightarrow> get_string (object_get j ''ip_subnet'') \<noteq> None"
    and "object_get j ''auth_key'' \<noteq> None \<Longrightarrow> get_string (object_get j ''auth_key'') \<noteq> None"
    and "has_sm_info v \<Longrightarrow> object_get j ''sm_info_string'' \<noteq> None \<Longrightarrow> get_string (object_get j ''sm_info_string'') \<noteq> None"
proof -
  have "has_optional j ''ip_subnet'' json_type_string \<and> has_optional j ''auth_key'' json_type_string
      \<and> (has_sm_info v \<longrightarrow> has_optional j ''sm_info_string'' json_type_string)"
  proof (cases "j = None")
    case True
    then show ?thesis by (simp add: has_optional_def object_get_def)
  next
    case False
    then show ?thesis using assms unfolding hg_validate_json_def by (simp only: list.pred_inject if_False split: if_splits) blast
  qed
  then show "object_get j ''ip_subnet'' \<noteq> None \<Longrightarrow> get_string (object_get j ''ip_subnet'') \<noteq> None"
    and "object_get j ''auth_key'' \<noteq> None \<Longrightarrow> get_string (object_get j ''auth_key'') \<noteq> None"
    and "has_sm_info v \<Longrightarrow> object_get j ''sm_info_string'' \<noteq> None \<Longrightarrow> get_string (object_get j ''sm_info_string'') \<noteq> None"
    using optional_string by blast+
qed

lemma get_map_JString [simp]: "get_string (map_option JString s) = s"
  by (cases s) (simp_all add: get_string_def)

lemma auto_set_again:
  "fst (auto_set_cxi_auth_key vnis p key) = None \<Longrightarrow> key = None"
  by (auto simp: auto_set_cxi_auth_key_def split: if_splits option.splits)

text \<open>
  Printing the Mercury configuration and reading it back. When margo created the Mercury class from
  a validated configuration, the printed configuration is valid, and initializing from it with the same
  protocol, environment and version fills the same structure and selects the same log settings.
\<close>

theorem hg_config_roundtrip:
  assumes valid: "hg_validate_json (he_version e) json"
    and init: "hg_init_from_json e json user (new_hg e) w = (hg, w', True)"
    and user: "user_init_info user = None" "user_class user = None" "user_context user = None"
    and st: "stores (he_post_init e)" "stores (he_post_incr e)" "stores (he_max_contexts e)" "stores (he_msg_size e)"
    and j: "j = hg_to_json (he_version e) version listening input_eager_size output_eager_size hg"
  shows "hg_validate_json (he_version e) j
    \<and> hg_info (hg_fill_info e j user (new_hg e)) = hg_info hg
    \<and> log_level (hg_fill_info e j user (new_hg e)) = log_level hg
    \<and> log_subsys (hg_fill_info e j user (new_hg e)) = log_subsys hg"
proof -
  have keep: "init_class e user h w = (h1, w1, True) \<Longrightarrow> hg_info h1 = hg_info h \<and> hg_ownership h1 = MARGO_OWNS_HG_CLASS" for h w h1 w1
    using user(2) by (auto simp: init_class_def split: option.splits)
  have keep2: "init_context e user h w = (h1, w1, True) \<Longrightarrow> hg_info h1 = hg_info h \<and> hg_ownership h1 = hg_ownership h OR MARGO_OWNS_HG_CONTEXT" for h w h1 w1
    using user(3) by (auto simp: init_context_def split: option.splits)
  have keep3: "init_addr e h w = (h1, w1, True) \<Longrightarrow> hg_info h1 = hg_info h \<and> hg_ownership h1 = hg_ownership h" for h w h1 w1
    by (auto simp: init_addr_def Let_def split: option.splits if_splits)
  have i: "hg_info hg = init_info_from_json e (user_protocol user) json (he_initializer e)" and o: "hg_ownership hg = 3"
      and l: "log_level hg \<noteq> None" "log_subsys hg \<noteq> None"
    using init user
    by (auto simp: hg_init_from_json_def hg_fill_info_def new_hg_def Let_def split: prod.splits if_splits dest!: keep keep2 keep3)
  have own: "hg_ownership hg AND MARGO_OWNS_HG_CLASS \<noteq> 0" using o by simp
  note g = hg_to_json_get [OF own j]
  have "log_level (hg_fill_info e j user (new_hg e)) = log_level hg \<and> log_subsys (hg_fill_info e j user (new_hg e)) = log_subsys hg"
    using user l by (simp add: hg_fill_info_def g)
  moreover have "hg_validate_json (he_version e) j" unfolding j by (rule hg_output_valid [OF own])
  moreover have "hg_info (hg_fill_info e j user (new_hg e)) = init_info_from_json e (user_protocol user) j (he_initializer e)"
    using user by (simp add: hg_fill_info_def new_hg_def)
  moreover have "init_info_from_json e (user_protocol user) j (he_initializer e) = hg_info hg"
  proof (rule hg_init_info.equality)
  qed (use st validated_strings [OF valid] auto_set_again [of "he_vnis e" "user_protocol user" "auth_key (he_initializer e)"] in
      \<open>simp_all add: init_info_from_json_def g i Let_def object_get_uint64_or_def object_get_bool_or_def stores_def get_string_def checksum_roundtrip addr_format_roundtrip
         del: checksum_of_string.simps addr_format_of_string.simps split: option.splits json.splits\<close>)
  ultimately show ?thesis by simp
qed

theorem hg_config_roundtrip_witness:
  "let e = example_hg_env\<lparr>he_addr_self := Some 3\<rparr>;
       user = \<lparr>user_protocol = ''cxi'', user_init_info = None, user_class = None, user_context = None\<rparr>;
       json = Some (JObject [(''request_post_init'', Some (JInt 4)), (''checksum_level'', Some (JString ''rpc_payload''))]);
       (hg, w, ok) = hg_init_from_json e json user (new_hg e) [];
       j = hg_to_json (he_version e) ''2.4.0'' True 4096 4096 hg
   in ok \<and> hg_validate_json (he_version e) j \<and> hg_info (hg_fill_info e j user (new_hg e)) = hg_info hg"
proof -
  let ?e = "example_hg_env\<lparr>he_addr_self := Some 3\<rparr>"
  let ?user = "\<lparr>user_protocol = ''cxi'', user_init_info = None, user_class = None, user_context = None\<rparr>"
  let ?json = "Some (JObject [(''request_post_init'', Some (JInt 4)), (''checksum_level'', Some (JString ''rpc_payload''))])"
  obtain hg w ok where r: "hg_init_from_json ?e ?json ?user (new_hg ?e) [] = (hg, w, ok)" by (metis prod_cases3)
  then have ok: "ok" by (simp add: hg_init_from_json_def init_class_def init_context_def init_addr_def example_hg_env_def Let_def)
  have "hg_validate_json (he_version ?e) ?json"
    by (simp add: hg_validate_json_def has_optional_def is_in_enum_string_def get_string_def)
  moreover have "stores (he_post_init ?e)" "stores (he_post_incr ?e)" "stores (he_max_contexts ?e)" "stores (he_msg_size ?e)"
    by (simp_all add: stores_def example_hg_env_def)
  ultimately show ?thesis
    using hg_config_roundtrip [of ?e ?json ?user "[]" hg w _ "''2.4.0''" True 4096 4096] r ok by simp
qed

end
