(* ===== verification/Init.thy ===== *)
theory Init
  imports Abt_Config Hg_Config
begin

text \<open>
  Initialization of an instance (\<^verbatim>\<open>src/margo-init.c\<close>): validation of the whole configuration, the choice of the
  progress pool and of the default handler pool, and the order of the steps with their error path. The
  steps that other theories model in full (handle cache, arenas, timers, RPC registration) appear with
  their result only.
\<close>

section \<open>Validation\<close>

text \<open>\<open>have_plumber\<close> is \<^verbatim>\<open>HAVE_MOCHI_PLUMBER\<close>.\<close>

definition plumber_validate_json :: "bool \<Rightarrow> json option \<Rightarrow> bool" where
  "plumber_validate_json have_plumber p =
    (if p = None then True
     else if \<not> have_plumber then False
     else is_type p json_type_object \<and> has_optional p ''bucket_policy'' json_type_string \<and> has_optional p ''nic_policy'' json_type_string)"

definition integer_positive :: "json option \<Rightarrow> string \<Rightarrow> bool" where
  "integer_positive config key =
    (has_optional config key json_type_int \<and> (case object_get config key of Some (JInt i) \<Rightarrow> to_int i \<ge> 0 | _ \<Rightarrow> True))"

definition pool_field_valid :: "json option \<Rightarrow> json option \<Rightarrow> bool" where
  "pool_field_valid jpools field =
    (case field of
       None \<Rightarrow> True
     | Some (JInt i) \<Rightarrow> 0 \<le> get_int i \<and> get_int i < int (length (elements jpools))
     | Some (JString name) \<Rightarrow> name = ''__primary__'' \<or> find_by_name (elements jpools) name \<noteq> None
     | _ \<Rightarrow> False)"

definition margo_validate_json :: "bool \<Rightarrow> bool \<Rightarrow> bool \<Rightarrow> hg_version \<Rightarrow> json option \<Rightarrow> bool" where
  "margo_validate_json have_plumber abt2 initialized v margo \<longleftrightarrow>
     hg_validate_json v (object_get margo ''mercury'')
   \<and> abt_validate_json abt2 initialized (object_get margo ''argobots'')
   \<and> plumber_validate_json have_plumber (object_get margo ''plumber'')
   \<and> integer_positive margo ''progress_spindown_msec''
   \<and> integer_positive margo ''progress_timeout_ub_msec''
   \<and> integer_positive margo ''handle_cache_size''
   \<and> pool_field_valid (object_get (object_get margo ''argobots'') ''pools'') (object_get margo ''progress_pool'')
   \<and> has_optional margo ''use_progress_thread'' json_type_boolean
   \<and> pool_field_valid (object_get (object_get margo ''argobots'') ''pools'') (object_get margo ''rpc_pool'')
   \<and> has_optional margo ''rpc_thread_count'' json_type_int"

definition parent_pool_field_valid :: "margo_abt \<Rightarrow> json option \<Rightarrow> bool" where
  "parent_pool_field_valid parent_abt field =
    (case field of
       None \<Rightarrow> True
     | Some (JInt i) \<Rightarrow> 0 \<le> get_int i \<and> get_int i < int (length (pools parent_abt))
     | Some (JString name) \<Rightarrow> name = ''__primary__'' \<or> find_pool_by_name parent_abt (Some name) \<noteq> None
     | _ \<Rightarrow> False)"

definition margo_validate_json_with_parent :: "bool \<Rightarrow> hg_version \<Rightarrow> margo_abt \<Rightarrow> json option \<Rightarrow> bool" where
  "margo_validate_json_with_parent have_plumber v parent_abt margo \<longleftrightarrow>
     hg_validate_json v (object_get margo ''mercury'')
   \<and> object_get margo ''argobots'' = None
   \<and> object_get margo ''use_progress_thread'' = None
   \<and> object_get margo ''rpc_thread_count'' = None
   \<and> plumber_validate_json have_plumber (object_get margo ''plumber'')
   \<and> integer_positive margo ''progress_spindown_msec''
   \<and> integer_positive margo ''progress_timeout_ub_msec''
   \<and> integer_positive margo ''handle_cache_size''
   \<and> parent_pool_field_valid parent_abt (object_get margo ''progress_pool'')
   \<and> parent_pool_field_valid parent_abt (object_get margo ''rpc_pool'')"

section \<open>The pools of the instance\<close>

text \<open>
  What the system does: Mercury, Argobots, whether arrays can grow and the allocations succeed, and
  whether the handle cache, the arenas, the key and the progress thread could be made.
\<close>

record init_env =
  ie_plumber :: bool
  ie_hg :: hg_env
  ie_abt :: abt_env
  ie_realloc :: bool
  ie_calloc :: bool
  ie_malloc_abt :: bool
  ie_handle_cache :: bool
  ie_arenas :: bool
  ie_key :: bool
  ie_malloc_monitor :: bool
  ie_progress_thread :: bool

text \<open>The arguments.\<close>

record init_args =
  ia_hg :: hg_user_args
  ia_progress_pool :: ptr
  ia_rpc_pool :: ptr
  ia_monitor :: bool

text \<open>Results are the environment and the index, unless there was an error.\<close>

type_synonym pool_choice = "(margo_abt \<times> int option) option"

definition add_external :: "init_env \<Rightarrow> ptr \<Rightarrow> margo_abt \<Rightarrow> pool_choice" where
  "add_external e pool a = do {
     (a', ok) \<leftarrow> abt_add_external_pool (ie_realloc e) None pool a;
     Some (a', if ok then Some (int (length (pools a))) else None)
   }"

text \<open>The description of a stream with one pool.\<close>

definition stream_config :: "int \<Rightarrow> json option" where
  "stream_config idx = Some (JObject [(''scheduler'', Some (JObject [(''pools'', Some (JArray [Some (JInt idx)]))]))])"

fun add_streams :: "init_env \<Rightarrow> int \<Rightarrow> nat \<Rightarrow> margo_abt \<Rightarrow> (margo_abt \<times> bool) option" where
  "add_streams e idx 0 a = Some (a, True)"
| "add_streams e idx (Suc n) a = do {
     (a, ok) \<leftarrow> abt_add_xstream_from_json (ae_abt2 (ie_abt e)) True (ie_realloc e) (ae_xstream (ie_abt e) (length (xstreams a))) (stream_config idx) a;
     (if ok then add_streams e idx n a else Some (a, False))
   }"

text \<open>A new pool with \<open>n\<close> streams of its own.\<close>

definition add_pool_and_streams :: "init_env \<Rightarrow> nat \<Rightarrow> margo_abt \<Rightarrow> pool_choice" where
  "add_pool_and_streams e n a = do {
     let idx = int (length (pools a));
     (a, ok) \<leftarrow> abt_add_pool_from_config (ae_abt2 (ie_abt e)) True (ie_realloc e) (ae_pool (ie_abt e) (length (pools a)))
        (Some (JObject [(''access'', Some (JString ''mpmc''))])) a;
     (if \<not> ok then Some (a, None)
      else do {
        (a, ok) \<leftarrow> add_streams e idx n a;
        Some (a, if ok then Some idx else None)
      })
   }"

definition pool_field_index :: "margo_abt \<Rightarrow> json \<Rightarrow> int" where
  "pool_field_index a j =
    (case j of
       JInt i \<Rightarrow> get_int i
     | _ \<Rightarrow> (case find_pool_by_name a (get_string (Some j)) of Some i \<Rightarrow> int i | None \<Rightarrow> - 1))"

definition select_progress_pool :: "init_env \<Rightarrow> init_args \<Rightarrow> json option \<Rightarrow> nat \<Rightarrow> margo_abt \<Rightarrow> pool_choice" where
  "select_progress_pool e args config primary_pool_idx a =
    (let primary_pool = p_pool (pools a ! primary_pool_idx)
     in if primary_pool \<noteq> None \<and> ia_progress_pool args = primary_pool then Some (a, Some (int primary_pool_idx))
        else if ia_progress_pool args \<noteq> None then add_external e (ia_progress_pool args) a
        else
          (case object_get config ''progress_pool'' of
             Some j \<Rightarrow> Some (a, Some (pool_field_index a j))
           | None \<Rightarrow>
               if object_get config ''use_progress_thread'' = Some (JBool True) then add_pool_and_streams e 1 a
               else Some (a, Some (int primary_pool_idx))))"

definition select_rpc_pool :: "init_env \<Rightarrow> init_args \<Rightarrow> json option \<Rightarrow> ptr \<Rightarrow> nat \<Rightarrow> int \<Rightarrow> margo_abt \<Rightarrow> pool_choice" where
  "select_rpc_pool e args config primary_pool primary_pool_idx progress_idx a =
    (let rpc_thread_count = object_get_int_or config ''rpc_thread_count'' 0
     in if primary_pool \<noteq> None \<and> ia_rpc_pool args = primary_pool then Some (a, Some (int primary_pool_idx))
        else if ia_progress_pool args \<noteq> None \<and> ia_rpc_pool args = ia_progress_pool args then Some (a, Some progress_idx)
        else if ia_rpc_pool args \<noteq> None then add_external e (ia_rpc_pool args) a
        else
          (case object_get config ''rpc_pool'' of
             Some j \<Rightarrow> Some (a, Some (pool_field_index a j))
           | None \<Rightarrow>
               if rpc_thread_count < 0 then Some (a, Some progress_idx)
               else if rpc_thread_count > 0 then add_pool_and_streams e (nat rpc_thread_count) a
               else Some (a, Some (int primary_pool_idx))))"

text \<open>From the search for the primary pool to the check of the two indices.\<close>

definition select_pools :: "init_env \<Rightarrow> init_args \<Rightarrow> json option \<Rightarrow> margo_abt \<Rightarrow> (margo_abt \<times> (nat \<times> nat) option) option" where
  "select_pools e args config a =
    (case find_pool_by_name a (Some ''__primary__'') of
       None \<Rightarrow> Some (a, None)
     | Some primary_pool_idx \<Rightarrow> do {
         let primary_pool = p_pool (pools a ! primary_pool_idx);
         (a, p) \<leftarrow> select_progress_pool e args config primary_pool_idx a;
         (case p of
            None \<Rightarrow> Some (a, None)
          | Some p \<Rightarrow> do {
              (a, r) \<leftarrow> select_rpc_pool e args config primary_pool primary_pool_idx p a;
              (case r of
                 None \<Rightarrow> Some (a, None)
               | Some r \<Rightarrow>
                   Some (a, if 0 \<le> p \<and> p < int (length (pools a)) \<and> 0 \<le> r \<and> r < int (length (pools a))
                            then Some (nat p, nat r) else None))
            })
       })"

section \<open>The instance\<close>

text \<open>
  The globals of \<^verbatim>\<open>src/margo-globals.c\<close>: the number of instances, whether margo initialized Argobots, and
  whether Argobots is running.
\<close>

record abt_globals =
  g_margo_num_instances :: int
  g_margo_abt_init :: bool
  abt_running :: bool

text \<open>The part of \<^verbatim>\<open>__margo_abt_init_from_json\<close> and of \<^verbatim>\<open>__margo_abt_destroy\<close> that concerns the globals.\<close>

definition globals_init :: "bool \<Rightarrow> abt_globals \<Rightarrow> abt_globals \<times> bool" where
  "globals_init init_ok g =
    (if \<not> abt_running g \<and> \<not> init_ok then (g, False)
     else
       (let g = (if \<not> abt_running g then g\<lparr>g_margo_abt_init := True, abt_running := True\<rparr> else g)
        in (g\<lparr>g_margo_num_instances := g_margo_num_instances g + 1\<rparr>, True)))"

definition globals_destroy :: "abt_globals \<Rightarrow> abt_globals" where
  "globals_destroy g =
    (let g = g\<lparr>g_margo_num_instances := g_margo_num_instances g - 1\<rparr>
     in if g_margo_num_instances g = 0 \<and> g_margo_abt_init g then g\<lparr>abt_running := False, g_margo_abt_init := False\<rparr> else g)"

record inst =
  in_hg :: margo_hg
  in_abt :: margo_abt
  in_spindown_msec :: int
  in_timeout_ub_msec :: int
  in_handle_cache_size :: int
  in_abt_profiling :: bool
  in_refcount :: nat

text \<open>The calls to Mercury, the globals, the parent (its Argobots environment and reference count), and the pools and streams that were freed.\<close>

record init_state =
  is_calls :: "hg_call list"
  is_globals :: abt_globals
  is_parent :: "(margo_abt \<times> nat) option"
  is_freed :: "ptr list"

text \<open>The end of the error path.\<close>

definition init_fail :: "init_env \<Rightarrow> margo_hg \<Rightarrow> margo_abt \<Rightarrow> init_state \<Rightarrow> init_state \<times> inst option" where
  "init_fail e hg a s =
    (let s = s\<lparr>is_calls := snd (hg_destroy hg (is_calls s))\<rparr>
     in if is_parent s \<noteq> None then (s, None)
        else
          (let a = abt_destroy (ae_main_pools (ie_abt e)) a
           in (s\<lparr>is_globals := globals_destroy (is_globals s), is_freed := is_freed s @ freed_pools a @ freed_xstreams a\<rparr>, None)))"

text \<open>
  From the allocation of the instance on. When the structure of the environment cannot be allocated, the error
  path frees a list of timers that was not created (\<^const>\<open>None\<close>).
\<close>

definition init_instance ::
  "init_env \<Rightarrow> init_args \<Rightarrow> json option \<Rightarrow> margo_hg \<Rightarrow> nat \<times> nat \<Rightarrow> margo_abt \<Rightarrow> init_state \<Rightarrow> (init_state \<times> inst option) option" where
  "init_instance e args config hg idx a s =
    (if \<not> ie_calloc e then Some (init_fail e hg a s)
     else
       (let s' = s\<lparr>is_parent := map_option (\<lambda>(p, n). (p, n + 1)) (is_parent s)\<rparr>
        in if is_parent s = None \<and> \<not> ie_malloc_abt e then None
           else if \<not> ie_handle_cache e \<or> \<not> ie_arenas e \<or> \<not> ie_key e \<or> (ia_monitor args \<and> \<not> ie_malloc_monitor e) \<or> \<not> ie_progress_thread e
           then Some (init_fail e hg a (s'\<lparr>is_parent := map_option (\<lambda>(p, n). (p, n - 1)) (is_parent s')\<rparr>))
           else
             Some (s', Some \<lparr>in_hg = hg, in_abt = a\<lparr>progress_pool_idx := fst idx, rpc_pool_idx := snd idx\<rparr>,
               in_spindown_msec = object_get_int_or config ''progress_spindown_msec'' 10,
               in_timeout_ub_msec = object_get_int_or config ''progress_timeout_ub_msec'' 100,
               in_handle_cache_size = object_get_int_or config ''handle_cache_size'' 256,
               in_abt_profiling = object_get_bool_or config ''enable_abt_profiling'' False,
               in_refcount = 1\<rparr>)))"

text \<open>The Argobots environment: the parent's, or a new one. The result says whether there is one.\<close>

definition init_abt :: "init_env \<Rightarrow> json option \<Rightarrow> init_state \<Rightarrow> (init_state \<times> margo_abt \<times> bool) option" where
  "init_abt e config s =
    (case is_parent s of
       Some (a, n) \<Rightarrow> Some (s, a, True)
     | None \<Rightarrow> do {
         let g = fst (globals_init (ae_init (ie_abt e)) (is_globals s));
         (a, ok) \<leftarrow> abt_init_from_json ((ie_abt e)\<lparr>ae_initialized := abt_running (is_globals s)\<rparr>) (object_get config ''argobots'');
         Some (if ok then (s\<lparr>is_globals := g\<rparr>, a, True)
               else (s\<lparr>is_globals := globals_destroy g, is_freed := is_freed s @ freed_pools a @ freed_xstreams a\<rparr>, dummy_abt, False))
       })"

definition margo_init_ext :: "init_env \<Rightarrow> init_args \<Rightarrow> json option option \<Rightarrow> init_state \<Rightarrow> (init_state \<times> inst option) option" where
  "margo_init_ext e args json s =
    (case json of
       None \<Rightarrow> Some (s, None)
     | Some config \<Rightarrow>
         (let v = he_version (ie_hg e);
              valid = (case is_parent s of
                 Some (a, n) \<Rightarrow> margo_validate_json_with_parent (ie_plumber e) v a config
               | None \<Rightarrow> margo_validate_json (ie_plumber e) (ae_abt2 (ie_abt e)) (abt_running (is_globals s)) v config)
          in if \<not> valid then Some (init_fail e (new_hg (ie_hg e)) dummy_abt s)
             else
               (let (hg, w, ok) = hg_init_from_json (ie_hg e) (object_get config ''mercury'') (ia_hg args) (new_hg (ie_hg e)) (is_calls s);
                    s = s\<lparr>is_calls := w\<rparr>
                in if \<not> ok then Some (init_fail e hg dummy_abt s)
                   else do {
                     (s, a, ok) \<leftarrow> init_abt e config s;
                     (if \<not> ok then Some (init_fail e hg a s)
                      else do {
                        (a, sel) \<leftarrow> select_pools e args config a;
                        let s = s\<lparr>is_parent := map_option (\<lambda>(p, n). (a, n)) (is_parent s)\<rparr>;
                        (case sel of
                           None \<Rightarrow> Some (init_fail e hg a s)
                         | Some idx \<Rightarrow> init_instance e args config hg idx a s)
                      })
                   })))"

section \<open>Failure\<close>

lemma init_failD:
  assumes "(s', i) = init_fail e hg a s"
  shows "is_calls s' = snd (hg_destroy hg (is_calls s)) \<and> map_option snd (is_parent s') = map_option snd (is_parent s) \<and> i = None"
  using assms by (auto simp: init_fail_def Let_def split: if_splits)

text \<open>
  A failed initialization counts down the instances although it may not have counted up: when the configuration of a second
  instance is rejected while the first one runs, Argobots is finalized under the first.
\<close>

lemma rejected_init_finalizes_argobots:
  assumes "is_parent s = None" "is_globals s = \<lparr>g_margo_num_instances = 1, g_margo_abt_init = True, abt_running = True\<rparr>"
    and "\<not> margo_validate_json (ie_plumber e) (ae_abt2 (ie_abt e)) True (he_version (ie_hg e)) config"
  shows "\<exists>s'. margo_init_ext e args (Some config) s = Some (s', None) \<and> \<not> abt_running (is_globals s')"
  using assms by (simp add: margo_init_ext_def init_fail_def globals_destroy_def Let_def)

lemma hg_held_new [simp]: "hg_held (new_hg e) = []"
  by (simp add: hg_held_def new_hg_def zero_hg_def)

lemma init_abt_keeps:
  assumes "init_abt e config s = Some (s', a, ok)"
  shows "is_calls s' = is_calls s" "is_parent s' = is_parent s"
  using assms by (auto simp: init_abt_def Let_def ptr_simps split: option.splits if_splits)

lemma init_instance_outcome:
  assumes "init_instance e args config hg idx a s = Some (s', i)"
  shows "if i = None then is_calls s' = snd (hg_destroy hg (is_calls s)) \<and> map_option snd (is_parent s') = map_option snd (is_parent s)
    else is_calls s' = is_calls s \<and> in_hg (the i) = hg \<and> map_option snd (is_parent s') = map_option Suc (map_option snd (is_parent s))"
proof -
  have p: "map_option snd (map_option (\<lambda>(p, n). (p, n - 1)) (map_option (\<lambda>(p, n). (p, n + 1 :: nat)) x)) = map_option snd x" for x :: "(margo_abt \<times> nat) option"
    by (cases x) auto
  have q: "map_option snd (map_option (\<lambda>(p, n). (p, n + 1 :: nat)) x) = map_option Suc (map_option snd x)" for x :: "(margo_abt \<times> nat) option"
    by (cases x) auto
  show ?thesis
  proof (cases i)
    case None
    then have "(s', i) = init_fail e hg a s
        \<or> (s', i) = init_fail e hg a (s\<lparr>is_parent := map_option (\<lambda>(p, n). (p, n - 1)) (map_option (\<lambda>(p, n). (p, n + 1)) (is_parent s))\<rparr>)"
      using assms by (auto simp: init_instance_def Let_def split: if_splits)
    then show ?thesis using None init_failD p by fastforce
  next
    case (Some j)
    then show ?thesis using assms q by (auto simp: init_instance_def init_fail_def Let_def split: if_splits)
  qed
qed

text \<open>
  Initialization owns what it creates in Mercury. Unless the user passes a Mercury context: when
  initialization fails, at whatever step, all Mercury objects that it created have been destroyed, the
  last one first, and a parent instance has the reference count that it had before; when it succeeds,
  destroying the Mercury environment of the instance destroys exactly these objects in that order, and
  a parent has one reference more.
\<close>

lemma init_releases_mercury:
  assumes "user_context (ia_hg args) = None" and "margo_init_ext e args json s = Some (s', i)"
  shows "\<exists>created. set created \<subseteq> range HG_Init_opt \<union> range HG_Context_create \<union> range HG_Addr_self \<and>
    (case i of
       None \<Rightarrow> is_calls s' = is_calls s @ created @ map undo (rev created)
         \<and> map_option snd (is_parent s') = map_option snd (is_parent s)
     | Some i \<Rightarrow> is_calls s' = is_calls s @ created
         \<and> hg_destroy (in_hg i) (is_calls s') = (zero_hg, is_calls s @ created @ map undo (rev created))
         \<and> map_option snd (is_parent s') = map_option Suc (map_option snd (is_parent s)))"
proof (cases json)
  case None
  then show ?thesis using assms(2) by (intro exI [of _ "[]"]) (simp add: margo_init_ext_def)
next
  case (Some config)
  obtain hg w ok where h: "hg_init_from_json (ie_hg e) (object_get config ''mercury'') (ia_hg args) (new_hg (ie_hg e)) (is_calls s) = (hg, w, ok)"
    by (metis prod_cases3)
  obtain created where c: "set created \<subseteq> range HG_Init_opt \<union> range HG_Context_create \<union> range HG_Addr_self"
      "if ok then w = is_calls s @ created \<and> hg_destroy hg w = (zero_hg, is_calls s @ created @ map undo (rev created))
       else w = is_calls s @ created @ map undo (rev created) \<and> hg_destroy hg w = (hg, w)"
    using hg_init_undone [OF assms(1) h] by blast
  let ?s = "s\<lparr>is_calls := w\<rparr>"
  let ?valid = "case is_parent s of
      Some (a, n) \<Rightarrow> margo_validate_json_with_parent (ie_plumber e) (he_version (ie_hg e)) a config
    | None \<Rightarrow> margo_validate_json (ie_plumber e) (ae_abt2 (ie_abt e)) (abt_running (is_globals s)) (he_version (ie_hg e)) config"
  consider "\<not> ?valid" | "?valid" "\<not> ok" | "?valid" "ok" by blast
  then show ?thesis
  proof cases
    case 1
    then have "(s', i) = init_fail e (new_hg (ie_hg e)) dummy_abt s" using assms(2) Some by (simp add: margo_init_ext_def Let_def)
    from init_failD [OF this] show ?thesis by (intro exI [of _ "[]"]) (simp add: hg_destroy_undoes)
  next
    case 2
    then have "(s', i) = init_fail e hg dummy_abt ?s" using assms(2) Some h by (simp add: margo_init_ext_def Let_def)
    from init_failD [OF this] show ?thesis using c 2 by (intro exI [of _ created]) auto
  next
    case 3
    then have d: "w = is_calls s @ created" "hg_destroy hg w = (zero_hg, is_calls s @ created @ map undo (rev created))" using c(2) by auto
    obtain s1 a ok1 where a: "init_abt e config ?s = Some (s1, a, ok1)"
        "(if \<not> ok1 then Some (init_fail e hg a s1)
          else do {
            (a, sel) \<leftarrow> select_pools e args config a;
            let s = s1\<lparr>is_parent := map_option (\<lambda>(p, n). (a, n)) (is_parent s1)\<rparr>;
            (case sel of None \<Rightarrow> Some (init_fail e hg a s) | Some idx \<Rightarrow> init_instance e args config hg idx a s)
          }) = Some (s', i)"
      using assms(2) Some h 3 by (auto simp: margo_init_ext_def Let_def ptr_simps)
    note k = init_abt_keeps [OF a(1)]
    have fail: ?thesis if "(s', i) = init_fail e hg a2 s2" "is_calls s2 = w" "map_option snd (is_parent s2) = map_option snd (is_parent s)" for a2 s2
      using init_failD [OF that(1)] c(1) d(2) that by (intro exI [of _ created]) simp
    show ?thesis
    proof (cases ok1)
      case False
      then show ?thesis using a(2) k fail [of a s1] by simp
    next
      case True
      then obtain a2 sel where sel: "select_pools e args config a = Some (a2, sel)"
          "(case sel of None \<Rightarrow> Some (init_fail e hg a2 (s1\<lparr>is_parent := map_option (\<lambda>(p, n). (a2, n)) (is_parent s1)\<rparr>))
            | Some idx \<Rightarrow> init_instance e args config hg idx a2 (s1\<lparr>is_parent := map_option (\<lambda>(p, n). (a2, n)) (is_parent s1)\<rparr>)) = Some (s', i)"
        using a(2) by (auto simp: Let_def ptr_simps)
      let ?s2 = "s1\<lparr>is_parent := map_option (\<lambda>(p, n). (a2, n)) (is_parent s1)\<rparr>"
      have k2: "is_calls ?s2 = w" "map_option snd (is_parent ?s2) = map_option snd (is_parent s)"
        using k by (auto simp: option.map_comp o_def split_def)
      show ?thesis
      proof (cases sel)
        case None
        then show ?thesis using sel(2) k2 fail [of a2 ?s2] by simp
      next
        case (Some idx)
        then have "init_instance e args config hg idx a2 ?s2 = Some (s', i)" using sel(2) by simp
        from init_instance_outcome [OF this] show ?thesis
          using c(1) d k2 by (intro exI [of _ created]) (cases i; simp)
      qed
    qed
  qed
qed

definition example_init_env :: init_env where
  "example_init_env = \<lparr>ie_plumber = False, ie_hg = example_hg_env\<lparr>he_addr_self := Some 3\<rparr>,
     ie_abt = \<lparr>ae_abt2 = False, ae_initialized = False, ae_init = True, ae_calloc_pools = True, ae_calloc_xstreams = True,
       ae_pool = (\<lambda>i. Some (100 + i)), ae_xstream = (\<lambda>i. \<lparr>xe_sched_create = True, xe_default_pools = [], xe_create = Some (200 + i),
         xe_self = Some 300, xe_set_main_sched = True, xe_old_pools = None\<rparr>), ae_main_pools = (\<lambda>_. None), ae_self = Some 300\<rparr>,
     ie_realloc = True, ie_calloc = True, ie_malloc_abt = True, ie_handle_cache = True, ie_arenas = True, ie_key = True,
     ie_malloc_monitor = True, ie_progress_thread = True\<rparr>"

definition example_init_args :: init_args where
  "example_init_args = \<lparr>ia_hg = \<lparr>user_protocol = ''na+sm'', user_init_info = None, user_class = None, user_context = None\<rparr>,
     ia_progress_pool = None, ia_rpc_pool = None, ia_monitor = False\<rparr>"

definition example_init_state :: init_state where
  "example_init_state = \<lparr>is_calls = [], is_globals = \<lparr>g_margo_num_instances = 0, g_margo_abt_init = False, abt_running = False\<rparr>,
     is_parent = None, is_freed = []\<rparr>"

section \<open>Success\<close>

lemma static_length [simp]: "length (static a) = length (pools a)"
  by (simp add: static_def)

lemma static_nth: "i < length (pools a) \<Longrightarrow> static a ! i = (p_name (pools a ! i), p_pool (pools a ! i), p_kind (pools a ! i), p_access (pools a ! i))"
  by (simp add: static_def)

text \<open>What holds of a pool also holds after pools were added.\<close>

lemma static_extends:
  assumes "static b = static a @ ps" "i < length (pools a)"
  shows "i < length (pools b)" "p_name (pools b ! i) = p_name (pools a ! i)" "p_pool (pools b ! i) = p_pool (pools a ! i)"
proof -
  have "length (static b) = length (static a) + length ps" using assms(1) by (simp only: length_append)
  then show l: "i < length (pools b)" using assms(2) by simp
  have "static b ! i = static a ! i" using assms by (simp add: nth_append)
  then show "p_name (pools b ! i) = p_name (pools a ! i)" "p_pool (pools b ! i) = p_pool (pools a ! i)"
    using static_nth [OF l] static_nth [OF assms(2)] by simp_all
qed

lemma static_snoc:
  assumes "static b = static a @ [t]"
  shows "length (pools b) = length (pools a) + 1" "p_name (pools b ! length (pools a)) = fst t"
proof -
  show l: "length (pools b) = length (pools a) + 1" using arg_cong [OF assms, of length] by simp
  then have "static b ! length (pools a) = t" using assms by (simp add: nth_append)
  then show "p_name (pools b ! length (pools a)) = fst t" using static_nth [of "length (pools a)" b] l by auto
qed

lemma add_stream_ok:
  assumes e: "xstream_env_ok e" and i: "i < length (pools a)" "length (pools a) \<le> 2 ^ 31" "p_pool (pools a ! i) \<noteq> None"
  shows "\<exists>a' x. abt_add_xstream_from_json False True True e (stream_config (int i)) a = Some (a', True)
    \<and> static a' = static a \<and> xstreams a' = xstreams a @ [x]"
proof -
  obtain b where b: "xstreams_space True a = Some b" "pools b = pools a" "xstreams b = xstreams a"
    by (cases "length (xstreams a) = xstreams_cap a") (auto simp: xstreams_space_def)
  have gi: "get_int (int i) = int i" using i by (simp add: get_int_def)
  then have "nat (get_int (int i) mod 2 ^ 32) = i" using i by simp
  then have "pool_ref_resolve b (Some (JInt (int i))) = Some (p_pool (pools b ! i))" using i(1) b(2) by (simp add: pool_ref_resolve_def)
  then have s: "sched_init_from_json True (object_get (stream_config (int i)) ''scheduler'') b =
      Some (object_get_string_or (object_get (stream_config (int i)) ''scheduler'') ''type'' ''basic_wait'', [p_pool (pools b ! i)])"
    by (simp add: stream_config_def sched_init_from_json_def object_get_string_or_def elements_def)
  have l: "list_all (\<lambda>h. h \<noteq> None \<and> h \<in> p_pool ` set (pools b)) [p_pool (pools b ! i)]" using i b(2) by simp
  have "has_optional (stream_config (int i)) ''name'' json_type_string" by (simp add: stream_config_def has_optional_def)
  from xstream_init_ok [OF e s _ l this] obtain a' x
    where "xstream_init_from_json e (stream_config (int i)) b = Some (a', Some x)" "static a' = static b" "xstreams a' = xstreams b" by auto
  moreover have "xstream_validate_json False True a None (stream_config (int i))"
    using i(1) gi by (simp add: stream_config_def xstream_validate_json_def sched_validate_json_def pool_ref_valid_def has_optional_def elements_def)
  moreover have "find_xstream_by_name a (get_string (object_get (stream_config (int i)) ''name'')) = None"
    by (simp add: stream_config_def get_string_def find_xstream_by_name_def)
  ultimately show ?thesis using b
    by (intro exI [of _ "a'\<lparr>xstreams := xstreams a' @ [x]\<rparr>"] exI [of _ x]) (simp add: abt_add_xstream_from_json_def static_def)
qed

text \<open>The system does what it is asked.\<close>

definition init_env_ok :: "init_env \<Rightarrow> bool" where
  "init_env_ok e \<longleftrightarrow> \<not> ae_abt2 (ie_abt e) \<and> ae_init (ie_abt e) \<and> ae_calloc_pools (ie_abt e) \<and> ae_calloc_xstreams (ie_abt e)
     \<and> (\<forall>i. ae_pool (ie_abt e) i \<noteq> None) \<and> (\<forall>i. xstream_env_ok (ae_xstream (ie_abt e) i))
     \<and> he_init_opt (ie_hg e) \<noteq> None \<and> he_context_create (ie_hg e) \<noteq> None \<and> he_addr_self (ie_hg e) \<noteq> None \<and> he_calloc (ie_hg e)
     \<and> ie_realloc e \<and> ie_calloc e \<and> ie_malloc_abt e \<and> ie_handle_cache e \<and> ie_arenas e \<and> ie_key e \<and> ie_malloc_monitor e \<and> ie_progress_thread e"

lemma add_streams_ok:
  assumes e: "init_env_ok e" and i: "i < length (pools a)" "length (pools a) \<le> 2 ^ 31" "p_pool (pools a ! i) \<noteq> None"
  shows "\<exists>a' xs. add_streams e (int i) n a = Some (a', True) \<and> static a' = static a \<and> xstreams a' = xstreams a @ xs \<and> length xs = n"
  using i
proof (induction n arbitrary: a)
  case 0
  then show ?case by simp
next
  case (Suc n)
  have xe: "xstream_env_ok (ae_xstream (ie_abt e) (length (xstreams a)))" using e by (simp add: init_env_ok_def)
  obtain b x where b: "abt_add_xstream_from_json False True True (ae_xstream (ie_abt e) (length (xstreams a))) (stream_config (int i)) a = Some (b, True)"
      "static b = static a" "xstreams b = xstreams a @ [x]"
    using add_stream_ok [OF xe Suc.prems] by blast
  have l: "length (pools b) = length (pools a)" using b(2) by (metis static_length)
  have "i < length (pools b)" "p_pool (pools b ! i) \<noteq> None" using static_extends [of b a "[]" i] b(2) Suc.prems by simp_all
  then obtain a' xs where "add_streams e (int i) n b = Some (a', True)" "static a' = static b" "xstreams a' = xstreams b @ xs" "length xs = n"
    using Suc.IH [of b] Suc.prems(2) l by auto
  then show ?case using b e by (intro exI [of _ a'] exI [of _ "x # xs"]) (simp add: init_env_ok_def)
qed

lemma generated_pool_not_primary: "generate_unused_pool_name a = Some n \<Longrightarrow> n \<noteq> ''__primary__''"
  using generate_unused_pool_name_ok [of a] by (auto simp: pool_name_def)

lemma add_pool_and_streams_ok:
  assumes e: "init_env_ok e" and l: "length (pools a) < 2 ^ 31"
  shows "\<exists>a' t xs. add_pool_and_streams e n a = Some (a', Some (int (length (pools a)))) \<and> static a' = static a @ [t]
    \<and> fst (snd t) \<noteq> None \<and> fst t \<noteq> Some ''__primary__''  \<and> xstreams a' = xstreams a @ xs \<and> length xs = n"
proof -
  let ?c = "Some (JObject [(''access'', Some (JString ''mpmc''))])"
  obtain h where h: "ae_pool (ie_abt e) (length (pools a)) = Some h" using e by (auto simp: init_env_ok_def)
  obtain b where b: "pools_space True a = Some b" "pools b = pools a" "xstreams b = xstreams a"
    by (cases "length (pools a) = pools_cap a") (auto simp: pools_space_def)
  have v: "pool_validate_json True ?c"
    by (simp add: pool_validate_json_def has_optional_def is_in_enum_string_def get_string_def)
  obtain p where p: "pool_init_from_json False (Some h) ?c b = Some (Some p)" "p_pool p = Some h"
    using pool_init_ok [OF v] by blast
  have np: "p_name p \<noteq> Some ''__primary__''"
    using p(1) generated_pool_not_primary [of b] by (auto simp: pool_init_from_json_def get_string_def bind_eq_Some_conv Let_def split: if_splits)
  let ?b = "b\<lparr>pools := pools b @ [p]\<rparr>"
  have a: "abt_add_pool_from_config False True True (Some h) ?c a = Some (?b, True)"
    using v b p(1) by (simp add: abt_add_pool_from_config_def get_string_def find_pool_by_name_def)
  have st: "static ?b = static a @ [(p_name p, p_pool p, p_kind p, p_access p)]" using b(2) by (simp add: static_def)
  obtain a' xs where s: "add_streams e (int (length (pools a))) n ?b = Some (a', True)" "static a' = static ?b" "xstreams a' = xstreams ?b @ xs" "length xs = n"
    using add_streams_ok [OF e, of "length (pools a)" ?b n] l b(2) p(2) by auto
  have "add_pool_and_streams e n a = Some (a', Some (int (length (pools a))))"
    using e a s(1) h by (simp add: add_pool_and_streams_def init_env_ok_def Let_def)
  then show ?thesis using s st b p(2) np by (intro exI) auto
qed

lemma find_by_name_Some: "find_by_name xs name \<noteq> None \<Longrightarrow> \<exists>j \<in> set xs. get_string (object_get j ''name'') = Some name"
  by (induction xs name rule: find_by_name.induct) (auto split: if_splits)

text \<open>A validated field of the configuration names a pool of the environment.\<close>

definition names_pool :: "margo_abt \<Rightarrow> json \<Rightarrow> nat \<Rightarrow> bool" where
  "names_pool a j i \<longleftrightarrow> i < length (pools a) \<and> (case j of JInt k \<Rightarrow> int i = get_int k | _ \<Rightarrow> p_name (pools a ! i) = get_string (Some j))"

lemma pool_field_index_ok:
  assumes v: "pool_field_valid jpools (Some j)" and p: "find_pool_by_name a (Some ''__primary__'') \<noteq> None"
    and m: "list_all2 pool_matches (elements jpools) (take (length (elements jpools)) (pools a))"
  shows "\<exists>i. pool_field_index a j = int i \<and> names_pool a j i"
proof -
  have l: "length (elements jpools) \<le> length (pools a)" using list_all2_lengthD [OF m] by simp
  consider k where "j = JInt k" "0 \<le> get_int k" "get_int k < int (length (elements jpools))"
    | n where "j = JString n" "n = ''__primary__'' \<or> find_by_name (elements jpools) n \<noteq> None"
    using v by (auto simp: pool_field_valid_def split: json.splits)
  then show ?thesis
  proof cases
    case 1
    then show ?thesis using l by (intro exI [of _ "nat (get_int k)"]) (simp add: pool_field_index_def names_pool_def)
  next
    case (2 n)
    have "find_pool_by_name a (Some n) \<noteq> None"
    proof (cases "n = ''__primary__''")
      case False
      then obtain q where q: "q \<in> set (elements jpools)" "get_string (object_get q ''name'') = Some n"
        using 2 find_by_name_Some by blast
      then obtain k where k: "k < length (elements jpools)" "elements jpools ! k = q" by (metis in_set_conv_nth)
      then have "p_name (pools a ! k) = Some n"
        using list_all2_nthD [OF m k(1)] q(2) by (auto simp: pool_matches_def get_string_def split: option.splits)
      then show ?thesis using k(1) l by (auto simp: find_pool_by_name_def find_index_None_iff)
    qed (use p in simp)
    then obtain i where i: "find_pool_by_name a (Some n) = Some i" by blast
    then have "i < length (pools a)" "p_name (pools a ! i) = Some n"
      using find_index_SomeD [of "\<lambda>p. p_name p = Some n" "pools a" i] by (auto simp: find_pool_by_name_def)
    then show ?thesis using i 2(1) by (intro exI [of _ i]) (simp add: pool_field_index_def names_pool_def get_string_def)
  qed
qed

text \<open>
  The pools that a configuration asks for, in an environment whose first \<open>n\<close> pools are older than the choice: by
  a field, by a request for new streams, or the primary pool.
\<close>

definition progress_choice :: "json option \<Rightarrow> nat \<Rightarrow> margo_abt \<Rightarrow> nat \<Rightarrow> bool" where
  "progress_choice config n a p =
    (p < length (pools a) \<and>
     (case object_get config ''progress_pool'' of
        Some j \<Rightarrow> names_pool a j p
      | None \<Rightarrow> if object_get config ''use_progress_thread'' = Some (JBool True)
               then p \<ge> n \<and> p_name (pools a ! p) \<noteq> Some ''__primary__''
               else p_name (pools a ! p) = Some ''__primary__''))"

definition rpc_choice :: "json option \<Rightarrow> nat \<Rightarrow> margo_abt \<Rightarrow> nat \<Rightarrow> nat \<Rightarrow> bool" where
  "rpc_choice config n a p r =
    (let count = object_get_int_or config ''rpc_thread_count'' 0
     in r < length (pools a) \<and>
        (case object_get config ''rpc_pool'' of
           Some j \<Rightarrow> names_pool a j r
         | None \<Rightarrow> if count < 0 then r = p else if count > 0 then r \<ge> n \<and> r \<noteq> p \<and> p_name (pools a ! r) \<noteq> Some ''__primary__''
               else p_name (pools a ! r) = Some ''__primary__''))"

text \<open>The number of streams that a configuration asks for besides those that it describes.\<close>

definition extra_streams :: "json option \<Rightarrow> nat" where
  "extra_streams config =
    (if object_get config ''progress_pool'' = None \<and> object_get config ''use_progress_thread'' = Some (JBool True) then 1 else 0)
    + (if object_get config ''rpc_pool'' = None then nat (object_get_int_or config ''rpc_thread_count'' 0) else 0)"

lemma choice_extends:
  assumes "static b = static a @ ps"
  shows "names_pool a j i \<Longrightarrow> names_pool b j i" and "progress_choice config n a p \<Longrightarrow> progress_choice config n b p"
proof -
  have n: "names_pool b j i" if "names_pool a j i" for j i
    using that static_extends [OF assms] by (auto simp: names_pool_def split: json.splits)
  then show "names_pool a j i \<Longrightarrow> names_pool b j i" .
  show "progress_choice config n a p \<Longrightarrow> progress_choice config n b p"
    using n static_extends [OF assms] by (auto simp: progress_choice_def split: option.splits if_splits)
qed

lemma find_primary:
  assumes "find_pool_by_name a (Some ''__primary__'') = Some k"
  shows "k < length (pools a)" "p_name (pools a ! k) = Some ''__primary__''"
  using assms find_index_SomeD [of "\<lambda>p. p_name p = Some ''__primary__''" "pools a" k] by (auto simp: find_pool_by_name_def)

lemma find_primary_extends:
  assumes "find_pool_by_name a (Some ''__primary__'') = Some k" "static b = static a @ ps"
  shows "find_pool_by_name b (Some ''__primary__'') \<noteq> None"
proof -
  have "pools b ! k \<in> set (pools b)" "p_name (pools b ! k) = Some ''__primary__''"
    using find_primary [OF assms(1)] static_extends [OF assms(2), of k] by simp_all
  then show ?thesis by (auto simp: find_pool_by_name_def find_index_None_iff)
qed

lemma matches_extends:
  assumes "static b = static a @ ps" and "list_all2 pool_matches js (take (length js) (pools a))"
  shows "list_all2 pool_matches js (take (length js) (pools b))"
proof -
  have l: "length js \<le> length (pools a)" using list_all2_lengthD [OF assms(2)] by simp
  have "static (b\<lparr>pools := take (length js) (pools b)\<rparr>) = take (length js) (static b)"
    and a: "static (a\<lparr>pools := take (length js) (pools a)\<rparr>) = take (length js) (static a)"
    by (simp_all add: static_def take_map)
  then have "static (b\<lparr>pools := take (length js) (pools b)\<rparr>) = static (a\<lparr>pools := take (length js) (pools a)\<rparr>)"
    using assms(1) l by (simp add: a)
  from static_matches [OF this, of js] show ?thesis using assms(2) by simp
qed

lemma select_progress_ok:
  assumes e: "init_env_ok e" and n: "ia_progress_pool args = None" and k: "find_pool_by_name a (Some ''__primary__'') = Some k"
    and v: "pool_field_valid jpools (object_get config ''progress_pool'')"
    and m: "list_all2 pool_matches (elements jpools) (take (length (elements jpools)) (pools a))" and l: "length (pools a) < 2 ^ 31"
  shows "\<exists>b p ps xs. select_progress_pool e args config k a = Some (b, Some (int p)) \<and> static b = static a @ ps \<and> length ps \<le> 1
    \<and> xstreams b = xstreams a @ xs \<and> progress_choice config (length (pools a)) b p
    \<and> length xs = (if object_get config ''progress_pool'' = None \<and> object_get config ''use_progress_thread'' = Some (JBool True) then 1 else 0)"
proof (cases "object_get config ''progress_pool''")
  case (Some j)
  then obtain i where "pool_field_index a j = int i" "names_pool a j i" using pool_field_index_ok [of jpools j a] v k m by auto
  then show ?thesis using Some n by (intro exI [of _ a] exI [of _ i] exI [of _ "[]"])
      (auto simp: select_progress_pool_def progress_choice_def names_pool_def Let_def)
next
  case None
  show ?thesis
  proof (cases "object_get config ''use_progress_thread'' = Some (JBool True)")
    case True
    obtain b t xs where b: "add_pool_and_streams e 1 a = Some (b, Some (int (length (pools a))))" "static b = static a @ [t]"
        "xstreams b = xstreams a @ xs" "length xs = 1" "fst t \<noteq> Some ''__primary__''"
      using add_pool_and_streams_ok [OF e l, of 1] by blast
    note static_snoc [OF b(2)]
    then show ?thesis using None True n b by (intro exI [of _ b] exI [of _ "length (pools a)"] exI [of _ "[t]"] exI [of _ xs])
        (auto simp: select_progress_pool_def progress_choice_def Let_def)
  next
    case False
    then show ?thesis using None n find_primary [OF k] by (intro exI [of _ a] exI [of _ k] exI [of _ "[]"])
        (auto simp: select_progress_pool_def progress_choice_def Let_def)
  qed
qed

lemma select_rpc_ok:
  assumes e: "init_env_ok e" and n: "ia_progress_pool args = None" "ia_rpc_pool args = None"
    and k: "k < length (pools a)" "p_name (pools a ! k) = Some ''__primary__''" "find_pool_by_name a (Some ''__primary__'') \<noteq> None"
    and v: "pool_field_valid jpools (object_get config ''rpc_pool'')"
    and m: "list_all2 pool_matches (elements jpools) (take (length (elements jpools)) (pools a))" and l: "length (pools a) < 2 ^ 31"
    and p: "p < length (pools a)" and n0: "n0 \<le> length (pools a)"
  shows "\<exists>b r ps xs. select_rpc_pool e args config primary k (int p) a = Some (b, Some (int r)) \<and> static b = static a @ ps \<and> length ps \<le> 1
    \<and> xstreams b = xstreams a @ xs \<and> rpc_choice config n0 b p r
    \<and> length xs = (if object_get config ''rpc_pool'' = None then nat (object_get_int_or config ''rpc_thread_count'' 0) else 0)"
proof (cases "object_get config ''rpc_pool''")
  case (Some j)
  then obtain i where "pool_field_index a j = int i" "names_pool a j i" using pool_field_index_ok [of jpools j a] v k(3) m by auto
  then show ?thesis using Some n by (intro exI [of _ a] exI [of _ i] exI [of _ "[]"])
      (auto simp: select_rpc_pool_def rpc_choice_def names_pool_def Let_def)
next
  case None
  let ?count = "object_get_int_or config ''rpc_thread_count'' 0"
  show ?thesis
  proof (cases "?count > 0")
    case True
    obtain b t xs where b: "add_pool_and_streams e (nat ?count) a = Some (b, Some (int (length (pools a))))" "static b = static a @ [t]"
        "xstreams b = xstreams a @ xs" "length xs = nat ?count" "fst t \<noteq> Some ''__primary__''"
      using add_pool_and_streams_ok [OF e l, of "nat ?count"] by blast
    note static_snoc [OF b(2)]
    then show ?thesis using None True n b p n0 by (intro exI [of _ b] exI [of _ "length (pools a)"] exI [of _ "[t]"] exI [of _ xs])
        (auto simp: select_rpc_pool_def rpc_choice_def Let_def)
  next
    case False
    then show ?thesis using None n k p by (intro exI [of _ a] exI [of _ "if ?count < 0 then p else k"] exI [of _ "[]"])
        (auto simp: select_rpc_pool_def rpc_choice_def Let_def)
  qed
qed

lemma select_pools_ok:
  assumes e: "init_env_ok e" and n: "ia_progress_pool args = None" "ia_rpc_pool args = None"
    and k: "find_pool_by_name a (Some ''__primary__'') = Some k"
    and v: "pool_field_valid jpools (object_get config ''progress_pool'')" "pool_field_valid jpools (object_get config ''rpc_pool'')"
    and m: "list_all2 pool_matches (elements jpools) (take (length (elements jpools)) (pools a))" and l: "length (pools a) < 2 ^ 31 - 1"
  shows "\<exists>b p r ps xs. select_pools e args config a = Some (b, Some (p, r)) \<and> static b = static a @ ps
    \<and> xstreams b = xstreams a @ xs \<and> length xs = extra_streams config
    \<and> progress_choice config (length (pools a)) b p \<and> rpc_choice config (length (pools a)) b p r"
proof -
  obtain b p ps xs where b: "select_progress_pool e args config k a = Some (b, Some (int p))" "static b = static a @ ps" "length ps \<le> 1"
      "xstreams b = xstreams a @ xs" "progress_choice config (length (pools a)) b p"
      "length xs = (if object_get config ''progress_pool'' = None \<and> object_get config ''use_progress_thread'' = Some (JBool True) then 1 else 0)"
    using select_progress_ok [OF e n(1) k v(1) m] l by auto
  have lb: "length (pools b) = length (pools a) + length ps" using arg_cong [OF b(2), of length] by simp
  have kb: "k < length (pools b)" "p_name (pools b ! k) = Some ''__primary__''"
    using find_primary [OF k] static_extends [OF b(2), of k] by simp_all
  have pb: "p < length (pools b)" using b(5) by (simp add: progress_choice_def)
  have lb': "length (pools b) < 2 ^ 31" "length (pools a) \<le> length (pools b)" using lb b(3) l by auto
  obtain c r qs ys where c: "select_rpc_pool e args config (p_pool (pools a ! k)) k (int p) b = Some (c, Some (int r))" "static c = static b @ qs"
      "xstreams c = xstreams b @ ys" "rpc_choice config (length (pools a)) c p r"
      "length ys = (if object_get config ''rpc_pool'' = None then nat (object_get_int_or config ''rpc_thread_count'' 0) else 0)"
    using select_rpc_ok [OF e n kb find_primary_extends [OF k b(2)] v(2) matches_extends [OF b(2) m] lb'(1) pb lb'(2)] by blast
  have pc: "progress_choice config (length (pools a)) c p" using choice_extends(2) [OF c(2) b(5)] .
  moreover have "p < length (pools c)" "r < length (pools c)" using pc c(4) by (simp_all add: progress_choice_def rpc_choice_def Let_def)
  then have "select_pools e args config a = Some (c, Some (p, r))" using k b(1) c(1) by (simp add: select_pools_def Let_def)
  ultimately show ?thesis using b c by (intro exI [of _ c] exI [of _ p] exI [of _ r] exI [of _ "ps @ qs"] exI [of _ "xs @ ys"])
      (simp add: extra_streams_def)
qed

lemma hg_init_ok:
  assumes "init_env_ok e" "user_context user = None"
  shows "\<exists>hg w'. hg_init_from_json (ie_hg e) json user hg0 w = (hg, w', True)"
  using assms by (auto simp: init_env_ok_def hg_init_from_json_def init_class_def init_context_def init_addr_def Let_def)

lemma valid_config_init:
  assumes valid: "margo_validate_json (ie_plumber e) False False (he_version (ie_hg e)) config" and env: "init_env_ok e"
    and s: "is_parent s = None" "\<not> abt_running (is_globals s)"
    and args: "ia_progress_pool args = None" "ia_rpc_pool args = None" "user_context (ia_hg args) = None"
    and jps: "jps = elements (object_get (object_get config ''argobots'') ''pools'')" "length jps < 2 ^ 31 - 2"
    and jxs: "jxs = elements (object_get (object_get config ''argobots'') ''xstreams'')"
      "\<forall>x \<in> set jxs. get_string (object_get x ''name'') \<noteq> Some ''__primary__''"
  obtains s' i where "margo_init_ext e args (Some config) s = Some (s', Some i)"
    "list_all2 pool_matches jps (take (length jps) (pools (in_abt i)))"
    "list_all2 xstream_matches jxs (take (length jxs) (xstreams (in_abt i)))"
    "length (xstreams (in_abt i)) = length jxs + 1 + extra_streams config"
    "progress_choice config (length jps) (in_abt i) (progress_pool_idx (in_abt i))"
    "rpc_choice config (length jps) (in_abt i) (progress_pool_idx (in_abt i)) (rpc_pool_idx (in_abt i))"
proof -
  let ?abt = "object_get config ''argobots''"
  have v: "abt_validate_json False False ?abt" "pool_field_valid (object_get ?abt ''pools'') (object_get config ''progress_pool'')"
      "pool_field_valid (object_get ?abt ''pools'') (object_get config ''rpc_pool'')"
    using valid by (simp_all add: margo_validate_json_def)
  have ae: "ae_init (ie_abt e)" "ae_calloc_pools (ie_abt e)" "ae_calloc_xstreams (ie_abt e)" "\<not> ae_abt2 (ie_abt e)"
      "\<forall>i. ae_pool (ie_abt e) i \<noteq> None" "\<forall>i. xstream_env_ok (ae_xstream (ie_abt e) i)"
    using env by (simp_all add: init_env_ok_def)
  obtain a x k where a: "abt_init_from_json ((ie_abt e)\<lparr>ae_initialized := False\<rparr>) ?abt = Some (a, True)"
      "list_all2 pool_matches jps (take (length jps) (pools a))" "length (pools a) \<le> length jps + 1"
      "list_all2 xstream_matches jxs (butlast (xstreams a))" "xstreams a \<noteq> []" "find_pool_by_name a (Some ''__primary__'') = Some k"
    using valid_config_is_built [OF v(1), of "(ie_abt e)\<lparr>ae_initialized := False\<rparr>"] ae jps jxs by auto
  obtain b p r ps xs where b: "select_pools e args config a = Some (b, Some (p, r))" "static b = static a @ ps" "xstreams b = xstreams a @ xs"
      "length xs = extra_streams config" "progress_choice config (length (pools a)) b p" "rpc_choice config (length (pools a)) b p r"
    using select_pools_ok [OF env args(1,2) a(6) v(2,3)] a(2,3) jps by auto
  obtain hg w where hg: "hg_init_from_json (ie_hg e) (object_get config ''mercury'') (ia_hg args) (new_hg (ie_hg e)) (is_calls s) = (hg, w, True)"
    using hg_init_ok [OF env args(3)] by blast
  let ?a = "b\<lparr>progress_pool_idx := p, rpc_pool_idx := r\<rparr>"
  obtain s' i where "margo_init_ext e args (Some config) s = Some (s', Some i)" "in_abt i = ?a"
    using valid s ae(1,4) hg a(1) b(1) env
    by (simp add: margo_init_ext_def init_abt_def init_instance_def init_env_ok_def Let_def)
  moreover have la: "length jps \<le> length (pools a)" using list_all2_lengthD [OF a(2)] by simp
  have sa: "static ?a = static b @ []" by (simp add: static_def)
  have "list_all2 pool_matches jps (take (length jps) (pools ?a))" using matches_extends [OF b(2) a(2)] by simp
  moreover have lx: "length (xstreams a) = length jxs + 1" "butlast (xstreams a) = take (length jxs) (xstreams a)"
    using list_all2_lengthD [OF a(4)] a(5) by (simp_all add: butlast_conv_take)
  have "list_all2 xstream_matches jxs (take (length jxs) (xstreams ?a))" using a(4) lx b(3) by simp
  moreover have "length (xstreams ?a) = length jxs + 1 + extra_streams config" using b(3,4) lx by simp
  moreover have "progress_choice config (length jps) ?a p" "rpc_choice config (length jps) ?a p r"
    using b(5,6) la by (auto simp: progress_choice_def rpc_choice_def names_pool_def Let_def split: option.splits json.splits if_splits)
  ultimately show ?thesis by (intro that [of s' i]) simp_all
qed



end
