(* ===== verification/Full_Config.thy ===== *)
theory Full_Config
  imports Init
begin

text \<open>
  The configuration of a whole instance as JSON (\<^verbatim>\<open>margo_get_config_opt\<close> in \<^verbatim>\<open>src/margo-config.c\<close>), which joins the
  output of the Argobots and the Mercury environment, and the transfer of the contents of a pool.
\<close>

section \<open>Output of the configuration\<close>

text \<open>
  What Argobots and Mercury report when the configuration is printed, the name and the configuration of the monitor, if any, and
  the policies of the plumber if it is compiled in.
\<close>

record config_env =
  ce_version :: string
  ce_main_pools :: "ptr \<Rightarrow> ptr list option"
  ce_cpubind :: "ptr \<Rightarrow> int option"
  ce_affinity :: "ptr \<Rightarrow> int list option"
  ce_num_stacks :: "int option"
  ce_stacksize :: "int option"
  ce_profiling_dir :: string
  ce_lazy_stack_alloc :: bool
  ce_hg_version :: hg_version
  ce_hg_version_string :: string
  ce_listening :: bool
  ce_input_eager_size :: int
  ce_output_eager_size :: int
  ce_monitor :: "(string option \<times> json option option) option"
  ce_plumber :: "(string \<times> string) option"

definition monitoring_members :: "(string option \<times> json option option) option \<Rightarrow> (string \<times> json option) list" where
  "monitoring_members monitor =
    (case monitor of
       None \<Rightarrow> []
     | Some (name, config) \<Rightarrow>
         [(''monitoring'', Some (JObject ((case name of Some n \<Rightarrow> [(''name'', Some (JString n))] | None \<Rightarrow> [])
            @ (case config of Some c \<Rightarrow> [(''config'', c)] | None \<Rightarrow> []))))])"

definition plumber_members :: "(string \<times> string) option \<Rightarrow> (string \<times> json option) list" where
  "plumber_members plumber =
    (case plumber of
       None \<Rightarrow> []
     | Some (bucket_policy, nic_policy) \<Rightarrow>
         [(''plumber'', Some (JObject [(''bucket_policy'', Some (JString bucket_policy)), (''nic_policy'', Some (JString nic_policy))]))])"

definition pool_reference :: "bool \<Rightarrow> margo_abt \<Rightarrow> nat \<Rightarrow> json option" where
  "pool_reference names a i = (if names then jstring (p_name (pools a ! i)) else Some (JInt (int i)))"

definition margo_get_config_opt :: "config_options \<Rightarrow> config_env \<Rightarrow> inst \<Rightarrow> json option" where
  "margo_get_config_opt options e mid =
    Some (JObject
      ([(''version'', Some (JString (ce_version e))),
        (''argobots'', abt_to_json options (ce_main_pools e) (ce_cpubind e) (ce_affinity e) (ce_num_stacks e) (ce_stacksize e)
           (ce_profiling_dir e) (ce_lazy_stack_alloc e) (in_abt mid)),
        (''mercury'', hg_to_json (ce_hg_version e) (ce_hg_version_string e) (ce_listening e) (ce_input_eager_size e) (ce_output_eager_size e) (in_hg mid))]
       @ monitoring_members (ce_monitor e) @ plumber_members (ce_plumber e)
       @ [(''progress_timeout_ub_msec'', Some (JInt (in_timeout_ub_msec mid))), (''progress_spindown_msec'', Some (JInt (in_spindown_msec mid))),
          (''handle_cache_size'', Some (JInt (in_handle_cache_size mid))), (''enable_abt_profiling'', Some (JBool (in_abt_profiling mid))),
          (''progress_pool'', pool_reference (use_names options) (in_abt mid) (progress_pool_idx (in_abt mid))),
          (''rpc_pool'', pool_reference (use_names options) (in_abt mid) (rpc_pool_idx (in_abt mid)))]))"

definition margo_get_config :: "config_env \<Rightarrow> inst \<Rightarrow> json option" where
  "margo_get_config = margo_get_config_opt \<lparr>hide_external = False, use_names = False\<rparr>"

section \<open>Reading it back\<close>

lemma get_config_members:
  "object_get (margo_get_config_opt options e mid) ''argobots'' = abt_to_json options (ce_main_pools e) (ce_cpubind e) (ce_affinity e) (ce_num_stacks e)
     (ce_stacksize e) (ce_profiling_dir e) (ce_lazy_stack_alloc e) (in_abt mid)"
  "object_get (margo_get_config_opt options e mid) ''mercury'' =
     hg_to_json (ce_hg_version e) (ce_hg_version_string e) (ce_listening e) (ce_input_eager_size e) (ce_output_eager_size e) (in_hg mid)"
  "object_get (margo_get_config_opt options e mid) ''plumber'' = (case ce_plumber e of None \<Rightarrow> None
     | Some (b, n) \<Rightarrow> Some (JObject [(''bucket_policy'', Some (JString b)), (''nic_policy'', Some (JString n))]))"
  "object_get (margo_get_config_opt options e mid) ''progress_timeout_ub_msec'' = Some (JInt (in_timeout_ub_msec mid))"
  "object_get (margo_get_config_opt options e mid) ''progress_spindown_msec'' = Some (JInt (in_spindown_msec mid))"
  "object_get (margo_get_config_opt options e mid) ''handle_cache_size'' = Some (JInt (in_handle_cache_size mid))"
  "object_get (margo_get_config_opt options e mid) ''enable_abt_profiling'' = Some (JBool (in_abt_profiling mid))"
  "object_get (margo_get_config_opt options e mid) ''progress_pool'' = pool_reference (use_names options) (in_abt mid) (progress_pool_idx (in_abt mid))"
  "object_get (margo_get_config_opt options e mid) ''rpc_pool'' = pool_reference (use_names options) (in_abt mid) (rpc_pool_idx (in_abt mid))"
  "object_get (margo_get_config_opt options e mid) ''use_progress_thread'' = None"
  "object_get (margo_get_config_opt options e mid) ''rpc_thread_count'' = None"
  by (auto simp: margo_get_config_opt_def monitoring_members_def plumber_members_def split: option.splits)

lemma find_by_name_pools:
  assumes "i < length ps" "p_name (ps ! i) = Some name"
  shows "find_by_name (map pool_to_json ps) name \<noteq> None"
  using assms
proof (induction ps arbitrary: i)
  case (Cons p ps)
  obtain j where j: "pool_to_json p = Some j" by (simp add: pool_to_json_def)
  show ?case
  proof (cases i)
    case 0
    then have "object_get (Some j) ''name'' = jstring (Some name)" using Cons.prems pool_to_json_get(2) [of p] j by simp
    then show ?thesis using j by (simp add: get_string_def jstring_def)
  next
    case (Suc k)
    then show ?thesis using Cons j by simp
  qed
qed simp

lemma pool_reference_reads_back:
  assumes "abt_describable main_pools a" "i < length (pools a)"
  shows "pool_field_valid (Some (JArray (map pool_to_json (pools a)))) (pool_reference names a i)"
    and "\<exists>j. pool_reference names a i = Some j \<and> pool_field_index a j = int i"
proof -
  obtain name where n: "p_name (pools a ! i) = Some name"
    using assms by (auto simp: abt_describable_def list_all_length pool_describable_def)
  have b: "int i < 2 ^ 31" using assms by (simp add: abt_describable_def)
  show "pool_field_valid (Some (JArray (map pool_to_json (pools a)))) (pool_reference names a i)"
    using find_by_name_pools [OF assms(2) n] assms(2) b n
    by (auto simp: pool_reference_def pool_field_valid_def jstring_def elements_def get_int_def)
  have "p_name (pools a ! j) \<noteq> Some name" if "j < i" for j
    using nth_eq_iff_index_eq [of "map p_name (pools a)" j i] that assms n by (auto simp: abt_describable_def)
  then have "find_pool_by_name a (Some name) = Some i"
    unfolding find_pool_by_name_def using assms n by (auto intro!: find_index_SomeI)
  then show "\<exists>j. pool_reference names a i = Some j \<and> pool_field_index a j = int i"
    using n b by (auto simp: pool_reference_def pool_field_index_def jstring_def get_string_def get_int_def)
qed

text \<open>The fields of an instance that the configuration determines are in the range that validation accepts.\<close>

definition fields_ok :: "inst \<Rightarrow> bool" where
  "fields_ok mid \<longleftrightarrow> (\<forall>v \<in> {in_timeout_ub_msec mid, in_spindown_msec mid, in_handle_cache_size mid}. 0 \<le> v \<and> v < 2 ^ 31)
     \<and> progress_pool_idx (in_abt mid) < length (pools (in_abt mid)) \<and> rpc_pool_idx (in_abt mid) < length (pools (in_abt mid))"

lemma to_int_small: "0 \<le> v \<Longrightarrow> v < 2 ^ 31 \<Longrightarrow> to_int v = v \<and> get_int v = v"
  by (simp add: to_int_def get_int_def)


definition example_hg_env_up :: hg_env where
  "example_hg_env_up = example_hg_env\<lparr>he_addr_self := Some 3\<rparr>"

definition example_user :: hg_user_args where
  "example_user = \<lparr>user_protocol = ''na+sm'', user_init_info = None, user_class = None, user_context = None\<rparr>"

definition example_inst :: inst where
  "example_inst = \<lparr>in_hg = fst (hg_init_from_json example_hg_env_up None example_user (new_hg example_hg_env_up) []),
     in_abt = dummy_abt\<lparr>pools := [zero_pool\<lparr>p_name := Some ''p'', p_pool := Some 1, p_kind := Some ''fifo_wait'', p_access := Some ''mpmc''\<rparr>],
         xstreams := [zero_xstream\<lparr>x_name := Some ''__primary__'', x_xstream := Some 2, x_sched_type := Some ''basic_wait''\<rparr>],
         progress_pool_idx := 0, rpc_pool_idx := 0\<rparr>,
     in_spindown_msec = 10, in_timeout_ub_msec = 100, in_handle_cache_size = 256, in_abt_profiling = False, in_refcount = 1\<rparr>"

definition example_config_env :: config_env where
  "example_config_env = \<lparr>ce_version = ''0.19'', ce_main_pools = (\<lambda>_. Some [Some 1]), ce_cpubind = (\<lambda>_. None), ce_affinity = (\<lambda>_. None),
     ce_num_stacks = None, ce_stacksize = Some 4096, ce_profiling_dir = ''.'', ce_lazy_stack_alloc = False, ce_hg_version = he_version example_hg_env_up,
     ce_hg_version_string = ''2.4.0'', ce_listening = True, ce_input_eager_size = 4096, ce_output_eager_size = 4096,
     ce_monitor = Some (Some ''default'', None), ce_plumber = None\<rparr>"


section \<open>Transfer of the contents of a pool\<close>

text \<open>
  \<open>pop\<close> takes at most 64 threads from a pool of Argobots, \<open>push\<close> adds threads. The loop ends when nothing was taken; if that never
  happens the result is \<^const>\<open>None\<close>.
\<close>

partial_function (option) margo_transfer_pool_content ::
  "('p \<Rightarrow> 'u list \<times> 'p) \<Rightarrow> ('u list \<Rightarrow> 'q \<Rightarrow> 'q) \<Rightarrow> 'p \<Rightarrow> 'q \<Rightarrow> ('p \<times> 'q) option" where
  "margo_transfer_pool_content pop push origin target =
    (case pop origin of (threads, origin') \<Rightarrow>
       if threads = [] then Some (origin', target) else margo_transfer_pool_content pop push origin' (push threads target))"

text \<open>The loop ends with an empty pool, and the other pool has received all threads in the order in which they were taken.\<close>

lemma transfer_pool_content_complete:
  assumes pop: "\<And>p us p'. pop p = (us, p') \<Longrightarrow> contents p = us @ contents p' \<and> (us = [] \<longrightarrow> contents p = [])"
    and push: "\<And>us q. contents' (push us q) = contents' q @ us"
  shows "\<exists>p' q'. margo_transfer_pool_content pop push p q = Some (p', q') \<and> contents p' = [] \<and> contents' q' = contents' q @ contents p"
proof (induction "length (contents p)" arbitrary: p q rule: less_induct)
  case less
  obtain us p' where us: "pop p = (us, p')" by fastforce
  show ?case
  proof (cases "us = []")
    case True
    then show ?thesis using us pop [OF us] by (subst margo_transfer_pool_content.simps) auto
  next
    case False
    then have "length (contents p') < length (contents p)" using pop [OF us] by simp
    from less [OF this, of "push us q"] show ?thesis
      using False us pop [OF us] push by (subst margo_transfer_pool_content.simps) auto
  qed
qed

end
