(* ===== verification/Plumber.thy ===== *)
theory Plumber
  imports Margo_Prelude
begin

text \<open>
  The choice of a network interface for an address that names none (\<^verbatim>\<open>src/mochi-plumber.c\<close>). The topology that
  hwloc reports, the interfaces that libfabric reports, the system calls on the token files and the random
  numbers are a record of parameters. A result \<^const>\<open>None\<close> stands for undefined behaviour of the code: NULL is
  dereferenced, memory is used after it was freed, or a signed addition overflows.
\<close>

section \<open>Parameters\<close>

text \<open>
  An interface of libfabric: its name, whether it is on the PCI bus, whether hwloc knows the device, the first
  NUMA node of the device (negative if it has none), its package (NULL if it has none), and
  whether the two allocations for it succeed.
\<close>

record nic =
  nic_name :: string
  nic_pci :: bool
  nic_dev :: bool
  nic_numa :: int
  nic_package :: "int option"
  nic_alloc :: bool

text \<open>
  The system. \<open>fi_getinfo\<close> is the result of the call that returns the interfaces. The functions of hwloc that can fail
  give \<^const>\<open>None\<close> on failure; \<open>last_package\<close> is \<^const>\<open>None\<close> if no package covers the processor, and \<open>children\<close>
  says for each child of the root whether it is a package.
\<close>

record plumber_env =
  malloc_canon :: bool
  malloc_out :: bool
  calloc_buckets :: bool
  numa_weight :: nat
  children :: "bool list"
  fi_getinfo :: int
  interfaces :: "nic list"
  last_cpu :: "int option"
  last_numa :: int
  last_package :: "int option"
  cpubind :: "int option"
  random :: nat
  token_dir :: bool
  token_open :: bool
  token_read :: bool
  token_write :: bool

text \<open>The token files of the user, by the index of the bucket; a new file is empty.\<close>

type_synonym tokens = "int \<Rightarrow> int option"

abbreviation "INT_MAX \<equiv> 2 ^ 31 - 1 :: int"

section \<open>Addresses\<close>

fun strstr :: "string \<Rightarrow> string \<Rightarrow> bool" where
  "strstr [] needle = (needle = [])"
| "strstr (c # s) needle = (take (length needle) (c # s) = needle \<or> strstr s needle)"

definition canonicalize_addr_string :: "bool \<Rightarrow> string \<Rightarrow> string option" where
  "canonicalize_addr_string ok in_address =
    (if \<not> ok then None else if strstr in_address ''://'' then Some in_address else Some (in_address @ ''://''))"

section \<open>Buckets\<close>

definition count_packages :: "plumber_env \<Rightarrow> nat" where
  "count_packages e = length (filter (\<lambda>package. package) (children e))"

definition bucket_count :: "plumber_env \<Rightarrow> string \<Rightarrow> nat option" where
  "bucket_count e bucket_policy =
    (if bucket_policy = ''all'' then Some 1
     else if bucket_policy = ''numa'' then Some (numa_weight e)
     else if bucket_policy = ''package'' then Some (count_packages e)
     else None)"

definition nic_bucket :: "string \<Rightarrow> nat \<Rightarrow> nic \<Rightarrow> int option" where
  "nic_bucket bucket_policy nbuckets cur =
    (if nbuckets = 1 then Some 0
     else if bucket_policy = ''numa'' then Some (nic_numa cur)
     else if bucket_policy = ''package'' then nic_package cur
     else Some 0)"

text \<open>The inner result is \<^const>\<open>None\<close> where the code jumps to \<^verbatim>\<open>error\<close>.\<close>

fun assign_nics :: "string \<Rightarrow> nat \<Rightarrow> nic list \<Rightarrow> string list list \<Rightarrow> string list list option option" where
  "assign_nics bucket_policy nbuckets [] buckets = Some (Some buckets)"
| "assign_nics bucket_policy nbuckets (cur # info) buckets =
    (if \<not> nic_pci cur then assign_nics bucket_policy nbuckets info buckets
     else if \<not> nic_dev cur then Some None
     else do {
       bucket_idx \<leftarrow> nic_bucket bucket_policy nbuckets cur;
       (if bucket_idx < 0 \<or> bucket_idx \<ge> int nbuckets then Some None
        else if \<not> nic_alloc cur then Some None
        else assign_nics bucket_policy nbuckets info
          (buckets[nat bucket_idx := buckets ! nat bucket_idx @ [nic_name cur]]))
     })"

text \<open>
  The result is negative for an error. When libfabric reports an error the buckets are freed, which is \<open>None\<close> as the
  array.
\<close>

definition setup_buckets :: "plumber_env \<Rightarrow> string \<Rightarrow> (int \<times> string list list option) option" where
  "setup_buckets e bucket_policy =
    (case bucket_count e bucket_policy of
       None \<Rightarrow> Some (- 1, None)
     | Some nbuckets \<Rightarrow>
         if \<not> calloc_buckets e then Some (- 1, None)
         else if fi_getinfo e \<noteq> 0 then Some (fi_getinfo e, None)
         else do {
           r \<leftarrow> assign_nics bucket_policy nbuckets (interfaces e) (replicate nbuckets []);
           Some (case r of Some buckets \<Rightarrow> (0, Some buckets) | None \<Rightarrow> (- 1, None))
         })"

section \<open>Interfaces\<close>

text \<open>The outer result is \<^const>\<open>None\<close> for undefined behaviour, the inner one is the interface, unless there was an error.\<close>

definition select_nic_roundrobin :: "plumber_env \<Rightarrow> int \<Rightarrow> string list \<Rightarrow> tokens \<Rightarrow> (tokens \<times> string option) option" where
  "select_nic_roundrobin e bucket_idx nics tok =
    (if nics = [] \<or> \<not> token_dir e \<or> \<not> token_open e \<or> \<not> token_read e then Some (tok, None)
     else
       (let nic_idx = (case tok bucket_idx of Some i \<Rightarrow> i | None \<Rightarrow> - 1);
            nic_idx = (if nic_idx < 0 then - 1 else nic_idx)
        in if nic_idx = INT_MAX then None
           else
             (let nic_idx = (nic_idx + 1) mod int (length nics)
              in if \<not> token_write e then Some (tok, None)
                 else Some (tok(bucket_idx := Some nic_idx), Some (nics ! nat nic_idx)))))"

definition select_nic_random :: "plumber_env \<Rightarrow> string list \<Rightarrow> string option" where
  "select_nic_random e nics = (if nics = [] then None else Some (nics ! (random e mod length nics)))"

text \<open>\<open>first\<close> is the first processor of a set: the last location, or the binding of the process.\<close>

definition select_nic_by :: "int option \<Rightarrow> string list \<Rightarrow> string option" where
  "select_nic_by cpu nics =
    (if nics = [] then None
     else do {
       first \<leftarrow> cpu;
       (if first < 0 then None else Some (nics ! (nat first mod length nics)))
     })"

definition select_nic_bycore :: "plumber_env \<Rightarrow> string list \<Rightarrow> string option" where
  "select_nic_bycore e = select_nic_by (last_cpu e)"

definition select_nic_byset :: "plumber_env \<Rightarrow> string list \<Rightarrow> string option" where
  "select_nic_byset e = select_nic_by (cpubind e)"

text \<open>The bucket of the process.\<close>

definition process_bucket :: "plumber_env \<Rightarrow> string \<Rightarrow> nat \<Rightarrow> int option option" where
  "process_bucket e bucket_policy nbuckets =
    (let check = (\<lambda>i. if i < 0 \<or> i \<ge> int nbuckets then None else Some i)
     in if nbuckets = 1 then Some (Some 0)
        else if bucket_policy = ''numa'' then Some (case last_cpu e of None \<Rightarrow> None | Some _ \<Rightarrow> check (last_numa e))
        else if bucket_policy = ''package''
        then (case last_cpu e of None \<Rightarrow> Some None | Some _ \<Rightarrow> do { p \<leftarrow> last_package e; Some (check p) })
        else Some None)"

definition select_nic :: "plumber_env \<Rightarrow> string \<Rightarrow> string \<Rightarrow> string list list \<Rightarrow> tokens \<Rightarrow> (tokens \<times> string option) option" where
  "select_nic e bucket_policy nic_policy buckets tok = do {
     b \<leftarrow> process_bucket e bucket_policy (length buckets);
     (case b of
        None \<Rightarrow> Some (tok, None)
      | Some bucket_idx \<Rightarrow>
          (let nics = buckets ! nat bucket_idx
           in if length nics = 1 then Some (tok, Some (nics ! 0))
              else if nic_policy = ''roundrobin'' then select_nic_roundrobin e bucket_idx nics tok
              else if nic_policy = ''random'' then Some (tok, select_nic_random e nics)
              else if nic_policy = ''bycore'' then Some (tok, select_nic_bycore e nics)
              else if nic_policy = ''byset'' then Some (tok, select_nic_byset e nics)
              else Some (tok, None)))
   }"

text \<open>The results are the return value and the address.\<close>

definition mochi_plumber_resolve_nic ::
  "plumber_env \<Rightarrow> string \<Rightarrow> string \<Rightarrow> string \<Rightarrow> tokens \<Rightarrow> (tokens \<times> int \<times> string option) option" where
  "mochi_plumber_resolve_nic e in_address bucket_policy nic_policy tok =
    (case canonicalize_addr_string (malloc_canon e) in_address of
       None \<Rightarrow> Some (tok, - 1, None)
     | Some canon_address \<Rightarrow>
         if nic_policy = ''passthrough'' \<or> bucket_policy = ''passthrough'' then Some (tok, 0, Some canon_address)
         else if take 3 canon_address \<noteq> ''cxi'' \<and> take 7 canon_address \<noteq> ''ofi+cxi'' then Some (tok, 0, Some canon_address)
         else if canon_address ! (length canon_address - 1) \<noteq> CHR ''/'' \<or> canon_address ! (length canon_address - 2) \<noteq> CHR ''/''
         then Some (tok, 0, Some canon_address)
         else do {
           (ret, bs) \<leftarrow> setup_buckets e bucket_policy;
           (if ret < 0 then Some (tok, 0, Some canon_address)
            else do {
              buckets \<leftarrow> bs;
              (if \<exists>b \<in> set buckets. length b < 1 then Some (tok, 0, Some canon_address)
               else do {
                 (tok, selected) \<leftarrow> select_nic e bucket_policy nic_policy buckets tok;
                 Some (case selected of
                     None \<Rightarrow> (tok, 0, Some canon_address)
                   | Some selected_nic \<Rightarrow> if malloc_out e then (tok, 0, Some (canon_address @ selected_nic)) else (tok, - 1, None))
               })
            })
         })"

section \<open>What the buckets hold\<close>

definition in_bucket :: "string \<Rightarrow> nat \<Rightarrow> nat \<Rightarrow> nic \<Rightarrow> bool" where
  "in_bucket bucket_policy n i cur \<longleftrightarrow> nic_pci cur \<and> nic_bucket bucket_policy n cur = Some (int i)"

lemma assign_nics_exact:
  assumes "assign_nics policy n info buckets = Some (Some bs)" "length buckets = n"
  shows "length bs = n \<and> (\<forall>i < n. bs ! i = buckets ! i @ map nic_name (filter (in_bucket policy n i) info))"
  using assms
proof (induction policy n info buckets rule: assign_nics.induct)
  case (1 policy n buckets)
  then show ?case by simp
next
  case (2 policy n cur info buckets)
  show ?case
  proof (cases "nic_pci cur")
    case False
    then show ?thesis using 2 by (simp add: in_bucket_def)
  next
    case True
    then obtain k where k: "nic_bucket policy n cur = Some k" "nic_dev cur" "0 \<le> k" "k < int n" "nic_alloc cur"
        "assign_nics policy n info (buckets[nat k := buckets ! nat k @ [nic_name cur]]) = Some (Some bs)"
      using 2(3) by (auto simp: bind_eq_Some_conv split: if_splits)
    have "length bs = n \<and> (\<forall>i < n. bs ! i = (buckets[nat k := buckets ! nat k @ [nic_name cur]]) ! i @ map nic_name (filter (in_bucket policy n i) info))"
      using 2(2) [of k] True k 2(4) by simp
    moreover have "in_bucket policy n i cur \<longleftrightarrow> i = nat k" for i using True k by (auto simp: in_bucket_def)
    ultimately show ?thesis using 2(4) by (auto simp: nth_list_update)
  qed
qed

text \<open>The assignment never writes outside the array, and a device without a package is the only one that NULL is dereferenced for.\<close>

lemma assign_nics_defined:
  assumes "\<forall>cur \<in> set info. nic_pci cur \<longrightarrow> nic_bucket policy n cur \<noteq> None"
  shows "\<exists>r. assign_nics policy n info buckets = Some r"
  using assms by (induction policy n info buckets rule: assign_nics.induct) auto

section \<open>Round robin\<close>

text \<open>The selections of \<open>k\<close> processes one after the other.\<close>

primrec roundrobin_runs :: "plumber_env \<Rightarrow> int \<Rightarrow> string list \<Rightarrow> nat \<Rightarrow> tokens \<Rightarrow> (tokens \<times> string list) option" where
  "roundrobin_runs e bucket_idx nics 0 tok = Some (tok, [])"
| "roundrobin_runs e bucket_idx nics (Suc k) tok = do {
     (tok, selected) \<leftarrow> select_nic_roundrobin e bucket_idx nics tok;
     nic \<leftarrow> selected;
     (tok, rest) \<leftarrow> roundrobin_runs e bucket_idx nics k tok;
     Some (tok, nic # rest)
   }"

definition token_files_ok :: "plumber_env \<Rightarrow> bool" where
  "token_files_ok e \<longleftrightarrow> token_dir e \<and> token_open e \<and> token_read e \<and> token_write e"

text \<open>The index that comes after the stored one.\<close>

definition next_index :: "int option \<Rightarrow> nat" where
  "next_index stored = (case stored of Some i \<Rightarrow> if i < 0 then 0 else nat (i + 1) | None \<Rightarrow> 0)"

lemma select_nic_roundrobin_ok:
  assumes "token_files_ok e" "nics \<noteq> []" "tok b \<noteq> Some INT_MAX"
  shows "select_nic_roundrobin e b nics tok =
    Some (tok(b := Some (int (next_index (tok b) mod length nics))), Some (nics ! (next_index (tok b) mod length nics)))"
proof -
  define i where "i = (case tok b of Some i \<Rightarrow> i | None \<Rightarrow> - 1)"
  have i: "i \<noteq> INT_MAX" using assms(3) by (auto simp: i_def split: option.splits)
  have n: "next_index (tok b) = nat ((if i < 0 then - 1 else i) + 1)" by (simp add: next_index_def i_def split: option.split)
  have "((if i < 0 then - 1 else i) + 1) mod int (length nics) = int (next_index (tok b) mod length nics)"
    using n by (simp add: zmod_int)
  then show ?thesis using assms i
    by (auto simp: select_nic_roundrobin_def token_files_ok_def Let_def simp flip: i_def)
qed

lemma roundrobin_runs_eq:
  assumes "token_files_ok e" "nics \<noteq> []" "tok b \<noteq> Some INT_MAX" "length nics < 2 ^ 31"
  shows "\<exists>tok'. roundrobin_runs e b nics k tok = Some (tok', map (\<lambda>i. nics ! ((next_index (tok b) + i) mod length nics)) [0..<k])
    \<and> (\<forall>b'. b' \<noteq> b \<longrightarrow> tok' b' = tok b')"
  using assms(3)
proof (induction k arbitrary: tok)
  case 0
  then show ?case by simp
next
  case (Suc k)
  let ?n = "length nics" and ?j = "next_index (tok b)"
  let ?tok = "tok(b := Some (int (?j mod ?n)))"
  have l: "?j mod ?n < ?n" using assms(2) by simp
  then have "int (?j mod ?n) < int ?n" by linarith
  moreover have "int ?n < 2 ^ 31" using assms(4) by (metis of_nat_less_numeral_power_cancel_iff)
  ultimately have "int (?j mod ?n) < INT_MAX" by linarith
  then have "?tok b \<noteq> Some INT_MAX" by simp
  from Suc.IH [of ?tok, OF this] obtain tok' where tok': "roundrobin_runs e b nics k ?tok = Some (tok', map (\<lambda>i. nics ! ((next_index (?tok b) + i) mod ?n)) [0..<k])"
      "\<forall>b'. b' \<noteq> b \<longrightarrow> tok' b' = ?tok b'"
    by blast
  have "next_index (?tok b) = Suc (?j mod ?n)" by (simp add: next_index_def nat_add_distrib)
  then have "(next_index (?tok b) + i) mod ?n = (?j + Suc i) mod ?n" for i
    by simp (metis mod_Suc_eq mod_add_left_eq)
  then have "map (\<lambda>i. nics ! ((?j + i) mod ?n)) [0..<Suc k] = nics ! (?j mod ?n) # map (\<lambda>i. nics ! ((next_index (?tok b) + i) mod ?n)) [0..<k]"
    by (simp add: map_upt_Suc del: upt_Suc)
  then show ?case using tok' select_nic_roundrobin_ok [of e nics tok b] assms(1,2) Suc.prems by (auto simp del: upt_Suc)
qed

lemma mset_rotate: "mset (rotate j xs) = mset xs"
proof (induction j)
  case (Suc j)
  have "mset (rotate1 ys) = mset ys" for ys :: "'a list" by (cases ys) simp_all
  then show ?case using Suc by simp
qed simp

lemma map_nth_mod_rotate: "xs \<noteq> [] \<Longrightarrow> map (\<lambda>i. xs ! ((j + i) mod length xs)) [0..<length xs] = rotate j xs"
  by (intro nth_equalityI) (simp_all add: nth_rotate)

lemma mset_cyclic:
  assumes "xs \<noteq> []"
  shows "mset (map (\<lambda>i. xs ! ((j + i) mod length xs)) [0..<m * length xs]) = repeat_mset m (mset xs)"
proof (induction m)
  case (Suc m)
  let ?n = "length xs" and ?f = "\<lambda>i. xs ! ((j + i) mod length xs)"
  have "map ?f [m * ?n..<m * ?n + ?n] = map (\<lambda>i. ?f (i + m * ?n)) [0..<?n]"
    using map_add_upt [of "m * ?n" ?n] by (simp add: map_add_upt [symmetric] add.commute comp_def)
  also have "\<dots> = map ?f [0..<?n]" by (simp add: add.assoc [symmetric])
  finally have "mset (map ?f [m * ?n..<m * ?n + ?n]) = mset xs" using map_nth_mod_rotate [OF assms, of j] mset_rotate by metis
  moreover have "[0..<Suc m * ?n] = [0..<m * ?n] @ [m * ?n..<m * ?n + ?n]"
    using upt_add_eq_append [of 0 "m * ?n" ?n] by (simp add: add.commute [of ?n])
  ultimately show ?case using Suc by simp
qed simp

text \<open>
  C32: The round robin policy is fair. Processes of a user that select from the same bucket one after the other get the
  interfaces in their order, starting after the one that the token file names and going around; after any number of
  rounds each interface was selected equally often. The token files of other buckets do not change.
\<close>

theorem roundrobin_fair:
  assumes "token_files_ok e" "nics \<noteq> []" "length nics < 2 ^ 31" "tok b \<noteq> Some INT_MAX"
  shows "\<exists>tok' selected. roundrobin_runs e b nics (m * length nics) tok = Some (tok', selected)
    \<and> selected = map (\<lambda>i. nics ! ((next_index (tok b) + i) mod length nics)) [0..<m * length nics]
    \<and> mset selected = repeat_mset m (mset nics) \<and> (\<forall>b'. b' \<noteq> b \<longrightarrow> tok' b' = tok b')"
  using roundrobin_runs_eq [of e nics tok b "m * length nics"] mset_cyclic [OF assms(2)] assms by blast

definition example_nic :: "string \<Rightarrow> int \<Rightarrow> nic" where
  "example_nic name package = \<lparr>nic_name = name, nic_pci = True, nic_dev = True, nic_numa = 0, nic_package = Some package, nic_alloc = True\<rparr>"

definition example_plumber_env :: plumber_env where
  "example_plumber_env = \<lparr>malloc_canon = True, malloc_out = True, calloc_buckets = True, numa_weight = 1, children = [True, True],
     fi_getinfo = 0, interfaces = [example_nic ''cxi0'' 0, example_nic ''cxi1'' 1, example_nic ''cxi2'' 1],
     last_cpu = Some 1, last_numa = 0, last_package = Some 1, cpubind = Some 0, random = 3,
     token_dir = True, token_open = True, token_read = True, token_write = True\<rparr>"

theorem roundrobin_fair_witness:
  "\<exists>tok' selected. roundrobin_runs example_plumber_env 1 [''cxi1'', ''cxi2''] 4 (\<lambda>_. None) = Some (tok', selected)
    \<and> mset selected = {#''cxi1'', ''cxi2'', ''cxi1'', ''cxi2''#}"
proof -
  have "token_files_ok example_plumber_env" by (simp add: token_files_ok_def example_plumber_env_def)
  moreover have "length [''cxi1'', ''cxi2''] < 2 ^ 31" by simp
  ultimately obtain tok' selected where "roundrobin_runs example_plumber_env 1 [''cxi1'', ''cxi2''] (2 * length [''cxi1'', ''cxi2'']) (\<lambda>_. None) = Some (tok', selected)"
    and "mset selected = repeat_mset 2 (mset [''cxi1'', ''cxi2''])"
    using roundrobin_fair [of example_plumber_env "[''cxi1'', ''cxi2'']" "\<lambda>_. None" 1 2] by blast
  moreover have "2 * length [''cxi1'', ''cxi2''] = 4" by simp
  moreover have "repeat_mset 2 (mset [''cxi1'', ''cxi2'']) = {#''cxi1'', ''cxi2'', ''cxi1'', ''cxi2''#}" by (simp add: numeral_2_eq_2)
  ultimately show ?thesis by metis
qed

text \<open>A stored index that is the largest integer is not caught by the guard against corrupted values.\<close>

lemma stored_maximum_overflows: "select_nic_roundrobin example_plumber_env 0 [''cxi0'', ''cxi1''] (\<lambda>_. Some INT_MAX) = None"
  by (simp add: select_nic_roundrobin_def example_plumber_env_def)

section \<open>The resolved address\<close>

definition canon :: "string \<Rightarrow> string" where
  "canon a = (if strstr a ''://'' then a else a @ ''://'')"

text \<open>An address that is resolved: it is of the provider cxi, and nothing follows the two slashes.\<close>

definition names_no_nic :: "string \<Rightarrow> bool" where
  "names_no_nic a \<longleftrightarrow> (take 3 a = ''cxi'' \<or> take 7 a = ''ofi+cxi'') \<and> a ! (length a - 1) = CHR ''/'' \<and> a ! (length a - 2) = CHR ''/''"

definition system_ok :: "plumber_env \<Rightarrow> bool" where
  "system_ok e \<longleftrightarrow> malloc_canon e \<and> malloc_out e \<and> fi_getinfo e \<le> 0 \<and> last_package e \<noteq> None
     \<and> (\<forall>cur \<in> set (interfaces e). nic_package cur \<noteq> None)"

lemma setup_buckets_defined:
  assumes "system_ok e"
  shows "\<exists>ret bs. setup_buckets e policy = Some (ret, bs) \<and> (ret < 0 \<or> (\<exists>buckets n. bs = Some buckets \<and> bucket_count e policy = Some n
    \<and> length buckets = n \<and> (\<forall>i < n. buckets ! i = map nic_name (filter (in_bucket policy n i) (interfaces e)))))"
proof (cases "bucket_count e policy")
  case None
  then show ?thesis by (simp add: setup_buckets_def)
next
  case (Some n)
  have "\<forall>cur \<in> set (interfaces e). nic_pci cur \<longrightarrow> nic_bucket policy n cur \<noteq> None"
    using assms by (auto simp: system_ok_def nic_bucket_def)
  then obtain r where r: "assign_nics policy n (interfaces e) (replicate n []) = Some r" using assign_nics_defined by blast
  show ?thesis
  proof (cases r)
    case None
    then show ?thesis using Some r assms by (auto simp: setup_buckets_def system_ok_def)
  next
    case (Some bs)
    then have "length bs = n \<and> (\<forall>i < n. bs ! i = map nic_name (filter (in_bucket policy n i) (interfaces e)))"
      using assign_nics_exact [of policy n "interfaces e" "replicate n []" bs] r by simp
    then show ?thesis using Some \<open>bucket_count e policy = Some n\<close> r assms
      by (auto simp: setup_buckets_def system_ok_def)
  qed
qed

lemma process_bucket_defined:
  assumes "system_ok e"
  shows "\<exists>r. process_bucket e policy n = Some r \<and> (\<forall>i. r = Some i \<longrightarrow> 0 \<le> i \<and> i < int n)"
  using assms by (auto simp: process_bucket_def system_ok_def Let_def split: option.split)

lemma select_nic_defined:
  assumes "system_ok e" "\<forall>b. tok b \<noteq> Some INT_MAX" "\<forall>b \<in> set buckets. b \<noteq> []"
  shows "\<exists>tok' r. select_nic e bp np buckets tok = Some (tok', r) \<and>
    (\<forall>s. r = Some s \<longrightarrow> (\<exists>i. process_bucket e bp (length buckets) = Some (Some i) \<and> 0 \<le> i \<and> i < int (length buckets) \<and> s \<in> set (buckets ! nat i)))"
proof -
  obtain r where r: "process_bucket e bp (length buckets) = Some r" "\<And>i. r = Some i \<Longrightarrow> 0 \<le> i \<and> i < int (length buckets)"
    using process_bucket_defined [OF assms(1)] by blast
  show ?thesis
  proof (cases r)
    case None
    then show ?thesis using r by (simp add: select_nic_def)
  next
    case (Some i)
    let ?nics = "buckets ! nat i"
    have i: "0 \<le> i" "nat i < length buckets" using r(2) [OF Some] by auto
    then have ne: "?nics \<noteq> []" using assms(3) by simp
    then have m: "?nics ! (k mod length ?nics) \<in> set ?nics" for k by simp
    have rr: "\<exists>tok' x. select_nic_roundrobin e i ?nics tok = Some (tok', x) \<and> (\<forall>s. x = Some s \<longrightarrow> s \<in> set ?nics)"
    proof (cases "token_files_ok e")
      case True
      then show ?thesis using select_nic_roundrobin_ok [OF True ne, of tok i] assms(2) m by simp
    next
      case False
      then show ?thesis using assms(2) [rule_format, of i]
        by (auto simp: select_nic_roundrobin_def token_files_ok_def Let_def split: option.split)
    qed
    have by_cpu: "select_nic_by c ?nics = Some s \<Longrightarrow> s \<in> set ?nics" for c s
      using m by (auto simp: select_nic_by_def bind_eq_Some_conv split: if_splits)
    have rand: "select_nic_random e ?nics = Some s \<Longrightarrow> s \<in> set ?nics" for s using m by (auto simp: select_nic_random_def split: if_splits)
    obtain tr xr where tr: "select_nic_roundrobin e i ?nics tok = Some (tr, xr)" "\<And>s. xr = Some s \<Longrightarrow> s \<in> set ?nics" using rr by blast
    define other where "other = (if np = ''random'' then select_nic_random e ?nics else if np = ''bycore'' then select_nic_bycore e ?nics
      else if np = ''byset'' then select_nic_byset e ?nics else None)"
    have o: "s \<in> set ?nics" if "other = Some s" for s
      using that by_cpu rand by (simp add: other_def select_nic_bycore_def select_nic_byset_def split: if_splits)
    have "select_nic e bp np buckets tok =
        Some (if length ?nics \<noteq> 1 \<and> np = ''roundrobin'' then (tr, xr) else (tok, if length ?nics = 1 then Some (?nics ! 0) else other))"
      using r(1) Some tr(1) by (simp add: select_nic_def other_def)
    moreover have "s \<in> set ?nics" if "(if length ?nics \<noteq> 1 \<and> np = ''roundrobin'' then xr else if length ?nics = 1 then Some (?nics ! 0) else other) = Some s" for s
      using that tr(2) o m [of 0] ne by (auto split: if_splits)
    moreover have "i < int (length buckets)" using i by linarith
    ultimately show ?thesis using r(1) Some i(1) by (auto split: if_splits)
  qed
qed

text \<open>
  Resolution gives a usable address. When allocations succeed and the topology has packages, \<^verbatim>\<open>mochi_plumber_resolve_nic\<close> returns
  success with an address: the canonical form of the given one, or that form followed by the name of an
  interface that libfabric reports and whose bucket is the one of the process. The latter happens only for a cxi
  address that names no interface and if neither policy is passthrough; otherwise no token file changes. No
  bucket is accessed out of range.
\<close>

theorem resolve_nic_sound:
  assumes "system_ok e" "\<forall>b. tok b \<noteq> Some INT_MAX"
  shows "\<exists>tok' out. mochi_plumber_resolve_nic e a bp np tok = Some (tok', 0, Some out) \<and>
    (if names_no_nic (canon a) \<and> np \<noteq> ''passthrough'' \<and> bp \<noteq> ''passthrough''
     then out = canon a \<or> (\<exists>n i cur. bucket_count e bp = Some n \<and> process_bucket e bp n = Some (Some (int i)) \<and> i < n
       \<and> cur \<in> set (interfaces e) \<and> in_bucket bp n i cur \<and> out = canon a @ nic_name cur)
     else out = canon a \<and> tok' = tok)"
proof -
  have c: "canonicalize_addr_string (malloc_canon e) a = Some (canon a)"
    using assms(1) by (simp add: canonicalize_addr_string_def canon_def system_ok_def)
  show ?thesis
  proof (cases "names_no_nic (canon a) \<and> np \<noteq> ''passthrough'' \<and> bp \<noteq> ''passthrough''")
    case False
    then show ?thesis using c by (auto simp: mochi_plumber_resolve_nic_def names_no_nic_def)
  next
    case True
    obtain ret bs where s: "setup_buckets e bp = Some (ret, bs)" and
      b: "ret < 0 \<or> (\<exists>buckets n. bs = Some buckets \<and> bucket_count e bp = Some n \<and> length buckets = n
        \<and> (\<forall>i < n. buckets ! i = map nic_name (filter (in_bucket bp n i) (interfaces e))))"
      using setup_buckets_defined [OF assms(1)] by blast
    show ?thesis
    proof (cases "ret < 0")
      case True
      then show ?thesis using c s \<open>names_no_nic (canon a) \<and> _\<close> by (auto simp: mochi_plumber_resolve_nic_def names_no_nic_def)
    next
      case False
      then obtain buckets where bk: "bs = Some buckets" "bucket_count e bp = Some (length buckets)"
        "\<forall>i < length buckets. buckets ! i = map nic_name (filter (in_bucket bp (length buckets) i) (interfaces e))" using b by auto
      show ?thesis
      proof (cases "\<exists>b \<in> set buckets. length b < 1")
        case True
        then show ?thesis using c s bk(1) False \<open>names_no_nic (canon a) \<and> _\<close> by (auto simp: mochi_plumber_resolve_nic_def names_no_nic_def)
      next
        case ne: False
        then have "\<forall>b \<in> set buckets. b \<noteq> []" by auto
        from select_nic_defined [OF assms this, of bp np] obtain tok' r where
          r: "select_nic e bp np buckets tok = Some (tok', r)" and
          rs: "\<And>s. r = Some s \<Longrightarrow> \<exists>i. process_bucket e bp (length buckets) = Some (Some i) \<and> 0 \<le> i \<and> i < int (length buckets) \<and> s \<in> set (buckets ! nat i)"
          by blast
        have "mochi_plumber_resolve_nic e a bp np tok = Some (tok', 0, Some (case r of None \<Rightarrow> canon a | Some s \<Rightarrow> canon a @ s))"
          using c s bk(1) False ne r assms(1) \<open>names_no_nic (canon a) \<and> _\<close>
          by (auto simp: mochi_plumber_resolve_nic_def names_no_nic_def system_ok_def split: option.split)
        moreover have "\<exists>n i cur. bucket_count e bp = Some n \<and> process_bucket e bp n = Some (Some (int i)) \<and> i < n
            \<and> cur \<in> set (interfaces e) \<and> in_bucket bp n i cur \<and> x = nic_name cur" if x: "r = Some x" for x
        proof -
          obtain i where i: "process_bucket e bp (length buckets) = Some (Some i)" "0 \<le> i" "i < int (length buckets)" "x \<in> set (buckets ! nat i)"
            using rs [OF x] by blast
          moreover have "nat i < length buckets" using i by simp
          ultimately show ?thesis using bk(2,3) by (intro exI [of _ "length buckets"] exI [of _ "nat i"]) auto
        qed
        ultimately show ?thesis using True by (cases r) auto
      qed
    qed
  qed
qed

theorem resolve_nic_sound_witness:
  "mochi_plumber_resolve_nic example_plumber_env ''ofi+cxi'' ''package'' ''bycore'' (\<lambda>_. None) = Some (\<lambda>_. None, 0, Some ''ofi+cxi://cxi2'')
   \<and> (\<exists>tok' out. mochi_plumber_resolve_nic example_plumber_env ''ofi+cxi'' ''package'' ''bycore'' (\<lambda>_. None) = Some (tok', 0, Some out))"
proof
  show "mochi_plumber_resolve_nic example_plumber_env ''ofi+cxi'' ''package'' ''bycore'' (\<lambda>_. None) = Some (\<lambda>_. None, 0, Some ''ofi+cxi://cxi2'')"
    by (simp add: mochi_plumber_resolve_nic_def canonicalize_addr_string_def example_plumber_env_def example_nic_def setup_buckets_def bucket_count_def
        count_packages_def nic_bucket_def select_nic_def process_bucket_def select_nic_bycore_def select_nic_by_def Let_def)
  show "\<exists>tok' out. mochi_plumber_resolve_nic example_plumber_env ''ofi+cxi'' ''package'' ''bycore'' (\<lambda>_. None) = Some (tok', 0, Some out)"
    using resolve_nic_sound [of example_plumber_env "\<lambda>_. None" "''ofi+cxi''" "''package''" "''bycore''"]
    by (auto simp: system_ok_def example_plumber_env_def example_nic_def)
qed

end
