(* ===== verification/Sanity_Check.thy ===== *)
theory Sanity_Check
  imports Abt_Registry Json_Config Progress
begin

text \<open>
  The checks of the Argobots environment at initialization: the warnings about the pools of the execution
  streams (\<^verbatim>\<open>sanity_check_abt_configuration\<close> in \<^verbatim>\<open>src/margo-init.c\<close>), and the environment variables of
  Argobots that Margo sets and checks (\<^verbatim>\<open>src/margo-init.c\<close>, \<^verbatim>\<open>src/margo-util.c\<close>, \<^verbatim>\<open>src/margo-abt-config.c\<close>).
\<close>

section \<open>Pools and execution streams\<close>

definition USED_AS_FIRST :: u8 where
  "USED_AS_FIRST = 1"

definition WITH_PROGRESS :: u8 where
  "WITH_PROGRESS = 2"

definition AFTER_PROGRESS :: u8 where
  "AFTER_PROGRESS = 4"

definition BEFORE_PROGRESS :: u8 where
  "BEFORE_PROGRESS = 8"

definition set_flag :: "nat \<Rightarrow> u8 \<Rightarrow> u8 list \<Rightarrow> u8 list" where
  "set_flag i f pool_flags = pool_flags[i := pool_flags ! i OR f]"

text \<open>
  The pools of one scheduler. A pool that is not registered has the index \<open>-1\<close>: the code then writes in front of
  the array, which is \<^const>\<open>None\<close>.
\<close>

fun mark_pools :: "margo_abt \<Rightarrow> nat \<Rightarrow> nat \<Rightarrow> ptr list \<Rightarrow> bool \<Rightarrow> u8 list \<Rightarrow> (bool \<times> u8 list) option" where
  "mark_pools abt progress_idx j [] has_progress pool_flags = Some (has_progress, pool_flags)"
| "mark_pools abt progress_idx j (pool # ps) has_progress pool_flags = do {
     pool_index \<leftarrow> find_pool_by_handle abt pool;
     let has_progress = (has_progress \<or> pool_index = progress_idx);
     let pool_flags = (if j = 0 then set_flag pool_index USED_AS_FIRST pool_flags else pool_flags);
     let pool_flags = (if has_progress \<and> pool_index \<noteq> progress_idx then set_flag pool_index AFTER_PROGRESS pool_flags else pool_flags);
     let pool_flags = (if \<not> has_progress \<and> pool_index \<noteq> progress_idx then set_flag pool_index BEFORE_PROGRESS pool_flags else pool_flags);
     mark_pools abt progress_idx (j + 1) ps has_progress pool_flags
   }"

fun mark_with_progress :: "margo_abt \<Rightarrow> ptr list \<Rightarrow> u8 list \<Rightarrow> u8 list option" where
  "mark_with_progress abt [] pool_flags = Some pool_flags"
| "mark_with_progress abt (pool # ps) pool_flags = do {
     pool_index \<leftarrow> find_pool_by_handle abt pool;
     mark_with_progress abt ps (set_flag pool_index WITH_PROGRESS pool_flags)
   }"

text \<open>\<open>main_pools\<close> gives the pools of the main scheduler of a stream; if Argobots reports an error their number is zero.\<close>

fun mark_streams :: "(ptr \<Rightarrow> ptr list option) \<Rightarrow> margo_abt \<Rightarrow> nat \<Rightarrow> abt_xstream list \<Rightarrow> u8 list \<Rightarrow> u8 list option" where
  "mark_streams main_pools abt progress_idx [] pool_flags = Some pool_flags"
| "mark_streams main_pools abt progress_idx (es # xs) pool_flags = do {
     let ps = (case main_pools (x_xstream es) of Some ps \<Rightarrow> ps | None \<Rightarrow> []);
     (has_progress, pool_flags) \<leftarrow> mark_pools abt progress_idx 0 ps False pool_flags;
     pool_flags \<leftarrow> (if has_progress then mark_with_progress abt ps pool_flags else Some pool_flags);
     mark_streams main_pools abt progress_idx xs pool_flags
   }"

datatype pool_warning =
    Not_associated nat
  | Not_first nat
  | Not_before_progress nat
  | After_progress nat
  | With_progress nat

definition pool_warnings :: "nat \<Rightarrow> u8 list \<Rightarrow> nat \<Rightarrow> pool_warning list" where
  "pool_warnings progress_idx pool_flags i =
    (if pool_flags ! i = 0 then [Not_associated i]
     else
       (if pool_flags ! i AND USED_AS_FIRST = 0 then [Not_first i] else [])
       @ (if i = progress_idx then []
          else (if pool_flags ! i AND BEFORE_PROGRESS = 0 then [Not_before_progress i] else [])
            @ (if pool_flags ! i AND AFTER_PROGRESS \<noteq> 0 then [After_progress i] else [])
            @ (if pool_flags ! i AND WITH_PROGRESS \<noteq> 0 then [With_progress i] else [])))"

text \<open>The result of the check and its warnings in order; \<open>calloc_ok\<close> says whether the array could be allocated.\<close>

definition sanity_check_abt_configuration ::
  "bool \<Rightarrow> (ptr \<Rightarrow> ptr list option) \<Rightarrow> margo_abt \<Rightarrow> nat \<Rightarrow> (bool \<times> pool_warning list) option" where
  "sanity_check_abt_configuration calloc_ok main_pools abt progress_idx =
    (if \<not> calloc_ok then Some (True, [])
     else do {
       pool_flags \<leftarrow> mark_streams main_pools abt progress_idx (xstreams abt) (replicate (length (pools abt)) 0);
       Some (True, concat (map (pool_warnings progress_idx pool_flags) [0..<length (pools abt)]))
     })"

section \<open>What the flags mean\<close>

lemma bit_flags [simp]:
  "bit USED_AS_FIRST k \<longleftrightarrow> k = 0" "bit WITH_PROGRESS k \<longleftrightarrow> k = 1" "bit AFTER_PROGRESS k \<longleftrightarrow> k = 2" "bit BEFORE_PROGRESS k \<longleftrightarrow> k = 3"
  using bit_exp_iff [where 'a = "8 word", of 0 k] bit_exp_iff [where 'a = "8 word", of 1 k]
    bit_exp_iff [where 'a = "8 word", of 2 k] bit_exp_iff [where 'a = "8 word", of 3 k]
  by (auto simp: USED_AS_FIRST_def WITH_PROGRESS_def AFTER_PROGRESS_def BEFORE_PROGRESS_def)

lemma and_flags:
  "w AND USED_AS_FIRST = 0 \<longleftrightarrow> \<not> bit w 0" "w AND WITH_PROGRESS = 0 \<longleftrightarrow> \<not> bit w 1"
  "w AND AFTER_PROGRESS = 0 \<longleftrightarrow> \<not> bit w 2" "w AND BEFORE_PROGRESS = 0 \<longleftrightarrow> \<not> bit w 3"
  using and_exp_eq_0_iff_not_bit [of w 0] and_exp_eq_0_iff_not_bit [of w 1] and_exp_eq_0_iff_not_bit [of w 2] and_exp_eq_0_iff_not_bit [of w 3]
  by (simp_all add: USED_AS_FIRST_def WITH_PROGRESS_def AFTER_PROGRESS_def BEFORE_PROGRESS_def)

lemma set_flag_simps [simp]:
  "length (set_flag i f fl) = length fl"
  "i < length fl \<Longrightarrow> bit (set_flag j f fl ! i) k \<longleftrightarrow> bit (fl ! i) k \<or> (i = j \<and> bit f k)"
  by (simp_all add: set_flag_def) (cases "i = j"; simp add: bit_or_iff)

text \<open>The bits that the pools \<open>xs\<close> of a scheduler, given as indices, add to those of the pool \<open>i\<close>.\<close>

definition marks :: "nat \<Rightarrow> nat list \<Rightarrow> nat \<Rightarrow> nat \<Rightarrow> bool" where
  "marks p xs i k \<longleftrightarrow> (k = 0 \<and> xs \<noteq> [] \<and> hd xs = i) \<or> (k = 1 \<and> p \<in> set xs \<and> i \<in> set xs)
     \<or> (k = 2 \<and> i \<noteq> p \<and> i \<in> set (dropWhile (\<lambda>x. x \<noteq> p) xs)) \<or> (k = 3 \<and> i \<noteq> p \<and> i \<in> set (takeWhile (\<lambda>x. x \<noteq> p) xs))"

lemma mark_pools_marks:
  assumes "list_all2 (\<lambda>h x. find_pool_by_handle a h = Some x \<and> x < n) hs xs"
  shows "length fl = n \<Longrightarrow> \<exists>fl'. mark_pools a p j hs seen fl = Some (seen \<or> p \<in> set xs, fl') \<and> length fl' = length fl
    \<and> (\<forall>i < length fl. \<forall>k. bit (fl' ! i) k \<longleftrightarrow> bit (fl ! i) k \<or> (k = 0 \<and> j = 0 \<and> xs \<noteq> [] \<and> hd xs = i)
        \<or> (k = 2 \<and> i \<noteq> p \<and> i \<in> set (if seen then xs else dropWhile (\<lambda>x. x \<noteq> p) xs))
        \<or> (k = 3 \<and> i \<noteq> p \<and> \<not> seen \<and> i \<in> set (takeWhile (\<lambda>x. x \<noteq> p) xs)))"
  using assms
proof (induction hs xs arbitrary: j seen fl rule: list_all2_induct)
  case Nil
  then show ?case by simp
next
  case (Cons h hs x xs)
  then have h: "find_pool_by_handle a h = Some x" "x < length fl" by simp_all
  let ?seen = "seen \<or> x = p"
  define g where "g = (if j = 0 then set_flag x USED_AS_FIRST fl else fl)"
  define g' where "g' = (if x = p then g else if ?seen then set_flag x AFTER_PROGRESS g else set_flag x BEFORE_PROGRESS g)"
  have l: "length g' = length fl" by (simp add: g'_def g_def)
  have step: "mark_pools a p j (h # hs) seen fl = mark_pools a p (j + 1) hs ?seen g'"
    using h by (cases "x = p"; cases seen) (simp_all add: g'_def g_def Let_def)
  have b: "bit (g' ! i) k \<longleftrightarrow> bit (fl ! i) k \<or> (k = 0 \<and> j = 0 \<and> x = i) \<or> (k = 2 \<and> x \<noteq> p \<and> seen \<and> i = x) \<or> (k = 3 \<and> x \<noteq> p \<and> \<not> seen \<and> i = x)"
    if "i < length fl" for i k using that by (auto simp: g'_def g_def)
  have "length g' = n" using Cons.prems l by simp
  from Cons.IH [OF this, of "j + 1" ?seen] obtain fl' where fl': "mark_pools a p (j + 1) hs ?seen g' = Some (?seen \<or> p \<in> set xs, fl')"
      "length fl' = length g'" and bits: "\<forall>i < length g'. \<forall>k. bit (fl' ! i) k \<longleftrightarrow> bit (g' ! i) k \<or> (k = 0 \<and> j + 1 = 0 \<and> xs \<noteq> [] \<and> hd xs = i)
        \<or> (k = 2 \<and> i \<noteq> p \<and> i \<in> set (if ?seen then xs else dropWhile (\<lambda>x. x \<noteq> p) xs))
        \<or> (k = 3 \<and> i \<noteq> p \<and> \<not> ?seen \<and> i \<in> set (takeWhile (\<lambda>x. x \<noteq> p) xs))"
    by blast
  show ?case unfolding step using fl' l bits b by (intro exI [of _ fl']) auto
qed

lemma mark_with_progress_marks:
  assumes "list_all2 (\<lambda>h x. find_pool_by_handle a h = Some x \<and> x < n) hs xs"
  shows "length fl = n \<Longrightarrow> \<exists>fl'. mark_with_progress a hs fl = Some fl' \<and> length fl' = length fl
    \<and> (\<forall>i < length fl. \<forall>k. bit (fl' ! i) k \<longleftrightarrow> bit (fl ! i) k \<or> (k = 1 \<and> i \<in> set xs))"
  using assms
proof (induction hs xs arbitrary: fl rule: list_all2_induct)
  case Nil
  then show ?case by simp
next
  case (Cons h hs x xs)
  let ?g = "set_flag x WITH_PROGRESS fl"
  have "length ?g = n" using Cons.prems by simp
  from Cons.IH [OF this] obtain fl' where "mark_with_progress a hs ?g = Some fl'" "length fl' = length fl"
      "\<forall>i < length fl. \<forall>k. bit (fl' ! i) k \<longleftrightarrow> bit (?g ! i) k \<or> (k = 1 \<and> i \<in> set xs)"
    by auto
  then show ?case using Cons.hyps(1) Cons.prems by (intro exI [of _ fl']) auto
qed

text \<open>The streams together; \<open>xss\<close> are the indices of the pools of each.\<close>

lemma mark_streams_marks:
  assumes "list_all2 (\<lambda>es xs. list_all2 (\<lambda>h x. find_pool_by_handle a h = Some x \<and> x < n)
      (case main_pools (x_xstream es) of Some ps \<Rightarrow> ps | None \<Rightarrow> []) xs) ess xss"
  shows "length fl = n \<Longrightarrow> \<exists>fl'. mark_streams main_pools a p ess fl = Some fl' \<and> length fl' = length fl
    \<and> (\<forall>i < length fl. \<forall>k. bit (fl' ! i) k \<longleftrightarrow> bit (fl ! i) k \<or> (\<exists>xs \<in> set xss. marks p xs i k))"
  using assms
proof (induction ess xss arbitrary: fl rule: list_all2_induct)
  case Nil
  then show ?case by simp
next
  case (Cons es ess xs xss)
  let ?ps = "case main_pools (x_xstream es) of Some ps \<Rightarrow> ps | None \<Rightarrow> []"
  have x: "list_all2 (\<lambda>h x. find_pool_by_handle a h = Some x \<and> x < n) ?ps xs" using Cons.hyps(1) .
  obtain g where g: "mark_pools a p 0 ?ps False fl = Some (p \<in> set xs, g)" "length g = length fl"
      "\<forall>i < length fl. \<forall>k. bit (g ! i) k \<longleftrightarrow> bit (fl ! i) k \<or> (k = 0 \<and> xs \<noteq> [] \<and> hd xs = i)
        \<or> (k = 2 \<and> i \<noteq> p \<and> i \<in> set (dropWhile (\<lambda>x. x \<noteq> p) xs)) \<or> (k = 3 \<and> i \<noteq> p \<and> i \<in> set (takeWhile (\<lambda>x. x \<noteq> p) xs))"
    using mark_pools_marks [OF x Cons.prems, of p 0 False] by auto
  obtain g' where g': "(if p \<in> set xs then mark_with_progress a ?ps g else Some g) = Some g'" "length g' = length fl"
      "\<forall>i < length fl. \<forall>k. bit (g' ! i) k \<longleftrightarrow> bit (g ! i) k \<or> (k = 1 \<and> p \<in> set xs \<and> i \<in> set xs)"
    using mark_with_progress_marks [OF x, of g] Cons.prems g(2) by (cases "p \<in> set xs") auto
  have m: "\<forall>i < length fl. \<forall>k. bit (g' ! i) k \<longleftrightarrow> bit (fl ! i) k \<or> marks p xs i k" using g(3) g'(3) by (auto simp: marks_def)
  have "length g' = n" using Cons.prems g'(2) by simp
  from Cons.IH [OF this] obtain fl' where "mark_streams main_pools a p ess g' = Some fl'" "length fl' = length fl"
      "\<forall>i < length fl. \<forall>k. bit (fl' ! i) k \<longleftrightarrow> bit (g' ! i) k \<or> (\<exists>xs \<in> set xss. marks p xs i k)"
    using g'(2) by auto
  then show ?case using g(1) g'(1) m by (intro exI [of _ fl']) (auto simp: Let_def)
qed

lemma marks_some: "(\<exists>k. marks p xs i k) \<longleftrightarrow> i \<in> set xs"
proof -
  have "i \<in> set (takeWhile (\<lambda>x. x \<noteq> p) xs) \<or> i \<in> set (dropWhile (\<lambda>x. x \<noteq> p) xs)" if "i \<in> set xs"
    using that by (metis Un_iff set_append takeWhile_dropWhile_id)
  then show ?thesis by (auto simp: marks_def dest: set_takeWhileD set_dropWhileD)
qed

lemma marks_bits:
  "marks p xs i 0 \<longleftrightarrow> xs \<noteq> [] \<and> hd xs = i" "marks p xs i (Suc 0) \<longleftrightarrow> p \<in> set xs \<and> i \<in> set xs"
  "marks p xs i 2 \<longleftrightarrow> i \<noteq> p \<and> i \<in> set (dropWhile (\<lambda>x. x \<noteq> p) xs)" "marks p xs i 3 \<longleftrightarrow> i \<noteq> p \<and> i \<in> set (takeWhile (\<lambda>x. x \<noteq> p) xs)"
  by (auto simp: marks_def)

lemma in_pool_warnings:
  "v \<in> set (concat (map (pool_warnings p fl) [0..<n])) \<longleftrightarrow>
    (case v of
       Not_associated i \<Rightarrow> i < n \<and> fl ! i = 0
     | Not_first i \<Rightarrow> i < n \<and> fl ! i \<noteq> 0 \<and> \<not> bit (fl ! i) 0
     | Not_before_progress i \<Rightarrow> i < n \<and> i \<noteq> p \<and> fl ! i \<noteq> 0 \<and> \<not> bit (fl ! i) 3
     | After_progress i \<Rightarrow> i < n \<and> i \<noteq> p \<and> fl ! i \<noteq> 0 \<and> bit (fl ! i) 2
     | With_progress i \<Rightarrow> i < n \<and> i \<noteq> p \<and> fl ! i \<noteq> 0 \<and> bit (fl ! i) 1)"
  by (auto simp: pool_warnings_def and_flags split: pool_warning.split if_splits)

lemma distinct_pool_warnings: "distinct (concat (map (pool_warnings p fl) [0..<n]))"
proof (induction n)
  case (Suc n)
  have "distinct (pool_warnings p fl n)" by (simp add: pool_warnings_def)
  moreover have "set (concat (map (pool_warnings p fl) [0..<n])) \<inter> set (pool_warnings p fl n) = {}"
    by (auto simp: pool_warnings_def split: if_splits)
  ultimately show ?case using Suc by simp
qed simp

text \<open>In a consistent registry handles and indices of pools correspond.\<close>

lemma registered_index:
  assumes "registry_ok sp a" "q \<in> p_pool ` set (pools a)"
  shows "\<exists>i < length (pools a). find_pool_by_handle a q = Some i \<and> p_pool (pools a ! i) = q"
proof -
  obtain i where i: "i < length (pools a)" "p_pool (pools a ! i) = q" using assms(2) by (auto simp: in_set_conv_nth)
  have d: "distinct (map p_pool (pools a))" "None \<notin> p_pool ` set (pools a)"
    using registry_okD(1) [OF assms(1)] by (simp_all add: ptab.unique_def comp_def image_image)
  have u: "distinct (map p_pool (pools a))" "q \<noteq> None" using d assms(2) by (simp, metis)
  have "p_pool (pools a ! j) \<noteq> q" if "j < i" for j
    using nth_eq_iff_index_eq [OF u(1), of j i] that i by simp
  then have "find_pool_by_handle a q = Some i" using i u(2) by (auto simp: find_pool_by_handle_def intro!: find_index_SomeI)
  then show ?thesis using i by blast
qed

text \<open>The indices \<open>xs\<close> stand for the handles \<open>hs\<close> of the pools of a scheduler.\<close>

definition stands_for :: "margo_abt \<Rightarrow> ptr list \<Rightarrow> nat list \<Rightarrow> bool" where
  "stands_for a hs xs \<longleftrightarrow> list_all2 (\<lambda>h x. find_pool_by_handle a h = Some x \<and> x < length (pools a)) hs xs
    \<and> (\<forall>i < length (pools a). (i \<in> set xs \<longleftrightarrow> p_pool (pools a ! i) \<in> set hs)
      \<and> (xs \<noteq> [] \<and> hd xs = i \<longleftrightarrow> hs \<noteq> [] \<and> hd hs = p_pool (pools a ! i))
      \<and> (\<forall>p < length (pools a).
          (i \<in> set (takeWhile (\<lambda>x. x \<noteq> p) xs) \<longleftrightarrow> p_pool (pools a ! i) \<in> set (takeWhile (\<lambda>q. q \<noteq> p_pool (pools a ! p)) hs))
          \<and> (i \<in> set (dropWhile (\<lambda>x. x \<noteq> p) xs) \<longleftrightarrow> p_pool (pools a ! i) \<in> set (dropWhile (\<lambda>q. q \<noteq> p_pool (pools a ! p)) hs))))"

lemma index_lists:
  assumes ok: "registry_ok sp a" and hs: "set hs \<subseteq> p_pool ` set (pools a)"
  shows "\<exists>xs. stands_for a hs xs"
proof -
  define idx where "idx = (\<lambda>q. the (find_pool_by_handle a q))"
  let ?h = "\<lambda>i. p_pool (pools a ! i)"
  have q: "find_pool_by_handle a q = Some (idx q) \<and> idx q < length (pools a) \<and> ?h (idx q) = q" if "q \<in> p_pool ` set (pools a)" for q
    using registered_index [OF ok that] by (auto simp: idx_def)
  have e: "idx q = i \<longleftrightarrow> q = ?h i" if "q \<in> p_pool ` set (pools a)" "i < length (pools a)" for q i
  proof -
    have "distinct (map p_pool (pools a))" using registry_okD(1) [OF ok] by (auto simp: ptab.unique_def comp_def)
    then show ?thesis using q [OF that(1)] that(2) nth_eq_iff_index_eq [of "map p_pool (pools a)" "idx q" i] by auto
  qed
  have mem: "i \<in> idx ` set qs \<longleftrightarrow> ?h i \<in> set qs" if "set qs \<subseteq> p_pool ` set (pools a)" "i < length (pools a)" for i qs
  proof -
    have "i = idx r \<longleftrightarrow> r = ?h i" if "r \<in> set qs" for r using e [of r i] that \<open>i < length (pools a)\<close> \<open>set qs \<subseteq> _\<close> by auto
    then show ?thesis by (auto simp: image_iff)
  qed
  have tw: "takeWhile (\<lambda>x. x \<noteq> p) (map idx hs) = map idx (takeWhile (\<lambda>q. q \<noteq> ?h p) hs)"
    and dw: "dropWhile (\<lambda>x. x \<noteq> p) (map idx hs) = map idx (dropWhile (\<lambda>q. q \<noteq> ?h p) hs)" if "p < length (pools a)" for p
    unfolding takeWhile_map dropWhile_map using e hs that
    by (auto intro!: arg_cong [where f = "map idx"] takeWhile_cong dropWhile_cong)
  have a2: "list_all2 (\<lambda>h x. find_pool_by_handle a h = Some x \<and> x < length (pools a)) hs (map idx hs)"
    using q hs by (auto simp: list_all2_conv_all_nth dest!: nth_mem)
  have hd: "map idx hs \<noteq> [] \<and> hd (map idx hs) = i \<longleftrightarrow> hs \<noteq> [] \<and> hd hs = ?h i" if "i < length (pools a)" for i
    using e [of "hd hs" i] hs that by (cases hs) auto
  have sub: "set (takeWhile P hs) \<subseteq> p_pool ` set (pools a)" "set (dropWhile P hs) \<subseteq> p_pool ` set (pools a)" for P
    using hs by (auto dest: set_takeWhileD set_dropWhileD)
  have "stands_for a hs (map idx hs)"
    unfolding stands_for_def using a2 hd mem [OF hs] mem [OF sub(1)] mem [OF sub(2)] tw dw by simp
  then show ?thesis by blast
qed

text \<open>
  C38: the warnings about pools are exact. In a consistent registry the check accesses its flags only inside the array, accepts, and
  warns about a pool, at most once for each reason, exactly when: no execution stream has it; no stream has it
  first; no stream has it before the progress pool; a stream has it after the progress pool; a
  stream has it and the progress pool.
\<close>

theorem sanity_warnings_exact:
  assumes ok: "registry_ok sp a" and mp: "\<forall>x \<in> set (xstreams a). main_pools (x_xstream x) = Some (sp (x_xstream x))"
    and p: "p < length (pools a)"
  shows "\<exists>ws. sanity_check_abt_configuration True main_pools a p = Some (True, ws) \<and> distinct ws
    \<and> (\<forall>i < length (pools a). let h = p_pool (pools a ! i); progress = p_pool (pools a ! p);
          scheds = (\<lambda>x. sp (x_xstream x)) ` set (xstreams a); used = (\<exists>ps \<in> scheds. h \<in> set ps) in
        (Not_associated i \<in> set ws \<longleftrightarrow> \<not> used)
        \<and> (Not_first i \<in> set ws \<longleftrightarrow> used \<and> (\<forall>ps \<in> scheds. \<not> (ps \<noteq> [] \<and> hd ps = h)))
        \<and> (Not_before_progress i \<in> set ws \<longleftrightarrow> i \<noteq> p \<and> used \<and> (\<forall>ps \<in> scheds. h \<notin> set (takeWhile (\<lambda>q. q \<noteq> progress) ps)))
        \<and> (After_progress i \<in> set ws \<longleftrightarrow> i \<noteq> p \<and> (\<exists>ps \<in> scheds. h \<in> set (dropWhile (\<lambda>q. q \<noteq> progress) ps)))
        \<and> (With_progress i \<in> set ws \<longleftrightarrow> i \<noteq> p \<and> (\<exists>ps \<in> scheds. progress \<in> set ps \<and> h \<in> set ps)))"
proof -
  let ?n = "length (pools a)" and ?h = "\<lambda>i. p_pool (pools a ! i)" and ?s = "\<lambda>x. sp (x_xstream x)"
  have "\<exists>xs. stands_for a (?s x) xs" if "x \<in> set (xstreams a)" for x
    using index_lists [OF ok registry_okD(4) [OF ok that]] .
  then obtain f where f: "\<And>x. x \<in> set (xstreams a) \<Longrightarrow> stands_for a (?s x) (f x)" by metis
  let ?xss = "map f (xstreams a)" and ?fl = "replicate ?n 0 :: u8 list"
  have "list_all2 (\<lambda>es xs. list_all2 (\<lambda>h x. find_pool_by_handle a h = Some x \<and> x < ?n)
      (case main_pools (x_xstream es) of Some ps \<Rightarrow> ps | None \<Rightarrow> []) xs) (xstreams a) ?xss"
    using f mp by (auto simp: list_all2_conv_all_nth stands_for_def dest!: nth_mem)
  from mark_streams_marks [OF this, of ?fl p] obtain fl where fl: "mark_streams main_pools a p (xstreams a) ?fl = Some fl"
      and bits: "\<And>i k. i < ?n \<Longrightarrow> bit (fl ! i) k \<longleftrightarrow> (\<exists>x \<in> set (xstreams a). marks p (f x) i k)"
    by auto
  let ?ws = "concat (map (pool_warnings p fl) [0..<?n])"
  have zero: "fl ! i = 0 \<longleftrightarrow> \<not> (\<exists>x \<in> set (xstreams a). ?h i \<in> set (?s x))" if "i < ?n" for i
  proof -
    have "fl ! i = 0 \<longleftrightarrow> (\<forall>k. \<not> bit (fl ! i) k)" using bit_eqI [of "fl ! i" 0] by auto
    also have "\<dots> \<longleftrightarrow> \<not> (\<exists>x \<in> set (xstreams a). \<exists>k. marks p (f x) i k)" using bits [OF that] by blast
    also have "\<dots> \<longleftrightarrow> \<not> (\<exists>x \<in> set (xstreams a). ?h i \<in> set (?s x))" using f that by (auto simp: marks_some stands_for_def)
    finally show ?thesis .
  qed
  have m: "marks p (f x) i 0 \<longleftrightarrow> ?s x \<noteq> [] \<and> hd (?s x) = ?h i" "marks p (f x) i (Suc 0) \<longleftrightarrow> ?h p \<in> set (?s x) \<and> ?h i \<in> set (?s x)"
    "marks p (f x) i 2 \<longleftrightarrow> i \<noteq> p \<and> ?h i \<in> set (dropWhile (\<lambda>q. q \<noteq> ?h p) (?s x))"
    "marks p (f x) i 3 \<longleftrightarrow> i \<noteq> p \<and> ?h i \<in> set (takeWhile (\<lambda>q. q \<noteq> ?h p) (?s x))"
    if "x \<in> set (xstreams a)" "i < ?n" for x i
    using f [OF that(1)] that(2) p by (auto simp: marks_bits stands_for_def)
  have used: "(\<exists>x \<in> set (xstreams a). ?h i \<in> set (dropWhile (\<lambda>q. q \<noteq> ?h p) (?s x))) \<Longrightarrow> \<exists>x \<in> set (xstreams a). ?h i \<in> set (?s x)" for i
    by (auto dest: set_dropWhileD)
  show ?thesis
    unfolding sanity_check_abt_configuration_def
    using fl distinct_pool_warnings [of p fl ?n] used
    by (intro exI [of _ ?ws]) (auto simp: in_pool_warnings zero bits m Let_def simp del: set_concat)
qed

definition example_streams :: margo_abt where
  "example_streams = \<lparr>pools = [zero_pool\<lparr>p_name := Some ''progress'', p_pool := Some 1, p_num_xstreams := 1\<rparr>,
       zero_pool\<lparr>p_name := Some ''rpc'', p_pool := Some 2, p_num_xstreams := 1\<rparr>], pools_cap = 2,
     xstreams = [zero_xstream\<lparr>x_name := Some ''es'', x_xstream := Some 7\<rparr>], xstreams_cap = 1, lock_depth = 0, progress_pool_idx = 0,
     rpc_pool_idx = 1, freed_pools = [], freed_xstreams = []\<rparr>"

lemma example_streams_ok: "registry_ok (\<lambda>_. [Some 1, Some 2]) example_streams"
  by (simp add: registry_ok_def example_streams_def zero_pool_def zero_xstream_def ptab.unique_def xtab.unique_def)

theorem sanity_warnings_exact_witness:
  "\<exists>ws. sanity_check_abt_configuration True (\<lambda>_. Some [Some 1, Some 2]) example_streams 0 = Some (True, ws)
    \<and> set ws \<inter> {Not_first 0, Not_associated 1, After_progress 1, With_progress 1} = {After_progress 1, With_progress 1}"
proof -
  have "0 < length (pools example_streams)" "1 < length (pools example_streams)" by (simp_all add: example_streams_def)
  moreover have "p_pool (pools example_streams ! 0) = Some 1" "p_pool (pools example_streams ! 1) = Some 2"
    "(\<lambda>x. [Some 1, Some 2]) ` set (xstreams example_streams) = {[Some 1, Some 2]}"
    by (simp_all add: example_streams_def)
  ultimately show ?thesis
    using sanity_warnings_exact [OF example_streams_ok, of "\<lambda>_. Some [Some 1, Some 2]" 0] by (fastforce simp: Let_def)
qed

text \<open>A scheduler with a pool that is not registered makes the check write outside its array.\<close>

lemma unregistered_pool_written:
  "xstreams a = [es] \<Longrightarrow> main_pools (x_xstream es) = Some [pool] \<Longrightarrow> find_pool_by_handle a pool = None \<Longrightarrow>
    sanity_check_abt_configuration True main_pools a p = None"
  by (simp add: sanity_check_abt_configuration_def)

section \<open>Environment variables\<close>

type_synonym environment = "string \<rightharpoonup> string"

definition show_int :: "int \<Rightarrow> string" where
  "show_int i = (if i < 0 then CHR ''-'' # show_nat (nat (- i)) else show_nat (nat i))"

text \<open>The argument is an unsigned integer that is printed as a signed one; \<open>abt_up\<close> says whether Argobots is initialized.\<close>

definition margo_set_abt_mem_max_num_stacks :: "bool \<Rightarrow> u32 \<Rightarrow> environment \<Rightarrow> environment \<times> int" where
  "margo_set_abt_mem_max_num_stacks abt_up max_num_stacks env =
    (if abt_up then (env, - 1) else (env(''ABT_MEM_MAX_NUM_STACKS'' \<mapsto> show_int (sint max_num_stacks)), 0))"

definition margo_set_abt_thread_stacksize :: "bool \<Rightarrow> u32 \<Rightarrow> environment \<Rightarrow> environment \<times> int" where
  "margo_set_abt_thread_stacksize abt_up stacksize env =
    (if abt_up then (env, - 1) else (env(''ABT_THREAD_STACKSIZE'' \<mapsto> show_int (sint stacksize)), 0))"

text \<open>\<^verbatim>\<open>json_object_get_int64\<close>: strings are parsed, doubles truncated, both limited to the range of \<^verbatim>\<open>int64_t\<close>.\<close>

definition clamp64 :: "int \<Rightarrow> int" where
  "clamp64 i = max (- (2 ^ 63)) (min (2 ^ 63 - 1) i)"

definition get_int64 :: "json \<Rightarrow> int" where
  "get_int64 j =
    (case j of
       JBool b \<Rightarrow> if b then 1 else 0
     | JInt i \<Rightarrow> i
     | JDouble x \<Rightarrow> clamp64 (if 0 \<le> x then \<lfloor>x\<rfloor> else \<lceil>x\<rceil>)
     | JString s \<Rightarrow> clamp64 (atoi s)
     | _ \<Rightarrow> 0)"

definition MARGO_DEFAULT_ABT_MEM_MAX_NUM_STACKS :: int where
  "MARGO_DEFAULT_ABT_MEM_MAX_NUM_STACKS = 8"

definition MARGO_DEFAULT_ABT_THREAD_STACKSIZE :: int where
  "MARGO_DEFAULT_ABT_THREAD_STACKSIZE = 2097152"

text \<open>The two values are of type \<^verbatim>\<open>int\<close>, and converted to \<^verbatim>\<open>unsigned\<close> for the calls.\<close>

definition set_argobots_environment_variables :: "bool \<Rightarrow> json option \<Rightarrow> environment \<Rightarrow> environment" where
  "set_argobots_environment_variables abt_up config env =
    (let param = (\<lambda>key x. case object_get (object_get config ''argobots'') key of Some j \<Rightarrow> to_int (get_int64 j) | None \<Rightarrow> x);
         abt_mem_max_num_stacks = param ''abt_mem_max_num_stacks'' MARGO_DEFAULT_ABT_MEM_MAX_NUM_STACKS;
         abt_thread_stacksize = param ''abt_thread_stacksize'' MARGO_DEFAULT_ABT_THREAD_STACKSIZE;
         env = fst (margo_set_abt_mem_max_num_stacks abt_up (word_of_int abt_mem_max_num_stacks) env)
     in fst (margo_set_abt_thread_stacksize abt_up (word_of_int abt_thread_stacksize) env))"

text \<open>\<open>parse\<close> is the parser of json-c, without a result for a text that it does not accept.\<close>

definition margo_set_environment :: "(string \<Rightarrow> json option) \<Rightarrow> bool \<Rightarrow> string option \<Rightarrow> environment \<Rightarrow> environment \<times> int" where
  "margo_set_environment parse abt_up optional_json_config env =
    (case optional_json_config of
       Some (c # cs) \<Rightarrow>
         (case parse (c # cs) of
            None \<Rightarrow> (env, - 1)
          | Some config \<Rightarrow> (set_argobots_environment_variables abt_up (Some config) env, 0))
     | _ \<Rightarrow> (set_argobots_environment_variables abt_up None env, 0))"

text \<open>The settings that a warning says will be ignored; \<open>a\<close> is the section about Argobots.\<close>

definition check_abt_env_variables :: "bool \<Rightarrow> environment \<Rightarrow> json option \<Rightarrow> string list" where
  "check_abt_env_variables abt_up env a =
    (case object_get a ''abt_mem_max_num_stacks'' of
       None \<Rightarrow> []
     | Some j \<Rightarrow>
         (case env ''ABT_MEM_MAX_NUM_STACKS'' of
            Some val \<Rightarrow> if atoi val \<noteq> get_int64 j then [''abt_mem_max_num_stacks''] else []
          | None \<Rightarrow> if abt_up then [''abt_mem_max_num_stacks''] else []))
    @ (let abt_thread_stacksize = (case object_get a ''abt_thread_stacksize'' of Some j \<Rightarrow> get_int64 j | None \<Rightarrow> MARGO_DEFAULT_ABT_THREAD_STACKSIZE)
       in case env ''ABT_THREAD_STACKSIZE'' of
            Some val \<Rightarrow> if atoi val \<noteq> abt_thread_stacksize then [''abt_thread_stacksize''] else []
          | None \<Rightarrow> if abt_up then [''abt_thread_stacksize''] else [])"

text \<open>Whether the check warns about the size of stacks that Argobots uses.\<close>

definition confirm_argobots_configuration :: "u64 \<Rightarrow> json option \<Rightarrow> bool" where
  "confirm_argobots_configuration runtime_abt_thread_stacksize config =
    (case object_get (object_get config ''argobots'') ''abt_thread_stacksize'' of
       Some j \<Rightarrow> to_int (uint runtime_abt_thread_stacksize) \<noteq> to_int (get_int64 j)
     | None \<Rightarrow> False)"

lemma digits_snoc: "list_all is_digit cs \<Longrightarrow> is_digit c \<Longrightarrow> digits acc (cs @ [c]) = digits acc cs * 10 + (of_char c - 48)"
  by (induction cs arbitrary: acc) auto

lemma of_char_digit: "n < 10 \<Longrightarrow> of_char (char_of (48 + n) :: char) = 48 + n" for n :: nat
  by (simp add: of_char_of)

lemma digits_show_nat: "digits 0 (show_nat n) = int n \<and> list_all is_digit (show_nat n) \<and> show_nat n \<noteq> []"
proof (induction n rule: less_induct)
  case (less n)
  have d: "is_digit (char_of (48 + k))" "(of_char (char_of (48 + k) :: char) :: int) = 48 + int k" if "k < 10" for k :: nat
    using of_char_digit [OF that] that of_nat_of_char [where 'a = int, of "char_of (48 + k)"]
    by (simp_all add: is_digit_def del: of_nat_of_char)
  show ?case
  proof (cases "n < 10")
    case True
    then show ?thesis using d [OF True] by (simp add: show_nat.simps [of n])
  next
    case False
    have "digits 0 (show_nat n) = digits 0 (show_nat (n div 10)) * 10 + int (n mod 10)"
      using False less [of "n div 10"] d [of "n mod 10"] by (simp add: show_nat.simps [of n] digits_snoc del: show_nat.simps)
    moreover have "int (n div 10) * 10 + int (n mod 10) = int n" by presburger
    ultimately show ?thesis using False less [of "n div 10"] d [of "n mod 10"] by (simp add: show_nat.simps [of n] del: show_nat.simps)
  qed
qed

lemma atoi_show_int: "atoi (show_int i) = i"
proof -
  obtain c cs where c: "show_nat (nat i) = c # cs" using digits_show_nat [of "nat i"] by (cases "show_nat (nat i)") auto
  then have "is_digit c" using digits_show_nat [of "nat i"] by simp
  then have "\<not> is_space c" "c \<noteq> CHR ''-''" "c \<noteq> CHR ''+''" by (auto simp: is_digit_def is_space_def)
  then have "atoi (show_nat (nat i)) = digits 0 (show_nat (nat i))"
    unfolding c by (simp add: atoi_def split: char.split bool.split)
  then show ?thesis using digits_show_nat [of "nat i"] digits_show_nat [of "nat (- i)"]
    by (simp add: show_int_def atoi_def [of "CHR ''-'' # _"] is_space_def)
qed

lemma to_int_range: "- (2 ^ 31) \<le> i \<Longrightarrow> i < 2 ^ 31 \<Longrightarrow> to_int i = i"
  by (simp add: to_int_def)

lemma sint_word_of_int: "- (2 ^ 31) \<le> i \<Longrightarrow> i < 2 ^ 31 \<Longrightarrow> sint (word_of_int i :: u32) = i"
  by (simp add: sint_sbintrunc' signed_take_bit_int_eq_self)

lemma set_environment_effect:
  assumes parsed: "json \<noteq> []" "parse json = Some config"
    and range: "\<And>key j. key \<in> {''abt_mem_max_num_stacks'', ''abt_thread_stacksize''} \<Longrightarrow>
      object_get (object_get (Some config) ''argobots'') key = Some j \<Longrightarrow> - (2 ^ 31) \<le> get_int64 j \<and> get_int64 j < 2 ^ 31"
  shows "\<exists>env'. margo_set_environment parse False (Some json) env = (env', 0)
      \<and> (\<exists>v. env' ''ABT_THREAD_STACKSIZE'' = Some v
          \<and> (int (unat runtime) = atoi v \<longrightarrow> \<not> confirm_argobots_configuration runtime (Some config)))
      \<and> check_abt_env_variables abt_up env' (object_get (Some config) ''argobots'') = []
      \<and> (\<forall>name. name \<notin> {''ABT_MEM_MAX_NUM_STACKS'', ''ABT_THREAD_STACKSIZE''} \<longrightarrow> env' name = env name)"
    and "margo_set_environment parse True (Some json) env = (env, 0)"
proof -
  let ?a = "object_get (Some config) ''argobots''"
  define n where "n = (case object_get ?a ''abt_mem_max_num_stacks'' of Some j \<Rightarrow> get_int64 j | None \<Rightarrow> MARGO_DEFAULT_ABT_MEM_MAX_NUM_STACKS)"
  define m where "m = (case object_get ?a ''abt_thread_stacksize'' of Some j \<Rightarrow> get_int64 j | None \<Rightarrow> MARGO_DEFAULT_ABT_THREAD_STACKSIZE)"
  have n: "- (2 ^ 31) \<le> n" "n < 2 ^ 31" and m: "- (2 ^ 31) \<le> m" "m < 2 ^ 31"
    using range [of "''abt_mem_max_num_stacks''"] range [of "''abt_thread_stacksize''"]
    by (auto simp: n_def m_def MARGO_DEFAULT_ABT_MEM_MAX_NUM_STACKS_def MARGO_DEFAULT_ABT_THREAD_STACKSIZE_def split: option.splits)
  let ?env = "env(''ABT_MEM_MAX_NUM_STACKS'' \<mapsto> show_int n, ''ABT_THREAD_STACKSIZE'' \<mapsto> show_int m)"
  have "set_argobots_environment_variables False (Some config) env = ?env"
  proof -
    have "(case object_get ?a ''abt_mem_max_num_stacks'' of Some j \<Rightarrow> to_int (get_int64 j) | None \<Rightarrow> MARGO_DEFAULT_ABT_MEM_MAX_NUM_STACKS) = n"
      "(case object_get ?a ''abt_thread_stacksize'' of Some j \<Rightarrow> to_int (get_int64 j) | None \<Rightarrow> MARGO_DEFAULT_ABT_THREAD_STACKSIZE) = m"
      using to_int_range [OF n] to_int_range [OF m] by (auto simp: n_def m_def split: option.splits)
    then show ?thesis using sint_word_of_int [OF n] sint_word_of_int [OF m]
      by (simp add: set_argobots_environment_variables_def margo_set_abt_mem_max_num_stacks_def margo_set_abt_thread_stacksize_def)
  qed
  then have "margo_set_environment parse False (Some json) env = (?env, 0)"
    using parsed by (cases json) (simp_all add: margo_set_environment_def)
  moreover have "check_abt_env_variables abt_up ?env ?a = []"
    by (auto simp: check_abt_env_variables_def atoi_show_int n_def m_def split: option.splits)
  moreover have "\<not> confirm_argobots_configuration runtime (Some config)" if "int (unat runtime) = atoi (show_int m)"
    using that by (auto simp: confirm_argobots_configuration_def atoi_show_int m_def split: option.splits)
  ultimately show "\<exists>env'. margo_set_environment parse False (Some json) env = (env', 0)
      \<and> (\<exists>v. env' ''ABT_THREAD_STACKSIZE'' = Some v
          \<and> (int (unat runtime) = atoi v \<longrightarrow> \<not> confirm_argobots_configuration runtime (Some config)))
      \<and> check_abt_env_variables abt_up env' (object_get (Some config) ''argobots'') = []
      \<and> (\<forall>name. name \<notin> {''ABT_MEM_MAX_NUM_STACKS'', ''ABT_THREAD_STACKSIZE''} \<longrightarrow> env' name = env name)"
    by (intro exI [of _ ?env]) auto
  show "margo_set_environment parse True (Some json) env = (env, 0)"
    using parsed by (cases json) (simp_all add: margo_set_environment_def set_argobots_environment_variables_def
        margo_set_abt_mem_max_num_stacks_def margo_set_abt_thread_stacksize_def Let_def)
qed

text \<open>
  The settings of \<^verbatim>\<open>margo_set_environment\<close> are respected. If Argobots is not initialized yet and the values fit in an
  \<^verbatim>\<open>int\<close>, the variables that are set are read back as the configured or default values; a later initialization
  with the same configuration does not warn that they are ignored, nor about the size of stacks if Argobots uses the
  one that it was given, and no other variable changes. After the initialization of Argobots nothing is changed.
\<close>

theorem environment_respected:
  assumes "json \<noteq> []" "parse json = Some config"
    and "\<And>key j. key \<in> {''abt_mem_max_num_stacks'', ''abt_thread_stacksize''} \<Longrightarrow>
      object_get (object_get (Some config) ''argobots'') key = Some j \<Longrightarrow> - (2 ^ 31) \<le> get_int64 j \<and> get_int64 j < 2 ^ 31"
  shows "(\<exists>env'. margo_set_environment parse False (Some json) env = (env', 0)
      \<and> (\<exists>v. env' ''ABT_THREAD_STACKSIZE'' = Some v
          \<and> (int (unat runtime) = atoi v \<longrightarrow> \<not> confirm_argobots_configuration runtime (Some config)))
      \<and> check_abt_env_variables abt_up env' (object_get (Some config) ''argobots'') = []
      \<and> (\<forall>name. name \<notin> {''ABT_MEM_MAX_NUM_STACKS'', ''ABT_THREAD_STACKSIZE''} \<longrightarrow> env' name = env name))
    \<and> margo_set_environment parse True (Some json) env = (env, 0)"
  by (rule conjI; rule set_environment_effect [where config = config]; use assms in blast)

theorem environment_respected_witness:
  "let config = JObject [(''argobots'', Some (JObject [(''abt_thread_stacksize'', Some (JInt 65536))]))] in
    \<exists>env'. margo_set_environment (\<lambda>_. Some config) False (Some ''{...}'') Map.empty = (env', 0)
      \<and> check_abt_env_variables True env' (object_get (Some config) ''argobots'') = []"
  using environment_respected [of "''{...}''" "\<lambda>_. Some (JObject [(''argobots'', Some (JObject [(''abt_thread_stacksize'', Some (JInt 65536))]))])"
      "JObject [(''argobots'', Some (JObject [(''abt_thread_stacksize'', Some (JInt 65536))]))]" Map.empty 65536 True]
  by (fastforce simp: Let_def get_int64_def)

text \<open>A value that does not fit is cut off: eight gigabytes and four kilobytes become four kilobytes, and the check then warns.\<close>

lemma stacksize_truncated:
  "let config = JObject [(''argobots'', Some (JObject [(''abt_thread_stacksize'', Some (JInt 8589938688))]))];
       env = fst (margo_set_environment (\<lambda>_. Some config) False (Some ''{...}'') Map.empty) in
    env ''ABT_THREAD_STACKSIZE'' = Some ''4096'' \<and> check_abt_env_variables False env (object_get (Some config) ''argobots'') = [''abt_thread_stacksize'']"
  by code_simp

end
