(* ===== verification/Logging.thy ===== *)
theory Logging
  imports Margo_Prelude
begin

text \<open>
  Logging (\<^verbatim>\<open>src/margo-logging.c\<close>): loggers of instances and the global one, their levels, and the choice of the global
  level between the calls of the user, the variable \<^verbatim>\<open>MARGO_LOG_LEVEL\<close> and the default.
\<close>

section \<open>Data\<close>

text \<open>The values of \<^verbatim>\<open>margo_log_level\<close>; the code also uses \<open>-1\<close> for a level that is not known.\<close>

abbreviation "MARGO_LOG_EXTERNAL \<equiv> 0 :: int"
abbreviation "MARGO_LOG_TRACE \<equiv> 1 :: int"
abbreviation "MARGO_LOG_DEBUG \<equiv> 2 :: int"
abbreviation "MARGO_LOG_INFO \<equiv> 3 :: int"
abbreviation "MARGO_LOG_WARNING \<equiv> 4 :: int"
abbreviation "MARGO_LOG_ERROR \<equiv> 5 :: int"
abbreviation "MARGO_LOG_CRITICAL \<equiv> 6 :: int"

text \<open>A function of a logger: one of the six that print on \<^verbatim>\<open>stderr\<close> behind a label, or one of the user.\<close>

datatype log_fn = Print string | User addr

record margo_logger =
  l_uargs :: ptr
  l_trace :: "log_fn option"
  l_debug :: "log_fn option"
  l_info :: "log_fn option"
  l_warning :: "log_fn option"
  l_error :: "log_fn option"
  l_critical :: "log_fn option"

definition default_logger :: margo_logger where
  "default_logger = \<lparr>l_uargs = None, l_trace = Some (Print ''trace''), l_debug = Some (Print ''debug''), l_info = Some (Print ''info''),
     l_warning = Some (Print ''warning''), l_error = Some (Print ''error''), l_critical = Some (Print ''critical'')\<rparr>"

record instance_log =
  i_logger :: margo_logger
  i_level :: int

record log_state =
  global_log_level_env :: "string option"
  global_log_level :: int
  global_logger :: margo_logger
  instances :: "addr \<Rightarrow> instance_log"

text \<open>What the code does outside: it calls the function of a logger, or prints a warning of its own about a level.\<close>

datatype log_out = Call log_fn ptr string | Unknown_level string

section \<open>Levels\<close>

definition log_level_from_string :: "string option \<Rightarrow> int \<times> log_out list" where
  "log_level_from_string level =
    (case level of
       None \<Rightarrow> (- 1, [])
     | Some l \<Rightarrow>
         if l = ''trace'' then (MARGO_LOG_TRACE, [])
         else if l = ''debug'' then (MARGO_LOG_DEBUG, [])
         else if l = ''info'' then (MARGO_LOG_INFO, [])
         else if l = ''warning'' then (MARGO_LOG_WARNING, [])
         else if l = ''error'' then (MARGO_LOG_ERROR, [])
         else if l = ''critical'' then (MARGO_LOG_CRITICAL, [])
         else (- 1, [Unknown_level l]))"

definition log_level_to_string :: "int \<Rightarrow> string" where
  "log_level_to_string level =
    (if level = MARGO_LOG_TRACE then ''trace''
     else if level = MARGO_LOG_DEBUG then ''debug''
     else if level = MARGO_LOG_INFO then ''info''
     else if level = MARGO_LOG_WARNING then ''warning''
     else if level = MARGO_LOG_ERROR then ''error''
     else if level = MARGO_LOG_CRITICAL then ''critical''
     else [])"

text \<open>\<open>getenv\<close> is the value of \<^verbatim>\<open>MARGO_LOG_LEVEL\<close>.\<close>

definition set_global_log_level_from_env :: "string option \<Rightarrow> log_state \<Rightarrow> log_state \<times> log_out list" where
  "set_global_log_level_from_env getenv s =
    (if global_log_level_env s = None
     then
       (let (s, out) =
          (if global_log_level s = - 1
           then
             (let (level, out) = log_level_from_string getenv
              in if level = - 1
                 then (s\<lparr>global_log_level := MARGO_LOG_WARNING\<rparr>, out @ (case getenv of Some l \<Rightarrow> [Unknown_level l] | None \<Rightarrow> []))
                 else (s\<lparr>global_log_level := level\<rparr>, out))
           else (s, []))
        in (s\<lparr>global_log_level_env := Some (log_level_to_string (global_log_level s))\<rparr>, out))
     else (s, []))"

section \<open>Operations\<close>

text \<open>The body that \<^verbatim>\<open>DEFINE_LOG_FN\<close> gives to the six functions; \<open>msg\<close> is the formatted message, unless formatting fails.\<close>

type_synonym log_call = "string option \<Rightarrow> ptr \<Rightarrow> string option \<Rightarrow> log_state \<Rightarrow> log_state \<times> log_out list"

definition DEFINE_LOG_FN :: "(margo_logger \<Rightarrow> log_fn option) \<Rightarrow> int \<Rightarrow> log_call" where
  "DEFINE_LOG_FN fn function_level getenv mid msg s =
    (let (s, out) = set_global_log_level_from_env getenv s;
         logger_level = (case mid of Some i \<Rightarrow> i_level (instances s i) | None \<Rightarrow> global_log_level s)
     in if logger_level > function_level then (s, out)
        else
          (case msg of
             None \<Rightarrow> (s, out)
           | Some buf \<Rightarrow>
               (let logger = (case mid of Some i \<Rightarrow> i_logger (instances s i) | None \<Rightarrow> global_logger s)
                in case fn logger of Some f \<Rightarrow> (s, out @ [Call f (l_uargs logger) buf]) | None \<Rightarrow> (s, out))))"

definition margo_trace :: log_call where
  "margo_trace = DEFINE_LOG_FN l_trace MARGO_LOG_TRACE"

definition margo_debug :: log_call where
  "margo_debug = DEFINE_LOG_FN l_debug MARGO_LOG_DEBUG"

definition margo_info :: log_call where
  "margo_info = DEFINE_LOG_FN l_info MARGO_LOG_INFO"

definition margo_warning :: log_call where
  "margo_warning = DEFINE_LOG_FN l_warning MARGO_LOG_WARNING"

definition margo_error :: log_call where
  "margo_error = DEFINE_LOG_FN l_error MARGO_LOG_ERROR"

definition margo_critical :: log_call where
  "margo_critical = DEFINE_LOG_FN l_critical MARGO_LOG_CRITICAL"

definition margo_set_logger :: "string option \<Rightarrow> addr \<Rightarrow> margo_logger option \<Rightarrow> log_state \<Rightarrow> (log_state \<times> log_out list) \<times> int" where
  "margo_set_logger getenv mid logger s =
    (let (s, out) = set_global_log_level_from_env getenv s;
         l = (case logger of None \<Rightarrow> default_logger | Some l \<Rightarrow> l)
     in ((s\<lparr>instances := (instances s)(mid := \<lparr>i_logger = l, i_level = global_log_level s\<rparr>)\<rparr>, out), 0))"

definition margo_set_log_level :: "addr \<Rightarrow> int \<Rightarrow> log_state \<Rightarrow> log_state \<times> int" where
  "margo_set_log_level mid level s =
    (if level < 0 \<or> level > MARGO_LOG_CRITICAL then (s, - 1)
     else (s\<lparr>instances := (instances s)(mid := (instances s mid)\<lparr>i_level := level\<rparr>)\<rparr>, 0))"

definition margo_set_global_logger :: "margo_logger option \<Rightarrow> log_state \<Rightarrow> log_state \<times> int" where
  "margo_set_global_logger logger s = (s\<lparr>global_logger := (case logger of None \<Rightarrow> default_logger | Some l \<Rightarrow> l)\<rparr>, 0)"

definition margo_set_global_log_level :: "int \<Rightarrow> log_state \<Rightarrow> log_state \<times> int" where
  "margo_set_global_log_level level s =
    (if level < 0 \<or> level > MARGO_LOG_CRITICAL then (s, - 1)
     else (s\<lparr>global_log_level := level, global_log_level_env := Some (log_level_to_string level)\<rparr>, 0))"

text \<open>The state of a program before its first call; an instance is zero until its logger is set.\<close>

definition initial_log :: log_state where
  "initial_log = \<lparr>global_log_level_env = None, global_log_level = - 1, global_logger = default_logger,
     instances = (\<lambda>_. \<lparr>i_logger = \<lparr>l_uargs = None, l_trace = None, l_debug = None, l_info = None, l_warning = None, l_error = None,
       l_critical = None\<rparr>, i_level = 0\<rparr>)\<rparr>"

section \<open>Sequences of calls\<close>

datatype severity = Trace | Debug | Info | Warning | Error | Critical

fun log_at :: "severity \<Rightarrow> log_call" where
  "log_at Trace = margo_trace"
| "log_at Debug = margo_debug"
| "log_at Info = margo_info"
| "log_at Warning = margo_warning"
| "log_at Error = margo_error"
| "log_at Critical = margo_critical"

fun level_of :: "severity \<Rightarrow> int" where
  "level_of Trace = 1" | "level_of Debug = 2" | "level_of Info = 3" | "level_of Warning = 4" | "level_of Error = 5" | "level_of Critical = 6"

fun fn_of :: "severity \<Rightarrow> margo_logger \<Rightarrow> log_fn option" where
  "fn_of Trace = l_trace" | "fn_of Debug = l_debug" | "fn_of Info = l_info" | "fn_of Warning = l_warning" | "fn_of Error = l_error"
| "fn_of Critical = l_critical"

lemma log_at_unfold: "log_at v = DEFINE_LOG_FN (fn_of v) (level_of v)"
  by (cases v) (simp_all add: margo_trace_def margo_debug_def margo_info_def margo_warning_def margo_error_def margo_critical_def)

datatype log_op =
    Set_global_log_level int
  | Set_global_logger "margo_logger option"
  | Set_logger addr "margo_logger option"
  | Set_log_level addr int
  | Log severity ptr "string option"

text \<open>A call, with the value of the environment variable at the time of the call.\<close>

fun log_step :: "string option \<times> log_op \<Rightarrow> log_state \<Rightarrow> log_state" where
  "log_step (getenv, Set_global_log_level level) s = fst (margo_set_global_log_level level s)"
| "log_step (getenv, Set_global_logger logger) s = fst (margo_set_global_logger logger s)"
| "log_step (getenv, Set_logger mid logger) s = fst (fst (margo_set_logger getenv mid logger s))"
| "log_step (getenv, Set_log_level mid level) s = fst (margo_set_log_level mid level s)"
| "log_step (getenv, Log v mid msg) s = fst (log_at v getenv mid msg s)"

definition log_run :: "(string option \<times> log_op) list \<Rightarrow> log_state" where
  "log_run ops = fold log_step ops initial_log"

section \<open>What a sequence of calls asks for\<close>

definition valid_level :: "int \<Rightarrow> bool" where
  "valid_level l \<longleftrightarrow> 0 \<le> l \<and> l \<le> MARGO_LOG_CRITICAL"

text \<open>The level that the last accepted call of \<^verbatim>\<open>margo_set_global_log_level\<close> chose; sequences are given with the last call first.\<close>

fun chosen :: "(string option \<times> log_op) list \<Rightarrow> int option" where
  "chosen [] = None"
| "chosen ((_, Set_global_log_level l) # ops) = (if valid_level l then Some l else chosen ops)"
| "chosen (_ # ops) = chosen ops"

text \<open>The environment variable at the first call that needs the global level.\<close>

fun first_env :: "(string option \<times> log_op) list \<Rightarrow> string option option" where
  "first_env [] = None"
| "first_env ((getenv, Set_logger _ _) # ops) = (case first_env ops of None \<Rightarrow> Some getenv | Some g \<Rightarrow> Some g)"
| "first_env ((getenv, Log _ _ _) # ops) = (case first_env ops of None \<Rightarrow> Some getenv | Some g \<Rightarrow> Some g)"
| "first_env (_ # ops) = first_env ops"

definition level_named :: "string option \<Rightarrow> int" where
  "level_named getenv =
    (case Option.bind getenv (map_of [(''trace'', 1), (''debug'', 2), (''info'', 3), (''warning'', 4), (''error'', 5), (''critical'', 6)]) of
       Some l \<Rightarrow> l
     | None \<Rightarrow> MARGO_LOG_WARNING)"

definition resolved :: "(string option \<times> log_op) list \<Rightarrow> int" where
  "resolved ops = (case chosen ops of Some l \<Rightarrow> l | None \<Rightarrow> (case first_env ops of Some g \<Rightarrow> level_named g | None \<Rightarrow> - 1))"

text \<open>The level and the logger of an instance, and the global logger.\<close>

fun instance_level :: "addr \<Rightarrow> (string option \<times> log_op) list \<Rightarrow> int" where
  "instance_level mid [] = 0"
| "instance_level mid ((getenv, Set_logger i l) # ops) = (if i = mid then resolved ((getenv, Set_logger i l) # ops) else instance_level mid ops)"
| "instance_level mid ((_, Set_log_level i l) # ops) = (if i = mid \<and> valid_level l then l else instance_level mid ops)"
| "instance_level mid (_ # ops) = instance_level mid ops"

fun instance_logger :: "addr \<Rightarrow> (string option \<times> log_op) list \<Rightarrow> margo_logger" where
  "instance_logger mid [] = i_logger (instances initial_log mid)"
| "instance_logger mid ((_, Set_logger i l) # ops) = (if i = mid then case l of Some l \<Rightarrow> l | None \<Rightarrow> default_logger else instance_logger mid ops)"
| "instance_logger mid (_ # ops) = instance_logger mid ops"

fun chosen_logger :: "(string option \<times> log_op) list \<Rightarrow> margo_logger" where
  "chosen_logger [] = default_logger"
| "chosen_logger ((_, Set_global_logger l) # ops) = (case l of Some l \<Rightarrow> l | None \<Rightarrow> default_logger)"
| "chosen_logger (_ # ops) = chosen_logger ops"

text \<open>Names and levels correspond.\<close>

lemma log_level_roundtrip:
  "l \<in> {MARGO_LOG_TRACE..MARGO_LOG_CRITICAL} \<Longrightarrow> log_level_from_string (Some (log_level_to_string l)) = (l, [])"
  "fst (log_level_from_string (Some name)) \<noteq> - 1 \<Longrightarrow> log_level_to_string (fst (log_level_from_string (Some name))) = name"
  by (auto simp: log_level_from_string_def log_level_to_string_def split: if_splits)

lemma level_from_env:
  "(if fst (log_level_from_string g) = - 1 then MARGO_LOG_WARNING else fst (log_level_from_string g)) = level_named g"
  by (auto simp: level_named_def log_level_from_string_def split: option.splits)

lemma set_from_env:
  "fst (set_global_log_level_from_env g s) =
    (if global_log_level_env s = None
     then (let l = (if global_log_level s = - 1 then level_named g else global_log_level s)
           in s\<lparr>global_log_level := l, global_log_level_env := Some (log_level_to_string l)\<rparr>)
     else s)"
  by (auto simp: set_global_log_level_from_env_def Let_def simp flip: level_from_env split: prod.split)

lemma set_from_env_no_call: "c \<in> set (snd (set_global_log_level_from_env g s)) \<Longrightarrow> \<exists>l. c = Unknown_level l"
  by (auto simp: set_global_log_level_from_env_def log_level_from_string_def Let_def split: if_splits option.splits)

lemma log_call_state: "fst (log_at v g mid msg s) = fst (set_global_log_level_from_env g s)"
  by (auto simp: log_at_unfold DEFINE_LOG_FN_def Let_def split: prod.split option.split)

text \<open>The state after a sequence of calls is the one that the calls ask for.\<close>

definition log_ok :: "(string option \<times> log_op) list \<Rightarrow> log_state \<Rightarrow> bool" where
  "log_ok ops s \<longleftrightarrow> global_log_level s = resolved ops \<and> (global_log_level_env s = None \<longleftrightarrow> chosen ops = None \<and> first_env ops = None)
     \<and> global_logger s = chosen_logger ops
     \<and> (\<forall>mid. i_level (instances s mid) = instance_level mid ops \<and> i_logger (instances s mid) = instance_logger mid ops)"

lemma level_named_valid: "valid_level (level_named g)"
  by (auto simp: level_named_def valid_level_def split: option.splits if_splits bind_splits)

lemma chosen_valid: "chosen ops = Some l \<Longrightarrow> valid_level l"
  by (induction ops rule: chosen.induct) (auto split: if_splits)

lemma log_step_ok:
  assumes "log_ok ops s"
  shows "log_ok ((g, op) # ops) (log_step (g, op) s)"
proof (cases op)
  case (Set_global_log_level l)
  then show ?thesis using assms
    by (auto simp: log_ok_def margo_set_global_log_level_def resolved_def valid_level_def split: option.splits)
next
  case (Set_global_logger l)
  then show ?thesis using assms by (auto simp: log_ok_def margo_set_global_logger_def resolved_def split: option.splits)
next
  case (Set_logger i l)
  then show ?thesis using assms
    by (auto simp: log_ok_def margo_set_logger_def case_prod_unfold set_from_env resolved_def Let_def split: option.splits)
next
  case (Set_log_level i l)
  then show ?thesis using assms by (auto simp: log_ok_def margo_set_log_level_def resolved_def valid_level_def split: option.splits)
next
  case (Log v mid msg)
  then show ?thesis using assms
    by (auto simp: log_ok_def log_call_state set_from_env resolved_def Let_def split: option.splits)
qed

lemma log_run_ok: "log_ok (rev ops) (log_run ops)"
proof (induction ops rule: rev_induct)
  case Nil
  then show ?case by (simp add: log_ok_def log_run_def initial_log_def resolved_def)
next
  case (snoc op ops)
  then show ?case using log_step_ok [of "rev ops" "log_run ops" "fst op" "snd op"] by (simp add: log_run_def)
qed

text \<open>Levels stay in the range of the enumeration: the global one once it is known, those of instances always.\<close>

lemma resolved_valid: "chosen ops \<noteq> None \<or> first_env ops \<noteq> None \<Longrightarrow> valid_level (resolved ops)"
  by (auto simp: resolved_def level_named_valid chosen_valid split: option.splits)

lemma instance_level_valid: "valid_level (instance_level mid ops)"
proof (induction mid ops rule: instance_level.induct)
  case (2 mid getenv i l ops)
  have "first_env ((getenv, Set_logger i l) # ops) \<noteq> None" by (simp split: option.split)
  then show ?case using 2 resolved_valid by auto
qed (auto simp: valid_level_def)



end
