(* ===== verification/Builtin_Rpcs.thy ===== *)
theory Builtin_Rpcs
  imports Rpc_Registry Serialization
begin

text \<open>
  The RPCs that every instance offers: identities of providers (\<^verbatim>\<open>src/margo-identity.c\<close>) and remote shutdown
  (\<^verbatim>\<open>src/margo-core.c\<close>, \<^verbatim>\<open>src/margo-init.c\<close>), on top of the registration of RPCs and the serialization of responses.
\<close>

section \<open>Identities at the provider\<close>

text \<open>
  The registry of RPCs and the strings that \<^verbatim>\<open>strdup\<close> allocated and \<^verbatim>\<open>free\<close> has not freed. The registry logs the calls of
  free callbacks; \<open>release_strings\<close> applies those between two states that are calls of \<open>free\<close> (at the address \<open>free_fn\<close>).
\<close>

record identity_state =
  reg :: rpc_registry
  strings :: "addr \<rightharpoonup> string"

definition release_strings :: "addr \<Rightarrow> rpc_registry \<Rightarrow> rpc_registry \<Rightarrow> (addr \<rightharpoonup> string) \<Rightarrow> (addr \<rightharpoonup> string)" where
  "release_strings free_fn old new strs =
    strs |` (- {a. (free_fn, a) \<in> set (drop (length (data_frees old)) (data_frees new))})"

text \<open>
  The calls of the environment: the version of Mercury, the results of allocations and registration as in \<^verbatim>\<open>Rpc_Registry\<close>, the addresses of the
  callbacks, and the result of \<^verbatim>\<open>strdup\<close>.
\<close>

record identity_env =
  ie_hg_2_3 :: bool
  ie_node :: bool
  ie_null_handler :: addr
  ie_register :: register_env
  ie_mid :: ptr
  ie_out_cb :: addr
  ie_handler :: addr
  ie_strdup :: ptr
  ie_free :: addr

definition margo_provider_register_identity ::
  "identity_env \<Rightarrow> u16 \<Rightarrow> string option \<Rightarrow> identity_state \<Rightarrow> identity_state \<times> hg_return" where
  "margo_provider_register_identity e provider_id identity s =
    (case identity of
       None \<Rightarrow> (s, HG_INVALID_ARG)
     | Some str \<Rightarrow>
         (case margo_provider_register_name (ie_hg_2_3 e) (ie_node e) (ie_null_handler e) (ie_register e) (ie_mid e) ''__identity__'' None
                 (Some (ie_out_cb e)) (Some (ie_handler e)) provider_id None (reg s) of
            (r, rpc_id) \<Rightarrow>
              if rpc_id = 0 then (s\<lparr>reg := r\<rparr>, HG_OTHER_ERROR)
              else
                (let strs = (case ie_strdup e of Some data \<Rightarrow> (strings s)(data \<mapsto> str) | None \<Rightarrow> strings s);
                     r' = fst (margo_register_data rpc_id (ie_strdup e) (Some (ie_free e)) r)
                 in (\<lparr>reg = r', strings = release_strings (ie_free e) r r' strs\<rparr>, HG_SUCCESS))))"

text \<open>\<open>lookup\<close> is the result of \<^verbatim>\<open>HG_Registered\<close>, \<open>hret\<close> that of \<^verbatim>\<open>HG_Deregister\<close>, which is not returned.\<close>

definition margo_provider_deregister_identity ::
  "identity_env \<Rightarrow> hg_return \<Rightarrow> hg_return \<Rightarrow> u16 \<Rightarrow> identity_state \<Rightarrow> identity_state \<times> hg_return" where
  "margo_provider_deregister_identity e lookup hret provider_id s =
    (if lookup \<noteq> HG_SUCCESS then (s, lookup)
     else
       (case margo_provider_registered_name (ie_hg_2_3 e) ''__identity__'' provider_id (reg s) of
          (rpc_id, flag) \<Rightarrow>
            if \<not> flag then (s, HG_NOENTRY)
            else
              (let r = fst (margo_deregister hret rpc_id (reg s))
               in (\<lparr>reg = r, strings = release_strings (ie_free e) (reg s) r (strings s)\<rparr>, HG_SUCCESS))))"

definition margo_provider_registered_identity :: "identity_env \<Rightarrow> hg_return \<Rightarrow> u16 \<Rightarrow> identity_state \<Rightarrow> ptr" where
  "margo_provider_registered_identity e lookup provider_id s =
    (if lookup \<noteq> HG_SUCCESS then None
     else
       (case margo_provider_registered_name (ie_hg_2_3 e) ''__identity__'' provider_id (reg s) of
          (rpc_id, flag) \<Rightarrow> if \<not> flag then None else margo_registered_data rpc_id (reg s)))"

text \<open>
  The handler. \<open>info\<close> is the id of the RPC in the information about the handle, if Mercury has it; the result is the string that the
  response is made of, \<^const>\<open>None\<close> if a string is read that was freed.
\<close>

definition get_identity :: "u64 option \<Rightarrow> identity_state \<Rightarrow> string option option" where
  "get_identity info s =
    (case info of
       None \<Rightarrow> Some None
     | Some rpc_id \<Rightarrow>
         (case margo_registered_data rpc_id (reg s) of
            None \<Rightarrow> Some None
          | Some data \<Rightarrow> (case strings s data of Some str \<Rightarrow> Some (Some str) | None \<Rightarrow> None)))"

section \<open>Identities at the client\<close>

text \<open>
  A buffer is the list of its bytes. A write outside of it is \<^const>\<open>None\<close>; the text that is copied has no zero byte.
\<close>

definition NUL :: char where
  "NUL = char_of (0 :: nat)"

definition strcpy :: "char list \<Rightarrow> string \<Rightarrow> char list option" where
  "strcpy buffer str = (if length str < length buffer then Some (str @ NUL # drop (length str + 1) buffer) else None)"

text \<open>
  \<open>create\<close> and \<open>forward\<close> are the results of \<^verbatim>\<open>margo_create\<close> and \<^verbatim>\<open>margo_provider_forward\<close>; \<open>get\<close>, \<open>free\<close> and \<open>handle_data\<close> are
  those of \<^verbatim>\<open>margo_get_output\<close>. The result has the buffer, the size that is stored, the return code and whether the handle was destroyed.
\<close>

definition margo_provider_get_identity ::
  "hg_return \<Rightarrow> hg_return \<Rightarrow>
   (('b, string option, hg_return) proc_args \<Rightarrow> ('b, string option, hg_return) proc_args \<times> hg_return) \<Rightarrow>
   (('b, string option, hg_return) proc_args \<Rightarrow> ('b, string option, hg_return) proc_args \<times> hg_return) \<Rightarrow>
   ('b, string option) proc_cb option option \<Rightarrow> char list option \<Rightarrow> u64 option \<Rightarrow>
   (char list option \<times> u64 option \<times> hg_return \<times> bool) option" where
  "margo_provider_get_identity create forward get free handle_data buffer bufsize =
    (case (buffer, bufsize) of
       (Some buf, Some n) \<Rightarrow>
         if create \<noteq> HG_SUCCESS then Some (buffer, bufsize, create, False)
         else if forward \<noteq> HG_SUCCESS then Some (buffer, bufsize, forward, True)
         else
           (case margo_get_output get free handle_data None of (out, hret) \<Rightarrow>
              if hret \<noteq> HG_SUCCESS then Some (buffer, bufsize, hret, True)
              else
                (case out of
                   Some str \<Rightarrow>
                     (let len = of_nat (length str) :: u64
                      in if n \<ge> len + 1 then do { buf' \<leftarrow> strcpy buf str; Some (Some buf', Some (len + 1), HG_SUCCESS, True) }
                         else do {
                           buf' \<leftarrow> (if n \<noteq> 0 then strcpy buf [] else Some buf);
                           Some (Some buf', Some (len + 1), HG_NOMEM, True)
                         })
                 | None \<Rightarrow> Some (buffer, Some 0, HG_SUCCESS, True)))
     | _ \<Rightarrow> Some (buffer, bufsize, HG_INVALID_ARG, False))"

section \<open>Remote shutdown\<close>

text \<open>The value of \<^verbatim>\<open>out.ret\<close> in the response, and whether \<^verbatim>\<open>margo_finalize\<close> is called, which happens after the response.\<close>

definition remote_shutdown_ult :: "bool \<Rightarrow> int \<times> bool" where
  "remote_shutdown_ult enable_remote_shutdown =
    (if \<not> enable_remote_shutdown then - 1 else 0, enable_remote_shutdown)"

text \<open>The result, and whether the handle was destroyed.\<close>

definition margo_shutdown_remote_instance ::
  "hg_return \<Rightarrow> hg_return \<Rightarrow> (('b, int, hg_return) proc_args \<Rightarrow> ('b, int, hg_return) proc_args \<times> hg_return) \<Rightarrow>
   (('b, int, hg_return) proc_args \<Rightarrow> ('b, int, hg_return) proc_args \<times> hg_return) \<Rightarrow> ('b, int) proc_cb option option \<Rightarrow> int \<Rightarrow> int \<times> bool" where
  "margo_shutdown_remote_instance create forward get free handle_data out0 =
    (if create \<noteq> HG_SUCCESS then (- 1, False)
     else if forward \<noteq> HG_SUCCESS then (- 1, True)
     else
       (case margo_get_output get free handle_data out0 of (out, hret) \<Rightarrow>
          if hret \<noteq> HG_SUCCESS then (- 1, True)
          else (fst (margo_free_output free handle_data out), True)))"

section \<open>Identities as a map\<close>

abbreviation identity_id :: "identity_env \<Rightarrow> u16 \<Rightarrow> u64" where
  "identity_id e p \<equiv> gen_id (ie_hg_2_3 e) ''__identity__'' p"

text \<open>The identity of each provider: the string that the data of its RPC points to.\<close>

definition identities :: "identity_env \<Rightarrow> identity_state \<Rightarrow> u16 \<rightharpoonup> string" where
  "identities e s p = Option.bind (margo_registered_data (identity_id e p) (reg s)) (strings s)"

text \<open>The data of the RPCs points to strings that are allocated, a different one for each provider, and that \<^verbatim>\<open>free\<close> will free.\<close>

definition identities_ok :: "identity_env \<Rightarrow> identity_state \<Rightarrow> bool" where
  "identities_ok e s \<longleftrightarrow>
     (\<forall>p d a. hg_rpc_data (reg s) (identity_id e p) = Some d \<longrightarrow> rd_user_data d = Some a \<longrightarrow>
        rd_user_free_callback d = Some (ie_free e) \<and> a \<in> dom (strings s))
   \<and> (\<forall>p q a. margo_registered_data (identity_id e p) (reg s) = Some a \<longrightarrow> margo_registered_data (identity_id e q) (reg s) = Some a \<longrightarrow> p = q)
   \<and> (\<forall>p. hg_rpc_data (reg s) (identity_id e p) \<noteq> None \<longrightarrow> identity_id e p \<in> hg_registered (reg s))"

lemma gen_id_provider_inj: "gen_id v name p = gen_id v name q \<Longrightarrow> p = q"
proof (rule bit_eqI)
  fix n assume e: "gen_id v name p = gen_id v name q" and "possible_bit TYPE(u16) n"
  then have "n < 16" by simp
  then show "bit p n \<longleftrightarrow> bit q n" using bit_gen_id_low [of n v name p] bit_gen_id_low [of n v name q] e by simp
qed

lemma register_internal_frame:
  assumes "margo_register_internal e mid name rpc_id in_cb out_cb cb pool s = (s', r)"
  shows "data_frees s' = data_frees s" "hg_registered s \<subseteq> hg_registered s'"
proof -
  have "data_frees s' = data_frees s \<and> hg_registered s \<subseteq> hg_registered s'"
  proof (cases "re_register e = HG_SUCCESS \<and> (hg_rpc_data s rpc_id \<noteq> None \<or> re_malloc e \<and> re_register_data e = HG_SUCCESS)")
    case True
    then show ?thesis
      using assms by (cases "find_pool_by_handle (rpc_abt s) (eff_pool pool s)"; cases "hg_rpc_data s rpc_id";
          auto simp add: margo_register_internal_def find_pool_call Let_def simp flip: eff_pool_def)
  next
    case False
    then show ?thesis using assms by (auto simp: margo_register_internal_def Let_def split: if_splits option.splits)
  qed
  then show "data_frees s' = data_frees s" "hg_registered s \<subseteq> hg_registered s'" by simp_all
qed

lemma provider_register_frame:
  assumes "margo_provider_register_name v node_ok nh e mid name in_cb out_cb cb p pool s = (s', r)"
  shows "data_frees s' = data_frees s" "hg_registered s \<subseteq> hg_registered s'"
proof -
  let ?s = "s\<lparr>registered_rpcs := (take 63 name, gen_id v name p) # registered_rpcs s, num_registered_rpcs := num_registered_rpcs s + 1\<rparr>"
  obtain t q where q: "margo_register_internal e mid (Some name) (gen_id v name p) in_cb out_cb (case cb of None \<Rightarrow> nh | Some c \<Rightarrow> c) pool ?s = (t, q)"
    by fastforce
  show "data_frees s' = data_frees s" "hg_registered s \<subseteq> hg_registered s'"
    using assms q register_internal_frame [OF q] by (auto simp: margo_provider_register_name_def Let_def split: if_splits)
qed

lemma data_free_frees:
  "data_frees (margo_rpc_data_free d s) = data_frees s @ (case (rd_user_data d, rd_user_free_callback d) of (Some a, Some f) \<Rightarrow> [(f, a)] | _ \<Rightarrow> [])"
  by (simp add: margo_rpc_data_free_def split: option.split)

text \<open>The freed string of the data \<open>d\<close> is that of no other provider.\<close>

lemma identities_ok_other:
  assumes "identities_ok e s" "hg_rpc_data (reg s) (identity_id e p) = Some d" "rd_user_data d = Some a" "q \<noteq> p"
  shows "margo_registered_data (identity_id e q) (reg s) \<noteq> Some a"
  using assms by (auto simp: identities_ok_def margo_registered_data_def)

lemma identities_ok_live: "identities_ok e s \<Longrightarrow> margo_registered_data (identity_id e q) (reg s) = Some b \<Longrightarrow> b \<in> dom (strings s)"
  by (auto simp: identities_ok_def margo_registered_data_def split: option.splits)

lemma register_identity_effect:
  assumes ok: "identities_ok e s" and dup: "ie_strdup e = Some a" "strings s a = None"
    and r: "margo_provider_register_identity e p (Some str) s = (s', HG_SUCCESS)"
  obtains d where "hg_rpc_data (reg s') = (hg_rpc_data (reg s))(identity_id e p \<mapsto> d)" "rd_user_data d = Some a"
    "rd_user_free_callback d = Some (ie_free e)" "identity_id e p \<in> hg_registered (reg s')"
    "hg_registered (reg s) \<subseteq> hg_registered (reg s')"
    "strings s' = (strings s)(a \<mapsto> str) |` (- set_option (margo_registered_data (identity_id e p) (reg s)))"
    "data_frees (reg s') = data_frees (reg s) @
       (case margo_registered_data (identity_id e p) (reg s) of Some b \<Rightarrow> [(ie_free e, b)] | None \<Rightarrow> [])"
proof -
  let ?id = "identity_id e p"
  obtain r rpc_id where reg: "margo_provider_register_name (ie_hg_2_3 e) (ie_node e) (ie_null_handler e) (ie_register e) (ie_mid e) ''__identity__'' None
      (Some (ie_out_cb e)) (Some (ie_handler e)) p None (reg s) = (r, rpc_id)" by fastforce
  have nz: "rpc_id \<noteq> 0" using assms(4) reg by (auto simp: margo_provider_register_identity_def split: if_splits)
  have eff: "rpc_id = ?id" "?id \<in> hg_registered r" "hg_rpc_data r = (case hg_rpc_data (reg s) ?id of Some d \<Rightarrow> hg_rpc_data (reg s)
      | None \<Rightarrow> (hg_rpc_data (reg s))(?id \<mapsto> new_data (ie_mid e) (Some ''__identity__'') None (Some (ie_out_cb e)) (eff_pool None (reg s))))"
    using provider_register_effect [OF reg] nz by auto
  obtain d0 where d0: "hg_rpc_data r ?id = Some d0" using eff(3) by (auto split: option.splits)
  have old: "rd_user_data d0 = margo_registered_data ?id (reg s)"
    using d0 eff(3) by (auto simp: margo_registered_data_def new_data_def split: option.splits)
  have free: "rd_user_free_callback d0 = Some (ie_free e)" if "rd_user_data d0 = Some b" for b
    using that ok d0 eff(3) by (auto simp: identities_ok_def new_data_def split: option.splits)
  let ?d = "d0\<lparr>rd_user_data := Some a, rd_user_free_callback := Some (ie_free e)\<rparr>"
  let ?r = "margo_rpc_data_free d0 r"
  have s': "s' = \<lparr>reg = ?r\<lparr>hg_rpc_data := (hg_rpc_data r)(?id \<mapsto> ?d)\<rparr>, strings = release_strings (ie_free e) r ?r ((strings s)(a \<mapsto> str))\<rparr>"
    using r reg nz eff(1) d0 dup by (simp add: margo_provider_register_identity_def margo_register_data_def release_strings_def)
  have frees: "data_frees ?r = data_frees r @ (case margo_registered_data ?id (reg s) of Some b \<Rightarrow> [(ie_free e, b)] | None \<Rightarrow> [])"
    using free old by (auto simp: data_free_frees split: option.splits)
  show thesis
  proof (rule that [of ?d])
    show "hg_rpc_data (reg s') = (hg_rpc_data (reg s))(?id \<mapsto> ?d)" using s' eff(3) by (simp split: option.splits)
    show "strings s' = (strings s)(a \<mapsto> str) |` (- set_option (margo_registered_data ?id (reg s)))"
      using s' frees by (simp add: release_strings_def split: option.splits)
    show "data_frees (reg s') = data_frees (reg s) @ (case margo_registered_data ?id (reg s) of Some b \<Rightarrow> [(ie_free e, b)] | None \<Rightarrow> [])"
      using s' frees provider_register_frame(1) [OF reg] by simp
  qed (use s' eff provider_register_frame(2) [OF reg] in auto)
qed

lemma register_identity_refines:
  assumes ok: "identities_ok e s" and dup: "ie_strdup e = Some a" "strings s a = None"
    and r: "margo_provider_register_identity e p (Some str) s = (s', HG_SUCCESS)"
  shows "identities_ok e s'" "identities e s' = (identities e s)(p \<mapsto> str)"
proof -
  obtain d where d: "hg_rpc_data (reg s') = (hg_rpc_data (reg s))(identity_id e p \<mapsto> d)" "rd_user_data d = Some a"
    "rd_user_free_callback d = Some (ie_free e)" "identity_id e p \<in> hg_registered (reg s')"
    "hg_registered (reg s) \<subseteq> hg_registered (reg s')"
    "strings s' = (strings s)(a \<mapsto> str) |` (- set_option (margo_registered_data (identity_id e p) (reg s)))"
    by (rule register_identity_effect [OF assms])
  have id: "identity_id e q = identity_id e p \<longleftrightarrow> q = p" for q using gen_id_provider_inj by blast
  have data: "margo_registered_data (identity_id e q) (reg s') = (if q = p then Some a else margo_registered_data (identity_id e q) (reg s))" for q
    using d(1,2) id by (simp add: margo_registered_data_def)
  note live = identities_ok_live [OF ok]
  have keep: "strings s' b = strings s b" if "margo_registered_data (identity_id e q) (reg s) = Some b" "q \<noteq> p" for q b
    using live [OF that(1)] that dup(2) d(6) ok by (auto simp: identities_ok_def restrict_map_def)
  have new: "strings s' a = Some str" using d(6) dup(2) live [of p a] by (auto simp: restrict_map_def)
  have apart: "margo_registered_data (identity_id e q) (reg s) \<noteq> Some a" for q using live [of q a] dup(2) by auto
  show "identities_ok e s'"
    unfolding identities_ok_def
  proof (intro conjI allI impI)
    fix q d' b assume q: "hg_rpc_data (reg s') (identity_id e q) = Some d'" "rd_user_data d' = Some b"
    then have b: "margo_registered_data (identity_id e q) (reg s') = Some b" by (simp add: margo_registered_data_def)
    show "rd_user_free_callback d' = Some (ie_free e)" using q d(1,3) id ok by (auto simp: identities_ok_def split: if_splits)
    show "b \<in> dom (strings s')" using b data new keep live by (cases "q = p") fastforce+
  next
    fix q q' b assume "margo_registered_data (identity_id e q) (reg s') = Some b" "margo_registered_data (identity_id e q') (reg s') = Some b"
    then show "q = q'" using data apart ok by (auto simp: identities_ok_def split: if_splits)
  next
    fix q assume "hg_rpc_data (reg s') (identity_id e q) \<noteq> None"
    then show "identity_id e q \<in> hg_registered (reg s')" using d(1,4,5) id ok by (auto simp: identities_ok_def split: if_splits)
  qed
  show "identities e s' = (identities e s)(p \<mapsto> str)"
  proof
    fix q
    show "identities e s' q = ((identities e s)(p \<mapsto> str)) q"
      using data new keep by (cases "margo_registered_data (identity_id e q) (reg s)") (auto simp: identities_def)
  qed
qed

lemma deregister_identity_refines:
  assumes ok: "identities_ok e s" and r: "margo_provider_deregister_identity e HG_SUCCESS HG_SUCCESS p s = (s', ret)"
  shows "identities_ok e s'" "identities e s' = (identities e s)(p := None)"
    and "ret = (if identity_id e p \<in> hg_registered (reg s) then HG_SUCCESS else HG_NOENTRY)"
proof -
  let ?id = "identity_id e p"
  show ret: "ret = (if ?id \<in> hg_registered (reg s) then HG_SUCCESS else HG_NOENTRY)"
    using r by (auto simp: margo_provider_deregister_identity_def margo_provider_registered_name_def Let_def split: if_splits)
  have id: "identity_id e q = ?id \<longleftrightarrow> q = p" for q using gen_id_provider_inj by blast
  have "identities_ok e s' \<and> identities e s' = (identities e s)(p := None)"
  proof (cases "?id \<in> hg_registered (reg s)")
    case False
    then have "margo_registered_data ?id (reg s) = None" using ok by (auto simp: identities_ok_def margo_registered_data_def split: option.splits)
    then have "identities e s p = None" by (simp add: identities_def)
    moreover have "s' = s"
      using r False by (auto simp: margo_provider_deregister_identity_def margo_provider_registered_name_def Let_def split: if_splits)
    ultimately show ?thesis using ok by auto
  next
    case True
    define t where "t = fst (margo_deregister HG_SUCCESS ?id (reg s))"
    have s': "s' = \<lparr>reg = t, strings = release_strings (ie_free e) (reg s) t (strings s)\<rparr>"
      using r True by (simp add: margo_provider_deregister_identity_def margo_provider_registered_name_def t_def Let_def)
    have t: "hg_rpc_data t = (hg_rpc_data (reg s))(?id := None)" "hg_registered t = hg_registered (reg s) - {?id}"
      using deregister_effect [of ?id "reg s" t] by (cases "margo_deregister HG_SUCCESS ?id (reg s)"; auto simp: t_def)+
    have "data_frees t = data_frees (reg s) @ (case margo_registered_data ?id (reg s) of Some b \<Rightarrow> [(ie_free e, b)] | None \<Rightarrow> [])"
      using ok by (auto simp: t_def margo_deregister_def identities_ok_def margo_registered_data_def data_free_frees Let_def split: option.splits)
    then have strs: "strings s' = strings s |` (- set_option (margo_registered_data ?id (reg s)))"
      using s' by (simp add: release_strings_def split: option.splits)
    have data: "margo_registered_data (identity_id e q) (reg s') = (if q = p then None else margo_registered_data (identity_id e q) (reg s))" for q
      using s' t(1) id by (simp add: margo_registered_data_def)
    have keep: "strings s' b = strings s b" if "margo_registered_data (identity_id e q) (reg s) = Some b" "q \<noteq> p" for q b
      using that strs ok by (auto simp: identities_ok_def restrict_map_def)
    note live = identities_ok_live [OF ok]
    have "identities_ok e s'"
      unfolding identities_ok_def
    proof (intro conjI allI impI)
      fix q d' b assume q: "hg_rpc_data (reg s') (identity_id e q) = Some d'" "rd_user_data d' = Some b"
      then have b: "margo_registered_data (identity_id e q) (reg s') = Some b" by (simp add: margo_registered_data_def)
      show "rd_user_free_callback d' = Some (ie_free e)" using q s' t(1) id ok by (auto simp: identities_ok_def split: if_splits)
      show "b \<in> dom (strings s')" using b data [of q] keep [of q b] live [of q b] by (auto simp: dom_def split: if_splits)
    next
      fix q q' b assume "margo_registered_data (identity_id e q) (reg s') = Some b" "margo_registered_data (identity_id e q') (reg s') = Some b"
      then show "q = q'" using data ok by (auto simp: identities_ok_def split: if_splits)
    next
      fix q assume "hg_rpc_data (reg s') (identity_id e q) \<noteq> None"
      then show "identity_id e q \<in> hg_registered (reg s')" using s' t id ok by (auto simp: identities_ok_def split: if_splits)
    qed
    moreover have "identities e s' q = ((identities e s)(p := None)) q" for q
      using data [of q] keep [of q] by (cases "margo_registered_data (identity_id e q) (reg s)") (auto simp: identities_def)
    ultimately show ?thesis by blast
  qed
  then show "identities_ok e s'" "identities e s' = (identities e s)(p := None)" by blast+
qed

lemma get_identity_reads:
  assumes "identities_ok e s"
  shows "get_identity (Some (identity_id e p)) s = Some (identities e s p)"
  using identities_ok_live [OF assms, of p]
  by (cases "margo_registered_data (identity_id e p) (reg s)") (auto simp: get_identity_def identities_def split: option.split)

lemma register_identity_fails:
  assumes ok: "identities_ok e s" and r: "margo_provider_register_identity e p identity s = (s', ret)" "ret \<noteq> HG_SUCCESS"
  shows "identities_ok e s'" "identities e s' = identities e s"
proof -
  have "strings s' = strings s \<and> hg_registered (reg s) \<subseteq> hg_registered (reg s')
    \<and> (hg_rpc_data (reg s') = hg_rpc_data (reg s)
       \<or> (\<exists>i d. hg_rpc_data (reg s) i = None \<and> rd_user_data d = None \<and> hg_rpc_data (reg s') = (hg_rpc_data (reg s))(i \<mapsto> d) \<and> i \<in> hg_registered (reg s')))"
  proof (cases identity)
    case None
    then show ?thesis using r by (simp add: margo_provider_register_identity_def)
  next
    case (Some str)
    obtain q rpc_id where reg: "margo_provider_register_name (ie_hg_2_3 e) (ie_node e) (ie_null_handler e) (ie_register e) (ie_mid e) ''__identity__'' None
        (Some (ie_out_cb e)) (Some (ie_handler e)) p None (reg s) = (q, rpc_id)" by fastforce
    then have z: "rpc_id = 0" "s' = s\<lparr>reg := q\<rparr>"
      using r Some by (auto simp: margo_provider_register_identity_def Let_def split: if_splits)
    define d where "d = new_data (ie_mid e) (Some ''__identity__'') None (Some (ie_out_cb e)) (eff_pool None (reg s))"
    have d: "rd_user_data d = None" by (simp add: d_def new_data_def)
    have "hg_rpc_data q = hg_rpc_data (reg s)
      \<or> hg_rpc_data (reg s) (identity_id e p) = None \<and> hg_rpc_data q = (hg_rpc_data (reg s))(identity_id e p \<mapsto> d) \<and> identity_id e p \<in> hg_registered q"
      using provider_register_effect [OF reg] by (cases "hg_rpc_data (reg s) (identity_id e p)") (auto simp: d_def)
    then show ?thesis using provider_register_frame(2) [OF reg] z(2) d by simp blast
  qed
  then consider (same) "strings s' = strings s" "hg_registered (reg s) \<subseteq> hg_registered (reg s')" "hg_rpc_data (reg s') = hg_rpc_data (reg s)"
    | (new) i d where "strings s' = strings s" "hg_registered (reg s) \<subseteq> hg_registered (reg s')" "hg_rpc_data (reg s) i = None" "rd_user_data d = None"
      "hg_rpc_data (reg s') = (hg_rpc_data (reg s))(i \<mapsto> d)" "i \<in> hg_registered (reg s')"
    by blast
  then have "identities_ok e s' \<and> identities e s' = identities e s"
  proof cases
    case same
    then have "identities e s' = identities e s" by (intro ext) (simp add: identities_def margo_registered_data_def)
    moreover have "identities_ok e s'" using ok same unfolding identities_ok_def margo_registered_data_def by (simp add: subset_iff)
    ultimately show ?thesis by blast
  next
    case new
    have d: "margo_registered_data k (reg s') = margo_registered_data k (reg s)" for k using new by (simp add: margo_registered_data_def)
    then have "identities e s' = identities e s" using new(1) by (intro ext) (simp add: identities_def)
    moreover have "identities_ok e s'" using ok new unfolding identities_ok_def d by (simp add: subset_iff)
    ultimately show ?thesis by blast
  qed
  then show "identities_ok e s'" "identities e s' = identities e s" by simp_all
qed

lemma identity_operations:
  assumes ok: "identities_ok e s" and dup: "ie_strdup e = Some a" "strings s a = None"
  shows "margo_provider_register_identity e p identity s = (s1, ret) \<Longrightarrow> identities_ok e s1
      \<and> identities e s1 = (if ret = HG_SUCCESS then (identities e s)(p := identity) else identities e s) \<and> (ret = HG_SUCCESS \<longrightarrow> identity \<noteq> None)"
    and "margo_provider_deregister_identity e HG_SUCCESS HG_SUCCESS p s = (s2, ret) \<Longrightarrow> identities_ok e s2
      \<and> identities e s2 = (identities e s)(p := None) \<and> ret = (if identity_id e p \<in> hg_registered (reg s) then HG_SUCCESS else HG_NOENTRY)"
    and "get_identity (Some (mux_id (identity_id e MARGO_DEFAULT_PROVIDER_ID) p)) s = Some (identities e s p)"
proof -
  assume r: "margo_provider_register_identity e p identity s = (s1, ret)"
  have n: "identity \<noteq> None" if "ret = HG_SUCCESS" using r that by (cases identity) (auto simp: margo_provider_register_identity_def)
  show "identities_ok e s1 \<and> identities e s1 = (if ret = HG_SUCCESS then (identities e s)(p := identity) else identities e s)
      \<and> (ret = HG_SUCCESS \<longrightarrow> identity \<noteq> None)"
  proof (cases "ret = HG_SUCCESS")
    case True
    then obtain str where "identity = Some str" using n by auto
    then show ?thesis using register_identity_refines [OF ok dup, of p str s1] r True by auto
  next
    case False
    then show ?thesis using register_identity_fails [OF ok r] by simp
  qed
next
  assume "margo_provider_deregister_identity e HG_SUCCESS HG_SUCCESS p s = (s2, ret)"
  from deregister_identity_refines [OF ok this] show "identities_ok e s2 \<and> identities e s2 = (identities e s)(p := None)
      \<and> ret = (if identity_id e p \<in> hg_registered (reg s) then HG_SUCCESS else HG_NOENTRY)" by blast
next
  show "get_identity (Some (mux_id (identity_id e MARGO_DEFAULT_PROVIDER_ID) p)) s = Some (identities e s p)"
    unfolding mux_id_gen_id by (rule get_identity_reads [OF ok])
qed


definition example_identity_env :: identity_env where
  "example_identity_env = \<lparr>ie_hg_2_3 = True, ie_node = True, ie_null_handler = 1,
     ie_register = \<lparr>re_register = HG_SUCCESS, re_malloc = True, re_register_data = HG_SUCCESS\<rparr>, ie_mid = Some 2, ie_out_cb = 3, ie_handler = 4,
     ie_strdup = Some 5, ie_free = 6\<rparr>"

definition example_identities :: identity_state where
  "example_identities = \<lparr>reg = \<lparr>registered_rpcs = [], num_registered_rpcs = 0, hg_registered = {}, hg_rpc_data = Map.empty, hg_disabled = {},
     hg_handlers = [], data_frees = [], rpc_abt = one_pool\<rparr>, strings = Map.empty\<rparr>"

lemma example_identities_ok: "identities_ok example_identity_env example_identities" "identities example_identity_env example_identities = Map.empty"
  by (auto simp: identities_ok_def identities_def example_identities_def margo_registered_data_def)

lemma example_registered: "snd (margo_provider_register_identity example_identity_env 7 (Some ''yokan'') example_identities) = HG_SUCCESS"
proof -
  have "bit (gen_id True ''__identity__'' 7) 0" using bit_gen_id_low [of 0 True "''__identity__''" 7] by simp
  then have "gen_id True ''__identity__'' 7 \<noteq> 0" by (metis bit_0_eq bot_apply bot_bool_def)
  then show ?thesis
    by (cases "find_pool_by_handle one_pool (rpc_pool one_pool)")
      (simp_all add: margo_provider_register_identity_def margo_provider_register_name_def margo_register_internal_def find_pool_call
        example_identities_def example_identity_env_def Let_def)
qed


text \<open>
  Deregistering the identity of the default provider reports success although none is registered, and removes the RPC that the instance itself
  uses to ask for identities: it has that id.
\<close>

lemma deregister_default_identity:
  assumes "identity_id e MARGO_DEFAULT_PROVIDER_ID \<in> hg_registered (reg s)"
    "margo_provider_deregister_identity e HG_SUCCESS HG_SUCCESS MARGO_DEFAULT_PROVIDER_ID s = (s', ret)"
  shows "ret = HG_SUCCESS \<and> identity_id e MARGO_DEFAULT_PROVIDER_ID \<notin> hg_registered (reg s')"
  using assms by (auto simp: margo_provider_deregister_identity_def margo_provider_registered_name_def margo_deregister_def Let_def)

section \<open>From the provider to the client\<close>

text \<open>The text that a buffer holds.\<close>

definition c_string :: "char list \<Rightarrow> string" where
  "c_string buffer = takeWhile (\<lambda>c. c \<noteq> NUL) buffer"

lemma strcpy_c_string:
  assumes "strcpy buffer str = Some buffer'" "NUL \<notin> set str"
  shows "c_string buffer' = str" "length buffer' = length buffer"
proof -
  have b: "buffer' = str @ NUL # drop (length str + 1) buffer" "length str < length buffer"
    using assms(1) by (auto simp: strcpy_def split: if_splits)
  show "c_string buffer' = str" unfolding b(1) c_string_def using assms(2) by (subst takeWhile_append2) auto
  show "length buffer' = length buffer" using b by simp
qed

text \<open>
  C36: an identity arrives at the client. The client asks under the id that it computes from its own identity RPC and the id
  of the provider; the handler reads the identity that was registered for that provider; serialization carries it over. If the
  buffer is large enough it then holds the identity and the size that is used is stored; otherwise the buffer holds the empty text (if
  it has a byte), the size that is needed is stored and reported as \<^const>\<open>HG_NOMEM\<close>, and the call succeeds with a buffer of that size.
  Nothing is written outside of the buffer, and the handle is destroyed in every case.
\<close>

theorem identity_roundtrip:
  assumes ok: "identities_ok e s" and str: "identities e s p = Some str" "NUL \<notin> set str" "length str < 2 ^ 64 - 1"
    and out: "get_identity (Some (mux_id (identity_id e MARGO_DEFAULT_PROVIDER_ID) p)) s = Some out"
    and sent: "margo_respond_proc memcpy (HG_ENCODE []) (respond_args (Some cb) out HG_SUCCESS) = (HG_ENCODE msg, sargs, hret)"
    and m: "codes memcpy hdr HG_SUCCESS" and u: "codes cb rep (Some str)" and get: "reads (margo_respond_proc memcpy) msg get"
    and n: "unat n \<le> length buf"
  shows "\<exists>buf' ret. margo_provider_get_identity HG_SUCCESS (read_response_header get (HG_SUCCESS, False) None) get free (Some (Some cb)) (Some buf) (Some n)
      = Some (Some buf', Some (of_nat (length str) + 1), ret, True) \<and> length buf' = length buf
    \<and> (if length str < unat n then ret = HG_SUCCESS \<and> c_string buf' = str else ret = HG_NOMEM \<and> (n \<noteq> 0 \<longrightarrow> c_string buf' = []))"
proof -
  have o: "out = Some str" using out str(1) get_identity_reads [OF ok, of p] by (simp add: mux_id_gen_id)
  have msg: "msg = hdr @ rep" using sent o respond_encode [OF m u, of "[]"] by simp
  have g: "get (respond_args (Some cb) None HG_SUCCESS) = (respond_args (Some cb) (Some str) HG_SUCCESS, HG_SUCCESS)"
    "get (respond_args None None HG_SUCCESS) = (respond_args None None HG_SUCCESS, HG_SUCCESS)"
    using get msg codesD(2) [OF u, of "[]"] by (simp_all add: reads_def respond_decode [OF m] respond_decode [OF m, of rep, simplified])
  have f: "read_response_header get (HG_SUCCESS, False) None = HG_SUCCESS"
    using g(2) by (simp add: read_response_header_def check_error_in_output_def respond_args_def)
  have out': "margo_get_output get free (Some (Some cb)) None = (Some str, HG_SUCCESS)"
    using g(1) by (simp add: margo_get_output_def) (simp add: respond_args_def)
  have len: "of_nat (length str) + 1 \<le> n \<longleftrightarrow> length str < unat n"
    using str(3) by (simp add: word_le_nat_alt unat_word_ariths unat_of_nat) linarith
  show ?thesis
  proof (cases "length str < unat n")
    case True
    then obtain buf' where b: "strcpy buf str = Some buf'" using n by (simp add: strcpy_def)
    then show ?thesis using True len f out' strcpy_c_string [OF b str(2)] by (simp add: margo_provider_get_identity_def)
  next
    case False
    then show ?thesis
    proof (cases "n = 0")
      case True
      then show ?thesis using False len f out' by (simp add: margo_provider_get_identity_def)
    next
      case n0: False
      then have "0 < length buf" using n by (metis gr0I le_zero_eq unat_eq_zero)
      then obtain buf' where b: "strcpy buf [] = Some buf'" by (simp add: strcpy_def)
      then show ?thesis using False n0 len f out' strcpy_c_string [OF b] by (simp add: margo_provider_get_identity_def)
    qed
  qed
qed

theorem identity_roundtrip_witness:
  "\<exists>get buf'. margo_provider_get_identity HG_SUCCESS (read_response_header get (HG_SUCCESS, False) None) get get
      (Some (Some (example_copy (Some ''yokan'') None))) (Some (replicate 8 NUL)) (Some 8) = Some (Some buf', Some 6, HG_SUCCESS, True)
    \<and> c_string buf' = ''yokan''"
proof -
  let ?e = example_identity_env and ?c = "example_copy (Some ''yokan'') None" and ?m = "example_copy HG_SUCCESS HG_NOENTRY"
  let ?p = "margo_respond_proc ?m :: _ \<Rightarrow> (u8, string option, hg_return) proc_args \<Rightarrow> _"
  obtain s where s: "margo_provider_register_identity ?e 7 (Some ''yokan'') example_identities = (s, HG_SUCCESS)"
    using example_registered by (metis prod.collapse)
  have h: "ie_strdup ?e = Some 5" "strings example_identities 5 = None" by (simp_all add: example_identity_env_def example_identities_def)
  note ok = register_identity_refines [OF example_identities_ok(1) h s]
  have i: "identities ?e s 7 = Some ''yokan''" using ok(2) by simp
  have out: "get_identity (Some (mux_id (identity_id ?e MARGO_DEFAULT_PROVIDER_ID) 7)) s = Some (Some ''yokan'')"
    using get_identity_reads [OF ok(1), of 7] i by (simp add: mux_id_gen_id)
  have m: "codes ?m [0] HG_SUCCESS" using example_copy_codes [of HG_SUCCESS HG_SUCCESS HG_NOENTRY] by simp
  have u: "codes ?c [0] (Some ''yokan'')" using example_copy_codes [of "Some ''yokan''" "Some ''yokan''" None] by simp
  have sent: "?p (HG_ENCODE []) (respond_args (Some ?c) (Some ''yokan'') HG_SUCCESS) =
      (HG_ENCODE [0, 0], respond_args (Some ?c) (Some ''yokan'') HG_SUCCESS, HG_SUCCESS)"
    using respond_encode [OF m u, of "[]"] by simp
  have r: "reads ?p [0, 0] (\<lambda>s. snd (?p (HG_DECODE [0, 0]) s))" by (simp add: reads_def)
  have z: "NUL \<notin> set ''yokan''" "length ''yokan'' < 2 ^ 64 - 1" "unat (8 :: u64) \<le> length (replicate 8 NUL)"
    by (simp_all add: NUL_def char_of_def)
  from identity_roundtrip [OF ok(1) i z(1,2) out sent m u r z(3), of "\<lambda>s. snd (?p (HG_DECODE [0, 0]) s)"] show ?thesis
    by (intro exI [of _ "\<lambda>s. snd (?p (HG_DECODE [0, 0]) s)"]) (auto split: if_splits)
qed

section \<open>Shutting down an instance from another\<close>

text \<open>
  A remote shutdown does what its result says: the instance that is asked starts its finalization exactly if it was enabled for remote
  shutdown, and the caller then gets zero, otherwise \<open>-1\<close>, as it does when any step of the call fails; the handle is destroyed unless it could not be
  created.
\<close>

lemma remote_shutdown_agrees:
  assumes m: "codes memcpy hdr HG_SUCCESS" and u: "codes cb rep (fst (remote_shutdown_ult enabled))"
    and sent: "margo_respond_proc memcpy (HG_ENCODE []) (respond_args (Some cb) (fst (remote_shutdown_ult enabled)) HG_SUCCESS) = (HG_ENCODE msg, sargs, hret)"
    and get: "reads (margo_respond_proc memcpy) msg get"
    and free: "\<And>args. user_args (fst (free args)) = user_args args"
  shows "margo_shutdown_remote_instance HG_SUCCESS (read_response_header get (HG_SUCCESS, False) null) get free (Some (Some cb)) out0 =
      (if snd (remote_shutdown_ult enabled) then 0 else - 1, True)"
proof -
  let ?r = "fst (remote_shutdown_ult enabled)"
  have msg: "msg = hdr @ rep" using sent respond_encode [OF m u, of "[]"] by simp
  have g: "get (respond_args (Some cb) out0 HG_SUCCESS) = (respond_args (Some cb) ?r HG_SUCCESS, HG_SUCCESS)"
    "get (respond_args None null HG_SUCCESS) = (respond_args None null HG_SUCCESS, HG_SUCCESS)"
    using get msg codesD(2) [OF u, of "[]"] by (simp_all add: reads_def respond_decode [OF m] respond_decode [OF m, of rep, simplified])
  have "read_response_header get (HG_SUCCESS, False) null = HG_SUCCESS"
    using g(2) by (simp add: read_response_header_def check_error_in_output_def respond_args_def)
  moreover have "margo_get_output get free (Some (Some cb)) out0 = (?r, HG_SUCCESS)"
    using g(1) by (simp add: margo_get_output_def) (simp add: respond_args_def)
  moreover have "fst (margo_free_output free (Some (Some cb)) ?r) = ?r"
    using free [of "respond_args (Some cb) ?r HG_SUCCESS"] by (simp add: margo_free_output_def case_prod_unfold) (simp add: respond_args_def)
  ultimately show ?thesis by (simp add: margo_shutdown_remote_instance_def) (simp add: remote_shutdown_ult_def)
qed

end
