(* ===== verification/Hg_Shim.thy ===== *)
theory Hg_Shim
  imports Serialization Rpc_Id
begin

text \<open>
  Programs that use Mercury without Margo and talk to instances of Margo (\<^verbatim>\<open>src/margo-hg-shim.c\<close>): the same headers and ids as
  Margo's, without an instance. The calls of Mercury are parameters, as in \<^verbatim>\<open>Serialization\<close>.
\<close>

definition margo_hg_shim_forward_proc ::
  "('b, u64) proc_cb \<Rightarrow> 'b hg_proc \<Rightarrow> ('b, 'a, u64) proc_args \<Rightarrow> 'b hg_proc \<times> ('b, 'a, u64) proc_args \<times> hg_return" where
  "margo_hg_shim_forward_proc memcpy p sargs =
    (case memcpy p (pa_header sargs) of (p, header, hret) \<Rightarrow>
      (let sargs = sargs\<lparr>pa_header := header\<rparr>
       in if hret \<noteq> HG_SUCCESS then (p, sargs, hret)
          else
            (case user_cb sargs of
               None \<Rightarrow> (p, sargs, HG_SUCCESS)
             | Some cb \<Rightarrow> (case cb p (user_args sargs) of (p, a, hret) \<Rightarrow> (p, sargs\<lparr>user_args := a\<rparr>, hret)))))"

definition margo_hg_shim_respond_proc ::
  "('b, hg_return) proc_cb \<Rightarrow> 'b hg_proc \<Rightarrow> ('b, 'a, hg_return) proc_args \<Rightarrow> 'b hg_proc \<times> ('b, 'a, hg_return) proc_args \<times> hg_return" where
  "margo_hg_shim_respond_proc memcpy p sargs =
    (case memcpy p (pa_header sargs) of (p, header, hret) \<Rightarrow>
      (let sargs = sargs\<lparr>pa_header := header\<rparr>
       in if hret \<noteq> HG_SUCCESS then (p, sargs, hret)
          else
            (case user_cb sargs of
               None \<Rightarrow> (p, sargs, HG_SUCCESS)
             | Some cb \<Rightarrow> (case cb p (user_args sargs) of (p, a, hret) \<Rightarrow> (p, sargs\<lparr>user_args := a\<rparr>, hret)))))"

text \<open>\<open>ret\<close> is the result of \<^verbatim>\<open>HG_Register\<close> for the id.\<close>

definition HG_Register_name_for_margo :: "bool \<Rightarrow> (u64 \<Rightarrow> hg_return) \<Rightarrow> string \<Rightarrow> u64" where
  "HG_Register_name_for_margo hg_2_3 HG_Register func_name =
    (let rpc_id = gen_id hg_2_3 func_name MARGO_DEFAULT_PROVIDER_ID
     in if HG_Register rpc_id = HG_SUCCESS then rpc_id else 0)"

text \<open>The functions pass arguments with a zero header to Mercury, and return what it returns.\<close>

definition HG_Forward_to_margo :: "(('b, 'a, u64) proc_args \<Rightarrow> 'r) \<Rightarrow> ('b, 'a) proc_cb option \<Rightarrow> 'a \<Rightarrow> 'r" where
  "HG_Forward_to_margo HG_Forward proc_in in_struct = HG_Forward (forward_args proc_in in_struct 0)"

definition HG_Respond_to_margo :: "(('b, 'a, hg_return) proc_args \<Rightarrow> 'r) \<Rightarrow> ('b, 'a) proc_cb option \<Rightarrow> 'a \<Rightarrow> 'r" where
  "HG_Respond_to_margo HG_Respond proc_out out_struct = HG_Respond (respond_args proc_out out_struct HG_SUCCESS)"

definition HG_Get_input_from_margo ::
  "(('b, 'a, u64) proc_args \<Rightarrow> ('b, 'a, u64) proc_args \<times> hg_return) \<Rightarrow> ('b, 'a) proc_cb option \<Rightarrow> 'a \<Rightarrow> 'a \<times> hg_return" where
  "HG_Get_input_from_margo HG_Get_input proc_in in_struct = (case HG_Get_input (forward_args proc_in in_struct 0) of (args, hret) \<Rightarrow> (user_args args, hret))"

definition HG_Free_input_from_margo ::
  "(('b, 'a, u64) proc_args \<Rightarrow> ('b, 'a, u64) proc_args \<times> hg_return) \<Rightarrow> ('b, 'a) proc_cb option \<Rightarrow> 'a \<Rightarrow> 'a \<times> hg_return" where
  "HG_Free_input_from_margo HG_Free_input proc_in in_struct = (case HG_Free_input (forward_args proc_in in_struct 0) of (args, hret) \<Rightarrow> (user_args args, hret))"

definition HG_Get_output_from_margo ::
  "(('b, 'a, hg_return) proc_args \<Rightarrow> ('b, 'a, hg_return) proc_args \<times> hg_return) \<Rightarrow> ('b, 'a) proc_cb option \<Rightarrow> 'a \<Rightarrow> 'a \<times> hg_return" where
  "HG_Get_output_from_margo HG_Get_output proc_out out_struct =
    (case HG_Get_output (respond_args proc_out out_struct HG_SUCCESS) of (args, hret) \<Rightarrow> (user_args args, hret))"

definition HG_Free_output_from_margo ::
  "(('b, 'a, hg_return) proc_args \<Rightarrow> ('b, 'a, hg_return) proc_args \<times> hg_return) \<Rightarrow> ('b, 'a) proc_cb option \<Rightarrow> 'a \<Rightarrow> 'a \<times> hg_return" where
  "HG_Free_output_from_margo HG_Free_output proc_out out_struct =
    (case HG_Free_output (respond_args proc_out out_struct HG_SUCCESS) of (args, hret) \<Rightarrow> (user_args args, hret))"

section \<open>Interoperation\<close>

lemma shim_forward_proc: "margo_hg_shim_forward_proc = margo_forward_proc"
  by (intro ext) (simp add: margo_hg_shim_forward_proc_def margo_forward_proc_def Let_def split: prod.split option.split)

text \<open>The two callbacks for responses agree as long as the header is a success.\<close>

lemma shim_respond_proc:
  assumes "fst (snd (memcpy p (pa_header sargs))) = HG_SUCCESS"
  shows "margo_hg_shim_respond_proc memcpy p sargs = margo_respond_proc memcpy p sargs"
  using assms by (auto simp: margo_hg_shim_respond_proc_def margo_respond_proc_def Let_def split: prod.split option.split)

lemma forward_read:
  assumes "codes memcpy hdr parent" "codes cb rep x" "reads (margo_forward_proc memcpy) (hdr @ rep) get"
  shows "get (forward_args (Some cb) y k) = (forward_args (Some cb) x parent, HG_SUCCESS)"
  using assms codesD(2) [OF assms(2), of "[]"] by (simp add: reads_def forward_decode [OF assms(1)])

lemma shim_exchanges:
  assumes mu: "codes memcpy hdr parent" "codes memcpy hdr0 0" "codes cb rep x" and mr: "codes memcpy' hdr' HG_SUCCESS"
    and reg: "HG_Register (gen_id v name MARGO_DEFAULT_PROVIDER_ID) = HG_SUCCESS"
  shows "mux_id (HG_Register_name_for_margo v HG_Register name) provider_id = gen_id v name provider_id"
    and "margo_forward_proc memcpy (HG_ENCODE []) (forward_args (Some cb) x parent) = (HG_ENCODE msg, sargs, hret) \<Longrightarrow>
      reads (margo_hg_shim_forward_proc memcpy) msg get \<Longrightarrow> HG_Get_input_from_margo get (Some cb) y = (x, HG_SUCCESS)"
    and "HG_Forward_to_margo (margo_hg_shim_forward_proc memcpy (HG_ENCODE [])) (Some cb) x = (HG_ENCODE msg, sargs, hret) \<Longrightarrow>
      reads (margo_forward_proc memcpy) msg get \<Longrightarrow> margo_get_input get (Some (Some cb)) y = (x, HG_SUCCESS)"
    and "margo_respond_proc memcpy' (HG_ENCODE []) (respond_args (Some cb) x HG_SUCCESS) = (HG_ENCODE msg, rargs, hret) \<Longrightarrow>
      reads (margo_hg_shim_respond_proc memcpy') msg get' \<Longrightarrow> HG_Get_output_from_margo get' (Some cb) y = (x, HG_SUCCESS)"
    and "HG_Respond_to_margo (margo_hg_shim_respond_proc memcpy' (HG_ENCODE [])) (Some cb) x = (HG_ENCODE msg, rargs, hret) \<Longrightarrow>
      reads (margo_respond_proc memcpy') msg get' \<Longrightarrow>
      margo_get_output get' free (Some (Some cb)) y = (x, HG_SUCCESS) \<and> read_response_header get' (HG_SUCCESS, False) y = HG_SUCCESS"
proof -
  show "mux_id (HG_Register_name_for_margo v HG_Register name) provider_id = gen_id v name provider_id"
    using reg by (simp add: HG_Register_name_for_margo_def mux_id_gen_id)
next
  assume a: "margo_forward_proc memcpy (HG_ENCODE []) (forward_args (Some cb) x parent) = (HG_ENCODE msg, sargs, hret)"
    and g: "reads (margo_hg_shim_forward_proc memcpy) msg get"
  have "msg = hdr @ rep" using a forward_encode [OF mu(1,3), of "[]"] by simp
  then have "get (forward_args (Some cb) y 0) = (forward_args (Some cb) x parent, HG_SUCCESS)"
    using forward_read [OF mu(1,3)] g by (simp add: shim_forward_proc)
  then show "HG_Get_input_from_margo get (Some cb) y = (x, HG_SUCCESS)" by (simp add: HG_Get_input_from_margo_def) (simp add: forward_args_def)
next
  assume a: "HG_Forward_to_margo (margo_hg_shim_forward_proc memcpy (HG_ENCODE [])) (Some cb) x = (HG_ENCODE msg, sargs, hret)"
    and g: "reads (margo_forward_proc memcpy) msg get"
  have "msg = hdr0 @ rep" using a forward_encode [OF mu(2,3), of "[]"] by (simp add: shim_forward_proc HG_Forward_to_margo_def)
  then have "get (forward_args (Some cb) y 0) = (forward_args (Some cb) x 0, HG_SUCCESS)"
    using forward_read [OF mu(2,3)] g by simp
  then show "margo_get_input get (Some (Some cb)) y = (x, HG_SUCCESS)" by (simp add: margo_get_input_def) (simp add: forward_args_def)
next
  assume "margo_respond_proc memcpy' (HG_ENCODE []) (respond_args (Some cb) x HG_SUCCESS) = (HG_ENCODE msg, rargs, hret)"
    "reads (margo_hg_shim_respond_proc memcpy') msg get'"
  then have msg: "msg = hdr' @ rep" and get: "get' s = snd (margo_hg_shim_respond_proc memcpy' (HG_DECODE (hdr' @ rep)) s)" for s
    using respond_encode [OF mr mu(3), of "[]"] by (auto simp: reads_def)
  have "margo_hg_shim_respond_proc memcpy' (HG_DECODE (hdr' @ rep)) s = margo_respond_proc memcpy' (HG_DECODE (hdr' @ rep)) s" for s :: "('a, 'b, hg_return) proc_args"
    using codesD(2) [OF mr] by (intro shim_respond_proc) simp
  then show "HG_Get_output_from_margo get' (Some cb) y = (x, HG_SUCCESS)"
    using get codesD(2) [OF mu(3), of "[]"] by (simp add: HG_Get_output_from_margo_def respond_decode [OF mr]) (simp add: respond_args_def)
next
  assume a: "HG_Respond_to_margo (margo_hg_shim_respond_proc memcpy' (HG_ENCODE [])) (Some cb) x = (HG_ENCODE msg, rargs, hret)"
    and g: "reads (margo_respond_proc memcpy') msg get'"
  have "margo_hg_shim_respond_proc memcpy' (HG_ENCODE []) (respond_args (Some cb) x HG_SUCCESS) =
      margo_respond_proc memcpy' (HG_ENCODE []) (respond_args (Some cb) x HG_SUCCESS)"
    using codesD(1) [OF mr] by (intro shim_respond_proc) (simp add: respond_args_def)
  then have msg: "msg = hdr' @ rep" using a respond_encode [OF mr mu(3), of "[]"] by (simp add: HG_Respond_to_margo_def)
  have "get' (respond_args (Some cb) y HG_SUCCESS) = (respond_args (Some cb) x HG_SUCCESS, HG_SUCCESS)"
    "get' (respond_args None y HG_SUCCESS) = (respond_args None y HG_SUCCESS, HG_SUCCESS)"
    using g msg codesD(2) [OF mu(3), of "[]"] by (simp_all add: reads_def respond_decode [OF mr])
  then show "margo_get_output get' free (Some (Some cb)) y = (x, HG_SUCCESS) \<and> read_response_header get' (HG_SUCCESS, False) y = HG_SUCCESS"
    by (simp add: margo_get_output_def read_response_header_def check_error_in_output_def) (simp add: respond_args_def)
qed

text \<open>
  C37: programs without Margo understand instances of Margo and conversely. Both sides compute the same id for a name; an input that one side
  forwards is read by the other, and so is an output that one side responds with, with success reported by the wait of Margo.
\<close>

theorem shim_interoperates:
  assumes "codes memcpy hdr parent" "codes memcpy hdr0 0" "codes cb rep x" "codes memcpy' hdr' HG_SUCCESS"
    "HG_Register (gen_id v name MARGO_DEFAULT_PROVIDER_ID) = HG_SUCCESS"
  shows "mux_id (HG_Register_name_for_margo v HG_Register name) provider_id = gen_id v name provider_id
    \<and> (\<forall>msg sargs hret get y. margo_forward_proc memcpy (HG_ENCODE []) (forward_args (Some cb) x parent) = (HG_ENCODE msg, sargs, hret) \<longrightarrow>
        reads (margo_hg_shim_forward_proc memcpy) msg get \<longrightarrow> HG_Get_input_from_margo get (Some cb) y = (x, HG_SUCCESS))
    \<and> (\<forall>msg sargs hret get y. HG_Forward_to_margo (margo_hg_shim_forward_proc memcpy (HG_ENCODE [])) (Some cb) x = (HG_ENCODE msg, sargs, hret) \<longrightarrow>
        reads (margo_forward_proc memcpy) msg get \<longrightarrow> margo_get_input get (Some (Some cb)) y = (x, HG_SUCCESS))
    \<and> (\<forall>msg rargs hret get y. margo_respond_proc memcpy' (HG_ENCODE []) (respond_args (Some cb) x HG_SUCCESS) = (HG_ENCODE msg, rargs, hret) \<longrightarrow>
        reads (margo_hg_shim_respond_proc memcpy') msg get \<longrightarrow> HG_Get_output_from_margo get (Some cb) y = (x, HG_SUCCESS))
    \<and> (\<forall>msg rargs hret get free y. HG_Respond_to_margo (margo_hg_shim_respond_proc memcpy' (HG_ENCODE [])) (Some cb) x = (HG_ENCODE msg, rargs, hret) \<longrightarrow>
        reads (margo_respond_proc memcpy') msg get \<longrightarrow>
        margo_get_output get free (Some (Some cb)) y = (x, HG_SUCCESS) \<and> read_response_header get (HG_SUCCESS, False) y = HG_SUCCESS)"
proof -
  note x = shim_exchanges [where HG_Register = HG_Register and v = v and name = name, OF assms]
  show ?thesis
    by (intro conjI allI impI) (fact x(1) | erule (1) x(2) | erule (1) x(3) | erule (1) x(4) | erule (1) x(5) [THEN conjunct1] | erule (1) x(5) [THEN conjunct2])+
qed

theorem shim_interoperates_witness:
  "\<exists>get. HG_Get_input_from_margo get (Some (example_copy True False)) True = (False, HG_SUCCESS)"
proof -
  let ?m = "example_copy 0 7 :: (u8, u64) proc_cb" and ?c = "example_copy True False"
  let ?r = "example_copy HG_SUCCESS HG_NOENTRY :: (u8, hg_return) proc_cb"
  have m: "codes ?m [1] 7" "codes ?m [0] 0" using example_copy_codes [of 7 0 "7 :: u64"] example_copy_codes [of 0 0 "7 :: u64"] by simp_all
  have u: "codes ?c [1] False" using example_copy_codes [of False True False] by simp
  have r: "codes ?r [0] HG_SUCCESS" using example_copy_codes [of HG_SUCCESS HG_SUCCESS HG_NOENTRY] by simp
  have s: "margo_forward_proc ?m (HG_ENCODE []) (forward_args (Some ?c) False 7) = (HG_ENCODE [1, 1], forward_args (Some ?c) False 7, HG_SUCCESS)"
    using forward_encode [OF m(1) u, of "[]"] by simp
  have "reads (margo_hg_shim_forward_proc ?m) [1, 1] (\<lambda>s :: (u8, bool, u64) proc_args. snd (margo_hg_shim_forward_proc ?m (HG_DECODE [1, 1]) s))"
    by (simp add: reads_def)
  from shim_interoperates [where HG_Register = "\<lambda>_. HG_SUCCESS" and v = True and name = "''rpc''", OF m u r refl,
      THEN conjunct2, THEN conjunct1, rule_format, OF s this] show ?thesis by blast
qed

text \<open>
  The return code in the header of a response is not looked at: the answer to an RPC that the instance does not know is decoded as if it
  were the output, and what the caller gets depends on its callback alone.
\<close>

lemma shim_ignores_error_code:
  assumes m: "codes memcpy hdr HG_NOENTRY" and cb: "cb (HG_DECODE []) y = (HG_DECODE [], y, HG_SUCCESS)"
    and sent: "margo_respond_proc memcpy (HG_ENCODE []) (respond_args None null HG_NOENTRY) = (HG_ENCODE msg, sargs, hret)"
    and get: "reads (margo_hg_shim_respond_proc memcpy) msg get"
  shows "HG_Get_output_from_margo get (Some cb) y = (y, HG_SUCCESS)"
proof -
  have "msg = hdr" using sent respond_encode_error [OF m, of "[]" null] by simp
  then have "get (respond_args (Some cb) y HG_SUCCESS) = (respond_args (Some cb) y HG_NOENTRY, HG_SUCCESS)"
    using get codesD(2) [OF m, of "[]"] cb by (simp add: reads_def margo_hg_shim_respond_proc_def respond_args_def)
  then show ?thesis by (simp add: HG_Get_output_from_margo_def) (simp add: respond_args_def)
qed

end
