(* ===== verification/Life_Cycle.thy ===== *)
theory Life_Cycle
  imports Init Sanity_Check
begin

text \<open>
  The life of an instance as a whole (\<^verbatim>\<open>src/margo-core.c\<close>): the functions that create one with few arguments, which describe what they want to
  \<^verbatim>\<open>margo_init_ext\<close>, and the end in \<^verbatim>\<open>margo_cleanup\<close>. Initialization followed by the end leaves Mercury, Argobots, the globals and a parent as they were.
\<close>

section \<open>Creation\<close>

text \<open>The text of the configuration in a buffer of 1024 bytes; \<open>parse\<close> is the parser of json-c that \<^verbatim>\<open>margo_init_ext\<close> uses.\<close>

definition init_text :: "bool \<Rightarrow> 32 word \<Rightarrow> string" where
  "init_text use_progress_thread rpc_thread_count = take 1023
    (''{ \"use_progress_thread\" : '' @ (if use_progress_thread then ''true'' else ''false'')
      @ '', \"rpc_thread_count\" : '' @ show_int (sint rpc_thread_count) @ '' }'')"

definition margo_init_opt ::
  "(string \<Rightarrow> json option option) \<Rightarrow> init_env \<Rightarrow> string \<Rightarrow> hg_init_info option \<Rightarrow> bool \<Rightarrow> 32 word \<Rightarrow> init_state \<Rightarrow> (init_state \<times> inst option) option" where
  "margo_init_opt parse e addr_str hg_init_info use_progress_thread rpc_thread_count s =
    (let args = \<lparr>ia_hg = \<lparr>user_protocol = addr_str, user_init_info = hg_init_info, user_class = None, user_context = None\<rparr>,
           ia_progress_pool = None, ia_rpc_pool = None, ia_monitor = False\<rparr>
     in margo_init_ext e args (parse (init_text use_progress_thread rpc_thread_count)) (s\<lparr>is_parent := None\<rparr>))"

definition margo_init ::
  "(string \<Rightarrow> json option option) \<Rightarrow> init_env \<Rightarrow> string \<Rightarrow> bool \<Rightarrow> 32 word \<Rightarrow> init_state \<Rightarrow> (init_state \<times> inst option) option" where
  "margo_init parse e addr_str use_progress_thread rpc_thread_count s =
    (let args = \<lparr>ia_hg = \<lparr>user_protocol = addr_str, user_init_info = None, user_class = None, user_context = None\<rparr>,
           ia_progress_pool = None, ia_rpc_pool = None, ia_monitor = False\<rparr>
     in margo_init_ext e args (parse (init_text use_progress_thread rpc_thread_count)) (s\<lparr>is_parent := None\<rparr>))"

text \<open>\<open>context_class\<close> gives the class of a context. There is no address and no configuration, so the configuration is an empty object.\<close>

definition margo_init_pool ::
  "init_env \<Rightarrow> (ptr \<Rightarrow> ptr) \<Rightarrow> ptr \<Rightarrow> ptr \<Rightarrow> ptr \<Rightarrow> init_state \<Rightarrow> (init_state \<times> inst option) option" where
  "margo_init_pool e context_class progress rpc ctx s =
    (let args = \<lparr>ia_hg = \<lparr>user_protocol = [], user_init_info = None, user_class = context_class ctx, user_context = ctx\<rparr>,
           ia_progress_pool = progress, ia_rpc_pool = rpc, ia_monitor = False\<rparr>
     in margo_init_ext e args (Some (Some (JObject []))) (s\<lparr>is_parent := None\<rparr>))"

section \<open>The end\<close>

text \<open>
  What \<^verbatim>\<open>margo_cleanup\<close> does, in order. The parts of the instance are components of their own; here is when they are released, and what becomes of
  Mercury, Argobots, the globals and the parent. The parent is released like every instance: nothing happens if it has no references, and
  the last reference ends it.
\<close>

datatype cleanup_step =
    Deregister_shutdown_rpc | Deregister_identity_rpc | Destroy_handle_cache | Dump_abt_profiling | Destroy_mercury | Free_registered_rpcs
  | Destroy_request_arena | Destroy_handle_data_arena | Free_timer_list | Free_synchronization | Finalize_monitor | Free_plumber_policies
  | Destroy_argobots | Release_parent | Finalize_parent | Free_instance

definition margo_cleanup :: "(ptr \<Rightarrow> ptr list option) \<Rightarrow> bool \<Rightarrow> inst \<Rightarrow> init_state \<Rightarrow> init_state \<times> cleanup_step list" where
  "margo_cleanup main_pools has_monitor i s =
    (let steps = [Deregister_shutdown_rpc, Deregister_identity_rpc, Destroy_handle_cache] @ (if in_abt_profiling i then [Dump_abt_profiling] else []);
         s = s\<lparr>is_calls := snd (hg_destroy (in_hg i) (is_calls s))\<rparr>;
         steps = steps @ [Destroy_mercury, Free_registered_rpcs, Destroy_request_arena, Destroy_handle_data_arena, Free_timer_list, Free_synchronization]
           @ (if has_monitor then [Finalize_monitor] else []) @ [Free_plumber_policies]
     in case is_parent s of
          None \<Rightarrow>
            (let a = abt_destroy main_pools (in_abt i)
             in (s\<lparr>is_globals := globals_destroy (is_globals s), is_freed := is_freed s @ freed_pools a @ freed_xstreams a\<rparr>,
                 steps @ [Destroy_argobots, Free_instance]))
        | Some (p, n) \<Rightarrow>
            (s\<lparr>is_parent := Some (p, n - 1)\<rparr>, steps @ [Release_parent] @ (if n = 1 then [Finalize_parent] else []) @ [Free_instance]))"

section \<open>What the environment owns\<close>

text \<open>The pools and streams that margo frees: those that it created, but for pools of the primary stream, which Argobots frees.\<close>

definition margo_frees :: "abt_pool \<Rightarrow> bool" where
  "margo_frees p \<longleftrightarrow> p_margo_free_flag p \<and> \<not> p_used_by_primary p \<and> p_pool p \<noteq> None"

definition owned_pools :: "margo_abt \<Rightarrow> ptr list" where
  "owned_pools a = map p_pool (filter margo_frees (pools a))"

definition owned_xstreams :: "margo_abt \<Rightarrow> ptr list" where
  "owned_xstreams a = map x_xstream (filter (\<lambda>x. x_margo_free_flag x \<and> x_xstream x \<noteq> None) (xstreams a))"

lemma map_filter_update:
  "P y = P (xs ! i) \<Longrightarrow> f y = f (xs ! i) \<Longrightarrow> map f (filter P (xs[i := y])) = map f (filter P xs)"
  by (induction xs arbitrary: i) (auto split: nat.split)

lemma count_xstream_keeps:
  "count_xstream f b ps a = (a', r) \<Longrightarrow>
    freed_pools a' = freed_pools a \<and> freed_xstreams a' = freed_xstreams a \<and> (\<not> b \<longrightarrow> owned_pools a' = owned_pools a)"
proof (induction ps arbitrary: a)
  case (Cons q ps)
  show ?case
  proof (cases "find_pool_by_handle a q")
    case (Some i)
    let ?e = "(pools a ! i)\<lparr>p_num_xstreams := f (p_num_xstreams (pools a ! i)), p_used_by_primary := p_used_by_primary (pools a ! i) \<or> b\<rparr>"
    have "owned_pools (a\<lparr>pools := (pools a)[i := ?e]\<rparr>) = owned_pools a" if "\<not> b"
      using that by (simp add: owned_pools_def map_filter_update margo_frees_def)
    then show ?thesis using Cons.prems Cons.IH [of "a\<lparr>pools := (pools a)[i := ?e]\<rparr>"] Some by (simp add: Let_def)
  qed (use Cons.prems in simp)
qed simp

lemma xstream_destroy_keeps:
  assumes "xstream_destroy sched x a = a'"
  shows "freed_pools a' = freed_pools a \<and> owned_pools a' = owned_pools a
    \<and> freed_xstreams a' = freed_xstreams a @ (if x_margo_free_flag x \<and> x_xstream x \<noteq> None then [x_xstream x] else [])"
proof -
  define b where "b = (case sched of None \<Rightarrow> a | Some ps \<Rightarrow> fst (count_xstream (\<lambda>n. n - 1) False ps a))"
  have b: "freed_pools b = freed_pools a \<and> freed_xstreams b = freed_xstreams a \<and> owned_pools b = owned_pools a"
  proof (cases sched)
    case (Some ps)
    then show ?thesis using count_xstream_keeps [of "\<lambda>n. n - 1" False ps a "fst (count_xstream (\<lambda>n. n - 1) False ps a)"] by (simp add: b_def prod_eq_iff)
  qed (simp add: b_def)
  have "a' = (if x_xstream x = None then a
      else if x_margo_free_flag x then b\<lparr>freed_xstreams := freed_xstreams b @ [x_xstream x]\<rparr> else b)"
    unfolding assms [symmetric] xstream_destroy_def b_def Let_def by simp
  then show ?thesis using b by (simp add: owned_pools_def)
qed

lemma destroy_xstreams:
  "a' = foldl (\<lambda>a x. xstream_destroy (main_pools (x_xstream x)) x a) a xs \<Longrightarrow>
    freed_pools a' = freed_pools a \<and> owned_pools a' = owned_pools a
    \<and> freed_xstreams a' = freed_xstreams a @ map x_xstream (filter (\<lambda>x. x_margo_free_flag x \<and> x_xstream x \<noteq> None) xs)"
proof (induction xs arbitrary: a)
  case (Cons x xs)
  then show ?case using xstream_destroy_keeps [OF refl, of "main_pools (x_xstream x)" x a] by simp
qed simp

lemma destroy_pools:
  "a' = foldl (\<lambda>a p. pool_destroy p a) a ps \<Longrightarrow>
    freed_xstreams a' = freed_xstreams a
    \<and> freed_pools a' = freed_pools a @ map p_pool (filter margo_frees ps)"
proof (induction ps arbitrary: a)
  case (Cons p ps)
  then show ?case by (simp add: pool_destroy_def margo_frees_def)
qed simp

lemma abt_destroy_frees:
  "freed_pools (abt_destroy main_pools a) = freed_pools a @ owned_pools a \<and> freed_xstreams (abt_destroy main_pools a) = freed_xstreams a @ owned_xstreams a"
proof -
  define b where "b = foldl (\<lambda>a x. xstream_destroy (main_pools (x_xstream x)) x a) a (xstreams a)"
  show ?thesis
    using destroy_xstreams [OF b_def] destroy_pools [OF refl, of b "pools b"] unfolding owned_pools_def owned_xstreams_def
    by (simp add: abt_destroy_def Let_def flip: b_def)
qed

section \<open>Nothing is freed by a successful initialization\<close>

definition freed :: "margo_abt \<Rightarrow> ptr list \<times> ptr list" where
  "freed a = (freed_pools a, freed_xstreams a)"

lemma freed_simps [simp]:
  "freed (a\<lparr>pools := ps\<rparr>) = freed a" "freed (a\<lparr>xstreams := xs\<rparr>) = freed a" "freed (a\<lparr>pools_cap := n\<rparr>) = freed a"
  "freed (a\<lparr>xstreams_cap := n\<rparr>) = freed a" "freed (a\<lparr>progress_pool_idx := n\<rparr>) = freed a" "freed (a\<lparr>rpc_pool_idx := n\<rparr>) = freed a"
  by (simp_all add: freed_def)

lemma xstream_count_pools_freed: "xstream_count_pools b ps x a = (a', Some y) \<Longrightarrow> freed a' = freed a"
  using count_xstream_keeps [of "\<lambda>n. n + 1" b ps a] by (auto simp: xstream_count_pools_def freed_def split: prod.splits bool.splits)

lemma xstream_init_freed:
  assumes "xstream_init_from_json e j a = Some (a', Some x)"
  shows "freed a' = freed a"
proof (cases "sched_init_from_json (xe_sched_create e) (object_get j ''scheduler'') a")
  case None
  then show ?thesis using assms by (simp add: xstream_init_from_json_def bind_eq_Some_conv)
next
  case (Some r)
  obtain ty abt_pools where "r = (ty, abt_pools)" by fastforce
  then show ?thesis using assms Some xstream_count_pools_freed
    by (simp add: xstream_init_from_json_def bind_eq_Some_conv Let_def split: option.splits if_splits) blast+
qed

lemma init_pools_freed: "init_pools abt2 create js a = Some (a', ok) \<Longrightarrow> freed a' = freed a"
  by (induction abt2 create js a rule: init_pools.induct) (auto simp: bind_eq_Some_conv split: option.splits)

lemma init_xstreams_freed: "init_xstreams xe js a = Some (a', True) \<Longrightarrow> freed a' = freed a"
  by (induction xe js a rule: init_xstreams.induct) (auto simp: bind_eq_Some_conv dest: xstream_init_freed split: option.splits)

lemma xstream_external_freed: "xstream_init_external sched ty (Some name) x a = Some (a', Some y) \<Longrightarrow> freed a' = freed a"
  by (auto simp: xstream_init_external_def freed_def Let_def dest: count_xstream_keeps split: option.splits if_splits prod.splits bool.splits)

lemma add_primary_freed:
  assumes "add_primary e i a = Some (a', True)"
  shows "freed a' = freed a"
proof (cases "ae_initialized e")
  case True
  then show ?thesis using assms
    by (auto simp: add_primary_def bind_eq_Some_conv Let_def dest!: xstream_external_freed split: option.splits)
next
  case False
  then show ?thesis using assms
    by (auto simp: add_primary_def bind_eq_Some_conv Let_def dest!: init_pools_freed init_xstreams_freed simp del: init_pools.simps init_xstreams.simps
        split: option.splits if_splits)
qed

lemma freed_dummy [simp]: "freed dummy_abt = ([], [])"
  by (simp add: freed_def dummy_abt_def)

lemma abt_init_freed: "abt_init_from_json e j = Some (a, True) \<Longrightarrow> freed a = ([], []) \<and> (ae_initialized e \<or> ae_init e)"
  by (auto simp: abt_init_from_json_def bind_eq_Some_conv Let_def dest!: init_pools_freed init_xstreams_freed add_primary_freed
      split: option.splits if_splits prod.splits)

lemma add_streams_freed: "add_streams e i n a = Some (a', True) \<Longrightarrow> freed a' = freed a"
proof (induction n arbitrary: a)
  case (Suc n)
  then obtain b where b: "abt_add_xstream_from_json (ae_abt2 (ie_abt e)) True (ie_realloc e) (ae_xstream (ie_abt e) (length (xstreams a))) (stream_config i) a = Some (b, True)"
      "add_streams e i n b = Some (a', True)"
    by (auto simp: bind_eq_Some_conv split: if_splits)
  from b(1) have "freed b = freed a"
    by (auto simp: abt_add_xstream_from_json_def xstreams_space_def bind_eq_Some_conv dest!: xstream_init_freed split: option.splits if_splits)
  then show ?case using Suc.IH [OF b(2)] by simp
qed simp

lemma add_pool_and_streams_freed: "add_pool_and_streams e n a = Some (a', Some i) \<Longrightarrow> freed a' = freed a"
  by (auto simp: add_pool_and_streams_def abt_add_pool_from_config_def pools_space_def bind_eq_Some_conv Let_def dest!: add_streams_freed
      split: option.splits if_splits)

lemma add_external_freed: "add_external e pool a = Some (a', Some i) \<Longrightarrow> freed a' = freed a"
  by (auto simp: add_external_def abt_add_external_pool_def pools_space_def bind_eq_Some_conv split: option.splits if_splits)

lemma select_freed:
  "select_progress_pool e args config k a = Some (a', Some i) \<Longrightarrow> freed a' = freed a"
  "select_rpc_pool e args config primary k p a = Some (a', Some i) \<Longrightarrow> freed a' = freed a"
  by (auto simp: select_progress_pool_def select_rpc_pool_def Let_def dest!: add_external_freed add_pool_and_streams_freed split: option.splits if_splits)

lemma select_pools_freed: "select_pools e args config a = Some (a', Some idx) \<Longrightarrow> freed a' = freed a"
  by (auto simp: select_pools_def bind_eq_Some_conv Let_def dest!: select_freed split: option.splits if_splits)

section \<open>Round trip\<close>

lemma init_ext_success:
  assumes "margo_init_ext e args json s = Some (s', Some i)"
  shows "is_freed s' = is_freed s \<and> (is_parent s = None \<longleftrightarrow> is_parent s' = None)
    \<and> (case is_parent s of
         None \<Rightarrow> freed (in_abt i) = ([], []) \<and> is_globals s' = fst (globals_init True (is_globals s))
       | Some _ \<Rightarrow> is_globals s' = is_globals s)"
proof -
  have fail: "snd (init_fail e hg a s) = None" for hg a s by (simp add: init_fail_def Let_def)
  obtain config where config: "json = Some config" using assms by (cases json) (auto simp: margo_init_ext_def)
  obtain hg w ok where h: "hg_init_from_json (ie_hg e) (object_get config ''mercury'') (ia_hg args) (new_hg (ie_hg e)) (is_calls s) = (hg, w, ok)"
    by (metis prod_cases3)
  obtain s1 a a2 idx where 1: "init_abt e config (s\<lparr>is_calls := w\<rparr>) = Some (s1, a, True)" "select_pools e args config a = Some (a2, Some idx)"
      "init_instance e args config hg idx a2 (s1\<lparr>is_parent := map_option (\<lambda>(p, n). (a2, n)) (is_parent s1)\<rparr>) = Some (s', Some i)"
    using assms config h by (auto simp: margo_init_ext_def Let_def bind_eq_Some_conv init_fail_def split: if_splits option.splits)
  let ?s2 = "s1\<lparr>is_parent := map_option (\<lambda>(p, n). (a2, n)) (is_parent s1)\<rparr>"
  have 2: "is_freed s' = is_freed s1" "is_globals s' = is_globals s1" "is_parent s' = None \<longleftrightarrow> is_parent s1 = None" "freed (in_abt i) = freed a2"
    using 1(3) by (auto simp: init_instance_def init_fail_def Let_def split: if_splits)
  show ?thesis
  proof (cases "is_parent s")
    case None
    then obtain b where b: "abt_init_from_json ((ie_abt e)\<lparr>ae_initialized := abt_running (is_globals s)\<rparr>) (object_get config ''argobots'') = Some (b, True)"
        "s1 = s\<lparr>is_calls := w, is_globals := fst (globals_init (ae_init (ie_abt e)) (is_globals s))\<rparr>" "a = b"
      using 1(1) by (auto simp: init_abt_def bind_eq_Some_conv Let_def split: if_splits)
    from abt_init_freed [OF b(1)] have "freed a = ([], [])" "abt_running (is_globals s) \<or> ae_init (ie_abt e)" using b(3) by auto
    then show ?thesis using 2 b(2) None select_pools_freed [OF 1(2)] by (auto simp: globals_init_def)
  next
    case (Some p)
    then have "s1 = s\<lparr>is_calls := w\<rparr>" using 1(1) by (auto simp: init_abt_def split: prod.splits)
    then show ?thesis using 2 Some by simp
  qed
qed

text \<open>
  Between calls the count of instances is not negative, Argobots runs while there are instances or margo initialized it, and margo did not
  initialize it while there are none.
\<close>

definition globals_ok :: "abt_globals \<Rightarrow> bool" where
  "globals_ok g \<longleftrightarrow> 0 \<le> g_margo_num_instances g \<and> (g_margo_num_instances g > 0 \<longrightarrow> abt_running g) \<and> (g_margo_abt_init g \<longrightarrow> g_margo_num_instances g > 0)"

lemma globals_init_ok: "globals_ok g \<Longrightarrow> globals_ok (fst (globals_init True g))"
  by (auto simp: globals_ok_def globals_init_def Let_def)

lemma globals_restored: "globals_ok g \<Longrightarrow> globals_destroy (fst (globals_init True g)) = g"
  by (cases g) (auto simp: globals_ok_def globals_init_def globals_destroy_def Let_def)



section \<open>The streams of an instance\<close>

text \<open>The text is shorter than the buffer, for every number of threads.\<close>

lemma length_show_nat: "n < 10 ^ Suc k \<Longrightarrow> length (show_nat n) \<le> Suc k"
proof (induction k arbitrary: n)
  case 0
  then show ?case by (simp add: show_nat.simps)
next
  case (Suc k)
  then have "n div 10 < 10 ^ Suc k" by (simp add: less_mult_imp_div_less)
  from Suc.IH [OF this] show ?case by (subst show_nat.simps) simp
qed

definition init_source :: "bool \<Rightarrow> int \<Rightarrow> string" where
  "init_source use_progress_thread n =
    ''{ \"use_progress_thread\" : '' @ (if use_progress_thread then ''true'' else ''false'') @ '', \"rpc_thread_count\" : '' @ show_int n @ '' }''"

lemma init_text_fits: "init_text b n = init_source b (sint n)"
proof -
  have "sint n < 2 ^ 31" "- (2 ^ 31) \<le> sint n" using sint_less [of n] sint_greater_eq [of n] by simp_all
  then have "nat (sint n) < 10 ^ Suc 9" "nat (- sint n) < 10 ^ Suc 9" by simp_all
  then have "length (show_int (sint n)) \<le> 11"
    using length_show_nat [of "nat (sint n)" 9] length_show_nat [of "nat (- sint n)" 9] unfolding show_int_def by simp
  then show ?thesis by (simp add: init_text_def init_source_def)
qed

text \<open>
  \<^verbatim>\<open>margo_init\<close> gives the streams that it is asked for: the primary one, one for progress, and as many as there are threads for handlers. The pools are as
  documented: a pool of its own for progress or the primary pool, and for handlers the progress pool with a negative number of threads, the primary pool with zero, and a pool of
  their own otherwise.
\<close>

lemma margo_init_streams:
  assumes parse: "\<And>b n. parse (init_source b n) = Some (Some (JObject [(''use_progress_thread'', Some (JBool b)), (''rpc_thread_count'', Some (JInt n))]))"
    and env: "init_env_ok e" and s: "\<not> abt_running (is_globals s)"
  obtains s' i where "margo_init parse e addr_str b n s = Some (s', Some i)"
    "length (xstreams (in_abt i)) = 1 + (if b then 1 else 0) + nat (sint n)"
    "p_name (pools (in_abt i) ! progress_pool_idx (in_abt i)) = Some ''__primary__'' \<longleftrightarrow> \<not> b"
    "if sint n < 0 then rpc_pool_idx (in_abt i) = progress_pool_idx (in_abt i)
     else if sint n = 0 then p_name (pools (in_abt i) ! rpc_pool_idx (in_abt i)) = Some ''__primary__''
     else rpc_pool_idx (in_abt i) \<noteq> progress_pool_idx (in_abt i) \<and> p_name (pools (in_abt i) ! rpc_pool_idx (in_abt i)) \<noteq> Some ''__primary__''"
proof -
  let ?c = "Some (JObject [(''use_progress_thread'', Some (JBool b)), (''rpc_thread_count'', Some (JInt (sint n)))])"
  let ?args = "\<lparr>ia_hg = \<lparr>user_protocol = addr_str, user_init_info = None, user_class = None, user_context = None\<rparr>,
    ia_progress_pool = None, ia_rpc_pool = None, ia_monitor = False\<rparr>"
  have r: "sint n < 2 ^ 31" "- (2 ^ 31) \<le> sint n" using sint_less [of n] sint_greater_eq [of n] by simp_all
  have v: "margo_validate_json (ie_plumber e) False False (he_version (ie_hg e)) ?c"
    by (simp add: margo_validate_json_def hg_validate_json_def abt_validate_json_def plumber_validate_json_def integer_positive_def pool_field_valid_def
        has_optional_def object_get_def)
  have el: "elements (object_get (object_get ?c ''argobots'') ''pools'') = []" "elements (object_get (object_get ?c ''argobots'') ''xstreams'') = []"
    by (simp_all add: elements_def object_get_def)
  have g: "object_get ?c ''progress_pool'' = None" "object_get ?c ''rpc_pool'' = None" "object_get ?c ''use_progress_thread'' = Some (JBool b)"
      "object_get_int_or ?c ''rpc_thread_count'' 0 = sint n"
    using r by (simp_all add: object_get_def object_get_int_or_def get_int_def)
  obtain s' i where i: "margo_init_ext e ?args (Some ?c) (s\<lparr>is_parent := None\<rparr>) = Some (s', Some i)"
    "length (xstreams (in_abt i)) = 0 + 1 + extra_streams ?c"
    "progress_choice ?c 0 (in_abt i) (progress_pool_idx (in_abt i))" "rpc_choice ?c 0 (in_abt i) (progress_pool_idx (in_abt i)) (rpc_pool_idx (in_abt i))"
    using valid_config_init [OF v env, of "s\<lparr>is_parent := None\<rparr>" ?args, OF _ _ _ _ _ refl _ refl] s unfolding el by auto
  show ?thesis
  proof (rule that)
    show "margo_init parse e addr_str b n s = Some (s', Some i)" using i(1) by (simp add: margo_init_def init_text_fits parse)
    show "length (xstreams (in_abt i)) = 1 + (if b then 1 else 0) + nat (sint n)" using i(2) by (simp add: extra_streams_def g)
  qed (use i(3,4) in \<open>auto simp: progress_choice_def rpc_choice_def g Let_def\<close>)
qed

end
