(* ===== verification/Progress_Needed.thy ===== *)
theory Progress_Needed
  imports Margo_Prelude "HOL-Library.Multiset"
begin

text \<open>
  Progress on demand (\<^verbatim>\<open>src/margo-instance.h\<close>, \<^verbatim>\<open>src/margo-core.c\<close>): operations count themselves, and the progress loop sleeps on a condition variable
  while there are none. The steps are those between which other threads can run: the flag is read before the mutex is locked, and the signal is sent after it
  was unlocked. With the flag set at a time without operations no wakeup is lost; other uses of the flag can block the loop forever.
\<close>

unbundle bit_operations_syntax

section \<open>Steps\<close>

text \<open>The progress loop: at the test for the end, about to lock the mutex, asleep, awake but without the mutex, in an iteration, at its end.\<close>

datatype loop_pc = Top | Locking | Asleep | Awake | Iterating | Exited

record needed =
  pn_flag :: bool
  pn_pending :: u64
  pn_shutdown_flag :: bool
  pn_loop :: loop_pc

text \<open>A thread about to lock the mutex to count itself, about to signal, in its operation, about to lock the mutex to count down, or about to signal that the flag was cleared.\<close>

datatype pthread = Incr_Lock | Incr_Signal | In_Op | Decr_Lock | Set_Signal

text \<open>\<^verbatim>\<open>PROGRESS_NEEDED_INCR\<close>: the test of the flag, and the critical section.\<close>

definition incr_read :: "needed \<Rightarrow> pthread" where
  "incr_read s = (if pn_flag s then Incr_Lock else In_Op)"

definition incr_locked :: "needed \<Rightarrow> needed \<times> pthread" where
  "incr_locked s = (let p = pn_pending s + 1 in (s\<lparr>pn_pending := p\<rparr>, if p = 1 then Incr_Signal else In_Op))"

text \<open>The progress loop is the only thread that waits.\<close>

definition cond_signal :: "needed \<Rightarrow> needed" where
  "cond_signal s = (if pn_loop s = Asleep then s\<lparr>pn_loop := Awake\<rparr> else s)"

text \<open>\<^verbatim>\<open>PROGRESS_NEEDED_DECR\<close>\<close>

definition decr_locked :: "needed \<Rightarrow> needed" where
  "decr_locked s = s\<lparr>pn_pending := pn_pending s - 1\<rparr>"

text \<open>\<^verbatim>\<open>WAIT_FOR_PROGRESS_TO_BE_NEEDED\<close> and the loop around it; the loop cannot go on while it is asleep.\<close>

definition loop_step :: "needed \<Rightarrow> needed option" where
  "loop_step s =
    (case pn_loop s of
       Top \<Rightarrow> Some (s\<lparr>pn_loop := (if pn_shutdown_flag s then Exited else if pn_flag s then Locking else Iterating)\<rparr>)
     | Locking \<Rightarrow> Some (s\<lparr>pn_loop := (if pn_pending s = 0 then Asleep else Iterating)\<rparr>)
     | Asleep \<Rightarrow> None
     | Awake \<Rightarrow> Some (s\<lparr>pn_loop := (if \<not> pn_flag s then Iterating else if pn_pending s = 0 then Asleep else Iterating)\<rparr>)
     | Iterating \<Rightarrow> Some (s\<lparr>pn_loop := Top\<rparr>)
     | Exited \<Rightarrow> None)"

text \<open>The result, and whether a signal has to be sent. No instance is \<^const>\<open>None\<close>.\<close>

definition margo_set_progress_when_needed :: "bool \<Rightarrow> needed option \<Rightarrow> int \<times> needed option \<times> bool" where
  "margo_set_progress_when_needed when_needed mid =
    (case mid of None \<Rightarrow> (- 1, None, False) | Some s \<Rightarrow> (0, Some (s\<lparr>pn_flag := when_needed\<rparr>), \<not> when_needed))"

definition new_needed :: needed where
  "new_needed = \<lparr>pn_flag = False, pn_pending = 0, pn_shutdown_flag = False, pn_loop = Top\<rparr>"

text \<open>Operations begin and end at any time; \<^verbatim>\<open>margo_finalize\<close> sets the flag for the end and counts itself like an operation.\<close>

inductive needed_step :: "needed \<times> pthread multiset \<Rightarrow> needed \<times> pthread multiset \<Rightarrow> bool" where
  start: "size T < 2 ^ 64 - 1 \<Longrightarrow> needed_step (s, T) (s, add_mset (incr_read s) T)"
| count: "incr_locked s = (s', t) \<Longrightarrow> needed_step (s, add_mset Incr_Lock T) (s', add_mset t T)"
| signal: "needed_step (s, add_mset Incr_Signal T) (cond_signal s, add_mset In_Op T)"
| finish: "\<not> pn_flag s \<Longrightarrow> needed_step (s, add_mset In_Op T) (s, T)"
| finish_counted: "pn_flag s \<Longrightarrow> needed_step (s, add_mset In_Op T) (s, add_mset Decr_Lock T)"
| count_down: "needed_step (s, add_mset Decr_Lock T) (decr_locked s, T)"
| stop: "size T < 2 ^ 64 - 1 \<Longrightarrow> needed_step (s, T) (s\<lparr>pn_shutdown_flag := True\<rparr>, add_mset (incr_read s) T)"
| loop: "loop_step s = Some s' \<Longrightarrow> needed_step (s, T) (s', T)"
| signal_cleared: "needed_step (s, add_mset Set_Signal T) (cond_signal s, T)"

text \<open>The states of a program that sets the flag only while no operation is in progress, and never clears it.\<close>

inductive needed_reachable :: "needed \<times> pthread multiset \<Rightarrow> bool" where
  new: "needed_reachable (new_needed, {#})"
| enable: "needed_reachable (s, {#}) \<Longrightarrow> margo_set_progress_when_needed True (Some s) = (0, Some s', False) \<Longrightarrow> needed_reachable (s', {#})"
| step: "needed_reachable st \<Longrightarrow> needed_step st st' \<Longrightarrow> needed_reachable st'"

section \<open>No wakeup is lost\<close>

text \<open>
  The count is the number of operations that counted themselves; without the flag nothing was counted and the loop is not asleep. A sleeping loop that is
  needed is about to be signalled, and the loop only ends when it is told to.
\<close>

definition counted :: "pthread multiset \<Rightarrow> nat" where
  "counted T = size (filter_mset (\<lambda>t. t \<noteq> Incr_Lock) T)"

definition needed_inv :: "needed \<times> pthread multiset \<Rightarrow> bool" where
  "needed_inv st \<longleftrightarrow>
    (let (s, T) = st
     in size T < 2 ^ 64 \<and> Set_Signal \<notin># T
      \<and> (if pn_flag s then pn_pending s = of_nat (counted T) else pn_pending s = 0 \<and> set_mset T \<subseteq> {In_Op} \<and> pn_loop s \<in> {Top, Iterating, Exited})
      \<and> (pn_loop s = Exited \<longrightarrow> pn_shutdown_flag s)
      \<and> (pn_loop s = Asleep \<and> pn_pending s \<noteq> 0 \<longrightarrow> Incr_Signal \<in># T))"

lemma counted_add [simp]:
  "counted (add_mset t T) = (if t = Incr_Lock then counted T else Suc (counted T))" "counted {#} = 0"
  by (simp_all add: counted_def)

lemma counted_less: "counted T \<le> size T"
  by (simp add: counted_def size_filter_mset_lesseq)

lemma of_nat_Suc_nonzero: "n < 2 ^ 64 - 1 \<Longrightarrow> 1 + (of_nat n :: u64) \<noteq> 0"
  using word_of_nat_eq_0_iff [of "Suc n", where 'a = 64] by (auto dest: dvd_imp_le)

lemma needed_inv_step: "needed_step st st' \<Longrightarrow> needed_inv st \<Longrightarrow> needed_inv st'"
proof (induction rule: needed_step.induct)
  case (count s s' t T)
  then show ?case by (auto simp: needed_inv_def incr_locked_def Let_def split: if_splits)
next
  case (count_down s T)
  then have "1 + (of_nat (counted T) :: u64) \<noteq> 0" using counted_less [of T] by (intro of_nat_Suc_nonzero) (auto simp: needed_inv_def)
  with count_down show ?case by (auto simp: needed_inv_def decr_locked_def split: if_splits)
next
  case (loop s s' T)
  then show ?case by (auto simp: needed_inv_def loop_step_def split: loop_pc.splits if_splits)
qed (auto simp: needed_inv_def incr_read_def cond_signal_def decr_locked_def Let_def split: if_splits)

lemma needed_reachable_inv: "needed_reachable st \<Longrightarrow> needed_inv st"
proof (induction rule: needed_reachable.induct)
  case (step st st')
  then show ?case using needed_inv_step by blast
qed (auto simp: needed_inv_def new_needed_def margo_set_progress_when_needed_def split: if_splits)

text \<open>The steps of the loop alone.\<close>

definition loop_steps :: "needed \<Rightarrow> needed \<Rightarrow> bool" where
  "loop_steps = (\<lambda>s s'. loop_step s = Some s')\<^sup>*\<^sup>*"

lemma loop_steps_refl: "loop_steps s s"
  by (simp add: loop_steps_def)

lemma loop_steps_step: "loop_step s = Some s' \<Longrightarrow> loop_steps s' s'' \<Longrightarrow> loop_steps s s''"
  by (simp add: loop_steps_def converse_rtranclp_into_rtranclp)

text \<open>A loop that is not asleep, and that an operation or the missing flag keeps awake, reaches its next iteration or its end.\<close>

lemma loop_reaches:
  assumes "pn_loop s \<noteq> Asleep" "pn_loop s = Exited \<longrightarrow> pn_shutdown_flag s" "pn_pending s \<noteq> 0 \<or> \<not> pn_flag s \<and> pn_loop s \<noteq> Locking"
  shows "\<exists>s'. loop_steps s s' \<and> pn_loop s' = (if pn_shutdown_flag s then Exited else Iterating)"
proof -
  have top: "\<exists>s'. loop_steps s s' \<and> pn_loop s' = (if pn_shutdown_flag s then Exited else Iterating)"
    if "pn_loop s = Top" "pn_flag s \<longrightarrow> pn_pending s \<noteq> 0" for s
  proof (cases "pn_shutdown_flag s \<or> \<not> pn_flag s")
    case True
    then show ?thesis using that(1)
      by (intro exI conjI loop_steps_step [OF _ loop_steps_refl]) (auto simp: loop_step_def)
  next
    case False
    then show ?thesis using that
      by (intro exI conjI loop_steps_step [of s, OF _ loop_steps_step [OF _ loop_steps_refl]]) (auto simp: loop_step_def)
  qed
  have iter: "\<exists>s'. loop_steps s s' \<and> pn_loop s' = (if pn_shutdown_flag s then Exited else Iterating)"
    if "pn_loop s = Iterating" "pn_flag s \<longrightarrow> pn_pending s \<noteq> 0" for s
  proof (cases "pn_shutdown_flag s")
    case True
    then show ?thesis using top [of "s\<lparr>pn_loop := Top\<rparr>"] that by (force intro: loop_steps_step simp: loop_step_def)
  next
    case False
    then show ?thesis using that loop_steps_refl by auto
  qed
  consider "pn_loop s = Top" | "pn_loop s = Iterating" | "pn_loop s = Exited" | "pn_loop s \<in> {Locking, Awake}" using assms(1) by (cases "pn_loop s") auto
  then show ?thesis
  proof cases
    case 4
    then have l: "loop_step s = Some (s\<lparr>pn_loop := Iterating\<rparr>)" using assms(3) by (auto simp: loop_step_def)
    obtain s' where "loop_steps (s\<lparr>pn_loop := Iterating\<rparr>) s'" "pn_loop s' = (if pn_shutdown_flag s then Exited else Iterating)"
      using iter [of "s\<lparr>pn_loop := Iterating\<rparr>"] assms(3) by auto
    then show ?thesis using loop_steps_step [OF l] by blast
  qed (use top [of s] iter [of s] loop_steps_refl [of s] assms in \<open>auto split: if_splits\<close>)
qed



section \<open>Other uses of the flag\<close>

text \<open>Steps with calls of \<^verbatim>\<open>margo_set_progress_when_needed\<close> at any time.\<close>

inductive toggle_reachable :: "needed \<times> pthread multiset \<Rightarrow> bool" where
  new: "toggle_reachable (new_needed, {#})"
| set: "toggle_reachable (s, T) \<Longrightarrow> margo_set_progress_when_needed b (Some s) = (0, Some s', sig) \<Longrightarrow>
    toggle_reachable (s', if sig then add_mset Set_Signal T else T)"
| step: "toggle_reachable st \<Longrightarrow> needed_step st st' \<Longrightarrow> toggle_reachable st'"

text \<open>
  The flag is cleared and the signal is sent between the test of the flag and the lock of the mutex: the loop goes to sleep although the flag is not set. Without the flag
  operations do not signal, so nothing but another call of the function wakes it up.
\<close>

lemma asleep_without_flag:
  assumes "needed_step\<^sup>*\<^sup>* (s, T) (s', T')" "pn_loop s = Asleep" "\<not> pn_flag s" "set_mset T \<subseteq> {In_Op}"
  shows "pn_loop s' = Asleep"
proof -
  let ?P = "\<lambda>st. pn_loop (fst st) = Asleep \<and> \<not> pn_flag (fst st) \<and> set_mset (snd st) \<subseteq> {In_Op}"
  have k: "needed_step st st' \<Longrightarrow> ?P st \<Longrightarrow> ?P st'" for st st'
    by (induction rule: needed_step.induct) (auto simp: incr_read_def loop_step_def)
  from assms(1) have "?P (s', T')"
  proof (induction rule: rtranclp_induct)
    case base
    show ?case using assms(2-4) by simp
  next
    case (step y z)
    then show ?case using k by blast
  qed
  then show ?thesis by simp
qed

lemma clearing_the_flag_loses_wakeup:
  "\<exists>s. toggle_reachable (s, {#}) \<and> pn_loop s = Asleep \<and> (\<forall>s' T'. needed_step\<^sup>*\<^sup>* (s, {#}) (s', T') \<longrightarrow> pn_loop s' = Asleep)"
proof -
  let ?s = "\<lambda>f pc. \<lparr>pn_flag = f, pn_pending = 0, pn_shutdown_flag = False, pn_loop = pc\<rparr>"
  have "toggle_reachable (?s True Top, {#})"
    using toggle_reachable.set [OF toggle_reachable.new, of True "?s True Top" False] by (simp add: margo_set_progress_when_needed_def new_needed_def)
  then have "toggle_reachable (?s True Locking, {#})" by (rule toggle_reachable.step) (rule needed_step.loop, simp add: loop_step_def)
  then have "toggle_reachable (?s False Locking, {#Set_Signal#})"
    using toggle_reachable.set [of "?s True Locking" "{#}" False "?s False Locking" True] by (simp add: margo_set_progress_when_needed_def)
  then have "toggle_reachable (?s False Locking, {#})"
    by (rule toggle_reachable.step) (use needed_step.signal_cleared [of "?s False Locking" "{#}"] in \<open>simp add: cond_signal_def\<close>)
  then have "toggle_reachable (?s False Asleep, {#})" by (rule toggle_reachable.step) (rule needed_step.loop, simp add: loop_step_def)
  then show ?thesis using asleep_without_flag [of "?s False Asleep" "{#}"] by (intro exI [of _ "?s False Asleep"]) auto
qed

text \<open>
  The flag is set while an operation that did not count itself is in progress: its end makes the count wrap around, and the next operation brings it back to zero, so the loop
  sleeps during that operation and nobody is going to signal it.
\<close>

lemma setting_the_flag_late_blocks:
  "toggle_reachable (\<lparr>pn_flag = True, pn_pending = 0, pn_shutdown_flag = False, pn_loop = Asleep\<rparr>, {#In_Op#})"
proof -
  let ?s = "\<lambda>f n pc. \<lparr>pn_flag = f, pn_pending = n, pn_shutdown_flag = False, pn_loop = pc\<rparr>"
  have "toggle_reachable (?s False 0 Top, {#In_Op#})"
    using toggle_reachable.step [OF toggle_reachable.new needed_step.start] by (simp add: incr_read_def new_needed_def)
  then have "toggle_reachable (?s True 0 Top, {#In_Op#})"
    using toggle_reachable.set [of "?s False 0 Top" "{#In_Op#}" True "?s True 0 Top" False] by (simp add: margo_set_progress_when_needed_def)
  then have "toggle_reachable (?s True 0 Top, {#Decr_Lock#})" by (rule toggle_reachable.step) (rule needed_step.finish_counted, simp)
  then have "toggle_reachable (?s True (- 1) Top, {#})"
    by (rule toggle_reachable.step) (use needed_step.count_down [of "?s True 0 Top" "{#}"] in \<open>simp add: decr_locked_def\<close>)
  then have "toggle_reachable (?s True (- 1) Top, {#Incr_Lock#})"
    by (rule toggle_reachable.step) (use needed_step.start [of "{#}" "?s True (- 1) Top"] in \<open>simp add: incr_read_def\<close>)
  then have "toggle_reachable (?s True 0 Top, {#In_Op#})" by (rule toggle_reachable.step) (rule needed_step.count, simp add: incr_locked_def)
  then have "toggle_reachable (?s True 0 Locking, {#In_Op#})" by (rule toggle_reachable.step) (rule needed_step.loop, simp add: loop_step_def)
  then show ?thesis by (rule toggle_reachable.step) (rule needed_step.loop, simp add: loop_step_def)
qed

end
