(* ===== verification/Sleep.thy ===== *)
theory Sleep
  imports Timer
begin

text \<open>
  \<^verbatim>\<open>margo_thread_sleep\<close> (\<^verbatim>\<open>src/margo-core.c\<close>): a ULT creates and starts a timer without a pool, waits until the callback of the timer clears a field in its stack frame, and
  destroys the timer. The timer is one of all timers of the instance, which other ULTs and the progress loop use at the same time. The count of operations that need progress is the subject of \<^verbatim>\<open>Progress_Needed\<close>.
\<close>

section \<open>Definitions\<close>

text \<open>
  Up to the wait. The results of the calls are not looked at: a failure to create the timer leaves its pointer uninitialized (\<^const>\<open>None\<close>), and a
  timer that could not be started leaves the ULT asleep.
\<close>

definition thread_sleep_begin :: "real \<Rightarrow> ptr \<Rightarrow> real \<Rightarrow> timers \<Rightarrow> timers option" where
  "thread_sleep_begin now tmp timeout_ms s =
    (let (ret, s) = margo_timer_create_with_pool tmp None s
     in if ret \<noteq> 0 then None
        else do {
          sleep_timer \<leftarrow> tmp;
          (ret, s) \<leftarrow> margo_timer_start now sleep_timer timeout_ms s;
          Some s
        })"

text \<open>The field \<^verbatim>\<open>is_asleep\<close> of the frame, which \<^verbatim>\<open>margo_thread_sleep_cb\<close> clears; \<open>s\<close> is the state at the beginning.\<close>

definition is_asleep :: "addr \<Rightarrow> timers \<Rightarrow> timers \<Rightarrow> bool" where
  "is_asleep sleep_timer s s' \<longleftrightarrow> count_list (calls s') sleep_timer = count_list (calls s) sleep_timer"

text \<open>After the wait.\<close>

definition thread_sleep_end :: "addr \<Rightarrow> timers \<Rightarrow> timers option" where
  "thread_sleep_end sleep_timer s = margo_timer_destroy sleep_timer s"

text \<open>
  What happens meanwhile: other ULTs use other timers, ULTs of timers run, and the progress loop checks the timers, at times up to \<open>b\<close>. The
  instance is not cleaned up.
\<close>

inductive other_step :: "addr \<Rightarrow> real \<Rightarrow> timers \<Rightarrow> timers \<Rightarrow> bool" for t b where
  other_create: "\<not> live s u \<Longrightarrow> margo_timer_create_with_pool (Some u) pl s = (r, s') \<Longrightarrow> other_step t b s s'"
| other_start: "u \<noteq> t \<Longrightarrow> live s u \<Longrightarrow> \<not> destroy_requested s u \<Longrightarrow> margo_timer_start now u ms s = Some (r, s') \<Longrightarrow> other_step t b s s'"
| other_cancel: "u \<noteq> t \<Longrightarrow> live s u \<Longrightarrow> \<not> destroy_requested s u \<Longrightarrow> timer_cancel_begin u s = Some s' \<Longrightarrow> other_step t b s s'"
| other_cancel_end: "u \<noteq> t \<Longrightarrow> timer_cancel_end u s = Some s' \<Longrightarrow> other_step t b s s'"
| other_destroy: "u \<noteq> t \<Longrightarrow> live s u \<Longrightarrow> \<not> destroy_requested s u \<Longrightarrow>
    dl_prev (queue_of s) u = None \<and> dl_next (queue_of s) u = None \<or> timer_pending s u = 0 \<Longrightarrow> margo_timer_destroy u s = Some s' \<Longrightarrow> other_step t b s s'"
| check: "now \<le> b \<Longrightarrow> margo_check_timers now s = Some s' \<Longrightarrow> other_step t b s s'"
| ult: "Ready u \<in># ults s \<Longrightarrow> timer_ult_run u s = Some s' \<Longrightarrow> other_step t b s s'"
| ult_finish: "Finishing \<in># ults s \<Longrightarrow> timer_ult_finish s = Some s' \<Longrightarrow> other_step t b s s'"

section \<open>The timer of a sleeping ULT\<close>

text \<open>The timer is in the list until its callback was called.\<close>

definition sleeps :: "addr \<Rightarrow> real \<Rightarrow> nat \<Rightarrow> addr list \<Rightarrow> timers \<Rightarrow> bool" where
  "sleeps t x n xs s \<longleftrightarrow>
     timer_inv s xs \<and> list_live s \<and> live s t \<and> \<not> canceled s t \<and> \<not> destroy_requested s t \<and> timer_pool s t = None \<and> Ready t \<notin># ults s
   \<and> (if t \<in> set xs then expiration s t = x \<and> count_list (calls s) t = n else count_list (calls s) t = Suc n)"

lemma count_list_distinct: "distinct xs \<Longrightarrow> count_list xs x = (if x \<in> set xs then 1 else 0)"
  by (induction xs) auto

lemma sleeps_check:
  fixes now :: real
  assumes "sleeps t x n xs s"
  defines "ys \<equiv> filter (\<lambda>u. \<not> expiration s u < now) xs"
  shows "\<exists>s'. margo_check_timers now s = Some s' \<and> sleeps t x n ys s' \<and> (t \<in> set ys \<longleftrightarrow> t \<in> set xs \<and> \<not> x < now)"
proof -
  let ?e = "\<lambda>u. expiration s u < now"
  have i: "timer_inv s xs" "list_live s" using assms by (simp_all add: sleeps_def)
  have so: "takeWhile ?e xs = filter ?e xs" "dropWhile ?e xs = ys" "distinct xs"
    using sorted_takeWhile_filter [OF timer_invD(2) [OF i(1)]] tq_distinct [OF timer_invD(1) [OF i(1)]] by (simp_all add: ys_def)
  define f where "f = fired_all (filter ?e xs) s"
  obtain d where c: "check_timers_loop now s = Some (f\<lparr>queue_of := d\<rparr>)" "timer_inv (f\<lparr>queue_of := d\<rparr>) ys"
    using check_timers_loop_fires [OF i(1), of now] unfolding so f_def by blast
  have "count_list (calls f) t = count_list (calls s) t + (if t \<in> set xs \<and> ?e t then 1 else 0)"
    using assms(1) so(3) by (simp add: f_def fired_all_calls count_list_distinct sleeps_def)
  moreover have "Ready t \<notin># ults f" using assms(1) by (auto simp: f_def fired_all_ults sleeps_def)
  ultimately have "sleeps t x n ys (f\<lparr>queue_of := d\<rparr>)"
    using assms(1) c(2) by (auto simp: sleeps_def f_def ys_def split: if_splits)
  moreover have "t \<in> set ys \<longleftrightarrow> t \<in> set xs \<and> \<not> x < now" using assms(1) by (auto simp: ys_def sleeps_def split: if_splits)
  ultimately show ?thesis using c(1) i(2) by (auto simp: margo_check_timers_def)
qed

lemma other_step_sleeps:
  assumes "other_step t b s s'" "sleeps t x n xs s"
  shows "\<exists>ys. sleeps t x n ys s' \<and> (b \<le> x \<and> t \<in> set xs \<longrightarrow> t \<in> set ys) \<and> (t \<notin> set xs \<longrightarrow> t \<notin> set ys)"
  using assms
proof (induction rule: other_step.induct)
  case (other_create s u pl r s')
  then have "timer_inv s' xs" using timer_create_inv by (auto simp: sleeps_def)
  then show ?case using other_create by (intro exI [of _ xs]) (auto simp: sleeps_def margo_timer_create_with_pool_def split: if_splits)
next
  case (other_start u s now ms r s')
  have i: "timer_inv s xs" using other_start.prems by (simp add: sleeps_def)
  obtain s1 where a: "margo_timer_start now u ms s = Some (if u \<in> set xs \<or> canceled s u \<or> list_destroy_requested s then (-1, s) else (0, s1))"
      and s1: "u \<in> set xs \<or> canceled s u \<or> list_destroy_requested s \<or> timer_inv s1 (insert_timer (expiration s1) u xs)"
    using timer_start_inv [OF i other_start.hyps(2), of now ms] other_start.hyps(3) by blast
  have r: "(r, s') = (if u \<in> set xs \<or> canceled s u \<or> list_destroy_requested s then (-1, s) else (0, s1))" using a other_start.hyps(4) by simp
  have f: "s' = s \<or> (\<exists>e d. s' = s\<lparr>expiration := (expiration s)(u := e), queue_of := d\<rparr>)"
    using other_start.hyps(4) unfolding margo_timer_start_def margo_timer_queue_def by (auto simp: Let_def bind_eq_Some_conv split: if_splits)
  show ?case
  proof (cases "u \<in> set xs \<or> canceled s u \<or> list_destroy_requested s")
    case True
    then show ?thesis using r other_start.prems by auto
  next
    case False
    then show ?thesis using s1 r f other_start.prems other_start.hyps(1)
      by (intro exI [of _ "insert_timer (expiration s1) u xs"]) (auto simp: sleeps_def split: if_splits)
  qed
next
  case (other_cancel u s s')
  have "timer_inv s' (remove1 u xs)" using timer_cancel_begin_inv [of s xs u] other_cancel by (auto simp: sleeps_def)
  moreover have "\<exists>d. s' = s\<lparr>canceled := (canceled s)(u := True), queue_of := d\<rparr>"
    using other_cancel.hyps(4) by (auto simp: timer_cancel_begin_def Let_def bind_eq_Some_conv split: if_splits)
  ultimately show ?case using other_cancel.prems other_cancel.hyps(1)
    by (intro exI [of _ "remove1 u xs"]) (auto simp: sleeps_def in_set_remove1)
next
  case (other_cancel_end u s s')
  then have "timer_inv s' xs" using timer_cancel_end_inv by (auto simp: sleeps_def)
  then show ?case using other_cancel_end by (intro exI [of _ xs]) (auto simp: sleeps_def timer_cancel_end_def split: if_splits)
next
  case (other_destroy u s s')
  have i: "timer_inv s xs" using other_destroy.prems by (simp add: sleeps_def)
  have "u \<notin> set xs \<or> timer_pending s u = 0" using other_destroy.hyps(4) tq_linked [OF timer_invD(1) [OF i], of u] by auto
  then have "timer_inv s' xs" using timer_destroy_inv [OF i other_destroy.hyps(2)] other_destroy.hyps(5) by auto
  then show ?case using other_destroy by (intro exI [of _ xs]) (auto simp: sleeps_def margo_timer_destroy_def Let_def split: if_splits)
next
  case (check now s s')
  then show ?case using sleeps_check [OF check.prems, of now] by fastforce
next
  case (ult u s s')
  have i: "timer_inv s xs" "u \<noteq> t" using ult by (auto simp: sleeps_def)
  obtain s1 where s1: "timer_ult_run u s = Some s1" "timer_inv s1 xs" "ults s1 = ults s - {#Ready u#} + {#Finishing#}"
      "calls s1 = calls s @ (if canceled s u then [] else [u])"
    using timer_ult_run_inv [OF i(1) ult.hyps(1)] by blast
  have "list_live s' = list_live s" "live s' t = live s t" "canceled s' = canceled s" "destroy_requested s' = destroy_requested s"
      "timer_pool s' = timer_pool s" "expiration s' = expiration s"
    using ult.hyps(2) i(2) by (auto simp: timer_ult_run_def Let_def split: if_splits)
  moreover have "Ready t \<notin># ults s1" using s1(3) ult.prems by (auto simp: sleeps_def dest: in_diffD)
  ultimately show ?case using s1 i(2) ult by (intro exI [of _ xs]) (auto simp: sleeps_def)
next
  case (ult_finish s s')
  then have "timer_inv s' xs" using timer_ult_finish_inv by (auto simp: sleeps_def)
  then show ?case using ult_finish by (intro exI [of _ xs]) (auto simp: sleeps_def timer_ult_finish_def dest: in_diffD split: if_splits)
qed

lemma other_steps_sleep:
  assumes "(other_step t b)\<^sup>*\<^sup>* s s'" "sleeps t x n xs s"
  shows "\<exists>ys. sleeps t x n ys s' \<and> (b \<le> x \<and> t \<in> set xs \<longrightarrow> t \<in> set ys) \<and> (t \<notin> set xs \<longrightarrow> t \<notin> set ys)"
  using assms
proof (induction rule: rtranclp_induct)
  case base
  then show ?case by blast
next
  case (step y z)
  then obtain ys where ys: "sleeps t x n ys y" "b \<le> x \<and> t \<in> set xs \<longrightarrow> t \<in> set ys" "t \<notin> set xs \<longrightarrow> t \<notin> set ys" by blast
  obtain zs where zs: "sleeps t x n zs z" "b \<le> x \<and> t \<in> set ys \<longrightarrow> t \<in> set zs" "t \<notin> set ys \<longrightarrow> t \<notin> set zs" using other_step_sleeps [OF step(2) ys(1)] by blast
  show ?case using ys zs by blast
qed

section \<open>Sleeping\<close>

lemma sleep_begins:
  assumes "timer_inv s xs" "list_live s" "\<not> live s t" "\<not> list_destroy_requested s"
  shows "\<exists>s1 ys. thread_sleep_begin now (Some t) ms s = Some s1 \<and> sleeps t (now + ms / 1000) (count_list (calls s) t) ys s1 \<and> t \<in> set ys"
proof -
  obtain s0 where c: "margo_timer_create_with_pool (Some t) None s = (0, s0)" "live s0 t" "\<not> canceled s0 t" "\<not> destroy_requested s0 t"
      "timer_pool s0 t = None" "\<not> list_destroy_requested s0" "list_live s0" "calls s0 = calls s" "ults s0 = ults s"
    using assms(2,4) by (simp add: margo_timer_create_with_pool_def)
  have i: "timer_inv s0 xs" using timer_create_inv [OF assms(1,3) c(1)] .
  have t: "t \<notin> set xs" "Ready t \<notin># ults s" using timer_invD(5,6) [OF assms(1)] assms(3) by auto
  obtain s1 where s1: "margo_timer_start now t ms s0 = Some (0, s1)" "timer_inv s1 (insert_timer (expiration s1) t xs)"
      "expiration s1 = (expiration s0)(t := now + ms / 1000)" "ults s1 = ults s0" "calls s1 = calls s0"
    using timer_start_inv [OF i c(2), of now ms] c t by auto
  have "\<exists>e d. s1 = s0\<lparr>expiration := e, queue_of := d\<rparr>"
    using s1(1) unfolding margo_timer_start_def margo_timer_queue_def by (auto simp: Let_def bind_eq_Some_conv split: if_splits)
  then have "sleeps t (now + ms / 1000) (count_list (calls s) t) (insert_timer (expiration s1) t xs) s1"
    using s1(2-5) c t by (auto simp: sleeps_def)
  moreover have "thread_sleep_begin now (Some t) ms s = Some s1" using c(1) s1(1) by (simp add: thread_sleep_begin_def)
  ultimately show ?thesis by (intro exI conjI) auto
qed

text \<open>
  C11: A ULT sleeps as long as it asked for and is woken up once. Whatever other ULTs do with their timers: while the progress loop has checked the timers at
  most at times up to the end of the interval, the ULT is asleep. The first check after it calls the callback; from then on the callback, which writes
  to the stack frame of the ULT, is not called again, and the ULT frees its timer at once.
\<close>

theorem sleep_lasts_and_ends:
  assumes "timer_inv s xs" "list_live s" "\<not> live s t" "\<not> list_destroy_requested s"
    and "thread_sleep_begin now (Some t) ms s = Some s1" "(other_step t b)\<^sup>*\<^sup>* s1 s2" "later > now + ms / 1000"
  shows "(b \<le> now + ms / 1000 \<longrightarrow> is_asleep t s s2)
    \<and> (\<exists>s3. margo_check_timers later s2 = Some s3
        \<and> (\<forall>b' s4. (other_step t b')\<^sup>*\<^sup>* s3 s4 \<longrightarrow>
            \<not> is_asleep t s s4 \<and> count_list (calls s4) t = Suc (count_list (calls s) t)
            \<and> (\<exists>s5. thread_sleep_end t s4 = Some s5 \<and> \<not> live s5 t \<and> Ready t \<notin># ults s5)))"
proof -
  let ?x = "now + ms / 1000" and ?n = "count_list (calls s) t"
  obtain ys where ys: "sleeps t ?x ?n ys s1" "t \<in> set ys" using sleep_begins [OF assms(1-4), of now ms] assms(5) by auto
  obtain zs where zs: "sleeps t ?x ?n zs s2" "b \<le> ?x \<longrightarrow> t \<in> set zs" using other_steps_sleep [OF assms(6) ys(1)] ys(2) by blast
  obtain s3 us where s3: "margo_check_timers later s2 = Some s3" "sleeps t ?x ?n us s3" "t \<notin> set us"
    using sleeps_check [OF zs(1), of later] assms(7) by blast
  have "\<not> is_asleep t s s4 \<and> count_list (calls s4) t = Suc ?n \<and> (\<exists>s5. thread_sleep_end t s4 = Some s5 \<and> \<not> live s5 t \<and> Ready t \<notin># ults s5)"
    if o: "(other_step t b')\<^sup>*\<^sup>* s3 s4" for b' s4
  proof -
    obtain vs where vs: "sleeps t ?x ?n vs s4" "t \<notin> set vs" using other_steps_sleep [OF o s3(2)] s3(3) by blast
    then have i: "timer_inv s4 vs" "live s4 t" "Ready t \<notin># ults s4" by (simp_all add: sleeps_def)
    have "timer_pending s4 t = 0" using timer_invD(3) [OF i(1), of t] i(3) by (simp add: not_in_iff)
    then show ?thesis using timer_destroy_inv [OF i(1,2)] vs i(3) by (auto simp: sleeps_def is_asleep_def thread_sleep_end_def)
  qed
  then show ?thesis using s3(1) zs by (auto simp: sleeps_def is_asleep_def)
qed

theorem sleep_lasts_and_ends_witness:
  "\<exists>s1 s2 s3 s5. thread_sleep_begin 0 (Some 3) 500 example_timers = Some s1 \<and> margo_check_timers (1 / 2) s1 = Some s2 \<and> is_asleep 3 example_timers s2
    \<and> margo_check_timers 1 s2 = Some s3 \<and> \<not> is_asleep 3 example_timers s3 \<and> thread_sleep_end 3 s3 = Some s5 \<and> \<not> live s5 3"
proof -
  let ?s = example_timers
  have i: "timer_inv ?s []" "list_live ?s" "\<not> live ?s 3" "\<not> list_destroy_requested ?s"
    using example_timers_inv by (simp, simp_all add: example_timers_def)
  obtain s1 ys where s1: "thread_sleep_begin 0 (Some 3) 500 ?s = Some s1" "sleeps 3 (0 + 500 / 1000) (count_list (calls ?s) 3) ys s1"
    using sleep_begins [OF i, of 0 500] by blast
  obtain s2 where s2: "margo_check_timers (1 / 2) s1 = Some s2" using sleeps_check [OF s1(2), of "1 / 2"] by blast
  have "other_step 3 (1 / 2) s1 s2" using s2 by (intro other_step.check [of "1 / 2"]) auto
  then have o: "(other_step 3 (1 / 2))\<^sup>*\<^sup>* s1 s2" by blast
  from sleep_lasts_and_ends [OF i s1(1) o, of 1] obtain s3 where s3: "is_asleep 3 ?s s2" "margo_check_timers 1 s2 = Some s3"
      "\<forall>b' s4. (other_step 3 b')\<^sup>*\<^sup>* s3 s4 \<longrightarrow> \<not> is_asleep 3 ?s s4 \<and> count_list (calls s4) 3 = Suc (count_list (calls ?s) 3)
        \<and> (\<exists>s5. thread_sleep_end 3 s4 = Some s5 \<and> \<not> live s5 3 \<and> Ready 3 \<notin># ults s5)"
    by auto
  have "\<not> is_asleep 3 ?s s3" "\<exists>s5. thread_sleep_end 3 s3 = Some s5 \<and> \<not> live s5 3" using s3(3) by blast+
  then show ?thesis using s1(1) s2 s3(1,2) by blast
qed

text \<open>
  While the instance is being cleaned up no timer can be created, so a ULT that starts to sleep then uses an uninitialized pointer.
\<close>

lemma sleep_during_cleanup: "list_destroy_requested s \<Longrightarrow> thread_sleep_begin now tmp ms s = None"
  by (simp add: thread_sleep_begin_def margo_timer_create_with_pool_def)

end
