(* ===== verification/Rpc_Handler.thy ===== *)
theory Rpc_Handler
  imports Shutdown Serialization Rpc_Registry
begin

text \<open>
  The path of an RPC at its target (the macros \<^verbatim>\<open>__MARGO_INTERNAL_RPC_HANDLER_BODY\<close> and
  \<^verbatim>\<open>__MARGO_INTERNAL_RPC_WRAPPER_BODY\<close> of \<^verbatim>\<open>include/margo.h\<close> with their hooks in
  \<^verbatim>\<open>src/margo-core.c\<close>): Mercury calls the handler, which attaches the data of the RPC to the handle, enters
  the count of operations in flight and creates a ULT; the ULT runs the function of the user between two hooks. Every
  error is answered. The theory composes the handles, the shutdown handshake, the registry and the serialization.
\<close>

section \<open>State\<close>

datatype rpc_event =
    Handler_Start addr ptr u64
  | Handler_End addr hg_return
  | Ult_Start addr
  | Ult_End addr

text \<open>
  Besides the instance and the handles: how many references Mercury counts for a handle, the errors that were sent as responses,
  the ULTs that were created with their pools, the id of the RPC that the ULT serves, the calls of monitoring callbacks and
  the number of calls of \<^verbatim>\<open>margo_finalize\<close>.
\<close>

record rpc_state =
  rs_instance :: margo_instance
  rs_cache :: handle_cache
  rs_refs :: "addr \<Rightarrow> int"
  rs_responses :: "(addr \<times> hg_return) list"
  rs_ults :: "(ptr \<times> addr) list"
  rs_current :: u64
  rs_events :: "rpc_event list"
  rs_finalizes :: nat

text \<open>What the calls to Mercury and Argobots return.\<close>

record handler_env =
  he_registered :: "rpc_data option"
  he_arena :: ptr
  he_set_data :: hg_return
  he_disabled :: "hg_return \<times> bool"
  he_handler_pool :: ptr
  he_parent :: "u64 option \<times> hg_return"
  he_thread_create :: int
  he_info :: "u64 option"
  he_key_set :: bool

section \<open>Operations\<close>

text \<open>\<^verbatim>\<open>HG_Destroy\<close> gives a reference back; \<open>margo_destroy\<close> calls it for a reference that is not the last one, and for the last one
  if the handle is not put into the cache.\<close>

definition destroy_handle :: "addr \<Rightarrow> rpc_state \<Rightarrow> rpc_state" where
  "destroy_handle h w =
    (let c = fst (margo_destroy (rs_refs w h) (Some h) (rs_cache w));
         hg_destroy = (rs_refs w h \<noteq> 1 \<or> destroyed c \<noteq> destroyed (rs_cache w))
     in w\<lparr>rs_cache := c, rs_refs := (if hg_destroy then (rs_refs w)(h := rs_refs w h - 1) else rs_refs w)\<rparr>)"

definition margo_ref_incr :: "addr \<Rightarrow> rpc_state \<Rightarrow> rpc_state" where
  "margo_ref_incr h w = w\<lparr>rs_refs := (rs_refs w)(h := rs_refs w h + 1)\<rparr>"

definition respond_with_error :: "handler_env \<Rightarrow> addr \<Rightarrow> hg_return \<Rightarrow> rpc_state \<Rightarrow> rpc_state" where
  "respond_with_error e h code w =
    (case margo_respond_with_error (pa_header :: (ptr, ptr, hg_return) proc_args \<Rightarrow> hg_return) (he_disabled e) None code of
       None \<Rightarrow> w
     | Some hg_ret \<Rightarrow> w\<lparr>rs_responses := rs_responses w @ [(h, hg_ret)]\<rparr>)"

text \<open>The last round of the loop of \<^verbatim>\<open>__margo_internal_incr_pending\<close>, in which no other thread interferes.\<close>

definition internal_incr_pending :: "rpc_state \<Rightarrow> rpc_state \<times> bool" where
  "internal_incr_pending w =
    (let (i, r) = incr_pending_round False (shutdown_state (rs_instance w)) (rs_instance w)
     in (w\<lparr>rs_instance := i\<rparr>, r = Inl True))"

definition pre_handler_hooks :: "handler_env \<Rightarrow> addr \<Rightarrow> ptr \<Rightarrow> rpc_state \<Rightarrow> rpc_state" where
  "pre_handler_hooks e h pool w =
    (let parent_id = (case fst (he_parent e) of None \<Rightarrow> 0 | Some p \<Rightarrow> p)
     in w\<lparr>rs_events := rs_events w @ [Handler_Start h pool parent_id]\<rparr>)"

definition post_handler_hooks :: "addr \<Rightarrow> hg_return \<Rightarrow> rpc_state \<Rightarrow> rpc_state" where
  "post_handler_hooks h hret w = w\<lparr>rs_events := rs_events w @ [Handler_End h hret]\<rparr>"

definition pre_wrapper_hooks :: "handler_env \<Rightarrow> addr \<Rightarrow> rpc_state \<Rightarrow> rpc_state" where
  "pre_wrapper_hooks e h w =
    (case he_info e of
       None \<Rightarrow> w
     | Some i \<Rightarrow>
         (let w = w\<lparr>rs_current := fst (margo_set_current_rpc_id (he_key_set e) i (rs_current w))\<rparr>;
              w = w\<lparr>rs_events := rs_events w @ [Ult_Start h]\<rparr>
          in margo_ref_incr h w))"

definition post_wrapper_hooks :: "addr \<Rightarrow> rpc_state \<Rightarrow> rpc_state" where
  "post_wrapper_hooks h w =
    (let w = w\<lparr>rs_events := rs_events w @ [Ult_End h]\<rparr>;
         w = destroy_handle h w;
         w = w\<lparr>rs_instance := decr_pending (rs_instance w)\<rparr>
     in if finalize_requested (rs_instance w) then w\<lparr>rs_finalizes := rs_finalizes w + 1\<rparr> else w)"

text \<open>The handler that Mercury calls. \<^const>\<open>None\<close> stands for the use of a null pointer that the arena returned.\<close>

definition rpc_handler :: "handler_env \<Rightarrow> addr \<Rightarrow> rpc_state \<Rightarrow> (hg_return \<times> rpc_state) option" where
  "rpc_handler e h w = do {
     (c, hret) \<leftarrow> internal_set_handle_data (he_registered e) (he_arena e) (he_set_data e) h (rs_cache w);
     let w = w\<lparr>rs_cache := c\<rparr>;
     (if hret \<noteq> HG_SUCCESS then Some (hret, destroy_handle h (respond_with_error e h hret w))
      else if margo_hg_handle_get_instance (hg_data c h) = None
      then Some (HG_OTHER_ERROR, destroy_handle h (respond_with_error e h HG_NOENTRY w))
      else
        (case internal_incr_pending w of (w, entered) \<Rightarrow>
           if \<not> entered then Some (HG_CANCELED, destroy_handle h (respond_with_error e h HG_PERMISSION w))
           else
             (let pool = margo_hg_handle_get_handler_pool (he_handler_pool e) (hg_data c h);
                  w = pre_handler_hooks e h pool w;
                  (hret, w) =
                    (if he_thread_create e \<noteq> 0
                     then
                       (let w = destroy_handle h (respond_with_error e h HG_OTHER_ERROR w)
                        in (HG_NOMEM_ERROR, w\<lparr>rs_instance := decr_pending (rs_instance w)\<rparr>))
                     else (hret, w\<lparr>rs_ults := rs_ults w @ [(pool, h)]\<rparr>))
              in Some (hret, post_handler_hooks h hret w))))
   }"

text \<open>The function of the ULT; \<open>f\<close> is the function of the user.\<close>

definition rpc_wrapper :: "handler_env \<Rightarrow> (rpc_state \<Rightarrow> rpc_state) \<Rightarrow> addr \<Rightarrow> rpc_state \<Rightarrow> rpc_state" where
  "rpc_wrapper e f h w =
    (if margo_hg_handle_get_instance (hg_data (rs_cache w) h) = None then destroy_handle h w
     else post_wrapper_hooks h (f (pre_wrapper_hooks e h w)))"

text \<open>The handler of an RPC that was registered without one.\<close>

definition rpc_handler_for_NULL :: "handler_env \<Rightarrow> addr \<Rightarrow> rpc_state \<Rightarrow> hg_return \<times> rpc_state" where
  "rpc_handler_for_NULL e h w = (HG_SUCCESS, destroy_handle h (respond_with_error e h HG_NOENTRY w))"

section \<open>Effects\<close>

lemma respond_with_error_fields [simp]:
  "rs_instance (respond_with_error e h code w) = rs_instance w" "rs_cache (respond_with_error e h code w) = rs_cache w"
  "rs_refs (respond_with_error e h code w) = rs_refs w" "rs_ults (respond_with_error e h code w) = rs_ults w"
  "rs_events (respond_with_error e h code w) = rs_events w" "rs_finalizes (respond_with_error e h code w) = rs_finalizes w"
  "rs_current (respond_with_error e h code w) = rs_current w"
  "rs_responses (respond_with_error e h code w) = rs_responses w @ (if he_disabled e = (HG_SUCCESS, False) then [(h, code)] else [])"
  by (cases "he_disabled e"; auto simp: respond_with_error_def margo_respond_with_error_def respond_args_def split: option.split)+

lemma destroy_handle_fields [simp]:
  "rs_instance (destroy_handle h w) = rs_instance w" "rs_responses (destroy_handle h w) = rs_responses w" "rs_ults (destroy_handle h w) = rs_ults w"
  "rs_events (destroy_handle h w) = rs_events w" "rs_finalizes (destroy_handle h w) = rs_finalizes w" "rs_current (destroy_handle h w) = rs_current w"
  by (simp_all add: destroy_handle_def Let_def)

text \<open>A handle of a remote caller does not come from the cache: its last reference goes back to Mercury.\<close>

definition remote_handle :: "handle_cache \<Rightarrow> addr \<Rightarrow> bool" where
  "remote_handle c h \<longleftrightarrow> (\<exists>d. hg_data c h = Some d \<and> hd_mid d \<noteq> None \<and> hd_cache_el d = None)"

lemma destroy_remote:
  "remote_handle (rs_cache w) h \<Longrightarrow> rs_refs (destroy_handle h w) = (rs_refs w)(h := rs_refs w h - 1)"
  by (auto simp: remote_handle_def destroy_handle_def margo_destroy_def handle_cache_put_def handle_data_free_def Let_def split: option.split)

lemma destroy_more:
  "rs_refs w h \<noteq> 1 \<Longrightarrow> rs_refs (destroy_handle h w) = (rs_refs w)(h := rs_refs w h - 1) \<and> rs_cache (destroy_handle h w) = rs_cache w"
  by (simp add: destroy_handle_def margo_destroy_def Let_def)

lemma incr_pending_effect:
  "internal_incr_pending w =
    (if finalize_requested (rs_instance w) then (w, False)
     else (w\<lparr>rs_instance := (rs_instance w)\<lparr>shutdown_state := shutdown_state (rs_instance w) + 1\<rparr>\<rparr>, True))"
  by (simp add: internal_incr_pending_def incr_pending_round_def finalize_requested_def)

lemma decr_incr [simp]: "decr_pending (i\<lparr>shutdown_state := shutdown_state i + 1\<rparr>) = i"
  by (simp add: decr_pending_def)

text \<open>The data of the RPC that the handler attaches to a handle.\<close>

definition attached :: "rpc_data \<Rightarrow> handle_data" where
  "attached r = zero_handle_data\<lparr>hd_mid := rd_mid r, hd_pool := rd_pool r, hd_rpc_name := rd_rpc_name r, hd_in_proc_cb := rd_in_proc_cb r, hd_out_proc_cb := rd_out_proc_cb r\<rparr>"

lemma set_handle_data_effect:
  assumes "hg_data c h = None" "arena \<noteq> None"
  shows "internal_set_handle_data (Some r) arena HG_SUCCESS h c = Some (c\<lparr>hg_data := (hg_data c)(h := Some (attached r))\<rparr>, HG_SUCCESS)"
  using assms by (auto simp: internal_set_handle_data_def attached_def Let_def)

lemma attached_remote: "rd_mid r \<noteq> None \<Longrightarrow> remote_handle (c\<lparr>hg_data := (hg_data c)(h := Some (attached r))\<rparr>) h"
  by (simp add: remote_handle_def attached_def zero_handle_data_def)

text \<open>A handle that arrives with the only reference, for an RPC that is registered.\<close>

definition arrives :: "handler_env \<Rightarrow> addr \<Rightarrow> rpc_state \<Rightarrow> bool" where
  "arrives e h w \<longleftrightarrow> hg_data (rs_cache w) h = None \<and> rs_refs w h = 1 \<and> (\<exists>r. he_registered e = Some r \<and> rd_mid r \<noteq> None)
    \<and> he_arena e \<noteq> None \<and> he_set_data e = HG_SUCCESS"

text \<open>The error that is sent, unless the RPC has no response.\<close>

definition error_sent :: "handler_env \<Rightarrow> addr \<Rightarrow> hg_return \<Rightarrow> (addr \<times> hg_return) list" where
  "error_sent e h code = (if he_disabled e = (HG_SUCCESS, False) then [(h, code)] else [])"

lemma handler_outcome:
  assumes a: "arrives e h w" "he_registered e = Some r" and pool: "pool = (if rd_pool r = None then he_handler_pool e else rd_pool r)"
  shows "\<exists>hret w'. rpc_handler e h w = Some (hret, w') \<and>
    (if finalize_requested (rs_instance w)
     then hret = HG_CANCELED \<and> rs_instance w' = rs_instance w \<and> rs_refs w' h = 0 \<and> rs_ults w' = rs_ults w
       \<and> rs_responses w' = rs_responses w @ error_sent e h HG_PERMISSION \<and> rs_events w' = rs_events w
     else if he_thread_create e \<noteq> 0
     then hret = HG_NOMEM_ERROR \<and> rs_instance w' = rs_instance w \<and> rs_refs w' h = 0 \<and> rs_ults w' = rs_ults w
       \<and> rs_responses w' = rs_responses w @ error_sent e h HG_OTHER_ERROR
     else hret = HG_SUCCESS \<and> rs_instance w' = (rs_instance w)\<lparr>shutdown_state := shutdown_state (rs_instance w) + 1\<rparr> \<and> rs_refs w' h = 1
       \<and> rs_ults w' = rs_ults w @ [(pool, h)] \<and> rs_responses w' = rs_responses w \<and> remote_handle (rs_cache w') h)"
proof -
  have m: "rd_mid r \<noteq> None" using a by (auto simp: arrives_def)
  define c where "c = (rs_cache w)\<lparr>hg_data := (hg_data (rs_cache w))(h := Some (attached r))\<rparr>"
  have set: "internal_set_handle_data (he_registered e) (he_arena e) (he_set_data e) h (rs_cache w) = Some (c, HG_SUCCESS)"
    using a set_handle_data_effect [of "rs_cache w" h "he_arena e" r] by (auto simp: arrives_def c_def)
  have rem: "remote_handle c h" unfolding c_def by (rule attached_remote [OF m])
  have c: "hg_data c h = Some (attached r)" by (simp add: c_def)
  have mid: "margo_hg_handle_get_instance (hg_data c h) \<noteq> None" using m by (simp add: c margo_hg_handle_get_instance_def attached_def)
  have p: "margo_hg_handle_get_handler_pool (he_handler_pool e) (hg_data c h) = pool"
    using pool by (simp add: c margo_hg_handle_get_handler_pool_def attached_def)
  have refs: "rs_refs w h = 1" using a by (simp add: arrives_def)
  show ?thesis
    using set mid p rem refs
    by (simp add: rpc_handler_def incr_pending_effect destroy_remote pre_handler_hooks_def post_handler_hooks_def error_sent_def Let_def)
qed

text \<open>The function of the user gives back the reference that came with the handle; the hooks hold another one meanwhile.\<close>

definition gives_back :: "(rpc_state \<Rightarrow> rpc_state) \<Rightarrow> addr \<Rightarrow> bool" where
  "gives_back f h \<longleftrightarrow>
    (\<forall>v. remote_handle (rs_cache v) h \<and> rs_refs v h = 2 \<longrightarrow> rs_refs (f v) h = 1 \<and> remote_handle (rs_cache (f v)) h)"

lemma destroy_gives_back: "gives_back (destroy_handle h) h"
  using destroy_more by (auto simp: gives_back_def)

lemma pre_wrapper_fields:
  assumes "he_info e = Some i"
  shows "rs_refs (pre_wrapper_hooks e h w) = (rs_refs w)(h := rs_refs w h + 1)" "rs_cache (pre_wrapper_hooks e h w) = rs_cache w"
    "rs_instance (pre_wrapper_hooks e h w) = rs_instance w" "rs_events (pre_wrapper_hooks e h w) = rs_events w @ [Ult_Start h]"
    "rs_current (pre_wrapper_hooks e h w) = fst (margo_set_current_rpc_id (he_key_set e) i (rs_current w))"
  using assms by (simp_all add: pre_wrapper_hooks_def margo_ref_incr_def Let_def)

lemma wrapper_outcome:
  assumes w: "remote_handle (rs_cache w) h" "rs_refs w h = 1" and f: "gives_back f h" and i: "he_info e = Some i"
  shows "let v = pre_wrapper_hooks e h w; u = f v; w' = rpc_wrapper e f h w
    in rs_refs w' h = 0 \<and> rs_instance w' = decr_pending (rs_instance u) \<and> rs_responses w' = rs_responses u
      \<and> rs_events w' = rs_events u @ [Ult_End h]
      \<and> rs_finalizes w' = rs_finalizes u + (if finalize_requested (rs_instance w') then 1 else 0)"
proof -
  define u where "u = f (pre_wrapper_hooks e h w)"
  have "rs_refs (pre_wrapper_hooks e h w) h = 2" "remote_handle (rs_cache (pre_wrapper_hooks e h w)) h" using w pre_wrapper_fields [OF i] by simp_all
  then have u: "rs_refs u h = 1" "remote_handle (rs_cache u) h" using f by (simp_all add: gives_back_def u_def)
  have mid: "margo_hg_handle_get_instance (hg_data (rs_cache w) h) \<noteq> None" using w(1) by (auto simp: remote_handle_def margo_hg_handle_get_instance_def)
  have "rpc_wrapper e f h w = post_wrapper_hooks h u" using mid by (auto simp: rpc_wrapper_def u_def)
  then show ?thesis using u unfolding u_def [symmetric] Let_def by (simp add: post_wrapper_hooks_def destroy_remote Let_def)
qed

section \<open>Handles that are not given back\<close>

text \<open>
  \<^verbatim>\<open>margo_destroy\<close> returns an error for the last reference of a handle without an instance and does not destroy it. The error path for
  an RPC whose data is not found, and the handler of RPCs that were registered without one, use it on handles that have no data.
\<close>

lemma destroy_without_instance:
  "rs_refs w h = 1 \<Longrightarrow> hg_data (rs_cache w) h = None \<Longrightarrow> destroy_handle h w = w"
  by (simp add: destroy_handle_def margo_destroy_def Let_def)

lemma unregistered_keeps_reference:
  assumes "hg_data (rs_cache w) h = None" "rs_refs w h = 1" "he_registered e = None"
  shows "\<exists>w'. rpc_handler e h w = Some (HG_OTHER_ERROR, w') \<and> rs_refs w' h = 1 \<and> rs_responses w' = rs_responses w @ error_sent e h HG_OTHER_ERROR"
    "rs_refs (snd (rpc_handler_for_NULL e h w)) h = 1"
  using assms by (simp_all add: rpc_handler_def internal_set_handle_data_def rpc_handler_for_NULL_def destroy_without_instance error_sent_def)

section \<open>Properties\<close>


definition sample_rpc_env :: handler_env where
  "sample_rpc_env = \<lparr>he_registered = Some \<lparr>rd_mid = Some 1, rd_pool = Some 9, rd_rpc_name = None, rd_in_proc_cb = None, rd_out_proc_cb = None\<rparr>,
     he_arena = Some 3, he_set_data = HG_SUCCESS, he_disabled = (HG_SUCCESS, False), he_handler_pool = Some 8, he_parent = (Some 5, HG_SUCCESS),
     he_thread_create = 0, he_info = Some 77, he_key_set = True\<rparr>"

definition sample_rpc_state :: "u32 \<Rightarrow> rpc_state" where
  "sample_rpc_state n = \<lparr>rs_instance = \<lparr>shutdown_state = n, hg_progress_tid = PLoop, hg_progress_shutdown_flag = False, pwn_flag = False, pwn_pending = 0, finalize_flag = False,
       finalize_refcount = 0, refcount = 1, calls = 0, teardowns = 0, cleanups = 0\<rparr>,
     rs_cache = \<lparr>free_handle_list = None, el_next = (\<lambda>_. None), el_handle = (\<lambda>_. 0), hg_data = (\<lambda>_. None), hg_reset = (\<lambda>_. HG_SUCCESS), destroyed = [], user_frees = []\<rparr>,
     rs_refs = (\<lambda>_. 1), rs_responses = [], rs_ults = [], rs_current = 0, rs_events = [], rs_finalizes = 0\<rparr>"


end
