(* ===== verification/Spec2Isabelle.thy ===== *)
theory Spec2Isabelle
  imports Rpc_Id Prio_Pool Efirst_Pool Timer Arena Bulk_Pool Handle_Cache Finalize_Callbacks
    Shutdown Progress Requests Config_Api Rpc_Registry Serialization Monitor_Life Uthash Full_Config
    Plumber Sanity_Check Logging Builtin_Rpcs Hg_Shim Life_Cycle Progress_Needed Sleep Rpc_Handler
begin

text \<open>
  \<^bold>\<open>Margo\<close> is a C library that runs Mercury RPCs on Argobots user-level threads (ULTs). An application
  creates an instance, registers RPCs, forwards requests and responds to them; a progress loop drives
  Mercury and expires timers; a shutdown protocol decides when an instance may be torn down. This
  development models the library's own state and code. Mercury, Argobots, json-c and the C allocator
  are parameters: the handles that they return, the results of their calls and the calls that they
  make back are arguments of the definitions, or hypotheses of the theorems that need more.

  \<^bold>\<open>Common conventions.\<close> A pointer is \<open>ptr = addr option\<close> (\<^verbatim>\<open>Margo_Prelude\<close>) with \<^const>\<open>None\<close> for NULL. C structures are
  records; an array of structures that is accessed by pointers is a record of functions from
  addresses, one for each field. A definition that could dereference NULL, read outside an array
  or run forever returns an option and is \<^const>\<open>None\<close> in that case, so theorems that give \<^const>\<open>Some\<close> include
  memory safety and termination. Machine integers are words of their width where the code
  relies on them (counts, sizes, ids, the shutdown word); lengths of arrays are natural numbers. Loops
  are structural recursion or \<^verbatim>\<open>partial_function (option)\<close>, never fuel. Code that runs under
  a mutex or between two scheduling points is one step; interleavings are step relations.

  \<^bold>\<open>The theories\<close>, from the bottom, with the files under \<^verbatim>\<open>src/\<close> that they model:

  \<^item> \<^verbatim>\<open>Margo_Prelude\<close>: types, return codes of Mercury, lemmas about lists, options and words, and the
    collections of rewrite rules that the components share.
  \<^item> \<^verbatim>\<open>Rpc_Id\<close> (\<^verbatim>\<open>src/margo-id.h\<close>, the hash of \<^verbatim>\<open>src/uthash.h\<close>): RPC identifiers; packing and unpacking are
    inverse, and clients and providers compute the same id.
  \<^item> \<^verbatim>\<open>Pointer_Lists\<close> (\<^verbatim>\<open>src/utlist.h\<close>): the list macros on a heap, with their effect on the list that
    the pointers represent.
  \<^item> \<^verbatim>\<open>Pool_Interface\<close>: the contract of a scheduling pool as a locale (what a push and a pop do to the
    contents, which unit is popped); interpreted by the two pools.
  \<^item> \<^verbatim>\<open>Prio_Pool\<close> (\<^verbatim>\<open>src/margo-prio-pool.c\<close>): two circular queues; refinement of two abstract queues, no
    starvation of either.
  \<^item> \<^verbatim>\<open>Efirst_Pool\<close> (\<^verbatim>\<open>src/margo-efirst-pool.c\<close>): a binary heap in an array and a list; the earliest unit is
    popped, and neither part starves.
  \<^item> \<^verbatim>\<open>Timer\<close> (\<^verbatim>\<open>src/margo-timer.c\<close>): the sorted list of timers, their ULTs, cancellation and destruction;
    exactly the expired timers fire, in order, and no freed timer is used.
  \<^item> \<^verbatim>\<open>Resource_Interface\<close>: the contract of an allocator of exclusive resources as a locale; interpreted
    by \<^verbatim>\<open>Arena\<close> (\<^verbatim>\<open>src/mochi-arena.c\<close>), \<^verbatim>\<open>Bulk_Pool\<close> (\<^verbatim>\<open>src/margo-bulk-pool.c\<close>) and \<^verbatim>\<open>Handle_Cache\<close>
    (\<^verbatim>\<open>src/margo-handle-cache.c\<close>, and \<^verbatim>\<open>margo_create\<close> and \<^verbatim>\<open>margo_destroy\<close>): nothing is handed out twice, objects and slices
    do not overlap.
  \<^item> \<^verbatim>\<open>Finalize_Callbacks\<close> (\<^verbatim>\<open>src/margo-core.c\<close>): the two stacks of callbacks; they run last to first, once each.
  \<^item> \<^verbatim>\<open>Shutdown\<close> (\<^verbatim>\<open>src/margo-core.c\<close>, the handler macros of \<^verbatim>\<open>include/margo.h\<close>): the word that counts pending
    operations and flags finalization, as a step relation over any number of handlers, finalizers
    and waiters; teardown excludes operations, a deferred finalization is served, cleanup runs once.
  \<^item> \<^verbatim>\<open>Progress\<close> (\<^verbatim>\<open>src/margo-core.c\<close>): an iteration of the progress loop and its choice of timeout.
  \<^item> \<^verbatim>\<open>Progress_Needed\<close> (\<^verbatim>\<open>src/margo-instance.h\<close>, \<^verbatim>\<open>src/margo-core.c\<close>): progress on demand, with every step between which threads can interleave; no wakeup
    of the loop is lost if the mode is set while no operation is in progress, and other uses of the mode can block it.
  \<^item> \<^verbatim>\<open>Sleep\<close> (\<^verbatim>\<open>src/margo-core.c\<close>): \<^verbatim>\<open>margo_thread_sleep\<close> among all other users of timers; it lasts as long as it should and is woken up once.
  \<^item> \<^verbatim>\<open>Requests\<close> (\<^verbatim>\<open>src/margo-core.c\<close>): forward, respond and bulk transfers in their blocking, nonblocking and
    callback forms, with timeouts; what is acquired is released, errors leave nothing behind.
  \<^item> \<^verbatim>\<open>Serialization\<close> (\<^verbatim>\<open>src/margo-serialization.h\<close>, \<^verbatim>\<open>src/margo-core.c\<close>): the headers around user data.
  \<^item> \<^verbatim>\<open>Abt_Registry\<close> and \<^verbatim>\<open>Config_Api\<close> (\<^verbatim>\<open>src/margo-abt-config.c\<close>, \<^verbatim>\<open>src/margo-config.c\<close>): the arrays of pools and streams,
    their reference counts and the public operations on them; names and handles stay unique, counts
    agree with the streams, only unused pools are removed.
  \<^item> \<^verbatim>\<open>Rpc_Registry\<close> (\<^verbatim>\<open>src/margo-core.c\<close>): registration of RPCs and the references that they hold on pools.
  \<^item> \<^verbatim>\<open>Rpc_Handler\<close> (the handler macros of \<^verbatim>\<open>include/margo.h\<close>, \<^verbatim>\<open>src/margo-core.c\<close>): the path of an RPC at its target, from the call of the handler
    to the end of its ULT; it composes handles, shutdown, registration and serialization. An RPC is served or refused, and either way nothing it holds is kept.
  \<^item> \<^verbatim>\<open>Json_Config\<close> and \<^verbatim>\<open>Abt_Config\<close> (\<^verbatim>\<open>src/margo-macros.h\<close>, \<^verbatim>\<open>src/margo-abt-config.c\<close>): JSON values, validation and
    initialization of the Argobots environment and its output; accepted configurations can be
    built, and the output is accepted and describes the environment.
  \<^item> \<^verbatim>\<open>Hg_Config\<close> (\<^verbatim>\<open>src/margo-hg-config.c\<close>): validation of the Mercury section, creation of class, context and address with
    its error path, output and destruction; the output gives the same parameters again.
  \<^item> \<^verbatim>\<open>Init\<close> (\<^verbatim>\<open>src/margo-init.c\<close>): validation of a whole configuration, with and without a parent instance, the choice of the progress
    and handler pools and the order of the steps; accepted configurations give the instance that they describe,
    and a failure undoes the calls to Mercury.
  \<^item> \<^verbatim>\<open>Life_Cycle\<close> (\<^verbatim>\<open>src/margo-core.c\<close>): the functions that initialize with few arguments, and \<^verbatim>\<open>margo_cleanup\<close>; initialization and cleanup
    together leave Mercury, Argobots, the globals and a parent as they were.
  \<^item> \<^verbatim>\<open>Full_Config\<close> (\<^verbatim>\<open>src/margo-config.c\<close>): the configuration that an instance prints, which validation accepts and which describes the
    instance again, and the transfer of the contents of pools.
  \<^item> \<^verbatim>\<open>Sanity_Check\<close> (\<^verbatim>\<open>src/margo-init.c\<close>, \<^verbatim>\<open>src/margo-util.c\<close>, \<^verbatim>\<open>src/margo-abt-config.c\<close>): the warnings about pools and streams, which are
    exact, and the environment variables of Argobots, which are read back as they were set.
  \<^item> \<^verbatim>\<open>Plumber\<close> (\<^verbatim>\<open>src/mochi-plumber.c\<close>): the choice of a network interface; round robin is fair, and an address only gets an
    interface of the bucket of the process.
  \<^item> \<^verbatim>\<open>Logging\<close> (\<^verbatim>\<open>src/margo-logging.c\<close>): loggers and levels; messages go exactly where the calls, the environment and the default ask for.
  \<^item> \<^verbatim>\<open>Builtin_Rpcs\<close> (\<^verbatim>\<open>src/margo-identity.c\<close>, \<^verbatim>\<open>src/margo-core.c\<close>, \<^verbatim>\<open>src/margo-init.c\<close>): identities of providers, which refine a map and
    arrive at the client, and remote shutdown.
  \<^item> \<^verbatim>\<open>Hg_Shim\<close> (\<^verbatim>\<open>src/margo-hg-shim.c\<close>): programs without Margo, which understand instances of Margo and conversely.
  \<^item> \<^verbatim>\<open>Monitor_Stats\<close>, \<^verbatim>\<open>Monitoring\<close>, \<^verbatim>\<open>Monitor_Output\<close> and \<^verbatim>\<open>Monitor_Life\<close> (\<^verbatim>\<open>src/margo-default-monitoring.c\<close>, \<^verbatim>\<open>src/margo-monitoring.c\<close>): the statistics, time series and address identifiers of
    the default monitoring, its callbacks, its output, its dumps and files and the functions of the interface; statistics are exact, an RPC is accounted for once at its origin and at its
    target, the progress loop is sampled regularly, what is printed is found under its path with its values, and dumps with a reset report intervals.

  \<^item> \<^verbatim>\<open>Uthash\<close> (\<^verbatim>\<open>src/uthash.h\<close>, \<^verbatim>\<open>src/margo-default-monitoring.c\<close>): the hash tables of the default monitoring with their chained buckets, the doubling of
    the number of buckets and the loops that free them at the end; a table refines a map from keys to elements in the order of their addition, which is how
    \<^verbatim>\<open>Monitoring\<close> describes it, and every element is freed exactly once.

  Each theory states the invariant of its component and proves that every operation keeps it, then
  the behaviour of the operations; theorems that are properties of the program stand behind a text
  that states them, with a theorem \<^verbatim>\<open>_witness\<close> that applies them to a concrete state.

  \<^bold>\<open>Interfaces.\<close> Besides the two contracts above: \<^verbatim>\<open>named_table\<close> (\<^verbatim>\<open>Abt_Registry\<close>) is a table searched by name and
  handle, interpreted for pools and for streams; \<^verbatim>\<open>ref_table\<close> (\<^verbatim>\<open>Rpc_Registry\<close>) is a table of reference
  counts that covers its users, interpreted for the pools and the RPCs; \<^verbatim>\<open>statistics_printer\<close> (\<^verbatim>\<open>Monitor_Output\<close>) is a
  loop that prints a table of statistics and resets them, interpreted for the four tables of the monitoring.

  \<^bold>\<open>Not modelled.\<close> Inside the operations of other components, log messages and the calls of monitoring callbacks, which do not
  change the library's state. Of the default monitoring, the release of the session arenas, the key and the strings at the end, and
  the host name, process id and command line inside the output. Functions that only pass their arguments on to Mercury (addresses, bulk handles). The
  profiler \<^verbatim>\<open>src/abtx_prof.h\<close>, and the macros of
  \<^verbatim>\<open>src/uthash.h\<close> and \<^verbatim>\<open>src/utlist.h\<close> that the library does not use are third-party code; \<^verbatim>\<open>src/margo-info.c\<close>, the examples and the tests are programs that use the library.
\<close>

end
